(* ===== verification/Prelude.thy ===== *)
theory Prelude
  imports Complex_Main "HOL-Library.Word" "HOL-Library.AList" "HOL-Library.Sublist"
    "HOL-Library.Code_Target_Numeral"
begin

text \<open>
  Shared vocabulary of the development: byte strings, Python's exceptions as a datatype,
  insertion-ordered dictionaries as association lists, the big-endian reading of byte
  strings that \<^verbatim>\<open>int(hexlify(b), 16)\<close> and \<^verbatim>\<open>struct\<close> use, binary digit strings and the
  generic lemmas about them that several components rest on.
\<close>

section \<open>Types shared by the components\<close>

type_synonym byte = "8 word"
type_synonym bytes = "byte list"

text \<open>Seconds, as \<^verbatim>\<open>time.time()\<close> returns them. Floating-point rounding is not modelled.\<close>

type_synonym seconds = rat

text \<open>The exceptions the modelled code raises or catches.\<close>

datatype py_error =
    KeyError
  | IndexError
  | ValueError
  | TypeError
  | AttributeError
  | OSError
  | StructError
  | OverflowError
  | UnicodeError
  | RuntimeError
  | AssertionError
  | PackError
  | DHTError
  | ZeroDivisionError
  | NotImplementedError
  | CryptoException
  | PacketDecodingError
  | StopIteration
  | InvalidStateError

text \<open>
  An operation that can raise returns \<open>py_error + 'a\<close>, the exception on the left.
  A method that changes its object and can raise returns the object as it is afterwards,
  raised or not, together with such a result.
\<close>

type_synonym 'a result = "py_error + 'a"

abbreviation raise :: "py_error \<Rightarrow> 'a result" where
  "raise \<equiv> Inl"

abbreviation return :: "'a \<Rightarrow> 'a result" where
  "return \<equiv> Inr"

definition bind_result :: "'a result \<Rightarrow> ('a \<Rightarrow> 'b result) \<Rightarrow> 'b result" where
  "bind_result r f = (case r of Inl e \<Rightarrow> Inl e | Inr x \<Rightarrow> f x)"

lemma bind_result_simps [simp]:
  "bind_result (Inl e) f = Inl e"
  "bind_result (Inr x) f = f x"
  by (simp_all add: bind_result_def)

lemma bind_result_eq_Inr:
  "bind_result r f = Inr y \<longleftrightarrow> (\<exists>x. r = Inr x \<and> f x = Inr y)"
  by (cases r) auto

lemma bind_result_eq_Inl:
  "bind_result r f = Inl e \<longleftrightarrow> r = Inl e \<or> (\<exists>x. r = Inr x \<and> f x = Inl e)"
  by (cases r) auto

text \<open>Applying a function that can raise along a list, left to right.\<close>

fun map_result :: "('a \<Rightarrow> 'b result) \<Rightarrow> 'a list \<Rightarrow> 'b list result" where
  "map_result f [] = return []"
| "map_result f (x # xs) =
     bind_result (f x) (\<lambda>y. bind_result (map_result f xs) (\<lambda>ys. return (y # ys)))"

fun filter_result :: "('a \<Rightarrow> bool result) \<Rightarrow> 'a list \<Rightarrow> 'a list result" where
  "filter_result f [] = return []"
| "filter_result f (x # xs) =
     bind_result (f x) (\<lambda>b. bind_result (filter_result f xs)
       (\<lambda>ys. return (if b then x # ys else ys)))"

lemma map_result_return:
  "(\<And>x. x \<in> set xs \<Longrightarrow> f x = return (g x)) \<Longrightarrow> map_result f xs = return (map g xs)"
  by (induction xs) auto

lemma filter_result_return:
  "(\<And>x. x \<in> set xs \<Longrightarrow> f x = return (g x)) \<Longrightarrow> filter_result f xs = return (filter g xs)"
  by (induction xs) auto

lemma length_map_result: "map_result f xs = return ys \<Longrightarrow> length ys = length xs"
  by (induction xs arbitrary: ys) (auto simp: bind_result_eq_Inr)

text \<open>An ASCII string literal as bytes.\<close>

definition ascii_bytes :: "string \<Rightarrow> bytes" where
  "ascii_bytes s = map (\<lambda>c. of_nat (of_char c)) s"

section \<open>Dictionaries\<close>

text \<open>
  A Python \<^verbatim>\<open>dict\<close> (or \<^verbatim>\<open>OrderedDict\<close>) iterates in insertion order; assigning to a present
  key keeps its place. It is an association list with distinct keys, updated by
  \<^const>\<open>AList.update\<close> and \<^const>\<open>AList.delete\<close>.
\<close>

type_synonym ('k, 'v) dict = "('k \<times> 'v) list"

abbreviation dict_get :: "('k, 'v) dict \<Rightarrow> 'k \<Rightarrow> 'v option" where
  "dict_get \<equiv> map_of"

abbreviation dict_set :: "'k \<Rightarrow> 'v \<Rightarrow> ('k, 'v) dict \<Rightarrow> ('k, 'v) dict" where
  "dict_set \<equiv> AList.update"

abbreviation dict_del :: "'k \<Rightarrow> ('k, 'v) dict \<Rightarrow> ('k, 'v) dict" where
  "dict_del \<equiv> AList.delete"

abbreviation dict_keys :: "('k, 'v) dict \<Rightarrow> 'k list" where
  "dict_keys d \<equiv> map fst d"

abbreviation dict_values :: "('k, 'v) dict \<Rightarrow> 'v list" where
  "dict_values d \<equiv> map snd d"

definition dict_wf :: "('k, 'v) dict \<Rightarrow> bool" where
  "dict_wf d \<longleftrightarrow> distinct (map fst d)"

text \<open>\<^verbatim>\<open>popitem(False)\<close>: drop the oldest entry.\<close>

definition dict_popfirst :: "('k, 'v) dict \<Rightarrow> ('k, 'v) dict" where
  "dict_popfirst d = tl d"

named_theorems dict_simps \<open>how the dictionary operations act on lookup, keys and size\<close>

lemma dict_get_set [dict_simps]: "dict_get (dict_set k v d) = (dict_get d)(k \<mapsto> v)"
  by (rule update_conv')

lemma dict_get_del [dict_simps]: "dict_get (dict_del k d) = (dict_get d)(k := None)"
  by (rule delete_conv')

lemma dict_wf_Nil [simp]: "dict_wf []"
  by (simp add: dict_wf_def)

lemma dict_wf_set [simp]: "dict_wf d \<Longrightarrow> dict_wf (dict_set k v d)"
  by (simp add: dict_wf_def distinct_update)

lemma dict_wf_del [simp]: "dict_wf d \<Longrightarrow> dict_wf (dict_del k d)"
  by (simp add: dict_wf_def distinct_delete)

lemma dict_wf_popfirst [simp]: "dict_wf d \<Longrightarrow> dict_wf (dict_popfirst d)"
  by (cases d) (simp_all add: dict_wf_def dict_popfirst_def)

lemma dict_set_keys [dict_simps]:
  "map fst (dict_set k v d) = (if k \<in> set (map fst d) then map fst d else map fst d @ [k])"
  by (rule update_keys)

lemma dict_set_fresh: "dict_get d k = None \<Longrightarrow> dict_set k v d = d @ [(k, v)]"
  by (induction d) (auto split: if_splits)

lemma length_dict_set [dict_simps]:
  "length (dict_set k v d) = (if dict_get d k = None then Suc (length d) else length d)"
  by (induction d) auto

lemma length_dict_del:
  "dict_wf d \<Longrightarrow> length (dict_del k d) = (if dict_get d k = None then length d else length d - 1)"
proof (induction d)
  case (Cons p d)
  show ?case
  proof (cases "fst p = k")
    case True
    with Cons.prems have "dict_get d k = None" and "dict_del k d = d"
      by (auto simp: dict_wf_def map_of_eq_None_iff)
    with True show ?thesis by simp
  next
    case False
    moreover from Cons.prems have "dict_wf d" by (simp add: dict_wf_def)
    moreover have "dict_get d k \<noteq> None \<Longrightarrow> length d \<noteq> 0" by auto
    ultimately show ?thesis using Cons.IH by auto
  qed
qed simp

lemma set_dict_values_wf:
  "dict_wf d \<Longrightarrow> set (dict_values d) = ran (dict_get d)"
  by (simp add: dict_wf_def ran_distinct)

lemma in_set_dict_wf:
  "dict_wf d \<Longrightarrow> (k, v) \<in> set d \<longleftrightarrow> dict_get d k = Some v"
  by (simp add: dict_wf_def)

lemma dict_set_items:
  "dict_wf d \<Longrightarrow> set (dict_set k v d) = insert (k, v) {p \<in> set d. fst p \<noteq> k}"
  by (induction d) (auto simp: dict_wf_def rev_image_eqI)

lemma dict_del_items: "set (dict_del k d) = {p \<in> set d. fst p \<noteq> k}"
  by (auto simp: AList.delete_eq)

section \<open>Big-endian byte strings\<close>

text \<open>
  \<open>nat_of_bytes\<close> is \<^verbatim>\<open>int(hexlify(b), 16)\<close> on a non-empty byte string, and what
  \<^verbatim>\<open>struct\<close> reads for an unsigned big-endian field; \<open>bytes_of_nat n v\<close> are the lowest
  \<open>n\<close> bytes of \<open>v\<close>, which \<^verbatim>\<open>struct\<close> writes and \<^verbatim>\<open>int.to_bytes(n, "big")\<close> returns.
\<close>

definition nat_of_bytes :: "bytes \<Rightarrow> nat" where
  "nat_of_bytes bs = foldl (\<lambda>a b. 256 * a + unat b) 0 bs"

fun bytes_of_nat :: "nat \<Rightarrow> nat \<Rightarrow> bytes" where
  "bytes_of_nat 0 v = []"
| "bytes_of_nat (Suc n) v = bytes_of_nat n (v div 256) @ [of_nat (v mod 256)]"

lemma length_bytes_of_nat [simp]: "length (bytes_of_nat n v) = n"
  by (induction n v rule: bytes_of_nat.induct) auto

lemma nat_of_bytes_Nil [simp]: "nat_of_bytes [] = 0"
  by (simp add: nat_of_bytes_def)

lemma nat_of_bytes_snoc [simp]: "nat_of_bytes (bs @ [b]) = 256 * nat_of_bytes bs + unat b"
  by (simp add: nat_of_bytes_def)

lemma unat_byte_less [simp]: "unat (b :: byte) < 256"
  using unsigned_less [of b, where 'a = nat] by simp

lemma unat_of_nat_byte [simp]: "v < 256 \<Longrightarrow> unat (of_nat v :: byte) = v"
  by (simp add: unat_of_nat)

lemma nat_of_bytes_less: "nat_of_bytes bs < 256 ^ length bs"
proof (induction bs rule: rev_induct)
  case (snoc b bs)
  have "256 * nat_of_bytes bs + unat b < 256 * (nat_of_bytes bs + 1)" by simp
  also have "\<dots> \<le> 256 * 256 ^ length bs" using snoc by simp
  finally show ?case by simp
qed simp

lemma nat_of_bytes_of_nat: "v < 256 ^ n \<Longrightarrow> nat_of_bytes (bytes_of_nat n v) = v"
proof (induction n arbitrary: v)
  case (Suc n)
  then have "v div 256 < 256 ^ n" by (simp add: less_mult_imp_div_less mult.commute)
  with Suc.IH [of "v div 256"] show ?case by simp
qed simp

lemma bytes_of_nat_of_bytes: "bytes_of_nat (length bs) (nat_of_bytes bs) = bs"
  by (induction bs rule: rev_induct) simp_all

lemma nat_of_bytes_inject:
  "length xs = length ys \<Longrightarrow> nat_of_bytes xs = nat_of_bytes ys \<longleftrightarrow> xs = ys"
  using bytes_of_nat_of_bytes by metis

section \<open>Decimal and binary digit strings\<close>

text \<open>\<^verbatim>\<open>str(n)\<close> of a non-negative integer.\<close>

definition digit_char :: "nat \<Rightarrow> char" where
  "digit_char d = char_of (48 + d)"

fun dec_string :: "nat \<Rightarrow> string" where
  "dec_string n = (if n < 10 then [digit_char n] else dec_string (n div 10) @ [digit_char (n mod 10)])"

declare dec_string.simps [simp del]

definition int_string :: "int \<Rightarrow> string" where
  "int_string i = (if i < 0 then ''-'' @ dec_string (nat (- i)) else dec_string (nat i))"

text \<open>\<^verbatim>\<open>sep.join(xs)\<close>\<close>

fun join_with :: "string \<Rightarrow> string list \<Rightarrow> string" where
  "join_with sep [] = []"
| "join_with sep [x] = x"
| "join_with sep (x # y # xs) = x @ sep @ join_with sep (y # xs)"

text \<open>
  \<open>bits_of_nat w n\<close> are the lowest \<open>w\<close> binary digits of \<open>n\<close>, most significant first;
  \<^verbatim>\<open>format(n, "b")\<close> writes as many digits as \<open>n\<close> has.
\<close>

fun bits_of_nat :: "nat \<Rightarrow> nat \<Rightarrow> bool list" where
  "bits_of_nat 0 n = []"
| "bits_of_nat (Suc w) n = bits_of_nat w (n div 2) @ [odd n]"

definition nat_of_bits :: "bool list \<Rightarrow> nat" where
  "nat_of_bits xs = foldl (\<lambda>a b. 2 * a + of_bool b) 0 xs"

lemma length_bits_of_nat [simp]: "length (bits_of_nat w n) = w"
  by (induction w n rule: bits_of_nat.induct) auto

lemma nat_of_bits_Nil [simp]: "nat_of_bits [] = 0"
  by (simp add: nat_of_bits_def)

lemma nat_of_bits_snoc [simp]: "nat_of_bits (xs @ [b]) = 2 * nat_of_bits xs + of_bool b"
  by (simp add: nat_of_bits_def)

lemma nat_of_bits_of_nat: "n < 2 ^ w \<Longrightarrow> nat_of_bits (bits_of_nat w n) = n"
proof (induction w arbitrary: n)
  case (Suc w)
  then have "n div 2 < 2 ^ w" by (simp add: less_mult_imp_div_less mult.commute)
  with Suc.IH [of "n div 2"] show ?case by (simp add: odd_two_times_div_two_succ)
qed simp

lemma nat_of_bits_less: "nat_of_bits xs < 2 ^ length xs"
  by (induction xs rule: rev_induct) auto

lemma bits_of_nat_of_bits: "bits_of_nat (length xs) (nat_of_bits xs) = xs"
  by (induction xs rule: rev_induct) auto

lemma nat_of_bits_append: "nat_of_bits (xs @ ys) = nat_of_bits xs * 2 ^ length ys + nat_of_bits ys"
proof (induction ys rule: rev_induct)
  case (snoc b ys)
  have "nat_of_bits (xs @ ys @ [b]) = 2 * nat_of_bits (xs @ ys) + of_bool b"
    using nat_of_bits_snoc [of "xs @ ys" b] by simp
  with snoc show ?case by (simp add: algebra_simps)
qed simp

lemma nat_of_bits_inject:
  "length xs = length ys \<Longrightarrow> nat_of_bits xs = nat_of_bits ys \<longleftrightarrow> xs = ys"
  using bits_of_nat_of_bits by metis

fun binary_digits :: "nat \<Rightarrow> bool list" where
  "binary_digits n = (if n < 2 then [n = 1] else binary_digits (n div 2) @ [odd n])"

declare binary_digits.simps [simp del]

definition bit_char :: "bool \<Rightarrow> char" where
  "bit_char b = (if b then CHR ''1'' else CHR ''0'')"

text \<open>\<^verbatim>\<open>format(n, "0<w>b")\<close>: binary digits, padded with zeros on the left to width \<open>w\<close>.\<close>

definition format_binary :: "nat \<Rightarrow> nat \<Rightarrow> string" where
  "format_binary w n =
     (let ds = binary_digits n in map bit_char (replicate (w - length ds) False @ ds))"

lemma bit_char_inject [simp]: "bit_char a = bit_char b \<longleftrightarrow> a = b"
  by (simp add: bit_char_def)

lemma map_bit_char_inject [simp]: "map bit_char xs = map bit_char ys \<longleftrightarrow> xs = ys"
  by (rule inj_map_eq_map) (simp add: inj_def)

lemma binary_digits_bits:
  "n < 2 ^ w \<Longrightarrow> 0 < w \<Longrightarrow> length (binary_digits n) \<le> w \<and>
     replicate (w - length (binary_digits n)) False @ binary_digits n = bits_of_nat w n"
proof (induction n arbitrary: w rule: binary_digits.induct)
  case (1 n)
  obtain w' where w: "w = Suc w'" using "1.prems" by (cases w) auto
  have zeros: "bits_of_nat k 0 = replicate k False" for k
    by (induction k) (simp_all add: replicate_append_same)
  show ?case
  proof (cases "n < 2")
    case True
    then have "n = 0 \<or> n = 1" by auto
    then show ?thesis by (auto simp: w binary_digits.simps [of n] zeros)
  next
    case False
    with "1.prems" have "n div 2 < 2 ^ w'" by (simp add: w less_mult_imp_div_less mult.commute)
    moreover from False this have "0 < w'" by (cases w') auto
    ultimately have "length (binary_digits (n div 2)) \<le> w'"
      "replicate (w' - length (binary_digits (n div 2))) False @ binary_digits (n div 2) =
        bits_of_nat w' (n div 2)"
      using "1.IH" [OF False] by blast+
    with False show ?thesis by (simp add: w binary_digits.simps [of n])
  qed
qed

lemma format_binary_bits:
  "n < 2 ^ w \<Longrightarrow> 0 < w \<Longrightarrow> format_binary w n = map bit_char (bits_of_nat w n)"
  using binary_digits_bits [of n w] by (simp only: format_binary_def Let_def)

end
