(* ===== verification/Sockets.thy ===== *)
theory Sockets
  imports Prelude
begin

unbundle bit_operations_syntax

text \<open>
  What the code uses of the standard library to read and print addresses: the text forms
  of IPv4 and IPv6 addresses (\<^verbatim>\<open>socket.inet_aton\<close>, \<^verbatim>\<open>inet_ntoa\<close>, \<^verbatim>\<open>inet_pton\<close>,
  \<^verbatim>\<open>inet_ntop\<close>, as the C library behind them behaves) and the checksum
  \<^verbatim>\<open>binascii.crc32\<close>. An address that does not parse is \<open>None\<close> (an \<^verbatim>\<open>OSError\<close> in Python).
\<close>

section \<open>Digits\<close>

definition digit_in_base :: "nat \<Rightarrow> char \<Rightarrow> nat option" where
  "digit_in_base base c =
     (let n = of_char c :: nat;
          d = (if 48 \<le> n \<and> n \<le> 57 then Some (n - 48)
               else if 97 \<le> n \<and> n \<le> 102 then Some (n - 87)
               else if 65 \<le> n \<and> n \<le> 70 then Some (n - 55)
               else None)
      in case d of Some v \<Rightarrow> if v < base then Some v else None | None \<Rightarrow> None)"

fun scan_number :: "nat \<Rightarrow> nat \<Rightarrow> string \<Rightarrow> nat \<times> string" where
  "scan_number base acc [] = (acc, [])"
| "scan_number base acc (c # cs) =
     (case digit_in_base base c of
        Some d \<Rightarrow> scan_number base (acc * base + d) cs
      | None \<Rightarrow> (acc, c # cs))"

text \<open>\<^verbatim>\<open>strtoul(s, &end, 0)\<close> on a string that starts with a decimal digit.\<close>

definition strtoul0 :: "string \<Rightarrow> nat \<times> string" where
  "strtoul0 s =
     (case s of
        z # x # h # rest \<Rightarrow>
          if z = CHR ''0'' \<and> (x = CHR ''x'' \<or> x = CHR ''X'') \<and> digit_in_base 16 h \<noteq> None
          then scan_number 16 0 (h # rest)
          else if z = CHR ''0'' then scan_number 8 0 s
          else scan_number 10 0 s
      | z # rest \<Rightarrow> if z = CHR ''0'' then scan_number 8 0 s else scan_number 10 0 s
      | [] \<Rightarrow> (0, []))"

definition is_space :: "char \<Rightarrow> bool" where
  "is_space c \<longleftrightarrow> (let n = of_char c :: nat in n = 32 \<or> (9 \<le> n \<and> n \<le> 13))"

section \<open>IPv4 text\<close>

text \<open>
  \<^verbatim>\<open>inet_aton\<close>: one to four numbers (decimal, octal or hexadecimal); the last fills the
  remaining bytes. The first argument counts the dots still allowed.
\<close>

fun aton_loop :: "nat \<Rightarrow> bytes \<Rightarrow> string \<Rightarrow> bytes option" where
  "aton_loop k acc s =
     (case s of
        [] \<Rightarrow> None
      | c # _ \<Rightarrow>
          if digit_in_base 10 c = None then None
          else
            (let (v, rest) = strtoul0 s
             in if v > 4294967295 then None
                else if rest \<noteq> [] \<and> hd rest = CHR ''.'' then
                  (case k of
                     0 \<Rightarrow> None
                   | Suc k' \<Rightarrow> if v > 255 then None else aton_loop k' (acc @ [of_nat v]) (tl rest))
                else if rest = [] \<or> is_space (hd rest) then
                  (if v < 256 ^ (4 - length acc) then Some (acc @ bytes_of_nat (4 - length acc) v)
                   else None)
                else None))"

declare aton_loop.simps [simp del]

definition inet_aton :: "string \<Rightarrow> bytes option" where
  "inet_aton s = aton_loop 3 [] s"

definition inet_ntoa :: "bytes \<Rightarrow> string" where
  "inet_ntoa b = join_with ''.'' (map (\<lambda>x. dec_string (unat x)) b)"

text \<open>
  \<^verbatim>\<open>inet_pton(AF_INET, s)\<close>: exactly four decimal octets without leading zeros. The state is
  the octets completed and the one being read.
\<close>

fun pton4_loop :: "bytes \<Rightarrow> nat option \<Rightarrow> string \<Rightarrow> bytes option" where
  "pton4_loop octets cur [] =
     (case cur of
        Some v \<Rightarrow> if length octets = 3 then Some (octets @ [of_nat v]) else None
      | None \<Rightarrow> None)"
| "pton4_loop octets cur (c # cs) =
     (case digit_in_base 10 c of
        Some d \<Rightarrow>
          (case cur of
             Some v \<Rightarrow>
               if v = 0 then None
               else if v * 10 + d > 255 then None
               else pton4_loop octets (Some (v * 10 + d)) cs
           | None \<Rightarrow> if length octets = 4 then None else pton4_loop octets (Some d) cs)
      | None \<Rightarrow>
          (case cur of
             Some v \<Rightarrow>
               if c = CHR ''.'' \<and> length octets \<noteq> 3 then pton4_loop (octets @ [of_nat v]) None cs
               else None
           | None \<Rightarrow> None))"

definition inet_pton4 :: "string \<Rightarrow> bytes option" where
  "inet_pton4 s = pton4_loop [] None s"

definition inet_ntop4 :: "bytes \<Rightarrow> string" where
  "inet_ntop4 = inet_ntoa"

section \<open>IPv6 text\<close>

text \<open>
  \<^verbatim>\<open>inet_pton(AF_INET6, s)\<close>: the state is the bytes written, the position of \<^verbatim>\<open>::\<close> if it was
  seen, the value and number of hexadecimal digits of the current group, and the text from
  the start of that group (for a trailing dotted quad). \<open>pton6_end\<close> is what follows the loop.
\<close>

definition pton6_end :: "bytes \<Rightarrow> nat option \<Rightarrow> nat \<Rightarrow> nat \<Rightarrow> bytes option" where
  "pton6_end out colonp val xdigits =
     (let out' = (if xdigits > 0 then out @ bytes_of_nat 2 val else out)
      in if length out' > 16 then None
         else case colonp of
             None \<Rightarrow> if length out' = 16 then Some out' else None
           | Some p \<Rightarrow>
               if length out' = 16 then None
               else Some (take p out' @ replicate (16 - length out') 0 @ drop p out'))"

fun pton6_loop :: "bytes \<Rightarrow> nat option \<Rightarrow> nat \<Rightarrow> nat \<Rightarrow> string \<Rightarrow> string \<Rightarrow> bytes option" where
  "pton6_loop out colonp val xdigits curtok [] = pton6_end out colonp val xdigits"
| "pton6_loop out colonp val xdigits curtok (c # cs) =
     (case digit_in_base 16 c of
        Some d \<Rightarrow>
          if xdigits = 4 then None
          else pton6_loop out colonp (val * 16 + d) (Suc xdigits) curtok cs
      | None \<Rightarrow>
          if c = CHR '':'' then
            (if xdigits = 0 then
               (if colonp \<noteq> None then None else pton6_loop out (Some (length out)) val 0 cs cs)
             else if cs = [] then None
             else if length out + 2 > 16 then None
             else pton6_loop (out @ bytes_of_nat 2 val) colonp 0 0 cs cs)
          else if c = CHR ''.'' \<and> length out + 4 \<le> 16 then
            (case inet_pton4 curtok of
               None \<Rightarrow> None
             | Some q \<Rightarrow> pton6_end (out @ q) colonp 0 0)
          else None)"

definition inet_pton6 :: "string \<Rightarrow> bytes option" where
  "inet_pton6 s =
     (case s of
        [] \<Rightarrow> None
      | [c] \<Rightarrow> if c = CHR '':'' then None else pton6_loop [] None 0 0 s s
      | c # d # cs \<Rightarrow>
          if c = CHR '':'' then
            (if d \<noteq> CHR '':'' then None else pton6_loop [] None 0 0 (d # cs) (d # cs))
          else pton6_loop [] None 0 0 s s)"

text \<open>
  \<^verbatim>\<open>inet_ntop(AF_INET6, b)\<close>: the first longest run of at least two zero groups is written
  \<^verbatim>\<open>::\<close>; addresses that embed an IPv4 address end in a dotted quad.
\<close>

fun words_of :: "bytes \<Rightarrow> nat list" where
  "words_of (a # b # rest) = nat_of_bytes [a, b] # words_of rest"
| "words_of _ = []"

definition zero_run :: "nat list \<Rightarrow> nat \<Rightarrow> nat" where
  "zero_run ws i = length (takeWhile (\<lambda>w. w = 0) (drop i ws))"

definition best_run :: "nat list \<Rightarrow> nat \<times> nat" where
  "best_run ws =
     foldl (\<lambda>(base, len) i. if zero_run ws i > len then (i, zero_run ws i) else (base, len))
       (0, 0) [0..<length ws]"

definition hex_digit_char :: "nat \<Rightarrow> char" where
  "hex_digit_char d = (if d < 10 then digit_char d else char_of (87 + d))"

fun hex_string :: "nat \<Rightarrow> string" where
  "hex_string n = (if n < 16 then [hex_digit_char n] else hex_string (n div 16) @ [hex_digit_char (n mod 16)])"

declare hex_string.simps [simp del]

definition inet_ntop6 :: "bytes \<Rightarrow> string" where
  "inet_ntop6 b =
     (let ws = words_of b; (base, len) = best_run ws;
          group = (\<lambda>i. (if i \<noteq> 0 then '':'' else []) @ hex_string (ws ! i))
      in if len < 2 then concat (map group [0..<8])
         else if base = 0 \<and> (len = 6 \<or> len = 5 \<and> ws ! 5 = 0xffff) then
           '':'' @ concat (map group [len..<6]) @ '':'' @ inet_ntop4 (drop 12 b)
         else concat (map group [0..<base]) @ '':'' @ concat (map group [base + len..<8]) @
              (if base + len = 8 then '':'' else []))"

lemma pton4_loop_length: "pton4_loop octets cur s = Some b \<Longrightarrow> length b = 4"
  by (induction octets cur s rule: pton4_loop.induct) (auto split: option.splits if_splits)

lemma length_inet_pton4: "inet_pton4 s = Some b \<Longrightarrow> length b = 4"
  unfolding inet_pton4_def by (rule pton4_loop_length)

lemma aton_loop_length: "length acc + k = 3 \<Longrightarrow> aton_loop k acc s = Some b \<Longrightarrow> length b = 4"
proof (induction k arbitrary: acc s)
  case 0
  then show ?case
    by (subst (asm) aton_loop.simps) (auto split: list.splits if_splits prod.splits)
next
  case (Suc k)
  from Suc.prems(1) have acc: "length (acc @ [x]) + k = 3" for x :: byte by simp
  from Suc.prems show ?case
    by (subst (asm) aton_loop.simps)
      (auto split: list.splits if_splits prod.splits intro: Suc.IH [OF acc])
qed

lemma length_inet_aton: "inet_aton s = Some b \<Longrightarrow> length b = 4"
  unfolding inet_aton_def by (rule aton_loop_length [of "[]" 3]) simp

lemma pton6_end_length:
  "pton6_end out colonp val xd = Some b \<Longrightarrow> (\<And>p. colonp = Some p \<Longrightarrow> p \<le> length out) \<Longrightarrow> length b = 16"
  by (fastforce simp: pton6_end_def Let_def split: if_splits option.splits)

lemma pton6_loop_length:
  "pton6_loop out colonp val xd tok s = Some b \<Longrightarrow> (\<And>p. colonp = Some p \<Longrightarrow> p \<le> length out) \<Longrightarrow>
     length b = 16"
proof (induction out colonp val xd tok s rule: pton6_loop.induct)
  case (1 out colonp val xd tok)
  then show ?case by (auto intro: pton6_end_length)
next
  case (2 out colonp val xd tok c cs)
  then show ?case
    by (auto split: option.splits if_splits intro: pton6_end_length) (fastforce intro: pton6_end_length)+
qed

lemma length_inet_pton6: "inet_pton6 s = Some b \<Longrightarrow> length b = 16"
  by (auto simp: inet_pton6_def simp del: pton6_loop.simps split: list.splits if_splits
      intro: pton6_loop_length)

section \<open>CRC-32\<close>

text \<open>\<^verbatim>\<open>binascii.crc32\<close>: the reflected polynomial \<^verbatim>\<open>0xEDB88320\<close>, initial and final complement.\<close>

definition crc32_bit :: "32 word \<Rightarrow> 32 word" where
  "crc32_bit c = (if bit c 0 then drop_bit 1 c XOR 0xEDB88320 else drop_bit 1 c)"

definition crc32_byte :: "32 word \<Rightarrow> byte \<Rightarrow> 32 word" where
  "crc32_byte c b = (crc32_bit ^^ 8) (c XOR ucast b)"

definition crc32 :: "bytes \<Rightarrow> 32 word" where
  "crc32 bs = foldl crc32_byte 0xFFFFFFFF bs XOR 0xFFFFFFFF"

text \<open>Evaluation: one bit at a time, each on a numeral.\<close>

lemma crc32_byte_unfold:
  "crc32_byte c b = crc32_bit (crc32_bit (crc32_bit (crc32_bit
     (crc32_bit (crc32_bit (crc32_bit (crc32_bit (c XOR ucast b))))))))"
  by (simp add: crc32_byte_def numeral_eq_Suc)

lemmas crc32_eval = crc32_def crc32_byte_unfold crc32_bit_def [of "numeral _"] crc32_bit_def [of 0]

lemma crc32_check_value: "crc32 [0x31, 0x32, 0x33, 0x34, 0x35, 0x36, 0x37, 0x38, 0x39] = 0xCBF43926"
  by (simp add: crc32_eval)

end
