(* ===== verification/Trie.thy ===== *)
theory Trie
  imports Prelude
begin

text \<open>
  The prefix tree of the DHT (\<^verbatim>\<open>ipv8/dht/trie.py\<close>): its nodes, its operations in the order
  of the source, the finite map it stands for, and the interface (a locale) through which
  the routing table uses it.
\<close>

section \<open>Nodes and tries\<close>

text \<open>
  \<^verbatim>\<open>class Node\<close>: an optional value and a dictionary from characters to child nodes.
  \<^verbatim>\<open>class Trie\<close>: the permitted characters and the root node.
\<close>

datatype 'v tnode =
  TNode (tvalue: "'v option") (children: "(char \<times> 'v tnode) list")

record 'v trie =
  alphabet :: string
  trie_root :: "'v tnode"

abbreviation new_node :: "'v tnode" where
  "new_node \<equiv> TNode None []"

definition new_trie :: "string \<Rightarrow> 'v trie" where
  "new_trie al = \<lparr>alphabet = al, trie_root = new_node\<rparr>"

text \<open>\<^verbatim>\<open>_find\<close>: follow the characters of the key from child to child.\<close>

fun find_node :: "'v tnode \<Rightarrow> string \<Rightarrow> 'v tnode option" where
  "find_node n [] = Some n"
| "find_node n (c # cs) =
     (case dict_get (children n) c of None \<Rightarrow> None | Some n' \<Rightarrow> find_node n' cs)"

definition trie_find :: "'v trie \<Rightarrow> string \<Rightarrow> 'v tnode option" where
  "trie_find t key = find_node (trie_root t) key"

text \<open>\<^verbatim>\<open>__getitem__\<close>\<close>

definition trie_getitem :: "'v trie \<Rightarrow> string \<Rightarrow> 'v result" where
  "trie_getitem t key =
     (case trie_find t key of
        None \<Rightarrow> raise KeyError
      | Some n \<Rightarrow> (case tvalue n of None \<Rightarrow> raise KeyError | Some v \<Rightarrow> return v))"

text \<open>
  \<^verbatim>\<open>__setitem__\<close>: walk down, creating missing nodes; a character outside the alphabet
  raises after the nodes before it have been created. The flag says whether the walk
  reached the end of the key.
\<close>

fun set_node :: "string \<Rightarrow> string \<Rightarrow> 'v \<Rightarrow> 'v tnode \<Rightarrow> 'v tnode \<times> bool" where
  "set_node al [] v n = (TNode (Some v) (children n), True)"
| "set_node al (c # cs) v n =
     (if c \<notin> set al then (n, False)
      else
        let next_node = (case dict_get (children n) c of None \<Rightarrow> new_node | Some n' \<Rightarrow> n');
            (next_node', ok) = set_node al cs v next_node
        in (TNode (tvalue n) (dict_set c next_node' (children n)), ok))"

definition trie_setitem :: "'v trie \<Rightarrow> string \<Rightarrow> 'v \<Rightarrow> 'v trie \<times> unit result" where
  "trie_setitem t key v =
     (let (r, ok) = set_node (alphabet t) key v (trie_root t)
      in (t\<lparr>trie_root := r\<rparr>, if ok then return () else raise DHTError))"

text \<open>
  \<^verbatim>\<open>__delitem__\<close>: the walk down collects the parents in \<^verbatim>\<open>toremove\<close> and finds no value
  (\<open>None\<close> here, a \<^verbatim>\<open>KeyError\<close> before anything changed) or clears it; the loop over
  \<^verbatim>\<open>toremove\<close> then detaches, bottom up, every node left without a value and children.
  Going down and coming back is one recursion.
\<close>

definition empty_node :: "'v tnode \<Rightarrow> bool" where
  "empty_node n \<longleftrightarrow> tvalue n = None \<and> children n = []"

fun del_node :: "string \<Rightarrow> 'v tnode \<Rightarrow> 'v tnode option" where
  "del_node [] n = (case tvalue n of None \<Rightarrow> None | Some _ \<Rightarrow> Some (TNode None (children n)))"
| "del_node (c # cs) n =
     (case dict_get (children n) c of
        None \<Rightarrow> None
      | Some n' \<Rightarrow>
          (case del_node cs n' of
             None \<Rightarrow> None
           | Some n'' \<Rightarrow>
               Some (TNode (tvalue n)
                 (if empty_node n'' then dict_del c (children n)
                  else dict_set c n'' (children n)))))"

text \<open>
  The list \<^verbatim>\<open>toremove\<close> starts with the pair of the empty string and the root: when even
  the root is left empty, the loop goes on to \<^verbatim>\<open>root.children.pop("")\<close>, which raises
  \<^verbatim>\<open>KeyError\<close> after the key has been removed.
\<close>

definition trie_delitem :: "'v trie \<Rightarrow> string \<Rightarrow> 'v trie \<times> unit result" where
  "trie_delitem t key =
     (case del_node key (trie_root t) of
        None \<Rightarrow> (t, raise KeyError)
      | Some r \<Rightarrow> (t\<lparr>trie_root := r\<rparr>, if empty_node r then raise KeyError else return ()))"

text \<open>\<^verbatim>\<open>itervalues\<close> and \<^verbatim>\<open>values\<close>: preorder, children in insertion order.\<close>

fun node_values :: "'v tnode \<Rightarrow> 'v list" where
  "node_values (TNode v ch) =
     (case v of None \<Rightarrow> [] | Some x \<Rightarrow> [x]) @ concat (map (\<lambda>p. node_values (snd p)) ch)"

definition trie_values :: "'v trie \<Rightarrow> 'v list" where
  "trie_values t = node_values (trie_root t)"

text \<open>
  \<^verbatim>\<open>longest_prefix_item\<close>: the loop keeps the last prefix whose node has a value. The test
  \<^verbatim>\<open>if value:\<close> asks for a truthy value, which is a parameter here; the optional default is
  an \<open>option\<close>, and the answer is either an item or that default.
\<close>

fun longest_prefix_loop ::
  "'v tnode \<Rightarrow> string \<Rightarrow> string \<Rightarrow> string \<times> 'v option \<Rightarrow> string \<times> 'v option" where
  "longest_prefix_loop n seen [] acc = acc"
| "longest_prefix_loop n seen (c # cs) acc =
     (case dict_get (children n) c of
        None \<Rightarrow> acc
      | Some n' \<Rightarrow>
          longest_prefix_loop n' (seen @ [c]) cs
            (case tvalue n' of None \<Rightarrow> acc | Some v \<Rightarrow> (seen @ [c], Some v)))"

definition longest_prefix_item ::
  "('v \<Rightarrow> bool) \<Rightarrow> 'v trie \<Rightarrow> string \<Rightarrow> 'd option \<Rightarrow> ((string \<times> 'v) + 'd) result" where
  "longest_prefix_item truthy t key dflt =
     (let (prefix, value) = longest_prefix_loop (trie_root t) [] key ([], None)
      in case value of
           Some v \<Rightarrow>
             if truthy v then return (Inl (prefix, v))
             else (case dflt of Some d \<Rightarrow> return (Inr d) | None \<Rightarrow> raise KeyError)
         | None \<Rightarrow> (case dflt of Some d \<Rightarrow> return (Inr d) | None \<Rightarrow> raise KeyError))"

definition longest_prefix ::
  "('v \<Rightarrow> bool) \<Rightarrow> 'v trie \<Rightarrow> string \<Rightarrow> 'd option \<Rightarrow> (string + 'd) result" where
  "longest_prefix truthy t key dflt =
     bind_result (longest_prefix_item truthy t key dflt)
       (\<lambda>r. case r of Inl (p, v) \<Rightarrow> return (Inl p) | Inr d \<Rightarrow> return (Inr d))"

definition longest_prefix_value ::
  "('v \<Rightarrow> bool) \<Rightarrow> 'v trie \<Rightarrow> string \<Rightarrow> 'd option \<Rightarrow> ('v + 'd) result" where
  "longest_prefix_value truthy t key dflt =
     bind_result (longest_prefix_item truthy t key dflt)
       (\<lambda>r. case r of Inl (p, v) \<Rightarrow> return (Inl v) | Inr d \<Rightarrow> return (Inr d))"

text \<open>
  \<^verbatim>\<open>suffixes\<close>: the source calls itself on \<^verbatim>\<open>key + char\<close> and searches from the root again,
  which finds the child it is iterating over (\<open>trie_suffixes_rec\<close> below); here the
  recursion goes to the child.
\<close>

definition append_new :: "string list \<Rightarrow> string \<Rightarrow> string list" where
  "append_new xs x = (if x \<in> set xs then xs else xs @ [x])"

fun node_suffixes :: "('v \<Rightarrow> bool) \<Rightarrow> 'v tnode \<Rightarrow> string list" where
  "node_suffixes truthy (TNode v ch) =
     foldl (\<lambda>acc p.
         foldl (\<lambda>acc nested. append_new acc (fst p # nested))
           (case tvalue (snd p) of
              None \<Rightarrow> acc
            | Some x \<Rightarrow> if truthy x then acc @ [[fst p]] else acc)
           (node_suffixes truthy (snd p)))
       (case v of None \<Rightarrow> [] | Some _ \<Rightarrow> [[]]) ch"

definition trie_suffixes :: "('v \<Rightarrow> bool) \<Rightarrow> 'v trie \<Rightarrow> string \<Rightarrow> string list" where
  "trie_suffixes truthy t key =
     (case trie_find t key of None \<Rightarrow> [] | Some n \<Rightarrow> node_suffixes truthy n)"


section \<open>The finite map a trie stands for\<close>

definition lookup_node :: "'v tnode \<Rightarrow> string \<Rightarrow> 'v option" where
  "lookup_node n key = Option.bind (find_node n key) tvalue"

definition trie_lookup :: "'v trie \<Rightarrow> string \<Rightarrow> 'v option" where
  "trie_lookup t = lookup_node (trie_root t)"

text \<open>
  Well-formedness: child dictionaries have distinct keys taken from the alphabet, and no
  child is a dead end.
\<close>

fun wf_tnode :: "string \<Rightarrow> 'v tnode \<Rightarrow> bool" where
  "wf_tnode al (TNode v ch) \<longleftrightarrow>
     dict_wf ch \<and> list_all (\<lambda>p. fst p \<in> set al \<and> \<not> empty_node (snd p) \<and> wf_tnode al (snd p)) ch"

definition wf_trie :: "'v trie \<Rightarrow> bool" where
  "wf_trie t \<longleftrightarrow> wf_tnode (alphabet t) (trie_root t)"

lemma lookup_node_Nil [simp]: "lookup_node n [] = tvalue n"
  by (simp add: lookup_node_def)

lemma lookup_node_Cons [simp]:
  "lookup_node n (c # cs) =
     (case dict_get (children n) c of None \<Rightarrow> None | Some n' \<Rightarrow> lookup_node n' cs)"
  by (simp add: lookup_node_def split: option.split)

lemma find_node_append:
  "find_node n (xs @ ys) = Option.bind (find_node n xs) (\<lambda>m. find_node m ys)"
  by (induction n xs rule: find_node.induct) (auto split: option.split)

lemma lookup_node_new [simp]: "lookup_node new_node k = None"
  by (cases k) auto

lemma wf_tnode_alt:
  "wf_tnode al n \<longleftrightarrow> dict_wf (children n) \<and>
     (\<forall>c m. dict_get (children n) c = Some m \<longrightarrow> c \<in> set al \<and> \<not> empty_node m \<and> wf_tnode al m)"
  by (cases n) (auto simp: list_all_iff Ball_def in_set_dict_wf)

lemma wf_tnode_childD:
  assumes "wf_tnode al n" and "dict_get (children n) c = Some m"
  shows "c \<in> set al" "\<not> empty_node m" "wf_tnode al m"
  using assms by (simp_all add: wf_tnode_alt [of al n])

declare wf_tnode.simps [simp del]

lemma wf_tnode_new [simp]: "wf_tnode al new_node"
  by (simp add: wf_tnode.simps)

lemma wf_tnode_value [simp]: "wf_tnode al (TNode v (children n)) = wf_tnode al n"
  by (simp add: wf_tnode_alt [of al n] wf_tnode_alt [of al "TNode _ _"])

lemma wf_tnode_set_child:
  "wf_tnode al n \<Longrightarrow> c \<in> set al \<Longrightarrow> wf_tnode al m \<Longrightarrow> \<not> empty_node m \<Longrightarrow>
     wf_tnode al (TNode v (dict_set c m (children n)))"
  by (auto simp: wf_tnode_alt [of al n] wf_tnode_alt [of al "TNode _ _"] dict_simps split: if_splits)

lemma wf_tnode_del_child:
  "wf_tnode al n \<Longrightarrow> wf_tnode al (TNode v (dict_del c (children n)))"
  by (auto simp: wf_tnode_alt [of al n] wf_tnode_alt [of al "TNode _ _"] dict_simps split: if_splits)

lemma wf_trie_new [simp]: "wf_trie (new_trie al)"
  by (simp add: wf_trie_def new_trie_def)

lemma trie_lookup_new [simp]: "trie_lookup (new_trie al) = Map.empty"
  by (simp add: trie_lookup_def new_trie_def fun_eq_iff)

lemma trie_getitem_lookup:
  "trie_getitem t key = (case trie_lookup t key of None \<Rightarrow> raise KeyError | Some v \<Rightarrow> return v)"
  by (simp add: trie_getitem_def trie_lookup_def lookup_node_def trie_find_def split: option.split)

lemma dom_lookup_alphabet:
  "wf_tnode al n \<Longrightarrow> lookup_node n k \<noteq> None \<Longrightarrow> set k \<subseteq> set al"
  by (induction k arbitrary: n) (fastforce split: option.splits dest: wf_tnode_childD)+

subsection \<open>Insertion\<close>

lemma set_node_ok: "snd (set_node al key v n) \<longleftrightarrow> set key \<subseteq> set al"
  by (induction al key v n rule: set_node.induct) (auto split: prod.split)

lemma set_node_not_empty: "snd (set_node al key v n) \<Longrightarrow> \<not> empty_node (fst (set_node al key v n))"
  by (cases key) (auto simp: empty_node_def split: prod.split)

lemma lookup_set_node:
  "set key \<subseteq> set al \<Longrightarrow> lookup_node (fst (set_node al key v n)) = (lookup_node n)(key \<mapsto> v)"
proof (induction key arbitrary: n)
  case Nil
  show ?case
  proof
    fix k show "lookup_node (fst (set_node al [] v n)) k = ((lookup_node n)([] \<mapsto> v)) k"
      by (cases k) auto
  qed
next
  case (Cons c cs)
  let ?m = "case dict_get (children n) c of None \<Rightarrow> new_node | Some n' \<Rightarrow> n'"
  have IH: "lookup_node (fst (set_node al cs v ?m)) = (lookup_node ?m)(cs \<mapsto> v)"
    by (rule Cons.IH) (use Cons.prems in simp)
  show ?case
  proof
    fix k
    show "lookup_node (fst (set_node al (c # cs) v n)) k = ((lookup_node n)(c # cs \<mapsto> v)) k"
      using Cons.prems IH
      by (cases k) (auto simp: dict_simps split: prod.split option.split)
  qed
qed

lemma lookup_set_node_fail:
  "\<not> set key \<subseteq> set al \<Longrightarrow> lookup_node (fst (set_node al key v n)) = lookup_node n"
proof (induction key arbitrary: n)
  case (Cons c cs)
  let ?m = "case dict_get (children n) c of None \<Rightarrow> new_node | Some n' \<Rightarrow> n'"
  show ?case
  proof (cases "c \<in> set al")
    case True
    with Cons have IH: "lookup_node (fst (set_node al cs v ?m)) = lookup_node ?m" by simp
    show ?thesis
    proof
      fix k
      show "lookup_node (fst (set_node al (c # cs) v n)) k = lookup_node n k"
        using True IH by (cases k) (auto simp: dict_simps split: prod.split option.split)
    qed
  qed simp
qed simp

lemma wf_set_node:
  "wf_tnode al n \<Longrightarrow> set key \<subseteq> set al \<Longrightarrow> wf_tnode al (fst (set_node al key v n))"
proof (induction key arbitrary: n)
  case Nil
  then show ?case by simp
next
  case (Cons c cs)
  let ?m = "case dict_get (children n) c of None \<Rightarrow> new_node | Some n' \<Rightarrow> n'"
  have "wf_tnode al ?m"
    using Cons.prems(1) by (auto split: option.split dest: wf_tnode_childD)
  moreover have ok: "snd (set_node al cs v ?m)"
    using Cons.prems(2) by (simp add: set_node_ok)
  ultimately have "wf_tnode al (fst (set_node al cs v ?m))"
    and "\<not> empty_node (fst (set_node al cs v ?m))"
    using Cons by (simp_all add: set_node_not_empty)
  with Cons.prems show ?case
    by (auto intro: wf_tnode_set_child split: prod.split)
qed

subsection \<open>Deletion\<close>

lemma wf_not_empty_lookup:
  "wf_tnode al n \<Longrightarrow> \<not> empty_node n \<Longrightarrow> \<exists>k. lookup_node n k \<noteq> None"
proof (induction n)
  case (TNode v ch)
  show ?case
  proof (cases v)
    case None
    with TNode.prems obtain c m rest where ch: "ch = (c, m) # rest"
      by (cases ch) (auto simp: empty_node_def)
    with TNode.prems have "wf_tnode al m" and "\<not> empty_node m"
      using wf_tnode_childD [of al "TNode v ch" c m] by simp_all
    with TNode.IH [of "(c, m)" m] ch obtain k where "lookup_node m k \<noteq> None" by auto
    with ch have "lookup_node (TNode v ch) (c # k) \<noteq> None" by simp
    then show ?thesis by blast
  next
    case (Some x)
    then have "lookup_node (TNode v ch) [] \<noteq> None" by simp
    then show ?thesis by blast
  qed
qed

lemma empty_node_iff: "wf_tnode al n \<Longrightarrow> empty_node n \<longleftrightarrow> lookup_node n = Map.empty"
  by (metis empty_node_def lookup_node_new tnode.collapse wf_not_empty_lookup ext)

lemma del_node_None: "del_node key n = None \<longleftrightarrow> lookup_node n key = None"
  by (induction key n rule: del_node.induct) (auto split: option.splits)

lemma lookup_del_node:
  "wf_tnode al n \<Longrightarrow> del_node key n = Some n' \<Longrightarrow>
     wf_tnode al n' \<and> lookup_node n' = (lookup_node n)(key := None)"
proof (induction key arbitrary: n n')
  case Nil
  have "lookup_node (TNode None (children n)) k = ((lookup_node n)([] := None)) k" for k
    by (cases k) auto
  with Nil show ?case
    by (auto split: option.splits)
next
  case (Cons c cs)
  from Cons.prems(2) obtain m m' where m: "dict_get (children n) c = Some m"
    and m': "del_node cs m = Some m'"
    and n': "n' = TNode (tvalue n) (if empty_node m' then dict_del c (children n)
                                     else dict_set c m' (children n))"
    by (auto split: option.splits)
  from m Cons.prems(1) have "wf_tnode al m" by (auto dest: wf_tnode_childD)
  with Cons.IH m' have wf': "wf_tnode al m'"
    and lk: "lookup_node m' = (lookup_node m)(cs := None)" by auto
  have "wf_tnode al n'"
    using Cons.prems(1) wf' m
    by (auto simp: n' intro: wf_tnode_set_child wf_tnode_del_child dest: wf_tnode_childD)
  moreover have "lookup_node n' k = ((lookup_node n)(c # cs := None)) k" for k
  proof (cases k)
    case (Cons d ds)
    show ?thesis
    proof (cases "empty_node m'")
      case True
      then have "lookup_node m' = Map.empty" by (simp add: empty_node_iff [OF wf'])
      with lk have "ds \<noteq> cs \<Longrightarrow> lookup_node m ds = None" by (metis fun_upd_other)
      with True m Cons show ?thesis by (simp add: n' dict_simps)
    next
      case False
      with m lk Cons show ?thesis by (simp add: n' dict_simps)
    qed
  qed (simp add: n')
  ultimately show ?case by auto
qed

section \<open>Interface: a map from strings under the longest-prefix rule\<close>

text \<open>
  What the routing table relies on: assignment and deletion act on the lookup function as
  on a map, as long as the key is written in the alphabet and the map does not become
  empty. The client lemma replaces one key by its two extensions.
\<close>

locale prefix_map =
  fixes lookup :: "'t \<Rightarrow> string \<Rightarrow> 'v option"
    and update :: "'t \<Rightarrow> string \<Rightarrow> 'v \<Rightarrow> 't \<times> unit result"
    and delete :: "'t \<Rightarrow> string \<Rightarrow> 't \<times> unit result"
    and letters :: "'t \<Rightarrow> char set"
    and invar :: "'t \<Rightarrow> bool"
  assumes update_law:
      "invar t \<Longrightarrow> set k \<subseteq> letters t \<Longrightarrow> update t k v = (t', r) \<Longrightarrow>
         r = return () \<and> lookup t' = (lookup t)(k \<mapsto> v) \<and> invar t' \<and> letters t' = letters t"
    and delete_law:
      "invar t \<Longrightarrow> k \<in> dom (lookup t) \<Longrightarrow> dom (lookup t) \<noteq> {k} \<Longrightarrow> delete t k = (t', r) \<Longrightarrow>
         r = return () \<and> lookup t' = (lookup t)(k := None) \<and> invar t' \<and> letters t' = letters t"
    and keys_law: "invar t \<Longrightarrow> k \<in> dom (lookup t) \<Longrightarrow> set k \<subseteq> letters t"
begin

lemma split_key:
  assumes inv: "invar t" and p: "lookup t p = Some b" and ab: "a \<in> letters t" "a' \<in> letters t"
    and u1: "update t (p @ [a]) b0 = (t1, r1)"
    and u2: "update t1 (p @ [a']) b1 = (t2, r2)"
    and d: "delete t2 p = (t3, r3)"
  shows "r1 = return () \<and> r2 = return () \<and> r3 = return () \<and> invar t3 \<and> letters t3 = letters t \<and>
    lookup t3 = (lookup t)(p @ [a] \<mapsto> b0, p @ [a'] \<mapsto> b1, p := None)"
proof -
  have sp: "set p \<subseteq> letters t" using keys_law [OF inv, of p] p by blast
  have 1: "r1 = return ()" "lookup t1 = (lookup t)(p @ [a] \<mapsto> b0)" "invar t1" "letters t1 = letters t"
    using update_law [OF inv _ u1] sp ab by auto
  have 2: "r2 = return ()" "lookup t2 = (lookup t1)(p @ [a'] \<mapsto> b1)" "invar t2" "letters t2 = letters t"
    using update_law [OF 1(3) _ u2] sp ab 1(4) by auto
  have "p \<in> dom (lookup t2)" and "p @ [a'] \<in> dom (lookup t2)"
    using p by (auto simp: 1 2)
  then have "dom (lookup t2) \<noteq> {p}" by auto
  with delete_law [OF 2(3) \<open>p \<in> dom (lookup t2)\<close> _ d] 1 2 show ?thesis by auto
qed

end

lemma trie_setitem_law:
  assumes "wf_trie t" "set k \<subseteq> set (alphabet t)" "trie_setitem t k v = (t', r)"
  shows "r = return () \<and> trie_lookup t' = (trie_lookup t)(k \<mapsto> v) \<and> wf_trie t' \<and>
    alphabet t' = alphabet t"
  using assms set_node_ok [of "alphabet t" k v "trie_root t"]
    lookup_set_node [of k "alphabet t" v "trie_root t"]
    wf_set_node [of "alphabet t" "trie_root t" k v]
  by (auto simp: trie_setitem_def trie_lookup_def wf_trie_def split: prod.splits)

lemma trie_delitem_law:
  assumes "wf_trie t" "k \<in> dom (trie_lookup t)" "dom (trie_lookup t) \<noteq> {k}"
    "trie_delitem t k = (t', r)"
  shows "r = return () \<and> trie_lookup t' = (trie_lookup t)(k := None) \<and> wf_trie t' \<and>
    alphabet t' = alphabet t"
proof -
  obtain n where n: "del_node k (trie_root t) = Some n"
    using assms(2) by (cases "del_node k (trie_root t)") (auto simp: del_node_None trie_lookup_def)
  note law = lookup_del_node [OF assms(1) [unfolded wf_trie_def] n]
  have "\<not> empty_node n"
  proof
    assume "empty_node n"
    with law have "(trie_lookup t)(k := None) = Map.empty"
      using empty_node_iff [of "alphabet t" n] by (simp add: trie_lookup_def)
    then have "dom (trie_lookup t) \<subseteq> {k}" by (auto simp: fun_eq_iff split: if_splits)
    with assms(2,3) show False by auto
  qed
  with n law assms(4) show ?thesis
    by (auto simp: trie_delitem_def trie_lookup_def wf_trie_def)
qed

lemma trie_keys_law: "wf_trie t \<Longrightarrow> k \<in> dom (trie_lookup t) \<Longrightarrow> set k \<subseteq> set (alphabet t)"
  by (auto simp: wf_trie_def trie_lookup_def intro: dom_lookup_alphabet [THEN subsetD])

interpretation pm: prefix_map trie_lookup trie_setitem trie_delitem "\<lambda>t. set (alphabet t)" wf_trie
proof (unfold_locales, goal_cases)
  case (1 t k v t' r)
  then show ?case using trie_setitem_law [of t k v t' r] by simp
next
  case (2 t k t' r)
  then show ?case using trie_delitem_law [of t k t' r] by simp
next
  case (3 t k)
  then show ?case by (rule trie_keys_law)
qed

section \<open>Listing keys and values\<close>

text \<open>The keys below a node in the order the operations visit them.\<close>

fun node_keys :: "'v tnode \<Rightarrow> string list" where
  "node_keys (TNode v ch) =
     (case v of None \<Rightarrow> [] | Some _ \<Rightarrow> [[]]) @
     concat (map (\<lambda>p. map ((#) (fst p)) (node_keys (snd p))) ch)"

lemma node_keys_Nil_iff [simp]: "[] \<in> set (node_keys n) \<longleftrightarrow> tvalue n \<noteq> None"
  by (cases n) (auto split: option.split)

lemma set_node_keys: "wf_tnode al n \<Longrightarrow> set (node_keys n) = dom (lookup_node n)"
proof (induction n)
  case (TNode v ch)
  have wf: "dict_wf ch" using TNode.prems by (simp add: wf_tnode.simps)
  have IH: "set (node_keys m) = dom (lookup_node m)" if "(c, m) \<in> set ch" for c m
  proof -
    from that wf have "dict_get ch c = Some m" by (simp add: in_set_dict_wf)
    then have "wf_tnode al m" using wf_tnode_childD(3) [OF TNode.prems, of c m] by simp
    with TNode.IH [OF that] show ?thesis by simp
  qed
  have "k \<in> set (node_keys (TNode v ch)) \<longleftrightarrow> k \<in> dom (lookup_node (TNode v ch))" for k
  proof (cases k)
    case (Cons c cs)
    have "k \<in> set (node_keys (TNode v ch)) \<longleftrightarrow> (\<exists>m. (c, m) \<in> set ch \<and> cs \<in> set (node_keys m))"
      by (cases v) (auto simp: Cons image_iff Bex_def)
    also have "\<dots> \<longleftrightarrow> (\<exists>m. (c, m) \<in> set ch \<and> cs \<in> dom (lookup_node m))"
      using IH by blast
    also have "\<dots> \<longleftrightarrow> k \<in> dom (lookup_node (TNode v ch))"
      by (auto simp: Cons in_set_dict_wf [OF wf] split: option.splits)
    finally show ?thesis .
  qed auto
  then show ?case by blast
qed

lemma node_values_keys:
  "wf_tnode al n \<Longrightarrow> node_values n = map (\<lambda>k. the (lookup_node n k)) (node_keys n)"
proof (induction n)
  case (TNode v ch)
  have wf: "dict_wf ch" using TNode.prems by (simp add: wf_tnode.simps)
  have "node_values (snd p) =
      map (\<lambda>k. the (lookup_node (TNode v ch) k)) (map ((#) (fst p)) (node_keys (snd p)))"
    if "p \<in> set ch" for p
  proof -
    obtain c m where p: "p = (c, m)" by (cases p)
    from that wf have c: "dict_get ch c = Some m" by (simp add: p in_set_dict_wf)
    then have "wf_tnode al m" using wf_tnode_childD(3) [OF TNode.prems, of c m] by simp
    with TNode.IH [of p m] that c show ?thesis by (simp add: p)
  qed
  then have "concat (map (\<lambda>p. node_values (snd p)) ch) =
      map (\<lambda>k. the (lookup_node (TNode v ch) k))
        (concat (map (\<lambda>p. map ((#) (fst p)) (node_keys (snd p))) ch))"
    by (simp add: map_concat cong: map_cong)
  then show ?case by (simp split: option.split)
qed

lemma append_new_fold:
  "distinct ks \<Longrightarrow> (\<And>k. k \<in> set ks \<Longrightarrow> c # k \<notin> set acc) \<Longrightarrow>
     foldl (\<lambda>acc nested. append_new acc (c # nested)) acc ks = acc @ map ((#) c) ks"
proof (induction ks arbitrary: acc)
  case (Cons k ks)
  then have "append_new acc (c # k) = acc @ [c # k]" by (simp add: append_new_def)
  moreover have "foldl (\<lambda>acc nested. append_new acc (c # nested)) (acc @ [c # k]) ks =
      (acc @ [c # k]) @ map ((#) c) ks"
    by (rule Cons.IH) (use Cons.prems in auto)
  ultimately show ?case by simp
qed simp

lemma distinct_node_keys: "wf_tnode al n \<Longrightarrow> distinct (node_keys n)"
proof (induction n)
  case (TNode v ch)
  have wf: "dict_wf ch" using TNode.prems by (simp add: wf_tnode.simps)
  have d: "distinct (node_keys (snd p))" if "p \<in> set ch" for p
    using TNode.IH [of p "snd p"] TNode.prems that wf
    by (auto simp: wf_tnode.simps list_all_iff intro: snds.intros)
  then have "distinct (concat (map (\<lambda>p. map ((#) (fst p)) (node_keys (snd p))) ch))"
    using wf by (induction ch) (auto simp: dict_wf_def distinct_map image_iff)
  then show ?case by (auto split: option.split)
qed

lemma node_suffixes_step:
  assumes "distinct ks" and "\<And>k. k \<in> set acc \<Longrightarrow> k = [] \<or> hd k \<noteq> c"
    and "ks = (case x of None \<Rightarrow> [] | Some _ \<Rightarrow> [[]]) @ rest"
  shows "foldl (\<lambda>acc nested. append_new acc (c # nested))
      (case x of None \<Rightarrow> acc | Some y \<Rightarrow> if truthy y then acc @ [[c]] else acc) ks =
    acc @ map ((#) c) ks"
proof (cases "\<exists>y. x = Some y \<and> truthy y")
  case True
  with assms(3) have ks: "ks = [] # rest" by auto
  have "foldl (\<lambda>acc nested. append_new acc (c # nested)) (acc @ [[c]]) rest =
      (acc @ [[c]]) @ map ((#) c) rest"
    by (rule append_new_fold) (use assms(1,2) ks in fastforce)+
  with True ks show ?thesis by (auto simp: append_new_def)
next
  case False
  have "foldl (\<lambda>acc nested. append_new acc (c # nested)) acc ks = acc @ map ((#) c) ks"
    by (rule append_new_fold) (use assms(1,2) in fastforce)+
  with False show ?thesis by (auto split: option.split)
qed

lemma node_keys_split: "\<exists>rest. node_keys n = (case tvalue n of None \<Rightarrow> [] | Some _ \<Rightarrow> [[]]) @ rest"
  by (cases n) auto

lemma node_suffixes_keys: "wf_tnode al n \<Longrightarrow> node_suffixes truthy n = node_keys n"
proof (induction n)
  case (TNode v ch)
  have wf: "dict_wf ch" using TNode.prems by (simp add: wf_tnode.simps)
  have child: "node_suffixes truthy m = node_keys m \<and> distinct (node_keys m)"
    if "(c, m) \<in> set ch" for c m
    using TNode.IH [OF that] TNode.prems that distinct_node_keys [of al m]
    by (auto simp: wf_tnode.simps list_all_iff)
  let ?f = "\<lambda>acc p. foldl (\<lambda>acc nested. append_new acc (fst p # nested))
     (case tvalue (snd p) of None \<Rightarrow> acc | Some x \<Rightarrow> if truthy x then acc @ [[fst p]] else acc)
     (node_suffixes truthy (snd p))"
  have "foldl ?f acc ps = acc @ concat (map (\<lambda>p. map ((#) (fst p)) (node_keys (snd p))) ps)"
    if "set ps \<subseteq> set ch" "distinct (map fst ps)"
      "\<And>k. k \<in> set acc \<Longrightarrow> k = [] \<or> hd k \<notin> fst ` set ps" for ps acc
    using that
  proof (induction ps arbitrary: acc)
    case (Cons p ps)
    obtain c m where p: "p = (c, m)" by (cases p)
    obtain rest where "node_keys m = (case tvalue m of None \<Rightarrow> [] | Some _ \<Rightarrow> [[]]) @ rest"
      using node_keys_split by blast
    moreover have "distinct (node_keys m)" "node_suffixes truthy m = node_keys m"
      using child [of c m] Cons.prems(1) p by simp_all
    moreover have "k = [] \<or> hd k \<noteq> c" if "k \<in> set acc" for k
      using Cons.prems(3) [OF that] p by auto
    ultimately have "?f acc p = acc @ map ((#) c) (node_keys m)"
      unfolding p fst_conv snd_conv
      using node_suffixes_step [of "node_keys m" acc c "tvalue m" rest truthy] by metis
    moreover have "foldl ?f (acc @ map ((#) c) (node_keys m)) ps =
        (acc @ map ((#) c) (node_keys m)) @ concat (map (\<lambda>p. map ((#) (fst p)) (node_keys (snd p))) ps)"
      by (rule Cons.IH) (use Cons.prems in \<open>force simp: p\<close>)+
    moreover have "foldl ?f acc (p # ps) = foldl ?f (?f acc p) ps"
      by (simp only: foldl_Cons)
    ultimately show ?case by (simp add: p)
  qed simp
  from this [of ch "case v of None \<Rightarrow> [] | Some _ \<Rightarrow> [[]]"] wf show ?case
    by (auto simp: dict_wf_def split: option.splits)
qed

text \<open>The recursion of the source: each child's suffixes are those of the longer key.\<close>

lemma trie_suffixes_rec:
  assumes "trie_find t key = Some (TNode v ch)" and "dict_wf ch"
  shows "trie_suffixes truthy t key =
    foldl (\<lambda>acc p.
         foldl (\<lambda>acc nested. append_new acc (fst p # nested))
           (case tvalue (snd p) of
              None \<Rightarrow> acc
            | Some x \<Rightarrow> if truthy x then acc @ [[fst p]] else acc)
           (trie_suffixes truthy t (key @ [fst p])))
       (case v of None \<Rightarrow> [] | Some _ \<Rightarrow> [[]]) ch"
proof -
  have "node_suffixes truthy (snd p) = trie_suffixes truthy t (key @ [fst p])"
    if "p \<in> set ch" for p
  proof -
    obtain c m where p: "p = (c, m)" by (cases p)
    with that assms(2) have "dict_get ch c = Some m" by (simp add: in_set_dict_wf)
    with assms(1) show ?thesis
      by (simp add: p trie_suffixes_def trie_find_def find_node_append)
  qed
  with assms(1) show ?thesis
    by (simp add: trie_suffixes_def cong: foldl_cong)
qed


lemma trie_suffixes_dom:
  assumes "wf_trie t"
  shows "set (trie_suffixes truthy t p) = {s. p @ s \<in> dom (trie_lookup t)}"
proof (cases "trie_find t p")
  case None
  then have "trie_lookup t (p @ s) = None" for s
    by (simp add: trie_lookup_def lookup_node_def trie_find_def find_node_append)
  with None show ?thesis by (simp add: trie_suffixes_def dom_def)
next
  case (Some n)
  have "wf_tnode al m \<Longrightarrow> find_node m q = Some n \<Longrightarrow> wf_tnode al n" for al and m :: "'a tnode" and q
    by (induction m q rule: find_node.induct) (auto split: option.splits dest: wf_tnode_childD)
  then have wn: "wf_tnode (alphabet t) n"
    using assms Some by (simp add: wf_trie_def trie_find_def)
  have "trie_lookup t (p @ s) = lookup_node n s" for s
    using Some by (simp add: trie_lookup_def lookup_node_def trie_find_def find_node_append)
  then show ?thesis
    using Some set_node_keys [OF wn] by (auto simp: trie_suffixes_def node_suffixes_keys [OF wn])
qed

section \<open>The longest prefix\<close>

lemma longest_prefix_loop_spec:
  assumes "longest_prefix_loop n seen cs (p0, v0) = (p, v)"
  shows "(p, v) = (p0, v0) \<and> (\<forall>q. q \<noteq> [] \<and> prefix q cs \<longrightarrow> lookup_node n q = None) \<or>
    (\<exists>q x. q \<noteq> [] \<and> prefix q cs \<and> p = seen @ q \<and> v = Some x \<and> lookup_node n q = Some x \<and>
       (\<forall>q'. prefix q' cs \<and> lookup_node n q' \<noteq> None \<longrightarrow> length q' \<le> length q))"
  using assms
proof (induction n seen cs "(p0, v0)" arbitrary: p0 v0 rule: longest_prefix_loop.induct)
  case (1 n seen)
  then show ?case by auto
next
  case (2 n seen c cs)
  have pre: "prefix q (c # cs) \<longleftrightarrow> q = [] \<or> (\<exists>q'. q = c # q' \<and> prefix q' cs)" for q
    by (cases q) auto
  show ?case
  proof (cases "dict_get (children n) c")
    case None
    with 2(2) show ?thesis by (auto simp: pre)
  next
    case (Some m)
    obtain p1 v1 where acc: "(case tvalue m of None \<Rightarrow> (p0, v0) | Some v \<Rightarrow> (seen @ [c], Some v)) = (p1, v1)"
      by fastforce
    with 2(2) Some have "longest_prefix_loop m (seen @ [c]) cs (p1, v1) = (p, v)" by simp
    from 2(1) [OF Some, of p1 v1, simplified acc, OF refl this]
    consider (keep) "(p, v) = (p1, v1)" "\<And>q. q \<noteq> [] \<Longrightarrow> prefix q cs \<Longrightarrow> lookup_node m q = None"
      | (deeper) q x where "q \<noteq> []" "prefix q cs" "p = seen @ c # q" "v = Some x"
          "lookup_node m q = Some x"
          "\<And>q'. prefix q' cs \<Longrightarrow> lookup_node m q' \<noteq> None \<Longrightarrow> length q' \<le> length q"
      by fastforce
    then show ?thesis
    proof cases
      case keep
      show ?thesis
      proof (cases "tvalue m")
        case None
        with keep acc Some have "lookup_node n q = None" if "q \<noteq> []" "prefix q (c # cs)" for q
          using that by (cases "tl q = []") (auto simp: pre)
        with None keep acc show ?thesis by auto
      next
        case (Some x)
        with keep acc \<open>dict_get (children n) c = Some m\<close>
        have "[c] \<noteq> []" "prefix [c] (c # cs)" "p = seen @ [c]" "v = Some x" "lookup_node n [c] = Some x"
          by auto
        moreover have "length q' \<le> length [c]" if "prefix q' (c # cs)" "lookup_node n q' \<noteq> None" for q'
          using that keep(2) [of "tl q'"] \<open>dict_get (children n) c = Some m\<close>
          by (cases "tl q' = []") (auto simp: pre)
        ultimately show ?thesis by blast
      qed
    next
      case (deeper q x)
      then have "c # q \<noteq> []" "prefix (c # q) (c # cs)" "p = seen @ c # q" "v = Some x"
        "lookup_node n (c # q) = Some x" using Some by auto
      moreover have "length q' \<le> length (c # q)" if "prefix q' (c # cs)" "lookup_node n q' \<noteq> None" for q'
        using that deeper(6) [of "tl q'"] Some by (auto simp: pre)
      ultimately show ?thesis by blast
    qed
  qed
qed

end
