(* ===== verification/Routing.thy ===== *)
theory Routing
  imports Peers Sockets Trie "HOL-Library.Product_Lexorder"
begin

text \<open>
  The Kademlia routing table of the DHT (\<^verbatim>\<open>ipv8/dht/routing.py\<close>): node identifiers and the
  XOR distance, nodes, buckets and the table, a trie of buckets. Every access to the
  clock within one call reads the same time \<open>now\<close>. Objects are values here, so a node
  stored in a bucket is a copy that the table's operations update in place.
\<close>

unbundle bit_operations_syntax

section \<open>Identifiers\<close>

definition NODE_LIMIT_INTERVAL :: seconds where "NODE_LIMIT_INTERVAL = 5"
definition NODE_LIMIT_QUERIES :: nat where "NODE_LIMIT_QUERIES = 10"
definition NODE_STATUS_GOOD :: nat where "NODE_STATUS_GOOD = 2"
definition NODE_STATUS_UNKNOWN :: nat where "NODE_STATUS_UNKNOWN = 1"
definition NODE_STATUS_BAD :: nat where "NODE_STATUS_BAD = 0"
definition MAX_BUCKET_SIZE :: nat where "MAX_BUCKET_SIZE = 8"

text \<open>\<^verbatim>\<open>int(hexlify(b), 16)\<close> of the empty string is a \<^verbatim>\<open>ValueError\<close>.\<close>

definition int_of_id :: "bytes \<Rightarrow> nat result" where
  "int_of_id b = (if b = [] then raise ValueError else return (nat_of_bytes b))"

definition id_to_binary_string :: "bytes \<Rightarrow> string result" where
  "id_to_binary_string node_id = bind_result (int_of_id node_id) (\<lambda>n. return (format_binary 160 n))"

definition distance :: "bytes \<Rightarrow> bytes \<Rightarrow> nat result" where
  "distance a b =
     bind_result (int_of_id a) (\<lambda>x. bind_result (int_of_id b) (\<lambda>y. return (x XOR y)))"

definition calc_node_id :: "address \<Rightarrow> bytes \<Rightarrow> bytes result" where
  "calc_node_id a m =
     bind_result
       (if addr_class a = UDPv6Address then
          (case inet_pton6 (addr_host a) of
             None \<Rightarrow> raise OSError
           | Some ip_bin \<Rightarrow>
               return (map2 (AND) (take 8 ip_bin) [0x01, 0x03, 0x07, 0x0f, 0x1f, 0x3f, 0x7f, 0xff]))
        else
          (case inet_aton (addr_host a) of
             None \<Rightarrow> raise OSError
           | Some ip_bin \<Rightarrow> return (map2 (AND) ip_bin [0x03, 0x0f, 0x3f, 0xff])))
       (\<lambda>ip_masked.
          let crc32_bin = bytes_of_nat 4 (unat (crc32 ip_masked))
          in return (take 3 crc32_bin @ take 17 m))"

section \<open>Nodes\<close>

text \<open>
  \<^verbatim>\<open>Node\<close> extends \<^verbatim>\<open>Peer\<close>. The back reference \<^verbatim>\<open>bucket\<close> is kept as the prefix of the bucket
  it points to. \<open>last_queries\<close> is a deque of at most \<open>NODE_LIMIT_QUERIES\<close> times. \<open>node_object\<close> names the
  object, for the overlay that shares it; nothing here reads it.
\<close>

record dht_node = peer +
  node_bucket :: "string option"
  last_queries :: "seconds list"
  last_ping_sent :: seconds
  failed :: int
  rtt :: seconds
  node_object :: nat

definition new_dht_node :: "peer \<Rightarrow> dht_node" where
  "new_dht_node p = peer.extend (p\<lparr>last_response := 0\<rparr>)
     \<lparr>node_bucket = None, last_queries = [], last_ping_sent = 0, failed = 0, rtt = 0, node_object = 0\<rparr>"

definition node_id :: "dht_node \<Rightarrow> bytes result" where
  "node_id n = calc_node_id (peer_address n) (mid n)"

definition last_query :: "dht_node \<Rightarrow> seconds" where
  "last_query n = (if last_queries n = [] then 0 else last (last_queries n))"

definition last_contact :: "dht_node \<Rightarrow> seconds" where
  "last_contact n = max (last_response n) (last_query n)"

definition append_query :: "seconds \<Rightarrow> dht_node \<Rightarrow> dht_node" where
  \<comment> \<open>\<^verbatim>\<open>last_queries.append(t)\<close>\<close>
  "append_query t n =
     (let qs = last_queries n @ [t] in n\<lparr>last_queries := drop (length qs - NODE_LIMIT_QUERIES) qs\<rparr>)"

definition blocked :: "seconds \<Rightarrow> dht_node \<Rightarrow> bool" where
  "blocked now n \<longleftrightarrow>
     (if length (last_queries n) < NODE_LIMIT_QUERIES then False
      else now - hd (last_queries n) < NODE_LIMIT_INTERVAL)"

definition status :: "seconds \<Rightarrow> dht_node \<Rightarrow> nat" where
  "status now n =
     (if failed n \<ge> 2 then NODE_STATUS_BAD
      else if now - last_response n < 15 * 60 \<or>
              (last_response n > 0 \<and> now - last_query n < 15 * 60)
      then NODE_STATUS_GOOD
      else NODE_STATUS_UNKNOWN)"

text \<open>The method \<^verbatim>\<open>Node.distance\<close> takes a node or an identifier.\<close>

definition node_distance :: "dht_node \<Rightarrow> dht_node + bytes \<Rightarrow> nat result" where
  "node_distance n other =
     bind_result (node_id n) (\<lambda>i.
       bind_result (case other of Inl m \<Rightarrow> node_id m | Inr b \<Rightarrow> return b) (\<lambda>j. distance i j))"

section \<open>Buckets\<close>

record bucket =
  nodes :: "(bytes, dht_node) dict"
  prefix_id :: string
  max_size :: nat
  last_changed :: seconds

definition new_bucket :: "string \<Rightarrow> nat \<Rightarrow> bucket" where
  "new_bucket pre sz = \<lparr>nodes = [], prefix_id = pre, max_size = sz, last_changed = 0\<rparr>"

text \<open>
  \<^verbatim>\<open>generate_id\<close>: the random number is an argument, drawn from \<open>0\<close> to
  \<open>2 ^ (160 - len(prefix_id))\<close>, both included. It is written with at least forty
  hexadecimal digits and read back as bytes; \<open>2 ^ 160\<close>, the only number in the range with
  more (forty-one) digits, is an odd-length string for \<^verbatim>\<open>unhexlify\<close>.
\<close>

definition random_range :: "bucket \<Rightarrow> nat \<Rightarrow> bool" where
  "random_range b r \<longleftrightarrow> r \<le> 2 ^ (160 - length (prefix_id b))"

definition generate_id :: "bucket \<Rightarrow> nat \<Rightarrow> bytes result" where
  "generate_id b r = (if r < 16 ^ 40 then return (bytes_of_nat 20 r) else raise ValueError)"

definition owns :: "bucket \<Rightarrow> bytes \<Rightarrow> bool result" where
  "owns b i = bind_result (id_to_binary_string i) (\<lambda>s. return (prefix (prefix_id b) s))"

definition bucket_get :: "bucket \<Rightarrow> bytes \<Rightarrow> dht_node option" where
  "bucket_get b i = dict_get (nodes b) i"

text \<open>
  The two eviction loops of \<^verbatim>\<open>add\<close>: pop the first node that satisfies the condition, by
  the identifier it computes now.
\<close>

definition pop_first ::
  "(dht_node \<Rightarrow> bool) \<Rightarrow> (bytes, dht_node) dict \<Rightarrow> (bytes, dht_node) dict \<times> unit result" where
  "pop_first P ns =
     (case find P (dict_values ns) of
        None \<Rightarrow> (ns, return ())
      | Some n \<Rightarrow>
          (case node_id n of
             Inl e \<Rightarrow> (ns, raise e)
           | Inr i \<Rightarrow>
               if dict_get ns i = None then (ns, raise KeyError) else (dict_del i ns, return ())))"

definition make_room ::
  "seconds \<Rightarrow> dht_node \<Rightarrow> (bytes, dht_node) dict \<Rightarrow> (bytes, dht_node) dict \<times> unit result" where
  "make_room now node ns =
     (case pop_first (\<lambda>n. status now n = NODE_STATUS_BAD) ns of
        (ns', Inl e) \<Rightarrow> (ns', Inl e)
      | (ns', Inr _) \<Rightarrow> pop_first (\<lambda>n. rtt node \<noteq> 0 \<and> rtt n / rtt node \<ge> 2) ns')"

definition bucket_insert :: "seconds \<Rightarrow> bytes \<Rightarrow> dht_node \<Rightarrow> bucket \<Rightarrow> bucket \<times> bool result" where
  "bucket_insert now i node b =
     (if length (nodes b) < max_size b then
        (b\<lparr>nodes := dict_set i (node\<lparr>node_bucket := Some (prefix_id b)\<rparr>) (nodes b),
           last_changed := now\<rparr>, return True)
      else (b, return False))"

definition bucket_add :: "seconds \<Rightarrow> dht_node \<Rightarrow> bucket \<Rightarrow> bucket \<times> bool result" where
  "bucket_add now node b =
     (case node_id node of
        Inl e \<Rightarrow> (b, raise e)
      | Inr i \<Rightarrow>
          (case owns b i of
             Inl e \<Rightarrow> (b, raise e)
           | Inr False \<Rightarrow> (b, return False)
           | Inr True \<Rightarrow>
               (case dict_get (nodes b) i of
                  Some curr_node \<Rightarrow>
                    (b\<lparr>nodes := dict_set i (add_address (peer_address node) curr_node) (nodes b),
                       last_changed := now\<rparr>, return True)
                | None \<Rightarrow>
                    if length (nodes b) \<ge> max_size b then
                      (case make_room now node (nodes b) of
                         (ns, Inl e) \<Rightarrow> (b\<lparr>nodes := ns\<rparr>, raise e)
                       | (ns, Inr _) \<Rightarrow> bucket_insert now i node (b\<lparr>nodes := ns\<rparr>))
                    else bucket_insert now i node b)))"

text \<open>
  \<^verbatim>\<open>split\<close>: distribute the nodes over two new buckets. The outcome of each \<^verbatim>\<open>add\<close> is not
  looked at; a node that fits neither bucket is dropped with a log message.
\<close>

fun split_loop ::
  "seconds \<Rightarrow> dht_node list \<Rightarrow> bucket \<Rightarrow> bucket \<Rightarrow> (bucket \<times> bucket) result" where
  "split_loop now [] b0 b1 = return (b0, b1)"
| "split_loop now (n # ns) b0 b1 =
     bind_result (node_id n) (\<lambda>i.
     bind_result (owns b0 i) (\<lambda>in0.
       if in0 then
         (let (b0', r) = bucket_add now n b0
          in bind_result r (\<lambda>_. split_loop now ns b0' b1))
       else
         bind_result (owns b1 i) (\<lambda>in1.
           if in1 then
             (let (b1', r) = bucket_add now n b1
              in bind_result r (\<lambda>_. split_loop now ns b0 b1'))
           else split_loop now ns b0 b1)))"

definition bucket_split :: "seconds \<Rightarrow> bucket \<Rightarrow> (bucket \<times> bucket) option result" where
  "bucket_split now b =
     (if length (nodes b) < max_size b then return None
      else
        bind_result
          (split_loop now (dict_values (nodes b))
             (new_bucket (prefix_id b @ ''0'') (max_size b))
             (new_bucket (prefix_id b @ ''1'') (max_size b)))
          (\<lambda>bs. return (Some bs)))"

section \<open>The routing table\<close>

record routing_table =
  my_node_id :: bytes
  buckets :: "bucket trie"

definition new_routing_table :: "bytes \<Rightarrow> routing_table" where
  "new_routing_table i =
     \<lparr>my_node_id = i,
      buckets = fst (trie_setitem (new_trie ''01'') '''' (new_bucket '''' MAX_BUCKET_SIZE))\<rparr>"

text \<open>
  \<^verbatim>\<open>get_bucket\<close>, with the key the bucket is stored under: a method called on the bucket
  changes the object inside the trie, which the model writes back at that key. A bucket
  object is always truthy.
\<close>

definition get_bucket_item :: "routing_table \<Rightarrow> bytes \<Rightarrow> (string \<times> bucket) result" where
  "get_bucket_item rt i =
     bind_result (id_to_binary_string i) (\<lambda>s.
     bind_result (longest_prefix_item (\<lambda>_. True) (buckets rt) s (Some ())) (\<lambda>r.
       case r of
         Inl item \<Rightarrow> return item
       | Inr _ \<Rightarrow> bind_result (trie_getitem (buckets rt) '''') (\<lambda>b. return ('''', b))))"

definition get_bucket :: "routing_table \<Rightarrow> bytes \<Rightarrow> bucket result" where
  "get_bucket rt i = bind_result (get_bucket_item rt i) (\<lambda>kb. return (snd kb))"

definition put_bucket :: "string \<Rightarrow> bucket \<Rightarrow> routing_table \<Rightarrow> routing_table" where
  "put_bucket key b rt = rt\<lparr>buckets := fst (trie_setitem (buckets rt) key b)\<rparr>"

text \<open>
  The assignments and the deletion after a successful split, in order; the first that
  raises ends them.
\<close>

definition replace_bucket ::
  "string \<Rightarrow> bucket \<Rightarrow> bucket \<Rightarrow> routing_table \<Rightarrow> routing_table \<times> unit result" where
  "replace_bucket p b0 b1 rt =
     (case trie_setitem (buckets rt) (p @ ''0'') b0 of
        (t1, Inl e) \<Rightarrow> (rt\<lparr>buckets := t1\<rparr>, raise e)
      | (t1, Inr _) \<Rightarrow>
          (case trie_setitem t1 (p @ ''1'') b1 of
             (t2, Inl e) \<Rightarrow> (rt\<lparr>buckets := t2\<rparr>, raise e)
           | (t2, Inr _) \<Rightarrow>
               (case trie_delitem t2 p of (t3, r) \<Rightarrow> (rt\<lparr>buckets := t3\<rparr>, r))))"

text \<open>
  \<^verbatim>\<open>add\<close>: insert into the bucket; when it is full and contains our own identifier, split
  it and try again. One round ends with the table and the answer, or with the table to
  retry on. Whether the rounds end is a theorem, so the result is \<open>None\<close> when they do not.
\<close>

definition rt_add_round ::
  "seconds \<Rightarrow> dht_node \<Rightarrow> routing_table \<Rightarrow>
   (routing_table \<times> dht_node option result) + routing_table" where
  "rt_add_round now node rt =
     (case node_id node of
        Inl e \<Rightarrow> Inl (rt, raise e)
      | Inr i \<Rightarrow>
     (case get_bucket_item rt i of
        Inl e \<Rightarrow> Inl (rt, raise e)
      | Inr (key, b) \<Rightarrow>
     (case bucket_add now node b of
        (b', Inl e) \<Rightarrow> Inl (put_bucket key b' rt, raise e)
      | (b', Inr True) \<Rightarrow> Inl (put_bucket key b' rt, return (bucket_get b' i))
      | (b', Inr False) \<Rightarrow>
     (case owns b' (my_node_id rt) of
        Inl e \<Rightarrow> Inl (put_bucket key b' rt, raise e)
      | Inr False \<Rightarrow> Inl (put_bucket key b' rt, return None)
      | Inr True \<Rightarrow>
     (case bucket_split now b' of
        Inl e \<Rightarrow> Inl (put_bucket key b' rt, raise e)
      | Inr None \<Rightarrow> Inl (put_bucket key b' rt, return None)
      | Inr (Some (b0, b1)) \<Rightarrow>
     (case replace_bucket (prefix_id b') b0 b1 (put_bucket key b' rt) of
        (rt', Inl e) \<Rightarrow> Inl (rt', raise e)
      | (rt', Inr _) \<Rightarrow> Inr rt'))))))"

partial_function (option) rt_add ::
  "seconds \<Rightarrow> dht_node \<Rightarrow> routing_table \<Rightarrow> (routing_table \<times> dht_node option result) option" where
  "rt_add now node rt =
     (case rt_add_round now node rt of
        Inl answer \<Rightarrow> Some answer
      | Inr rt' \<Rightarrow> rt_add now node rt')"

text \<open>\<^verbatim>\<open>remove_bad_nodes\<close>: every bucket loses its bad nodes; they are returned in order.\<close>

definition remove_bad :: "seconds \<Rightarrow> bucket \<Rightarrow> bucket" where
  "remove_bad now b = b\<lparr>nodes := filter (\<lambda>p. status now (snd p) \<noteq> NODE_STATUS_BAD) (nodes b)\<rparr>"

definition bad_nodes :: "seconds \<Rightarrow> bucket \<Rightarrow> dht_node list" where
  "bad_nodes now b = filter (\<lambda>n. status now n = NODE_STATUS_BAD) (dict_values (nodes b))"

definition remove_bad_nodes :: "seconds \<Rightarrow> routing_table \<Rightarrow> routing_table \<times> dht_node list" where
  "remove_bad_nodes now rt =
     (rt\<lparr>buckets := (buckets rt)\<lparr>trie_root := map_tnode (remove_bad now) (trie_root (buckets rt))\<rparr>\<rparr>,
      concat (map (bad_nodes now) (trie_values (buckets rt))))"

definition rt_get :: "routing_table \<Rightarrow> bytes \<Rightarrow> dht_node option result" where
  "rt_get rt i = bind_result (get_bucket rt i) (\<lambda>b. return (bucket_get b i))"

definition rt_has :: "routing_table \<Rightarrow> bytes \<Rightarrow> bool result" where
  "rt_has rt i = bind_result (rt_get rt i) (\<lambda>n. return (\<not> Option.is_none n))"

text \<open>
  \<^verbatim>\<open>closest_nodes\<close>: a Python set of peers keeps, of equal peers, the one added first. The
  loop visits ever shorter prefixes of the bucket prefix until more than \<open>max_nodes\<close>
  nodes are found.
\<close>

definition add_to_set :: "dht_node list \<Rightarrow> dht_node \<Rightarrow> dht_node list" where
  "add_to_set ns n = (if list_ex (peer_eq n) ns then ns else ns @ [n])"

definition eligible :: "seconds \<Rightarrow> dht_node option \<Rightarrow> dht_node \<Rightarrow> bool result" where
  "eligible now exclude_node n =
     (if status now n = NODE_STATUS_BAD then return False
      else case exclude_node of
             None \<Rightarrow> return True
           | Some x \<Rightarrow>
               bind_result (node_id n) (\<lambda>i. bind_result (node_id x) (\<lambda>j. return (i \<noteq> j))))"

fun collect_buckets ::
  "seconds \<Rightarrow> dht_node option \<Rightarrow> bucket trie \<Rightarrow> string \<Rightarrow> string list \<Rightarrow> dht_node list \<Rightarrow>
   dht_node list result" where
  "collect_buckets now exclude_node t p [] ns = return ns"
| "collect_buckets now exclude_node t p (s # ss) ns =
     bind_result (trie_getitem t (p @ s)) (\<lambda>b.
     bind_result (filter_result (eligible now exclude_node) (dict_values (nodes b))) (\<lambda>new.
       collect_buckets now exclude_node t p ss (foldl add_to_set ns new)))"

fun closest_loop ::
  "seconds \<Rightarrow> dht_node option \<Rightarrow> bucket trie \<Rightarrow> string \<Rightarrow> nat \<Rightarrow> nat \<Rightarrow> dht_node list \<Rightarrow>
   dht_node list result" where
  "closest_loop now exclude_node t p max_nodes i ns =
     bind_result
       (collect_buckets now exclude_node t (take i p) (trie_suffixes (\<lambda>_. True) t (take i p)) ns)
       (\<lambda>ns'. if length ns' > max_nodes then return ns'
              else case i of 0 \<Rightarrow> return ns'
                   | Suc j \<Rightarrow> closest_loop now exclude_node t p max_nodes j ns')"

declare closest_loop.simps [simp del]

definition distance_key :: "seconds \<Rightarrow> bytes \<Rightarrow> dht_node \<Rightarrow> (nat \<times> nat) result" where
  "distance_key now target n =
     bind_result (node_id n) (\<lambda>i. bind_result (distance i target) (\<lambda>d. return (d, status now n)))"

definition sort_by_result :: "('a \<Rightarrow> ('k::linorder) result) \<Rightarrow> 'a list \<Rightarrow> 'a list result" where
  \<comment> \<open>\<^verbatim>\<open>sorted(xs, key=f)\<close>: the keys are computed first\<close>
  "sort_by_result f xs =
     bind_result (map_result f xs) (\<lambda>ks. return (map snd (sort_key fst (zip ks xs))))"

definition closest_nodes ::
  "seconds \<Rightarrow> routing_table \<Rightarrow> bytes \<Rightarrow> nat \<Rightarrow> dht_node option \<Rightarrow> dht_node list result" where
  "closest_nodes now rt target max_nodes exclude_node =
     bind_result (id_to_binary_string target) (\<lambda>hash_binary.
     bind_result (longest_prefix (\<lambda>_. True) (buckets rt) hash_binary (Some '''')) (\<lambda>r.
     let p = (case r of Inl p \<Rightarrow> p | Inr d \<Rightarrow> d) in
     bind_result (closest_loop now exclude_node (buckets rt) p max_nodes (length p) []) (\<lambda>ns.
     bind_result (sort_by_result (distance_key now target) ns) (\<lambda>sorted_ns.
       return (take max_nodes sorted_ns)))))"

section \<open>Identifiers as bit strings\<close>

definition id_bits :: "bytes \<Rightarrow> bool list" where
  "id_bits i = bits_of_nat 160 (nat_of_bytes i)"

definition bin :: "bytes \<Rightarrow> string" where
  "bin i = map bit_char (id_bits i)"

lemma id_less: "length i = 20 \<Longrightarrow> nat_of_bytes i < 2 ^ 160"
  using nat_of_bytes_less [of i] by simp

lemma id_to_binary_string_20:
  "length i = 20 \<Longrightarrow> id_to_binary_string i = return (bin i)"
  using id_less [of i] format_binary_bits [of "nat_of_bytes i" 160]
  by (auto simp: id_to_binary_string_def int_of_id_def bin_def id_bits_def)

lemma length_bin [simp]: "length (bin i) = 160"
  by (simp add: bin_def id_bits_def)

lemma set_bin: "set (bin i) \<subseteq> {CHR ''0'', CHR ''1''}"
  by (auto simp: bin_def bit_char_def)

lemma bin_inject:
  assumes "length i = 20" "length j = 20"
  shows "bin i = bin j \<longleftrightarrow> i = j"
proof
  assume "bin i = bin j"
  then have "nat_of_bits (id_bits i) = nat_of_bits (id_bits j)" by (simp add: bin_def)
  then have "nat_of_bytes i = nat_of_bytes j"
    by (simp only: id_bits_def nat_of_bits_of_nat [OF id_less [OF assms(1)]]
        nat_of_bits_of_nat [OF id_less [OF assms(2)]])
  with assms show "i = j" by (simp add: nat_of_bytes_inject)
qed simp

lemma owns_20: "length i = 20 \<Longrightarrow> owns b i = return (prefix (prefix_id b) (bin i))"
  by (simp add: owns_def id_to_binary_string_20)

lemma length_calc_node_id:
  "calc_node_id a m = return i \<Longrightarrow> length i = 3 + min 17 (length m)"
  by (auto simp: calc_node_id_def bind_result_eq_Inr Let_def)

lemma drop_calc_node_id:
  "calc_node_id a m = return i \<Longrightarrow> drop 3 i = take 17 m"
  by (auto simp: calc_node_id_def bind_result_eq_Inr Let_def)

lemma calc_node_id_cong:
  "take 17 m = take 17 m' \<Longrightarrow> calc_node_id a m = calc_node_id a m'"
  by (simp add: calc_node_id_def)

text \<open>
  Giving a stored node the address of a node with the same identifier keeps its
  identifier, whichever of its addresses is preferred.
\<close>

lemma node_id_add_address:
  assumes "node_id n = return i" and "node_id m = return i"
  shows "node_id (add_address (peer_address m) n) = return i"
proof -
  have "take 17 (mid n) = take 17 (mid m)"
    using drop_calc_node_id assms unfolding node_id_def by metis
  then have "calc_node_id (peer_address m) (mid n) = return i"
    using assms(2) calc_node_id_cong unfolding node_id_def by metis
  then show ?thesis
    using peer_address_add_address [of "peer_address m" n] assms(1)
    by (auto simp: node_id_def)
qed

lemma node_id_set_bucket [simp]: "node_id (n\<lparr>node_bucket := x\<rparr>) = node_id n"
  by (simp add: node_id_def peer_address_def split: option.split)

section \<open>Bucket invariant\<close>

definition bucket_wf :: "string \<Rightarrow> bucket \<Rightarrow> bool" where
  "bucket_wf p b \<longleftrightarrow> prefix_id b = p \<and> 0 < max_size b \<and> length (nodes b) \<le> max_size b \<and>
     dict_wf (nodes b) \<and>
     (\<forall>i n. dict_get (nodes b) i = Some n \<longrightarrow> node_id n = return i \<and> length i = 20 \<and> prefix p (bin i))"

lemma bucket_wfD:
  assumes "bucket_wf p b" "dict_get (nodes b) i = Some n"
  shows "node_id n = return i" "length i = 20" "prefix p (bin i)"
  using assms by (auto simp: bucket_wf_def)

text \<open>A dictionary of nodes filed under their own identifiers.\<close>

definition filed :: "(bytes, dht_node) dict \<Rightarrow> bool" where
  "filed ns \<longleftrightarrow> dict_wf ns \<and> (\<forall>i n. dict_get ns i = Some n \<longrightarrow> node_id n = return i)"

lemma pop_first_filed:
  assumes "filed ns" "pop_first P ns = (ns', r)"
  shows "r = return () \<and> filed ns' \<and>
    (ns' = ns \<or> (\<exists>i n. dict_get ns i = Some n \<and> P n \<and> ns' = dict_del i ns))"
proof (cases "find P (dict_values ns)")
  case None
  with assms show ?thesis by (auto simp: pop_first_def)
next
  case (Some n)
  then have "n \<in> set (dict_values ns)" and "P n"
    by (auto simp: find_Some_iff)
  then obtain i where i: "dict_get ns i = Some n"
    using assms(1) by (auto simp: filed_def in_set_dict_wf)
  with assms(1) have "node_id n = return i" by (simp add: filed_def)
  with Some i \<open>P n\<close> assms show ?thesis
    by (auto simp: pop_first_def filed_def dict_simps split: if_splits)
qed

lemma make_room_filed:
  assumes "filed ns" "make_room now node ns = (ns', r)"
  shows "r = return () \<and> filed ns' \<and> length ns' \<le> length ns \<and>
    (length ns' = length ns \<longrightarrow> ns' = ns) \<and>
    (\<forall>i. dict_get ns' i = dict_get ns i \<or>
       dict_get ns' i = None \<and> (\<exists>n. dict_get ns i = Some n \<and>
         (status now n = NODE_STATUS_BAD \<or> rtt node \<noteq> 0 \<and> rtt n / rtt node \<ge> 2)))"
proof -
  obtain ns1 r1 where 1: "pop_first (\<lambda>n. status now n = NODE_STATUS_BAD) ns = (ns1, r1)"
    by fastforce
  note p1 = pop_first_filed [OF assms(1) 1]
  with assms(2) 1 have 2: "pop_first (\<lambda>n. rtt node \<noteq> 0 \<and> rtt n / rtt node \<ge> 2) ns1 = (ns', r)"
    by (auto simp: make_room_def)
  from p1 have f1: "filed ns1" by simp
  note p2 = pop_first_filed [OF f1 2]
  have len: "length (dict_del i d) < length d" if "filed d" "dict_get d i = Some n" for i n d
    using that length_dict_del [of d i] by (cases d) (auto simp: filed_def)
  have le1: "length ns1 \<le> length ns \<and> (length ns1 = length ns \<longrightarrow> ns1 = ns)"
    using p1 len [OF assms(1)] by (elim conjE disjE) fastforce+
  have le2: "length ns' \<le> length ns1 \<and> (length ns' = length ns1 \<longrightarrow> ns' = ns1)"
    using p2 len [OF f1] by (elim conjE disjE) fastforce+
  have g1: "dict_get ns1 i = dict_get ns i \<or>
      dict_get ns1 i = None \<and> (\<exists>n. dict_get ns i = Some n \<and> status now n = NODE_STATUS_BAD)" for i
    using p1 by (auto simp: dict_simps split: if_splits)
  have g2: "dict_get ns' i = dict_get ns1 i \<or>
      dict_get ns' i = None \<and> (\<exists>n. dict_get ns1 i = Some n \<and> rtt node \<noteq> 0 \<and> rtt n / rtt node \<ge> 2)" for i
    using p2 by (auto simp: dict_simps split: if_splits)
  have "dict_get ns' i = dict_get ns i \<or>
       dict_get ns' i = None \<and> (\<exists>n. dict_get ns i = Some n \<and>
         (status now n = NODE_STATUS_BAD \<or> rtt node \<noteq> 0 \<and> rtt n / rtt node \<ge> 2))" for i
    using g1 [of i] g2 [of i] by (elim disjE conjE exE) simp_all
  with p2 le1 le2 show ?thesis by auto
qed

lemma filed_bucket: "bucket_wf p b \<Longrightarrow> filed (nodes b)"
  by (simp add: bucket_wf_def filed_def)


subsection \<open>Adding a node to a bucket\<close>

lemma bucket_wf_set:
  assumes "bucket_wf p b" "node_id n = return i" "length i = 20" "prefix p (bin i)"
    "dict_get (nodes b) i \<noteq> None \<or> length (nodes b) < max_size b"
  shows "bucket_wf p (b\<lparr>nodes := dict_set i n (nodes b), last_changed := t\<rparr>)"
  using assms by (auto simp: bucket_wf_def dict_simps split: if_splits)

lemma bucket_insert_spec:
  assumes "bucket_wf p b" "node_id n = return i" "length i = 20" "prefix p (bin i)"
    "bucket_insert now i n b = (b', r)"
  shows "bucket_wf p b' \<and>
    (if length (nodes b) < max_size b
     then r = return True \<and> dict_get (nodes b') = (dict_get (nodes b))(i \<mapsto> n\<lparr>node_bucket := Some p\<rparr>)
     else r = return False \<and> b' = b)"
proof -
  have "prefix_id b = p" using assms(1) by (simp add: bucket_wf_def)
  then show ?thesis
    using assms bucket_wf_set [of p b "n\<lparr>node_bucket := Some p\<rparr>" i now]
    by (auto simp: bucket_insert_def dict_simps split: if_splits)
qed

text \<open>
  What \<^verbatim>\<open>Bucket.add\<close> does on each branch: it never raises, keeps the invariant, refuses
  foreign identifiers and full buckets without changing anything, and otherwise holds
  the node. Nodes other than the added one disappear only from a full bucket and only
  when they are bad or at least twice as slow as the new node.
\<close>

definition evictable :: "seconds \<Rightarrow> dht_node \<Rightarrow> dht_node \<Rightarrow> bool" where
  "evictable now node n \<longleftrightarrow>
     status now n = NODE_STATUS_BAD \<or> rtt node \<noteq> 0 \<and> rtt n / rtt node \<ge> 2"

lemma bucket_add_spec:
  assumes wf: "bucket_wf p b" and i: "node_id node = return i" "length i = 20"
    and add: "bucket_add now node b = (b', r)"
  shows "bucket_wf p b' \<and>
    (r = return True \<and> prefix p (bin i) \<and> dict_get (nodes b') i \<noteq> None \<or>
     r = return False \<and> b' = b \<and>
       (prefix p (bin i) \<longrightarrow> dict_get (nodes b) i = None \<and> length (nodes b) = max_size b)) \<and>
    (\<forall>j. j \<noteq> i \<longrightarrow> dict_get (nodes b') j = dict_get (nodes b) j \<or>
       dict_get (nodes b') j = None \<and> length (nodes b) = max_size b \<and>
         (\<exists>n. dict_get (nodes b) j = Some n \<and> evictable now node n))"
proof (cases "prefix p (bin i)")
  case False
  with wf i add have "b' = b" "r = return False"
    by (auto simp: bucket_add_def owns_20 bucket_wf_def)
  with False wf show ?thesis by auto
next
  case True
  have pid: "prefix_id b = p" using wf by (simp add: bucket_wf_def)
  show ?thesis
  proof (cases "dict_get (nodes b) i")
    case (Some curr)
    let ?n = "add_address (peer_address node) curr"
    have "node_id ?n = return i"
      using bucket_wfD(1) [OF wf Some] i(1) by (rule node_id_add_address)
    then have "bucket_wf p (b\<lparr>nodes := dict_set i ?n (nodes b), last_changed := now\<rparr>)"
      using bucket_wf_set [OF wf _ i(2) True] Some by simp
    moreover have "b' = b\<lparr>nodes := dict_set i ?n (nodes b), last_changed := now\<rparr>" "r = return True"
      using add i True Some pid by (auto simp: bucket_add_def owns_20)
    ultimately show ?thesis using True by (simp add: dict_simps)
  next
    case None
    show ?thesis
    proof (cases "length (nodes b) \<ge> max_size b")
      case full: True
      then have len: "length (nodes b) = max_size b" using wf by (simp add: bucket_wf_def)
      obtain ns r1 where mr: "make_room now node (nodes b) = (ns, r1)" by fastforce
      note room = make_room_filed [OF filed_bucket [OF wf] mr]
      let ?b = "b\<lparr>nodes := ns\<rparr>"
      have ns_i: "dict_get ns i = None"
        using room None by (metis option.distinct(1))
      have "bucket_wf p ?b"
        using wf room unfolding bucket_wf_def filed_def by simp (metis option.distinct(1))
      moreover have ins: "bucket_insert now i node ?b = (b', r)"
        using add i True None pid full mr room by (auto simp: bucket_add_def owns_20)
      ultimately have sp: "bucket_wf p b'"
        "if length ns < max_size b
         then r = return True \<and> dict_get (nodes b') = (dict_get ns)(i \<mapsto> node\<lparr>node_bucket := Some p\<rparr>)
         else r = return False \<and> b' = ?b"
        using bucket_insert_spec [OF _ i True ins] by auto
      show ?thesis
      proof (cases "length ns < max_size b")
        case True
        with sp room len \<open>prefix p (bin i)\<close> show ?thesis
          by (auto simp: evictable_def)
      next
        case False
        with room len have "ns = nodes b" by linarith
        with False sp None len show ?thesis by auto
      qed
    next
      case False
      then have "bucket_insert now i node b = (b', r)"
        using add i True None pid by (auto simp: bucket_add_def owns_20)
      from bucket_insert_spec [OF wf i True this] False True show ?thesis by auto
    qed
  qed
qed

subsection \<open>Splitting a bucket\<close>

lemma prefix_snoc_bit:
  assumes "prefix p s" "length p < length s" "set s \<subseteq> {CHR ''0'', CHR ''1''}"
  shows "prefix (p @ ''0'') s \<longleftrightarrow> \<not> prefix (p @ ''1'') s"
proof -
  from assms(1,2) obtain c cs where s: "s = p @ c # cs"
    by (metis append_Nil2 less_irrefl list.exhaust prefixE)
  with assms(3) show ?thesis by auto
qed

lemma bin_split:
  "prefix p (bin i) \<Longrightarrow> length p < 160 \<Longrightarrow> prefix (p @ ''0'') (bin i) \<longleftrightarrow> \<not> prefix (p @ ''1'') (bin i)"
  by (rule prefix_snoc_bit) (use set_bin in auto)

definition rehome :: "string \<Rightarrow> bytes \<times> dht_node \<Rightarrow> bytes \<times> dht_node" where
  "rehome p x = (fst x, (snd x)\<lparr>node_bucket := Some p\<rparr>)"

definition half :: "string \<Rightarrow> (bytes \<times> dht_node) list \<Rightarrow> (bytes \<times> dht_node) list" where
  "half p ps = map (rehome p) (filter (\<lambda>x. prefix p (bin (fst x))) ps)"

lemma half_simps [simp]:
  "half p [] = []"
  "half p (x # xs) = (if prefix p (bin (fst x)) then [rehome p x] else []) @ half p xs"
  by (simp_all add: half_def)

lemma dict_get_half:
  "dict_get (half p ps) i =
     (if prefix p (bin i) then map_option (\<lambda>n. n\<lparr>node_bucket := Some p\<rparr>) (dict_get ps i) else None)"
  by (induction ps) (auto simp: rehome_def)

lemma bucket_add_fresh:
  assumes "prefix_id b = p" "node_id n = return i" "length i = 20" "prefix p (bin i)"
    "dict_get (nodes b) i = None" "length (nodes b) < max_size b"
  shows "bucket_add now n b =
    (b\<lparr>nodes := nodes b @ [rehome p (i, n)], last_changed := now\<rparr>, return True)"
  using assms
  by (simp add: bucket_add_def bucket_insert_def owns_20 dict_set_fresh rehome_def)

lemma split_loop_eq:
  assumes "length p < 160" "prefix_id b0 = p @ ''0''" "prefix_id b1 = p @ ''1''"
    and "distinct (map fst ps)"
    and "\<And>i n. (i, n) \<in> set ps \<Longrightarrow> node_id n = return i \<and> length i = 20 \<and> prefix p (bin i) \<and>
           dict_get (nodes b0) i = None \<and> dict_get (nodes b1) i = None"
    and "length (nodes b0) + length ps \<le> max_size b0" "length (nodes b1) + length ps \<le> max_size b1"
  shows "\<exists>t0 t1. split_loop now (map snd ps) b0 b1 =
      return (b0\<lparr>nodes := nodes b0 @ half (p @ ''0'') ps, last_changed := t0\<rparr>,
              b1\<lparr>nodes := nodes b1 @ half (p @ ''1'') ps, last_changed := t1\<rparr>)"
  using assms
proof (induction ps arbitrary: b0 b1)
  case Nil
  show ?case
    by (intro exI [of _ "last_changed b0"] exI [of _ "last_changed b1"]) simp
next
  case (Cons x ps)
  obtain i n where x: "x = (i, n)" by (cases x)
  from Cons.prems(5) [of i n] x have n: "node_id n = return i" "length i = 20" "prefix p (bin i)"
    and fresh: "dict_get (nodes b0) i = None" "dict_get (nodes b1) i = None" by auto
  have other: "j \<noteq> i \<and> node_id m = return j \<and> length j = 20 \<and> prefix p (bin j) \<and>
      dict_get (nodes b0) j = None \<and> dict_get (nodes b1) j = None" if "(j, m) \<in> set ps" for j m
    using Cons.prems(4) Cons.prems(5) [of j m] that x by force
  let ?b0 = "b0\<lparr>nodes := nodes b0 @ [rehome (p @ ''0'') (i, n)], last_changed := now\<rparr>"
  let ?b1 = "b1\<lparr>nodes := nodes b1 @ [rehome (p @ ''1'') (i, n)], last_changed := now\<rparr>"
  note alt = bin_split [OF n(3) Cons.prems(1)]
  show ?case
  proof (cases "prefix (p @ ''0'') (bin i)")
    case True
    have add: "bucket_add now n b0 = (?b0, return True)"
      using Cons.prems(2,6) n True fresh by (intro bucket_add_fresh) auto
    have "\<exists>t0 t1. split_loop now (map snd ps) ?b0 b1 =
      return (?b0\<lparr>nodes := nodes ?b0 @ half (p @ ''0'') ps, last_changed := t0\<rparr>,
              b1\<lparr>nodes := nodes b1 @ half (p @ ''1'') ps, last_changed := t1\<rparr>)"
      by (rule Cons.IH) (use Cons.prems other in \<open>auto simp: rehome_def\<close>)
    with add True alt Cons.prems(2) n x show ?thesis by (simp add: owns_20)
  next
    case False
    have add: "bucket_add now n b1 = (?b1, return True)"
      using Cons.prems(3,7) n False alt fresh by (intro bucket_add_fresh) auto
    have "\<exists>t0 t1. split_loop now (map snd ps) b0 ?b1 =
      return (b0\<lparr>nodes := nodes b0 @ half (p @ ''0'') ps, last_changed := t0\<rparr>,
              ?b1\<lparr>nodes := nodes ?b1 @ half (p @ ''1'') ps, last_changed := t1\<rparr>)"
      by (rule Cons.IH) (use Cons.prems other in \<open>auto simp: rehome_def\<close>)
    with add False alt Cons.prems(2,3) n x show ?thesis by (simp add: owns_20)
  qed
qed

lemma bucket_wf_half:
  assumes "bucket_wf p b" "nodes b' = half (p @ c) (nodes b)" "prefix_id b' = p @ c" "max_size b' = max_size b"
  shows "bucket_wf (p @ c) b'"
proof -
  have "map fst (half (p @ c) (nodes b)) = map fst (filter (\<lambda>x. prefix (p @ c) (bin (fst x))) (nodes b))"
    by (simp add: half_def rehome_def)
  then have "dict_wf (nodes b')"
    using assms by (simp add: bucket_wf_def dict_wf_def distinct_map_filter)
  moreover have "length (nodes b') \<le> length (nodes b)"
    using assms(2) by (simp add: half_def)
  ultimately show ?thesis
    using assms by (auto simp: bucket_wf_def dict_get_half split: if_splits)
qed

text \<open>A full bucket splits into two well-formed halves that hold all of its nodes.\<close>

lemma bucket_split_spec:
  assumes wf: "bucket_wf p b" and len: "length p < 160" and full: "length (nodes b) = max_size b"
  shows "\<exists>b0 b1. bucket_split now b = return (Some (b0, b1)) \<and>
    bucket_wf (p @ ''0'') b0 \<and> bucket_wf (p @ ''1'') b1 \<and>
    nodes b0 = half (p @ ''0'') (nodes b) \<and> nodes b1 = half (p @ ''1'') (nodes b)"
proof -
  let ?n = "\<lambda>c. new_bucket (p @ c) (max_size b)"
  have "prefix_id b = p" and dw: "dict_wf (nodes b)" using wf by (simp_all add: bucket_wf_def)
  have "\<exists>t0 t1. split_loop now (map snd (nodes b)) (?n ''0'') (?n ''1'') =
      return ((?n ''0'')\<lparr>nodes := nodes (?n ''0'') @ half (p @ ''0'') (nodes b), last_changed := t0\<rparr>,
              (?n ''1'')\<lparr>nodes := nodes (?n ''1'') @ half (p @ ''1'') (nodes b), last_changed := t1\<rparr>)"
    using wf len full dw
    by (intro split_loop_eq) (auto simp: new_bucket_def dict_wf_def bucket_wf_def)
  then obtain b0 b1 where "split_loop now (map snd (nodes b)) (?n ''0'') (?n ''1'') = return (b0, b1)"
    "nodes b0 = half (p @ ''0'') (nodes b)" "nodes b1 = half (p @ ''1'') (nodes b)"
    "prefix_id b0 = p @ ''0''" "prefix_id b1 = p @ ''1''" "max_size b0 = max_size b" "max_size b1 = max_size b"
    by (auto simp: new_bucket_def)
  with \<open>prefix_id b = p\<close> full show ?thesis
    using bucket_wf_half [OF wf] by (auto simp: bucket_split_def)
qed

section \<open>Table invariant\<close>

text \<open>
  The keys of the trie form a complete prefix code: every bit string of 160 digits has
  exactly one key as a prefix. Each bucket is filed under its own prefix.
\<close>

definition full_string :: "string \<Rightarrow> bool" where
  "full_string s \<longleftrightarrow> length s = 160 \<and> set s \<subseteq> {CHR ''0'', CHR ''1''}"

definition complete_code :: "string set \<Rightarrow> bool" where
  "complete_code D \<longleftrightarrow>
     (\<forall>p \<in> D. length p \<le> 160 \<and> set p \<subseteq> {CHR ''0'', CHR ''1''}) \<and>
     (\<forall>s. full_string s \<longrightarrow> (\<exists>!p. p \<in> D \<and> prefix p s))"

definition rt_wf :: "routing_table \<Rightarrow> bool" where
  "rt_wf rt \<longleftrightarrow> length (my_node_id rt) = 20 \<and> wf_trie (buckets rt) \<and> alphabet (buckets rt) = ''01'' \<and>
     complete_code (dom (trie_lookup (buckets rt))) \<and>
     (\<forall>p b. trie_lookup (buckets rt) p = Some b \<longrightarrow> bucket_wf p b)"

lemma full_string_bin [simp]: "full_string (bin i)"
  using set_bin by (simp add: full_string_def)

lemma complete_code_root: "complete_code {[]}"
  by (auto simp: complete_code_def)

text \<open>Every binary string of at most 160 digits begins some full string.\<close>

lemma extend_full:
  "length p \<le> 160 \<Longrightarrow> set p \<subseteq> {CHR ''0'', CHR ''1''} \<Longrightarrow>
     full_string (p @ replicate (160 - length p) (CHR ''0''))"
  by (auto simp: full_string_def)

lemma complete_code_unique:
  assumes "complete_code D" "p \<in> D" "q \<in> D" "prefix p s" "prefix q s" "full_string s"
  shows "p = q"
  using assms unfolding complete_code_def by blast

lemma complete_code_prefix_free:
  assumes D: "complete_code D" and "p \<in> D" "q \<in> D" "prefix p q"
  shows "p = q"
proof -
  let ?s = "q @ replicate (160 - length q) (CHR ''0'')"
  have "full_string ?s" using D \<open>q \<in> D\<close> by (intro extend_full) (auto simp: complete_code_def)
  moreover have "prefix q ?s" "prefix p ?s" using \<open>prefix p q\<close> by auto
  ultimately show ?thesis using complete_code_unique assms by blast
qed

lemma complete_code_split:
  assumes D: "complete_code D" and p: "p \<in> D" "length p < 160"
  shows "complete_code (insert (p @ ''1'') (insert (p @ ''0'') (D - {p})))"
proof -
  let ?D = "insert (p @ ''1'') (insert (p @ ''0'') (D - {p}))"
  have "\<exists>!q. q \<in> ?D \<and> prefix q s" if s: "full_string s" for s
  proof -
    obtain q where q: "q \<in> D" "prefix q s" and uq: "\<And>q'. q' \<in> D \<Longrightarrow> prefix q' s \<Longrightarrow> q' = q"
      using D s unfolding complete_code_def by blast
    have ext: "prefix (p @ c) s \<Longrightarrow> prefix p s" for c
      by (meson append_prefixD)
    show ?thesis
    proof (cases "q = p")
      case True
      with q s p(2) have alt: "prefix (p @ ''0'') s \<longleftrightarrow> \<not> prefix (p @ ''1'') s"
        by (intro prefix_snoc_bit) (auto simp: full_string_def)
      show ?thesis
      proof (rule ex1I [of _ "if prefix (p @ ''0'') s then p @ ''0'' else p @ ''1''"])
        show "(if prefix (p @ ''0'') s then p @ ''0'' else p @ ''1'') \<in> ?D \<and>
            prefix (if prefix (p @ ''0'') s then p @ ''0'' else p @ ''1'') s"
          using alt by auto
      next
        fix q' assume "q' \<in> ?D \<and> prefix q' s"
        then show "q' = (if prefix (p @ ''0'') s then p @ ''0'' else p @ ''1'')"
          using alt uq [of q'] True by auto
      qed
    next
      case False
      then have "\<not> prefix p s" using uq p(1) by auto
      then have "\<not> prefix (p @ ''0'') s" "\<not> prefix (p @ ''1'') s" using ext by blast+
      show ?thesis
      proof (rule ex1I [of _ q])
        show "q \<in> ?D \<and> prefix q s" using q False by simp
      next
        fix q' assume "q' \<in> ?D \<and> prefix q' s"
        with \<open>\<not> prefix (p @ ''0'') s\<close> \<open>\<not> prefix (p @ ''1'') s\<close> show "q' = q"
          using uq [of q'] by blast
      qed
    qed
  qed
  moreover have "length q \<le> 160 \<and> set q \<subseteq> {CHR ''0'', CHR ''1''}" if "q \<in> ?D" for q
  proof -
    have "\<forall>q \<in> D. length q \<le> 160 \<and> set q \<subseteq> {CHR ''0'', CHR ''1''}"
      by (rule conjunct1 [OF D [unfolded complete_code_def]])
    then have "q \<in> D \<Longrightarrow> ?thesis" and "set p \<subseteq> {CHR ''0'', CHR ''1''}" using p(1) by blast+
    with that p(2) show ?thesis by auto
  qed
  ultimately show ?thesis unfolding complete_code_def by blast
qed

lemma rt_wf_new:
  assumes "length i = 20"
  shows "rt_wf (new_routing_table i)"
proof -
  obtain t r where t: "trie_setitem (new_trie ''01'') [] (new_bucket [] MAX_BUCKET_SIZE) = (t, r)"
    by fastforce
  have al: "alphabet (new_trie ''01'') = ''01''" by (simp add: new_trie_def)
  have t': "trie_lookup t = [[] \<mapsto> new_bucket [] MAX_BUCKET_SIZE]" "wf_trie t" "alphabet t = ''01''"
    using trie_setitem_law [OF wf_trie_new _ t] al by simp_all
  have "bucket_wf [] (new_bucket [] MAX_BUCKET_SIZE)"
    by (simp add: bucket_wf_def new_bucket_def MAX_BUCKET_SIZE_def)
  with t' assms complete_code_root show ?thesis
    by (simp add: rt_wf_def new_routing_table_def t)
qed

subsection \<open>Finding the bucket of an identifier\<close>

lemma get_bucket_item_spec:
  assumes wf: "rt_wf rt" and i: "length i = 20"
  shows "\<exists>p b. get_bucket_item rt i = return (p, b) \<and> trie_lookup (buckets rt) p = Some b \<and>
    prefix p (bin i)"
proof -
  let ?t = "buckets rt"
  obtain p0 where p0: "p0 \<in> dom (trie_lookup ?t)" "prefix p0 (bin i)"
    using wf full_string_bin unfolding rt_wf_def complete_code_def by blast
  obtain p v where loop: "longest_prefix_loop (trie_root ?t) [] (bin i) ([], None) = (p, v)"
    by fastforce
  from longest_prefix_loop_spec [OF loop]
  consider (none) "v = None" "\<forall>q. q \<noteq> [] \<and> prefix q (bin i) \<longrightarrow> trie_lookup ?t q = None"
    | (item) x where "v = Some x" "prefix p (bin i)" "trie_lookup ?t p = Some x"
    unfolding trie_lookup_def by auto
  then show ?thesis
  proof cases
    case none
    with p0 have "p0 = []" by force
    with p0 obtain b where "trie_lookup ?t [] = Some b" by blast
    with none loop i show ?thesis
      by (auto simp: get_bucket_item_def id_to_binary_string_20 longest_prefix_item_def
          trie_getitem_lookup)
  next
    case item
    with loop i show ?thesis
      by (auto simp: get_bucket_item_def id_to_binary_string_20 longest_prefix_item_def)
  qed
qed

lemma get_bucket_item_unique:
  assumes wf: "rt_wf rt" and i: "length i = 20"
    and p: "trie_lookup (buckets rt) p = Some b" "prefix p (bin i)"
  shows "get_bucket_item rt i = return (p, b)"
proof -
  obtain q c where q: "get_bucket_item rt i = return (q, c)" "trie_lookup (buckets rt) q = Some c"
    "prefix q (bin i)" using get_bucket_item_spec [OF wf i] by blast
  have "p = q"
    by (rule complete_code_unique [of "dom (trie_lookup (buckets rt))" _ _ "bin i"])
      (use wf p q in \<open>auto simp: rt_wf_def\<close>)
  with p q show ?thesis by simp
qed

subsection \<open>Adding a node to the table\<close>

lemma alphabet_01: "rt_wf rt \<Longrightarrow> set (alphabet (buckets rt)) = {CHR ''0'', CHR ''1''}"
  by (simp add: rt_wf_def)

lemma put_bucket_spec:
  assumes wf: "rt_wf rt" and p: "trie_lookup (buckets rt) p = Some b" and b': "bucket_wf p b'"
  shows "rt_wf (put_bucket p b' rt)"
    and "trie_lookup (buckets (put_bucket p b' rt)) = (trie_lookup (buckets rt))(p \<mapsto> b')"
    and "my_node_id (put_bucket p b' rt) = my_node_id rt"
proof -
  obtain t r where t: "trie_setitem (buckets rt) p b' = (t, r)" by fastforce
  have wt: "wf_trie (buckets rt)" using wf by (simp add: rt_wf_def)
  have "set p \<subseteq> set (alphabet (buckets rt))" by (rule trie_keys_law [OF wt]) (use p in blast)
  from trie_setitem_law [OF wt this t]
  have t': "trie_lookup t = (trie_lookup (buckets rt))(p \<mapsto> b')" "wf_trie t"
    "alphabet t = alphabet (buckets rt)" by auto
  show "trie_lookup (buckets (put_bucket p b' rt)) = (trie_lookup (buckets rt))(p \<mapsto> b')"
    by (simp add: put_bucket_def t t')
  have "dom (trie_lookup t) = dom (trie_lookup (buckets rt))" using p by (auto simp: t')
  then show "rt_wf (put_bucket p b' rt)"
    using wf b' t' by (auto simp: rt_wf_def put_bucket_def t)
  show "my_node_id (put_bucket p b' rt) = my_node_id rt" by (simp add: put_bucket_def)
qed

lemma replace_bucket_spec:
  assumes wf: "rt_wf rt" and p: "trie_lookup (buckets rt) p = Some b" "length p < 160"
    and b01: "bucket_wf (p @ ''0'') b0" "bucket_wf (p @ ''1'') b1"
    and rep: "replace_bucket p b0 b1 rt = (rt', r)"
  shows "r = return () \<and> rt_wf rt' \<and> my_node_id rt' = my_node_id rt \<and>
    trie_lookup (buckets rt') =
      (trie_lookup (buckets rt))(p @ ''0'' \<mapsto> b0, p @ ''1'' \<mapsto> b1, p := None)"
proof -
  have wt: "wf_trie (buckets rt)" using wf by (simp add: rt_wf_def)
  obtain t1 r1 where 1: "trie_setitem (buckets rt) (p @ ''0'') b0 = (t1, r1)" by fastforce
  obtain t2 r2 where 2: "trie_setitem t1 (p @ ''1'') b1 = (t2, r2)" by fastforce
  obtain t3 r3 where 3: "trie_delitem t2 p = (t3, r3)" by fastforce
  have ab: "CHR ''0'' \<in> set (alphabet (buckets rt))" "CHR ''1'' \<in> set (alphabet (buckets rt))"
    by (simp_all add: alphabet_01 [OF wf])
  from pm.split_key [OF wt p(1) ab 1 2 3]
  have *: "r1 = return ()" "r2 = return ()" "r3 = return ()" "wf_trie t3"
    "trie_lookup t3 = (trie_lookup (buckets rt))(p @ ''0'' \<mapsto> b0, p @ ''1'' \<mapsto> b1, p := None)"
    by auto
  have al: "alphabet t3 = ''01''"
    using wf 1 2 3 by (auto simp: rt_wf_def trie_setitem_def trie_delitem_def split: prod.splits option.splits)
  have "rt' = rt\<lparr>buckets := t3\<rparr>" "r = return ()"
    using rep 1 2 3 * by (simp_all add: replace_bucket_def)
  moreover have "complete_code (dom (trie_lookup t3))"
  proof -
    have "dom (trie_lookup t3) =
        insert (p @ ''1'') (insert (p @ ''0'') (dom (trie_lookup (buckets rt)) - {p}))"
      by (auto simp: *)
    then show ?thesis
      using complete_code_split [of "dom (trie_lookup (buckets rt))" p] wf p
      by (auto simp: rt_wf_def)
  qed
  ultimately show ?thesis using wf b01 al * by (auto simp: rt_wf_def)
qed

lemma rt_get_spec:
  assumes "rt_wf rt" "length i = 20" "trie_lookup (buckets rt) p = Some b" "prefix p (bin i)"
  shows "rt_get rt i = return (dict_get (nodes b) i)"
  using get_bucket_item_unique [OF assms]
  by (simp add: rt_get_def get_bucket_def bucket_get_def)

lemma full_bucket_prefix_less:
  assumes b: "bucket_wf p b" "length (nodes b) = max_size b" "length p \<le> 160"
    and i: "length i = 20" "dict_get (nodes b) i = None" "prefix p (bin i)"
  shows "length p < 160"
proof (rule ccontr)
  assume "\<not> length p < 160"
  with b(3) have len: "length p = 160" by simp
  have eq: "bin j = p" if "prefix p (bin j)" for j
  proof -
    from that obtain zs where z: "bin j = p @ zs" by (rule prefixE)
    then have "length zs = 0" using len length_bin [of j] by simp
    with z show ?thesis by simp
  qed
  have "nodes b \<noteq> []" using b by (auto simp: bucket_wf_def)
  then obtain j n rest where "nodes b = (j, n) # rest" by (metis list.exhaust surj_pair)
  then have jn: "dict_get (nodes b) j = Some n" by simp
  with eq [of j] eq [of i] bucket_wfD [OF b(1) jn] i have "j = i"
    using bin_inject by metis
  with jn i(2) show False by simp
qed


text \<open>
  The three ways a round of \<^verbatim>\<open>add\<close> goes: the bucket takes the node, the bucket is full and
  does not contain our own identifier, or it is full and is split.
\<close>

lemma rt_add_round_cases:
  assumes wf: "rt_wf rt" and i: "node_id node = return i" "length i = 20"
    and kb: "get_bucket_item rt i = return (p, b)"
  obtains
    (taken) b' where "bucket_add now node b = (b', return True)" "dict_get (nodes b') i \<noteq> None"
      "rt_add_round now node rt = Inl (put_bucket p b' rt, return (dict_get (nodes b') i))"
  | (refused) "length (nodes b) = max_size b" "dict_get (nodes b) i = None"
      "\<not> prefix p (bin (my_node_id rt))"
      "rt_add_round now node rt = Inl (put_bucket p b rt, return None)"
  | (split) b0 b1 rt' where "length p < 160" "bucket_wf (p @ ''0'') b0" "bucket_wf (p @ ''1'') b1"
      "nodes b0 = half (p @ ''0'') (nodes b)" "nodes b1 = half (p @ ''1'') (nodes b)"
      "replace_bucket p b0 b1 (put_bucket p b rt) = (rt', return ())"
      "rt_add_round now node rt = Inr rt'"
proof -
  have p: "trie_lookup (buckets rt) p = Some b" "prefix p (bin i)"
    using get_bucket_item_spec [OF wf i(2)] kb by auto
  have bw: "bucket_wf p b" and plen: "length p \<le> 160" and my: "length (my_node_id rt) = 20"
    using wf p(1) by (auto simp: rt_wf_def complete_code_def)
  have pid: "prefix_id b = p" using bw by (simp add: bucket_wf_def)
  obtain b' r where add: "bucket_add now node b = (b', r)" by fastforce
  consider (ok) "r = return True" "dict_get (nodes b') i \<noteq> None"
    | (full) "r = return False" "b' = b" "dict_get (nodes b) i = None" "length (nodes b) = max_size b"
    using bucket_add_spec [OF bw i add, THEN conjunct2, THEN conjunct1] p(2)
    by (elim disjE conjE) simp_all
  then show thesis
  proof cases
    case ok
    with i(1) kb add show thesis by (intro taken) (auto simp: rt_add_round_def bucket_get_def)
  next
    case full
    show thesis
    proof (cases "prefix p (bin (my_node_id rt))")
      case False
      with i kb add full my pid show thesis
        by (intro refused) (auto simp: rt_add_round_def owns_20)
    next
      case True
      have len: "length p < 160"
        by (rule full_bucket_prefix_less [OF bw full(4) plen i(2) full(3) p(2)])
      obtain b0 b1 where sp: "bucket_split now b = return (Some (b0, b1))"
        "bucket_wf (p @ ''0'') b0" "bucket_wf (p @ ''1'') b1"
        "nodes b0 = half (p @ ''0'') (nodes b)" "nodes b1 = half (p @ ''1'') (nodes b)"
        using bucket_split_spec [OF bw len full(4)] by blast
      obtain rt' r' where rep: "replace_bucket p b0 b1 (put_bucket p b rt) = (rt', r')" by fastforce
      note put = put_bucket_spec [OF wf p(1) bw]
      have "r' = return ()"
        using replace_bucket_spec [OF put(1) _ len sp(2,3) rep] put(2) by simp
      with i kb add full my pid sp True rep len show thesis
        by (intro split) (auto simp: rt_add_round_def owns_20)
    qed
  qed
qed

text \<open>
  One round of \<^verbatim>\<open>add\<close> never raises. It ends with a well-formed table that knows the node
  exactly when it returns it, or it goes on with a well-formed table in which the bucket
  of the identifier has a longer prefix. It returns nothing only for a full bucket that
  does not contain our own identifier.
\<close>

lemma rt_add_round_spec:
  assumes wf: "rt_wf rt" and i: "node_id node = return i" "length i = 20"
    and kb: "get_bucket_item rt i = return (p, b)"
  shows "(\<exists>rt' res. rt_add_round now node rt = Inl (rt', return res) \<and> rt_wf rt' \<and>
            my_node_id rt' = my_node_id rt \<and> rt_get rt' i = return res \<and>
            (res = None \<longrightarrow> length (nodes b) = max_size b \<and> \<not> prefix p (bin (my_node_id rt)) \<and>
               get_bucket_item rt' i = return (p, b))) \<or>
         (\<exists>rt' c b'. rt_add_round now node rt = Inr rt' \<and> rt_wf rt' \<and>
            my_node_id rt' = my_node_id rt \<and> length p < 160 \<and>
            get_bucket_item rt' i = return (p @ [c], b'))"
proof -
  have p: "trie_lookup (buckets rt) p = Some b" "prefix p (bin i)"
    using get_bucket_item_spec [OF wf i(2)] kb by auto
  have bw: "bucket_wf p b" using wf p(1) by (auto simp: rt_wf_def)
  note put = put_bucket_spec [OF wf p(1)]
  have lk: "trie_lookup (buckets (put_bucket p c rt)) p = Some c" if "bucket_wf p c" for c
    using put(2) [OF that] by simp
  from wf i kb show ?thesis
  proof (cases rule: rt_add_round_cases [where now = now])
    case (taken b')
    then have "bucket_wf p b'" using bucket_add_spec [OF bw i] by blast
    with put taken rt_get_spec [OF put(1) i(2) lk p(2)] show ?thesis by metis
  next
    case refused
    with put [OF bw] get_bucket_item_unique [OF put(1) [OF bw] i(2) lk [OF bw] p(2)]
      rt_get_spec [OF put(1) [OF bw] i(2) lk [OF bw] p(2)]
    show ?thesis by auto
  next
    case (split b0 b1 rt')
    note rp = replace_bucket_spec [OF put(1) [OF bw] lk [OF bw] split(1-3) split(6)]
    have "\<exists>c b'. get_bucket_item rt' i = return (p @ [c], b')"
    proof (cases "prefix (p @ ''0'') (bin i)")
      case True
      then have "get_bucket_item rt' i = return (p @ ''0'', b0)"
        using rp by (intro get_bucket_item_unique) (auto simp: i)
      then show ?thesis by auto
    next
      case False
      then have "prefix (p @ ''1'') (bin i)" using bin_split [OF p(2) split(1)] by simp
      then have "get_bucket_item rt' i = return (p @ ''1'', b1)"
        using rp by (intro get_bucket_item_unique) (auto simp: i)
      then show ?thesis by auto
    qed
    with rp split(1,7) put(3) [OF bw] show ?thesis by auto
  qed
qed

lemma rt_add_total:
  assumes "rt_wf rt" "node_id node = return i" "length i = 20"
    "get_bucket_item rt i = return (p, b)"
  shows "\<exists>rt' res. rt_add now node rt = Some (rt', return res) \<and> rt_wf rt' \<and>
    my_node_id rt' = my_node_id rt \<and> rt_get rt' i = return res \<and>
    (res = None \<longrightarrow> (\<exists>p' b'. get_bucket_item rt' i = return (p', b') \<and>
       length (nodes b') = max_size b' \<and> \<not> prefix p' (bin (my_node_id rt))))"
  using assms
proof (induction "160 - length p" arbitrary: rt p b rule: less_induct)
  case less
  from rt_add_round_spec [OF less.prems, of now] show ?case
  proof (elim disjE exE conjE)
    fix rt' res
    assume "rt_add_round now node rt = Inl (rt', return res)" "rt_wf rt'"
      "my_node_id rt' = my_node_id rt" "rt_get rt' i = return res"
      "res = None \<longrightarrow> length (nodes b) = max_size b \<and> \<not> prefix p (bin (my_node_id rt)) \<and>
               get_bucket_item rt' i = return (p, b)"
    then show ?thesis by (subst rt_add.simps) auto
  next
    fix rt' c b'
    assume *: "rt_add_round now node rt = Inr rt'" "rt_wf rt'" "my_node_id rt' = my_node_id rt"
      "length p < 160" "get_bucket_item rt' i = return (p @ [c], b')"
    have "160 - length (p @ [c]) < 160 - length p" using *(4) by simp
    from less.hyps [OF this *(2) less.prems(2,3) *(5)] *(1,3) show ?thesis
      by (subst rt_add.simps) auto
  qed
qed

section \<open>The XOR metric and the prefix order\<close>

lemma take_bits_of_nat: "k \<le> w \<Longrightarrow> take k (bits_of_nat w n) = bits_of_nat k (n div 2 ^ (w - k))"
proof (induction w arbitrary: n)
  case (Suc w)
  show ?case
  proof (cases "k = Suc w")
    case False
    with Suc.prems have k: "k \<le> w" by simp
    then have "take k (bits_of_nat (Suc w) n) = bits_of_nat k (n div 2 div 2 ^ (w - k))"
      using Suc.IH [OF k, of "n div 2"] by simp
    also have "n div 2 div 2 ^ (w - k) = n div 2 ^ (Suc w - k)"
      using k by (simp add: Suc_diff_le div_mult2_eq)
    finally show ?thesis .
  qed simp
qed simp

lemma xor_cancel_nat: "(a XOR b) XOR b = (a :: nat)"
  by (simp add: xor.assoc)

lemma xor_eq_0_nat: "a XOR b = 0 \<longleftrightarrow> a = (b :: nat)"
  using xor_cancel_nat [of a b] by auto

lemma div_eq_iff_xor_less: "(a :: nat) div 2 ^ m = b div 2 ^ m \<longleftrightarrow> a XOR b < 2 ^ m"
proof -
  have "a div 2 ^ m = b div 2 ^ m \<longleftrightarrow> drop_bit m a XOR drop_bit m b = 0"
    by (simp only: drop_bit_eq_div xor_eq_0_nat)
  also have "\<dots> \<longleftrightarrow> (a XOR b) div 2 ^ m = 0"
    by (simp add: drop_bit_xor drop_bit_eq_div [symmetric])
  also have "\<dots> \<longleftrightarrow> a XOR b < 2 ^ m"
    by (simp add: div_eq_0_iff)
  finally show ?thesis .
qed

lemma prefix_take_iff: "prefix p s \<Longrightarrow> prefix p s' \<longleftrightarrow> take (length p) s' = take (length p) s"
  by (auto simp: prefix_def) (metis append_take_drop_id)

text \<open>
  An identifier shares the prefix of a target exactly when its distance to the target is
  below the corresponding power of two.
\<close>

lemma prefix_iff_distance:
  assumes "length i = 20" "length t = 20" "prefix p (bin t)"
  shows "prefix p (bin i) \<longleftrightarrow> nat_of_bytes i XOR nat_of_bytes t < 2 ^ (160 - length p)"
proof -
  let ?k = "length p"
  have k: "?k \<le> 160" using prefix_length_le [OF assms(3)] by simp
  have small: "nat_of_bytes x div 2 ^ (160 - ?k) < 2 ^ ?k" if "length x = 20" for x
  proof -
    have "nat_of_bytes x < 2 ^ (?k + (160 - ?k))" using id_less [OF that] k by simp
    then show ?thesis by (simp add: less_mult_imp_div_less power_add)
  qed
  have "prefix p (bin i) \<longleftrightarrow> take ?k (id_bits i) = take ?k (id_bits t)"
    using prefix_take_iff [OF assms(3), of "bin i"] by (simp add: bin_def take_map)
  also have "\<dots> \<longleftrightarrow> bits_of_nat ?k (nat_of_bytes i div 2 ^ (160 - ?k)) =
      bits_of_nat ?k (nat_of_bytes t div 2 ^ (160 - ?k))"
    by (simp only: id_bits_def take_bits_of_nat [OF k])
  also have "\<dots> \<longleftrightarrow> nat_of_bytes i div 2 ^ (160 - ?k) = nat_of_bytes t div 2 ^ (160 - ?k)"
    using small [OF assms(1)] small [OF assms(2)] nat_of_bits_of_nat by metis
  finally show ?thesis by (simp only: div_eq_iff_xor_less)
qed

lemma nearer_by_prefix:
  assumes "length i = 20" "length j = 20" "length t = 20"
    "prefix p (bin t)" "prefix p (bin i)" "\<not> prefix p (bin j)"
  shows "nat_of_bytes i XOR nat_of_bytes t < nat_of_bytes j XOR nat_of_bytes t"
  using prefix_iff_distance [of i t p] prefix_iff_distance [of j t p] assms by linarith

section \<open>The nodes of a table\<close>

text \<open>
  \<open>under t p\<close>: the nodes in the buckets whose key extends \<open>p\<close>; the candidates of a
  query are the nodes of the whole table that are not bad and not excluded.
\<close>

definition under :: "bucket trie \<Rightarrow> string \<Rightarrow> dht_node set" where
  "under t p = {n. \<exists>q b i. prefix p q \<and> trie_lookup t q = Some b \<and> dict_get (nodes b) i = Some n}"

definition candidates :: "seconds \<Rightarrow> dht_node option \<Rightarrow> bucket trie \<Rightarrow> string \<Rightarrow> dht_node set" where
  "candidates now ex t p = {n \<in> under t p. eligible now ex n = return True}"

definition nid :: "dht_node \<Rightarrow> bytes" where
  "nid n = (case node_id n of Inr i \<Rightarrow> i | Inl _ \<Rightarrow> [])"

definition dist_to :: "bytes \<Rightarrow> dht_node \<Rightarrow> nat" where
  "dist_to target n = nat_of_bytes (nid n) XOR nat_of_bytes target"

lemma underE:
  assumes wf: "rt_wf rt" and n: "n \<in> under (buckets rt) p"
  obtains q b where "prefix p q" "trie_lookup (buckets rt) q = Some b"
    "dict_get (nodes b) (nid n) = Some n" "node_id n = return (nid n)" "length (nid n) = 20"
    "prefix q (bin (nid n))"
proof -
  from n obtain q b i where q: "prefix p q" "trie_lookup (buckets rt) q = Some b"
    "dict_get (nodes b) i = Some n" by (auto simp: under_def)
  then have "bucket_wf q b" using wf by (simp add: rt_wf_def)
  from bucket_wfD [OF this q(3)] have "node_id n = return i" "length i = 20" "prefix q (bin i)" .
  then show ?thesis using that [OF q(1,2)] q(3) by (simp add: nid_def)
qed

lemma inj_on_nid: "rt_wf rt \<Longrightarrow> inj_on nid (under (buckets rt) p)"
proof (rule inj_onI)
  fix n m assume wf: "rt_wf rt" and nm: "n \<in> under (buckets rt) p" "m \<in> under (buckets rt) p" "nid n = nid m"
  from underE [OF wf nm(1)] obtain q b where 1: "trie_lookup (buckets rt) q = Some b"
    "dict_get (nodes b) (nid n) = Some n" "length (nid n) = 20" "prefix q (bin (nid n))" by metis
  from underE [OF wf nm(2)] obtain q' b' where 2: "trie_lookup (buckets rt) q' = Some b'"
    "dict_get (nodes b') (nid m) = Some m" "prefix q' (bin (nid m))" by metis
  have "get_bucket_item rt (nid n) = return (q, b)"
    by (rule get_bucket_item_unique [OF wf 1(3) 1(1) 1(4)])
  moreover have "get_bucket_item rt (nid n) = return (q', b')"
    by (rule get_bucket_item_unique [OF wf 1(3) 2(1)]) (simp add: nm(3) 2(3))
  ultimately have "b = b'" by simp
  then have "Some n = Some m" using 1(2) 2(2) nm(3) by metis
  then show "n = m" by simp
qed

lemma under_prefix_bin:
  assumes "rt_wf rt" "n \<in> under (buckets rt) p"
  shows "prefix p (bin (nid n))"
  using underE [OF assms] prefix_order.trans by metis

text \<open>
  A node outside the part of the table below a prefix of a key does not have that prefix.
\<close>

lemma not_under_prefix_bin:
  assumes wf: "rt_wf rt" and n: "n \<in> under (buckets rt) []" "n \<notin> under (buckets rt) p"
    and p: "prefix p k" "k \<in> dom (trie_lookup (buckets rt))"
  shows "\<not> prefix p (bin (nid n))"
proof
  assume pn: "prefix p (bin (nid n))"
  from underE [OF wf n(1)] obtain q b where q: "trie_lookup (buckets rt) q = Some b"
    "dict_get (nodes b) (nid n) = Some n" "prefix q (bin (nid n))" by metis
  have "\<not> prefix p q" using n(2) q by (auto simp: under_def)
  with pn q(3) have "prefix q p" using prefix_same_cases by blast
  then have "prefix q k" using p(1) prefix_order.trans by blast
  then have "q = k"
    by (intro complete_code_prefix_free [of "dom (trie_lookup (buckets rt))"])
      (use wf p q in \<open>auto simp: rt_wf_def\<close>)
  with \<open>prefix q p\<close> p(1) have "q = p" using prefix_order.antisym by blast
  with \<open>\<not> prefix p q\<close> show False by simp
qed

lemma dist_to_inj:
  assumes "rt_wf rt" "length target = 20"
  shows "inj_on (dist_to target) (under (buckets rt) p)"
proof (rule inj_onI)
  fix n m assume n: "n \<in> under (buckets rt) p" and m: "m \<in> under (buckets rt) p"
    and eq: "dist_to target n = dist_to target m"
  have "length (nid n) = 20" "length (nid m) = 20" using underE [OF assms(1)] n m by metis+
  moreover have "nat_of_bytes (nid n) = nat_of_bytes (nid m)"
  proof -
    have "nat_of_bytes (nid n) = (dist_to target n) XOR nat_of_bytes target"
      by (simp add: dist_to_def xor_cancel_nat)
    also have "\<dots> = (dist_to target m) XOR nat_of_bytes target" by (simp only: eq)
    also have "\<dots> = nat_of_bytes (nid m)" by (simp add: dist_to_def xor_cancel_nat)
    finally show ?thesis .
  qed
  ultimately have "nid n = nid m" by (simp add: nat_of_bytes_inject)
  with inj_on_nid [OF assms(1)] n m show "n = m" by (auto dest: inj_onD)
qed


section \<open>Collecting the nodes below a prefix\<close>

lemma add_to_set_keys:
  "distinct (map public_key_bin ns) \<Longrightarrow> distinct (map public_key_bin (add_to_set ns n))"
  by (auto simp: add_to_set_def list_ex_iff peer_eq_def)

lemma set_add_to_set:
  "inj_on public_key_bin S \<Longrightarrow> set ns \<subseteq> S \<Longrightarrow> n \<in> S \<Longrightarrow> set (add_to_set ns n) = insert n (set ns)"
  by (auto simp: add_to_set_def list_ex_iff peer_eq_def dest: inj_onD)

lemma foldl_add_to_set:
  assumes "inj_on public_key_bin S" "set ns \<subseteq> S" "set new \<subseteq> S" "distinct (map public_key_bin ns)"
  shows "set (foldl add_to_set ns new) = set ns \<union> set new \<and>
    distinct (map public_key_bin (foldl add_to_set ns new))"
  using assms
proof (induction new arbitrary: ns)
  case (Cons n new)
  have "set (add_to_set ns n) = insert n (set ns)"
    by (rule set_add_to_set) (use Cons.prems in auto)
  with Cons.IH [of "add_to_set ns n"] Cons.prems show ?case
    by (simp add: add_to_set_keys)
qed simp

lemma eligible_total:
  assumes "node_id n = return i" and "\<And>x. ex = Some x \<Longrightarrow> \<exists>j. node_id x = return j"
  shows "eligible now ex n = return (eligible now ex n = return True)"
  using assms by (cases ex) (auto simp: eligible_def)

lemma collect_buckets_spec:
  assumes wf: "rt_wf rt" and ex: "\<And>x. ex = Some x \<Longrightarrow> \<exists>j. node_id x = return j"
    and inj: "inj_on public_key_bin (under (buckets rt) [])"
    and "\<And>s. s \<in> set ss \<Longrightarrow> p @ s \<in> dom (trie_lookup (buckets rt))"
    and "set ns \<subseteq> under (buckets rt) []" "distinct (map public_key_bin ns)"
  shows "\<exists>ns'. collect_buckets now ex (buckets rt) p ss ns = return ns' \<and>
    distinct (map public_key_bin ns') \<and>
    set ns' = set ns \<union> {n. \<exists>s b i. s \<in> set ss \<and> trie_lookup (buckets rt) (p @ s) = Some b \<and>
      dict_get (nodes b) i = Some n \<and> eligible now ex n = return True}"
  using assms(4-)
proof (induction ss arbitrary: ns)
  case (Cons s ss)
  from Cons.prems(1) obtain b where b: "trie_lookup (buckets rt) (p @ s) = Some b" by fastforce
  then have bw: "bucket_wf (p @ s) b" and dw: "dict_wf (nodes b)"
    using wf by (auto simp: rt_wf_def bucket_wf_def)
  let ?P = "\<lambda>n. eligible now ex n = return True"
  let ?new = "filter ?P (dict_values (nodes b))"
  have val: "n \<in> set (dict_values (nodes b)) \<longleftrightarrow> (\<exists>i. dict_get (nodes b) i = Some n)" for n
    using set_dict_values_wf [OF dw] by (auto simp: ran_def)
  have fr: "filter_result (eligible now ex) (dict_values (nodes b)) = return ?new"
    by (rule filter_result_return) (metis val bucket_wfD(1) [OF bw] eligible_total ex)
  have "set ?new \<subseteq> under (buckets rt) []" using val b by (auto simp: under_def)
  note fold = foldl_add_to_set [OF inj Cons.prems(2) this Cons.prems(3)]
  have "\<exists>ns'. collect_buckets now ex (buckets rt) p ss (foldl add_to_set ns ?new) = return ns' \<and>
    distinct (map public_key_bin ns') \<and>
    set ns' = set (foldl add_to_set ns ?new) \<union> {n. \<exists>s b i. s \<in> set ss \<and> trie_lookup (buckets rt) (p @ s) = Some b \<and>
      dict_get (nodes b) i = Some n \<and> ?P n}"
    by (rule Cons.IH) (use Cons.prems fold \<open>set ?new \<subseteq> under (buckets rt) []\<close> in auto)
  then obtain ns' where ns': "collect_buckets now ex (buckets rt) p ss (foldl add_to_set ns ?new) = return ns'"
    "distinct (map public_key_bin ns')"
    "set ns' = set ns \<union> set ?new \<union> {n. \<exists>s b i. s \<in> set ss \<and> trie_lookup (buckets rt) (p @ s) = Some b \<and>
      dict_get (nodes b) i = Some n \<and> ?P n}"
    using fold by auto
  have "set ?new = {n. \<exists>i. dict_get (nodes b) i = Some n \<and> ?P n}" using val by auto
  with ns' b fr show ?case
    by (intro exI [of _ ns']) (auto simp: trie_getitem_lookup)
qed simp

lemma under_mono: "prefix p q \<Longrightarrow> under t q \<subseteq> under t p"
  using prefix_order.trans by (fastforce simp: under_def)

lemma collect_prefix_spec:
  assumes wf: "rt_wf rt" and ex: "\<And>x. ex = Some x \<Longrightarrow> \<exists>j. node_id x = return j"
    and inj: "inj_on public_key_bin (under (buckets rt) [])"
    and ns: "set ns \<subseteq> candidates now ex (buckets rt) p" "distinct (map public_key_bin ns)"
  shows "\<exists>ns'. collect_buckets now ex (buckets rt) p (trie_suffixes truthy (buckets rt) p) ns = return ns' \<and>
    distinct (map public_key_bin ns') \<and> set ns' = candidates now ex (buckets rt) p"
proof -
  have suff: "set (trie_suffixes truthy (buckets rt) p) = {s. p @ s \<in> dom (trie_lookup (buckets rt))}"
    using wf by (simp add: rt_wf_def trie_suffixes_dom)
  have sub: "set ns \<subseteq> under (buckets rt) []"
    using ns(1) under_mono [of "[]" p] by (auto simp: candidates_def)
  have "{n. \<exists>s b i. s \<in> set (trie_suffixes truthy (buckets rt) p) \<and>
        trie_lookup (buckets rt) (p @ s) = Some b \<and> dict_get (nodes b) i = Some n \<and>
        eligible now ex n = return True} = candidates now ex (buckets rt) p"
    unfolding suff by (auto simp: candidates_def under_def prefix_def)
  moreover have "\<exists>ns'. collect_buckets now ex (buckets rt) p (trie_suffixes truthy (buckets rt) p) ns = return ns' \<and>
    distinct (map public_key_bin ns') \<and>
    set ns' = set ns \<union> {n. \<exists>s b i. s \<in> set (trie_suffixes truthy (buckets rt) p) \<and>
        trie_lookup (buckets rt) (p @ s) = Some b \<and> dict_get (nodes b) i = Some n \<and>
        eligible now ex n = return True}"
    by (rule collect_buckets_spec [OF wf ex inj _ sub ns(2)]) (simp_all add: suff)
  ultimately show ?thesis using ns(1) by auto
qed

lemma closest_loop_spec:
  assumes wf: "rt_wf rt" and ex: "\<And>x. ex = Some x \<Longrightarrow> \<exists>j. node_id x = return j"
    and inj: "inj_on public_key_bin (under (buckets rt) [])"
    and "set ns \<subseteq> candidates now ex (buckets rt) (take i p)" "distinct (map public_key_bin ns)"
  shows "\<exists>ns' j. closest_loop now ex (buckets rt) p k i ns = return ns' \<and>
    distinct (map public_key_bin ns') \<and> set ns' = candidates now ex (buckets rt) (take j p) \<and>
    (length ns' > k \<or> j = 0)"
  using assms(4-)
proof (induction i arbitrary: ns)
  case (0 ns)
  from collect_prefix_spec [OF wf ex inj 0, of "\<lambda>_. True"] obtain ns' where
    "collect_buckets now ex (buckets rt) [] (trie_suffixes (\<lambda>_. True) (buckets rt) []) ns = return ns'"
    "distinct (map public_key_bin ns')" "set ns' = candidates now ex (buckets rt) []" by auto
  then show ?case
    by (intro exI [of _ ns'] exI [of _ 0]) (simp add: closest_loop.simps)
next
  case (Suc i ns)
  let ?p = "take (Suc i) p"
  from collect_prefix_spec [OF wf ex inj Suc.prems, of "\<lambda>_. True"] obtain ns' where
    ns': "collect_buckets now ex (buckets rt) ?p (trie_suffixes (\<lambda>_. True) (buckets rt) ?p) ns = return ns'"
    "distinct (map public_key_bin ns')" "set ns' = candidates now ex (buckets rt) ?p" by auto
  show ?case
  proof (cases "length ns' > k")
    case True
    with ns' show ?thesis
      by (intro exI [of _ ns'] exI [of _ "Suc i"]) (simp add: closest_loop.simps)
  next
    case False
    have "prefix (take i p) ?p" using take_is_prefix [of i ?p] by (simp add: min_def)
    then have "set ns' \<subseteq> candidates now ex (buckets rt) (take i p)"
      using under_mono ns'(3) by (fastforce simp: candidates_def)
    from Suc.IH [OF this ns'(2)] False ns'(1) show ?thesis
      by (subst closest_loop.simps) simp
  qed
qed


section \<open>The closest nodes\<close>

lemma zip_map_pairs: "zip (map f xs) xs = map (\<lambda>x. (f x, x)) xs"
  by (induction xs) auto

lemma sort_by_result_return:
  assumes "\<And>x. x \<in> set xs \<Longrightarrow> f x = return (g x)"
  shows "\<exists>ys. sort_by_result f xs = return ys \<and> set ys = set xs \<and> length ys = length xs \<and>
    sorted (map g ys) \<and> (distinct xs \<longrightarrow> distinct ys)"
proof -
  let ?z = "sort_key fst (zip (map g xs) xs)"
  have "sort_by_result f xs = return (map snd ?z)"
    using map_result_return [of xs f g] assms by (simp add: sort_by_result_def)
  moreover have pairs: "\<And>x. x \<in> set ?z \<Longrightarrow> fst x = g (snd x)"
    by (auto simp: zip_map_pairs)
  then have "map g (map snd ?z) = map fst ?z" by simp
  then have "sorted (map g (map snd ?z))" by (simp only: sorted_sort_key)
  moreover have "distinct (map snd ?z)" if "distinct xs"
  proof -
    have "distinct ?z" using that by (simp add: distinct_zipI2)
    moreover have "inj_on snd (set ?z)" using pairs by (intro inj_onI) (metis prod.collapse)
    ultimately show ?thesis by (simp add: distinct_map)
  qed
  moreover have "set (map snd ?z) = set xs" "length (map snd ?z) = length xs"
    by (auto simp: zip_map_pairs image_iff)
  ultimately show ?thesis by blast
qed

lemma sorted_fst_strict:
  assumes "sorted (map (\<lambda>n. (d n, s n)) ns)" "distinct ns" "inj_on d (set ns)"
  shows "sorted_wrt (\<lambda>a b. d a < (d b :: nat)) ns"
  using assms
proof (induction ns)
  case (Cons n ns)
  have "d n < d m" if "m \<in> set ns" for m
  proof -
    have "d n \<le> d m" using Cons.prems(1) that by (auto simp: less_eq_prod_def)
    moreover have "d n \<noteq> d m" using Cons.prems(2,3) that by (auto dest: inj_onD)
    ultimately show ?thesis by simp
  qed
  with Cons show ?case by auto
qed simp

lemma distance_key_20:
  assumes "node_id n = return i" "length i = 20" "length target = 20"
  shows "distance_key now target n = return (dist_to target n, status now n)"
proof -
  have "i \<noteq> []" "target \<noteq> []" using assms by auto
  with assms show ?thesis
    by (simp add: distance_key_def distance_def int_of_id_def dist_to_def nid_def)
qed

text \<open>
  The bucket prefix \<^verbatim>\<open>closest_nodes\<close> starts from: the key of the target's bucket, also when
  that is the root bucket, for which the default \<^verbatim>\<open>""\<close> is used.
\<close>

lemma longest_prefix_bucket:
  assumes wf: "rt_wf rt" and t: "length target = 20"
  shows "\<exists>p r. longest_prefix (\<lambda>_. True) (buckets rt) (bin target) (Some []) = return r \<and>
    (case r of Inl p \<Rightarrow> p | Inr d \<Rightarrow> d) = p \<and>
    p \<in> dom (trie_lookup (buckets rt)) \<and> prefix p (bin target)"
proof -
  let ?t = "buckets rt"
  obtain p0 where p0: "p0 \<in> dom (trie_lookup ?t)" "prefix p0 (bin target)"
    using wf full_string_bin unfolding rt_wf_def complete_code_def by blast
  obtain p v where loop: "longest_prefix_loop (trie_root ?t) [] (bin target) ([], None) = (p, v)"
    by fastforce
  from longest_prefix_loop_spec [OF loop]
  consider (none) "v = None" "\<forall>q. q \<noteq> [] \<and> prefix q (bin target) \<longrightarrow> trie_lookup ?t q = None"
    | (item) x where "v = Some x" "prefix p (bin target)" "trie_lookup ?t p = Some x"
    unfolding trie_lookup_def by auto
  then show ?thesis
  proof cases
    case none
    with p0 have "p0 = []" by force
    with none loop p0 show ?thesis
      by (intro exI [of _ "[]"] exI [of _ "Inr []"])
        (auto simp: longest_prefix_def longest_prefix_item_def)
  next
    case item
    with loop show ?thesis
      by (intro exI [of _ p] exI [of _ "Inl p"])
        (auto simp: longest_prefix_def longest_prefix_item_def)
  qed
qed

lemma candidates_prefix_less:
  assumes wf: "rt_wf rt" and t: "length target = 20"
    and p: "prefix p k" "k \<in> dom (trie_lookup (buckets rt))" "prefix k (bin target)"
    and n: "n \<in> candidates now ex (buckets rt) p"
    and m: "m \<in> candidates now ex (buckets rt) []" "m \<notin> candidates now ex (buckets rt) p"
  shows "dist_to target n < dist_to target m"
proof -
  from n have n': "n \<in> under (buckets rt) p" by (simp add: candidates_def)
  from m have m': "m \<in> under (buckets rt) []" "m \<notin> under (buckets rt) p" by (auto simp: candidates_def)
  have "length (nid n) = 20" "length (nid m) = 20" using underE [OF wf] n' m'(1) by metis+
  then show ?thesis
    unfolding dist_to_def
    using nearer_by_prefix [of "nid n" "nid m" target p] t under_prefix_bin [OF wf n']
      not_under_prefix_bin [OF wf m' p(1,2)] p(1,3) prefix_order.trans by blast
qed


lemma candidates_finite:
  assumes "rt_wf rt" "\<And>x. ex = Some x \<Longrightarrow> \<exists>j. node_id x = return j"
    "inj_on public_key_bin (under (buckets rt) [])"
  shows "finite (candidates now ex (buckets rt) p)"
proof -
  have "\<exists>ns'. collect_buckets now ex (buckets rt) p (trie_suffixes (\<lambda>_. True) (buckets rt) p) [] = return ns' \<and>
    distinct (map public_key_bin ns') \<and> set ns' = candidates now ex (buckets rt) p"
    by (rule collect_prefix_spec) (use assms in auto)
  then show ?thesis by (metis finite_set)
qed

text \<open>
  In a well-formed table in which no public key appears twice, \<^verbatim>\<open>closest_nodes\<close> returns the
  candidates nearest to the target, in order of distance, as many as asked for or as
  there are: leaving the loop early never loses a nearer node.
\<close>

lemma closest_nodes_spec:
  assumes wf: "rt_wf rt" and t: "length target = 20"
    and ex: "\<And>x. ex = Some x \<Longrightarrow> \<exists>j. node_id x = return j"
    and inj: "inj_on public_key_bin (under (buckets rt) [])"
  shows "\<exists>ns. closest_nodes now rt target k ex = return ns \<and>
    sorted_wrt (\<lambda>a b. dist_to target a < dist_to target b) ns \<and>
    set ns \<subseteq> candidates now ex (buckets rt) [] \<and>
    length ns = min k (card (candidates now ex (buckets rt) [])) \<and>
    (\<forall>n \<in> set ns. \<forall>m \<in> candidates now ex (buckets rt) [] - set ns. dist_to target n < dist_to target m)"
proof -
  let ?C = "candidates now ex (buckets rt)" and ?d = "dist_to target"
  obtain p r where p: "longest_prefix (\<lambda>_. True) (buckets rt) (bin target) (Some []) = return r"
    "(case r of Inl p \<Rightarrow> p | Inr d \<Rightarrow> d) = p" "p \<in> dom (trie_lookup (buckets rt))" "prefix p (bin target)"
    using longest_prefix_bucket [OF wf t] by blast
  have "\<exists>ns' j. closest_loop now ex (buckets rt) p k (length p) [] = return ns' \<and>
    distinct (map public_key_bin ns') \<and> set ns' = ?C (take j p) \<and> (length ns' > k \<or> j = 0)"
    by (rule closest_loop_spec [OF wf ex inj]) simp_all
  then obtain ns j where loop: "closest_loop now ex (buckets rt) p k (length p) [] = return ns"
    "distinct (map public_key_bin ns)" "set ns = ?C (take j p)" "length ns > k \<or> j = 0"
    by blast
  have dn: "distinct ns" using loop(2) by (rule distinct_map [THEN iffD1, THEN conjunct1])
  have sub: "set ns \<subseteq> under (buckets rt) []"
    using loop(3) under_mono [of "[]" "take j p"] by (auto simp: candidates_def)
  then have key: "distance_key now target n = return (?d n, status now n)" if "n \<in> set ns" for n
    using underE [OF wf, of n "[]"] that t by (metis distance_key_20 subsetD)
  from sort_by_result_return [of ns "distance_key now target" "\<lambda>n. (?d n, status now n)", OF key]
  obtain ys where ys: "sort_by_result (distance_key now target) ns = return ys" "set ys = set ns"
    "length ys = length ns" "sorted (map (\<lambda>n. (?d n, status now n)) ys)" "distinct ys"
    using dn by blast
  have inj_d: "inj_on ?d (set ys)"
    by (rule inj_on_subset [OF dist_to_inj [OF wf t]]) (use sub ys(2) in simp)
  have strict: "sorted_wrt (\<lambda>a b. ?d a < ?d b) ys"
    by (rule sorted_fst_strict [OF ys(4,5) inj_d])
  have "closest_nodes now rt target k ex = return (take k ys)"
    using t p(1,2) loop(1) ys(1) by (simp add: closest_nodes_def id_to_binary_string_20)
  moreover have "sorted_wrt (\<lambda>a b. ?d a < ?d b) (take k ys)"
    using strict by (rule sorted_wrt_take)
  moreover have all: "set ns \<subseteq> ?C []"
    using loop(3) sub by (auto simp: candidates_def)
  then have "set (take k ys) \<subseteq> ?C []" using set_take_subset [of k ys] ys(2) by blast
  moreover have "length (take k ys) = min k (card (?C []))"
    using loop(3,4) all ys(3) distinct_card [OF dn] card_mono [OF candidates_finite [OF wf ex inj] all]
    by auto
  moreover have "?d n < ?d m" if n: "n \<in> set (take k ys)" and m: "m \<in> ?C [] - set (take k ys)" for n m
  proof (cases "m \<in> set ys")
    case True
    then have "m \<in> set (drop k ys)" using m by (metis DiffD2 Un_iff append_take_drop_id set_append)
    moreover have "sorted_wrt (\<lambda>a b. ?d a < ?d b) (take k ys @ drop k ys)" using strict by simp
    ultimately show ?thesis using n unfolding sorted_wrt_append by blast
  next
    case False
    have "n \<in> ?C (take j p)" "m \<notin> ?C (take j p)"
      using n False ys(2) loop(3) set_take_subset [of k ys] by blast+
    with candidates_prefix_less [OF wf t take_is_prefix p(3,4)] m show ?thesis by blast
  qed
  ultimately show ?thesis by blast
qed

section \<open>What adding a node does to the others\<close>

text \<open>Nodes are compared up to their back reference to the bucket.\<close>

definition unfiled :: "dht_node \<Rightarrow> dht_node" where
  "unfiled n = n\<lparr>node_bucket := None\<rparr>"

definition kept_or_evicted ::
  "seconds \<Rightarrow> dht_node \<Rightarrow> dht_node option \<Rightarrow> dht_node option \<Rightarrow> bool" where
  "kept_or_evicted now node old new \<longleftrightarrow>
     map_option unfiled new = map_option unfiled old \<or>
     new = None \<and> (\<exists>n. old = Some n \<and> evictable now node n)"

lemma unfiled_rehomed [simp]: "unfiled (n\<lparr>node_bucket := x\<rparr>) = unfiled n"
  by (simp add: unfiled_def)

lemma evictable_unfiled [simp]: "evictable now node (unfiled x) = evictable now node x"
  by (simp add: evictable_def unfiled_def status_def last_query_def)

lemma kept_or_evicted_trans:
  assumes "map_option unfiled between = map_option unfiled old" "kept_or_evicted now node between new"
  shows "kept_or_evicted now node old new"
proof (cases "map_option unfiled new = map_option unfiled between")
  case False
  with assms(2) obtain n where n: "new = None" "between = Some n" "evictable now node n"
    by (auto simp: kept_or_evicted_def)
  with assms(1) obtain m where m: "old = Some m" "unfiled n = unfiled m" by (cases old) auto
  from n(3) have "evictable now node (unfiled n)" by simp
  then have "evictable now node m" unfolding m(2) by simp
  with n(1) m(1) show ?thesis by (simp add: kept_or_evicted_def)
qed (use assms(1) in \<open>simp add: kept_or_evicted_def\<close>)

lemma rt_get_lookup:
  assumes "rt_wf rt" "length j = 20"
  shows "\<exists>q b. trie_lookup (buckets rt) q = Some b \<and> prefix q (bin j) \<and>
    rt_get rt j = return (dict_get (nodes b) j)"
  using get_bucket_item_spec [OF assms] rt_get_spec [OF assms] by blast

text \<open>Putting a bucket back changes only what that bucket answers for.\<close>

lemma rt_get_put_bucket:
  assumes wf: "rt_wf rt" and p: "trie_lookup (buckets rt) p = Some b" and b': "bucket_wf p b'"
    and j: "length j = 20"
  shows "rt_get (put_bucket p b' rt) j =
    (if prefix p (bin j) then return (dict_get (nodes b') j) else rt_get rt j)"
proof (cases "prefix p (bin j)")
  case True
  with rt_get_spec [OF put_bucket_spec(1) [OF wf p b'] j, of p b'] put_bucket_spec(2) [OF wf p b']
  show ?thesis by simp
next
  case False
  obtain q c where q: "trie_lookup (buckets rt) q = Some c" "prefix q (bin j)"
    using get_bucket_item_spec [OF wf j] by blast
  with False have "q \<noteq> p" by auto
  then have "trie_lookup (buckets (put_bucket p b' rt)) q = Some c"
    using put_bucket_spec [OF wf p b'] q by simp
  with rt_get_spec [OF put_bucket_spec(1) [OF wf p b'] j] rt_get_spec [OF wf j] q False
  show ?thesis by simp
qed

lemma rt_get_replace_bucket:
  assumes wf: "rt_wf rt" and p: "trie_lookup (buckets rt) p = Some b" "length p < 160"
    and b01: "bucket_wf (p @ ''0'') b0" "bucket_wf (p @ ''1'') b1"
    and halves: "nodes b0 = half (p @ ''0'') (nodes b)" "nodes b1 = half (p @ ''1'') (nodes b)"
    and rep: "replace_bucket p b0 b1 rt = (rt', r)" and j: "length j = 20"
  shows "\<exists>x y. rt_get rt j = return x \<and> rt_get rt' j = return y \<and> map_option unfiled y = map_option unfiled x"
proof -
  note rp = replace_bucket_spec [OF wf p b01 rep]
  then have wf': "rt_wf rt'" and lk: "trie_lookup (buckets rt') =
      (trie_lookup (buckets rt))(p @ ''0'' \<mapsto> b0, p @ ''1'' \<mapsto> b1, p := None)" by auto
  have half_get: "map_option unfiled (dict_get (half q ns) j) = map_option unfiled (dict_get ns j)"
    if "prefix q (bin j)" for q ns
    using that by (simp add: dict_get_half option.map_comp comp_def)
  show ?thesis
  proof (cases "prefix p (bin j)")
    case True
    note old = rt_get_spec [OF wf j p(1) True]
    show ?thesis
    proof (cases "prefix (p @ ''0'') (bin j)")
      case True
      with rt_get_spec [OF wf' j, of "p @ ''0''" b0] lk old halves half_get show ?thesis by auto
    next
      case False
      then have "prefix (p @ ''1'') (bin j)" using bin_split [OF True p(2)] by simp
      with rt_get_spec [OF wf' j, of "p @ ''1''" b1] lk old halves half_get show ?thesis by auto
    qed
  next
    case False
    obtain q c where q: "trie_lookup (buckets rt) q = Some c" "prefix q (bin j)"
      using get_bucket_item_spec [OF wf j] by blast
    with False have "q \<noteq> p" "q \<noteq> p @ ''0''" "q \<noteq> p @ ''1''" by (auto dest: append_prefixD)
    then have "trie_lookup (buckets rt') q = Some c" using lk q by simp
    with rt_get_spec [OF wf' j] rt_get_spec [OF wf j] q show ?thesis by auto
  qed
qed

lemma rt_add_round_keeps:
  assumes wf: "rt_wf rt" and i: "node_id node = return i" "length i = 20"
    and j: "length j = 20" "j \<noteq> i" and old: "rt_get rt j = return old"
  shows "(\<forall>rt' r. rt_add_round now node rt = Inl (rt', r) \<longrightarrow>
            (\<exists>new. rt_get rt' j = return new \<and> kept_or_evicted now node old new)) \<and>
         (\<forall>rt'. rt_add_round now node rt = Inr rt' \<longrightarrow>
            (\<exists>new. rt_get rt' j = return new \<and> map_option unfiled new = map_option unfiled old))"
proof -
  obtain p b where kb: "get_bucket_item rt i = return (p, b)"
    and p: "trie_lookup (buckets rt) p = Some b" "prefix p (bin i)"
    using get_bucket_item_spec [OF wf i(2)] by blast
  have bw: "bucket_wf p b" using wf p(1) by (auto simp: rt_wf_def)
  have same: "rt_get (put_bucket p b rt) j = return old"
    using rt_get_put_bucket [OF wf p(1) bw j(1)] old rt_get_spec [OF wf j(1) p(1)] by auto
  from wf i kb show ?thesis
  proof (cases rule: rt_add_round_cases [where now = now])
    case (taken b')
    note spec = bucket_add_spec [OF bw i taken(1)]
    then have bw': "bucket_wf p b'" by simp
    have "\<exists>new. rt_get (put_bucket p b' rt) j = return new \<and> kept_or_evicted now node old new"
    proof (cases "prefix p (bin j)")
      case True
      with rt_get_spec [OF wf j(1) p(1)] old have "dict_get (nodes b) j = old" by simp
      with True rt_get_put_bucket [OF wf p(1) bw' j(1)]
        spec [THEN conjunct2, THEN conjunct2, rule_format, OF j(2)] show ?thesis
        by (auto simp: kept_or_evicted_def)
    qed (use rt_get_put_bucket [OF wf p(1) bw' j(1)] old in \<open>simp add: kept_or_evicted_def\<close>)
    with taken show ?thesis by simp
  next
    case refused
    with same show ?thesis by (simp add: kept_or_evicted_def)
  next
    case (split b0 b1 rt')
    have lk: "trie_lookup (buckets (put_bucket p b rt)) p = Some b"
      using put_bucket_spec(2) [OF wf p(1) bw] by simp
    from rt_get_replace_bucket [OF put_bucket_spec(1) [OF wf p(1) bw] lk split(1-6) j(1)] same split(7)
    show ?thesis by auto
  qed
qed

lemma rt_add_keeps:
  assumes "rt_wf rt" "node_id node = return i" "length i = 20" "get_bucket_item rt i = return (p, b)"
    "length j = 20" "j \<noteq> i" "rt_get rt j = return old" "rt_add now node rt = Some (rt', r)"
  shows "\<exists>new. rt_get rt' j = return new \<and> kept_or_evicted now node old new"
  using assms
proof (induction "160 - length p" arbitrary: rt p b old rule: less_induct)
  case less
  note keeps = rt_add_round_keeps [OF less.prems(1-3,5-7), of now]
  from rt_add_round_spec [OF less.prems(1-4), of now]
  consider (finish) rt1 res where "rt_add_round now node rt = Inl (rt1, return res)"
    | (again) rt1 c b' where "rt_add_round now node rt = Inr rt1" "rt_wf rt1" "length p < 160"
        "get_bucket_item rt1 i = return (p @ [c], b')" by blast
  then show ?case
  proof cases
    case finish
    with less.prems(8) have "rt' = rt1" by (subst (asm) rt_add.simps) simp
    with keeps finish show ?thesis by simp
  next
    case again
    with keeps obtain new where new: "rt_get rt1 j = return new" "map_option unfiled new = map_option unfiled old"
      by blast
    have "rt_add now node rt1 = Some (rt', r)"
      using less.prems(8) again(1) by (subst (asm) rt_add.simps) simp
    moreover have "160 - length (p @ [c]) < 160 - length p" using again(3) by simp
    ultimately obtain new' where "rt_get rt' j = return new'" "kept_or_evicted now node new new'"
      using less.hyps [OF _ again(2) less.prems(2,3) again(4) less.prems(5,6) new(1)] by blast
    then show ?thesis using kept_or_evicted_trans [OF new(2)] by blast
  qed
qed

section \<open>Removing the bad nodes\<close>

lemma dict_get_map_children:
  "dict_get (map (map_prod id f) ch) c = map_option f (dict_get ch c)"
  by (induction ch) auto

lemma children_map_tnode [simp]: "children (map_tnode f n) = map (map_prod id (map_tnode f)) (children n)"
  and tvalue_map_tnode [simp]: "tvalue (map_tnode f n) = map_option f (tvalue n)"
  by (cases n; simp add: map_prod_def id_def)+

lemma lookup_map_tnode: "lookup_node (map_tnode f n) k = map_option f (lookup_node n k)"
  by (induction k arbitrary: n) (simp_all add: dict_get_map_children split: option.split)

lemma empty_map_tnode [simp]: "empty_node (map_tnode f n) = empty_node n"
  by (simp add: empty_node_def)

lemma wf_map_tnode: "wf_tnode al n \<Longrightarrow> wf_tnode al (map_tnode f n)"
proof (induction n)
  case (TNode v ch)
  have "wf_tnode al (map_tnode f (snd p))" if "p \<in> set ch" for p
    using TNode.IH [OF that, of "snd p"] TNode.prems that
    by (cases p) (auto simp: wf_tnode.simps list_all_iff)
  with TNode.prems show ?case
    by (auto simp: wf_tnode.simps list_all_iff o_def dict_wf_def)
qed

lemma dict_get_remove_bad:
  assumes "bucket_wf p b"
  shows "dict_get (nodes (remove_bad now b)) i =
    (case dict_get (nodes b) i of None \<Rightarrow> None
     | Some n \<Rightarrow> if status now n = NODE_STATUS_BAD then None else Some n)"
proof -
  have "dict_wf ns \<Longrightarrow> dict_get (filter (\<lambda>p. status now (snd p) \<noteq> NODE_STATUS_BAD) ns) i =
    (case dict_get ns i of None \<Rightarrow> None
     | Some n \<Rightarrow> if status now n = NODE_STATUS_BAD then None else Some n)" for ns
  proof (induction ns)
    case (Cons p ns)
    have "dict_get ns (fst p) = None" using Cons.prems by (simp add: map_of_eq_None_iff dict_wf_def)
    moreover have "dict_wf ns" using Cons.prems by (simp add: dict_wf_def)
    ultimately show ?case using Cons.IH by (auto split: option.split)
  qed simp
  with assms show ?thesis by (simp add: remove_bad_def bucket_wf_def)
qed

lemma bucket_wf_remove_bad:
  assumes "bucket_wf p b"
  shows "bucket_wf p (remove_bad now b)"
proof -
  have "length (nodes (remove_bad now b)) \<le> max_size b"
    using assms by (auto simp: remove_bad_def bucket_wf_def intro: le_trans [OF length_filter_le])
  moreover have "dict_wf (nodes (remove_bad now b))"
    using assms by (simp add: remove_bad_def bucket_wf_def distinct_map_filter dict_wf_def)
  moreover have "dict_get (nodes b) i = Some n" if "dict_get (nodes (remove_bad now b)) i = Some n" for i n
    using that dict_get_remove_bad [OF assms] by (auto split: option.splits if_splits)
  ultimately show ?thesis using assms by (auto simp: bucket_wf_def remove_bad_def)
qed

lemma lookup_remove_bad_nodes:
  "trie_lookup (buckets (fst (remove_bad_nodes now rt))) p =
     map_option (remove_bad now) (trie_lookup (buckets rt) p)"
  by (simp add: remove_bad_nodes_def trie_lookup_def lookup_map_tnode)

lemma rt_wf_remove_bad_nodes:
  assumes "rt_wf rt"
  shows "rt_wf (fst (remove_bad_nodes now rt))"
proof -
  have "dom (trie_lookup (buckets (fst (remove_bad_nodes now rt)))) = dom (trie_lookup (buckets rt))"
    by (simp add: dom_def lookup_remove_bad_nodes)
  moreover have "wf_trie (buckets (fst (remove_bad_nodes now rt)))"
    using assms by (auto simp: rt_wf_def wf_trie_def remove_bad_nodes_def intro: wf_map_tnode)
  moreover have "alphabet (buckets (fst (remove_bad_nodes now rt))) = ''01''"
      "my_node_id (fst (remove_bad_nodes now rt)) = my_node_id rt"
    using assms by (simp_all add: rt_wf_def remove_bad_nodes_def)
  ultimately show ?thesis
    using assms by (auto simp: rt_wf_def lookup_remove_bad_nodes bucket_wf_remove_bad)
qed

lemma rt_get_remove_bad_nodes:
  assumes "rt_wf rt" "length i = 20" "rt_get rt i = return old"
  shows "rt_get (fst (remove_bad_nodes now rt)) i =
    return (case old of None \<Rightarrow> None | Some n \<Rightarrow> if status now n = NODE_STATUS_BAD then None else Some n)"
proof -
  obtain p b where p: "trie_lookup (buckets rt) p = Some b" "prefix p (bin i)"
    using get_bucket_item_spec [OF assms(1,2)] by blast
  have "trie_lookup (buckets (fst (remove_bad_nodes now rt))) p = Some (remove_bad now b)"
    by (simp add: lookup_remove_bad_nodes p)
  from rt_get_spec [OF rt_wf_remove_bad_nodes [OF assms(1)] assms(2) this p(2)]
  have "rt_get (fst (remove_bad_nodes now rt)) i = return (dict_get (nodes (remove_bad now b)) i)" .
  moreover have "bucket_wf p b" using assms(1) p(1) by (auto simp: rt_wf_def)
  moreover have "old = dict_get (nodes b) i"
    using rt_get_spec [OF assms(1,2) p] assms(3) by simp
  ultimately show ?thesis by (simp add: dict_get_remove_bad)
qed

lemma set_remove_bad_nodes:
  assumes "rt_wf rt"
  shows "set (snd (remove_bad_nodes now rt)) =
    {n. \<exists>p b i. trie_lookup (buckets rt) p = Some b \<and> dict_get (nodes b) i = Some n \<and>
      status now n = NODE_STATUS_BAD}"
proof -
  have wf: "wf_tnode ''01'' (trie_root (buckets rt))" using assms by (auto simp: rt_wf_def wf_trie_def)
  have vals: "set (trie_values (buckets rt)) = ran (trie_lookup (buckets rt))"
    using set_node_keys [OF wf] node_values_keys [OF wf]
    by (force simp: trie_values_def trie_lookup_def ran_def)
  have "dict_wf (nodes b)" if "b \<in> ran (trie_lookup (buckets rt))" for b
    using assms that by (auto simp: rt_wf_def bucket_wf_def ran_def)
  then have "set (dict_values (nodes b)) = ran (dict_get (nodes b))"
    if "b \<in> ran (trie_lookup (buckets rt))" for b
    using that by (simp add: ran_distinct dict_wf_def)
  then show ?thesis
    by (fastforce simp: remove_bad_nodes_def vals bad_nodes_def ran_def)
qed

section \<open>Generated identifiers\<close>

lemma bin_bytes_of_nat: "r < 2 ^ 160 \<Longrightarrow> bin (bytes_of_nat 20 r) = map bit_char (bits_of_nat 160 r)"
  by (simp add: bin_def id_bits_def nat_of_bytes_of_nat)

lemma take_bits_small:
  assumes "r < 2 ^ (w - k)" "k \<le> w"
  shows "take k (bits_of_nat w r) = replicate k False"
proof -
  have "bits_of_nat m 0 = replicate m False" for m
    by (induction m) (simp_all add: replicate_append_same [symmetric])
  then show ?thesis using assms by (simp add: take_bits_of_nat)
qed

lemma generate_id_prefix:
  assumes "length (prefix_id b) \<le> 160" "r < 2 ^ (160 - length (prefix_id b))"
  shows "\<exists>i. generate_id b r = return i \<and> length i = 20 \<and>
    (owns b i = return (prefix_id b = replicate (length (prefix_id b)) CHR ''0''))"
proof -
  let ?k = "length (prefix_id b)"
  have r: "r < 2 ^ 160"
    using assms(2) by (rule less_le_trans) (simp add: power_increasing del: power_numeral)
  then have g: "generate_id b r = return (bytes_of_nat 20 r)"
    by (simp add: generate_id_def)
  have "take ?k (bin (bytes_of_nat 20 r)) = replicate ?k CHR ''0''"
    using take_bits_small [OF assms(2,1)] by (simp add: bin_bytes_of_nat [OF r] take_map bit_char_def)
  then have "prefix (prefix_id b) (bin (bytes_of_nat 20 r)) \<longleftrightarrow> prefix_id b = replicate ?k CHR ''0''"
    by (metis append_eq_conv_conj prefix_def take_is_prefix)
  with g show ?thesis by (simp add: owns_20)
qed

end
