(* ===== verification/Routing_Properties.thy ===== *)
theory Routing_Properties
  imports Routing
begin

text \<open>
  The properties of the routing table of the distributed hash table, with a small concrete
  table on which each is exercised.
\<close>

section \<open>A concrete table\<close>

definition ex_peer :: "byte \<Rightarrow> peer" where
  "ex_peer k =
     \<lparr>public_key_bin = [k], mid = replicate 20 k,
      addresses = dd_setitem UDPv4Address (Address UDPv4Address ''127.0.0.1'' 1) new_dirty_dict,
      cached_address = None, creation_time = 0, last_response = 0, lamport_timestamp = 0, pings = [],
      new_style_intro = False, address_frozen = False\<rparr>"

definition ex_node :: "byte \<Rightarrow> dht_node" where
  "ex_node k = new_dht_node (ex_peer k)"

definition ex_id :: "byte \<Rightarrow> bytes" where
  "ex_id k = [68, 246, 64] @ replicate 17 k"

definition ex_bucket :: bucket where
  "ex_bucket = \<lparr>nodes = [(ex_id 1, ex_node 1), (ex_id 2, ex_node 2)], prefix_id = [], max_size = 2, last_changed = 0\<rparr>"

definition ex_table :: routing_table where
  "ex_table = put_bucket [] ex_bucket (new_routing_table (ex_id 0))"

lemma ex_aton: "inet_aton ''127.0.0.1'' = Some [127, 0, 0, 1]" by code_simp

lemma ex_crc: "crc32 [3, 0, 0, 1] = 1156989028" by (simp add: crc32_eval)

lemma ex_crc_bytes: "take 3 (bytes_of_nat 4 1156989028) = [68, 246, 64]" by code_simp

lemma ex_node_id [simp]: "node_id (ex_node k) = return (ex_id k)"
proof -
  have "peer_address (ex_node k) = Address UDPv4Address ''127.0.0.1'' 1" "mid (ex_node k) = replicate 20 k"
    by (simp_all add: ex_node_def new_dht_node_def ex_peer_def peer_address_def peer.defs dd_setitem_def
      new_dirty_dict_def INTERFACE_ORDER_def)
  then show ?thesis
    by (simp add: node_id_def calc_node_id_def ex_id_def ex_aton ex_crc ex_crc_bytes)
qed

lemma length_ex_id [simp]: "length (ex_id k) = 20"
  by (simp add: ex_id_def)

lemma ex_id_eq [simp]: "ex_id j = ex_id k \<longleftrightarrow> j = k"
  by (simp add: ex_id_def)

lemma public_key_ex_node [simp]: "public_key_bin (ex_node k) = [k]"
  by (simp add: ex_node_def new_dht_node_def ex_peer_def peer.defs)

lemma bucket_wf_ex: "bucket_wf [] ex_bucket"
  by (auto simp: bucket_wf_def ex_bucket_def dict_wf_def split: if_splits)

lemma lookup_new_routing_table:
  "trie_lookup (buckets (new_routing_table i)) = [[] \<mapsto> new_bucket [] MAX_BUCKET_SIZE]"
proof -
  obtain t r where t: "trie_setitem (new_trie ''01'') [] (new_bucket [] MAX_BUCKET_SIZE) = (t, r)"
    by fastforce
  have "trie_lookup t = [[] \<mapsto> new_bucket [] MAX_BUCKET_SIZE]"
    using trie_setitem_law [OF wf_trie_new _ t] by simp
  then show ?thesis by (simp add: new_routing_table_def t)
qed

lemma ex_table_facts:
  "rt_wf ex_table" "trie_lookup (buckets ex_table) = [[] \<mapsto> ex_bucket]" "my_node_id ex_table = ex_id 0"
  using put_bucket_spec [OF rt_wf_new [of "ex_id 0"] _ bucket_wf_ex] lookup_new_routing_table [of "ex_id 0"]
  by (simp_all add: ex_table_def new_routing_table_def)

lemma rt_get_ex_table: "length i = 20 \<Longrightarrow> rt_get ex_table i = return (dict_get (nodes ex_bucket) i)"
  using rt_get_spec [OF ex_table_facts(1), of i "[]" ex_bucket] by (simp add: ex_table_facts)

lemma inj_ex_table: "inj_on public_key_bin (under (buckets ex_table) [])"
proof -
  have "under (buckets ex_table) [] \<subseteq> {ex_node 1, ex_node 2}"
    by (auto simp: under_def ex_table_facts ex_bucket_def split: if_splits)
  then show ?thesis by (rule inj_on_subset [rotated]) (simp add: inj_on_def)
qed

section \<open>Properties of the routing table\<close>

text \<open>
  C1: on a well-formed table whose nodes have distinct keys, \<open>closest_nodes\<close> returns, sorted
  strictly by their XOR distance to the target, as many nodes as asked for or as there are
  candidates (stored nodes that are not bad and not excluded), and no candidate that is left
  out is nearer than one that is returned. Stopping the walk over the buckets early
  therefore loses nothing.
\<close>

theorem closest_nodes_correct:
  assumes "rt_wf rt" "length target = 20" "\<And>x. ex = Some x \<Longrightarrow> \<exists>j. node_id x = return j"
    "inj_on public_key_bin (under (buckets rt) [])"
  shows "\<exists>ns. closest_nodes now rt target k ex = return ns \<and>
    sorted_wrt (\<lambda>a b. dist_to target a < dist_to target b) ns \<and>
    set ns \<subseteq> candidates now ex (buckets rt) [] \<and>
    length ns = min k (card (candidates now ex (buckets rt) [])) \<and>
    (\<forall>n \<in> set ns. \<forall>m \<in> candidates now ex (buckets rt) [] - set ns. dist_to target n < dist_to target m)"
  using assms by (rule closest_nodes_spec)

theorem closest_nodes_correct_witness:
  "rt_wf ex_table \<and>
   (\<exists>ns. closest_nodes 7 ex_table (ex_id 3) 1 (Some (ex_node 4)) = return ns \<and>
    sorted_wrt (\<lambda>a b. dist_to (ex_id 3) a < dist_to (ex_id 3) b) ns \<and>
    set ns \<subseteq> candidates 7 (Some (ex_node 4)) (buckets ex_table) [] \<and>
    length ns = min 1 (card (candidates 7 (Some (ex_node 4)) (buckets ex_table) [])) \<and>
    (\<forall>n \<in> set ns. \<forall>m \<in> candidates 7 (Some (ex_node 4)) (buckets ex_table) [] - set ns.
       dist_to (ex_id 3) n < dist_to (ex_id 3) m))"
  using closest_nodes_correct [OF ex_table_facts(1), of "ex_id 3" "Some (ex_node 4)" 7 1] inj_ex_table
  by (simp add: ex_table_facts(1))

text \<open>
  C3: \<open>RoutingTable.add\<close> terminates on every well-formed table and keeps it well formed: the
  bucket prefixes still partition the identifier space and every node is in the bucket that
  owns it. Afterwards the node can be looked up, unless the bucket that owns it is full and
  does not own our own identifier, in which case nothing is found and \<open>None\<close> is returned.
\<close>

theorem rt_add_correct:
  assumes "rt_wf rt" "node_id node = return i" "length i = 20"
  shows "\<exists>rt' res. rt_add now node rt = Some (rt', return res) \<and> rt_wf rt' \<and>
    my_node_id rt' = my_node_id rt \<and> rt_get rt' i = return res \<and>
    (res = None \<longrightarrow> (\<exists>p b. get_bucket_item rt' i = return (p, b) \<and>
       length (nodes b) = max_size b \<and> \<not> prefix p (bin (my_node_id rt))))"
proof -
  obtain p b where "get_bucket_item rt i = return (p, b)"
    using get_bucket_item_spec [OF assms(1,3)] by blast
  from rt_add_total [OF assms this] show ?thesis .
qed

theorem rt_add_correct_witness:
  "rt_wf ex_table \<and>
   (\<exists>rt' res. rt_add 5 (ex_node 3) ex_table = Some (rt', return res) \<and> rt_wf rt' \<and>
    my_node_id rt' = my_node_id ex_table \<and> rt_get rt' (ex_id 3) = return res \<and>
    (res = None \<longrightarrow> (\<exists>p b. get_bucket_item rt' (ex_id 3) = return (p, b) \<and>
       length (nodes b) = max_size b \<and> \<not> prefix p (bin (my_node_id ex_table)))))"
  using rt_add_correct [OF ex_table_facts(1) ex_node_id length_ex_id] ex_table_facts(1) by blast

text \<open>
  C4: adding a node leaves every other node of the table where a lookup finds it, with the
  same contents, except nodes that the code may evict: bad nodes and nodes whose round-trip
  time is at least twice that of the new one. No lookup invents a node.
\<close>

theorem rt_add_keeps_others:
  assumes "rt_wf rt" "node_id node = return i" "length i = 20" "length j = 20" "j \<noteq> i"
    "rt_get rt j = return old" "rt_add now node rt = Some (rt', r)"
  shows "\<exists>new. rt_get rt' j = return new \<and> kept_or_evicted now node old new"
proof -
  obtain p b where "get_bucket_item rt i = return (p, b)"
    using get_bucket_item_spec [OF assms(1,3)] by blast
  from rt_add_keeps [OF assms(1-3) this assms(4-7)] show ?thesis .
qed

theorem rt_add_keeps_others_witness:
  "\<exists>rt' r new. rt_add 5 (ex_node 3) ex_table = Some (rt', r) \<and> rt_get rt' (ex_id 1) = return new \<and>
     kept_or_evicted 5 (ex_node 3) (Some (ex_node 1)) new"
proof -
  obtain p b where "get_bucket_item ex_table (ex_id 3) = return (p, b)"
    using get_bucket_item_spec [OF ex_table_facts(1), of "ex_id 3"] by auto
  from rt_add_total [OF ex_table_facts(1) ex_node_id length_ex_id this, of 5]
  obtain rt' res where add: "rt_add 5 (ex_node 3) ex_table = Some (rt', return res)" by blast
  have "rt_get ex_table (ex_id 1) = return (Some (ex_node 1))"
    by (simp add: rt_get_ex_table ex_bucket_def)
  from rt_add_keeps_others [OF ex_table_facts(1) ex_node_id length_ex_id length_ex_id _ this add] add
  show ?thesis by auto
qed



text \<open>
  splitting a full bucket gives two buckets one bit deeper that satisfy the invariant;
  every identifier of the old bucket is found in exactly one of them, with the same node up
  to its back reference, and no other identifier is found in either.
\<close>

theorem bucket_split_conserves:
  assumes "bucket_wf p b" "length p < 160" "length (nodes b) = max_size b"
  shows "\<exists>b0 b1. bucket_split now b = return (Some (b0, b1)) \<and>
    bucket_wf (p @ ''0'') b0 \<and> bucket_wf (p @ ''1'') b1 \<and>
    length (nodes b0) + length (nodes b1) = length (nodes b) \<and>
    (\<forall>i. map_option unfiled (dict_get (nodes b) i) =
       (if prefix (p @ ''0'') (bin i) then map_option unfiled (dict_get (nodes b0) i)
        else map_option unfiled (dict_get (nodes b1) i)))"
proof -
  obtain b0 b1 where s: "bucket_split now b = return (Some (b0, b1))"
      "bucket_wf (p @ ''0'') b0" "bucket_wf (p @ ''1'') b1"
      "nodes b0 = half (p @ ''0'') (nodes b)" "nodes b1 = half (p @ ''1'') (nodes b)"
    using bucket_split_spec [OF assms] by blast
  have below: "prefix p (bin i)" if "i \<in> fst ` set (nodes b)" for i
    using assms(1) that by (fastforce simp: bucket_wf_def in_set_dict_wf)
  have "length (half (p @ ''0'') ns) + length (half (p @ ''1'') ns) = length ns"
    if "\<And>i. i \<in> fst ` set ns \<Longrightarrow> prefix p (bin i)" for ns
    using that by (induction ns) (auto simp: bin_split assms(2))
  then have "length (nodes b0) + length (nodes b1) = length (nodes b)"
    using below by (simp add: s(4,5))
  moreover have "map_option unfiled (dict_get (nodes b) i) =
       (if prefix (p @ ''0'') (bin i) then map_option unfiled (dict_get (nodes b0) i)
        else map_option unfiled (dict_get (nodes b1) i))" for i
  proof (cases "dict_get (nodes b) i")
    case (Some n)
    with below have "prefix p (bin i)" by (force dest: map_of_SomeD)
    then show ?thesis
      using Some bin_split [of p i] assms(2) by (simp add: s(4,5) dict_get_half)
  qed (simp add: s(4,5) dict_get_half)
  ultimately show ?thesis using s(1-3) by blast
qed

theorem bucket_split_conserves_witness:
  "\<exists>b0 b1. bucket_split 5 ex_bucket = return (Some (b0, b1)) \<and>
     bucket_wf ''0'' b0 \<and> bucket_wf ''1'' b1 \<and> length (nodes b0) + length (nodes b1) = 2"
  using bucket_split_conserves [OF bucket_wf_ex, of 5] by (auto simp: ex_bucket_def)

text \<open>
  \<open>remove_bad_nodes\<close> keeps the table well formed, makes every bad node unfindable and
  leaves every other lookup as it was; the list it returns holds exactly the bad nodes.
\<close>

theorem remove_bad_nodes_correct:
  assumes "rt_wf rt" "remove_bad_nodes now rt = (rt', removed)"
  shows "rt_wf rt' \<and>
    (\<forall>i old. length i = 20 \<and> rt_get rt i = return old \<longrightarrow> rt_get rt' i =
       return (case old of None \<Rightarrow> None
               | Some n \<Rightarrow> if status now n = NODE_STATUS_BAD then None else Some n)) \<and>
    set removed = {n \<in> under (buckets rt) []. status now n = NODE_STATUS_BAD}"
proof -
  have "rt' = fst (remove_bad_nodes now rt)" "removed = snd (remove_bad_nodes now rt)"
    by (simp_all add: assms(2))
  then show ?thesis
    using rt_wf_remove_bad_nodes [OF assms(1)] rt_get_remove_bad_nodes [OF assms(1)]
      set_remove_bad_nodes [OF assms(1), of now] by (auto simp: under_def)
qed

theorem remove_bad_nodes_correct_witness:
  "\<exists>rt' removed. remove_bad_nodes 7 ex_table = (rt', removed) \<and> rt_wf rt' \<and>
     rt_get rt' (ex_id 1) = return (Some (ex_node 1))"
proof -
  obtain rt' removed where rm: "remove_bad_nodes 7 ex_table = (rt', removed)" by fastforce
  have "rt_get ex_table (ex_id 1) = return (Some (ex_node 1))"
    by (simp add: rt_get_ex_table ex_bucket_def)
  moreover have "status 7 (ex_node 1) \<noteq> NODE_STATUS_BAD"
    by (simp add: status_def ex_node_def new_dht_node_def peer.defs NODE_STATUS_GOOD_def
        NODE_STATUS_BAD_def NODE_STATUS_UNKNOWN_def)
  ultimately show ?thesis
    using remove_bad_nodes_correct [OF ex_table_facts(1) rm] rm by (auto split: option.splits)
qed

text \<open>
  an identifier generated to refresh a bucket lies in that bucket only when the bucket's
  prefix is all zeros: the random number is never combined with the prefix. For every other
  prefix, all the numbers below the upper bound give an identifier the bucket does not own.
\<close>

theorem generate_id_ignores_prefix:
  assumes "length (prefix_id b) \<le> 160" "r < 2 ^ (160 - length (prefix_id b))"
  shows "\<exists>i. generate_id b r = return i \<and> length i = 20 \<and>
    owns b i = return (prefix_id b = replicate (length (prefix_id b)) CHR ''0'')"
  using generate_id_prefix [OF assms] by blast

theorem generate_id_ignores_prefix_witness:
  "\<exists>i. generate_id (new_bucket ''1'' 8) 5 = return i \<and> length i = 20 \<and>
     owns (new_bucket ''1'' 8) i = return False"
  using generate_id_ignores_prefix [of "new_bucket ''1'' 8" 5] by (simp add: new_bucket_def)

end
