(* ===== verification/Trie_Properties.thy ===== *)
theory Trie_Properties
  imports Trie
begin

text \<open>
  The properties of the trie: any sequence of operations agrees with a dictionary, and the
  prefix queries answer from the stored keys.
\<close>

section \<open>The trie as a dictionary\<close>

text \<open>
  Sequences of operations on a trie and on a plain map. The map side is what a Python
  dictionary would do, with one difference that the code really shows: deleting the last
  remaining key removes it and then raises \<^verbatim>\<open>KeyError\<close>.
\<close>

datatype 'v trie_op = OpSet string 'v | OpGet string | OpDel string

fun op_key :: "'v trie_op \<Rightarrow> string" where
  "op_key (OpSet k v) = k" | "op_key (OpGet k) = k" | "op_key (OpDel k) = k"

fun trie_step :: "'v trie_op \<Rightarrow> 'v trie \<Rightarrow> 'v trie \<times> 'v option result" where
  "trie_step (OpSet k v) t = (let (t', r) = trie_setitem t k v in (t', map_sum id (\<lambda>_. None) r))"
| "trie_step (OpGet k) t = (t, map_sum id Some (trie_getitem t k))"
| "trie_step (OpDel k) t = (let (t', r) = trie_delitem t k in (t', map_sum id (\<lambda>_. None) r))"

fun dict_step :: "'v trie_op \<Rightarrow> (string \<rightharpoonup> 'v) \<Rightarrow> (string \<rightharpoonup> 'v) \<times> 'v option result" where
  "dict_step (OpSet k v) m = (m(k \<mapsto> v), return None)"
| "dict_step (OpGet k) m = (m, case m k of None \<Rightarrow> raise KeyError | Some v \<Rightarrow> return (Some v))"
| "dict_step (OpDel k) m =
     (if m k = None then (m, raise KeyError)
      else (m(k := None), if dom m = {k} then raise KeyError else return None))"

fun run_ops :: "('o \<Rightarrow> 's \<Rightarrow> 's \<times> 'r) \<Rightarrow> 'o list \<Rightarrow> 's \<Rightarrow> 's \<times> 'r list" where
  "run_ops step [] s = (s, [])"
| "run_ops step (x # xs) s =
     (let (s', r) = step x s; (s'', rs) = run_ops step xs s' in (s'', r # rs))"

lemma alphabet_new_trie [simp]: "alphabet (new_trie al) = al"
  by (simp add: new_trie_def)

lemma trie_delitem_cases:
  assumes "wf_trie t"
  shows "\<exists>t' r. trie_delitem t k = (t', r) \<and> wf_trie t' \<and> alphabet t' = alphabet t \<and>
    (trie_lookup t', map_sum id (\<lambda>_. None) r) = dict_step (OpDel k) (trie_lookup t)"
proof (cases "del_node k (trie_root t)")
  case None
  then have "trie_lookup t k = None" by (simp add: del_node_None trie_lookup_def)
  with None assms show ?thesis by (simp add: trie_delitem_def)
next
  case (Some n)
  note law = lookup_del_node [OF assms [unfolded wf_trie_def] Some]
  have k: "lookup_node (trie_root t) k \<noteq> None"
    using Some del_node_None [of k "trie_root t"] by auto
  have "empty_node n \<longleftrightarrow> (lookup_node (trie_root t))(k := None) = Map.empty"
    using law empty_node_iff [of "alphabet t" n] by simp
  also have "\<dots> \<longleftrightarrow> dom (lookup_node (trie_root t)) = {k}"
    using k by (auto simp: fun_eq_iff dom_def split: if_splits)
  finally show ?thesis
    using Some law k by (auto simp: trie_delitem_def trie_lookup_def wf_trie_def)
qed

lemma trie_step_refines:
  assumes "wf_trie t" "set (op_key x) \<subseteq> set (alphabet t)" "trie_step x t = (t', r)"
  shows "wf_trie t' \<and> alphabet t' = alphabet t \<and> (trie_lookup t', r) = dict_step x (trie_lookup t)"
proof (cases x)
  case (OpSet k v)
  obtain t1 r1 where s: "trie_setitem t k v = (t1, r1)" by fastforce
  with trie_setitem_law [OF assms(1) _ s] assms(2,3) OpSet show ?thesis by auto
next
  case (OpGet k)
  with assms show ?thesis by (auto simp: trie_getitem_lookup split: option.splits)
next
  case (OpDel k)
  with trie_delitem_cases [OF assms(1), of k] assms(3) show ?thesis by (auto simp del: dict_step.simps)
qed

text \<open>
  C6: any sequence of assignments, lookups and deletions with keys over the alphabet gives,
  on an empty trie, the same answers and errors as on an empty dictionary (with the
  deletion of the last key as described), and ends in the trie of the same contents.
\<close>

theorem trie_refines_dict:
  assumes "\<forall>x \<in> set xs. set (op_key x) \<subseteq> set al"
  shows "(let (t, rs) = run_ops trie_step xs (new_trie al) in (trie_lookup t, rs)) =
    run_ops dict_step xs Map.empty"
proof -
  have "wf_trie t \<Longrightarrow> alphabet t = al \<Longrightarrow>
      (let (t', rs) = run_ops trie_step xs t in (trie_lookup t', rs)) = run_ops dict_step xs (trie_lookup t)"
    for t :: "'a trie" using assms
  proof (induction xs arbitrary: t)
    case (Cons x xs)
    obtain t1 r where s: "trie_step x t = (t1, r)" by fastforce
    with trie_step_refines [OF Cons.prems(1) _ s] Cons.prems
    have 1: "wf_trie t1" "alphabet t1 = al" "dict_step x (trie_lookup t) = (trie_lookup t1, r)" by auto
    have "(let (t', rs) = run_ops trie_step xs t1 in (trie_lookup t', rs)) =
        run_ops dict_step xs (trie_lookup t1)"
      using Cons.IH [OF 1(1,2)] Cons.prems(3) by simp
    with s 1(3) show ?case by (auto simp: split: prod.splits)
  qed simp
  from this [of "new_trie al"] show ?thesis by simp
qed

theorem trie_refines_dict_witness:
  "snd (run_ops trie_step [OpSet ''01'' (1::nat), OpSet ''0'' 2, OpGet ''01'', OpDel ''01'', OpGet ''01'', OpDel ''0'']
     (new_trie ''01'')) =
   [return None, return None, return (Some 1), return None, raise KeyError, raise KeyError]"
proof -
  let ?xs = "[OpSet ''01'' 1, OpSet ''0'' 2, OpGet ''01'', OpDel ''01'', OpGet ''01'', OpDel ''0''] :: nat trie_op list"
  have "dom [''01'' \<mapsto> 1, ''0'' \<mapsto> 2 :: nat] \<noteq> {''01''}" "dom ([''01'' \<mapsto> 1, ''0'' \<mapsto> 2 :: nat](''01'' := None)) = {''0''}"
    by auto
  then have "snd (run_ops dict_step ?xs Map.empty) =
     [return None, return None, return (Some 1), return None, raise KeyError, raise KeyError]"
    by (simp only: run_ops.simps dict_step.simps) simp
  moreover have "snd (let (t, rs) = run_ops trie_step ?xs (new_trie ''01'') in (trie_lookup t, rs)) =
      snd (run_ops trie_step ?xs (new_trie ''01''))" by (simp add: split_beta)
  ultimately show ?thesis using trie_refines_dict [of ?xs "''01''"] by simp
qed

text \<open>
  \<open>longest_prefix_item\<close> on a trie whose values are all truthy returns a stored item whose
  key is a non-empty prefix of the argument, and no stored prefix is longer; only when no
  non-empty prefix is stored does it fall back to the default or raise \<^verbatim>\<open>KeyError\<close> (the value
  stored at the empty key is never found).
\<close>

theorem longest_prefix_item_correct:
  assumes "\<And>v. truthy v"
  shows "(\<exists>p v. longest_prefix_item truthy t key dflt = return (Inl (p, v)) \<and> p \<noteq> [] \<and> prefix p key \<and>
      trie_lookup t p = Some v \<and>
      (\<forall>q. prefix q key \<and> trie_lookup t q \<noteq> None \<longrightarrow> length q \<le> length p)) \<or>
    (\<forall>q. q \<noteq> [] \<and> prefix q key \<longrightarrow> trie_lookup t q = None) \<and>
      longest_prefix_item truthy t key dflt =
        (case dflt of Some d \<Rightarrow> return (Inr d) | None \<Rightarrow> raise KeyError)"
proof -
  obtain p v where loop: "longest_prefix_loop (trie_root t) [] key ([], None) = (p, v)" by fastforce
  from longest_prefix_loop_spec [OF this] show ?thesis
    using assms loop by (auto simp: longest_prefix_item_def trie_lookup_def split: option.split)
qed

theorem longest_prefix_item_correct_witness:
  "longest_prefix_item (\<lambda>_. True) (fst (trie_setitem (new_trie ''01'') ''01'' (1::nat))) ''011'' (None :: unit option) =
     return (Inl (''01'', 1))"
  using longest_prefix_item_correct [of "\<lambda>_. True" "fst (trie_setitem (new_trie ''01'') ''01'' (1::nat))" "''011''"
      "None :: unit option"]
  by (simp add: longest_prefix_item_def trie_setitem_def new_trie_def)

text \<open>
  \<open>suffixes\<close> lists exactly the ways of completing the given string to a stored key, and
  \<open>values\<close> lists the stored values, one for each key.
\<close>

theorem suffixes_and_values_correct:
  assumes "wf_trie t"
  shows "set (trie_suffixes truthy t p) = {s. p @ s \<in> dom (trie_lookup t)} \<and>
    (\<exists>ks. distinct ks \<and> set ks = dom (trie_lookup t) \<and>
       trie_values t = map (\<lambda>k. the (trie_lookup t k)) ks)"
  using trie_suffixes_dom [OF assms] set_node_keys [OF assms [unfolded wf_trie_def]]
    distinct_node_keys [OF assms [unfolded wf_trie_def]] node_values_keys [OF assms [unfolded wf_trie_def]]
  by (auto simp: trie_lookup_def trie_values_def)

theorem suffixes_and_values_correct_witness:
  "set (trie_suffixes (\<lambda>_. True) (fst (trie_setitem (new_trie ''01'') ''01'' (1::nat))) ''0'') = {''1''}"
proof -
  obtain t r where t: "trie_setitem (new_trie ''01'') ''01'' (1::nat) = (t, r)" by fastforce
  with trie_setitem_law [OF wf_trie_new _ t] have "wf_trie t" "trie_lookup t = [''01'' \<mapsto> 1]"
    by simp_all
  with suffixes_and_values_correct [of t "\<lambda>_. True" "''0''"] t show ?thesis by simp
qed

end
