(* ===== verification/Peer_Properties.thy ===== *)
theory Peer_Properties
  imports Peers
begin

text \<open>
  The properties of peers: the preferred address through any sequence of address operations,
  and the median of the measurements.
\<close>

section \<open>Peers: addresses and measurements\<close>

text \<open>What the rest of the program does to a peer's addresses, one operation at a time.\<close>

datatype peer_op =
    AddAddress address
  | ReadAddress
  | SetItem address
  | Pop address_class
  | PopItem
  | Clear

definition on_addresses :: "(dirty_dict \<Rightarrow> dirty_dict) \<Rightarrow> peer \<Rightarrow> peer" where
  "on_addresses f p = p\<lparr>addresses := f (addresses p)\<rparr>"

fun peer_step :: "peer_op \<Rightarrow> peer \<Rightarrow> peer" where
  "peer_step (AddAddress a) p = add_address a p"
| "peer_step ReadAddress p = fst (get_address p)"
| "peer_step (SetItem a) p = on_addresses (dd_setitem (addr_class a) a) p"
| "peer_step (Pop c) p = on_addresses (fst \<circ> dd_pop c) p"
| "peer_step PopItem p = on_addresses (fst \<circ> dd_popitem) p"
| "peer_step Clear p = on_addresses dd_clear p"

lemma dict_wf_butlast: "dict_wf d \<Longrightarrow> dict_wf (butlast d)"
  by (simp add: dict_wf_def map_butlast distinct_butlast)

lemma peer_wf_step: "peer_wf p \<Longrightarrow> peer_wf (peer_step x p)"
proof (cases x)
  case (AddAddress a)
  then show "peer_wf p \<Longrightarrow> ?thesis" by (simp add: peer_wf_add_address)
next
  case ReadAddress
  then show "peer_wf p \<Longrightarrow> ?thesis" by (simp add: peer_wf_get_address)
next
  case (SetItem a)
  then show "peer_wf p \<Longrightarrow> ?thesis"
    by (auto simp: peer_wf_def on_addresses_def dd_setitem_def dict_set_items)
next
  case (Pop c)
  then show "peer_wf p \<Longrightarrow> ?thesis"
    by (auto simp: peer_wf_def on_addresses_def dd_pop_def dict_del_items split: option.split)
next
  case PopItem
  then show "peer_wf p \<Longrightarrow> ?thesis"
    by (auto simp: peer_wf_def on_addresses_def dd_popitem_def dict_wf_butlast dest!: in_set_butlastD)
next
  case Clear
  then show "peer_wf p \<Longrightarrow> ?thesis"
    by (simp add: peer_wf_def on_addresses_def dd_clear_def)
qed

lemma preferred_first:
  "preferred is d = Some a \<Longrightarrow> \<exists>us c vs. is = us @ c # vs \<and> dict_get d c = Some a \<and> (\<forall>u \<in> set us. dict_get d u = None)"
proof (induction "is")
  case (Cons c cs)
  show ?case
  proof (cases "dict_get d c")
    case None
    with Cons obtain us c' vs where "cs = us @ c' # vs" "dict_get d c' = Some a" "\<forall>u \<in> set us. dict_get d u = None"
      by auto
    with None show ?thesis by (intro exI [of _ "c # us"]) auto
  next
    case (Some b)
    with Cons.prems show ?thesis by (intro exI [of _ "[]"]) auto
  qed
qed simp



lemma sorted_count_le:
  assumes "sorted s" "k < length s" "s ! k \<le> m"
  shows "Suc k \<le> length (filter (\<lambda>x. x \<le> m) s)"
proof -
  have "x \<le> m" if x: "x \<in> set (take (Suc k) s)" for x
  proof -
    obtain i where "i \<le> k" "x = s ! i" using x by (auto simp: in_set_conv_nth less_Suc_eq_le)
    with assms show ?thesis using sorted_nth_mono [of s i k] by fastforce
  qed
  then have "filter (\<lambda>x. x \<le> m) (take (Suc k) s) = take (Suc k) s" by (simp add: filter_id_conv)
  then have "length (filter (\<lambda>x. x \<le> m) (take (Suc k) s)) = Suc k" using assms(2) by simp
  then show ?thesis
    by (metis append_take_drop_id filter_append le_add1 length_append)
qed

lemma sorted_count_ge:
  assumes "sorted s" "k < length s" "m \<le> s ! k"
  shows "length s - k \<le> length (filter (\<lambda>x. m \<le> x) s)"
proof -
  have "m \<le> x" if x: "x \<in> set (drop k s)" for x
  proof -
    obtain i where "i < length s - k" "x = s ! (k + i)" using x by (auto simp: in_set_conv_nth)
    with assms show ?thesis using sorted_nth_mono [of s k "k + i"] by fastforce
  qed
  then have "filter (\<lambda>x. m \<le> x) (drop k s) = drop k s" by (simp add: filter_id_conv)
  then have "length (filter (\<lambda>x. m \<le> x) (drop k s)) = length s - k" by simp
  then show ?thesis
    by (metis append_take_drop_id filter_append le_add2 length_append)
qed

lemma length_filter_sort: "length (filter P (sort xs)) = length (filter P xs)"
  by (metis filter_sort length_sort)

text \<open>
  the median ping exists exactly when there are measurements, and it is a median: at
  least half of the measurements are at most, and at least half are at least, its value.
\<close>

theorem median_ping_is_median:
  "case get_median_ping p of
     None \<Rightarrow> pings p = []
   | Some m \<Rightarrow> pings p \<noteq> [] \<and> length (pings p) \<le> 2 * length (filter (\<lambda>x. x \<le> m) (pings p)) \<and>
       length (pings p) \<le> 2 * length (filter (\<lambda>x. m \<le> x) (pings p))"
proof (cases "pings p = []")
  case False
  let ?s = "sort (pings p)" and ?n = "length (pings p)"
  have n: "0 < ?n" using False by simp
  have srt: "sorted ?s" "length ?s = ?n" by simp_all
  define lo where "lo = (if ?n mod 2 = 0 then ?n div 2 - 1 else ?n div 2)"
  have lo: "lo < ?n" "lo \<le> ?n div 2" "?n \<le> 2 * Suc lo" using n by (cases "even ?n"; simp add: lo_def; presburger)+
  have hi: "?n div 2 < ?n" "?n \<le> 2 * (?n - ?n div 2)" using n by auto
  have "?s ! lo \<le> ?s ! (?n div 2)" using lo hi by (intro sorted_nth_mono) simp_all
  moreover define m where "m = (?s ! lo + ?s ! (?n div 2)) / 2"
  ultimately have m: "get_median_ping p = Some m" "?s ! lo \<le> m" "m \<le> ?s ! (?n div 2)"
    using False by (auto simp: get_median_ping_def Let_def lo_def)
  have "Suc lo \<le> length (filter (\<lambda>x. x \<le> m) ?s)"
    using lo m(2) by (intro sorted_count_le) simp_all
  moreover have "?n - ?n div 2 \<le> length (filter (\<lambda>x. m \<le> x) ?s)"
    using sorted_count_ge [OF srt(1), of "?n div 2" m] hi m(3) by simp
  ultimately show ?thesis
    using m(1) lo(3) hi(2) False by (simp add: length_filter_sort)
qed (simp add: get_median_ping_def)

end
