(* ===== verification/Storage.thy ===== *)
theory Storage
  imports Prelude "HOL-Library.Multiset"
begin

text \<open>
  The value store of the distributed hash table (\<^verbatim>\<open>ipv8/dht/storage.py\<close>): values with a
  version and a maximum age, stored in a list for each key.
\<close>

section \<open>Values\<close>

record dht_value =
  value_id :: bytes
  value_data :: bytes
  last_update :: seconds
  max_age :: seconds
  version :: int

definition new_value :: "seconds \<Rightarrow> bytes \<Rightarrow> bytes \<Rightarrow> seconds \<Rightarrow> int \<Rightarrow> dht_value" where
  "new_value now i d age ver =
     \<lparr>value_id = i, value_data = d, last_update = now, max_age = age, version = ver\<rparr>"

definition value_age :: "seconds \<Rightarrow> dht_value \<Rightarrow> seconds" where
  "value_age now v = now - last_update v"

definition expired :: "seconds \<Rightarrow> dht_value \<Rightarrow> bool" where
  "expired now v \<longleftrightarrow> value_age now v > max_age v"

text \<open>\<^verbatim>\<open>__eq__\<close> compares identifiers, so \<^verbatim>\<open>list.index\<close> finds the first value with the same one.\<close>

definition value_eq :: "dht_value \<Rightarrow> dht_value \<Rightarrow> bool" where
  "value_eq v w \<longleftrightarrow> value_id v = value_id w"

fun index_of :: "dht_value \<Rightarrow> dht_value list \<Rightarrow> nat result" where
  "index_of v [] = raise ValueError"
| "index_of v (w # ws) =
     (if value_eq w v then return 0 else bind_result (index_of v ws) (\<lambda>i. return (Suc i)))"

section \<open>The storage\<close>

text \<open>
  \<^verbatim>\<open>items\<close> is a \<^verbatim>\<open>defaultdict(list)\<close>: reading a missing key creates an empty list. The hash
  function \<^verbatim>\<open>hashlib.sha1\<close> is a parameter.
\<close>

type_synonym storage = "(bytes, dht_value list) dict"

definition items_at :: "bytes \<Rightarrow> storage \<Rightarrow> dht_value list" where
  "items_at key st = (case dict_get st key of None \<Rightarrow> [] | Some vs \<Rightarrow> vs)"

definition owner_rank :: "bytes \<Rightarrow> dht_value \<Rightarrow> nat" where
  "owner_rank key v = (if value_id v = key then 1 else 0)"

definition pop_at :: "nat \<Rightarrow> 'a list \<Rightarrow> 'a list" where
  "pop_at i xs = take i xs @ drop (Suc i) xs"

definition storage_put ::
  "(bytes \<Rightarrow> bytes) \<Rightarrow> seconds \<Rightarrow> bytes \<Rightarrow> bytes \<Rightarrow> bytes option \<Rightarrow> seconds \<Rightarrow> int \<Rightarrow> storage \<Rightarrow> storage" where
  "storage_put sha1 now key d id_arg age ver st =
     (let i = (case id_arg of Some j \<Rightarrow> if j = [] then sha1 d else j | None \<Rightarrow> sha1 d);
          v = new_value now i d age ver;
          vs = items_at key st
      in case index_of v vs of
           Inr index \<Rightarrow>
             if version v \<ge> version (vs ! index)
             then dict_set key (sort_key (owner_rank key) (v # pop_at index vs)) st
             else dict_set key vs st
         | Inl _ \<Rightarrow> dict_set key (sort_key (owner_rank key) (v # vs)) st)"

text \<open>Slices with Python's treatment of negative and overlong bounds; \<open>None\<close> is no bound.\<close>

definition slice_index :: "nat \<Rightarrow> int \<Rightarrow> nat" where
  "slice_index n i = (if i < 0 then nat (max 0 (i + int n)) else min (nat i) n)"

definition py_slice :: "int \<Rightarrow> int option \<Rightarrow> 'a list \<Rightarrow> 'a list" where
  "py_slice lo hi xs =
     (let n = length xs; a = slice_index n lo;
          b = (case hi of None \<Rightarrow> n | Some h \<Rightarrow> slice_index n h)
      in drop a (take b xs))"

definition storage_get :: "storage \<Rightarrow> bytes \<Rightarrow> int \<Rightarrow> int option \<Rightarrow> bytes list" where
  "storage_get st key starting_point limit =
     (let upper_bound = (case limit of None \<Rightarrow> None | Some l \<Rightarrow> if l = 0 then Some 0 else Some (starting_point + l))
      in case dict_get st key of
           Some vs \<Rightarrow> map value_data (py_slice starting_point upper_bound vs)
         | None \<Rightarrow> [])"

definition items_older_than :: "seconds \<Rightarrow> seconds \<Rightarrow> storage \<Rightarrow> (bytes \<times> bytes) list" where
  "items_older_than now min_age st =
     concat (map (\<lambda>(key, vs). map (\<lambda>v. (key, value_data v)) (filter (\<lambda>v. value_age now v > min_age) vs)) st)"

text \<open>
  \<^verbatim>\<open>clean\<close> goes through the values of a key from the last to the first, removes expired
  ones and stops at the first that is not. The clock is read once here.
\<close>

fun clean_rev :: "seconds \<Rightarrow> dht_value list \<Rightarrow> dht_value list" where
  "clean_rev now [] = []"
| "clean_rev now (v # vs) = (if expired now v then clean_rev now vs else v # vs)"

definition storage_clean :: "seconds \<Rightarrow> storage \<Rightarrow> storage" where
  "storage_clean now st = map (\<lambda>(key, vs). (key, rev (clean_rev now (rev vs)))) st"

section \<open>The finite map a storage stands for\<close>

definition storage_lookup :: "storage \<Rightarrow> bytes \<Rightarrow> bytes \<Rightarrow> dht_value option" where
  "storage_lookup st key i = find (\<lambda>v. value_id v = i) (items_at key st)"

text \<open>
  Well-formedness: one entry per key, one value per identifier, and the value whose
  identifier is the key itself (the one the key's owner signed) comes last.
\<close>

definition values_wf :: "bytes \<Rightarrow> dht_value list \<Rightarrow> bool" where
  "values_wf key vs \<longleftrightarrow> distinct (map value_id vs) \<and> sorted (map (owner_rank key) vs)"

definition storage_wf :: "storage \<Rightarrow> bool" where
  "storage_wf st \<longleftrightarrow> dict_wf st \<and> (\<forall>key vs. dict_get st key = Some vs \<longrightarrow> values_wf key vs)"

lemma storage_wf_items: "storage_wf st \<Longrightarrow> values_wf key (items_at key st)"
  by (auto simp: storage_wf_def items_at_def values_wf_def split: option.split)

lemma items_at_set [simp]: "items_at key' (dict_set key vs st) = (if key' = key then vs else items_at key' st)"
  by (simp add: items_at_def dict_simps)

lemma index_of_Inl: "index_of v vs = Inl e \<Longrightarrow> e = ValueError \<and> value_id v \<notin> value_id ` set vs"
  by (induction vs arbitrary: e) (auto simp: value_eq_def bind_result_eq_Inl split: if_splits)

lemma index_of_Inr:
  "index_of v vs = Inr i \<Longrightarrow>
     i < length vs \<and> value_id (vs ! i) = value_id v \<and> (\<forall>w \<in> set (take i vs). value_id w \<noteq> value_id v)"
  by (induction vs arbitrary: i) (auto simp: value_eq_def bind_result_eq_Inr split: if_splits)

lemma find_distinct:
  "distinct (map value_id vs) \<Longrightarrow> find (\<lambda>v. value_id v = i) vs = Some w \<longleftrightarrow> w \<in> set vs \<and> value_id w = i"
  by (induction vs) (auto simp: image_iff)

lemma find_perm:
  assumes "distinct (map value_id vs)" "mset ws = mset vs"
  shows "find (\<lambda>v. value_id v = i) ws = find (\<lambda>v. value_id v = i) vs"
proof -
  have "distinct (map value_id ws)" "set ws = set vs"
    by (metis assms mset_eq_imp_distinct_iff mset_map) (metis assms(2) mset_eq_setD)
  then show ?thesis using find_distinct [of ws i] find_distinct [OF assms(1), of i]
    by (metis not_Some_eq)
qed

lemma distinct_pop_at:
  assumes "distinct (map value_id vs)" "k < length vs"
  shows "distinct (map value_id (pop_at k vs))" "value_id (vs ! k) \<notin> value_id ` set (pop_at k vs)"
proof -
  have "map value_id vs = map value_id (take k vs) @ value_id (vs ! k) # map value_id (drop (Suc k) vs)"
    by (metis assms(2) id_take_nth_drop list.simps(9) map_append)
  with assms(1) have "distinct (map value_id (take k vs) @ value_id (vs ! k) # map value_id (drop (Suc k) vs))"
    by simp
  then show "distinct (map value_id (pop_at k vs))" "value_id (vs ! k) \<notin> value_id ` set (pop_at k vs)"
    by (auto simp: pop_at_def)
qed

lemma find_pop_at:
  assumes "distinct (map value_id vs)" "k < length vs" "value_id (vs ! k) = j" "i \<noteq> j"
  shows "find (\<lambda>v. value_id v = i) (pop_at k vs) = find (\<lambda>v. value_id v = i) vs"
proof -
  have "set vs = insert (vs ! k) (set (pop_at k vs))"
    using arg_cong [OF id_take_nth_drop [OF assms(2)], of set] by (simp add: pop_at_def)
  then have "w \<in> set (pop_at k vs) \<and> value_id w = i \<longleftrightarrow> w \<in> set vs \<and> value_id w = i" for w
    using assms(3,4) by auto
  then show ?thesis
    using find_distinct [OF assms(1), of i] find_distinct [OF distinct_pop_at(1) [OF assms(1,2)], of i]
    by (metis not_Some_eq)
qed

lemma values_wf_insert:
  assumes "distinct (map value_id vs)" "value_id v \<notin> value_id ` set vs"
  shows "values_wf key (sort_key (owner_rank key) (v # vs))"
    "find (\<lambda>w. value_id w = i) (sort_key (owner_rank key) (v # vs)) =
       (if i = value_id v then Some v else find (\<lambda>w. value_id w = i) vs)"
proof -
  have d: "distinct (map value_id (v # vs))" using assms by simp
  have m: "mset (sort_key (owner_rank key) (v # vs)) = mset (v # vs)" by simp
  then have "distinct (map value_id (sort_key (owner_rank key) (v # vs)))"
    using d by (metis mset_eq_imp_distinct_iff mset_map)
  then show "values_wf key (sort_key (owner_rank key) (v # vs))"
    by (simp add: values_wf_def del: sort_key_simps)
  show "find (\<lambda>w. value_id w = i) (sort_key (owner_rank key) (v # vs)) =
       (if i = value_id v then Some v else find (\<lambda>w. value_id w = i) vs)"
    using find_perm [OF d m, of i] by auto
qed

definition arg_id :: "(bytes \<Rightarrow> bytes) \<Rightarrow> bytes \<Rightarrow> bytes option \<Rightarrow> bytes" where
  "arg_id sha1 d id_arg = (case id_arg of Some j \<Rightarrow> if j = [] then sha1 d else j | None \<Rightarrow> sha1 d)"

definition newer :: "dht_value \<Rightarrow> dht_value option \<Rightarrow> dht_value" where
  "newer v old = (case old of None \<Rightarrow> v | Some w \<Rightarrow> if version v \<ge> version w then v else w)"

lemma storage_wf_set: "storage_wf st \<Longrightarrow> values_wf key vs \<Longrightarrow> storage_wf (dict_set key vs st)"
  by (auto simp: storage_wf_def dict_simps split: if_splits)

lemma storage_put_items:
  assumes "storage_wf st" "i = arg_id sha1 d id_arg" "v = new_value now i d age ver"
  shows "\<exists>vs. storage_put sha1 now key d id_arg age ver st = dict_set key vs st \<and> values_wf key vs \<and>
    (\<forall>j. find (\<lambda>w. value_id w = j) vs =
       (if j = i then Some (newer v (storage_lookup st key i)) else storage_lookup st key j))"
proof -
  let ?vs = "items_at key st"
  have wf: "values_wf key ?vs" using assms(1) by (rule storage_wf_items)
  then have d: "distinct (map value_id ?vs)" by (simp add: values_wf_def)
  have vid: "value_id v = i" by (simp add: assms(3) new_value_def)
  have put: "storage_put sha1 now key d id_arg age ver st =
     (case index_of v ?vs of
           Inr index \<Rightarrow>
             if version v \<ge> version (?vs ! index)
             then dict_set key (sort_key (owner_rank key) (v # pop_at index ?vs)) st
             else dict_set key ?vs st
         | Inl _ \<Rightarrow> dict_set key (sort_key (owner_rank key) (v # ?vs)) st)"
    unfolding storage_put_def Let_def assms(3) by (simp only: assms(2) arg_id_def)
  show ?thesis
  proof (cases "index_of v ?vs")
    case (Inl e)
    with index_of_Inl have fresh: "value_id v \<notin> value_id ` set ?vs" by blast
    then have "find (\<lambda>w. value_id w = i) ?vs = None" by (auto simp: find_None_iff vid)
    then show ?thesis
      using values_wf_insert [OF d fresh] put Inl
      by (auto simp: storage_lookup_def newer_def vid)
  next
    case (Inr k)
    note at = index_of_Inr [OF Inr]
    have old: "find (\<lambda>w. value_id w = i) ?vs = Some (?vs ! k)"
      using at vid by (simp add: find_distinct [OF d])
    show ?thesis
    proof (cases "version v \<ge> version (?vs ! k)")
      case True
      have "distinct (map value_id (pop_at k ?vs))" "value_id v \<notin> value_id ` set (pop_at k ?vs)"
        using distinct_pop_at [OF d, of k] at by auto
      from values_wf_insert [OF this] show ?thesis
        using put Inr True old at vid find_pop_at [OF d, of k i]
        by (auto simp: storage_lookup_def newer_def)
    next
      case False
      then show ?thesis using put Inr old wf by (auto simp: storage_lookup_def newer_def)
    qed
  qed
qed

lemma storage_put_spec:
  assumes "storage_wf st" "i = arg_id sha1 d id_arg" "v = new_value now i d age ver"
  shows "storage_wf (storage_put sha1 now key d id_arg age ver st) \<and>
    storage_lookup (storage_put sha1 now key d id_arg age ver st) key' j =
      (if key' = key \<and> j = i then Some (newer v (storage_lookup st key i)) else storage_lookup st key' j)"
  using storage_put_items [OF assms, of key] assms(1)
  by (auto simp: storage_lookup_def storage_wf_set)

section \<open>Properties of the storage\<close>

text \<open>A request to store, as the community makes it, and the value it stores.\<close>

record put_call =
  put_time :: seconds
  put_key :: bytes
  put_data :: bytes
  put_id :: "bytes option"
  put_age :: seconds
  put_version :: int

definition do_put :: "(bytes \<Rightarrow> bytes) \<Rightarrow> storage \<Rightarrow> put_call \<Rightarrow> storage" where
  "do_put sha1 st c =
     storage_put sha1 (put_time c) (put_key c) (put_data c) (put_id c) (put_age c) (put_version c) st"

definition put_value :: "(bytes \<Rightarrow> bytes) \<Rightarrow> put_call \<Rightarrow> dht_value" where
  "put_value sha1 c =
     new_value (put_time c) (arg_id sha1 (put_data c) (put_id c)) (put_data c) (put_age c) (put_version c)"

definition put_for :: "(bytes \<Rightarrow> bytes) \<Rightarrow> bytes \<Rightarrow> bytes \<Rightarrow> put_call \<Rightarrow> bool" where
  "put_for sha1 key i c \<longleftrightarrow> put_key c = key \<and> arg_id sha1 (put_data c) (put_id c) = i"

lemma do_put_spec:
  assumes "storage_wf st"
  shows "storage_wf (do_put sha1 st c)"
    and "storage_lookup (do_put sha1 st c) key i =
      (if put_for sha1 key i c then Some (newer (put_value sha1 c) (storage_lookup st key i))
       else storage_lookup st key i)"
  using storage_put_spec [OF assms refl refl, of sha1 "put_time c" "put_key c" "put_data c" "put_id c"
      "put_age c" "put_version c" key i]
  by (auto simp: do_put_def put_value_def put_for_def)

text \<open>
  C5: after any sequence of \<open>put\<close> calls on an empty storage the storage is well formed (one
  value per identifier, the owner's value last), and what it holds under a key and an
  identifier is the value of the last call for them among those of the highest version;
  it holds nothing if there was no such call.
\<close>

theorem storage_keeps_newest_version:
  "storage_wf (foldl (do_put sha1) [] cs) \<and>
   (case storage_lookup (foldl (do_put sha1) [] cs) key i of
      None \<Rightarrow> filter (put_for sha1 key i) cs = []
    | Some v \<Rightarrow> \<exists>us c ws. cs = us @ c # ws \<and> put_for sha1 key i c \<and> v = put_value sha1 c \<and>
        (\<forall>u \<in> set us. put_for sha1 key i u \<longrightarrow> put_version u \<le> put_version c) \<and>
        (\<forall>w \<in> set ws. put_for sha1 key i w \<longrightarrow> put_version w < put_version c))"
proof (induction cs rule: rev_induct)
  case Nil
  show ?case by (simp add: storage_wf_def storage_lookup_def items_at_def)
next
  case (snoc c cs)
  let ?st = "foldl (do_put sha1) [] cs"
  have spec: "storage_wf (do_put sha1 ?st c) \<and> storage_lookup (do_put sha1 ?st c) key i =
      (if put_for sha1 key i c then Some (newer (put_value sha1 c) (storage_lookup ?st key i))
       else storage_lookup ?st key i)"
    using do_put_spec [OF conjunct1 [OF snoc]] by blast
  have ver: "version (put_value sha1 x) = put_version x" for x
    by (simp add: put_value_def new_value_def)
  show ?case
  proof (cases "storage_lookup ?st key i")
    case None
    with snoc have "filter (put_for sha1 key i) cs = []" by simp
    then have "\<forall>u \<in> set cs. \<not> put_for sha1 key i u" by (simp add: filter_empty_conv)
    moreover from this have "filter (put_for sha1 key i) cs = []" by simp
    ultimately show ?thesis using spec None
      by (cases "put_for sha1 key i c")
        (simp_all add: newer_def, intro exI [of _ cs] exI [of _ c] exI [of _ "[]"], simp)
  next
    case (Some v)
    with snoc obtain us d ws where d: "cs = us @ d # ws" "put_for sha1 key i d" "v = put_value sha1 d"
      "\<forall>u \<in> set us. put_for sha1 key i u \<longrightarrow> put_version u \<le> put_version d"
      "\<forall>w \<in> set ws. put_for sha1 key i w \<longrightarrow> put_version w < put_version d" by auto
    show ?thesis
    proof (cases "put_for sha1 key i c \<and> put_version d \<le> put_version c")
      case True
      with d have "\<forall>u \<in> set cs. put_for sha1 key i u \<longrightarrow> put_version u \<le> put_version c"
        by (auto simp: d(1) intro: less_imp_le order_trans)
      then show ?thesis using spec Some d(3) True
        by (simp add: newer_def ver) (intro exI [of _ cs] exI [of _ c] exI [of _ "[]"], simp)
    next
      case False
      then have lk: "storage_lookup (do_put sha1 ?st c) key i = Some v"
        using spec Some d(3) by (auto simp: newer_def ver)
      have eq: "foldl (do_put sha1) [] (cs @ [c]) = do_put sha1 ?st c" by simp
      have "cs @ [c] = us @ d # (ws @ [c])" by (simp add: d(1))
      moreover have "\<forall>w \<in> set (ws @ [c]). put_for sha1 key i w \<longrightarrow> put_version w < put_version d"
        using d(5) False by auto
      ultimately show ?thesis unfolding eq lk option.case using spec d(2-4) by blast
    qed
  qed
qed

definition ex_puts :: "put_call list" where
  "ex_puts =
     [\<lparr>put_time = 1, put_key = [1], put_data = [7], put_id = Some [5], put_age = 9, put_version = 2\<rparr>,
      \<lparr>put_time = 2, put_key = [1], put_data = [8], put_id = Some [5], put_age = 9, put_version = 1\<rparr>]"

theorem storage_keeps_newest_version_witness:
  "storage_wf (foldl (do_put id) [] ex_puts) \<and>
   storage_lookup (foldl (do_put id) [] ex_puts) [1] [5] = Some (new_value 1 [5] [7] 9 2)"
  using storage_keeps_newest_version [of id ex_puts "[1]" "[5]"]
  by (simp add: ex_puts_def do_put_def storage_put_def storage_lookup_def items_at_def new_value_def
      value_eq_def)

text \<open>
  reading in pages loses and repeats nothing: a page of \<open>l\<close> values from a position
  followed by everything after it is everything from that position on, and no page is
  longer than asked for.
\<close>

theorem storage_get_pages:
  assumes "0 \<le> s" "0 < l"
  shows "storage_get st key s (Some l) @ storage_get st key (s + l) None = storage_get st key s None \<and>
    length (storage_get st key s (Some l)) \<le> nat l"
proof -
  have "drop (min (nat s) n) (take (min (nat (s + l)) n) vs) @ drop (min (nat (s + l)) n) vs = drop (min (nat s) n) vs"
    if "n = length vs" for n and vs :: "dht_value list"
  proof -
    have "min (nat s) n \<le> min (nat (s + l)) n" using assms by auto
    then show ?thesis using that
      by (metis append_take_drop_id diff_zero drop_append drop_eq_Nil2 drop_take length_take min.absorb2 min.cobounded2 diff_is_0_eq' drop0)
  qed
  moreover have "nat (s + l) = nat s + nat l" using assms by (simp add: nat_add_distrib)
  moreover have "min (nat s + nat l) n - min (nat s) n \<le> nat l" for n by linarith
  ultimately show ?thesis using assms
    by (auto simp: storage_get_def py_slice_def slice_index_def Let_def split: option.split
        simp flip: map_append)
qed

theorem storage_get_pages_witness:
  "storage_get [([1], [new_value 0 [5] [7] 1 1, new_value 0 [6] [8] 1 1])] [1] 0 (Some 1) @
   storage_get [([1], [new_value 0 [5] [7] 1 1, new_value 0 [6] [8] 1 1])] [1] 1 None = [[7], [8]]"
  using storage_get_pages [of 0 1 "[([1], [new_value 0 [5] [7] 1 1, new_value 0 [6] [8] 1 1])]" "[1]"]
  by (simp add: storage_get_def py_slice_def slice_index_def new_value_def)

lemma clean_rev_spec:
  "\<exists>dropped. vs = dropped @ clean_rev now vs \<and> (\<forall>v \<in> set dropped. expired now v) \<and>
     (clean_rev now vs \<noteq> [] \<longrightarrow> \<not> expired now (hd (clean_rev now vs)))"
proof (induction vs)
  case (Cons v vs)
  then obtain dropped where "vs = dropped @ clean_rev now vs" "\<forall>v \<in> set dropped. expired now v"
    "clean_rev now vs \<noteq> [] \<longrightarrow> \<not> expired now (hd (clean_rev now vs))" by blast
  then show ?case
    by (cases "expired now v") (simp, metis append_Cons set_ConsD, force)
qed simp

lemma dict_get_clean: "dict_get (storage_clean now st) key = map_option (\<lambda>vs. rev (clean_rev now (rev vs))) (dict_get st key)"
  by (induction st) (auto simp: storage_clean_def)

text \<open>
  \<open>clean\<close> removes from each key's list a final segment of expired values and stops at the
  first value, from the end, that has not expired: no value that is still valid is lost, the
  storage stays well formed, and a list that is not emptied ends with a valid value.
\<close>

theorem storage_clean_correct:
  assumes "storage_wf st"
  shows "storage_wf (storage_clean now st) \<and>
    (\<exists>dropped. items_at key st = items_at key (storage_clean now st) @ dropped \<and>
       (\<forall>v \<in> set dropped. expired now v)) \<and>
    (items_at key (storage_clean now st) \<noteq> [] \<longrightarrow> \<not> expired now (last (items_at key (storage_clean now st))))"
proof -
  have cl: "\<exists>dropped. vs = rev (clean_rev now (rev vs)) @ dropped \<and> (\<forall>v \<in> set dropped. expired now v) \<and>
      (rev (clean_rev now (rev vs)) \<noteq> [] \<longrightarrow> \<not> expired now (last (rev (clean_rev now (rev vs)))))" for vs
  proof -
    obtain dropped where "rev vs = dropped @ clean_rev now (rev vs)" "\<forall>v \<in> set dropped. expired now v"
      "clean_rev now (rev vs) \<noteq> [] \<longrightarrow> \<not> expired now (hd (clean_rev now (rev vs)))"
      using clean_rev_spec [of "rev vs" now] by blast
    then show ?thesis
      by (intro exI [of _ "rev dropped"]) (auto simp: last_rev, metis rev_append rev_rev_ident)
  qed
  have "values_wf k (rev (clean_rev now (rev vs)))" if wf: "values_wf k vs" for k vs
  proof -
    obtain dropped where eq: "vs = rev (clean_rev now (rev vs)) @ dropped" using cl by blast
    from wf have "values_wf k (rev (clean_rev now (rev vs)) @ dropped)" using eq by simp
    then show ?thesis by (simp add: values_wf_def sorted_append)
  qed
  moreover have "dict_wf (storage_clean now st)" using assms
    by (simp add: storage_wf_def dict_wf_def storage_clean_def comp_def split_beta)
  ultimately have "storage_wf (storage_clean now st)"
    using assms by (auto simp: storage_wf_def dict_get_clean)
  moreover have "\<exists>dropped. items_at key st = items_at key (storage_clean now st) @ dropped \<and>
       (\<forall>v \<in> set dropped. expired now v) \<and>
    (items_at key (storage_clean now st) \<noteq> [] \<longrightarrow> \<not> expired now (last (items_at key (storage_clean now st))))"
    using cl by (cases "dict_get st key") (simp_all add: items_at_def dict_get_clean)
  ultimately show ?thesis by blast
qed

text \<open>An expired value in front of a valid one is still there after cleaning.\<close>

theorem storage_clean_correct_witness:
  "storage_wf [([1], [new_value 0 [5] [7] 1 1, new_value 0 [6] [8] 100 1])] \<and>
   expired 50 (new_value 0 [5] [7] 1 1) \<and>
   items_at [1] (storage_clean 50 [([1], [new_value 0 [5] [7] 1 1, new_value 0 [6] [8] 100 1])]) =
     [new_value 0 [5] [7] 1 1, new_value 0 [6] [8] 100 1]"
proof -
  let ?st = "[([1], [new_value 0 [5] [7] 1 1, new_value 0 [6] [8] 100 1])]"
  have wf: "storage_wf ?st"
    by (simp add: storage_wf_def dict_wf_def values_wf_def new_value_def owner_rank_def)
  have "expired 50 (new_value 0 [5] [7] 1 1)" "\<not> expired 50 (new_value 0 [6] [8] 100 1)"
    by (simp_all add: expired_def value_age_def new_value_def)
  with storage_clean_correct [OF wf, of 50 "[1]"] wf show ?thesis
    by (simp add: items_at_def storage_clean_def)
qed

end
