(* ===== verification/Utf8.thy ===== *)
theory Utf8
  imports Prelude
begin

text \<open>
  Python strings and their strict UTF-8 encoding, as used by the packers of
  \<^verbatim>\<open>ipv8/messaging/serialization.py\<close>: decoding an encoded string gives it back.
\<close>

section \<open>Text\<close>

text \<open>A Python string is a list of code points; \<^verbatim>\<open>str.encode\<close> and \<^verbatim>\<open>bytes.decode\<close> are strict UTF-8.\<close>

type_synonym unicode = "nat list"

definition ustr :: "string \<Rightarrow> unicode" where
  "ustr s = map of_char s"

definition utf8_point :: "nat \<Rightarrow> bytes option" where
  "utf8_point c =
     (if c < 0x80 then Some [of_nat c]
      else if c < 0x800 then Some [of_nat (0xC0 + c div 64), of_nat (0x80 + c mod 64)]
      else if 0xD800 \<le> c \<and> c < 0xE000 then None
      else if c < 0x10000 then
        Some [of_nat (0xE0 + c div 4096), of_nat (0x80 + c div 64 mod 64), of_nat (0x80 + c mod 64)]
      else if c < 0x110000 then
        Some [of_nat (0xF0 + c div 262144), of_nat (0x80 + c div 4096 mod 64),
              of_nat (0x80 + c div 64 mod 64), of_nat (0x80 + c mod 64)]
      else None)"

fun utf8_encode :: "unicode \<Rightarrow> bytes result" where
  "utf8_encode [] = return []"
| "utf8_encode (c # cs) =
     (case utf8_point c of
        None \<Rightarrow> raise UnicodeError
      | Some bs \<Rightarrow> bind_result (utf8_encode cs) (\<lambda>rest. return (bs @ rest)))"

definition continuation :: "byte \<Rightarrow> bool" where
  "continuation b \<longleftrightarrow> 0x80 \<le> unat b \<and> unat b < 0xC0"

text \<open>
  One code point from the front of a byte string, with the number of bytes it takes. A
  decoded point that would be encoded differently (overlong forms), a surrogate or a point
  beyond the Unicode range is an error.
\<close>

definition utf8_check :: "nat \<Rightarrow> bytes \<Rightarrow> (nat \<times> nat) option" where
  "utf8_check c bs = (if utf8_point c = Some bs then Some (c, length bs) else None)"

definition utf8_next :: "bytes \<Rightarrow> (nat \<times> nat) option" where
  "utf8_next bs =
     (case bs of
        [] \<Rightarrow> None
      | b # rest \<Rightarrow>
          let x = unat b; y = (\<lambda>i. unat (rest ! i) mod 64)
          in if x < 0x80 then Some (x, 1)
             else if x < 0xC0 then None
             else if x < 0xE0 then
               (if length rest < 1 then None else utf8_check (x mod 32 * 64 + y 0) (take 2 bs))
             else if x < 0xF0 then
               (if length rest < 2 then None
                else utf8_check (x mod 16 * 4096 + y 0 * 64 + y 1) (take 3 bs))
             else if x < 0xF8 then
               (if length rest < 3 then None
                else utf8_check (x mod 8 * 262144 + y 0 * 4096 + y 1 * 64 + y 2) (take 4 bs))
             else None)"

lemma utf8_next_pos: "utf8_next bs = Some (c, n) \<Longrightarrow> 0 < n \<and> n \<le> length bs"
  by (auto simp: utf8_next_def utf8_check_def Let_def split: list.splits if_splits)

function utf8_decode :: "bytes \<Rightarrow> unicode result" where
  "utf8_decode bs =
     (if bs = [] then return []
      else case utf8_next bs of
             None \<Rightarrow> raise UnicodeError
           | Some (c, n) \<Rightarrow> bind_result (utf8_decode (drop n bs)) (\<lambda>cs. return (c # cs)))"
  by pat_completeness auto
termination
  by (relation "measure length") (auto dest!: utf8_next_pos)

declare utf8_decode.simps [simp del]

lemma unat_byte: "n < 256 \<Longrightarrow> unat (of_nat n :: byte) = n"
  by (simp add: unat_of_nat)

lemma mod_shift: "d dvd k \<Longrightarrow> q < d \<Longrightarrow> (k + q) mod d = (q :: nat)"
  by (auto elim!: dvdE)

lemma utf8_next_1: "unat b < 128 \<Longrightarrow> utf8_next (b # rest) = Some (unat b, 1)"
  by (simp add: utf8_next_def)

lemma utf8_next_2:
  assumes "unat b0 = 0xC0 + q" "unat b1 = 0x80 + r" "q < 32" "r < 64"
  shows "utf8_next (b0 # b1 # rest) = utf8_check (q * 64 + r) [b0, b1]"
proof -
  have m: "(0xC0 + q) mod 32 = q" "(0x80 + r) mod 64 = r" 
    using assms(3,4) by (intro mod_shift; simp)+
  have c: "\<not> 0xC0 + q < 0x80" "\<not> 0xC0 + q < 0xC0" "0xC0 + q < 0xE0" using assms(3) by simp_all
  show ?thesis unfolding utf8_next_def list.case Let_def assms(1) by (simp add: assms(2) c m)
qed

lemma utf8_next_3:
  assumes "unat b0 = 0xE0 + q" "unat b1 = 0x80 + r" "unat b2 = 0x80 + t" "q < 16" "r < 64" "t < 64"
  shows "utf8_next (b0 # b1 # b2 # rest) = utf8_check (q * 4096 + r * 64 + t) [b0, b1, b2]"
proof -
  have m: "(0xE0 + q) mod 16 = q" "(0x80 + r) mod 64 = r" "(0x80 + t) mod 64 = t"
    using assms(4-) by (intro mod_shift; simp)+
  have c: "\<not> 0xE0 + q < 0x80" "\<not> 0xE0 + q < 0xC0" "\<not> 0xE0 + q < 0xE0" "0xE0 + q < 0xF0"
    using assms(4) by simp_all
  show ?thesis unfolding utf8_next_def list.case Let_def assms(1) by (simp add: assms(2,3) c m)
qed

lemma utf8_next_4:
  assumes "unat b0 = 0xF0 + q" "unat b1 = 0x80 + r" "unat b2 = 0x80 + t" "unat b3 = 0x80 + v"
    "q < 8" "r < 64" "t < 64" "v < 64"
  shows "utf8_next (b0 # b1 # b2 # b3 # rest) =
    utf8_check (q * 262144 + r * 4096 + t * 64 + v) [b0, b1, b2, b3]"
proof -
  have m: "(0xF0 + q) mod 8 = q" "(0x80 + r) mod 64 = r" "(0x80 + t) mod 64 = t" "(0x80 + v) mod 64 = v"
    using assms(5-) by (intro mod_shift; simp)+
  have c: "\<not> 0xF0 + q < 0x80" "\<not> 0xF0 + q < 0xC0" "\<not> 0xF0 + q < 0xE0" "\<not> 0xF0 + q < 0xF0"
    "0xF0 + q < 0xF8" using assms(5) by simp_all
  show ?thesis unfolding utf8_next_def list.case Let_def assms(1) by (simp add: assms(2-4) c m)
qed

lemma utf8_next_point:
  assumes "utf8_point c = Some bs"
  shows "utf8_next (bs @ rest) = Some (c, length bs)"
proof -
  let ?b = "\<lambda>n. of_nat n :: byte"
  consider (one) "c < 0x80" | (two) "0x80 \<le> c" "c < 0x800" | (three) "0x800 \<le> c" "c < 0x10000"
    | (four) "0x10000 \<le> c" "c < 0x110000"
    using assms by (fastforce simp: utf8_point_def split: if_splits)
  then show ?thesis
  proof cases
    case one
    with assms have "bs = [?b c]" by (simp add: utf8_point_def)
    moreover have "unat (?b c) = c" using one by (intro unat_byte) simp
    ultimately show ?thesis using one utf8_next_1 [of "?b c" rest] by simp
  next
    case two
    then have p: "utf8_point c = Some [?b (0xC0 + c div 64), ?b (0x80 + c mod 64)]"
      unfolding utf8_point_def by (simp only: if_False if_True not_less [symmetric])
    have e: "c div 64 * 64 + c mod 64 = c" by (rule div_mult_mod_eq)
    have q: "c div 64 < 32" "c mod 64 < 64" using two by (simp_all add: div_less_iff_less_mult)
    from q have "unat (?b (0xC0 + c div 64)) = 0xC0 + c div 64" "unat (?b (0x80 + c mod 64)) = 0x80 + c mod 64"
      by (intro unat_byte; linarith)+
    from utf8_next_2 [OF this q, of rest, unfolded e] assms p show ?thesis
      by (simp only: utf8_check_def) (metis append_Cons append_Nil option.inject)
  next
    case three
    with assms have p: "utf8_point c = Some [?b (0xE0 + c div 4096), ?b (0x80 + c div 64 mod 64), ?b (0x80 + c mod 64)]"
      unfolding utf8_point_def by (simp only: if_False if_True not_less [symmetric] option.distinct split: if_splits)
    have e: "c div 4096 * 4096 + c div 64 mod 64 * 64 + c mod 64 = c"
      using div_mult_mod_eq [of c 64] div_mult_mod_eq [of "c div 64" 64] div_mult2_eq [of c 64 64, simplified]
      by linarith
    have q: "c div 4096 < 16" "c div 64 mod 64 < 64" "c mod 64 < 64" using three by (simp_all add: div_less_iff_less_mult)
    from q have "unat (?b (0xE0 + c div 4096)) = 0xE0 + c div 4096"
      "unat (?b (0x80 + c div 64 mod 64)) = 0x80 + c div 64 mod 64" "unat (?b (0x80 + c mod 64)) = 0x80 + c mod 64"
      by (intro unat_byte; linarith)+
    from utf8_next_3 [OF this q, of rest, unfolded e] assms p show ?thesis
      by (simp only: utf8_check_def) (metis append_Cons append_Nil option.inject)
  next
    case four
    with assms have p: "utf8_point c = Some [?b (0xF0 + c div 262144), ?b (0x80 + c div 4096 mod 64),
        ?b (0x80 + c div 64 mod 64), ?b (0x80 + c mod 64)]"
      unfolding utf8_point_def by (simp only: if_False if_True not_less [symmetric] option.distinct split: if_splits)
    have e: "c div 262144 * 262144 + c div 4096 mod 64 * 4096 + c div 64 mod 64 * 64 + c mod 64 = c"
      using div_mult_mod_eq [of c 64] div_mult_mod_eq [of "c div 64" 64] div_mult_mod_eq [of "c div 4096" 64]
        div_mult2_eq [of c 64 64, simplified] div_mult2_eq [of c 4096 64, simplified] by linarith
    have q: "c div 262144 < 8" "c div 4096 mod 64 < 64" "c div 64 mod 64 < 64" "c mod 64 < 64"
      using four by (simp_all add: div_less_iff_less_mult)
    from q have "unat (?b (0xF0 + c div 262144)) = 0xF0 + c div 262144"
      "unat (?b (0x80 + c div 4096 mod 64)) = 0x80 + c div 4096 mod 64"
      "unat (?b (0x80 + c div 64 mod 64)) = 0x80 + c div 64 mod 64" "unat (?b (0x80 + c mod 64)) = 0x80 + c mod 64"
      by (intro unat_byte; linarith)+
    from utf8_next_4 [OF this q, of rest, unfolded e] assms p show ?thesis
      by (simp only: utf8_check_def) (metis append_Cons append_Nil option.inject)
  qed
qed

lemma utf8_decode_encode: "utf8_encode cs = return bs \<Longrightarrow> utf8_decode bs = return cs"
proof (induction cs arbitrary: bs)
  case Nil
  then show ?case by (simp add: utf8_decode.simps)
next
  case (Cons c cs)
  then obtain ps rest where p: "utf8_point c = Some ps" "utf8_encode cs = return rest" "bs = ps @ rest"
    by (auto simp: bind_result_eq_Inr split: option.splits)
  then have "utf8_decode rest = return cs" using Cons.IH by simp
  moreover have "ps \<noteq> []" using p(1) by (auto simp: utf8_point_def split: if_splits)
  ultimately show ?case
    using utf8_next_point [OF p(1), of rest] by (subst utf8_decode.simps) (simp add: p(3))
qed

lemma utf8_encode_ascii: "\<forall>c \<in> set cs. c < 128 \<Longrightarrow> utf8_encode cs = return (map of_nat cs)"
  by (induction cs) (simp_all add: utf8_point_def)

end
