(* ===== verification/Serialization.thy ===== *)
theory Serialization
  imports Utf8 Sockets Peers
begin

unbundle bit_operations_syntax

text \<open>
  The serializer (\<^verbatim>\<open>ipv8/messaging/serialization.py\<close>) and the payload classes built on it
  (\<^verbatim>\<open>ipv8/messaging/lazy_payload.py\<close>): the packers for single fields, the registry of formats,
  packing and unpacking of whole payloads with nested payloads and lists of them.
\<close>

section \<open>Python values\<close>

text \<open>
  The values payload fields hold. A float is its IEEE 754 double pattern; an address is a
  named tuple of a host and a port; an object is an instance of a payload class with the
  values of its fields in the order of its names. A payload class is its name and its
  format list, whose entries are format names, classes or lists of one class.
\<close>

datatype fmt = Fmt string | FmtClass pclass | FmtList pclass
  and pclass = PClass (class_name: string) (format_list: "fmt list")

datatype pyval =
    PInt int
  | PBool bool
  | PFloat "64 word"
  | PBytes bytes
  | PStr unicode
  | PAddr address_class unicode int
  | PTuple "pyval list"
  | PList "pyval list"
  | PObj pclass "pyval list"

definition truthy :: "pyval \<Rightarrow> bool" where
  "truthy v =
     (case v of
        PInt i \<Rightarrow> i \<noteq> 0 | PBool b \<Rightarrow> b | PFloat w \<Rightarrow> w \<noteq> 0 \<and> w \<noteq> push_bit 63 1
      | PBytes b \<Rightarrow> b \<noteq> [] | PStr s \<Rightarrow> s \<noteq> [] | PAddr _ _ _ \<Rightarrow> True
      | PTuple xs \<Rightarrow> xs \<noteq> [] | PList xs \<Rightarrow> xs \<noteq> [] | PObj _ _ \<Rightarrow> True)"

definition as_int :: "pyval \<Rightarrow> int option" where
  "as_int v = (case v of PInt i \<Rightarrow> Some i | PBool b \<Rightarrow> Some (of_bool b) | _ \<Rightarrow> None)"

section \<open>The struct module\<close>

text \<open>
  The field types the formats use: \<^verbatim>\<open>?\<close>, the unsigned \<^verbatim>\<open>B H I L Q\<close>, the signed \<^verbatim>\<open>l q\<close>, \<^verbatim>\<open>c\<close>,
  byte strings \<^verbatim>\<open>4s\<close>, and \<^verbatim>\<open>d\<close>; all formats but one family are big-endian and unaligned.
  The single-precision \<^verbatim>\<open>f\<close> rounds, and no payload of the program uses it: it is a field
  that cannot be packed or unpacked here.
\<close>

datatype sfield = SBool | SUInt nat | SInt nat | SChar | SBytes nat | SDouble | SFloat

fun sfield_size :: "sfield \<Rightarrow> nat" where
  "sfield_size SBool = 1"
| "sfield_size (SUInt n) = n"
| "sfield_size (SInt n) = n"
| "sfield_size SChar = 1"
| "sfield_size (SBytes n) = n"
| "sfield_size SDouble = 8"
| "sfield_size SFloat = 4"

text \<open>The double nearest to an integer, ties to even; integers beyond the range overflow.\<close>

fun bit_length :: "nat \<Rightarrow> nat" where
  "bit_length n = (if n = 0 then 0 else Suc (bit_length (n div 2)))"

declare bit_length.simps [simp del]

definition round_to_53 :: "nat \<Rightarrow> nat \<times> nat" where
  "round_to_53 n =
     (let k = bit_length n
      in if k \<le> 53 then (n * 2 ^ (53 - k), k)
         else
           let s = k - 53; q = n div 2 ^ s; r = n mod 2 ^ s;
               q' = (if r > 2 ^ (s - 1) \<or> r = 2 ^ (s - 1) \<and> odd q then Suc q else q)
           in if q' = 2 ^ 53 then (2 ^ 52, Suc k) else (q', k))"

definition float_of_int :: "int \<Rightarrow> 64 word result" where
  "float_of_int i =
     (if i = 0 then return 0
      else
        let (m, k) = round_to_53 (nat \<bar>i\<bar>)
        in if k > 1024 then raise OverflowError
           else return (of_nat ((if i < 0 then 2 ^ 63 else 0) + (k + 1022) * 2 ^ 52 + (m - 2 ^ 52))))"

definition pack_double :: "pyval \<Rightarrow> bytes result" where
  "pack_double v =
     (case v of
        PFloat w \<Rightarrow> return (bytes_of_nat 8 (unat w))
      | _ \<Rightarrow>
          (case as_int v of
             Some i \<Rightarrow> bind_result (float_of_int i) (\<lambda>w. return (bytes_of_nat 8 (unat w)))
           | None \<Rightarrow> raise StructError))"

definition pack_sfield :: "sfield \<Rightarrow> pyval \<Rightarrow> bytes result" where
  "pack_sfield f v =
     (case f of
        SBool \<Rightarrow> return [if truthy v then 1 else 0]
      | SUInt n \<Rightarrow>
          (case as_int v of
             Some i \<Rightarrow> if 0 \<le> i \<and> i < 256 ^ n then return (bytes_of_nat n (nat i)) else raise StructError
           | None \<Rightarrow> raise StructError)
      | SInt n \<Rightarrow>
          (case as_int v of
             Some i \<Rightarrow>
               if - (256 ^ n div 2) \<le> i \<and> i < 256 ^ n div 2
               then return (bytes_of_nat n (nat (i mod 256 ^ n))) else raise StructError
           | None \<Rightarrow> raise StructError)
      | SChar \<Rightarrow> (case v of PBytes [b] \<Rightarrow> return [b] | _ \<Rightarrow> raise StructError)
      | SBytes n \<Rightarrow>
          (case v of PBytes b \<Rightarrow> return (take n b @ replicate (n - length b) 0) | _ \<Rightarrow> raise StructError)
      | SDouble \<Rightarrow> pack_double v
      | SFloat \<Rightarrow> raise StructError)"

definition unpack_sfield :: "sfield \<Rightarrow> bytes \<Rightarrow> pyval result" where
  "unpack_sfield f b =
     (case f of
        SBool \<Rightarrow> return (PBool (b \<noteq> [0]))
      | SUInt n \<Rightarrow> return (PInt (int (nat_of_bytes b)))
      | SInt n \<Rightarrow>
          (let x = int (nat_of_bytes b) in return (PInt (if x < 256 ^ n div 2 then x else x - 256 ^ n)))
      | SChar \<Rightarrow> return (PBytes b)
      | SBytes n \<Rightarrow> return (PBytes b)
      | SDouble \<Rightarrow> return (PFloat (of_nat (nat_of_bytes b)))
      | SFloat \<Rightarrow> raise StructError)"

definition struct_size :: "sfield list \<Rightarrow> nat" where
  "struct_size fs = sum_list (map sfield_size fs)"

fun pack_struct :: "sfield list \<Rightarrow> pyval list \<Rightarrow> bytes result" where
  "pack_struct [] [] = return []"
| "pack_struct (f # fs) (v # vs) =
     bind_result (pack_sfield f v) (\<lambda>b. bind_result (pack_struct fs vs) (\<lambda>bs. return (b @ bs)))"
| "pack_struct _ _ = raise StructError"

fun unpack_fields :: "sfield list \<Rightarrow> bytes \<Rightarrow> pyval list result" where
  "unpack_fields [] b = return []"
| "unpack_fields (f # fs) b =
     bind_result (unpack_sfield f (take (sfield_size f) b)) (\<lambda>v.
       bind_result (unpack_fields fs (drop (sfield_size f) b)) (\<lambda>vs. return (v # vs)))"

text \<open>\<^verbatim>\<open>unpack_from\<close> needs the whole structure to be in the buffer.\<close>

definition unpack_from :: "sfield list \<Rightarrow> bytes \<Rightarrow> nat \<Rightarrow> pyval list result" where
  "unpack_from fs data off =
     (if length data < off + struct_size fs then raise StructError
      else unpack_fields fs (take (struct_size fs) (drop off data)))"

text \<open>
  A length prefix: its byte order and its size. The array formats use the machine's own
  order, taken to be little-endian.
\<close>

datatype lenfmt = BigLen nat | NativeLen nat

fun len_size :: "lenfmt \<Rightarrow> nat" where
  "len_size (BigLen n) = n" | "len_size (NativeLen n) = n"

definition pack_len :: "lenfmt \<Rightarrow> nat \<Rightarrow> bytes result" where
  "pack_len l v =
     (if v < 256 ^ len_size l
      then return (case l of BigLen n \<Rightarrow> bytes_of_nat n v | NativeLen n \<Rightarrow> rev (bytes_of_nat n v))
      else raise StructError)"

definition unpack_len :: "lenfmt \<Rightarrow> bytes \<Rightarrow> nat \<Rightarrow> nat result" where
  "unpack_len l data off =
     (if length data < off + len_size l then raise StructError
      else
        let b = take (len_size l) (drop off data)
        in return (nat_of_bytes (case l of BigLen n \<Rightarrow> b | NativeLen n \<Rightarrow> rev b)))"

section \<open>Packers\<close>

text \<open>
  The packer classes. \<open>Custom\<close> is any other packer registered with \<^verbatim>\<open>add_packer\<close>, given by
  its two methods.
\<close>

datatype array_item = ArrayBool | ArrayLong | ArrayDouble

datatype packer =
    NestedPayload
  | Bits
  | Raw
  | VarLen lenfmt nat
  | VarLenUtf8 lenfmt
  | IPv4
  | AddressPacker bool
  | ListOf packer lenfmt
  | DefaultArray array_item lenfmt
  | DefaultStruct "sfield list"
  | Custom "pyval \<Rightarrow> bytes result" "bytes \<Rightarrow> nat \<Rightarrow> (pyval \<times> nat) result"

type_synonym serializer = "(string, packer) dict"

definition lookup_packer :: "serializer \<Rightarrow> string \<Rightarrow> packer result" where
  "lookup_packer ser name = (case dict_get ser name of None \<Rightarrow> raise KeyError | Some p \<Rightarrow> return p)"

subsection \<open>Bits\<close>

definition bit_flag :: "byte \<Rightarrow> bool \<Rightarrow> byte" where
  "bit_flag m b = (if b then m else 0)"

definition pack_bits :: "pyval list \<Rightarrow> bytes result" where
  "pack_bits vs =
     (if length vs < 8 then raise IndexError
      else
        let d = (\<lambda>i. truthy (vs ! i))
        in return [bit_flag 0x80 (d 0) OR bit_flag 0x40 (d 1) OR bit_flag 0x20 (d 2) OR bit_flag 0x10 (d 3) OR
                   bit_flag 0x08 (d 4) OR bit_flag 0x04 (d 5) OR bit_flag 0x02 (d 6) OR bit_flag 0x01 (d 7)])"

definition unpack_bits :: "bytes \<Rightarrow> nat \<Rightarrow> (pyval list \<times> nat) result" where
  "unpack_bits data off =
     (if length data < off + 1 then raise StructError
      else
        let b = data ! off
        in return (map (\<lambda>m. PInt (if m AND b \<noteq> 0 then 1 else 0))
                     [0x80, 0x40, 0x20, 0x10, 0x08, 0x04, 0x02, 0x01], off + 1))"

subsection \<open>Addresses\<close>

text \<open>
  A string argument of the socket functions must have no null character; text outside
  ASCII is never an address.
\<close>

definition host_text :: "unicode \<Rightarrow> string result" where
  "host_text u =
     (if 0 \<in> set u then raise ValueError
      else if \<exists>c \<in> set u. utf8_point c = None then raise UnicodeError
      else return (if \<forall>c \<in> set u. c < 128 then map char_of u else ''?''))"

definition socket_call :: "(string \<Rightarrow> bytes option) \<Rightarrow> pyval \<Rightarrow> bytes result" where
  "socket_call f v =
     (case v of
        PStr u \<Rightarrow>
          bind_result (host_text u) (\<lambda>s. case f s of None \<Rightarrow> raise OSError | Some b \<Rightarrow> return b)
      | _ \<Rightarrow> raise TypeError)"

definition address_item :: "pyval \<Rightarrow> nat \<Rightarrow> pyval result" where
  "address_item v i =
     (case v of
        PAddr c h p \<Rightarrow> return (if i = 0 then PStr h else PInt p)
      | PTuple xs \<Rightarrow> if i < length xs then return (xs ! i) else raise IndexError
      | PList xs \<Rightarrow> if i < length xs then return (xs ! i) else raise IndexError
      | PBytes b \<Rightarrow> if i < length b then return (PInt (int (unat (b ! i)))) else raise IndexError
      | PStr s \<Rightarrow> if i < length s then return (PStr [s ! i]) else raise IndexError
      | _ \<Rightarrow> raise TypeError)"

definition pack_ipv4 :: "pyval \<Rightarrow> bytes result" where
  "pack_ipv4 v =
     bind_result (address_item v 0) (\<lambda>h.
       bind_result (socket_call inet_aton h) (\<lambda>b.
         bind_result (address_item v 1) (\<lambda>p. pack_struct [SBytes 4, SUInt 2] [PBytes b, p])))"

text \<open>The pair a structure of a byte string and a number unpacks to.\<close>

fun host_port :: "pyval list \<Rightarrow> (bytes \<times> int) result" where
  "host_port [PBytes b, PInt p] = return (b, p)"
| "host_port _ = raise StructError"

definition unpack_ipv4 :: "bytes \<Rightarrow> nat \<Rightarrow> (pyval list \<times> nat) result" where
  "unpack_ipv4 data off =
     bind_result (bind_result (unpack_from [SBytes 4, SUInt 2] data off) host_port) (\<lambda>(b, p).
       return ([PAddr UDPv4Address (ustr (inet_ntoa b)) p], off + 6))"

definition ADDRESS_TYPE_IPV4 :: int where "ADDRESS_TYPE_IPV4 = 1"
definition ADDRESS_TYPE_DOMAIN_NAME :: int where "ADDRESS_TYPE_DOMAIN_NAME = 2"
definition ADDRESS_TYPE_IPV6 :: int where "ADDRESS_TYPE_IPV6 = 3"

text \<open>\<^verbatim>\<open>with suppress(OSError)\<close>: only that error goes on to the next form of address.\<close>

definition suppress_os_error :: "'a result \<Rightarrow> 'a result \<Rightarrow> 'a result" where
  "suppress_os_error r next = (case r of Inl OSError \<Rightarrow> next | _ \<Rightarrow> r)"

definition pack_host :: "pyval \<Rightarrow> pyval \<Rightarrow> bytes result" where
  "pack_host h p =
     (case h of
        PStr u \<Rightarrow>
          bind_result (utf8_encode u) (\<lambda>b.
            pack_struct [SUInt 1, SUInt 2, SBytes (length b), SUInt 2]
              [PInt ADDRESS_TYPE_DOMAIN_NAME, PInt (int (length b)), PBytes b, p])
      | _ \<Rightarrow> raise AttributeError)"

definition pack_address :: "bool \<Rightarrow> pyval \<Rightarrow> bytes result" where
  "pack_address ip_only v =
     bind_result (address_item v 0) (\<lambda>h.
       suppress_os_error
         (bind_result (socket_call inet_pton4 h) (\<lambda>b. bind_result (address_item v 1) (\<lambda>p.
            pack_struct [SUInt 1, SBytes 4, SUInt 2] [PInt ADDRESS_TYPE_IPV4, PBytes b, p])))
         (suppress_os_error
            (bind_result (socket_call inet_pton6 h) (\<lambda>b. bind_result (address_item v 1) (\<lambda>p.
               pack_struct [SUInt 1, SBytes 16, SUInt 2] [PInt ADDRESS_TYPE_IPV6, PBytes b, p])))
            (if ip_only then raise PackError
             else bind_result (address_item v 1) (\<lambda>p. pack_host h p))))"

definition unpack_address :: "bool \<Rightarrow> bytes \<Rightarrow> nat \<Rightarrow> (pyval list \<times> nat) result" where
  "unpack_address ip_only data off =
     bind_result (unpack_from [SUInt 1] data off) (\<lambda>t.
       if t = [PInt ADDRESS_TYPE_IPV4] then
         bind_result (bind_result (unpack_from [SBytes 4, SUInt 2] data (off + 1)) host_port) (\<lambda>(b, p).
           return ([PAddr UDPv4Address (ustr (inet_ntop4 b)) p], off + 7))
       else if t = [PInt ADDRESS_TYPE_IPV6] then
         bind_result (bind_result (unpack_from [SBytes 16, SUInt 2] data (off + 1)) host_port) (\<lambda>(b, p).
           return ([PAddr UDPv6Address (ustr (inet_ntop6 b)) p], off + 19))
       else if \<not> ip_only \<and> t = [PInt ADDRESS_TYPE_DOMAIN_NAME] then
         bind_result (unpack_len (BigLen 2) data (off + 1)) (\<lambda>n.
           bind_result (utf8_decode (take n (drop (off + 3) data))) (\<lambda>host.
             bind_result (unpack_len (BigLen 2) data (off + 3 + n)) (\<lambda>p.
               return ([PAddr DomainAddress host (int p)], off + 5 + n))))
       else raise PackError)"

subsection \<open>Strings and arrays\<close>

definition pack_varlen :: "lenfmt \<Rightarrow> nat \<Rightarrow> bytes \<Rightarrow> bytes result" where
  "pack_varlen l base b = bind_result (pack_len l (length b div base)) (\<lambda>h. return (h @ b))"

text \<open>The slice of the data may be shorter than the length says; nothing checks that.\<close>

definition unpack_varlen :: "lenfmt \<Rightarrow> nat \<Rightarrow> bytes \<Rightarrow> nat \<Rightarrow> (bytes \<times> nat) result" where
  "unpack_varlen l base data off =
     bind_result (unpack_len l data off) (\<lambda>n.
       let str_length = n * base
       in return (take str_length (drop (off + len_size l) data), off + len_size l + str_length))"

fun item_size :: "array_item \<Rightarrow> nat" where
  "item_size ArrayBool = 1" | "item_size ArrayLong = 8" | "item_size ArrayDouble = 8"

definition pack_array_item :: "array_item \<Rightarrow> pyval \<Rightarrow> bytes result" where
  "pack_array_item k v =
     (case k of
        ArrayBool \<Rightarrow>
          (case as_int v of
             Some i \<Rightarrow> if 0 \<le> i \<and> i < 256 then return [of_int i] else raise OverflowError
           | None \<Rightarrow> raise TypeError)
      | ArrayLong \<Rightarrow>
          (case as_int v of
             Some i \<Rightarrow>
               if - (2 ^ 63) \<le> i \<and> i < 2 ^ 63 then return (rev (bytes_of_nat 8 (nat (i mod 2 ^ 64))))
               else raise OverflowError
           | None \<Rightarrow> raise TypeError)
      | ArrayDouble \<Rightarrow>
          (case pack_double v of
             Inr b \<Rightarrow> return (rev b)
           | Inl e \<Rightarrow> raise (if e = StructError then TypeError else e)))"

definition unpack_array_item :: "array_item \<Rightarrow> bytes \<Rightarrow> pyval" where
  "unpack_array_item k b =
     (let x = nat_of_bytes (rev b)
      in case k of
           ArrayBool \<Rightarrow> PBool (x \<noteq> 0)
         | ArrayLong \<Rightarrow> PInt (if x < 2 ^ 63 then int x else int x - 2 ^ 64)
         | ArrayDouble \<Rightarrow> PFloat (of_nat x))"

definition pack_array :: "array_item \<Rightarrow> lenfmt \<Rightarrow> pyval \<Rightarrow> bytes result" where
  "pack_array k l v =
     (case v of
        PList xs \<Rightarrow>
          bind_result (pack_len l (length xs)) (\<lambda>h.
            bind_result (map_result (pack_array_item k) xs) (\<lambda>bs. return (h @ concat bs)))
      | _ \<Rightarrow> raise TypeError)"

fun chunks :: "nat \<Rightarrow> nat \<Rightarrow> 'a list \<Rightarrow> 'a list list" where
  "chunks n 0 xs = []"
| "chunks n (Suc k) xs = take n xs # chunks n k (drop n xs)"

definition unpack_array :: "array_item \<Rightarrow> lenfmt \<Rightarrow> bytes \<Rightarrow> nat \<Rightarrow> (pyval list \<times> nat) result" where
  "unpack_array k l data off =
     bind_result (unpack_len l data off) (\<lambda>n.
       let str_length = n * item_size k;
           b = take str_length (drop (off + len_size l) data)
       in if length b mod item_size k \<noteq> 0 then raise ValueError
          else return ([PList (map (unpack_array_item k) (chunks (item_size k) (length b div item_size k) b))],
                       off + len_size l + str_length))"

section \<open>Packing\<close>

text \<open>The pack list of a payload: each format with its values, eight of them for \<^verbatim>\<open>bits\<close>.\<close>

definition to_packlist_fmt :: "fmt \<Rightarrow> string" where
  "to_packlist_fmt f = (case f of Fmt s \<Rightarrow> s | FmtList _ \<Rightarrow> ''payload-list'' | FmtClass _ \<Rightarrow> ''payload'')"

definition fmt_arity :: "fmt \<Rightarrow> nat" where
  "fmt_arity f = (if f = Fmt ''bits'' then 8 else 1)"

fun to_pack_list :: "fmt list \<Rightarrow> pyval list \<Rightarrow> (string \<times> pyval list) list" where
  "to_pack_list [] vs = []"
| "to_pack_list (f # fs) vs = (to_packlist_fmt f, take (fmt_arity f) vs) # to_pack_list fs (drop (fmt_arity f) vs)"

lemma to_pack_list_size: "sum_list (map (\<lambda>x. size_list size (snd x)) (to_pack_list fs vs)) \<le> size_list size vs"
proof (induction fs arbitrary: vs)
  case (Cons f fs)
  have "size_list size (take n ws) + size_list size (drop n ws) = size_list size ws" for n and ws :: "pyval list"
    by (metis append_take_drop_id size_list_append)
  with Cons [of "drop (fmt_arity f) vs"] show ?case
    by simp (metis add_left_mono)
qed simp

text \<open>
  \<^verbatim>\<open>pack\<close> of each packer, on the arguments that follow the format name in a pack list, and
  \<^verbatim>\<open>pack_serializable\<close>. A wrong number of arguments is a \<^verbatim>\<open>TypeError\<close> except for \<^verbatim>\<open>Bits\<close> and
  \<^verbatim>\<open>DefaultStruct\<close>, which take any number; every exception while packing a field of a payload
  becomes a \<^verbatim>\<open>PackError\<close>.
\<close>

definition as_pack_error :: "'a result \<Rightarrow> 'a result" where
  "as_pack_error r = (case r of Inl _ \<Rightarrow> raise PackError | Inr x \<Rightarrow> return x)"

definition pack_simple :: "packer \<Rightarrow> pyval \<Rightarrow> bytes result" where
  "pack_simple p v =
     (case p of
        Raw \<Rightarrow> (case v of PBytes b \<Rightarrow> return b | _ \<Rightarrow> raise TypeError)
      | VarLen l base \<Rightarrow> (case v of PBytes b \<Rightarrow> pack_varlen l base b | _ \<Rightarrow> raise TypeError)
      | VarLenUtf8 l \<Rightarrow>
          (case v of PStr s \<Rightarrow> bind_result (utf8_encode s) (pack_varlen l 1) | _ \<Rightarrow> raise AttributeError)
      | IPv4 \<Rightarrow> pack_ipv4 v
      | AddressPacker ip_only \<Rightarrow> pack_address ip_only v
      | DefaultArray k l \<Rightarrow> pack_array k l v
      | Custom f _ \<Rightarrow> f v
      | _ \<Rightarrow> raise TypeError)"

function pack_item :: "serializer \<Rightarrow> packer \<Rightarrow> pyval list \<Rightarrow> bytes result"
  and pack_items :: "serializer \<Rightarrow> packer \<Rightarrow> pyval list \<Rightarrow> bytes result"
  and pack_fields :: "serializer \<Rightarrow> (string \<times> pyval list) list \<Rightarrow> bytes result" where
  "pack_item ser p vs =
     (case p of
        Bits \<Rightarrow> pack_bits vs
      | DefaultStruct fs \<Rightarrow> pack_struct fs vs
      | NestedPayload \<Rightarrow>
          (case vs of
             [PObj c ws] \<Rightarrow>
               bind_result (pack_fields ser (to_pack_list (format_list c) ws)) (\<lambda>data.
                 bind_result (pack_len (BigLen 2) (length data)) (\<lambda>h. return (h @ data)))
           | [_] \<Rightarrow> raise AttributeError
           | _ \<Rightarrow> raise TypeError)
      | ListOf q l \<Rightarrow>
          (case vs of
             [PList ws] \<Rightarrow>
               bind_result (pack_len l (length ws)) (\<lambda>h.
                 bind_result (pack_items ser q ws) (\<lambda>b. return (h @ b)))
           | [PTuple ws] \<Rightarrow>
               bind_result (pack_len l (length ws)) (\<lambda>h.
                 bind_result (pack_items ser q ws) (\<lambda>b. return (h @ b)))
           | _ \<Rightarrow> raise TypeError)
      | _ \<Rightarrow> (case vs of [v] \<Rightarrow> pack_simple p v | _ \<Rightarrow> raise TypeError))"
| "pack_items ser p [] = return []"
| "pack_items ser p (v # vs) =
     bind_result (pack_item ser p [v]) (\<lambda>b. bind_result (pack_items ser p vs) (\<lambda>bs. return (b @ bs)))"
| "pack_fields ser [] = return []"
| "pack_fields ser ((name, vs) # rest) =
     bind_result (as_pack_error (bind_result (lookup_packer ser name) (\<lambda>p. pack_item ser p vs))) (\<lambda>b.
       bind_result (pack_fields ser rest) (\<lambda>bs. return (b @ bs)))"
  by pat_completeness auto
termination
proof (relation "measures
    [\<lambda>x. case x of
        Inl (_, _, vs) \<Rightarrow> size_list size vs
      | Inr (Inl (_, _, vs)) \<Rightarrow> size_list size vs
      | Inr (Inr (_, xs)) \<Rightarrow> sum_list (map (\<lambda>x. size_list size (snd x)) xs),
     \<lambda>x. case x of Inl _ \<Rightarrow> 0 | Inr (Inl (_, _, vs)) \<Rightarrow> 1 | Inr (Inr (_, xs)) \<Rightarrow> Suc (length xs)]", goal_cases)
  case (2 ser p vs x xs c ws)
  then show ?case using to_pack_list_size [of "format_list c" ws] by simp
qed (auto, fastforce)

declare pack_item.simps [simp del]

text \<open>A sequence to pack is a list or a tuple; any other argument of \<open>ListOf\<close> is an error here.\<close>

definition pack_serializable :: "serializer \<Rightarrow> pyval \<Rightarrow> bytes result" where
  "pack_serializable ser v =
     (case v of PObj c vs \<Rightarrow> pack_fields ser (to_pack_list (format_list c) vs) | _ \<Rightarrow> raise AttributeError)"

definition pack_serializable_list :: "serializer \<Rightarrow> pyval list \<Rightarrow> bytes result" where
  "pack_serializable_list ser vs =
     bind_result (map_result (pack_serializable ser) vs) (\<lambda>bs. return (concat bs))"

definition serializer_pack :: "serializer \<Rightarrow> string \<Rightarrow> pyval \<Rightarrow> bytes result" where
  "serializer_pack ser name v = bind_result (lookup_packer ser name) (\<lambda>p. pack_item ser p [v])"

section \<open>Unpacking\<close>

text \<open>
  \<^verbatim>\<open>unpack\<close> of each packer: the values it appends to the list and the new offset. The class
  argument of \<^verbatim>\<open>NestedPayload\<close> is given by the function that unpacks that class from a whole
  buffer, or is missing.
\<close>

fun repeat_unpack :: "(nat \<Rightarrow> (pyval list \<times> nat) result) \<Rightarrow> nat \<Rightarrow> nat \<Rightarrow> (pyval list \<times> nat) result" where
  "repeat_unpack step 0 off = return ([], off)"
| "repeat_unpack step (Suc n) off =
     bind_result (step off) (\<lambda>(vs, off').
       bind_result (repeat_unpack step n off') (\<lambda>(ws, off''). return (vs @ ws, off'')))"

fun unpack_item ::
  "(bytes \<Rightarrow> pyval result) option \<Rightarrow> packer \<Rightarrow> bytes \<Rightarrow> nat \<Rightarrow> (pyval list \<times> nat) result" where
  "unpack_item cls NestedPayload data off =
     bind_result (unpack_len (BigLen 2) data off) (\<lambda>n.
       case cls of
         None \<Rightarrow> raise IndexError
       | Some u \<Rightarrow>
           bind_result (u (take n (drop (off + 2) data))) (\<lambda>v. return ([v], off + 2 + n)))"
| "unpack_item cls Bits data off = unpack_bits data off"
| "unpack_item cls Raw data off = return ([PBytes (drop off data)], length data)"
| "unpack_item cls (VarLen l base) data off =
     bind_result (unpack_varlen l base data off) (\<lambda>(b, off'). return ([PBytes b], off'))"
| "unpack_item cls (VarLenUtf8 l) data off =
     bind_result (unpack_varlen l 1 data off) (\<lambda>(b, off').
       bind_result (utf8_decode b) (\<lambda>s. return ([PStr s], off')))"
| "unpack_item cls IPv4 data off = unpack_ipv4 data off"
| "unpack_item cls (AddressPacker ip_only) data off = unpack_address ip_only data off"
| "unpack_item cls (ListOf p l) data off =
     bind_result (unpack_len l data off) (\<lambda>n.
       bind_result (repeat_unpack (unpack_item cls p data) n (off + len_size l)) (\<lambda>(vs, off').
         return ([PList vs], off')))"
| "unpack_item cls (DefaultArray k l) data off = unpack_array k l data off"
| "unpack_item cls (DefaultStruct fs) data off =
     bind_result (unpack_from fs data off) (\<lambda>vs.
       return ([if length vs > 1 then PTuple vs else hd vs], off + struct_size fs))"
| "unpack_item cls (Custom f g) data off = bind_result (g data off) (\<lambda>(v, off'). return ([v], off'))"

text \<open>
  \<^verbatim>\<open>unpack_serializable\<close>. A format name that is not registered makes \<^verbatim>\<open>issubclass\<close> raise
  \<^verbatim>\<open>TypeError\<close>, as does a packer that raises \<^verbatim>\<open>KeyError\<close>; a \<^verbatim>\<open>TypeError\<close> is raised again;
  any other exception of a named format becomes a \<^verbatim>\<open>PackError\<close>. Classes and lists of classes
  are unpacked inside the exception handlers, so their errors come through as they are.
  The constructor takes as many arguments as the class has names.
\<close>

definition named_error :: "'a result \<Rightarrow> 'a result" where
  "named_error r =
     (case r of
        Inl e \<Rightarrow> raise (if e = KeyError \<or> e = TypeError then TypeError else PackError)
      | Inr x \<Rightarrow> return x)"

definition from_unpack_list :: "pclass \<Rightarrow> pyval list \<Rightarrow> pyval result" where
  "from_unpack_list c vs =
     (if length vs = sum_list (map fmt_arity (format_list c)) then return (PObj c vs) else raise TypeError)"

fun unpack_fmt :: "serializer \<Rightarrow> fmt \<Rightarrow> bytes \<Rightarrow> nat \<Rightarrow> (pyval list \<times> nat) result"
  and unpack_fmts :: "serializer \<Rightarrow> fmt list \<Rightarrow> bytes \<Rightarrow> nat \<Rightarrow> (pyval list \<times> nat) result"
  and unpack_class :: "serializer \<Rightarrow> pclass \<Rightarrow> bytes \<Rightarrow> nat \<Rightarrow> (pyval \<times> nat) result" where
  "unpack_fmt ser (Fmt name) data off =
     named_error (bind_result (lookup_packer ser name) (\<lambda>p. unpack_item None p data off))"
| "unpack_fmt ser (FmtClass c) data off =
     bind_result (lookup_packer ser ''payload'') (\<lambda>p.
       unpack_item (Some (\<lambda>d. bind_result (unpack_class ser c d 0) (\<lambda>(v, _). return v))) p data off)"
| "unpack_fmt ser (FmtList c) data off =
     bind_result (lookup_packer ser ''payload-list'') (\<lambda>p.
       unpack_item (Some (\<lambda>d. bind_result (unpack_class ser c d 0) (\<lambda>(v, _). return v))) p data off)"
| "unpack_fmts ser [] data off = return ([], off)"
| "unpack_fmts ser (f # fs) data off =
     bind_result (unpack_fmt ser f data off) (\<lambda>(vs, off').
       bind_result (unpack_fmts ser fs data off') (\<lambda>(ws, off''). return (vs @ ws, off'')))"
| "unpack_class ser (PClass name fs) data off =
     bind_result (unpack_fmts ser fs data off) (\<lambda>(vs, off').
       bind_result (from_unpack_list (PClass name fs) vs) (\<lambda>v. return (v, off')))"

definition unpack_serializable :: "serializer \<Rightarrow> pclass \<Rightarrow> bytes \<Rightarrow> nat \<Rightarrow> (pyval \<times> nat) result" where
  "unpack_serializable = unpack_class"

text \<open>\<^verbatim>\<open>unpack_serializable_list\<close>: with \<^verbatim>\<open>consume_all\<close>, bytes left over are an error.\<close>

fun unpack_all :: "serializer \<Rightarrow> pclass list \<Rightarrow> bytes \<Rightarrow> nat \<Rightarrow> (pyval list \<times> nat) result" where
  "unpack_all ser [] data off = return ([], off)"
| "unpack_all ser (c # cs) data off =
     bind_result (unpack_serializable ser c data off) (\<lambda>(v, off').
       bind_result (unpack_all ser cs data off') (\<lambda>(vs, off''). return (v # vs, off'')))"

definition unpack_serializable_list ::
  "serializer \<Rightarrow> pclass list \<Rightarrow> bytes \<Rightarrow> nat \<Rightarrow> bool \<Rightarrow> pyval list result" where
  "unpack_serializable_list ser cs data off consume_all =
     bind_result (unpack_all ser cs data off) (\<lambda>(vs, off').
       let remainder = drop off' data
       in if \<not> consume_all then return (vs @ [PBytes remainder])
          else if remainder \<noteq> [] then raise PackError
          else return vs)"

definition serializer_unpack :: "serializer \<Rightarrow> fmt \<Rightarrow> bytes \<Rightarrow> nat \<Rightarrow> (pyval \<times> nat) result" where
  "serializer_unpack ser f data off =
     (let nested = (\<lambda>c. Some (\<lambda>d. bind_result (unpack_class ser c d 0) (\<lambda>(v, _). return v)));
          r = (case f of
                 Fmt name \<Rightarrow> bind_result (lookup_packer ser name) (\<lambda>p. unpack_item None p data off)
               | FmtList c \<Rightarrow> bind_result (lookup_packer ser ''payload-list'') (\<lambda>p. unpack_item (nested c) p data off)
               | FmtClass c \<Rightarrow> bind_result (lookup_packer ser ''payload'') (\<lambda>p. unpack_item (nested c) p data off))
      in bind_result r (\<lambda>(vs, off'). return (hd vs, off')))"

section \<open>The registry of formats\<close>

definition default_packers :: serializer where
  "default_packers =
     [(''?'', DefaultStruct [SBool]),
      (''B'', DefaultStruct [SUInt 1]),
      (''BBH'', DefaultStruct [SUInt 1, SUInt 1, SUInt 2]),
      (''BH'', DefaultStruct [SUInt 1, SUInt 2]),
      (''c'', DefaultStruct [SChar]),
      (''f'', DefaultStruct [SFloat]),
      (''d'', DefaultStruct [SDouble]),
      (''H'', DefaultStruct [SUInt 2]),
      (''HH'', DefaultStruct [SUInt 2, SUInt 2]),
      (''I'', DefaultStruct [SUInt 4]),
      (''l'', DefaultStruct [SInt 4]),
      (''LL'', DefaultStruct [SUInt 4, SUInt 4]),
      (''q'', DefaultStruct [SInt 8]),
      (''Q'', DefaultStruct [SUInt 8]),
      (''QH'', DefaultStruct [SUInt 8, SUInt 2]),
      (''QL'', DefaultStruct [SUInt 8, SUInt 4]),
      (''QQHHBH'', DefaultStruct [SUInt 8, SUInt 8, SUInt 2, SUInt 2, SUInt 1, SUInt 2]),
      (''ccB'', DefaultStruct [SChar, SChar, SUInt 1]),
      (''4SH'', DefaultStruct [SBytes 4, SUInt 2]),
      (''20s'', DefaultStruct [SBytes 20]),
      (''32s'', DefaultStruct [SBytes 32]),
      (''64s'', DefaultStruct [SBytes 64]),
      (''74s'', DefaultStruct [SBytes 74]),
      (''c20s'', DefaultStruct [SChar, SBytes 20]),
      (''bits'', Bits),
      (''ipv4'', IPv4),
      (''ip_address'', AddressPacker True),
      (''address'', AddressPacker False),
      (''raw'', Raw),
      (''varlenBx2'', VarLen (BigLen 1) 2),
      (''varlenH'', VarLen (BigLen 2) 1),
      (''varlenHutf8'', VarLenUtf8 (BigLen 2)),
      (''varlenIutf8'', VarLenUtf8 (BigLen 4)),
      (''varlenHx20'', VarLen (BigLen 2) 20),
      (''varlenH-list'', ListOf (VarLen (BigLen 2) 1) (BigLen 1)),
      (''varlenI'', VarLen (BigLen 4) 1),
      (''doublevarlenH'', VarLen (BigLen 2) 1),
      (''payload'', NestedPayload),
      (''payload-list'', ListOf NestedPayload (BigLen 1)),
      (''arrayH-?'', DefaultArray ArrayBool (NativeLen 2)),
      (''arrayH-q'', DefaultArray ArrayLong (NativeLen 2)),
      (''arrayH-d'', DefaultArray ArrayDouble (NativeLen 2))]"

definition get_available_formats :: "serializer \<Rightarrow> string list" where
  "get_available_formats ser = dict_keys ser"

definition add_packer :: "string \<Rightarrow> packer \<Rightarrow> serializer \<Rightarrow> serializer" where
  "add_packer name p ser = dict_set name p ser"

end
