(* ===== verification/Roundtrip.thy ===== *)
theory Roundtrip
  imports Serialization
begin

text \<open>
  Why the serializer round-trips: the interface of a codec and its sequencing lemma, the laws of
  every packer, and their composition to formats, payload classes and lists of payloads.
\<close>

unbundle bit_operations_syntax

section \<open>Codecs\<close>

text \<open>
  What the serializer expects of a format: the bytes of valid values, found anywhere in a
  buffer, are read back to the same values, and the offset moves just past them. A format
  that reads to the end of the buffer is only good in front of nothing. The client lemma
  puts formats in sequence.
\<close>

fun seq_enc :: "('f \<Rightarrow> 'a list \<Rightarrow> bytes result) \<Rightarrow> ('f \<times> 'a list) list \<Rightarrow> bytes result" where
  "seq_enc enc [] = return []"
| "seq_enc enc (x # xs) =
     bind_result (enc (fst x) (snd x)) (\<lambda>b. bind_result (seq_enc enc xs) (\<lambda>bs. return (b @ bs)))"

fun seq_dec ::
  "('f \<Rightarrow> bytes \<Rightarrow> nat \<Rightarrow> ('a list \<times> nat) result) \<Rightarrow> 'f list \<Rightarrow> bytes \<Rightarrow> nat \<Rightarrow> ('a list \<times> nat) result" where
  "seq_dec dec [] data off = return ([], off)"
| "seq_dec dec (f # fs) data off =
     bind_result (dec f data off) (\<lambda>(vs, off').
       bind_result (seq_dec dec fs data off') (\<lambda>(ws, off''). return (vs @ ws, off'')))"

definition follows :: "bool \<Rightarrow> bytes \<Rightarrow> bool" where
  "follows delimited post \<longleftrightarrow> post = [] \<or> delimited"

lemma follows_simps [simp]: "follows True post" "follows d []" "follows False post \<longleftrightarrow> post = []"
  by (simp_all add: follows_def)

locale codec =
  fixes enc :: "'f \<Rightarrow> 'a list \<Rightarrow> bytes result"
    and dec :: "'f \<Rightarrow> bytes \<Rightarrow> nat \<Rightarrow> ('a list \<times> nat) result"
    and ok :: "'f \<Rightarrow> 'a list \<Rightarrow> bool"
    and delimited :: "'f \<Rightarrow> bool"
  assumes roundtrip:
    "ok f vs \<Longrightarrow> \<exists>bs. enc f vs = return bs \<and>
       (\<forall>pre post. follows (delimited f) post \<longrightarrow>
          dec f (pre @ bs @ post) (length pre) = return (vs, length pre + length bs))"
begin

lemma seq_roundtrip:
  assumes "\<forall>x \<in> set xs. ok (fst x) (snd x)" "\<forall>f \<in> set (butlast (map fst xs)). delimited f"
  shows "\<exists>bs. seq_enc enc xs = return bs \<and>
    (\<forall>pre post. follows (\<forall>f \<in> set (map fst xs). delimited f) post \<longrightarrow>
       seq_dec dec (map fst xs) (pre @ bs @ post) (length pre) =
         return (concat (map snd xs), length pre + length bs))"
  using assms
proof (induction xs)
  case (Cons x xs)
  obtain b where b: "enc (fst x) (snd x) = return b"
    and db: "\<And>pre post. follows (delimited (fst x)) post \<Longrightarrow>
      dec (fst x) (pre @ b @ post) (length pre) = return (snd x, length pre + length b)"
    using roundtrip [of "fst x" "snd x"] Cons.prems(1) by (metis list.set_intros(1))
  have "\<forall>f \<in> set (butlast (map fst xs)). delimited f"
    using Cons.prems(2) by (cases xs) auto
  moreover have "\<forall>x \<in> set xs. ok (fst x) (snd x)" using Cons.prems(1) by simp
  ultimately obtain bs where bs: "seq_enc enc xs = return bs"
    and dbs: "\<And>pre post. follows (\<forall>f \<in> set (map fst xs). delimited f) post \<Longrightarrow>
       seq_dec dec (map fst xs) (pre @ bs @ post) (length pre) =
         return (concat (map snd xs), length pre + length bs)"
    using Cons.IH by blast
  have "seq_dec dec (map fst (x # xs)) (pre @ (b @ bs) @ post) (length pre) =
      return (concat (map snd (x # xs)), length pre + length (b @ bs))"
    if post: "follows (\<forall>f \<in> set (map fst (x # xs)). delimited f) post" for pre post
  proof -
    have "follows (delimited (fst x)) (bs @ post)"
    proof (cases "xs = []")
      case True
      with bs post show ?thesis by (auto simp: follows_def)
    next
      case False
      with Cons.prems(2) show ?thesis by (cases xs) (auto simp: follows_def)
    qed
    from db [OF this] have 1: "dec (fst x) (pre @ b @ bs @ post) (length pre) = return (snd x, length pre + length b)" .
    have "follows (\<forall>f \<in> set (map fst xs). delimited f) post" using post by (auto simp: follows_def)
    from dbs [OF this, of "pre @ b"] 1 show ?thesis by (simp add: add.assoc)
  qed
  with b bs show ?case by (intro exI [of _ "b @ bs"]) simp
qed simp

text \<open>Repeating one delimited format.\<close>

lemma repeat_roundtrip:
  assumes "\<forall>v \<in> set vs. ok f [v]" "delimited f"
  shows "\<exists>bs. map_result (\<lambda>v. enc f [v]) vs = return bs \<and>
    (\<forall>pre post. seq_dec dec (replicate (length vs) f) (pre @ concat bs @ post) (length pre) =
       return (vs, length pre + length (concat bs)))"
proof -
  let ?xs = "map (\<lambda>v. (f, [v])) vs"
  have fst: "map fst ?xs = replicate (length vs) f" by (simp add: comp_def map_replicate_const)
  obtain bs where bs: "seq_enc enc ?xs = return bs"
    "\<And>pre post. seq_dec dec (replicate (length vs) f) (pre @ bs @ post) (length pre) =
       return (concat (map snd ?xs), length pre + length bs)"
  proof -
    have "\<forall>g \<in> set (butlast (replicate (length vs) f)). delimited g" "\<forall>g \<in> set (replicate (length vs) f). delimited g"
      using assms(2) by (auto dest: in_set_butlastD)
    moreover from this have "follows (\<forall>g \<in> set (replicate (length vs) f). delimited g) post" for post
      by (simp add: follows_def)
    moreover have "\<forall>x \<in> set ?xs. ok (fst x) (snd x)" using assms(1) by auto
    ultimately show ?thesis using seq_roundtrip [of ?xs, unfolded fst] that by blast
  qed
  have "\<exists>cs. map_result (\<lambda>v. enc f [v]) vs = return cs \<and> concat cs = bs"
    using bs(1) by (induction vs arbitrary: bs) (auto simp: bind_result_eq_Inr)
  moreover have "concat (map snd ?xs) = vs" by (induction vs) simp_all
  ultimately show ?thesis using bs(2) by auto
qed

end

section \<open>Fields\<close>

definition sfield_ok :: "sfield \<Rightarrow> pyval \<Rightarrow> bool" where
  "sfield_ok f v =
     (case f of
        SBool \<Rightarrow> (case v of PBool _ \<Rightarrow> True | _ \<Rightarrow> False)
      | SUInt n \<Rightarrow> (case v of PInt i \<Rightarrow> 0 \<le> i \<and> i < 256 ^ n | _ \<Rightarrow> False)
      | SInt n \<Rightarrow> (case v of PInt i \<Rightarrow> - (256 ^ n div 2) \<le> i \<and> i < 256 ^ n div 2 | _ \<Rightarrow> False)
      | SChar \<Rightarrow> (case v of PBytes b \<Rightarrow> length b = 1 | _ \<Rightarrow> False)
      | SBytes n \<Rightarrow> (case v of PBytes b \<Rightarrow> length b = n | _ \<Rightarrow> False)
      | SDouble \<Rightarrow> (case v of PFloat _ \<Rightarrow> True | _ \<Rightarrow> False)
      | SFloat \<Rightarrow> False)"

lemma signed_mod:
  assumes "- (m div 2) \<le> i" "i < m div 2" "0 < m"
  shows "(if i mod m < m div 2 then i mod m else i mod m - m) = (i :: int)"
proof (cases "0 \<le> i")
  case True
  with assms have "i mod m = i" by (intro mod_pos_pos_trivial) auto
  with assms show ?thesis by simp
next
  case False
  then have "i mod m = (i + m) mod m" by simp
  also have "\<dots> = i + m" using False assms by (intro mod_pos_pos_trivial) auto
  finally show ?thesis using False assms by simp
qed

lemma sfield_roundtrip:
  assumes "sfield_ok f v"
  shows "\<exists>b. pack_sfield f v = return b \<and> length b = sfield_size f \<and> unpack_sfield f b = return v"
proof (cases f)
  case SBool
  with assms show ?thesis
    by (auto simp: sfield_ok_def pack_sfield_def unpack_sfield_def truthy_def split: pyval.splits)
next
  case (SUInt n)
  with assms obtain i where i: "v = PInt i" "0 \<le> i" "i < 256 ^ n"
    by (auto simp: sfield_ok_def split: pyval.splits)
  then have "nat i < 256 ^ n" by (simp add: nat_less_iff)
  with SUInt i show ?thesis
    by (simp add: pack_sfield_def unpack_sfield_def as_int_def nat_of_bytes_of_nat)
next
  case (SInt n)
  with assms obtain i where i: "v = PInt i" "- (256 ^ n div 2) \<le> i" "i < 256 ^ n div 2"
    by (auto simp: sfield_ok_def split: pyval.splits)
  have m: "0 \<le> i mod 256 ^ n" "i mod 256 ^ n < 256 ^ n" by simp_all
  then have "nat (i mod 256 ^ n) < 256 ^ n" by (simp add: nat_less_iff)
  with SInt i m signed_mod [OF i(2,3)] show ?thesis
    by (simp add: pack_sfield_def unpack_sfield_def as_int_def nat_of_bytes_of_nat Let_def split: if_splits)
next
  case SChar
  with assms show ?thesis
    by (auto simp: sfield_ok_def pack_sfield_def unpack_sfield_def length_Suc_conv split: pyval.splits)
next
  case (SBytes n)
  with assms show ?thesis
    by (auto simp: sfield_ok_def pack_sfield_def unpack_sfield_def split: pyval.splits)
next
  case SDouble
  with assms obtain w where w: "v = PFloat w" by (auto simp: sfield_ok_def split: pyval.splits)
  have "unat w < 256 ^ 8" using unsigned_less [of w, where 'a = nat] by simp
  with SDouble w show ?thesis
    by (simp add: pack_sfield_def unpack_sfield_def pack_double_def nat_of_bytes_of_nat)
next
  case SFloat
  with assms show ?thesis by (simp add: sfield_ok_def)
qed

lemma struct_roundtrip:
  assumes "list_all2 sfield_ok fs vs"
  shows "\<exists>b. pack_struct fs vs = return b \<and> length b = struct_size fs \<and> unpack_fields fs b = return vs"
  using assms
proof (induction rule: list_all2_induct)
  case (Cons f fs v vs)
  obtain b where b: "pack_sfield f v = return b" "length b = sfield_size f" "unpack_sfield f b = return v"
    using sfield_roundtrip [OF Cons(1)] by blast
  with Cons(3) show ?case by (auto simp: struct_size_def)
qed (simp add: struct_size_def)

lemma unpack_from_mid:
  assumes "length b = struct_size fs" "unpack_fields fs b = r"
  shows "unpack_from fs (pre @ b @ post) (length pre) = r"
  using assms by (simp add: unpack_from_def)

lemma len_roundtrip:
  assumes "v < 256 ^ len_size l"
  shows "\<exists>b. pack_len l v = return b \<and> length b = len_size l \<and>
    (\<forall>pre post. unpack_len l (pre @ b @ post) (length pre) = return v)"
  using assms by (cases l) (auto simp: pack_len_def unpack_len_def nat_of_bytes_of_nat)

section \<open>Packers\<close>

definition port_ok :: "int \<Rightarrow> bool" where
  "port_ok p \<longleftrightarrow> 0 \<le> p \<and> p < 65536"

definition ipv4_ok :: "pyval \<Rightarrow> bool" where
  "ipv4_ok v =
     (case v of
        PAddr UDPv4Address h p \<Rightarrow>
          port_ok p \<and> (case socket_call inet_aton (PStr h) of Inr b \<Rightarrow> h = ustr (inet_ntoa b) | Inl _ \<Rightarrow> False)
      | _ \<Rightarrow> False)"

definition address_ok :: "bool \<Rightarrow> pyval \<Rightarrow> bool" where
  "address_ok ip_only v =
     (case v of
        PAddr c h p \<Rightarrow>
          port_ok p \<and>
          (case socket_call inet_pton4 (PStr h) of
             Inr b \<Rightarrow> c = UDPv4Address \<and> h = ustr (inet_ntop4 b)
           | Inl e \<Rightarrow> e = OSError \<and>
               (case socket_call inet_pton6 (PStr h) of
                  Inr b \<Rightarrow> c = UDPv6Address \<and> h = ustr (inet_ntop6 b)
                | Inl e \<Rightarrow> e = OSError \<and> c = DomainAddress \<and> \<not> ip_only \<and>
                    (case utf8_encode h of Inr b \<Rightarrow> length b < 65536 | Inl _ \<Rightarrow> False)))
      | _ \<Rightarrow> False)"

lemma socket_call_length:
  assumes "\<And>s b. f s = Some b \<Longrightarrow> length b = n" "socket_call f v = Inr b"
  shows "length b = n"
  using assms by (auto simp: socket_call_def bind_result_eq_Inr split: pyval.splits option.splits)

lemma ipv4_roundtrip:
  assumes "ipv4_ok v"
  shows "\<exists>bs. pack_ipv4 v = return bs \<and>
    (\<forall>pre post. unpack_ipv4 (pre @ bs @ post) (length pre) = return ([v], length pre + length bs))"
proof -
  obtain h p b where v: "v = PAddr UDPv4Address h p" "port_ok p" "socket_call inet_aton (PStr h) = Inr b"
    "h = ustr (inet_ntoa b)"
    using assms by (auto simp: ipv4_ok_def split: pyval.splits address_class.splits sum.splits)
  have "length b = 4" using socket_call_length [OF length_inet_aton v(3)] .
  with v(2) have "list_all2 sfield_ok [SBytes 4, SUInt 2] [PBytes b, PInt p]"
    by (simp add: sfield_ok_def port_ok_def)
  from struct_roundtrip [OF this] obtain bs where bs: "pack_struct [SBytes 4, SUInt 2] [PBytes b, PInt p] = return bs"
    "length bs = struct_size [SBytes 4, SUInt 2]" "unpack_fields [SBytes 4, SUInt 2] bs = return [PBytes b, PInt p]"
    by blast
  have "pack_ipv4 v = return bs"
    using v(3) bs(1) by (simp add: v(1) pack_ipv4_def address_item_def)
  moreover have "unpack_ipv4 (pre @ bs @ post) (length pre) = return ([v], length pre + length bs)" for pre post
    using unpack_from_mid [OF bs(2,3)] bs(2) v(4) by (simp add: unpack_ipv4_def v(1) struct_size_def)
  ultimately show ?thesis by blast
qed

text \<open>A tagged address: one type byte, then fields.\<close>

lemma tagged_roundtrip:
  assumes "list_all2 sfield_ok fs vs" "0 \<le> t" "t < 256"
  shows "\<exists>bs. pack_struct (SUInt 1 # fs) (PInt t # vs) = return bs \<and> length bs = 1 + struct_size fs \<and>
    (\<forall>pre post. unpack_from [SUInt 1] (pre @ bs @ post) (length pre) = return [PInt t] \<and>
       unpack_from fs (pre @ bs @ post) (Suc (length pre)) = return vs)"
proof -
  obtain b where b: "pack_struct fs vs = return b" "length b = struct_size fs" "unpack_fields fs b = return vs"
    using struct_roundtrip [OF assms(1)] by blast
  have t: "pack_sfield (SUInt 1) (PInt t) = return [of_nat (nat t)]"
    using assms(2,3) by (simp add: pack_sfield_def as_int_def)
  have "unat (of_nat (nat t) :: byte) = nat t" using assms(2,3) by (intro unat_byte) simp
  then have "unpack_fields [SUInt 1] [of_nat (nat t)] = return [PInt t]"
    using assms(2) by (simp add: unpack_sfield_def nat_of_bytes_def)
  from unpack_from_mid [OF _ this]
  have 1: "unpack_from [SUInt 1] (pre @ [of_nat (nat t)] @ b @ post) (length pre) = return [PInt t]" for pre post
    by (simp add: struct_size_def)
  have 2: "unpack_from fs ((pre @ [of_nat (nat t)]) @ b @ post) (length (pre @ [of_nat (nat t)])) = return vs" for pre post
    by (rule unpack_from_mid [OF b(2,3)])
  show ?thesis using b(1,2) t 1 2 by simp
qed

lemmas address_type_defs = ADDRESS_TYPE_IPV4_def ADDRESS_TYPE_IPV6_def ADDRESS_TYPE_DOMAIN_NAME_def

lemma address_roundtrip_ip:
  assumes "length b = n" "port_ok p" "0 \<le> t" "t < 256"
  shows "\<exists>bs. pack_struct [SUInt 1, SBytes n, SUInt 2] [PInt t, PBytes b, PInt p] = return bs \<and> length bs = Suc (Suc (Suc n)) \<and>
    (\<forall>pre post. unpack_from [SUInt 1] (pre @ bs @ post) (length pre) = return [PInt t] \<and>
       unpack_from [SBytes n, SUInt 2] (pre @ bs @ post) (Suc (length pre)) = return [PBytes b, PInt p])"
  using tagged_roundtrip [of "[SBytes n, SUInt 2]" "[PBytes b, PInt p]" t] assms
  by (simp add: sfield_ok_def port_ok_def struct_size_def)

lemma address_roundtrip_host:
  assumes "utf8_encode h = return b" "length b < 65536" "port_ok p"
  shows "\<exists>bs. pack_host (PStr h) (PInt p) = return bs \<and> length bs = length b + 5 \<and>
    (\<forall>pre post. unpack_from [SUInt 1] (pre @ bs @ post) (length pre) = return [PInt ADDRESS_TYPE_DOMAIN_NAME] \<and>
       unpack_len (BigLen 2) (pre @ bs @ post) (Suc (length pre)) = return (length b) \<and>
       take (length b) (drop (length pre + 3) (pre @ bs @ post)) = b \<and>
       unpack_len (BigLen 2) (pre @ bs @ post) (length pre + 3 + length b) = return (nat p))"
proof -
  let ?t = "[2 :: byte]" and ?l = "bytes_of_nat 2 (length b)" and ?p = "bytes_of_nat 2 (nat p)"
  have p: "0 \<le> p" "nat p < 256 ^ 2" using assms(3) by (auto simp: port_ok_def)
  have l: "length b < 256 ^ 2" using assms(2) by simp
  have "pack_host (PStr h) (PInt p) = return (?t @ ?l @ b @ ?p)"
    using assms p l by (simp add: pack_host_def pack_sfield_def as_int_def address_type_defs port_ok_def)
  moreover have "unpack_from [SUInt 1] (pre @ (?t @ ?l @ b @ ?p) @ post) (length pre) = return [PInt ADDRESS_TYPE_DOMAIN_NAME]"
    for pre post
    by (simp add: unpack_from_def struct_size_def unpack_sfield_def nat_of_bytes_def address_type_defs)
  moreover have "unpack_len (BigLen 2) (pre @ (?t @ ?l @ b @ ?p) @ post) (Suc (length pre)) = return (length b)" for pre post
    using l by (simp add: unpack_len_def nat_of_bytes_of_nat)
  moreover have "unpack_len (BigLen 2) (pre @ (?t @ ?l @ b @ ?p) @ post) (length pre + 3 + length b) = return (nat p)" for pre post
  proof -
    have "unpack_len (BigLen 2) ((pre @ ?t @ ?l @ b) @ ?p @ post) (length (pre @ ?t @ ?l @ b)) = return (nat p)"
      using p(2) by (simp add: unpack_len_def nat_of_bytes_of_nat del: append_assoc)
    moreover have "length (pre @ ?t @ ?l @ b) = length pre + 3 + length b" by simp
    ultimately show ?thesis by (simp only: append_assoc)
  qed
  ultimately show ?thesis by (intro exI [of _ "?t @ ?l @ b @ ?p"]) simp
qed

lemma address_roundtrip:
  assumes "address_ok ip_only v"
  shows "\<exists>bs. pack_address ip_only v = return bs \<and>
    (\<forall>pre post. unpack_address ip_only (pre @ bs @ post) (length pre) = return ([v], length pre + length bs))"
proof -
  obtain c h p where v: "v = PAddr c h p" "port_ok p"
    using assms by (auto simp: address_ok_def split: pyval.splits)
  have item: "address_item v 0 = return (PStr h)" "address_item v 1 = return (PInt p)"
    by (simp_all add: v(1) address_item_def)
  consider (four) b where "socket_call inet_pton4 (PStr h) = Inr b" "c = UDPv4Address" "h = ustr (inet_ntop4 b)"
    | (six) b where "socket_call inet_pton4 (PStr h) = Inl OSError" "socket_call inet_pton6 (PStr h) = Inr b"
        "c = UDPv6Address" "h = ustr (inet_ntop6 b)"
    | (host) b where "socket_call inet_pton4 (PStr h) = Inl OSError" "socket_call inet_pton6 (PStr h) = Inl OSError"
        "c = DomainAddress" "\<not> ip_only" "utf8_encode h = return b" "length b < 65536"
    using assms by (auto simp: address_ok_def v(1) split: sum.splits)
  then show ?thesis
  proof cases
    case four
    have "length b = 4" using socket_call_length [OF length_inet_pton4 four(1)] .
    from address_roundtrip_ip [OF this v(2), of ADDRESS_TYPE_IPV4] item four show ?thesis
      by (auto simp: pack_address_def unpack_address_def suppress_os_error_def address_type_defs v(1))
  next
    case six
    have "length b = 16" using socket_call_length [OF length_inet_pton6 six(2)] .
    from address_roundtrip_ip [OF this v(2), of ADDRESS_TYPE_IPV6] item six show ?thesis
      by (auto simp: pack_address_def unpack_address_def suppress_os_error_def address_type_defs v(1))
  next
    case host
    from address_roundtrip_host [OF host(5,6) v(2)] item host show ?thesis
      using utf8_decode_encode [OF host(5)] v(2)
      by (auto simp: pack_address_def unpack_address_def suppress_os_error_def address_type_defs v(1) port_ok_def)
  qed
qed

lemma varlen_roundtrip:
  assumes "base dvd length b" "length b div base < 256 ^ len_size l"
  shows "\<exists>bs. pack_varlen l base b = return bs \<and>
    (\<forall>pre post. unpack_varlen l base (pre @ bs @ post) (length pre) = return (b, length pre + length bs))"
proof -
  obtain h where h: "pack_len l (length b div base) = return h" "length h = len_size l"
    "\<And>pre post. unpack_len l (pre @ h @ post) (length pre) = return (length b div base)"
    using len_roundtrip [OF assms(2)] by blast
  from h(3) have "unpack_len l (pre @ (h @ b) @ post) (length pre) = return (length b div base)" for pre post
    by simp
  with h(1,2) assms(1) show ?thesis
    by (simp add: pack_varlen_def unpack_varlen_def Let_def)
qed

definition array_item_ok :: "array_item \<Rightarrow> pyval \<Rightarrow> bool" where
  "array_item_ok k v =
     (case k of
        ArrayBool \<Rightarrow> (case v of PBool _ \<Rightarrow> True | _ \<Rightarrow> False)
      | ArrayLong \<Rightarrow> (case v of PInt i \<Rightarrow> - (2 ^ 63) \<le> i \<and> i < 2 ^ 63 | _ \<Rightarrow> False)
      | ArrayDouble \<Rightarrow> (case v of PFloat _ \<Rightarrow> True | _ \<Rightarrow> False))"

lemma array_item_roundtrip:
  assumes "array_item_ok k v"
  shows "\<exists>b. pack_array_item k v = return b \<and> length b = item_size k \<and> unpack_array_item k b = v"
proof (cases k)
  case ArrayBool
  with assms show ?thesis
    by (auto simp: array_item_ok_def pack_array_item_def unpack_array_item_def as_int_def nat_of_bytes_def
        split: pyval.splits)
next
  case ArrayLong
  with assms obtain i where i: "v = PInt i" "- (2 ^ 63) \<le> i" "i < 2 ^ 63"
    by (auto simp: array_item_ok_def split: pyval.splits)
  have m: "0 \<le> i mod 2 ^ 64" "i mod 2 ^ 64 < 2 ^ 64" by simp_all
  then have "nat (i mod 2 ^ 64) < 256 ^ 8" by (simp add: nat_less_iff)
  moreover have "nat (i mod 2 ^ 64) < 2 ^ 63 \<longleftrightarrow> i mod 2 ^ 64 < 2 ^ 63" by (simp add: nat_less_iff)
  ultimately show ?thesis
    using ArrayLong i m signed_mod [of "2 ^ 64" i]
    by (simp add: pack_array_item_def unpack_array_item_def as_int_def nat_of_bytes_of_nat Let_def split: if_splits)
next
  case ArrayDouble
  with assms obtain w where w: "v = PFloat w" by (auto simp: array_item_ok_def split: pyval.splits)
  have "unat w < 256 ^ 8" using unsigned_less [of w, where 'a = nat] by simp
  with ArrayDouble w show ?thesis
    by (simp add: pack_array_item_def unpack_array_item_def pack_double_def nat_of_bytes_of_nat)
qed

lemma chunks_concat:
  "\<forall>b \<in> set bs. length b = n \<Longrightarrow> chunks n (length bs) (concat bs) = bs"
  by (induction bs) auto

lemma array_roundtrip:
  assumes "\<forall>v \<in> set vs. array_item_ok k v" "length vs < 256 ^ len_size l"
  shows "\<exists>bs. pack_array k l (PList vs) = return bs \<and>
    (\<forall>pre post. unpack_array k l (pre @ bs @ post) (length pre) = return ([PList vs], length pre + length bs))"
proof -
  obtain h where h: "pack_len l (length vs) = return h" "length h = len_size l"
    "\<And>pre post. unpack_len l (pre @ h @ post) (length pre) = return (length vs)"
    using len_roundtrip [OF assms(2)] by blast
  have "\<exists>bs. map_result (pack_array_item k) vs = return bs \<and> length bs = length vs \<and>
      (\<forall>b \<in> set bs. length b = item_size k) \<and> map (unpack_array_item k) bs = vs"
    using assms(1)
  proof (induction vs)
    case (Cons v vs)
    then show ?case using array_item_roundtrip [of k v] by fastforce
  qed simp
  then obtain bs where bs: "map_result (pack_array_item k) vs = return bs" "length bs = length vs"
    "\<forall>b \<in> set bs. length b = item_size k" "map (unpack_array_item k) bs = vs" by blast
  have len: "length (concat bs) = length vs * item_size k"
    using bs(3) unfolding bs(2) [symmetric] by (induction bs) auto
  have pos: "0 < item_size k" by (cases k) simp_all
  have "unpack_array k l (pre @ (h @ concat bs) @ post) (length pre) =
      return ([PList vs], length pre + length (h @ concat bs))" for pre post
  proof -
    have "unpack_len l (pre @ (h @ concat bs) @ post) (length pre) = return (length vs)"
      using h(3) by simp
    moreover have "take (length vs * item_size k) (drop (length pre + len_size l) (pre @ (h @ concat bs) @ post)) = concat bs"
      using h(2) len by simp
    moreover have "chunks (item_size k) (length vs) (concat bs) = bs"
      using chunks_concat [OF bs(3)] bs(2) by simp
    ultimately show ?thesis using len pos h(2) bs(4) by (simp add: unpack_array_def Let_def)
  qed
  with h(1) bs(1) show ?thesis by (simp add: pack_array_def)
qed

definition bit_ok :: "pyval \<Rightarrow> bool" where
  "bit_ok v \<longleftrightarrow> v = PInt 0 \<or> v = PInt 1"

lemma byte_flags:
  "map (\<lambda>m. m AND
      (bit_flag 0x80 b0 OR bit_flag 0x40 b1 OR bit_flag 0x20 b2 OR bit_flag 0x10 b3 OR
       bit_flag 0x08 b4 OR bit_flag 0x04 b5 OR bit_flag 0x02 b6 OR bit_flag 0x01 b7) \<noteq> 0)
     [0x80, 0x40, 0x20, 0x10, 0x08, 0x04, 0x02, 0x01] = [b0, b1, b2, b3, b4, b5, b6, b7]"
  by (cases b0; cases b1; cases b2; cases b3; cases b4; cases b5; cases b6; cases b7; simp add: bit_flag_def)

lemma bits_roundtrip:
  assumes "length vs = 8" "\<forall>v \<in> set vs. bit_ok v"
  shows "\<exists>bs. pack_bits vs = return bs \<and>
    (\<forall>pre post. unpack_bits (pre @ bs @ post) (length pre) = return (vs, length pre + length bs))"
proof -
  obtain a0 a1 a2 a3 a4 a5 a6 a7 where vs: "vs = [a0, a1, a2, a3, a4, a5, a6, a7]"
    using assms(1) by (auto simp: numeral_eq_Suc length_Suc_conv)
  have tr: "(if truthy v then PInt 1 else PInt 0) = v" if "bit_ok v" for v
    using that by (auto simp: truthy_def bit_ok_def)
  define byte where "byte = (bit_flag 0x80 (truthy a0) OR bit_flag 0x40 (truthy a1) OR bit_flag 0x20 (truthy a2) OR
    bit_flag 0x10 (truthy a3) OR bit_flag 0x08 (truthy a4) OR bit_flag 0x04 (truthy a5) OR
    bit_flag 0x02 (truthy a6) OR bit_flag 0x01 (truthy a7))"
  have "map (\<lambda>m. m AND byte \<noteq> 0) [0x80, 0x40, 0x20, 0x10, 0x08, 0x04, 0x02, 0x01] = map truthy vs"
    unfolding byte_def by (subst byte_flags) (simp add: vs)
  then have "map (\<lambda>b. PInt (if b then 1 else 0)) (map (\<lambda>m. m AND byte \<noteq> 0) [0x80, 0x40, 0x20, 0x10, 0x08, 0x04, 0x02, 0x01]) =
      map (\<lambda>v. PInt (if truthy v then 1 else 0)) vs" by simp
  then have "map (\<lambda>m. PInt (if m AND byte \<noteq> 0 then 1 else 0)) [0x80, 0x40, 0x20, 0x10, 0x08, 0x04, 0x02, 0x01] =
      map (\<lambda>v. if truthy v then PInt 1 else PInt 0) vs" by (simp add: if_distrib)
  also have "\<dots> = vs" using assms(2) tr by (simp add: map_idI)
  finally have read: "map (\<lambda>m. PInt (if m AND byte \<noteq> 0 then 1 else 0)) [0x80, 0x40, 0x20, 0x10, 0x08, 0x04, 0x02, 0x01] = vs" .
  have "pack_bits vs = return [byte]" by (simp add: pack_bits_def vs byte_def)
  moreover have "unpack_bits (pre @ [byte] @ post) (length pre) = return (vs, length pre + 1)" for pre post
    unfolding unpack_bits_def Let_def using read by (simp add: nth_append del: list.map)
  ultimately show ?thesis by simp
qed

text \<open>The values a packer can hold. Objects are judged by a predicate on the nested payload.\<close>

fun delimited_packer :: "packer \<Rightarrow> bool" where
  "delimited_packer Raw = False"
| "delimited_packer _ = True"

fun item_ok :: "(pyval \<Rightarrow> bool) \<Rightarrow> packer \<Rightarrow> pyval list \<Rightarrow> bool" where
  "item_ok nested NestedPayload vs = (case vs of [v] \<Rightarrow> nested v | _ \<Rightarrow> False)"
| "item_ok nested Bits vs = (length vs = 8 \<and> (\<forall>v \<in> set vs. bit_ok v))"
| "item_ok nested Raw vs = (case vs of [PBytes _] \<Rightarrow> True | _ \<Rightarrow> False)"
| "item_ok nested (VarLen l base) vs =
     (case vs of [PBytes b] \<Rightarrow> base dvd length b \<and> length b div base < 256 ^ len_size l | _ \<Rightarrow> False)"
| "item_ok nested (VarLenUtf8 l) vs =
     (case vs of
        [PStr s] \<Rightarrow> (case utf8_encode s of Inr b \<Rightarrow> length b < 256 ^ len_size l | Inl _ \<Rightarrow> False)
      | _ \<Rightarrow> False)"
| "item_ok nested IPv4 vs = (case vs of [v] \<Rightarrow> ipv4_ok v | _ \<Rightarrow> False)"
| "item_ok nested (AddressPacker ip_only) vs = (case vs of [v] \<Rightarrow> address_ok ip_only v | _ \<Rightarrow> False)"
| "item_ok nested (ListOf p l) vs =
     (case vs of
        [PList ws] \<Rightarrow> length ws < 256 ^ len_size l \<and> delimited_packer p \<and> (\<forall>w \<in> set ws. item_ok nested p [w])
      | _ \<Rightarrow> False)"
| "item_ok nested (DefaultArray k l) vs =
     (case vs of
        [PList ws] \<Rightarrow> length ws < 256 ^ len_size l \<and> (\<forall>w \<in> set ws. array_item_ok k w)
      | _ \<Rightarrow> False)"
| "item_ok nested (DefaultStruct fs) vs =
     (case fs of [f] \<Rightarrow> (case vs of [v] \<Rightarrow> sfield_ok f v | _ \<Rightarrow> False) | _ \<Rightarrow> False)"
| "item_ok nested (Custom f g) vs = False"

lemma pack_items_map: "pack_items ser p vs = bind_result (map_result (\<lambda>v. pack_item ser p [v]) vs) (\<lambda>bs. return (concat bs))"
proof (induction vs)
  case (Cons v vs)
  then show ?case by (cases "pack_item ser p [v]"; cases "map_result (\<lambda>v. pack_item ser p [v]) vs") simp_all
qed simp

lemma repeat_seq: "repeat_unpack (dec f data) n off = seq_dec dec (replicate n f) data off"
proof (induction n arbitrary: off)
  case (Suc n)
  then show ?case by (cases "dec f data off") (simp_all add: split_beta)
qed simp

lemma list_roundtrip:
  assumes elem: "\<And>v. v \<in> set vs \<Longrightarrow> \<exists>bs. pack_item ser p [v] = return bs \<and>
      (\<forall>pre post. unpack_item cls p (pre @ bs @ post) (length pre) = return ([v], length pre + length bs))"
    and "length vs < 256 ^ len_size l"
  shows "\<exists>bs. pack_item ser (ListOf p l) [PList vs] = return bs \<and>
    (\<forall>pre post. unpack_item cls (ListOf p l) (pre @ bs @ post) (length pre) =
       return ([PList vs], length pre + length bs))"
proof -
  let ?dec = "\<lambda>_ :: unit. unpack_item cls p" and ?ok = "\<lambda>_ :: unit. \<lambda>ws. \<exists>v \<in> set vs. ws = [v]"
  have "codec (\<lambda>_. pack_item ser p) ?dec ?ok (\<lambda>_. True)"
    using elem by unfold_locales blast
  from codec.repeat_roundtrip [OF this, of vs "()"]
  obtain bs where bs: "map_result (\<lambda>v. pack_item ser p [v]) vs = return bs"
    "\<And>pre post. seq_dec ?dec (replicate (length vs) ()) (pre @ concat bs @ post) (length pre) =
       return (vs, length pre + length (concat bs))" by auto
  obtain h where h: "pack_len l (length vs) = return h" "length h = len_size l"
    "\<And>pre post. unpack_len l (pre @ h @ post) (length pre) = return (length vs)"
    using len_roundtrip [OF assms(2)] by blast
  have "unpack_item cls (ListOf p l) (pre @ (h @ concat bs) @ post) (length pre) =
       return ([PList vs], length pre + length (h @ concat bs))" for pre post
  proof -
    have "unpack_len l (pre @ (h @ concat bs) @ post) (length pre) = return (length vs)"
      using h(3) by simp
    moreover have "repeat_unpack (unpack_item cls p (pre @ (h @ concat bs) @ post)) (length vs) (length pre + len_size l) =
        return (vs, length pre + len_size l + length (concat bs))"
      using bs(2) [of "pre @ h" post] repeat_seq [of ?dec "()"] h(2) by simp
    ultimately show ?thesis using h(2) by simp
  qed
  moreover have "pack_item ser (ListOf p l) [PList vs] = return (h @ concat bs)"
    using h(1) bs(1) by (simp add: pack_item.simps pack_items_map)
  ultimately show ?thesis by blast
qed

lemma item_roundtrip:
  assumes nested: "\<And>v. nested v \<Longrightarrow> \<exists>u bs. cls = Some u \<and> pack_serializable ser v = return bs \<and>
      length bs < 65536 \<and> u bs = return v"
    and "item_ok nested p vs"
  shows "\<exists>bs. pack_item ser p vs = return bs \<and>
    (\<forall>pre post. follows (delimited_packer p) post \<longrightarrow>
       unpack_item cls p (pre @ bs @ post) (length pre) = return (vs, length pre + length bs))"
  using assms(2)
proof (induction p arbitrary: vs)
  case NestedPayload
  then obtain v where v: "vs = [v]" "nested v" by (auto split: list.splits)
  then obtain u bs where u: "cls = Some u" "pack_serializable ser v = return bs" "length bs < 65536" "u bs = return v"
    using nested by blast
  then obtain c ws where obj: "v = PObj c ws" by (auto simp: pack_serializable_def split: pyval.splits)
  have "length bs < 256 ^ len_size (BigLen 2)" using u(3) by simp
  from len_roundtrip [OF this] obtain h where h: "pack_len (BigLen 2) (length bs) = return h" "length h = 2"
    "\<And>pre post. unpack_len (BigLen 2) (pre @ h @ post) (length pre) = return (length bs)" by auto
  have "pack_item ser NestedPayload vs = return (h @ bs)"
    using u(2) h(1) by (simp add: pack_item.simps v(1) obj pack_serializable_def)
  moreover have "unpack_item cls NestedPayload (pre @ (h @ bs) @ post) (length pre) =
      return (vs, length pre + length (h @ bs))" for pre post
    using h(3) [of pre "bs @ post"] h(2) u(1,4) by (simp add: v(1))
  ultimately show ?case by blast
next
  case Bits
  with bits_roundtrip [of vs] show ?case by (fastforce simp: pack_item.simps)
next
  case Raw
  then obtain b where "vs = [PBytes b]" by (cases vs; cases "tl vs") (auto split: pyval.splits)
  then show ?case by (simp add: pack_item.simps pack_simple_def)
next
  case (VarLen l base)
  then obtain b where b: "vs = [PBytes b]" "base dvd length b" "length b div base < 256 ^ len_size l"
    by (cases vs; cases "tl vs") (auto split: pyval.splits)
  with varlen_roundtrip [OF b(2,3)] show ?case by (fastforce simp: pack_item.simps pack_simple_def)
next
  case (VarLenUtf8 l)
  then obtain s b where b: "vs = [PStr s]" "utf8_encode s = return b" "length b < 256 ^ len_size l"
    by (cases vs; cases "tl vs") (auto split: pyval.splits sum.splits)
  with varlen_roundtrip [of 1 b l] utf8_decode_encode [OF b(2)] show ?case
    by (fastforce simp: pack_item.simps pack_simple_def)
next
  case IPv4
  with ipv4_roundtrip show ?case
    by (fastforce simp: pack_item.simps pack_simple_def split: list.splits)
next
  case (AddressPacker ip_only)
  with address_roundtrip show ?case
    by (fastforce simp: pack_item.simps pack_simple_def split: list.splits)
next
  case (ListOf p l)
  then obtain ws where ws: "vs = [PList ws]" "length ws < 256 ^ len_size l" "delimited_packer p"
    "\<And>w. w \<in> set ws \<Longrightarrow> item_ok nested p [w]"
    by (cases vs; cases "tl vs") (auto split: pyval.splits)
  from list_roundtrip [of ws ser p cls l] ListOf.IH [OF ws(4)] ws(2,3) show ?case by (simp add: ws(1))
next
  case (DefaultArray k l)
  then obtain ws where ws: "vs = [PList ws]" "length ws < 256 ^ len_size l" "\<forall>w \<in> set ws. array_item_ok k w"
    by (cases vs; cases "tl vs") (auto split: pyval.splits)
  with array_roundtrip [OF ws(3,2)] show ?case by (fastforce simp: pack_item.simps pack_simple_def)
next
  case (DefaultStruct fs)
  then obtain f v where f: "fs = [f]" "vs = [v]" "sfield_ok f v" by (auto split: list.splits)
  then have "list_all2 sfield_ok fs vs" by simp
  from struct_roundtrip [OF this] obtain b where b: "pack_struct fs vs = return b" "length b = struct_size fs"
    "unpack_fields fs b = return vs" by blast
  have "unpack_from fs (pre @ b @ post) (length pre) = return vs" for pre post
    by (rule unpack_from_mid [OF b(2,3)])
  with b(1,2) show ?case by (auto simp: pack_item.simps f(2))
next
  case (Custom f g)
  then show ?case by simp
qed

section \<open>Payload classes\<close>

definition delimited_fmt :: "serializer \<Rightarrow> fmt \<Rightarrow> bool" where
  "delimited_fmt ser f =
     (case f of Fmt n \<Rightarrow> (case dict_get ser n of Some p \<Rightarrow> delimited_packer p | None \<Rightarrow> False) | _ \<Rightarrow> True)"

definition packed_size_ok :: "serializer \<Rightarrow> pyval \<Rightarrow> bool" where
  "packed_size_ok ser v = (case pack_serializable ser v of Inr bs \<Rightarrow> length bs < 65536 | Inl _ \<Rightarrow> False)"

text \<open>
  The values a format, a format list and a class accept; only the last format of a class
  may read to the end of the buffer, and a nested payload takes less than 64 kilobytes.
\<close>

fun fmt_ok :: "serializer \<Rightarrow> fmt \<Rightarrow> pyval list \<Rightarrow> bool"
  and fmts_ok :: "serializer \<Rightarrow> fmt list \<Rightarrow> pyval list \<Rightarrow> bool"
  and class_ok :: "serializer \<Rightarrow> pclass \<Rightarrow> pyval \<Rightarrow> bool" where
  "fmt_ok ser (Fmt n) vs =
     (length vs = fmt_arity (Fmt n) \<and>
      (case dict_get ser n of Some p \<Rightarrow> item_ok (\<lambda>_. False) p vs | None \<Rightarrow> False))"
| "fmt_ok ser (FmtClass c) vs =
     (dict_get ser ''payload'' = Some NestedPayload \<and>
      (case vs of [v] \<Rightarrow> class_ok ser c v \<and> packed_size_ok ser v | _ \<Rightarrow> False))"
| "fmt_ok ser (FmtList c) vs =
     (dict_get ser ''payload-list'' = Some (ListOf NestedPayload (BigLen 1)) \<and>
      (case vs of
         [PList ws] \<Rightarrow> length ws < 256 \<and> (\<forall>w \<in> set ws. class_ok ser c w \<and> packed_size_ok ser w)
       | _ \<Rightarrow> False))"
| "fmts_ok ser [] vs = (vs = [])"
| "fmts_ok ser (f # fs) vs =
     (fmt_ok ser f (take (fmt_arity f) vs) \<and> (fs = [] \<or> delimited_fmt ser f) \<and>
      fmts_ok ser fs (drop (fmt_arity f) vs))"
| "class_ok ser (PClass n fs) v =
     (case v of PObj c vs \<Rightarrow> c = PClass n fs \<and> fmts_ok ser fs vs | _ \<Rightarrow> False)"

definition pack_fmt :: "serializer \<Rightarrow> fmt \<Rightarrow> pyval list \<Rightarrow> bytes result" where
  "pack_fmt ser f vs = as_pack_error (bind_result (lookup_packer ser (to_packlist_fmt f)) (\<lambda>p. pack_item ser p vs))"

fun split_fields :: "fmt list \<Rightarrow> pyval list \<Rightarrow> (fmt \<times> pyval list) list" where
  "split_fields [] vs = []"
| "split_fields (f # fs) vs = (f, take (fmt_arity f) vs) # split_fields fs (drop (fmt_arity f) vs)"

lemma pack_fields_seq: "pack_fields ser (to_pack_list fs vs) = seq_enc (pack_fmt ser) (split_fields fs vs)"
  by (induction fs arbitrary: vs) (simp_all add: pack_fmt_def)

lemma unpack_fmts_seq: "unpack_fmts ser fs data off = seq_dec (unpack_fmt ser) fs data off"
  by (induction fs arbitrary: off) simp_all

lemma fst_split_fields [simp]: "map fst (split_fields fs vs) = fs"
  by (induction fs arbitrary: vs) simp_all

lemma fmt_ok_length: "fmt_ok ser f vs \<Longrightarrow> length vs = fmt_arity f"
  by (cases f; cases vs; cases "tl vs") (auto simp: fmt_arity_def split: pyval.splits)

lemma fmts_ok_split:
  assumes "fmts_ok ser fs vs"
  shows "\<forall>x \<in> set (split_fields fs vs). fst x \<in> set fs \<and> fmt_ok ser (fst x) (snd x)"
    and "\<forall>f \<in> set (butlast fs). delimited_fmt ser f"
    and "concat (map snd (split_fields fs vs)) = vs"
    and "length vs = sum_list (map fmt_arity fs)"
  using assms
proof (induction fs arbitrary: vs)
  case (Cons f fs)
  { case 1
    then have "fmts_ok ser fs (drop (fmt_arity f) vs)" by simp
    from Cons.IH(1) [OF this] 1 show ?case by auto }
  { case 2
    then have "fmts_ok ser fs (drop (fmt_arity f) vs)" by simp
    from Cons.IH(2) [OF this] 2 show ?case by auto }
  { case 3 then show ?case using Cons.IH(3) by simp }
  { case 4 then show ?case using Cons.IH(4) fmt_ok_length by fastforce }
qed simp_all

definition fmt_law :: "serializer \<Rightarrow> fmt \<Rightarrow> bool" where
  "fmt_law ser f \<longleftrightarrow> (\<forall>vs. fmt_ok ser f vs \<longrightarrow> (\<exists>bs. pack_fmt ser f vs = return bs \<and>
     (\<forall>pre post. follows (delimited_fmt ser f) post \<longrightarrow>
        unpack_fmt ser f (pre @ bs @ post) (length pre) = return (vs, length pre + length bs))))"

definition class_law :: "serializer \<Rightarrow> pclass \<Rightarrow> bool" where
  "class_law ser c \<longleftrightarrow> (\<forall>v. class_ok ser c v \<longrightarrow> (\<exists>bs. pack_serializable ser v = return bs \<and>
     (\<forall>pre post. follows (\<forall>f \<in> set (format_list c). delimited_fmt ser f) post \<longrightarrow>
        unpack_class ser c (pre @ bs @ post) (length pre) = return (v, length pre + length bs))))"

lemma class_lawI:
  assumes "\<And>f. f \<in> set fs \<Longrightarrow> fmt_law ser f"
  shows "class_law ser (PClass n fs)"
  unfolding class_law_def
proof (intro allI impI)
  fix v assume "class_ok ser (PClass n fs) v"
  then obtain vs where v: "v = PObj (PClass n fs) vs" "fmts_ok ser fs vs" by (auto split: pyval.splits)
  note sp = fmts_ok_split [OF v(2)]
  have "codec (pack_fmt ser) (unpack_fmt ser) (\<lambda>f vs. f \<in> set fs \<and> fmt_ok ser f vs) (delimited_fmt ser)"
    using assms by unfold_locales (auto simp: fmt_law_def)
  from codec.seq_roundtrip [OF this sp(1), unfolded fst_split_fields, OF sp(2)]
  obtain bs where bs: "seq_enc (pack_fmt ser) (split_fields fs vs) = return bs"
    "\<And>pre post. follows (\<forall>f \<in> set fs. delimited_fmt ser f) post \<Longrightarrow>
       seq_dec (unpack_fmt ser) fs (pre @ bs @ post) (length pre) = return (vs, length pre + length bs)"
    unfolding sp(3) by blast
  show "\<exists>bs. pack_serializable ser v = return bs \<and>
     (\<forall>pre post. follows (\<forall>f \<in> set (format_list (PClass n fs)). delimited_fmt ser f) post \<longrightarrow>
        unpack_class ser (PClass n fs) (pre @ bs @ post) (length pre) = return (v, length pre + length bs))"
    using bs sp(4) by (auto simp: v(1) pack_serializable_def pack_fields_seq unpack_fmts_seq from_unpack_list_def)
qed

lemma nested_law:
  assumes "class_law ser c" "class_ok ser c v" "packed_size_ok ser v"
  shows "\<exists>bs. pack_serializable ser v = return bs \<and> length bs < 65536 \<and>
    bind_result (unpack_class ser c bs 0) (\<lambda>(v, _). return v) = return v"
proof -
  obtain bs where bs: "pack_serializable ser v = return bs"
    "\<And>pre post. follows (\<forall>f \<in> set (format_list c). delimited_fmt ser f) post \<Longrightarrow>
        unpack_class ser c (pre @ bs @ post) (length pre) = return (v, length pre + length bs)"
    using assms(1,2) unfolding class_law_def by blast
  from bs(2) [of "[]" "[]"] bs(1) assms(3) show ?thesis by (simp add: packed_size_ok_def)
qed

lemma fmt_law_class:
  assumes "class_law ser c"
  shows "fmt_law ser (FmtClass c)" "fmt_law ser (FmtList c)"
proof -
  let ?u = "\<lambda>d. bind_result (unpack_class ser c d 0) (\<lambda>(v, _). return v)"
  let ?ok = "\<lambda>v. class_ok ser c v \<and> packed_size_ok ser v"
  have nested: "\<exists>u bs. Some ?u = Some u \<and> pack_serializable ser v = return bs \<and> length bs < 65536 \<and> u bs = return v"
    if "?ok v" for v
    using nested_law [OF assms] that by blast
  have cls: "item_ok ?ok NestedPayload vs \<and> lookup_packer ser ''payload'' = return NestedPayload"
    if "fmt_ok ser (FmtClass c) vs" for vs
    using that by (cases vs; cases "tl vs") (simp_all add: lookup_packer_def)
  have lst: "item_ok ?ok (ListOf NestedPayload (BigLen 1)) vs \<and>
      lookup_packer ser ''payload-list'' = return (ListOf NestedPayload (BigLen 1))"
    if "fmt_ok ser (FmtList c) vs" for vs
    using that by (cases vs; cases "tl vs") (auto simp: lookup_packer_def split: pyval.splits)
  have rt: "\<exists>bs. pack_item ser p vs = return bs \<and> (\<forall>pre post. follows (delimited_packer p) post \<longrightarrow>
       unpack_item (Some ?u) p (pre @ bs @ post) (length pre) = return (vs, length pre + length bs))"
    if "item_ok ?ok p vs" for p vs
    by (rule item_roundtrip [OF _ that, of "Some ?u" ser]) (use nested in blast)
  show "fmt_law ser (FmtClass c)" unfolding fmt_law_def
  proof (intro allI impI)
    fix vs assume ok: "fmt_ok ser (FmtClass c) vs"
    obtain bs where "pack_item ser NestedPayload vs = return bs"
      "\<And>pre post. unpack_item (Some ?u) NestedPayload (pre @ bs @ post) (length pre) = return (vs, length pre + length bs)"
      using rt [OF conjunct1 [OF cls [OF ok]]] by (auto simp only: delimited_packer.simps follows_simps)
    then show "\<exists>bs. pack_fmt ser (FmtClass c) vs = return bs \<and>
      (\<forall>pre post. follows (delimited_fmt ser (FmtClass c)) post \<longrightarrow>
        unpack_fmt ser (FmtClass c) (pre @ bs @ post) (length pre) = return (vs, length pre + length bs))"
      using cls [OF ok] by (simp add: pack_fmt_def to_packlist_fmt_def as_pack_error_def del: unpack_item.simps)
  qed
  show "fmt_law ser (FmtList c)" unfolding fmt_law_def
  proof (intro allI impI)
    fix vs assume ok: "fmt_ok ser (FmtList c) vs"
    obtain bs where "pack_item ser (ListOf NestedPayload (BigLen 1)) vs = return bs"
      "\<And>pre post. unpack_item (Some ?u) (ListOf NestedPayload (BigLen 1)) (pre @ bs @ post) (length pre) =
         return (vs, length pre + length bs)"
      using rt [OF conjunct1 [OF lst [OF ok]]] by (auto simp only: delimited_packer.simps follows_simps)
    then show "\<exists>bs. pack_fmt ser (FmtList c) vs = return bs \<and>
      (\<forall>pre post. follows (delimited_fmt ser (FmtList c)) post \<longrightarrow>
        unpack_fmt ser (FmtList c) (pre @ bs @ post) (length pre) = return (vs, length pre + length bs))"
      using lst [OF ok] by (simp add: pack_fmt_def to_packlist_fmt_def as_pack_error_def del: unpack_item.simps)
  qed
qed

lemma fmt_law_name: "fmt_law ser (Fmt n)"
  unfolding fmt_law_def
proof (intro allI impI)
  fix vs assume "fmt_ok ser (Fmt n) vs"
  then obtain p where p: "dict_get ser n = Some p" "item_ok (\<lambda>_. False) p vs" by (auto split: option.splits)
  from item_roundtrip [of "\<lambda>_. False" None ser, OF _ p(2)]
  obtain bs where bs: "pack_item ser p vs = return bs"
    "\<And>pre post. follows (delimited_packer p) post \<Longrightarrow>
       unpack_item None p (pre @ bs @ post) (length pre) = return (vs, length pre + length bs)" by blast
  then show "\<exists>bs. pack_fmt ser (Fmt n) vs = return bs \<and>
     (\<forall>pre post. follows (delimited_fmt ser (Fmt n)) post \<longrightarrow>
        unpack_fmt ser (Fmt n) (pre @ bs @ post) (length pre) = return (vs, length pre + length bs))"
    by (simp add: pack_fmt_def to_packlist_fmt_def as_pack_error_def lookup_packer_def p(1) delimited_fmt_def named_error_def)
qed

lemma all_laws: "fmt_law ser f" "class_law ser c"
proof (induction f and c)
  case (Fmt n)
  show ?case by (rule fmt_law_name)
next
  case (FmtClass c)
  then show ?case by (rule fmt_law_class)
next
  case (FmtList c)
  then show ?case by (rule fmt_law_class)
next
  case (PClass n fs)
  then show ?case by (rule class_lawI)
qed

text \<open>The model's formats and classes are codecs.\<close>

interpretation fc: codec "pack_fmt ser" "unpack_fmt ser" "fmt_ok ser" "delimited_fmt ser" for ser
  using all_laws(1) by unfold_locales (simp add: fmt_law_def)

definition enc_class :: "serializer \<Rightarrow> pclass \<Rightarrow> pyval list \<Rightarrow> bytes result" where
  "enc_class ser c vs = (case vs of [v] \<Rightarrow> pack_serializable ser v | _ \<Rightarrow> raise TypeError)"

definition dec_class :: "serializer \<Rightarrow> pclass \<Rightarrow> bytes \<Rightarrow> nat \<Rightarrow> (pyval list \<times> nat) result" where
  "dec_class ser c data off = bind_result (unpack_serializable ser c data off) (\<lambda>(v, off'). return ([v], off'))"

definition one_ok :: "serializer \<Rightarrow> pclass \<Rightarrow> pyval list \<Rightarrow> bool" where
  "one_ok ser c vs = (case vs of [v] \<Rightarrow> class_ok ser c v | _ \<Rightarrow> False)"

definition delimited_class :: "serializer \<Rightarrow> pclass \<Rightarrow> bool" where
  "delimited_class ser c \<longleftrightarrow> (\<forall>f \<in> set (format_list c). delimited_fmt ser f)"

interpretation cc: codec "enc_class ser" "dec_class ser" "one_ok ser" "delimited_class ser" for ser
proof (unfold_locales, goal_cases)
  case (1 c vs)
  then obtain v where v: "vs = [v]" "class_ok ser c v" by (auto simp: one_ok_def split: list.splits)
  with all_laws(2) [of ser c] obtain bs where bs: "pack_serializable ser v = return bs"
     "\<And>pre post. follows (delimited_class ser c) post \<Longrightarrow>
        unpack_class ser c (pre @ bs @ post) (length pre) = return (v, length pre + length bs)"
    unfolding class_law_def delimited_class_def by blast
  then show ?case by (simp add: v(1) enc_class_def dec_class_def unpack_serializable_def)
qed

lemma enc_class_one [simp]: "enc_class ser c [v] = pack_serializable ser v"
  by (simp add: enc_class_def)

lemma unpack_all_seq:
  "unpack_all ser cs data off = seq_dec (dec_class ser) cs data off"
proof (induction cs arbitrary: off)
  case (Cons c cs)
  then show ?case
    by (cases "unpack_serializable ser c data off") (simp_all add: dec_class_def split_beta)
qed simp

lemma pack_list_seq:
  "length cs = length vs \<Longrightarrow>
     pack_serializable_list ser vs = seq_enc (enc_class ser) (zip cs (map (\<lambda>v. [v]) vs))"
proof (induction vs arbitrary: cs)
  case (Cons v vs)
  then obtain c ds where cs: "cs = c # ds" by (cases cs) auto
  with Cons have IH: "pack_serializable_list ser vs = seq_enc (enc_class ser) (zip ds (map (\<lambda>v. [v]) vs))" by simp
  then show ?case
    by (cases "pack_serializable ser v"; cases "map_result (pack_serializable ser) vs")
      (simp_all add: cs pack_serializable_list_def flip: IH)
qed (simp add: pack_serializable_list_def)

lemma payload_list_roundtrip:
  assumes ok: "list_all2 (class_ok ser) cs vs" and last: "\<forall>c \<in> set (butlast cs). delimited_class ser c"
  shows "\<exists>bs. pack_serializable_list ser vs = return bs \<and>
    (\<forall>pre post. follows (\<forall>c \<in> set cs. delimited_class ser c) post \<longrightarrow>
       unpack_all ser cs (pre @ bs @ post) (length pre) = return (vs, length pre + length bs))"
proof -
  let ?xs = "zip cs (map (\<lambda>v. [v]) vs)"
  have len: "length cs = length vs" using ok by (rule list_all2_lengthD)
  have m: "map fst ?xs = cs" "concat (map snd ?xs) = vs" using len by simp_all
  have "\<forall>x \<in> set ?xs. one_ok ser (fst x) (snd x)"
    using ok by (auto simp: one_ok_def list_all2_iff zip_map2)
  from cc.seq_roundtrip [OF this] last show ?thesis
    unfolding m pack_list_seq [OF len] unpack_all_seq by blast
qed

section \<open>Errors\<close>

text \<open>Which exceptions the named formats can raise while unpacking.\<close>

definition unpack_error :: "py_error \<Rightarrow> bool" where
  "unpack_error e \<longleftrightarrow> e \<in> {StructError, IndexError, UnicodeError, ValueError, PackError}"

lemma utf8_decode_error: "utf8_decode bs = Inl e \<Longrightarrow> e = UnicodeError"
proof (induction bs rule: utf8_decode.induct)
  case (1 bs)
  then show ?case
    by (subst (asm) (2) utf8_decode.simps) (auto simp: bind_result_eq_Inl split: if_splits option.splits)
qed

lemma unpack_fields_error: "unpack_fields fs b = Inl e \<Longrightarrow> e = StructError"
  by (induction fs arbitrary: b)
    (auto simp: bind_result_eq_Inl unpack_sfield_def Let_def split: sfield.splits)

lemma unpack_from_error: "unpack_from fs data off = Inl e \<Longrightarrow> e = StructError"
  by (auto simp: unpack_from_def dest: unpack_fields_error split: if_splits)

lemma unpack_len_error: "unpack_len l data off = Inl e \<Longrightarrow> e = StructError"
  by (auto simp: unpack_len_def Let_def split: if_splits)

lemma repeat_unpack_error:
  "repeat_unpack step n off = Inl e \<Longrightarrow> \<exists>off'. step off' = Inl e"
  by (induction n arbitrary: off) (auto simp: bind_result_eq_Inl)

lemma unpack_errorI: "unpack_error StructError" "unpack_error IndexError" "unpack_error UnicodeError"
  "unpack_error ValueError" "unpack_error PackError"
  by (simp_all add: unpack_error_def)

lemma host_port_error: "host_port vs = Inl e \<Longrightarrow> e = StructError"
  by (cases vs rule: host_port.cases) simp_all

lemma unpack_ipv4_error: "unpack_ipv4 data off = Inl e \<Longrightarrow> unpack_error e"
  by (auto simp: unpack_ipv4_def bind_result_eq_Inl unpack_errorI dest!: unpack_from_error host_port_error)

lemma unpack_address_error: "unpack_address ip_only data off = Inl e \<Longrightarrow> unpack_error e"
  by (auto simp: unpack_address_def bind_result_eq_Inl unpack_errorI split: if_splits
      dest!: unpack_from_error host_port_error unpack_len_error utf8_decode_error)

lemma unpack_array_error: "unpack_array k l data off = Inl e \<Longrightarrow> unpack_error e"
  by (auto simp: unpack_array_def bind_result_eq_Inl unpack_errorI Let_def dest!: unpack_len_error split: if_splits)

lemma unpack_varlen_error: "unpack_varlen l base data off = Inl e \<Longrightarrow> unpack_error e"
  by (auto simp: unpack_varlen_def bind_result_eq_Inl unpack_errorI Let_def dest!: unpack_len_error)

fun no_custom :: "packer \<Rightarrow> bool" where
  "no_custom (Custom f g) = False"
| "no_custom (ListOf p l) = no_custom p"
| "no_custom _ = True"

lemma unpack_item_error:
  "unpack_item None p data off = Inl e \<Longrightarrow> no_custom p \<Longrightarrow> unpack_error e"
proof (induction p arbitrary: off)
  case (ListOf p l)
  then show ?case
    by (auto simp: bind_result_eq_Inl unpack_errorI dest!: unpack_len_error repeat_unpack_error)
next
  case NestedPayload
  then show ?case by (auto simp: bind_result_eq_Inl unpack_errorI dest: unpack_len_error)
next
  case Bits
  then show ?case by (auto simp: unpack_bits_def Let_def unpack_errorI split: if_splits)
next
  case (VarLenUtf8 l)
  then show ?case
    by (auto simp: bind_result_eq_Inl unpack_errorI dest: unpack_varlen_error dest!: utf8_decode_error)
next
  case (DefaultStruct fs)
  then show ?case by (auto simp: bind_result_eq_Inl unpack_errorI dest!: unpack_from_error)
qed (auto simp: bind_result_eq_Inl intro: unpack_varlen_error unpack_ipv4_error unpack_address_error unpack_array_error)

end
