(* ===== verification/Serialization_Properties.thy ===== *)
theory Serialization_Properties
  imports Roundtrip
begin

text \<open>
  The properties of the serializer: round trips of nested and repeated payloads, left-over and
  truncated data, and the exceptions that malformed data can raise.
\<close>

unbundle bit_operations_syntax

section \<open>A concrete payload\<close>

definition ex_inner :: pclass where
  "ex_inner = PClass ''Inner'' [Fmt ''varlenH'', Fmt ''?'']"

definition ex_class :: pclass where
  "ex_class = PClass ''Outer'' [Fmt ''I'', Fmt ''varlenHutf8'', FmtList ex_inner, Fmt ''raw'']"

definition ex_object :: pyval where
  "ex_object = PObj ex_class
     [PInt 7, PStr [104, 233], PList [PObj ex_inner [PBytes [1, 2], PBool True]], PBytes [9]]"

lemmas registry_simps = default_packers_def lookup_packer_def

lemma ex_inner_packed:
  "pack_serializable default_packers (PObj ex_inner [PBytes [1, 2], PBool True]) = return [0, 2, 1, 2, 1]"
  by code_simp

lemma ex_object_ok: "class_ok default_packers ex_class ex_object"
proof -
  have "packed_size_ok default_packers (PObj ex_inner [PBytes [1, 2], PBool True])"
    by (simp add: packed_size_ok_def ex_inner_packed)
  then show ?thesis
    by (simp add: ex_object_def ex_class_def ex_inner_def registry_simps fmt_arity_def sfield_ok_def utf8_point_def
        delimited_fmt_def)
qed

section \<open>Properties of the serializer\<close>

text \<open>
  C2: for any registry of packers, payloads whose field values their formats accept are
  packed, and unpacking the bytes with the same classes, from wherever they start in a
  buffer, gives back equal payloads and consumes everything. Payloads may be nested and
  repeated; only the last payload may end in a format that reads to the end.
\<close>

theorem payloads_roundtrip:
  assumes "list_all2 (class_ok ser) cs vs" "\<forall>c \<in> set (butlast cs). delimited_class ser c"
  shows "\<exists>bs. pack_serializable_list ser vs = return bs \<and>
    (\<forall>pre. unpack_serializable_list ser cs (pre @ bs) (length pre) True = return vs)"
proof -
  obtain bs where bs: "pack_serializable_list ser vs = return bs"
    "\<And>pre post. follows (\<forall>c \<in> set cs. delimited_class ser c) post \<Longrightarrow>
       unpack_all ser cs (pre @ bs @ post) (length pre) = return (vs, length pre + length bs)"
    using payload_list_roundtrip [OF assms] by blast
  from bs(2) [of "[]"] bs(1) show ?thesis by (simp add: unpack_serializable_list_def)
qed

theorem payloads_roundtrip_witness:
  "\<exists>bs. pack_serializable_list default_packers [ex_object] = return bs \<and>
     unpack_serializable_list default_packers [ex_class] ([5] @ bs) 1 True = return [ex_object]"
proof -
  have "list_all2 (class_ok default_packers) [ex_class] [ex_object]" using ex_object_ok by simp
  from payloads_roundtrip [OF this] obtain bs where bs:
    "pack_serializable_list default_packers [ex_object] = return bs"
    "\<And>pre. unpack_serializable_list default_packers [ex_class] (pre @ bs) (length pre) True = return [ex_object]"
    by auto
  from bs(1) bs(2) [of "[5]"] show ?thesis by auto
qed

text \<open>
  when every payload is delimited, bytes left over after the last payload are rejected
  with a \<open>PackError\<close> if everything must be consumed, and are otherwise returned after the
  payloads, unchanged.
\<close>

theorem leftover_bytes:
  assumes "list_all2 (class_ok ser) cs vs" "\<forall>c \<in> set cs. delimited_class ser c" "extra \<noteq> []"
  shows "\<exists>bs. pack_serializable_list ser vs = return bs \<and>
    unpack_serializable_list ser cs (bs @ extra) 0 True = raise PackError \<and>
    unpack_serializable_list ser cs (bs @ extra) 0 False = return (vs @ [PBytes extra])"
proof -
  have "\<forall>c \<in> set (butlast cs). delimited_class ser c" using assms(2) by (auto dest: in_set_butlastD)
  from payload_list_roundtrip [OF assms(1) this] obtain bs where bs: "pack_serializable_list ser vs = return bs"
    "\<And>pre post. follows (\<forall>c \<in> set cs. delimited_class ser c) post \<Longrightarrow>
       unpack_all ser cs (pre @ bs @ post) (length pre) = return (vs, length pre + length bs)" by blast
  have "unpack_all ser cs (bs @ extra) 0 = return (vs, length bs)"
    using bs(2) [of extra "[]"] assms(2) by (simp add: follows_def)
  with bs(1) assms(3) show ?thesis by (simp add: unpack_serializable_list_def)
qed

theorem leftover_bytes_witness:
  "\<exists>bs. pack_serializable_list default_packers [PObj ex_inner [PBytes [1, 2], PBool True]] = return bs \<and>
    unpack_serializable_list default_packers [ex_inner] (bs @ [9]) 0 True = raise PackError"
proof -
  have "list_all2 (class_ok default_packers) [ex_inner] [PObj ex_inner [PBytes [1, 2], PBool True]]"
    by (simp add: ex_inner_def registry_simps fmt_arity_def sfield_ok_def delimited_fmt_def)
  moreover have "\<forall>c \<in> set [ex_inner]. delimited_class default_packers c"
    by (simp add: delimited_class_def ex_inner_def delimited_fmt_def registry_simps)
  ultimately show ?thesis using leftover_bytes [of default_packers "[ex_inner]" _ "[9]"] by blast
qed

lemma registry_facts:
  assumes "dict_get default_packers n = Some p"
  shows "no_custom p" "n = ''bits'' \<longleftrightarrow> p = Bits"
proof -
  have "(n, p) \<in> set default_packers" using assms by (rule map_of_SomeD)
  moreover have "\<forall>(n, p) \<in> set default_packers. no_custom p \<and> (n = ''bits'' \<longleftrightarrow> p = Bits)"
    by (simp add: default_packers_def)
  ultimately show "no_custom p" "n = ''bits'' \<longleftrightarrow> p = Bits" by auto
qed

lemma unpack_ipv4_one: "unpack_ipv4 data off = Inr (vs, off') \<Longrightarrow> length vs = 1"
  by (auto simp: unpack_ipv4_def bind_result_eq_Inr)

lemma unpack_address_one: "unpack_address ip_only data off = Inr (vs, off') \<Longrightarrow> length vs = 1"
  by (auto simp: unpack_address_def bind_result_eq_Inr split: if_splits)

lemma unpack_array_one: "unpack_array k l data off = Inr (vs, off') \<Longrightarrow> length vs = 1"
  by (auto simp: unpack_array_def bind_result_eq_Inr Let_def split: if_splits)

lemma unpack_bits_eight:
  assumes "unpack_bits data off = Inr (vs, off')"
  shows "length vs = 8"
proof (cases "length data < off + 1")
  case False
  then have "vs = map (\<lambda>m. PInt (if m AND data ! off \<noteq> 0 then 1 else 0))
      [0x80, 0x40, 0x20, 0x10, 0x08, 0x04, 0x02, 0x01]"
    using assms unfolding unpack_bits_def Let_def by (simp only: if_False sum.inject prod.inject)
  then have "length vs = length [0x80, 0x40, 0x20, 0x10, 0x08, 0x04, 0x02, 0x01 :: byte]" by (simp only: length_map)
  then show ?thesis by simp
qed (use assms in \<open>simp add: unpack_bits_def\<close>)

lemmas unpack_one = unpack_ipv4_one unpack_address_one unpack_array_one unpack_bits_eight

lemma unpack_item_count:
  "unpack_item cls p data off = Inr (vs, off') \<Longrightarrow> length vs = (if p = Bits then 8 else 1)"
proof (cases p)
  case Bits
  then show "unpack_item cls p data off = Inr (vs, off') \<Longrightarrow> ?thesis" by (simp add: unpack_bits_eight)
next
  case (VarLen l base)
  then show "unpack_item cls p data off = Inr (vs, off') \<Longrightarrow> ?thesis" by (auto simp: bind_result_eq_Inr)
next
  case (VarLenUtf8 l)
  then show "unpack_item cls p data off = Inr (vs, off') \<Longrightarrow> ?thesis" by (auto simp: bind_result_eq_Inr)
next
  case IPv4
  then show "unpack_item cls p data off = Inr (vs, off') \<Longrightarrow> ?thesis" by (simp add: unpack_ipv4_one)
next
  case (AddressPacker x)
  then show "unpack_item cls p data off = Inr (vs, off') \<Longrightarrow> ?thesis" by (simp add: unpack_address_one)
next
  case (DefaultArray k l)
  then show "unpack_item cls p data off = Inr (vs, off') \<Longrightarrow> ?thesis" by (simp add: unpack_array_one)
qed (auto simp: bind_result_eq_Inr split: option.splits)

lemma unpack_named_formats:
  assumes "\<forall>f \<in> set fs. \<exists>n \<in> set (get_available_formats default_packers). f = Fmt n"
  shows "(\<forall>e. unpack_fmts default_packers fs data off = Inl e \<longrightarrow> e = PackError) \<and>
    (\<forall>vs off'. unpack_fmts default_packers fs data off = Inr (vs, off') \<longrightarrow> length vs = sum_list (map fmt_arity fs))"
  using assms
proof (induction fs arbitrary: off)
  case (Cons f fs)
  then obtain n where n: "f = Fmt n" "n \<in> set (dict_keys default_packers)"
    by (auto simp: get_available_formats_def)
  then have "dict_get default_packers n \<noteq> None" by (simp add: map_of_eq_None_iff)
  with n obtain p where f: "f = Fmt n" "dict_get default_packers n = Some p" by blast
  have err: "e = PackError" if "unpack_fmt default_packers f data off = Inl e" for e
    using that unpack_item_error [of p data off] registry_facts(1) [OF f(2)]
    by (auto simp: f lookup_packer_def named_error_def unpack_error_def split: sum.splits if_splits)
  have cnt: "length vs = fmt_arity f" if "unpack_fmt default_packers f data off = Inr (vs, off')" for vs off'
    using that unpack_item_count [of None p data off vs off'] registry_facts(2) [OF f(2)]
    by (auto simp: f lookup_packer_def named_error_def fmt_arity_def split: sum.splits)
  from Cons err cnt show ?case by (fastforce simp: bind_result_eq_Inl bind_result_eq_Inr)
qed simp



text \<open>
  a nested payload is unpacked inside an exception handler that converts nothing, so
  truncated data of a class with a nested class raises \<^verbatim>\<open>struct.error\<close>, not \<open>PackError\<close>.
\<close>

theorem nested_payload_leaks_struct_error:
  assumes "length data < off + 2"
  shows "unpack_serializable default_packers (PClass n (FmtClass c # fs)) data off = raise StructError"
  using assms by (simp add: unpack_serializable_def registry_simps unpack_len_def)

theorem nested_payload_leaks_struct_error_witness:
  "unpack_serializable default_packers (PClass ''Outer'' [FmtClass ex_inner]) [7] 0 = raise StructError"
  by (rule nested_payload_leaks_struct_error) simp

text \<open>
  the length prefix of a byte string is not checked against the data: a message cut off
  inside the string is accepted with a shorter string and counts as entirely consumed.
\<close>

theorem truncated_string_accepted:
  assumes "length b < 65536" "k \<le> length b"
  shows "unpack_serializable_list default_packers [PClass n [Fmt ''varlenH'']]
      (bytes_of_nat 2 (length b) @ take k b) 0 True =
    return [PObj (PClass n [Fmt ''varlenH'']) [PBytes (take k b)]]"
  using assms
  by (simp add: unpack_serializable_list_def unpack_serializable_def registry_simps unpack_varlen_def unpack_len_def
      nat_of_bytes_of_nat named_error_def from_unpack_list_def fmt_arity_def)

theorem truncated_string_accepted_witness:
  "unpack_serializable_list default_packers [PClass ''P'' [Fmt ''varlenH'']] [0, 3, 1] 0 True =
     return [PObj (PClass ''P'' [Fmt ''varlenH'']) [PBytes [1]]]"
proof -
  have e: "bytes_of_nat 2 (length [1, 2, 3 :: byte]) @ take 1 [1, 2, 3] = [0, 3, 1]"
    by code_simp
  have t: "take 1 [1, 2, 3 :: byte] = [1]" by simp
  have "length [1, 2, 3 :: byte] < 65536" "1 \<le> length [1, 2, 3 :: byte]" by simp_all
  from truncated_string_accepted [OF this, of "''P''"] show ?thesis unfolding e unfolding t .
qed

end
