(* ===== verification/Payloads.thy ===== *)
theory Payloads
  imports Roundtrip
begin

text \<open>
  The payloads of the communities: the classes with their names and formats (generated
  constructors for the ones compiled by \<^verbatim>\<open>vp_compile\<close>, written out for the old-style ones), how a
  payload is constructed, the packers that communities add, and the layout of a cell.
\<close>

unbundle bit_operations_syntax

section \<open>Payload classes\<close>

text \<open>
  A payload class: its name, the message identifier of the classes that have one, the names
  of its fields and its format list. The classes of the program follow, module by module.
\<close>

datatype payload_spec =
  PayloadSpec (spec_name: string) (spec_msg_id: "nat option") (spec_names: "string list")
    (spec_formats: "fmt list")

abbreviation payload_spec :: "string \<Rightarrow> nat option \<Rightarrow> string list \<Rightarrow> fmt list \<Rightarrow> payload_spec" where
  "payload_spec \<equiv> PayloadSpec"

definition spec_class :: "payload_spec \<Rightarrow> pclass" where
  "spec_class s = PClass (spec_name s) (spec_formats s)"

definition NewIntroductionRequestPayload :: payload_spec where
  "NewIntroductionRequestPayload = payload_spec ''NewIntroductionRequestPayload'' (Some 234)
     [''destination_address'', ''source_lan_address'', ''source_wan_address'',
      ''identifier'', ''connection_type_0'', ''connection_type_1'', ''supports_new_style'',
      ''dflag1'', ''dflag2'', ''tunnel'', ''sync'', ''advice'', ''extra_bytes'']
     [Fmt ''ip_address'', Fmt ''ip_address'', Fmt ''ip_address'', Fmt ''H'', Fmt ''bits'',
      Fmt ''raw'']"

definition NewIntroductionResponsePayload :: payload_spec where
  "NewIntroductionResponsePayload = payload_spec ''NewIntroductionResponsePayload'' (Some 233)
     [''destination_address'', ''source_lan_address'', ''source_wan_address'',
      ''lan_introduction_address'', ''wan_introduction_address'', ''identifier'',
      ''intro_supports_new_style'', ''flag1'', ''flag2'', ''flag3'', ''flag4'', ''flag5'',
      ''flag6'', ''flag7'', ''extra_bytes'']
     [Fmt ''ip_address'', Fmt ''ip_address'', Fmt ''ip_address'', Fmt ''ip_address'',
      Fmt ''ip_address'', Fmt ''H'', Fmt ''bits'', Fmt ''raw'']"

definition NewPunctureRequestPayload :: payload_spec where
  "NewPunctureRequestPayload = payload_spec ''NewPunctureRequestPayload'' (Some 232)
     [''lan_walker_address'', ''wan_walker_address'', ''identifier'']
     [Fmt ''ip_address'', Fmt ''ip_address'', Fmt ''H'']"

definition NewPuncturePayload :: payload_spec where
  "NewPuncturePayload = payload_spec ''NewPuncturePayload'' (Some 231)
     [''source_lan_address'', ''source_wan_address'', ''identifier'']
     [Fmt ''ip_address'', Fmt ''ip_address'', Fmt ''H'']"

definition BinMemberAuthenticationPayload :: payload_spec where
  "BinMemberAuthenticationPayload = payload_spec ''BinMemberAuthenticationPayload'' (None)
     [''public_key_bin'']
     [Fmt ''varlenH'']"

definition GlobalTimeDistributionPayload :: payload_spec where
  "GlobalTimeDistributionPayload = payload_spec ''GlobalTimeDistributionPayload'' (None)
     [''global_time'']
     [Fmt ''Q'']"

definition dht_PingRequestPayload :: payload_spec where
  "dht_PingRequestPayload = payload_spec ''PingRequestPayload'' (Some 1)
     [''identifier'']
     [Fmt ''I'']"

definition dht_PingResponsePayload :: payload_spec where
  "dht_PingResponsePayload = payload_spec ''PingResponsePayload'' (Some 2)
     [''identifier'']
     [Fmt ''I'']"

definition dht_StoreRequestPayload :: payload_spec where
  "dht_StoreRequestPayload = payload_spec ''StoreRequestPayload'' (Some 3)
     [''identifier'', ''token'', ''target'', ''values'']
     [Fmt ''I'', Fmt ''20s'', Fmt ''20s'', Fmt ''varlenH-list'']"

definition dht_StoreResponsePayload :: payload_spec where
  "dht_StoreResponsePayload = payload_spec ''StoreResponsePayload'' (Some 4)
     [''identifier'']
     [Fmt ''I'']"

definition dht_FindRequestPayload :: payload_spec where
  "dht_FindRequestPayload = payload_spec ''FindRequestPayload'' (Some 5)
     [''identifier'', ''lan_address'', ''target'', ''offset'', ''force_nodes'']
     [Fmt ''I'', Fmt ''ip_address'', Fmt ''20s'', Fmt ''I'', Fmt ''?'']"

definition dht_FindResponsePayload :: payload_spec where
  "dht_FindResponsePayload = payload_spec ''FindResponsePayload'' (Some 6)
     [''identifier'', ''token'', ''values'', ''nodes'']
     [Fmt ''I'', Fmt ''20s'', Fmt ''varlenH-list'', Fmt ''node-list'']"

definition dht_StorePeerRequestPayload :: payload_spec where
  "dht_StorePeerRequestPayload = payload_spec ''StorePeerRequestPayload'' (Some 7)
     [''identifier'', ''token'', ''target'']
     [Fmt ''I'', Fmt ''20s'', Fmt ''20s'']"

definition dht_StorePeerResponsePayload :: payload_spec where
  "dht_StorePeerResponsePayload = payload_spec ''StorePeerResponsePayload'' (Some 8)
     [''identifier'']
     [Fmt ''I'']"

definition dht_ConnectPeerRequestPayload :: payload_spec where
  "dht_ConnectPeerRequestPayload = payload_spec ''ConnectPeerRequestPayload'' (Some 9)
     [''identifier'', ''lan_address'', ''target'']
     [Fmt ''I'', Fmt ''ip_address'', Fmt ''20s'']"

definition dht_ConnectPeerResponsePayload :: payload_spec where
  "dht_ConnectPeerResponsePayload = payload_spec ''ConnectPeerResponsePayload'' (Some 10)
     [''identifier'', ''nodes'']
     [Fmt ''I'', Fmt ''node-list'']"

definition dht_StrPayload :: payload_spec where
  "dht_StrPayload = payload_spec ''StrPayload'' (None)
     [''data'']
     [Fmt ''raw'']"

definition dht_SignedStrPayload :: payload_spec where
  "dht_SignedStrPayload = payload_spec ''SignedStrPayload'' (None)
     [''data'', ''version'', ''public_key'']
     [Fmt ''varlenH'', Fmt ''I'', Fmt ''varlenH'']"

definition DHTIntroPointPayload :: payload_spec where
  "DHTIntroPointPayload = payload_spec ''DHTIntroPointPayload'' (None)
     [''address'', ''last_seen'', ''intro_pk'', ''seeder_pk'']
     [Fmt ''ip_address'', Fmt ''I'', Fmt ''varlenH'', Fmt ''varlenH'']"

definition tunnel_ExtraIntroductionPayload :: payload_spec where
  "tunnel_ExtraIntroductionPayload = payload_spec ''ExtraIntroductionPayload'' (None)
     [''flags'']
     [Fmt ''flags'']"

definition tunnel_DataPayload :: payload_spec where
  "tunnel_DataPayload = payload_spec ''DataPayload'' (Some 1)
     [''circuit_id'', ''dest_address'', ''org_address'', ''data'']
     [Fmt ''I'', Fmt ''address'', Fmt ''address'', Fmt ''raw'']"

definition tunnel_CreatePayload :: payload_spec where
  "tunnel_CreatePayload = payload_spec ''CreatePayload'' (Some 2)
     [''circuit_id'', ''identifier'', ''node_public_key'', ''key'']
     [Fmt ''I'', Fmt ''H'', Fmt ''varlenH'', Fmt ''varlenH'']"

definition tunnel_CreatedPayload :: payload_spec where
  "tunnel_CreatedPayload = payload_spec ''CreatedPayload'' (Some 3)
     [''circuit_id'', ''identifier'', ''key'', ''auth'', ''candidates_enc'']
     [Fmt ''I'', Fmt ''H'', Fmt ''varlenH'', Fmt ''32s'', Fmt ''raw'']"

definition tunnel_ExtendPayload :: payload_spec where
  "tunnel_ExtendPayload = payload_spec ''ExtendPayload'' (Some 4)
     [''circuit_id'', ''identifier'', ''node_public_key'', ''key'', ''node_addr'']
     [Fmt ''I'', Fmt ''H'', Fmt ''varlenH'', Fmt ''varlenH'', Fmt ''ip_address'']"

definition tunnel_ExtendedPayload :: payload_spec where
  "tunnel_ExtendedPayload = payload_spec ''ExtendedPayload'' (Some 5)
     [''circuit_id'', ''identifier'', ''key'', ''auth'', ''candidates_enc'']
     [Fmt ''I'', Fmt ''H'', Fmt ''varlenH'', Fmt ''32s'', Fmt ''raw'']"

definition tunnel_PingPayload :: payload_spec where
  "tunnel_PingPayload = payload_spec ''PingPayload'' (Some 6)
     [''circuit_id'', ''identifier'']
     [Fmt ''I'', Fmt ''H'']"

definition tunnel_PongPayload :: payload_spec where
  "tunnel_PongPayload = payload_spec ''PongPayload'' (Some 7)
     [''circuit_id'', ''identifier'']
     [Fmt ''I'', Fmt ''H'']"

definition tunnel_DestroyPayload :: payload_spec where
  "tunnel_DestroyPayload = payload_spec ''DestroyPayload'' (Some 8)
     [''circuit_id'', ''reason'']
     [Fmt ''I'', Fmt ''H'']"

definition tunnel_EstablishIntroPayload :: payload_spec where
  "tunnel_EstablishIntroPayload = payload_spec ''EstablishIntroPayload'' (Some 9)
     [''circuit_id'', ''identifier'', ''info_hash'', ''public_key'']
     [Fmt ''I'', Fmt ''H'', Fmt ''20s'', Fmt ''varlenH'']"

definition tunnel_IntroEstablishedPayload :: payload_spec where
  "tunnel_IntroEstablishedPayload = payload_spec ''IntroEstablishedPayload'' (Some 10)
     [''circuit_id'', ''identifier'']
     [Fmt ''I'', Fmt ''H'']"

definition tunnel_EstablishRendezvousPayload :: payload_spec where
  "tunnel_EstablishRendezvousPayload = payload_spec ''EstablishRendezvousPayload'' (Some 11)
     [''circuit_id'', ''identifier'', ''cookie'']
     [Fmt ''I'', Fmt ''H'', Fmt ''20s'']"

definition tunnel_RendezvousEstablishedPayload :: payload_spec where
  "tunnel_RendezvousEstablishedPayload = payload_spec ''RendezvousEstablishedPayload'' (Some 12)
     [''circuit_id'', ''identifier'', ''rendezvous_point_addr'']
     [Fmt ''I'', Fmt ''H'', Fmt ''ip_address'']"

definition tunnel_CreateE2EPayload :: payload_spec where
  "tunnel_CreateE2EPayload = payload_spec ''CreateE2EPayload'' (Some 13)
     [''identifier'', ''info_hash'', ''node_public_key'', ''key'']
     [Fmt ''H'', Fmt ''20s'', Fmt ''varlenH'', Fmt ''varlenH'']"

definition tunnel_CreatedE2EPayload :: payload_spec where
  "tunnel_CreatedE2EPayload = payload_spec ''CreatedE2EPayload'' (Some 14)
     [''identifier'', ''key'', ''auth'', ''rp_info_enc'']
     [Fmt ''H'', Fmt ''varlenH'', Fmt ''32s'', Fmt ''raw'']"

definition tunnel_LinkE2EPayload :: payload_spec where
  "tunnel_LinkE2EPayload = payload_spec ''LinkE2EPayload'' (Some 15)
     [''circuit_id'', ''identifier'', ''cookie'']
     [Fmt ''I'', Fmt ''H'', Fmt ''20s'']"

definition tunnel_LinkedE2EPayload :: payload_spec where
  "tunnel_LinkedE2EPayload = payload_spec ''LinkedE2EPayload'' (Some 16)
     [''circuit_id'', ''identifier'']
     [Fmt ''I'', Fmt ''H'']"

definition tunnel_PeersRequestPayload :: payload_spec where
  "tunnel_PeersRequestPayload = payload_spec ''PeersRequestPayload'' (Some 17)
     [''circuit_id'', ''identifier'', ''info_hash'']
     [Fmt ''I'', Fmt ''H'', Fmt ''20s'']"

definition tunnel_IntroductionInfo :: payload_spec where
  "tunnel_IntroductionInfo = payload_spec ''IntroductionInfo'' (None)
     [''address'', ''key'', ''seeder_pk'', ''source'']
     [Fmt ''ip_address'', Fmt ''varlenH'', Fmt ''varlenH'', Fmt ''B'']"

definition tunnel_PeersResponsePayload :: payload_spec where
  "tunnel_PeersResponsePayload = payload_spec ''PeersResponsePayload'' (Some 18)
     [''circuit_id'', ''identifier'', ''info_hash'', ''peers'']
     [Fmt ''I'', Fmt ''H'', Fmt ''20s'', FmtList (spec_class tunnel_IntroductionInfo)]"

definition tunnel_RendezvousInfo :: payload_spec where
  "tunnel_RendezvousInfo = payload_spec ''RendezvousInfo'' (None)
     [''address'', ''key'', ''cookie'']
     [Fmt ''ip_address'', Fmt ''varlenH'', Fmt ''20s'']"

definition tunnel_TestRequestPayload :: payload_spec where
  "tunnel_TestRequestPayload = payload_spec ''TestRequestPayload'' (Some 19)
     [''circuit_id'', ''identifier'', ''response_size'', ''data'']
     [Fmt ''I'', Fmt ''H'', Fmt ''H'', Fmt ''raw'']"

definition tunnel_TestResponsePayload :: payload_spec where
  "tunnel_TestResponsePayload = payload_spec ''TestResponsePayload'' (Some 20)
     [''circuit_id'', ''identifier'', ''data'']
     [Fmt ''I'', Fmt ''H'', Fmt ''raw'']"

definition identity_DisclosePayload :: payload_spec where
  "identity_DisclosePayload = payload_spec ''DisclosePayload'' (Some 1)
     [''metadata'', ''tokens'', ''attestations'', ''authorities'']
     [Fmt ''varlenH'', Fmt ''varlenH'', Fmt ''varlenH'', Fmt ''varlenH'']"

definition identity_AttestPayload :: payload_spec where
  "identity_AttestPayload = payload_spec ''AttestPayload'' (Some 2)
     [''attestation'']
     [Fmt ''varlenH'']"

definition identity_RequestMissingPayload :: payload_spec where
  "identity_RequestMissingPayload = payload_spec ''RequestMissingPayload'' (Some 3)
     [''known'']
     [Fmt ''I'']"

definition identity_MissingResponsePayload :: payload_spec where
  "identity_MissingResponsePayload = payload_spec ''MissingResponsePayload'' (Some 4)
     [''tokens'']
     [Fmt ''raw'']"

definition wallet_RequestAttestationPayload :: payload_spec where
  "wallet_RequestAttestationPayload = payload_spec ''RequestAttestationPayload'' (Some 5)
     [''metadata'']
     [Fmt ''raw'']"

definition wallet_VerifyAttestationRequestPayload :: payload_spec where
  "wallet_VerifyAttestationRequestPayload = payload_spec ''VerifyAttestationRequestPayload'' (Some 1)
     [''attestation_hash'']
     [Fmt ''20s'']"

definition wallet_AttestationChunkPayload :: payload_spec where
  "wallet_AttestationChunkPayload = payload_spec ''AttestationChunkPayload'' (Some 2)
     [''attestation_hash'', ''sequence_number'', ''data'']
     [Fmt ''20s'', Fmt ''H'', Fmt ''raw'']"

definition wallet_ChallengePayload :: payload_spec where
  "wallet_ChallengePayload = payload_spec ''ChallengePayload'' (Some 3)
     [''attestation_hash'', ''challenge'']
     [Fmt ''20s'', Fmt ''raw'']"

definition wallet_ChallengeResponsePayload :: payload_spec where
  "wallet_ChallengeResponsePayload = payload_spec ''ChallengeResponsePayload'' (Some 4)
     [''challenge_hash'', ''response'']
     [Fmt ''20s'', Fmt ''raw'']"

definition chain_SubmitTransaction :: payload_spec where
  "chain_SubmitTransaction = payload_spec ''SubmitTransaction'' (Some 1)
     [''sender_key'', ''data'', ''timestamp'', ''signature'']
     [Fmt ''varlenH'', Fmt ''varlenH'', Fmt ''q'', Fmt ''varlenH'']"

definition chain_SubmitTransactionResponse :: payload_spec where
  "chain_SubmitTransactionResponse = payload_spec ''SubmitTransactionResponse'' (Some 2)
     [''success'', ''tx_hash'', ''message'']
     [Fmt ''?'', Fmt ''varlenH'', Fmt ''varlenHutf8'']"

definition chain_GetChainHeight :: payload_spec where
  "chain_GetChainHeight = payload_spec ''GetChainHeight'' (Some 3)
     [''request_id'']
     [Fmt ''q'']"

definition chain_ChainHeightResponse :: payload_spec where
  "chain_ChainHeightResponse = payload_spec ''ChainHeightResponse'' (Some 4)
     [''request_id'', ''height'', ''tip_hash'']
     [Fmt ''q'', Fmt ''q'', Fmt ''varlenH'']"

definition chain_GetBlock :: payload_spec where
  "chain_GetBlock = payload_spec ''GetBlock'' (Some 5)
     [''height'']
     [Fmt ''q'']"

definition chain_BlockResponse :: payload_spec where
  "chain_BlockResponse = payload_spec ''BlockResponse'' (Some 6)
     [''height'', ''prev_hash'', ''txs_hash'', ''timestamp'', ''difficulty'', ''nonce'',
      ''block_hash'', ''tx_hashes'']
     [Fmt ''q'', Fmt ''varlenH'', Fmt ''varlenH'', Fmt ''q'', Fmt ''q'', Fmt ''q'',
      Fmt ''varlenH'', Fmt ''varlenH'']"

definition chain_BlockMined :: payload_spec where
  "chain_BlockMined = payload_spec ''BlockMined'' (Some 7)
     [''height'', ''prev_hash'', ''txs_hash'', ''timestamp'', ''difficulty'', ''nonce'',
      ''block_hash'', ''tx_hashes'']
     [Fmt ''q'', Fmt ''varlenH'', Fmt ''varlenH'', Fmt ''q'', Fmt ''q'', Fmt ''q'',
      Fmt ''varlenH'', Fmt ''varlenH'']"

definition chain_HeartbeatRequest :: payload_spec where
  "chain_HeartbeatRequest = payload_spec ''HeartbeatRequest'' (Some 8)
     [''default'']
     [Fmt ''q'']"

definition chain_HeartbeatResponse :: payload_spec where
  "chain_HeartbeatResponse = payload_spec ''HeartbeatResponse'' (Some 9)
     [''default'']
     [Fmt ''q'']"

definition chain_ReadyMessage :: payload_spec where
  "chain_ReadyMessage = payload_spec ''ReadyMessage'' (Some 10)
     [''ready'']
     [Fmt ''?'']"

definition chain_NewBlock :: payload_spec where
  "chain_NewBlock = payload_spec ''NewBlock'' (Some 100)
     [''height'', ''prev_hash'', ''txs_hash'', ''timestamp'', ''difficulty'', ''nonce'',
      ''tx_hashes'']
     [Fmt ''Q'', Fmt ''varlenH'', Fmt ''varlenH'', Fmt ''Q'', Fmt ''I'', Fmt ''I'',
      Fmt ''varlenH'']"

definition registration_Register :: payload_spec where
  "registration_Register = payload_spec ''Register'' (Some 1)
     [''group_id'', ''community_id'']
     [Fmt ''varlenHutf8'', Fmt ''varlenH'']"

definition registration_RegisterResponse :: payload_spec where
  "registration_RegisterResponse = payload_spec ''RegisterResponse'' (Some 2)
     [''success'', ''message'']
     [Fmt ''?'', Fmt ''varlenHutf8'']"

definition registration_ReadyMessage :: payload_spec where
  "registration_ReadyMessage = payload_spec ''ReadyMessage'' (Some 3)
     [''ready'']
     [Fmt ''?'']"

section \<open>The messages of each community\<close>

definition overlay_messages :: "payload_spec list" where
  "overlay_messages =
     [NewIntroductionRequestPayload, NewIntroductionResponsePayload,
      NewPunctureRequestPayload, NewPuncturePayload, BinMemberAuthenticationPayload,
      GlobalTimeDistributionPayload]"

definition dht_messages :: "payload_spec list" where
  "dht_messages =
     [dht_PingRequestPayload, dht_PingResponsePayload, dht_StoreRequestPayload,
      dht_StoreResponsePayload, dht_FindRequestPayload, dht_FindResponsePayload,
      dht_StorePeerRequestPayload, dht_StorePeerResponsePayload,
      dht_ConnectPeerRequestPayload, dht_ConnectPeerResponsePayload, dht_StrPayload,
      dht_SignedStrPayload, DHTIntroPointPayload]"

definition tunnel_messages :: "payload_spec list" where
  "tunnel_messages =
     [tunnel_ExtraIntroductionPayload, tunnel_DataPayload, tunnel_CreatePayload,
      tunnel_CreatedPayload, tunnel_ExtendPayload, tunnel_ExtendedPayload,
      tunnel_PingPayload, tunnel_PongPayload, tunnel_DestroyPayload,
      tunnel_EstablishIntroPayload, tunnel_IntroEstablishedPayload,
      tunnel_EstablishRendezvousPayload, tunnel_RendezvousEstablishedPayload,
      tunnel_CreateE2EPayload, tunnel_CreatedE2EPayload, tunnel_LinkE2EPayload,
      tunnel_LinkedE2EPayload, tunnel_PeersRequestPayload, tunnel_IntroductionInfo,
      tunnel_PeersResponsePayload, tunnel_RendezvousInfo, tunnel_TestRequestPayload,
      tunnel_TestResponsePayload]"

definition identity_messages :: "payload_spec list" where
  "identity_messages =
     [identity_DisclosePayload, identity_AttestPayload, identity_RequestMissingPayload,
      identity_MissingResponsePayload]"

definition wallet_messages :: "payload_spec list" where
  "wallet_messages =
     [wallet_RequestAttestationPayload, wallet_VerifyAttestationRequestPayload,
      wallet_AttestationChunkPayload, wallet_ChallengePayload,
      wallet_ChallengeResponsePayload]"

definition chain_messages :: "payload_spec list" where
  "chain_messages =
     [chain_SubmitTransaction, chain_SubmitTransactionResponse, chain_GetChainHeight,
      chain_ChainHeightResponse, chain_GetBlock, chain_BlockResponse, chain_BlockMined,
      chain_HeartbeatRequest, chain_HeartbeatResponse, chain_ReadyMessage, chain_NewBlock]"

definition registration_messages :: "payload_spec list" where
  "registration_messages =
     [registration_Register, registration_RegisterResponse, registration_ReadyMessage]"

definition all_payloads :: "payload_spec list" where
  "all_payloads =
     overlay_messages @ dht_messages @ tunnel_messages @ identity_messages @
     wallet_messages @ chain_messages @ registration_messages"

section \<open>Constructing a payload\<close>

text \<open>
  \<^verbatim>\<open>VariablePayload.__init__\<close>: the arguments of an old-style superclass, if any, are taken
  first, from the keywords or by position; then every format takes its values (eight for
  \<^verbatim>\<open>bits\<close>) by position while there are positional arguments and by name afterwards.
\<close>

type_synonym attrs = "(string, pyval) dict"

fun super_args :: "string list \<Rightarrow> pyval list \<Rightarrow> attrs \<Rightarrow> nat \<Rightarrow> (attrs \<times> attrs \<times> nat) result" where
  "super_args [] args kwargs index = return ([], kwargs, index)"
| "super_args (a # as) args kwargs index =
     (case dict_get kwargs a of
        Some v \<Rightarrow>
          bind_result (super_args as args (dict_del a kwargs) (Suc index)) (\<lambda>(fwd, kw, i).
            return ((a, v) # fwd, kw, i))
      | None \<Rightarrow>
          if index < length args then
            bind_result (super_args as args kwargs (Suc index)) (\<lambda>(fwd, kw, i).
              return ((a, args ! index) # fwd, kw, i))
          else raise IndexError)"

definition next_value :: "string list \<Rightarrow> pyval list \<Rightarrow> attrs \<Rightarrow> nat \<Rightarrow> (pyval \<times> attrs) result" where
  "next_value names args kwargs index =
     (if index < length args then return (args ! index, kwargs)
      else if length names \<le> index then raise IndexError
      else case dict_get kwargs (names ! index) of
             None \<Rightarrow> raise KeyError
           | Some v \<Rightarrow> return (v, dict_del (names ! index) kwargs))"

fun set_values ::
  "string list \<Rightarrow> pyval list \<Rightarrow> nat \<Rightarrow> attrs \<Rightarrow> nat \<Rightarrow> attrs \<Rightarrow> (attrs \<times> nat \<times> attrs) result" where
  "set_values names args 0 kwargs index out = return (kwargs, index, out)"
| "set_values names args (Suc n) kwargs index out =
     bind_result (next_value names args kwargs index) (\<lambda>(v, kwargs').
       if length names \<le> index then raise IndexError
       else set_values names args n kwargs' (Suc index) (dict_set (names ! index) v out))"

fun set_formats ::
  "string list \<Rightarrow> pyval list \<Rightarrow> fmt list \<Rightarrow> attrs \<Rightarrow> nat \<Rightarrow> attrs \<Rightarrow> (attrs \<times> nat \<times> attrs) result" where
  "set_formats names args [] kwargs index out = return (kwargs, index, out)"
| "set_formats names args (f # fs) kwargs index out =
     bind_result (set_values names args (fmt_arity f) kwargs index out) (\<lambda>(kwargs', index', out').
       set_formats names args fs kwargs' index' out')"

definition vp_init :: "string list \<Rightarrow> payload_spec \<Rightarrow> pyval list \<Rightarrow> attrs \<Rightarrow> attrs result" where
  "vp_init super_argspec s args kwargs =
     bind_result (super_args super_argspec args kwargs 0) (\<lambda>(fwd, kw, index).
       bind_result (set_formats (spec_names s) args (drop index (spec_formats s)) kw index fwd)
         (\<lambda>(kw', index', out).
           if index' < length args then raise KeyError
           else if kw' \<noteq> [] then raise KeyError
           else return out))"

text \<open>\<^verbatim>\<open>_fix_pack\<close>: a value is looked up by name and goes through its custom rule, if it has one.\<close>

definition fix_pack :: "(string \<Rightarrow> (pyval \<Rightarrow> pyval) option) \<Rightarrow> attrs \<Rightarrow> string \<Rightarrow> pyval result" where
  "fix_pack rules self name =
     (case dict_get self name of
        None \<Rightarrow> raise AttributeError
      | Some v \<Rightarrow> return (case rules name of Some f \<Rightarrow> f v | None \<Rightarrow> v))"

section \<open>Data classes\<close>

text \<open>
  \<^verbatim>\<open>type_map\<close> of \<^verbatim>\<open>payload_dataclass.py\<close>, from type annotations to formats. A generic type is
  judged by its first argument, which \<^verbatim>\<open>issubclass\<close> needs to be a class.
\<close>

datatype pytype =
    TBool | TInt | TFloat | TBytes | TStr
  | TVar string
  | TGeneric pytype
  | TSerializable pclass
  | TOther

fun type_map :: "pytype \<Rightarrow> fmt result" where
  "type_map TBool = return (Fmt ''?'')"
| "type_map TInt = return (Fmt ''q'')"
| "type_map TFloat = return (Fmt ''d'')"
| "type_map TBytes = return (Fmt ''varlenH'')"
| "type_map TStr = return (Fmt ''varlenHutf8'')"
| "type_map (TVar n) = return (Fmt n)"
| "type_map (TGeneric t) =
     (case t of
        TSerializable c \<Rightarrow> return (FmtList c)
      | TVar _ \<Rightarrow> raise TypeError
      | TGeneric _ \<Rightarrow> raise TypeError
      | _ \<Rightarrow>
          bind_result (type_map t) (\<lambda>f.
            case f of Fmt n \<Rightarrow> return (Fmt (''arrayH-'' @ n)) | _ \<Rightarrow> raise TypeError))"
| "type_map (TSerializable c) = return (FmtClass c)"
| "type_map TOther = raise RuntimeError"

definition convert_to_payload :: "string \<Rightarrow> nat option \<Rightarrow> (string \<times> pytype) list \<Rightarrow> payload_spec result" where
  "convert_to_payload name msg_id dt_fields =
     bind_result (map_result (\<lambda>f. type_map (snd f)) dt_fields) (\<lambda>fs.
       return (PayloadSpec name msg_id (map fst dt_fields) fs))"

section \<open>Packers of the communities\<close>

text \<open>
  \<^verbatim>\<open>Flags\<close> (\<^verbatim>\<open>anonymization/payload.py\<close>), for its default format \<^verbatim>\<open>>H\<close>: the flags are or-ed
  into one number and read back bit by bit. The offset it returns is the size of the field
  and not the position after it.
\<close>

fun ints_of :: "pyval list \<Rightarrow> int list option" where
  "ints_of [] = Some []"
| "ints_of (v # vs) =
     (case as_int v of None \<Rightarrow> None | Some i \<Rightarrow> map_option ((#) i) (ints_of vs))"

definition pack_flags :: "pyval \<Rightarrow> bytes result" where
  "pack_flags v =
     (case v of
        PList vs \<Rightarrow>
          (case ints_of vs of
             None \<Rightarrow> raise TypeError
           | Some is \<Rightarrow> pack_struct [SUInt 2] [PInt (foldl (OR) 0 is)])
      | _ \<Rightarrow> raise TypeError)"

definition flags_of :: "nat \<Rightarrow> nat list" where
  "flags_of n = filter (\<lambda>x. x \<noteq> 0) (map (\<lambda>i. n AND 2 ^ i) [0..<16])"

definition unpack_flags :: "bytes \<Rightarrow> nat \<Rightarrow> (pyval \<times> nat) result" where
  "unpack_flags data off =
     bind_result (unpack_len (BigLen 2) data off) (\<lambda>n.
       return (PList (map (\<lambda>x. PInt (int x)) (flags_of n)), 2))"

definition tunnel_serializer :: serializer where
  "tunnel_serializer = add_packer ''flags'' (Custom pack_flags unpack_flags) default_packers"

text \<open>
  \<^verbatim>\<open>NodePacker\<close> (\<^verbatim>\<open>dht/payload.py\<close>): an address and a serialised public key. A node is an
  object with these two values; the crypto library's parser, which a node's constructor
  calls, is a parameter that names the exception for bytes that are not a public key.
\<close>

definition node_class :: pclass where
  "node_class = PClass ''Node'' [Fmt ''ip_address'', Fmt ''varlenH'']"

definition pack_node :: "serializer \<Rightarrow> pyval \<Rightarrow> bytes result" where
  "pack_node ser v =
     (case v of
        PObj c [a, k] \<Rightarrow>
          bind_result (serializer_pack ser ''ip_address'' a) (\<lambda>x.
            bind_result (serializer_pack ser ''varlenH'' k) (\<lambda>y. return (x @ y)))
      | _ \<Rightarrow> raise AttributeError)"

definition unpack_node ::
  "(bytes \<Rightarrow> py_error option) \<Rightarrow> serializer \<Rightarrow> bytes \<Rightarrow> nat \<Rightarrow> (pyval \<times> nat) result" where
  "unpack_node key_error ser data off =
     bind_result (serializer_unpack ser (Fmt ''ip_address'') data off) (\<lambda>(a, off').
       bind_result (serializer_unpack ser (Fmt ''varlenH'') data off') (\<lambda>(k, off'').
         case k of
           PBytes b \<Rightarrow>
             (if is_private_key_bin b then raise ValueError
              else case key_error b of
                     Some e \<Rightarrow> raise e
                   | None \<Rightarrow> return (PObj node_class [a, PBytes b], off''))
         | _ \<Rightarrow> raise TypeError))"

definition dht_serializer :: "(bytes \<Rightarrow> py_error option) \<Rightarrow> serializer" where
  "dht_serializer key_error =
     add_packer ''node-list''
       (ListOf (Custom (pack_node default_packers) (unpack_node key_error default_packers)) (BigLen 1))
       default_packers"

section \<open>Cells\<close>

text \<open>
  \<^verbatim>\<open>CellPayload\<close> (\<^verbatim>\<open>anonymization/payload.py\<close>): the layout of a cell on the wire. A packet
  that is too short for its header is a \<^verbatim>\<open>struct.error\<close>.
\<close>

record cell =
  circuit_id :: int
  message :: bytes
  plaintext :: bool
  relay_early :: bool

definition CELL_MSG_ID :: byte where "CELL_MSG_ID = 0"

definition cell_unwrap :: "bytes \<Rightarrow> cell \<Rightarrow> bytes result" where
  "cell_unwrap ov_prefix c =
     bind_result (pack_struct [SUInt 4] [PInt (circuit_id c)]) (\<lambda>cid.
       return (ov_prefix @ take 1 (message c) @ cid @ drop 1 (message c)))"

definition cell_to_bin :: "bytes \<Rightarrow> cell \<Rightarrow> bytes result" where
  "cell_to_bin ov_prefix c =
     bind_result
       (pack_struct [SUInt 4, SBool, SBool] [PInt (circuit_id c), PBool (plaintext c), PBool (relay_early c)])
       (\<lambda>header. return (ov_prefix @ [CELL_MSG_ID] @ header @ message c))"

definition cell_from_bin :: "bytes \<Rightarrow> cell result" where
  "cell_from_bin packet =
     bind_result (unpack_from [SUInt 4, SBool, SBool] packet 23) (\<lambda>vs.
       case vs of
         [PInt cid, PBool p, PBool r] \<Rightarrow>
           return \<lparr>circuit_id = cid, message = drop 29 packet, plaintext = p, relay_early = r\<rparr>
       | _ \<Rightarrow> raise StructError)"

definition NO_CRYPTO_PACKETS :: "nat list" where
  "NO_CRYPTO_PACKETS = map (\<lambda>s. the (spec_msg_id s)) [tunnel_CreatePayload, tunnel_CreatedPayload]"

section \<open>Introduction and puncture payloads\<close>

text \<open>The old-style payloads of \<^verbatim>\<open>messaging/payload.py\<close>.\<close>

definition encode_connection_type :: "string \<Rightarrow> int \<times> int" where
  "encode_connection_type conn_type =
     (if conn_type = ''public'' then (1, 0)
      else if conn_type = ''symmetric-NAT'' then (1, 1)
      else (0, 0))"

text \<open>The bits are compared as Python compares them, where \<^verbatim>\<open>True == 1\<close>.\<close>

definition decode_connection_type :: "pyval \<Rightarrow> pyval \<Rightarrow> string" where
  "decode_connection_type bit_0 bit_1 =
     (if (as_int bit_0, as_int bit_1) = (Some 0, Some 0) then ''unknown''
      else if (as_int bit_0, as_int bit_1) = (Some 1, Some 0) then ''public''
      else if (as_int bit_0, as_int bit_1) = (Some 1, Some 1) then ''symmetric-NAT''
      else ''N/A'')"

text \<open>Indexing \<^verbatim>\<open>[True, False]\<close> with an unpacked bit, and an identifier cut to sixteen bits.\<close>

definition true_false :: "pyval \<Rightarrow> bool result" where
  "true_false v =
     (case as_int v of
        None \<Rightarrow> raise TypeError
      | Some i \<Rightarrow>
          if i = 0 \<or> i = - 2 then return True else if i = 1 \<or> i = - 1 then return False
          else raise IndexError)"

definition mod_65536 :: "pyval \<Rightarrow> int result" where
  "mod_65536 v = (case as_int v of None \<Rightarrow> raise TypeError | Some i \<Rightarrow> return (i mod 65536))"

record intro_request =
  irq_destination_address :: pyval
  irq_source_lan_address :: pyval
  irq_source_wan_address :: pyval
  irq_advice :: bool
  irq_connection_type :: string
  irq_identifier :: int
  irq_extra_bytes :: pyval
  irq_supports_new_style :: bool

definition irq_format_list :: "fmt list" where
  "irq_format_list = map Fmt [''ipv4'', ''ipv4'', ''ipv4'', ''bits'', ''H'', ''raw'']"

definition new_intro_request ::
  "pyval \<Rightarrow> pyval \<Rightarrow> pyval \<Rightarrow> bool \<Rightarrow> string \<Rightarrow> int \<Rightarrow> pyval \<Rightarrow> bool \<Rightarrow> intro_request" where
  "new_intro_request dst lan wan advice conn ident extra new_style =
     \<lparr>irq_destination_address = dst, irq_source_lan_address = lan, irq_source_wan_address = wan,
      irq_advice = advice, irq_connection_type = conn, irq_identifier = ident mod 65536,
      irq_extra_bytes = extra, irq_supports_new_style = new_style\<rparr>"

definition irq_to_pack_list :: "intro_request \<Rightarrow> (string \<times> pyval list) list" where
  "irq_to_pack_list p =
     (let c = encode_connection_type (irq_connection_type p)
      in [(''ipv4'', [irq_destination_address p]),
          (''ipv4'', [irq_source_lan_address p]),
          (''ipv4'', [irq_source_wan_address p]),
          (''bits'', [PInt (fst c), PInt (snd c), PBool (irq_supports_new_style p), PInt 0, PInt 0, PInt 0,
                      PInt 0, PBool (irq_advice p)]),
          (''H'', [PInt (irq_identifier p)]),
          (''raw'', [irq_extra_bytes p])])"

definition irq_from_unpack_list :: "pyval list \<Rightarrow> intro_request result" where
  "irq_from_unpack_list vs =
     (if length vs \<noteq> 13 then raise TypeError
      else
        bind_result (true_false (vs ! 10)) (\<lambda>advice.
          bind_result (mod_65536 (vs ! 11)) (\<lambda>ident.
            return (new_intro_request (vs ! 0) (vs ! 1) (vs ! 2) advice
              (decode_connection_type (vs ! 3) (vs ! 4)) ident (vs ! 12) (truthy (vs ! 5))))))"

record intro_response =
  irs_destination_address :: pyval
  irs_source_lan_address :: pyval
  irs_source_wan_address :: pyval
  irs_lan_introduction_address :: pyval
  irs_wan_introduction_address :: pyval
  irs_connection_type :: string
  irs_supports_new_style :: bool
  irs_intro_supports_new_style :: bool
  irs_peer_limit_reached :: bool
  irs_identifier :: int
  irs_extra_bytes :: pyval

definition irs_format_list :: "fmt list" where
  "irs_format_list = map Fmt [''ipv4'', ''ipv4'', ''ipv4'', ''ipv4'', ''ipv4'', ''bits'', ''H'', ''raw'']"

definition new_intro_response ::
  "pyval \<Rightarrow> pyval \<Rightarrow> pyval \<Rightarrow> pyval \<Rightarrow> pyval \<Rightarrow> string \<Rightarrow> int \<Rightarrow> pyval \<Rightarrow> bool \<Rightarrow> bool \<Rightarrow> bool \<Rightarrow> intro_response" where
  "new_intro_response dst lan wan ilan iwan conn ident extra new_style intro_new_style limit_reached =
     \<lparr>irs_destination_address = dst, irs_source_lan_address = lan, irs_source_wan_address = wan,
      irs_lan_introduction_address = ilan, irs_wan_introduction_address = iwan, irs_connection_type = conn,
      irs_supports_new_style = new_style, irs_intro_supports_new_style = intro_new_style,
      irs_peer_limit_reached = limit_reached, irs_identifier = ident mod 65536, irs_extra_bytes = extra\<rparr>"

definition irs_to_pack_list :: "intro_response \<Rightarrow> (string \<times> pyval list) list" where
  "irs_to_pack_list p =
     (let c = encode_connection_type (irs_connection_type p)
      in [(''ipv4'', [irs_destination_address p]),
          (''ipv4'', [irs_source_lan_address p]),
          (''ipv4'', [irs_source_wan_address p]),
          (''ipv4'', [irs_lan_introduction_address p]),
          (''ipv4'', [irs_wan_introduction_address p]),
          (''bits'', [PInt (fst c), PInt (snd c), PInt 0, PBool (irs_supports_new_style p),
                      PBool (irs_intro_supports_new_style p), PBool (irs_peer_limit_reached p), PInt 0, PInt 0]),
          (''H'', [PInt (irs_identifier p)]),
          (''raw'', [irs_extra_bytes p])])"

definition irs_from_unpack_list :: "pyval list \<Rightarrow> intro_response result" where
  "irs_from_unpack_list vs =
     (if length vs \<noteq> 15 then raise TypeError
      else
        bind_result (mod_65536 (vs ! 13)) (\<lambda>ident.
          return (new_intro_response (vs ! 0) (vs ! 1) (vs ! 2) (vs ! 3) (vs ! 4)
            (decode_connection_type (vs ! 5) (vs ! 6)) ident (vs ! 14)
            (truthy (vs ! 8)) (truthy (vs ! 9)) (truthy (vs ! 10)))))"

text \<open>The puncture request and the puncture have the same shape.\<close>

record puncture =
  pun_lan_address :: pyval
  pun_wan_address :: pyval
  pun_identifier :: int

definition puncture_format_list :: "fmt list" where
  "puncture_format_list = map Fmt [''ipv4'', ''ipv4'', ''H'']"

definition new_puncture_request :: "pyval \<Rightarrow> pyval \<Rightarrow> int \<Rightarrow> puncture" where
  "new_puncture_request lan wan ident = \<lparr>pun_lan_address = lan, pun_wan_address = wan, pun_identifier = ident mod 65536\<rparr>"

definition puncture_request_to_pack_list :: "puncture \<Rightarrow> (string \<times> pyval list) list" where
  "puncture_request_to_pack_list p =
     [(''ipv4'', [pun_lan_address p]), (''ipv4'', [pun_wan_address p]), (''H'', [PInt (pun_identifier p)])]"

definition puncture_request_from_unpack_list :: "pyval list \<Rightarrow> puncture result" where
  "puncture_request_from_unpack_list vs =
     (if length vs \<noteq> 3 then raise TypeError
      else bind_result (mod_65536 (vs ! 2)) (\<lambda>ident. return (new_puncture_request (vs ! 0) (vs ! 1) ident)))"

definition new_puncture :: "pyval \<Rightarrow> pyval \<Rightarrow> int \<Rightarrow> puncture" where
  "new_puncture lan wan ident = \<lparr>pun_lan_address = lan, pun_wan_address = wan, pun_identifier = ident mod 65536\<rparr>"

definition puncture_to_pack_list :: "puncture \<Rightarrow> (string \<times> pyval list) list" where
  "puncture_to_pack_list p =
     [(''ipv4'', [pun_lan_address p]), (''ipv4'', [pun_wan_address p]), (''H'', [PInt (pun_identifier p)])]"

definition puncture_from_unpack_list :: "pyval list \<Rightarrow> puncture result" where
  "puncture_from_unpack_list vs =
     (if length vs \<noteq> 3 then raise TypeError
      else bind_result (mod_65536 (vs ! 2)) (\<lambda>ident. return (new_puncture (vs ! 0) (vs ! 1) ident)))"

section \<open>Peer discovery payloads\<close>

text \<open>The payloads of \<^verbatim>\<open>peerdiscovery/payload.py\<close>. Byte strings are cut into pieces of twenty.\<close>

fun split_every :: "nat \<Rightarrow> 'a list \<Rightarrow> 'a list list" where
  "split_every n xs = (if n = 0 \<or> xs = [] then [] else take n xs # split_every n (drop n xs))"

declare split_every.simps [simp del]

record similarity_request =
  srq_identifier :: int
  srq_preference_list :: "bytes list"
  srq_lan_address :: pyval
  srq_wan_address :: pyval
  srq_connection_type :: string

definition srq_format_list :: "fmt list" where
  "srq_format_list = map Fmt [''H'', ''ipv4'', ''ipv4'', ''bits'', ''raw'']"

definition new_similarity_request :: "int \<Rightarrow> pyval \<Rightarrow> pyval \<Rightarrow> string \<Rightarrow> bytes list \<Rightarrow> similarity_request" where
  "new_similarity_request ident lan wan conn prefs =
     \<lparr>srq_identifier = ident mod 65536, srq_preference_list = prefs, srq_lan_address = lan,
      srq_wan_address = wan, srq_connection_type = conn\<rparr>"

definition srq_to_pack_list :: "similarity_request \<Rightarrow> (string \<times> pyval list) list" where
  "srq_to_pack_list p =
     (let c = encode_connection_type (srq_connection_type p)
      in [(''H'', [PInt (srq_identifier p)]),
          (''ipv4'', [srq_lan_address p]),
          (''ipv4'', [srq_wan_address p]),
          (''bits'', [PInt (fst c), PInt (snd c), PInt 0, PInt 0, PInt 0, PInt 0, PInt 0, PInt 0]),
          (''raw'', [PBytes (concat (srq_preference_list p))])])"

definition pieces_of_20 :: "pyval \<Rightarrow> bytes list result" where
  "pieces_of_20 v = (case v of PBytes b \<Rightarrow> return (split_every 20 b) | _ \<Rightarrow> raise TypeError)"

definition srq_from_unpack_list :: "pyval list \<Rightarrow> similarity_request result" where
  "srq_from_unpack_list vs =
     (if length vs \<noteq> 12 then raise TypeError
      else
        bind_result (pieces_of_20 (vs ! 11)) (\<lambda>prefs.
          bind_result (mod_65536 (vs ! 0)) (\<lambda>ident.
            return (new_similarity_request ident (vs ! 1) (vs ! 2) (decode_connection_type (vs ! 3) (vs ! 4)) prefs))))"

record similarity_response =
  srs_identifier :: int
  srs_preference_list :: "bytes list"
  srs_tb_overlap :: "(bytes \<times> int) list"

definition srs_format_list :: "fmt list" where
  "srs_format_list = map Fmt [''H'', ''varlenHx20'', ''raw'']"

definition new_similarity_response :: "int \<Rightarrow> bytes list \<Rightarrow> (bytes \<times> int) list \<Rightarrow> similarity_response" where
  "new_similarity_response ident prefs tb =
     \<lparr>srs_identifier = ident mod 65536, srs_preference_list = prefs, srs_tb_overlap = tb\<rparr>"

definition srs_to_pack_list :: "similarity_response \<Rightarrow> (string \<times> pyval list) list result" where
  "srs_to_pack_list p =
     bind_result (map_result (\<lambda>(b, i). pack_struct [SBytes 20, SUInt 4] [PBytes b, PInt i]) (srs_tb_overlap p))
       (\<lambda>tb. return
         [(''H'', [PInt (srs_identifier p)]),
          (''varlenHx20'', [PBytes (concat (srs_preference_list p))]),
          (''raw'', [PBytes (concat tb)])])"

definition decode_tb :: "bytes \<Rightarrow> (bytes \<times> int) result" where
  "decode_tb b =
     (let n = drop 20 b in if length n = 4 then return (take 20 b, int (nat_of_bytes n)) else raise StructError)"

definition tb_of :: "pyval \<Rightarrow> (bytes \<times> int) list result" where
  "tb_of v = (case v of PBytes b \<Rightarrow> map_result decode_tb (split_every 24 b) | _ \<Rightarrow> raise TypeError)"

definition srs_from_unpack_list :: "pyval list \<Rightarrow> similarity_response result" where
  "srs_from_unpack_list vs =
     (if length vs \<noteq> 3 then raise TypeError
      else
        bind_result (pieces_of_20 (vs ! 1)) (\<lambda>prefs.
          bind_result (tb_of (vs ! 2)) (\<lambda>tb.
            bind_result (mod_65536 (vs ! 0)) (\<lambda>ident. return (new_similarity_response ident prefs tb)))))"

record ping_payload =
  pp_identifier :: int

definition new_ping_payload :: "int \<Rightarrow> ping_payload" where
  "new_ping_payload ident = \<lparr>pp_identifier = ident mod 65536\<rparr>"

definition ping_to_pack_list :: "ping_payload \<Rightarrow> (string \<times> pyval list) list" where
  "ping_to_pack_list p = [(''H'', [PInt (pp_identifier p)])]"

definition ping_from_unpack_list :: "pyval list \<Rightarrow> ping_payload result" where
  "ping_from_unpack_list vs =
     (if length vs \<noteq> 1 then raise TypeError
      else bind_result (mod_65536 (vs ! 0)) (\<lambda>ident. return (new_ping_payload ident)))"

text \<open>
  The introduction request of the discovery community puts a \<^verbatim>\<open>c20s\<close> structure in front. That
  structure unpacks to one tuple of two byte strings, and \<^verbatim>\<open>[1:]\<close> of it is again a tuple.
\<close>

definition dirq_format_list :: "fmt list" where
  "dirq_format_list = Fmt ''c20s'' # irq_format_list"

definition dirq_to_pack_list :: "pyval \<Rightarrow> intro_request \<Rightarrow> (string \<times> pyval list) list" where
  "dirq_to_pack_list introduce_to p = (''c20s'', [PBytes (ascii_bytes ''Y''), introduce_to]) # irq_to_pack_list p"

definition slice_from_1 :: "pyval \<Rightarrow> pyval result" where
  "slice_from_1 v =
     (case v of
        PTuple xs \<Rightarrow> return (PTuple (drop 1 xs)) | PList xs \<Rightarrow> return (PList (drop 1 xs))
      | PBytes b \<Rightarrow> return (PBytes (drop 1 b)) | PStr s \<Rightarrow> return (PStr (drop 1 s))
      | PAddr c h p \<Rightarrow> return (PTuple [PInt p]) | _ \<Rightarrow> raise TypeError)"

definition dirq_from_unpack_list :: "pyval list \<Rightarrow> (pyval \<times> intro_request) result" where
  "dirq_from_unpack_list vs =
     (if length vs \<noteq> 14 then raise TypeError
      else
        bind_result (slice_from_1 (vs ! 0)) (\<lambda>introduce_to.
          bind_result (true_false (vs ! 11)) (\<lambda>advice.
            bind_result (mod_65536 (vs ! 12)) (\<lambda>ident.
              return (introduce_to, new_intro_request (vs ! 1) (vs ! 2) (vs ! 3) advice
                (decode_connection_type (vs ! 4) (vs ! 5)) ident (vs ! 13) True)))))"

end
