(* ===== verification/Payload_Properties.thy ===== *)
theory Payload_Properties
  imports Payloads
begin

text \<open>
  The properties of the payloads: round trips of the old-style payloads and of cells,
  well-formed payload classes, and the flags packer.
\<close>

section \<open>Packing and unpacking of field lists\<close>

lemma fields_roundtrip:
  assumes "fmts_ok ser fs vs"
  shows "\<exists>bs. pack_fields ser (to_pack_list fs vs) = return bs \<and>
    (\<forall>pre. unpack_fmts ser fs (pre @ bs) (length pre) = return (vs, length pre + length bs))"
proof -
  let ?c = "PClass [] fs"
  have "class_ok ser ?c (PObj ?c vs)" using assms by simp
  with all_laws(2) [of ser ?c] obtain bs where bs: "pack_serializable ser (PObj ?c vs) = return bs"
    "\<And>pre post. follows (\<forall>f \<in> set fs. delimited_fmt ser f) post \<Longrightarrow>
       unpack_class ser ?c (pre @ bs @ post) (length pre) = return (PObj ?c vs, length pre + length bs)"
    unfolding class_law_def by fastforce
  have "unpack_fmts ser fs (pre @ bs) (length pre) = return (vs, length pre + length bs)" for pre
    using bs(2) [of "[]" pre] by (auto simp: bind_result_eq_Inr from_unpack_list_def split: if_splits)
  with bs(1) show ?thesis by (auto simp: pack_serializable_def)
qed

text \<open>
  \<^verbatim>\<open>unpack_serializable\<close> for a class with its own \<^verbatim>\<open>from_unpack_list\<close>, and the round trip of such a
  class: it packs like a list of plain field values, from which the object is made again.
\<close>

definition unpack_payload ::
  "serializer \<Rightarrow> fmt list \<Rightarrow> (pyval list \<Rightarrow> 'a result) \<Rightarrow> bytes \<Rightarrow> nat \<Rightarrow> ('a \<times> nat) result" where
  "unpack_payload ser fs mk data off =
     bind_result (unpack_fmts ser fs data off) (\<lambda>(vs, off').
       bind_result (mk vs) (\<lambda>p. return (p, off')))"

lemma old_style_roundtrip:
  assumes "fmts_ok ser fs vs" "pack_fields ser pl = pack_fields ser (to_pack_list fs vs)" "mk vs = return p"
  shows "\<exists>bs. pack_fields ser pl = return bs \<and>
    (\<forall>pre. unpack_payload ser fs mk (pre @ bs) (length pre) = return (p, length pre + length bs))"
  using fields_roundtrip [OF assms(1)] assms(2,3) by (auto simp: unpack_payload_def)

lemma pack_item_Bits [simp]: "pack_item ser Bits vs = pack_bits vs"
  by (simp add: pack_item.simps)

lemma as_int_simps [simp]: "as_int (PInt i) = Some i" "as_int (PBool b) = Some (of_bool b)"
  by (simp_all add: as_int_def)

definition known_connection_type :: "string \<Rightarrow> bool" where
  "known_connection_type c \<longleftrightarrow> c \<in> {''unknown'', ''public'', ''symmetric-NAT''}"

lemma decode_encode_connection_type:
  "known_connection_type c \<Longrightarrow>
     decode_connection_type (PInt (fst (encode_connection_type c))) (PInt (snd (encode_connection_type c))) = c"
  by (auto simp: known_connection_type_def encode_connection_type_def decode_connection_type_def)

lemma encode_bit: "bit_ok (PInt (fst (encode_connection_type c)))" "bit_ok (PInt (snd (encode_connection_type c)))"
  by (simp_all add: encode_connection_type_def bit_ok_def)

abbreviation bit_of :: "bool \<Rightarrow> pyval" where
  "bit_of b \<equiv> PInt (of_bool b)"

lemma bit_ok_of_bool: "bit_ok (bit_of b)" "bit_ok (PInt 0)" by (simp_all add: bit_ok_def)

lemma truthy_bits [simp]: "truthy (PBool b) = b" "truthy (bit_of b) = b" "truthy (PInt i) = (i \<noteq> 0)"
  by (simp_all add: truthy_def)

definition irq_values :: "intro_request \<Rightarrow> pyval list" where
  "irq_values p =
     (let c = encode_connection_type (irq_connection_type p)
      in [irq_destination_address p, irq_source_lan_address p, irq_source_wan_address p,
          PInt (fst c), PInt (snd c), bit_of (irq_supports_new_style p), PInt 0, PInt 0, PInt 0, PInt 0,
          bit_of (irq_advice p), PInt (irq_identifier p), irq_extra_bytes p])"

lemma map_result_map: "map_result f (map g xs) = map_result (\<lambda>x. f (g x)) xs"
  by (induction xs) simp_all

lemma registry_lookup:
  "dict_get default_packers ''ipv4'' = Some IPv4" "dict_get default_packers ''bits'' = Some Bits"
  "dict_get default_packers ''H'' = Some (DefaultStruct [SUInt 2])" "dict_get default_packers ''raw'' = Some Raw"
  "dict_get default_packers ''c20s'' = Some (DefaultStruct [SChar, SBytes 20])"
  "dict_get default_packers ''varlenHx20'' = Some (VarLen (BigLen 2) 20)"
  by (simp_all add: default_packers_def)

lemma fmt_arity_simps:
  "fmt_arity (Fmt ''ipv4'') = 1" "fmt_arity (Fmt ''bits'') = 8" "fmt_arity (Fmt ''H'') = 1" "fmt_arity (Fmt ''raw'') = 1"
  "fmt_arity (Fmt ''varlenHx20'') = 1"
  by (simp_all add: fmt_arity_def)

lemmas field_simps = fmt_arity_simps registry_lookup delimited_fmt_def sfield_ok_def encode_bit bit_ok_of_bool

lemma irq_values_ok:
  assumes "ipv4_ok (irq_destination_address p)" "ipv4_ok (irq_source_lan_address p)"
    "ipv4_ok (irq_source_wan_address p)" "0 \<le> irq_identifier p" "irq_identifier p < 65536"
    "irq_extra_bytes p = PBytes extra"
  shows "fmts_ok default_packers irq_format_list (irq_values p)"
  using assms by (simp add: irq_format_list_def irq_values_def Let_def field_simps)

lemma irq_packed:
  "pack_fields default_packers (irq_to_pack_list p) = pack_fields default_packers (to_pack_list irq_format_list (irq_values p))"
  by (simp add: irq_to_pack_list_def irq_format_list_def irq_values_def Let_def to_packlist_fmt_def fmt_arity_simps
      lookup_packer_def registry_lookup pack_bits_def)


lemma irq_made:
  assumes "known_connection_type (irq_connection_type p)" "0 \<le> irq_identifier p" "irq_identifier p < 65536"
  shows "irq_from_unpack_list (irq_values p) = return (p\<lparr>irq_advice := \<not> irq_advice p\<rparr>)"
  using assms
  by (simp add: irq_from_unpack_list_def irq_values_def Let_def true_false_def mod_65536_def
      new_intro_request_def decode_encode_connection_type)

text \<open>
  packing an introduction request and unpacking it gives back every value of it except that
  \<^verbatim>\<open>advice\<close> is inverted: the receiver of a request for advice reads that none is wanted.
\<close>

theorem intro_request_inverts_advice:
  assumes "ipv4_ok (irq_destination_address p)" "ipv4_ok (irq_source_lan_address p)"
    "ipv4_ok (irq_source_wan_address p)" "0 \<le> irq_identifier p" "irq_identifier p < 65536"
    "irq_extra_bytes p = PBytes extra" "known_connection_type (irq_connection_type p)"
  shows "\<exists>bs. pack_fields default_packers (irq_to_pack_list p) = return bs \<and>
    (\<forall>pre. unpack_payload default_packers irq_format_list irq_from_unpack_list (pre @ bs) (length pre) =
       return (p\<lparr>irq_advice := \<not> irq_advice p\<rparr>, length pre + length bs))"
  using old_style_roundtrip [OF irq_values_ok [OF assms(1-6)] irq_packed, of irq_from_unpack_list]
    irq_made [OF assms(7,4,5)] by blast

definition ex_address :: pyval where
  "ex_address = PAddr UDPv4Address (ustr ''1.2.3.4'') 8090"

lemma ex_address_ok: "ipv4_ok ex_address"
  by code_simp

definition ex_request :: intro_request where
  "ex_request = new_intro_request ex_address ex_address ex_address True ''public'' 7 (PBytes [1]) True"

theorem intro_request_inverts_advice_witness:
  "irq_advice ex_request \<and>
   (\<exists>bs. pack_fields default_packers (irq_to_pack_list ex_request) = return bs \<and>
     unpack_payload default_packers irq_format_list irq_from_unpack_list bs 0 =
       return (ex_request\<lparr>irq_advice := False\<rparr>, length bs))"
proof -
  obtain bs where "pack_fields default_packers (irq_to_pack_list ex_request) = return bs"
    "\<forall>pre. unpack_payload default_packers irq_format_list irq_from_unpack_list (pre @ bs) (length pre) =
       return (ex_request\<lparr>irq_advice := \<not> irq_advice ex_request\<rparr>, length pre + length bs)"
    using intro_request_inverts_advice [of ex_request "[1]"] ex_address_ok
    by (auto simp: ex_request_def new_intro_request_def known_connection_type_def)
  then show ?thesis by (auto simp: ex_request_def new_intro_request_def dest!: spec [of _ "[]"])
qed

definition irs_values :: "intro_response \<Rightarrow> pyval list" where
  "irs_values p =
     (let c = encode_connection_type (irs_connection_type p)
      in [irs_destination_address p, irs_source_lan_address p, irs_source_wan_address p,
          irs_lan_introduction_address p, irs_wan_introduction_address p,
          PInt (fst c), PInt (snd c), PInt 0, bit_of (irs_supports_new_style p),
          bit_of (irs_intro_supports_new_style p), bit_of (irs_peer_limit_reached p), PInt 0, PInt 0,
          PInt (irs_identifier p), irs_extra_bytes p])"

text \<open>An introduction response is unpacked as it was packed.\<close>

lemma intro_response_roundtrip:
  assumes "\<forall>a \<in> {irs_destination_address p, irs_source_lan_address p, irs_source_wan_address p,
      irs_lan_introduction_address p, irs_wan_introduction_address p}. ipv4_ok a"
    and ident: "0 \<le> irs_identifier p" "irs_identifier p < 65536"
    and "irs_extra_bytes p = PBytes extra" and conn: "known_connection_type (irs_connection_type p)"
  shows "\<exists>bs. pack_fields default_packers (irs_to_pack_list p) = return bs \<and>
    (\<forall>pre. unpack_payload default_packers irs_format_list irs_from_unpack_list (pre @ bs) (length pre) =
       return (p, length pre + length bs))"
proof (rule old_style_roundtrip)
  show "fmts_ok default_packers irs_format_list (irs_values p)"
    using assms by (simp add: irs_format_list_def irs_values_def Let_def field_simps)
  show "pack_fields default_packers (irs_to_pack_list p) =
      pack_fields default_packers (to_pack_list irs_format_list (irs_values p))"
    by (simp add: irs_to_pack_list_def irs_format_list_def irs_values_def Let_def to_packlist_fmt_def
        fmt_arity_simps lookup_packer_def registry_lookup pack_bits_def)
  show "irs_from_unpack_list (irs_values p) = return p"
    using ident conn
    by (simp add: irs_from_unpack_list_def irs_values_def Let_def mod_65536_def new_intro_response_def
        decode_encode_connection_type)
qed

lemma split_every_concat:
  assumes "\<forall>b \<in> set bs. length b = n" "0 < n"
  shows "split_every n (concat bs) = bs"
  using assms
proof (induction bs)
  case (Cons b bs)
  then show ?case by (subst split_every.simps) auto
qed (simp add: split_every.simps)

lemma split_every_Nil [simp]: "split_every n [] = []"
  by (simp add: split_every.simps)

lemma length_concat_const: "\<forall>b \<in> set bs. length b = n \<Longrightarrow> length (concat bs) = n * length bs"
  by (induction bs) simp_all

definition srs_values :: "similarity_response \<Rightarrow> bytes \<Rightarrow> pyval list" where
  "srs_values p tb = [PInt (srs_identifier p), PBytes (concat (srs_preference_list p)), PBytes tb]"

lemma pack_tb:
  assumes "length b = 20" "0 \<le> i" "i < 2 ^ 32"
  shows "pack_struct [SBytes 20, SUInt 4] [PBytes b, PInt i] = return (b @ bytes_of_nat 4 (nat i))"
  using assms by (simp add: pack_sfield_def)

lemma decode_pack_tb:
  assumes "length b = 20" "0 \<le> i" "i < 2 ^ 32"
  shows "decode_tb (b @ bytes_of_nat 4 (nat i)) = return (b, i)"
  using assms by (simp add: decode_tb_def Let_def nat_of_bytes_of_nat)

text \<open>
  a similarity response with preferences of twenty bytes and overlaps of twenty bytes and
  a 32-bit number unpacks to an equal response.
\<close>

theorem similarity_response_roundtrip:
  assumes prefs: "\<forall>b \<in> set (srs_preference_list p). length b = 20" "length (srs_preference_list p) < 65536"
    and tb: "\<forall>(b, i) \<in> set (srs_tb_overlap p). length b = 20 \<and> 0 \<le> i \<and> i < 2 ^ 32"
    and ident: "0 \<le> srs_identifier p" "srs_identifier p < 65536"
  shows "\<exists>pl bs. srs_to_pack_list p = return pl \<and> pack_fields default_packers pl = return bs \<and>
    (\<forall>pre. unpack_payload default_packers srs_format_list srs_from_unpack_list (pre @ bs) (length pre) =
       return (p, length pre + length bs))"
proof -
  let ?enc = "\<lambda>(b, i). b @ bytes_of_nat 4 (nat i)"
  let ?tb = "map ?enc (srs_tb_overlap p)"
  let ?pl = "[(''H'', [PInt (srs_identifier p)]), (''varlenHx20'', [PBytes (concat (srs_preference_list p))]),
    (''raw'', [PBytes (concat ?tb)])]"
  have "map_result (\<lambda>(b, i). pack_struct [SBytes 20, SUInt 4] [PBytes b, PInt i]) (srs_tb_overlap p) = return ?tb"
    by (rule map_result_return) (use tb pack_tb in auto)
  then have pl: "srs_to_pack_list p = return ?pl" by (simp add: srs_to_pack_list_def)
  have 24: "\<forall>b \<in> set ?tb. length b = 24" using tb by auto
  have "map_result decode_tb ?tb = return (srs_tb_overlap p)"
    using tb decode_pack_tb by (simp add: map_result_map map_result_return [where g = id] split_beta)
  then have made: "srs_from_unpack_list (srs_values p (concat ?tb)) = return p"
    using ident prefs(1)
    by (simp add: srs_from_unpack_list_def srs_values_def pieces_of_20_def tb_of_def mod_65536_def
        split_every_concat [OF 24] split_every_concat [OF prefs(1)] new_similarity_response_def)
  have ok: "fmts_ok default_packers srs_format_list (srs_values p (concat ?tb))"
    using ident prefs(2) by (simp add: srs_format_list_def srs_values_def field_simps length_concat_const [OF prefs(1)])
  have "pack_fields default_packers ?pl =
      pack_fields default_packers (to_pack_list srs_format_list (srs_values p (concat ?tb)))"
    by (simp add: srs_format_list_def srs_values_def to_packlist_fmt_def fmt_arity_simps)
  with fields_roundtrip [OF ok] made pl show ?thesis by (auto simp: unpack_payload_def)
qed


theorem similarity_response_roundtrip_witness:
  "\<exists>pl bs. srs_to_pack_list (new_similarity_response 5 [replicate 20 7] [(replicate 20 1, 9)]) = return pl \<and>
    pack_fields default_packers pl = return bs \<and>
    unpack_payload default_packers srs_format_list srs_from_unpack_list bs 0 =
      return (new_similarity_response 5 [replicate 20 7] [(replicate 20 1, 9)], length bs)"
  using similarity_response_roundtrip [of "new_similarity_response 5 [replicate 20 7] [(replicate 20 1, 9)]"]
  by (auto simp: new_similarity_response_def dest!: spec [of _ "[]"])

definition community_messages :: "(serializer \<times> payload_spec list) list" where
  "community_messages =
     [(default_packers, overlay_messages), (dht_serializer (\<lambda>_. None), dht_messages),
      (tunnel_serializer, tunnel_messages), (default_packers, identity_messages),
      (default_packers, wallet_messages), (default_packers, chain_messages),
      (default_packers, registration_messages)]"

definition spec_ok :: "serializer \<Rightarrow> payload_spec \<Rightarrow> bool" where
  "spec_ok ser s \<longleftrightarrow>
     length (spec_names s) = sum_list (map fmt_arity (spec_formats s)) \<and> distinct (spec_names s) \<and>
     (\<forall>f \<in> set (spec_formats s). case f of Fmt n \<Rightarrow> n \<in> set (get_available_formats ser) | _ \<Rightarrow> True) \<and>
     list_all (delimited_fmt ser) (butlast (spec_formats s))"

definition ids_ok :: "payload_spec list \<Rightarrow> bool" where
  "ids_ok ms \<longleftrightarrow>
     (let ids = List.map_filter spec_msg_id ms in distinct ids \<and> list_all (\<lambda>i. i < 256) ids)"


lemma cell_bin_inverse:
  assumes "length ov_prefix = 22" "0 \<le> circuit_id c" "circuit_id c < 2 ^ 32"
  shows "\<exists>packet. cell_to_bin ov_prefix c = return packet \<and> take 22 packet = ov_prefix \<and>
    packet ! 22 = CELL_MSG_ID \<and> cell_from_bin packet = return c"
proof -
  let ?vs = "[PInt (circuit_id c), PBool (plaintext c), PBool (relay_early c)]"
  have "list_all2 sfield_ok [SUInt 4, SBool, SBool] ?vs"
    using assms(2,3) by (simp add: sfield_ok_def)
  from struct_roundtrip [OF this] obtain h where h: "pack_struct [SUInt 4, SBool, SBool] ?vs = return h"
    "length h = struct_size [SUInt 4, SBool, SBool]" "unpack_fields [SUInt 4, SBool, SBool] h = return ?vs" by blast
  let ?packet = "ov_prefix @ [CELL_MSG_ID] @ h @ message c"
  have 6: "length h = 6" using h(2) by (simp add: struct_size_def)
  have "unpack_from [SUInt 4, SBool, SBool] ?packet 23 = return ?vs"
    using unpack_from_mid [OF h(2,3), of "ov_prefix @ [CELL_MSG_ID]" "message c"] assms(1) by simp
  moreover have "drop 29 ?packet = message c" using assms(1) 6 by simp
  ultimately have "cell_from_bin ?packet = return c" by (simp add: cell_from_bin_def)
  moreover have "cell_to_bin ov_prefix c = return ?packet" by (simp only: cell_to_bin_def h(1) bind_result_simps)
  moreover have "take 22 ?packet = ov_prefix" "?packet ! 22 = CELL_MSG_ID"
    using assms(1) by (simp_all add: nth_append)
  ultimately show ?thesis by blast
qed

text \<open>
  a cell with a prefix of 22 bytes is read back from its packet as it was, with the prefix
  and the message identifier of cells in front.
\<close>

theorem cell_roundtrip:
  assumes "length ov_prefix = 22" "0 \<le> circuit_id c" "circuit_id c < 2 ^ 32"
  shows "\<exists>packet. cell_to_bin ov_prefix c = return packet \<and> take 22 packet = ov_prefix \<and>
    packet ! 22 = CELL_MSG_ID \<and> cell_from_bin packet = return c"
  using assms by (rule cell_bin_inverse)

theorem cell_roundtrip_witness:
  "\<exists>packet. cell_to_bin (replicate 22 3) \<lparr>circuit_id = 17, message = [1, 2], plaintext = False, relay_early = True\<rparr> =
      return packet \<and>
    cell_from_bin packet = return \<lparr>circuit_id = 17, message = [1, 2], plaintext = False, relay_early = True\<rparr>"
  using cell_roundtrip [of "replicate 22 3" "\<lparr>circuit_id = 17, message = [1, 2], plaintext = False, relay_early = True\<rparr>"]
  by auto

lemma take_bit_or_bit: "take_bit k n OR (n AND 2 ^ k) = take_bit (Suc k) (n :: nat)"
  by (rule bit_eqI) (use less_Suc_eq in \<open>auto simp: bit_or_iff bit_and_iff bit_take_bit_iff bit_exp_iff\<close>)

lemma or_flags:
  "foldl (OR) 0 (filter (\<lambda>x. x \<noteq> 0) (map (\<lambda>i. n AND 2 ^ i) [0..<k])) = take_bit k (n :: nat)"
proof (induction k)
  case (Suc k)
  then show ?case using take_bit_or_bit [of k n] by (cases "n AND 2 ^ k = 0") simp_all
qed simp

lemma foldl_or_int: "foldl (OR) (int a) (map int xs) = int (foldl (OR) a xs)"
  by (induction xs arbitrary: a) (simp_all flip: of_nat_or_eq)

lemma ints_of_ints [simp]: "ints_of (map (\<lambda>x. PInt (f x)) xs) = Some (map f xs)"
  by (induction xs) simp_all

text \<open>
  the flags of a set are or-ed into two bytes and the same flags are read back from
  anywhere in a buffer, but the offset returned is always 2 and not the end of the field.
\<close>

theorem flags_offset_is_lost:
  assumes "n < 65536"
  shows "\<exists>bs. pack_flags (PList (map (\<lambda>x. PInt (int x)) (flags_of n))) = return bs \<and>
    (\<forall>pre post. unpack_flags (pre @ bs @ post) (length pre) =
       return (PList (map (\<lambda>x. PInt (int x)) (flags_of n)), 2))"
proof -
  have "n mod 2 ^ 16 = n" using assms by simp
  then have "foldl (OR) 0 (flags_of n) = n"
    by (simp only: flags_of_def or_flags take_bit_eq_mod)
  then have "foldl (OR) (0 :: int) (map int (flags_of n)) = int n"
    using foldl_or_int [of 0 "flags_of n"] by simp
  then have pack: "pack_flags (PList (map (\<lambda>x. PInt (int x)) (flags_of n))) = return (bytes_of_nat 2 n)"
    using assms by (simp add: pack_flags_def pack_sfield_def)
  have "unpack_len (BigLen 2) (pre @ bytes_of_nat 2 n @ post) (length pre) = return n" for pre post
    using len_roundtrip [of n "BigLen 2"] assms by (auto simp: pack_len_def)
  with pack show ?thesis by (simp add: unpack_flags_def)
qed

theorem flags_offset_is_lost_witness:
  "\<exists>bs. pack_flags (PList (map (\<lambda>x. PInt (int x)) (flags_of 5))) = return bs \<and>
    unpack_flags ([9, 9, 9] @ bs) 3 = return (PList (map (\<lambda>x. PInt (int x)) (flags_of 5)), 2)"
proof -
  obtain bs where bs: "pack_flags (PList (map (\<lambda>x. PInt (int x)) (flags_of 5))) = return bs"
    "\<forall>pre post. unpack_flags (pre @ bs @ post) (length pre) =
       return (PList (map (\<lambda>x. PInt (int x)) (flags_of 5)), 2)"
    using flags_offset_is_lost [of 5] by auto
  from bs(2) [rule_format, of "[9, 9, 9]" "[]"] bs(1) show ?thesis by (simp add: eval_nat_numeral)
qed

lemma dirq_unpacks_tuple:
  assumes b: "length b = 20"
  shows "\<exists>bs. pack_fields default_packers [(''c20s'', [PBytes (ascii_bytes ''Y''), PBytes b])] = return bs \<and>
    (\<forall>pre post. unpack_fmt default_packers (Fmt ''c20s'') (pre @ bs @ post) (length pre) =
      return ([PTuple [PBytes (ascii_bytes ''Y''), PBytes b]], length pre + length bs))"
proof -
  let ?vs = "[PBytes (ascii_bytes ''Y''), PBytes b]" and ?fs = "[SChar, SBytes 20]"
  have "list_all2 sfield_ok ?fs ?vs" using b by (simp add: sfield_ok_def ascii_bytes_def)
  from struct_roundtrip [OF this] obtain h where h: "pack_struct ?fs ?vs = return h" "length h = struct_size ?fs"
    "unpack_fields ?fs h = return ?vs" by blast
  have "pack_fields default_packers [(''c20s'', ?vs)] = return h"
    using h(1) by (simp add: lookup_packer_def registry_lookup pack_item.simps as_pack_error_def del: pack_struct.simps)
  moreover have "unpack_fmt default_packers (Fmt ''c20s'') (pre @ h @ post) (length pre) =
      return ([PTuple ?vs], length pre + length h)" for pre post
    using unpack_from_mid [OF h(2,3), of pre post] h(2)
    by (simp add: lookup_packer_def registry_lookup named_error_def)
  ultimately show ?thesis by blast
qed

text \<open>
  The community identifier in a discovery request arrives as a tuple with that byte string.
\<close>

lemma discovery_request_introduce_to:
  assumes "ipv4_ok (irq_destination_address p)" "ipv4_ok (irq_source_lan_address p)"
    "ipv4_ok (irq_source_wan_address p)" "0 \<le> irq_identifier p" "irq_identifier p < 65536"
    "irq_extra_bytes p = PBytes extra" "known_connection_type (irq_connection_type p)" "length b = 20"
  shows "\<exists>bs. pack_fields default_packers (dirq_to_pack_list (PBytes b) p) = return bs \<and>
    (\<forall>pre. unpack_payload default_packers dirq_format_list dirq_from_unpack_list (pre @ bs) (length pre) =
       return ((PTuple [PBytes b], p\<lparr>irq_advice := \<not> irq_advice p, irq_supports_new_style := True\<rparr>),
         length pre + length bs))"
proof -
  obtain h where h: "pack_fields default_packers [(''c20s'', [PBytes (ascii_bytes ''Y''), PBytes b])] = return h"
    "\<And>pre post. unpack_fmt default_packers (Fmt ''c20s'') (pre @ h @ post) (length pre) =
      return ([PTuple [PBytes (ascii_bytes ''Y''), PBytes b]], length pre + length h)"
    using dirq_unpacks_tuple [OF assms(8)] by blast
  obtain r where r: "pack_fields default_packers (irq_to_pack_list p) = return r"
    "\<And>pre. unpack_fmts default_packers irq_format_list (pre @ r) (length pre) = return (irq_values p, length pre + length r)"
    using fields_roundtrip [OF irq_values_ok [OF assms(1-6)]] irq_packed [of p] by auto
  have "pack_fields default_packers (dirq_to_pack_list (PBytes b) p) = return (h @ r)"
    using h(1) r(1) by (auto simp: dirq_to_pack_list_def bind_result_eq_Inr)
  moreover have "unpack_fmts default_packers dirq_format_list (pre @ h @ r) (length pre) =
      return (PTuple [PBytes (ascii_bytes ''Y''), PBytes b] # irq_values p, length pre + length (h @ r))" for pre
    using h(2) [of pre r] r(2) [of "pre @ h"] by (simp add: dirq_format_list_def)
  moreover have "dirq_from_unpack_list (PTuple [PBytes (ascii_bytes ''Y''), PBytes b] # irq_values p) =
      return (PTuple [PBytes b], p\<lparr>irq_advice := \<not> irq_advice p, irq_supports_new_style := True\<rparr>)"
    using assms(4,5,7)
    by (simp add: dirq_from_unpack_list_def irq_values_def Let_def slice_from_1_def true_false_def mod_65536_def
        new_intro_request_def decode_encode_connection_type)
  ultimately show ?thesis by (auto simp: unpack_payload_def)
qed

end
