(* ===== verification/TaskManager.thy ===== *)
theory TaskManager
  imports Prelude
begin

text \<open>
  The task manager (\<^verbatim>\<open>ipv8/taskmanager.py\<close>) on top of the futures and callbacks of asyncio:
  registering, replacing and cancelling named tasks, and shutting down. The state is a record
  that the request cache extends, as its class extends this one.
\<close>

section \<open>Futures and the event loop\<close>

text \<open>
  A future is a task, whose cancellation is a request that its coroutine sees when it next
  runs, or a plain future, which is cancelled at once. Futures are named by their position in
  the list of all futures ever made. When a future finishes, its callbacks go to the queue of
  the loop, which runs them one by one.
\<close>

type_synonym fid = nat

datatype task_name = StrName string | ObjName nat

datatype fut_value = VNone | VObj nat | VKey string int | VFuture fid

datatype outcome = Returned fut_value | WasCancelled | Failed py_error

datatype fut_state = Running | Cancelling | Finished outcome

text \<open>A function that is run as a task: the method it calls with its argument.\<close>

datatype job = Call string fut_value

datatype user_task = Function job | FutureArg fid | NotATask

text \<open>How a task runs its function: at once, after a delay, or at an interval after a delay.\<close>

datatype plan = NoPlan | Once job | After seconds job | Every seconds seconds job

text \<open>The keyword arguments of \<^verbatim>\<open>register_task\<close>; \<open>ignore_ok\<close> is the check of \<^verbatim>\<open>ignore\<close>.\<close>

record task_options =
  delay :: "seconds option"
  interval :: "seconds option"
  ignore_ok :: bool

datatype callback =
    DoneCb task_name
  | CancelCb task_name user_task task_options fid
  | GatherCb fid
  | ShutdownCb

record future =
  fut_is_task :: bool
  fut_state :: fut_state
  fut_callbacks :: "callback list"
  fut_plan :: plan
  fut_interval :: "seconds option"
  fut_start_time :: seconds
  fut_missing :: nat

record tm =
  futures :: "future list"
  ready :: "(callback \<times> fid) list"
  pending_tasks :: "(task_name, fid) dict"
  shutdown_tasks :: "fut_value list"
  shutdown_log :: "fut_value list"
  is_shutdown :: bool
  counter :: nat
  checker :: fid

definition new_future :: "bool \<Rightarrow> plan \<Rightarrow> 'a tm_scheme \<Rightarrow> fid \<times> 'a tm_scheme" where
  "new_future is_task p st =
     (length (futures st),
      st\<lparr>futures := futures st @ [\<lparr>fut_is_task = is_task, fut_state = Running, fut_callbacks = [], fut_plan = p,
           fut_interval = None, fut_start_time = 0, fut_missing = 0\<rparr>]\<rparr>)"

definition state_of :: "'a tm_scheme \<Rightarrow> fid \<Rightarrow> fut_state" where
  "state_of st f = fut_state (futures st ! f)"

definition fut_done :: "'a tm_scheme \<Rightarrow> fid \<Rightarrow> bool" where
  "fut_done st f \<longleftrightarrow> (case state_of st f of Finished _ \<Rightarrow> True | _ \<Rightarrow> False)"

definition update_future :: "fid \<Rightarrow> (future \<Rightarrow> future) \<Rightarrow> 'a tm_scheme \<Rightarrow> 'a tm_scheme" where
  "update_future f u st = st\<lparr>futures := (futures st)[f := u (futures st ! f)]\<rparr>"

text \<open>\<^verbatim>\<open>set_result\<close>, \<^verbatim>\<open>set_exception\<close> or the end of a task: its callbacks are scheduled.\<close>

definition finish :: "fid \<Rightarrow> outcome \<Rightarrow> 'a tm_scheme \<Rightarrow> 'a tm_scheme" where
  "finish f r st =
     (update_future f (\<lambda>x. x\<lparr>fut_state := Finished r, fut_callbacks := []\<rparr>) st)
       \<lparr>ready := ready st @ map (\<lambda>c. (c, f)) (fut_callbacks (futures st ! f))\<rparr>"

definition cancel :: "fid \<Rightarrow> 'a tm_scheme \<Rightarrow> 'a tm_scheme" where
  "cancel f st =
     (if fut_done st f then st
      else if fut_is_task (futures st ! f) then update_future f (\<lambda>x. x\<lparr>fut_state := Cancelling\<rparr>) st
      else finish f WasCancelled st)"

definition add_done_callback :: "fid \<Rightarrow> callback \<Rightarrow> 'a tm_scheme \<Rightarrow> 'a tm_scheme" where
  "add_done_callback f c st =
     (if fut_done st f then st\<lparr>ready := ready st @ [(c, f)]\<rparr>
      else update_future f (\<lambda>x. x\<lparr>fut_callbacks := fut_callbacks x @ [c]\<rparr>) st)"

text \<open>\<^verbatim>\<open>succeed\<close> of \<^verbatim>\<open>ipv8/util.py\<close>.\<close>

definition succeed :: "fut_value \<Rightarrow> 'a tm_scheme \<Rightarrow> fid \<times> 'a tm_scheme" where
  "succeed v st = (let (f, st) = new_future False NoPlan st in (f, finish f (Returned v) st))"

text \<open>
  \<^verbatim>\<open>gather\<close>: a future that fails with the first child that is cancelled or fails, and is done
  when all children have returned.
\<close>

definition gather :: "fid list \<Rightarrow> 'a tm_scheme \<Rightarrow> fid \<times> 'a tm_scheme" where
  "gather fs st =
     (let (g, st) = new_future False NoPlan st;
          st = update_future g (\<lambda>x. x\<lparr>fut_missing := length fs\<rparr>) st;
          st = fold (\<lambda>f. add_done_callback f (GatherCb g)) fs st
      in (g, st))"

definition gather_cb :: "fid \<Rightarrow> fid \<Rightarrow> 'a tm_scheme \<Rightarrow> 'a tm_scheme" where
  "gather_cb g f st =
     (if fut_done st g then st
      else
        case state_of st f of
          Finished (Returned _) \<Rightarrow>
            (let st = update_future g (\<lambda>x. x\<lparr>fut_missing := fut_missing x - 1\<rparr>) st
             in if fut_missing (futures st ! g) = 0 then finish g (Returned VNone) st else st)
        | Finished r \<Rightarrow> finish g r st
        | _ \<Rightarrow> st)"

section \<open>Looking up tasks\<close>

definition is_pending_task_active :: "task_name \<Rightarrow> 'a tm_scheme \<Rightarrow> bool" where
  "is_pending_task_active name st =
     (case dict_get (pending_tasks st) name of None \<Rightarrow> False | Some f \<Rightarrow> \<not> fut_done st f)"

definition get_task :: "task_name \<Rightarrow> 'a tm_scheme \<Rightarrow> fid option" where
  "get_task name st = dict_get (pending_tasks st) name"

definition get_tasks :: "'a tm_scheme \<Rightarrow> fid list" where
  "get_tasks st = filter (\<lambda>f. f \<noteq> checker st) (dict_values (pending_tasks st))"

definition get_anonymous_tasks :: "string \<Rightarrow> 'a tm_scheme \<Rightarrow> fid list" where
  "get_anonymous_tasks base_name st =
     map snd (filter (\<lambda>t. case fst t of StrName s \<Rightarrow> prefix base_name s | ObjName _ \<Rightarrow> False) (pending_tasks st))"

definition MAX_TASK_AGE :: seconds where "MAX_TASK_AGE = 600"

text \<open>The tasks \<^verbatim>\<open>_check_tasks\<close> warns about: not at an interval and older than ten minutes.\<close>

definition check_tasks :: "seconds \<Rightarrow> 'a tm_scheme \<Rightarrow> task_name list" where
  "check_tasks now st =
     map fst (filter (\<lambda>(name, f).
       (case fut_interval (futures st ! f) of None \<Rightarrow> True | Some i \<Rightarrow> i = 0) \<and>
       now - fut_start_time (futures st ! f) > MAX_TASK_AGE) (pending_tasks st))"

section \<open>Registering and cancelling\<close>

definition truthy_seconds :: "seconds option \<Rightarrow> bool" where
  "truthy_seconds s = (case s of None \<Rightarrow> False | Some x \<Rightarrow> x \<noteq> 0)"

definition task_plan :: "task_options \<Rightarrow> job \<Rightarrow> plan" where
  "task_plan opts j =
     (if truthy_seconds (interval opts)
      then Every (case delay opts of None \<Rightarrow> the (interval opts) | Some d \<Rightarrow> d) (the (interval opts)) j
      else if truthy_seconds (delay opts) then After (the (delay opts)) j
      else Once j)"

text \<open>The future of a task to register: a new task for a function, or the future given.\<close>

definition start_task :: "user_task \<Rightarrow> task_options \<Rightarrow> 'a tm_scheme \<Rightarrow> fid \<times> 'a tm_scheme" where
  "start_task t opts st =
     (case t of
        Function j \<Rightarrow> new_future True (task_plan opts j) st
      | FutureArg f \<Rightarrow> (f, st)
      | NotATask \<Rightarrow> (0, st))"

definition is_function :: "user_task \<Rightarrow> bool" where
  "is_function t \<longleftrightarrow> (case t of Function _ \<Rightarrow> True | _ \<Rightarrow> False)"

definition register_task ::
  "seconds \<Rightarrow> task_name \<Rightarrow> user_task \<Rightarrow> task_options \<Rightarrow> 'a tm_scheme \<Rightarrow> fid result \<times> 'a tm_scheme" where
  "register_task now name t opts st =
     (if t = NotATask then (raise TypeError, st)
      else if (truthy_seconds (interval opts) \<or> truthy_seconds (delay opts)) \<and> \<not> is_function t
      then (raise ValueError, st)
      else if \<not> ignore_ok opts then (raise ValueError, st)
      else if is_shutdown st then
        (let st = (case t of FutureArg f \<Rightarrow> cancel f st | _ \<Rightarrow> st);
             (r, st) = succeed VNone st
         in (return r, st))
      else if is_pending_task_active name st then (raise RuntimeError, st)
      else
        let (f, st) = start_task t opts st;
            st = update_future f (\<lambda>x. x\<lparr>fut_start_time := now, fut_interval := interval opts\<rparr>) st;
            st = st\<lparr>pending_tasks := dict_set name f (pending_tasks st)\<rparr>;
            st = add_done_callback f (DoneCb name) st
        in (return f, st))"

definition register_anonymous_task ::
  "seconds \<Rightarrow> string \<Rightarrow> user_task \<Rightarrow> task_options \<Rightarrow> 'a tm_scheme \<Rightarrow> fid result \<times> 'a tm_scheme" where
  "register_anonymous_task now basename t opts st =
     (let st = st\<lparr>counter := counter st + 1\<rparr>
      in register_task now (StrName (basename @ '' '' @ dec_string (counter st))) t opts st)"

definition no_options :: task_options where
  "no_options = \<lparr>delay = None, interval = None, ignore_ok = True\<rparr>"

text \<open>A function run by an executor is a plain future that the executor finishes.\<close>

definition register_executor_task ::
  "seconds \<Rightarrow> string \<Rightarrow> bool \<Rightarrow> bool \<Rightarrow> 'a tm_scheme \<Rightarrow> fid result \<times> 'a tm_scheme" where
  "register_executor_task now name is_sync_function anon st =
     (if \<not> is_sync_function then (raise TypeError, st)
      else
        let (f, st) = new_future False NoPlan st
        in if anon then register_anonymous_task now name (FutureArg f) no_options st
           else register_task now (StrName name) (FutureArg f) no_options st)"

definition register_shutdown_task :: "fut_value \<Rightarrow> 'a tm_scheme \<Rightarrow> 'a tm_scheme" where
  "register_shutdown_task t st = st\<lparr>shutdown_tasks := shutdown_tasks st @ [t]\<rparr>"

definition cancel_pending_task :: "task_name \<Rightarrow> 'a tm_scheme \<Rightarrow> fid \<times> 'a tm_scheme" where
  "cancel_pending_task name st =
     (case dict_get (pending_tasks st) name of
        None \<Rightarrow> succeed VNone st
      | Some f \<Rightarrow>
          (f, if fut_done st f then st
              else (cancel f st)\<lparr>pending_tasks := dict_del name (pending_tasks st)\<rparr>))"

fun cancel_tasks :: "task_name list \<Rightarrow> 'a tm_scheme \<Rightarrow> fid list \<times> 'a tm_scheme" where
  "cancel_tasks [] st = ([], st)"
| "cancel_tasks (n # ns) st =
     (let (f, st) = cancel_pending_task n st; (fs, st) = cancel_tasks ns st in (f # fs, st))"

definition cancel_all_pending_tasks :: "'a tm_scheme \<Rightarrow> fid list \<times> 'a tm_scheme" where
  "cancel_all_pending_tasks st = cancel_tasks (dict_keys (pending_tasks st)) st"

definition replace_task :: "task_name \<Rightarrow> user_task \<Rightarrow> task_options \<Rightarrow> 'a tm_scheme \<Rightarrow> fid \<times> 'a tm_scheme" where
  "replace_task name t opts st =
     (let (new_task, st) = new_future False NoPlan st;
          (old_task, st) = cancel_pending_task name st
      in (new_task, add_done_callback old_task (CancelCb name t opts new_task) st))"

text \<open>The callback of \<^verbatim>\<open>replace_task\<close>; a new future that has been cancelled cannot be set again.\<close>

definition cancel_cb ::
  "seconds \<Rightarrow> task_name \<Rightarrow> user_task \<Rightarrow> task_options \<Rightarrow> fid \<Rightarrow> 'a tm_scheme \<Rightarrow> 'a tm_scheme" where
  "cancel_cb now name t opts new_task st =
     (let (r, st) = register_task now name t opts st
      in if fut_done st new_task then st
         else finish new_task (case r of Inr f \<Rightarrow> Returned (VFuture f) | Inl e \<Rightarrow> Failed e) st)"

definition done_cb :: "task_name \<Rightarrow> 'a tm_scheme \<Rightarrow> 'a tm_scheme" where
  "done_cb name st = st\<lparr>pending_tasks := dict_del name (pending_tasks st)\<rparr>"

definition wait_for_tasks :: "'a tm_scheme \<Rightarrow> (fid list) option" where
  "wait_for_tasks st = (let ts = get_tasks st in if ts = [] then None else Some ts)"

section \<open>Shutdown\<close>

text \<open>
  \<^verbatim>\<open>shutdown_task_manager\<close> up to its \<^verbatim>\<open>await\<close>, and from there on: the shutdown tasks run unless
  a task failed with an error other than cancellation.
\<close>

definition run_shutdown_tasks :: "'a tm_scheme \<Rightarrow> 'a tm_scheme" where
  "run_shutdown_tasks st = st\<lparr>shutdown_log := shutdown_log st @ shutdown_tasks st, shutdown_tasks := []\<rparr>"

definition shutdown_task_manager :: "'a tm_scheme \<Rightarrow> 'a tm_scheme" where
  "shutdown_task_manager st =
     (if is_shutdown st then st
      else
        let (tasks, st) = cancel_all_pending_tasks (st\<lparr>is_shutdown := True\<rparr>)
        in if tasks = [] then run_shutdown_tasks st
           else let (g, st) = gather tasks st in add_done_callback g ShutdownCb st)"

definition shutdown_cb :: "fid \<Rightarrow> 'a tm_scheme \<Rightarrow> 'a tm_scheme" where
  "shutdown_cb g st = (case state_of st g of Finished (Failed _) \<Rightarrow> st | _ \<Rightarrow> run_shutdown_tasks st)"

definition run_callback :: "seconds \<Rightarrow> callback \<Rightarrow> fid \<Rightarrow> 'a tm_scheme \<Rightarrow> 'a tm_scheme" where
  "run_callback now c f st =
     (case c of
        DoneCb name \<Rightarrow> done_cb name st
      | CancelCb name t opts new_task \<Rightarrow> cancel_cb now name t opts new_task st
      | GatherCb g \<Rightarrow> gather_cb g f st
      | ShutdownCb \<Rightarrow> shutdown_cb f st)"

section \<open>The initial state\<close>

definition empty_tm :: tm where
  "empty_tm = \<lparr>futures = [], ready = [], pending_tasks = [], shutdown_tasks = [], shutdown_log = [],
     is_shutdown = False, counter = 0, checker = 0\<rparr>"

definition init_checker :: "seconds \<Rightarrow> 'a tm_scheme \<Rightarrow> 'a tm_scheme" where
  "init_checker now st =
     (case register_task now (StrName ''_check_tasks'') (Function (Call ''_check_tasks'' VNone))
             \<lparr>delay = Some (MAX_TASK_AGE * 3 / 2), interval = Some MAX_TASK_AGE, ignore_ok = True\<rparr> st of
        (Inr f, st) \<Rightarrow> st\<lparr>checker := f\<rparr>
      | (Inl _, st) \<Rightarrow> st)"

definition new_task_manager :: "seconds \<Rightarrow> tm" where
  "new_task_manager now = init_checker now empty_tm"

end
