(* ===== verification/TaskManager_Properties.thy ===== *)
theory TaskManager_Properties
  imports TaskManager
begin

text \<open>
  What the operations of the task manager keep, the task manager as a transition system, and its
  properties: pending tasks are tracked, shutdown is final, and how a task can be lost.
\<close>

section \<open>What every operation keeps\<close>

text \<open>
  The futures and callbacks in use exist; an entry of the table of pending tasks is either an
  unfinished future whose callbacks include the one that removes the entry, or a finished one
  for which that callback is queued.
\<close>

definition valid_cb :: "nat \<Rightarrow> callback \<Rightarrow> bool" where
  "valid_cb n c \<longleftrightarrow>
     (case c of
        CancelCb _ t _ f \<Rightarrow> f < n \<and> (\<forall>g. t = FutureArg g \<longrightarrow> g < n)
      | GatherCb g \<Rightarrow> g < n | _ \<Rightarrow> True)"

definition cbs_ok :: "'a tm_scheme \<Rightarrow> bool" where
  "cbs_ok st \<longleftrightarrow>
     (\<forall>(c, f) \<in> set (ready st). f < length (futures st) \<and> valid_cb (length (futures st)) c) \<and>
     (\<forall>x \<in> set (futures st). \<forall>c \<in> set (fut_callbacks x). valid_cb (length (futures st)) c)"

definition tracked :: "'a tm_scheme \<Rightarrow> task_name \<Rightarrow> fid \<Rightarrow> bool" where
  "tracked st n f \<longleftrightarrow>
     (if fut_done st f then (DoneCb n, f) \<in> set (ready st)
      else DoneCb n \<in> set (fut_callbacks (futures st ! f)))"

definition tm_ok :: "'a tm_scheme \<Rightarrow> bool" where
  "tm_ok st \<longleftrightarrow>
     cbs_ok st \<and> dict_wf (pending_tasks st) \<and>
     (\<forall>n f. dict_get (pending_tasks st) n = Some f \<longrightarrow>
        f < length (futures st) \<and> tracked st n f \<and> (is_shutdown st \<longrightarrow> fut_done st f))"

text \<open>What operations on futures alone do: they add futures and callbacks and finish futures.\<close>

definition extends :: "'a tm_scheme \<Rightarrow> 'a tm_scheme \<Rightarrow> bool" where
  "extends st st' \<longleftrightarrow>
     length (futures st) \<le> length (futures st') \<and> pending_tasks st' = pending_tasks st \<and>
     is_shutdown st' = is_shutdown st \<and> counter st' = counter st \<and>
     (cbs_ok st \<longrightarrow> cbs_ok st') \<and>
     (\<forall>f < length (futures st). (fut_done st f \<longrightarrow> fut_done st' f) \<and>
        (state_of st f \<noteq> Running \<longrightarrow> state_of st' f \<noteq> Running) \<and> (\<forall>n. tracked st n f \<longrightarrow> tracked st' n f))"

lemma extends_refl [intro]: "extends st st"
  by (simp add: extends_def)

lemma extends_trans [trans]: "extends a b \<Longrightarrow> extends b c \<Longrightarrow> extends a c"
  by (fastforce simp: extends_def)

lemma extends_ok: "extends st st' \<Longrightarrow> tm_ok st \<Longrightarrow> tm_ok st'"
  by (fastforce simp: extends_def tm_ok_def)

lemma valid_cb_mono: "valid_cb n c \<Longrightarrow> n \<le> m \<Longrightarrow> valid_cb m c"
  by (auto simp: valid_cb_def split: callback.splits)

lemma update_future_simps [simp]:
  "length (futures (update_future f u st)) = length (futures st)"
  "pending_tasks (update_future f u st) = pending_tasks st" "is_shutdown (update_future f u st) = is_shutdown st"
  "counter (update_future f u st) = counter st" "ready (update_future f u st) = ready st"
  "checker (update_future f u st) = checker st"
  "g < length (futures st) \<Longrightarrow> futures (update_future f u st) ! g = (if g = f then u (futures st ! f) else futures st ! g)"
  by (simp_all add: update_future_def nth_list_update)

lemma cbs_ok_mono:
  assumes "cbs_ok st" "length (futures st) \<le> length (futures st')"
    "\<And>c f. (c, f) \<in> set (ready st') \<Longrightarrow>
       (c, f) \<in> set (ready st) \<or> f < length (futures st') \<and> (\<exists>x \<in> set (futures st). c \<in> set (fut_callbacks x)) \<or>
       f < length (futures st') \<and> valid_cb (length (futures st')) c"
    "\<And>x c. x \<in> set (futures st') \<Longrightarrow> c \<in> set (fut_callbacks x) \<Longrightarrow>
       (\<exists>y \<in> set (futures st). c \<in> set (fut_callbacks y)) \<or> valid_cb (length (futures st')) c"
  shows "cbs_ok st'"
proof -
  have old: "valid_cb (length (futures st')) c" if "y \<in> set (futures st)" "c \<in> set (fut_callbacks y)" for c y
    using that assms(1,2) by (auto simp: cbs_ok_def intro: valid_cb_mono [of "length (futures st)"])
  have "f < length (futures st') \<and> valid_cb (length (futures st')) c" if "(c, f) \<in> set (ready st')" for c f
  proof (cases "(c, f) \<in> set (ready st)")
    case True
    then have "f < length (futures st)" "valid_cb (length (futures st)) c" using assms(1) by (auto simp: cbs_ok_def)
    then show ?thesis using assms(2) valid_cb_mono by auto
  next
    case False
    then show ?thesis using assms(3) [OF that] old by blast
  qed
  moreover have "valid_cb (length (futures st')) c" if "x \<in> set (futures st')" "c \<in> set (fut_callbacks x)" for x c
    using assms(4) [OF that] old by blast
  ultimately show ?thesis by (auto simp: cbs_ok_def)
qed

lemma cbs_ok_valid: "cbs_ok st \<Longrightarrow> f < length (futures st) \<Longrightarrow> c \<in> set (fut_callbacks (futures st ! f)) \<Longrightarrow>
    valid_cb (length (futures st)) c"
  by (auto simp: cbs_ok_def)

lemma extends_new:
  assumes "new_future k p st = (f, st')"
  shows "extends st st'" "f = length (futures st)" "length (futures st') = Suc f"
proof -
  have "cbs_ok st \<Longrightarrow> cbs_ok st'"
    by (erule cbs_ok_mono) (use assms in \<open>auto simp: new_future_def\<close>)
  with assms show "extends st st'"
    by (auto simp: extends_def new_future_def tracked_def fut_done_def state_of_def nth_append)
qed (use assms in \<open>auto simp: new_future_def\<close>)

lemma state_of_new:
  assumes "new_future k p st = (f, st')"
  shows "state_of st' f = Running" "fut_callbacks (futures st' ! f) = []" "fut_is_task (futures st' ! f) = k"
    "g < length (futures st) \<Longrightarrow> futures st' ! g = futures st ! g" "ready st' = ready st"
  using assms by (auto simp: new_future_def state_of_def nth_append)

lemma extends_update:
  assumes "f < length (futures st)"
    "fut_state (u (futures st ! f)) = fut_state (futures st ! f) \<or>
     \<not> fut_done st f \<and> fut_state (u (futures st ! f)) = Cancelling"
    "set (fut_callbacks (futures st ! f)) \<subseteq> set (fut_callbacks (u (futures st ! f)))"
    "\<forall>c \<in> set (fut_callbacks (u (futures st ! f))). valid_cb (length (futures st)) c \<or> c \<in> set (fut_callbacks (futures st ! f))"
  shows "extends st (update_future f u st)"
proof -
  have dn: "fut_done (update_future f u st) g = fut_done st g" if "g < length (futures st)" for g
    using that assms(2) by (auto simp: fut_done_def state_of_def)
  moreover have "cbs_ok st \<Longrightarrow> cbs_ok (update_future f u st)"
    by (erule cbs_ok_mono)
      (use assms(4) assms(1) in \<open>auto simp: update_future_def dest!: set_update_subset_insert [THEN subsetD] intro: bexI [OF _ nth_mem]\<close>)
  moreover have "state_of st g \<noteq> Running \<Longrightarrow> state_of (update_future f u st) g \<noteq> Running" if "g < length (futures st)" for g
    using that assms(2) by (auto simp: state_of_def)
  ultimately show ?thesis using assms(3) by (auto simp: extends_def tracked_def)
qed


lemma fut_done_finish: "f < length (futures st) \<Longrightarrow> fut_done (finish f r st) f"
  by (simp add: finish_def fut_done_def state_of_def update_future_def)

lemma finish_simps [simp]:
  "length (futures (finish f r st)) = length (futures st)"
  "pending_tasks (finish f r st) = pending_tasks st" "is_shutdown (finish f r st) = is_shutdown st"
  "counter (finish f r st) = counter st" "checker (finish f r st) = checker st"
  "ready (finish f r st) = ready st @ map (\<lambda>c. (c, f)) (fut_callbacks (futures st ! f))"
  "g < length (futures st) \<Longrightarrow> futures (finish f r st) ! g =
     (if g = f then (futures st ! f)\<lparr>fut_state := Finished r, fut_callbacks := []\<rparr> else futures st ! g)"
  by (simp_all add: finish_def update_future_def nth_list_update)

lemma extends_finish:
  assumes "f < length (futures st)"
  shows "extends st (finish f r st)"
proof -
  have "cbs_ok st \<Longrightarrow> cbs_ok (finish f r st)"
    by (erule cbs_ok_mono)
      (use assms in \<open>auto simp: finish_def update_future_def dest!: set_update_subset_insert [THEN subsetD]
          intro: bexI [OF _ nth_mem]\<close>)
  then show ?thesis
    using assms by (auto simp: extends_def tracked_def fut_done_def state_of_def)
qed

lemma extends_cancel:
  assumes "f < length (futures st)"
  shows "extends st (cancel f st)"
  using assms by (auto simp: cancel_def intro!: extends_finish extends_update)

lemma cancel_simps [simp]:
  "length (futures (cancel f st)) = length (futures st)" "pending_tasks (cancel f st) = pending_tasks st"
  "is_shutdown (cancel f st) = is_shutdown st" "counter (cancel f st) = counter st" "checker (cancel f st) = checker st"
  by (simp_all add: cancel_def)

lemma extends_add_done_callback:
  assumes "f < length (futures st)" "valid_cb (length (futures st)) c"
  shows "extends st (add_done_callback f c st)"
proof (cases "fut_done st f")
  case True
  have "cbs_ok st \<Longrightarrow> cbs_ok (add_done_callback f c st)"
    by (erule cbs_ok_mono) (use assms True in \<open>auto simp: add_done_callback_def\<close>)
  then show ?thesis using True by (auto simp: add_done_callback_def extends_def tracked_def fut_done_def state_of_def)
next
  case False
  then show ?thesis using assms by (auto simp: add_done_callback_def intro!: extends_update)
qed

lemma add_done_callback_simps [simp]:
  "length (futures (add_done_callback f c st)) = length (futures st)"
  "pending_tasks (add_done_callback f c st) = pending_tasks st"
  "is_shutdown (add_done_callback f c st) = is_shutdown st" "counter (add_done_callback f c st) = counter st"
  "checker (add_done_callback f c st) = checker st"
  by (simp_all add: add_done_callback_def)

lemma add_done_callback_state [simp]:
  "g < length (futures st) \<Longrightarrow> state_of (add_done_callback f c st) g = state_of st g"
  "g < length (futures st) \<Longrightarrow> fut_done (add_done_callback f c st) g = fut_done st g"
  by (auto simp: add_done_callback_def state_of_def fut_done_def)

lemma tracked_add: "f < length (futures st) \<Longrightarrow> tracked (add_done_callback f (DoneCb n) st) n f"
  by (auto simp: tracked_def add_done_callback_def fut_done_def state_of_def)

lemma extends_succeed:
  assumes "succeed v st = (f, st')"
  shows "extends st st'" "f = length (futures st)" "length (futures st') = Suc f" "state_of st' f = Finished (Returned v)"
proof -
  obtain st1 where n: "new_future False NoPlan st = (f, st1)" "st' = finish f (Returned v) st1"
    using assms by (auto simp: succeed_def split: prod.splits)
  note e = extends_new [OF n(1)]
  show "extends st st'" using e extends_trans [OF e(1) extends_finish [of f st1 "Returned v"]] by (simp add: n(2))
  show "f = length (futures st)" "length (futures st') = Suc f" "state_of st' f = Finished (Returned v)"
    using e by (simp_all add: n(2) state_of_def)
qed

lemma extends_gather_callbacks:
  "\<forall>f \<in> set fs. f < length (futures st) \<Longrightarrow> g < length (futures st) \<Longrightarrow>
     extends st (fold (\<lambda>f. add_done_callback f (GatherCb g)) fs st) \<and>
     length (futures (fold (\<lambda>f. add_done_callback f (GatherCb g)) fs st)) = length (futures st)"
proof (induction fs arbitrary: st)
  case (Cons f fs)
  have "extends st (add_done_callback f (GatherCb g) st)"
    using Cons.prems by (intro extends_add_done_callback) (auto simp: valid_cb_def)
  with Cons show ?case by (auto intro: extends_trans)
qed auto

lemma extends_gather:
  assumes "gather fs st = (g, st')" "\<forall>f \<in> set fs. f < length (futures st)"
  shows "extends st st'" "g < length (futures st')"
proof -
  obtain st1 where n: "new_future False NoPlan st = (g, st1)"
    "st' = fold (\<lambda>f. add_done_callback f (GatherCb g)) fs (update_future g (\<lambda>x. x\<lparr>fut_missing := length fs\<rparr>) st1)"
    using assms(1) by (auto simp: gather_def Let_def split: prod.splits)
  note e = extends_new [OF n(1)]
  let ?st2 = "update_future g (\<lambda>x. x\<lparr>fut_missing := length fs\<rparr>) st1"
  have "extends st1 ?st2" using e by (intro extends_update) auto
  with e(1) have "extends st ?st2" by (rule extends_trans)
  moreover have "extends ?st2 st' \<and> length (futures st') = length (futures ?st2)"
    unfolding n(2) by (rule extends_gather_callbacks) (use assms(2) e in auto)
  ultimately show "extends st st'" "g < length (futures st')" using e by (auto intro: extends_trans)
qed

lemma extends_gather_cb:
  assumes "g < length (futures st)"
  shows "extends st (gather_cb g f st)"
proof -
  let ?st = "update_future g (\<lambda>x. x\<lparr>fut_missing := fut_missing x - 1\<rparr>) st"
  have "extends st ?st" using assms by (intro extends_update) auto
  moreover have "extends ?st (finish g r ?st)" for r using assms by (intro extends_finish) simp
  ultimately have "extends st (finish g r ?st)" for r by (rule extends_trans)
  then show ?thesis using assms \<open>extends st ?st\<close>
    by (auto simp: gather_cb_def Let_def split: fut_state.splits outcome.splits intro: extends_finish)
qed


text \<open>Adding, removing and cancelling entries of the table.\<close>

lemma tm_ok_set:
  assumes "tm_ok st" "f < length (futures st)" "tracked st n f" "\<not> is_shutdown st"
  shows "tm_ok (st\<lparr>pending_tasks := dict_set n f (pending_tasks st)\<rparr>)"
  using assms by (auto simp: tm_ok_def dict_simps cbs_ok_def tracked_def fut_done_def state_of_def)

lemma tm_ok_del:
  assumes "tm_ok st"
  shows "tm_ok (st\<lparr>pending_tasks := dict_del n (pending_tasks st)\<rparr>)"
  using assms by (auto simp: tm_ok_def dict_simps cbs_ok_def tracked_def fut_done_def state_of_def)

lemma tm_ok_update_pending:
  "tm_ok st \<Longrightarrow> length (futures st') = length (futures st) \<Longrightarrow> futures st' = futures st \<Longrightarrow> ready st' = ready st \<Longrightarrow>
     pending_tasks st' = pending_tasks st \<Longrightarrow> is_shutdown st' = is_shutdown st \<Longrightarrow> tm_ok st'"
  by (simp add: tm_ok_def cbs_ok_def tracked_def fut_done_def state_of_def)

definition task_arg_ok :: "'a tm_scheme \<Rightarrow> user_task \<Rightarrow> bool" where
  "task_arg_ok st t \<longleftrightarrow> (\<forall>f. t = FutureArg f \<longrightarrow> f < length (futures st))"

lemma start_task_ok:
  assumes "start_task t opts st = (f, st')" "task_arg_ok st t" "t \<noteq> NotATask"
  shows "extends st st'" "f < length (futures st')"
  using assms
  by (auto simp: start_task_def task_arg_ok_def extends_new split: user_task.splits)

lemma register_task_cases:
  assumes "register_task now n t opts st = (r, st')"
  obtains (error) e where "r = Inl e" "st' = st"
  | (refused) f st1 where "is_shutdown st" "st1 = (case t of FutureArg g \<Rightarrow> cancel g st | _ \<Rightarrow> st)"
      "succeed VNone st1 = (f, st')" "r = Inr f"
  | (added) f st1 st2 where "\<not> is_shutdown st" "\<not> is_pending_task_active n st" "start_task t opts st = (f, st1)"
      "t \<noteq> NotATask" "st2 = update_future f (\<lambda>x. x\<lparr>fut_start_time := now, fut_interval := interval opts\<rparr>) st1"
      "st' = add_done_callback f (DoneCb n) (st2\<lparr>pending_tasks := dict_set n f (pending_tasks st2)\<rparr>)" "r = Inr f"
  using assms
  by (auto simp: register_task_def Let_def split: if_splits prod.splits)

lemma add_done_callback_pending:
  "add_done_callback f c (st\<lparr>pending_tasks := d\<rparr>) = (add_done_callback f c st)\<lparr>pending_tasks := d\<rparr>"
  by (simp add: add_done_callback_def update_future_def fut_done_def state_of_def)

lemma register_added:
  assumes "start_task t opts st = (f, st1)" "task_arg_ok st t" "t \<noteq> NotATask"
    "st2 = update_future f (\<lambda>x. x\<lparr>fut_start_time := now, fut_interval := interval opts\<rparr>) st1"
  shows "extends st (add_done_callback f (DoneCb n) st2)" "f < length (futures st2)" "pending_tasks st2 = pending_tasks st"
    "tracked (add_done_callback f (DoneCb n) st2) n f"
proof -
  note s = start_task_ok [OF assms(1-3)]
  have "extends st1 st2" unfolding assms(4) using s(2) by (intro extends_update) auto
  moreover show f: "f < length (futures st2)" using s(2) by (simp add: assms(4))
  ultimately have e: "extends st st2" "extends st2 (add_done_callback f (DoneCb n) st2)"
    using s(1) extends_trans extends_add_done_callback [OF f, of "DoneCb n"] by (auto simp: valid_cb_def)
  from extends_trans [OF e] show "extends st (add_done_callback f (DoneCb n) st2)" .
  show "pending_tasks st2 = pending_tasks st" using e(1) by (simp add: extends_def)
  show "tracked (add_done_callback f (DoneCb n) st2) n f" using f by (rule tracked_add)
qed

text \<open>What callers need of an operation that may touch the table: nothing is lost.\<close>

definition grows :: "'a tm_scheme \<Rightarrow> 'a tm_scheme \<Rightarrow> bool" where
  "grows st st' \<longleftrightarrow>
     length (futures st) \<le> length (futures st') \<and> (is_shutdown st \<longrightarrow> is_shutdown st') \<and>
     (\<forall>g < length (futures st). (fut_done st g \<longrightarrow> fut_done st' g) \<and>
        (state_of st g \<noteq> Running \<longrightarrow> state_of st' g \<noteq> Running))"

lemma grows_refl [intro]: "grows st st"
  by (simp add: grows_def)

lemma grows_trans [trans]: "grows a b \<Longrightarrow> grows b c \<Longrightarrow> grows a c"
  by (auto simp: grows_def)

lemma extends_grows: "extends st st' \<Longrightarrow> grows st st'"
  by (simp add: extends_def grows_def)

lemma grows_update [simp]:
  "grows st (st'\<lparr>pending_tasks := d\<rparr>) = grows st st'"
  by (simp add: grows_def fut_done_def state_of_def)

lemma register_task_all:
  assumes "register_task now n t opts st = (r, st')" "tm_ok st" "task_arg_ok st t"
  shows "tm_ok st' \<and> grows st st' \<and> is_shutdown st' = is_shutdown st \<and> (\<forall>f. r = Inr f \<longrightarrow> f < length (futures st')) \<and>
    (is_shutdown st \<longrightarrow> pending_tasks st' = pending_tasks st)"
  using assms(1)
proof (cases rule: register_task_cases)
  case (refused g st1)
  have "extends st st1" using refused(2) assms(3)
    by (auto simp: task_arg_ok_def intro: extends_cancel split: user_task.splits)
  also have "extends st1 st'" using extends_succeed(1) [OF refused(3)] .
  finally have e: "extends st st'" .
  then show ?thesis using extends_ok [OF e assms(2)] refused(4) extends_succeed(2,3) [OF refused(3)]
    by (auto simp: extends_def grows_def)
next
  case (added g st1 st2)
  note a = register_added [OF added(3) assms(3) added(4,5)]
  let ?st3 = "add_done_callback g (DoneCb n) st2"
  have st': "st' = ?st3\<lparr>pending_tasks := dict_set n g (pending_tasks ?st3)\<rparr>"
    by (simp add: added(6) add_done_callback_pending)
  have "tm_ok ?st3" "\<not> is_shutdown ?st3" using extends_ok [OF a(1) assms(2)] a(1) [of n] added(1) by (auto simp: extends_def)
  with a(2,4) have "tm_ok st'" unfolding st' by (intro tm_ok_set) auto
  then show ?thesis using a(1) [of n] a(2) added(1,7) by (auto simp: st' extends_def grows_def fut_done_def state_of_def)
qed (use assms in auto)

lemmas register_task_ok = register_task_all [THEN conjunct1]
lemmas register_task_grows = register_task_all [THEN conjunct2, THEN conjunct1]

lemma state_of_cancel:
  assumes "f < length (futures st)"
  shows "state_of (cancel f st) f \<noteq> Running"
    "g < length (futures st) \<Longrightarrow> state_of st g \<noteq> Running \<Longrightarrow> state_of (cancel f st) g \<noteq> Running"
  using assms by (auto simp: cancel_def fut_done_def state_of_def)

lemma cancel_pending_task_cases:
  assumes "cancel_pending_task n st = (f, st')"
  obtains (absent) "dict_get (pending_tasks st) n = None" "succeed VNone st = (f, st')"
  | (finished) "dict_get (pending_tasks st) n = Some f" "fut_done st f" "st' = st"
  | (cancelled) "dict_get (pending_tasks st) n = Some f" "\<not> fut_done st f"
      "st' = (cancel f st)\<lparr>pending_tasks := dict_del n (pending_tasks st)\<rparr>"
proof (cases "dict_get (pending_tasks st) n")
  case None
  with assms show ?thesis by (intro absent) (simp_all add: cancel_pending_task_def)
next
  case (Some g)
  with assms have "g = f" by (simp add: cancel_pending_task_def)
  with Some assms show ?thesis
    by (cases "fut_done st f") (auto intro: finished cancelled simp: cancel_pending_task_def)
qed

lemma cancel_pending_task_all:
  assumes "cancel_pending_task n st = (f, st')" "tm_ok st"
  shows "tm_ok st' \<and> grows st st' \<and> is_shutdown st' = is_shutdown st \<and> f < length (futures st') \<and>
    (\<forall>m. m \<noteq> n \<longrightarrow> dict_get (pending_tasks st') m = dict_get (pending_tasks st) m) \<and>
    (\<forall>g. dict_get (pending_tasks st') n = Some g \<longrightarrow> dict_get (pending_tasks st) n = Some g \<and> fut_done st g) \<and>
    (\<forall>g. dict_get (pending_tasks st) n = Some g \<longrightarrow> f = g \<and> state_of st' g \<noteq> Running) \<and>
    (\<forall>g < length (futures st). state_of st g \<noteq> Running \<longrightarrow> state_of st' g \<noteq> Running)"
  using assms(1)
proof (cases rule: cancel_pending_task_cases)
  case absent
  note e = extends_succeed [OF absent(2)]
  have "futures st' ! g = futures st ! g" if "g < length (futures st)" for g
    using that absent(2) e(2) by (auto simp: succeed_def new_future_def finish_def update_future_def nth_append)
  then show ?thesis using extends_ok [OF e(1) assms(2)] extends_grows [OF e(1)] e absent(1)
    by (auto simp: extends_def state_of_def)
next
  case finished
  with assms(2) show ?thesis by (auto simp: tm_ok_def fut_done_def)
next
  case cancelled
  have f: "f < length (futures st)" using cancelled(1) assms(2) by (auto simp: tm_ok_def)
  note e = extends_cancel [OF f]
  have "st' = (cancel f st)\<lparr>pending_tasks := dict_del n (pending_tasks (cancel f st))\<rparr>" by (simp add: cancelled(3))
  then have "tm_ok st'" using tm_ok_del [OF extends_ok [OF e assms(2)]] by simp
  moreover have "state_of st' g = state_of (cancel f st) g" for g by (simp add: cancelled(3) state_of_def)
  ultimately show ?thesis using state_of_cancel [OF f] extends_grows [OF e] f cancelled(1)
    by (auto simp: dict_simps cancelled(3))
qed

lemmas cancel_pending_task_ok = cancel_pending_task_all [THEN conjunct1]
lemmas cancel_pending_task_grows = cancel_pending_task_all [THEN conjunct2, THEN conjunct1]

lemma cancel_tasks_all:
  assumes "cancel_tasks ns st = (fs, st')" "tm_ok st"
  shows "tm_ok st' \<and> grows st st' \<and> is_shutdown st' = is_shutdown st \<and> (\<forall>f \<in> set fs. f < length (futures st')) \<and>
    length fs = length ns \<and>
    (\<forall>m g. dict_get (pending_tasks st') m = Some g \<longrightarrow>
       dict_get (pending_tasks st) m = Some g \<and> (m \<in> set ns \<longrightarrow> fut_done st' g)) \<and>
    (\<forall>m g. m \<in> set ns \<longrightarrow> dict_get (pending_tasks st) m = Some g \<longrightarrow> state_of st' g \<noteq> Running) \<and>
    (\<forall>g < length (futures st). state_of st g \<noteq> Running \<longrightarrow> state_of st' g \<noteq> Running)"
  using assms
proof (induction ns arbitrary: st fs)
  case (Cons n ns)
  obtain f st1 fs' where c: "cancel_pending_task n st = (f, st1)" "cancel_tasks ns st1 = (fs', st')" "fs = f # fs'"
    using Cons.prems(1) by (auto split: prod.splits)
  note A = cancel_pending_task_all [OF c(1) Cons.prems(2)]
  note a1 = A [THEN conjunct1] and a2 = A [THEN conjunct2, THEN conjunct1]
    and A = A [THEN conjunct2, THEN conjunct2]
  note a3 = A [THEN conjunct1] and a4 = A [THEN conjunct2, THEN conjunct1] and A = A [THEN conjunct2, THEN conjunct2]
  note a5 = A [THEN conjunct1, rule_format] and a6 = A [THEN conjunct2, THEN conjunct1, rule_format]
    and A = A [THEN conjunct2, THEN conjunct2]
  note a7 = A [THEN conjunct1, rule_format] and a8 = A [THEN conjunct2, rule_format]
  note I = Cons.IH [OF c(2) a1]
  note b1 = I [THEN conjunct1] and b2 = I [THEN conjunct2, THEN conjunct1] and I = I [THEN conjunct2, THEN conjunct2]
  note b3 = I [THEN conjunct1] and b4 = I [THEN conjunct2, THEN conjunct1] and I = I [THEN conjunct2, THEN conjunct2]
  note b5 = I [THEN conjunct1] and b6 = I [THEN conjunct2, THEN conjunct1, rule_format]
    and I = I [THEN conjunct2, THEN conjunct2]
  note b7 = I [THEN conjunct1, rule_format] and b8 = I [THEN conjunct2, rule_format]
  have get: "dict_get (pending_tasks st) m = Some g \<and> (m = n \<longrightarrow> fut_done st g)" if "dict_get (pending_tasks st1) m = Some g" for m g
    using that a5 [of m] a6 [of g] by (cases "m = n") simp_all
  have len: "g < length (futures st)" if "dict_get (pending_tasks st) m = Some g" for m g
    using that Cons.prems(2) by (auto simp: tm_ok_def)
  have g: "grows st st'" using a2 b2 by (rule grows_trans)
  have lt: "g < length (futures st1)" if "g < length (futures st)" for g using a2 that by (simp add: grows_def)
  have 1: "dict_get (pending_tasks st) m = Some g \<and> (m \<in> set (n # ns) \<longrightarrow> fut_done st' g)"
    if "dict_get (pending_tasks st') m = Some g" for m g
  proof -
    note h = b6 [OF that] and h' = get [OF conjunct1 [OF b6 [OF that]]]
    have "fut_done st' g" if "m = n" using h' that g len [of m g] by (simp add: grows_def)
    with h h' show ?thesis by simp
  qed
  have 2: "state_of st' g \<noteq> Running" if "m \<in> set (n # ns)" "dict_get (pending_tasks st) m = Some g" for m g
  proof (cases "m = n")
    case True
    then have "state_of st1 g \<noteq> Running" using a7 [of g] that(2) by simp
    then show ?thesis using b8 lt [OF len [OF that(2)]] by simp
  next
    case False
    then show ?thesis using b7 [of m g] a5 [of m] that by simp
  qed
  have 3: "state_of st' g \<noteq> Running" if "g < length (futures st)" "state_of st g \<noteq> Running" for g
    using b8 [OF lt [OF that(1)] a8 [OF that]] .
  have "f < length (futures st')" using a4 b2 by (simp add: grows_def)
  with b4 have 4: "\<forall>f \<in> set fs. f < length (futures st')" by (simp add: c(3))
  show ?case using b1 b3 b5 a3 g 1 2 3 4 by (simp add: c(3))
qed auto


lemma cancel_all_ok:
  assumes "cancel_all_pending_tasks st = (fs, st')" "tm_ok st"
  shows "tm_ok st'" "grows st st'" "\<forall>f \<in> set fs. f < length (futures st')" "is_shutdown st' = is_shutdown st"
    "dict_get (pending_tasks st') m = Some g \<Longrightarrow> fut_done st' g"
    "dict_get (pending_tasks st) m = Some g \<Longrightarrow> state_of st' g \<noteq> Running"
proof -
  note C = cancel_tasks_all [OF assms(1) [unfolded cancel_all_pending_tasks_def] assms(2)]
  have in_keys: "m \<in> set (dict_keys (pending_tasks st))" if "dict_get (pending_tasks st) m = Some g" for m g
    using map_of_SomeD [OF that] by force
  show "tm_ok st'" "grows st st'" "\<forall>f \<in> set fs. f < length (futures st')" "is_shutdown st' = is_shutdown st"
    using C by simp_all
  show "dict_get (pending_tasks st') m = Some g \<Longrightarrow> fut_done st' g"
    "dict_get (pending_tasks st) m = Some g \<Longrightarrow> state_of st' g \<noteq> Running"
    using C in_keys [of m g] by blast+
qed

lemma add_anonymous_ok:
  assumes "register_anonymous_task now base t opts st = (r, st')" "tm_ok st" "task_arg_ok st t"
  shows "tm_ok st'" "grows st st'" "is_shutdown st \<Longrightarrow> pending_tasks st' = pending_tasks st"
proof -
  let ?st = "st\<lparr>counter := counter st + 1\<rparr>"
  have ok: "tm_ok ?st" "task_arg_ok ?st t" using assms(2,3)
    by (simp_all add: tm_ok_def cbs_ok_def tracked_def fut_done_def state_of_def task_arg_ok_def)
  note R = register_task_all [OF assms(1) [unfolded register_anonymous_task_def Let_def] ok]
  from R show "tm_ok st'" "is_shutdown st \<Longrightarrow> pending_tasks st' = pending_tasks st" by simp_all
  from R show "grows st st'" by (simp add: grows_def fut_done_def state_of_def)
qed

lemma register_executor_task_ok:
  assumes "register_executor_task now name k anon st = (r, st')" "tm_ok st"
  shows "tm_ok st' \<and> grows st st' \<and> (is_shutdown st \<longrightarrow> pending_tasks st' = pending_tasks st)"
proof (cases k)
  case True
  obtain f st1 where n: "new_future False NoPlan st = (f, st1)" by fastforce
  note e = extends_new [OF n]
  have ok: "tm_ok st1" "task_arg_ok st1 (FutureArg f)" using extends_ok [OF e(1) assms(2)] e(2,3) by (auto simp: task_arg_ok_def)
  have same: "pending_tasks st1 = pending_tasks st" "is_shutdown st1 = is_shutdown st" using e(1) by (auto simp: extends_def)
  show ?thesis
  proof (cases anon)
    case True
    with assms(1) n \<open>k\<close> have "register_anonymous_task now name (FutureArg f) no_options st1 = (r, st')"
      by (simp add: register_executor_task_def)
    from add_anonymous_ok [OF this ok] same extends_grows [OF e(1)] grows_trans show ?thesis by auto
  next
    case False
    with assms(1) n \<open>k\<close> have "register_task now (StrName name) (FutureArg f) no_options st1 = (r, st')"
      by (simp add: register_executor_task_def)
    from register_task_all [OF this ok] same extends_grows [OF e(1)] grows_trans show ?thesis by auto
  qed
qed (use assms in \<open>auto simp: register_executor_task_def\<close>)

lemma replace_task_ok:
  assumes "replace_task name t opts st = (f, st')" "tm_ok st" "task_arg_ok st t"
  shows "tm_ok st' \<and> grows st st' \<and> (is_shutdown st \<longrightarrow> (\<forall>n g. dict_get (pending_tasks st') n = Some g \<longrightarrow> fut_done st' g))"
proof -
  obtain st1 old st2 where n: "new_future False NoPlan st = (f, st1)" "cancel_pending_task name st1 = (old, st2)"
    "st' = add_done_callback old (CancelCb name t opts f) st2"
    using assms(1) by (auto simp: replace_task_def split: prod.splits)
  note e = extends_new [OF n(1)]
  note C = cancel_pending_task_all [OF n(2) extends_ok [OF e(1) assms(2)]]
  then have l: "old < length (futures st2)" "length (futures st1) \<le> length (futures st2)" "tm_ok st2" "grows st1 st2"
    by (simp_all add: grows_def)
  have "valid_cb (length (futures st2)) (CancelCb name t opts f)"
    using assms(3) l(2) e(2,3) by (auto simp: valid_cb_def task_arg_ok_def)
  from extends_add_done_callback [OF l(1) this] have x: "extends st2 st'" by (simp add: n(3))
  have ok: "tm_ok st'" using extends_ok [OF x l(3)] .
  have "grows st st'" using grows_trans [OF extends_grows [OF e(1)] grows_trans [OF l(4) extends_grows [OF x]]] .
  with ok show ?thesis by (auto simp: tm_ok_def grows_def)
qed

lemma cancel_cb_ok:
  assumes "tm_ok st" "task_arg_ok st t" "f < length (futures st)"
  shows "tm_ok (cancel_cb now name t opts f st) \<and> grows st (cancel_cb now name t opts f st) \<and>
    (is_shutdown st \<longrightarrow> pending_tasks (cancel_cb now name t opts f st) = pending_tasks st)"
proof -
  obtain r st1 where r: "register_task now name t opts st = (r, st1)" by fastforce
  note R = register_task_all [OF r assms(1,2)]
  have f: "f < length (futures st1)" using R assms(3) by (auto simp: grows_def)
  have x: "extends st1 (finish f o' st1)" for o' by (rule extends_finish [OF f])
  have "grows st (finish f o' st1)" for o' using R extends_grows [OF x] grows_trans by blast
  moreover have "tm_ok (finish f o' st1)" for o' using extends_ok [OF x] R by blast
  ultimately show ?thesis using R by (auto simp: cancel_cb_def r split: sum.splits)
qed

lemma run_shutdown_tasks_ok: "tm_ok st \<Longrightarrow> tm_ok (run_shutdown_tasks st)" "grows st (run_shutdown_tasks st)"
  "pending_tasks (run_shutdown_tasks st) = pending_tasks st" "is_shutdown (run_shutdown_tasks st) = is_shutdown st"
  "state_of (run_shutdown_tasks st) = state_of st"
  by (auto simp: run_shutdown_tasks_def tm_ok_def cbs_ok_def tracked_def fut_done_def state_of_def grows_def)

text \<open>Cancelling does not look at the shutdown flag.\<close>

lemma set_shutdown:
  "futures (st\<lparr>is_shutdown := b\<rparr>) = futures st" "state_of (st\<lparr>is_shutdown := b\<rparr>) = state_of st"
  "fut_done (st\<lparr>is_shutdown := b\<rparr>) = fut_done st" "tracked (st\<lparr>is_shutdown := b\<rparr>) = tracked st"
  "cbs_ok (st\<lparr>is_shutdown := b\<rparr>) = cbs_ok st"
  by (simp_all add: fun_eq_iff state_of_def fut_done_def tracked_def cbs_ok_def)

lemma cancel_pending_task_shutdown:
  "cancel_pending_task n (st\<lparr>is_shutdown := b\<rparr>) = map_prod id (\<lambda>s. s\<lparr>is_shutdown := b\<rparr>) (cancel_pending_task n st)"
  by (simp add: cancel_pending_task_def succeed_def new_future_def finish_def cancel_def update_future_def fut_done_def
      state_of_def split: option.split)

lemma cancel_tasks_shutdown:
  "cancel_tasks ns (st\<lparr>is_shutdown := b\<rparr>) = map_prod id (\<lambda>s. s\<lparr>is_shutdown := b\<rparr>) (cancel_tasks ns st)"
  by (induction ns arbitrary: st) (simp_all add: cancel_pending_task_shutdown split_beta)

lemma begin_shutdown:
  assumes "cancel_all_pending_tasks (st\<lparr>is_shutdown := True\<rparr>) = (fs, st')" "tm_ok st" "\<not> is_shutdown st"
  shows "tm_ok st'" "grows st st'" "is_shutdown st'" "\<forall>f \<in> set fs. f < length (futures st')"
    "dict_get (pending_tasks st) m = Some g \<Longrightarrow> state_of st' g \<noteq> Running"
proof -
  obtain st1 where c: "cancel_all_pending_tasks st = (fs, st1)" "st' = st1\<lparr>is_shutdown := True\<rparr>"
    using assms(1) by (auto simp: cancel_all_pending_tasks_def cancel_tasks_shutdown map_prod_def split: prod.splits)
  note C = cancel_all_ok [OF c(1) assms(2)]
  show "tm_ok st'" using C(1,5) by (auto simp: tm_ok_def c(2) set_shutdown)
  show "grows st st'" using C(2) assms(3) by (auto simp: grows_def c(2) set_shutdown)
  show "is_shutdown st'" by (simp add: c(2))
  show "\<forall>f \<in> set fs. f < length (futures st')" using C(3) by (simp add: c(2))
  show "dict_get (pending_tasks st) m = Some g \<Longrightarrow> state_of st' g \<noteq> Running" using C(6) by (simp add: c(2) set_shutdown)
qed

lemma shutdown_ok:
  assumes "tm_ok st" "\<not> is_shutdown st"
  shows "tm_ok (shutdown_task_manager st)" "grows st (shutdown_task_manager st)" "is_shutdown (shutdown_task_manager st)"
    "dict_get (pending_tasks st) n = Some f \<Longrightarrow> state_of (shutdown_task_manager st) f \<noteq> Running"
proof -
  obtain fs st1 where c: "cancel_all_pending_tasks (st\<lparr>is_shutdown := True\<rparr>) = (fs, st1)" by fastforce
  note B = begin_shutdown [OF c assms]
  have "\<exists>st2. shutdown_task_manager st = st2 \<and> tm_ok st2 \<and> grows st1 st2 \<and> is_shutdown st2"
  proof (cases "fs = []")
    case True
    then have "shutdown_task_manager st = run_shutdown_tasks st1" using c assms(2) by (simp add: shutdown_task_manager_def)
    then show ?thesis using run_shutdown_tasks_ok [of st1] B(1,3) by simp
  next
    case False
    obtain g st2 where g: "gather fs st1 = (g, st2)" by fastforce
    note e = extends_gather [OF g B(4)]
    have x: "extends st2 (add_done_callback g ShutdownCb st2)"
      by (rule extends_add_done_callback [OF e(2)]) (simp add: valid_cb_def)
    have x: "extends st1 (add_done_callback g ShutdownCb st2)" using extends_trans [OF e(1) x] .
    moreover have "shutdown_task_manager st = add_done_callback g ShutdownCb st2"
      using c g assms(2) False by (simp add: shutdown_task_manager_def)
    moreover have "is_shutdown (add_done_callback g ShutdownCb st2)" using x B(3) by (simp add: extends_def)
    ultimately show ?thesis using extends_ok [OF x B(1)] extends_grows [OF x] by blast
  qed
  then obtain st2 where s: "shutdown_task_manager st = st2" "tm_ok st2" "grows st1 st2" "is_shutdown st2" by blast
  show "tm_ok (shutdown_task_manager st)" "is_shutdown (shutdown_task_manager st)" using s by simp_all
  show "grows st (shutdown_task_manager st)" using grows_trans [OF B(2) s(3)] s(1) by simp
  assume n: "dict_get (pending_tasks st) n = Some f"
  then have "f < length (futures st)" using assms(1) by (auto simp: tm_ok_def)
  then have "f < length (futures st1)" using B(2) by (simp add: grows_def)
  with B(5) [OF n] s(3) show "state_of (shutdown_task_manager st) f \<noteq> Running" by (auto simp: grows_def s(1))
qed

text \<open>Running the callback at the head of the queue.\<close>

lemma tracked_pop:
  "ready st = (c, f) # rest \<Longrightarrow> tracked st n g \<Longrightarrow> c \<noteq> DoneCb n \<Longrightarrow> tracked (st\<lparr>ready := rest\<rparr>) n g"
  by (auto simp: tracked_def fut_done_def state_of_def split: if_splits)

lemma cbs_ok_pop: "cbs_ok st \<Longrightarrow> ready st = x # rest \<Longrightarrow> cbs_ok (st\<lparr>ready := rest\<rparr>)"
  by (simp add: cbs_ok_def)

lemma fut_done_pop [simp]: "fut_done (st\<lparr>ready := rest\<rparr>) = fut_done st" "state_of (st\<lparr>ready := rest\<rparr>) = state_of st"
  by (simp_all add: fun_eq_iff fut_done_def state_of_def)

lemma pop_ready:
  assumes "tm_ok st" "ready st = (c, f) # rest" "\<forall>n. c \<noteq> DoneCb n"
  shows "tm_ok (st\<lparr>ready := rest\<rparr>)"
  using assms cbs_ok_pop tracked_pop [OF assms(2)] by (auto simp: tm_ok_def)

lemma done_cb_ok:
  assumes "tm_ok st" "ready st = (DoneCb n, f) # rest"
  shows "tm_ok (done_cb n (st\<lparr>ready := rest\<rparr>))"
proof -
  let ?st = "done_cb n (st\<lparr>ready := rest\<rparr>)"
  have same: "tracked ?st m g = tracked (st\<lparr>ready := rest\<rparr>) m g" "fut_done ?st g = fut_done st g" for m g
    by (simp_all add: done_cb_def tracked_def fut_done_def state_of_def)
  have "tracked (st\<lparr>ready := rest\<rparr>) m g" if "dict_get (pending_tasks st) m = Some g" "m \<noteq> n" for m g
    using that assms(1) tracked_pop [OF assms(2)] by (simp add: tm_ok_def)
  moreover have "cbs_ok ?st" using assms cbs_ok_pop by (auto simp: tm_ok_def done_cb_def cbs_ok_def)
  moreover have p: "pending_tasks ?st = dict_del n (pending_tasks st)" "is_shutdown ?st = is_shutdown st"
    "futures ?st = futures st" by (simp_all add: done_cb_def)
  ultimately show ?thesis using assms(1) unfolding tm_ok_def p same by (auto simp: dict_simps split: if_splits)
qed

lemma callback_ok:
  assumes "tm_ok st" "ready st = (c, f) # rest"
  shows "tm_ok (run_callback now c f (st\<lparr>ready := rest\<rparr>)) \<and> grows st (run_callback now c f (st\<lparr>ready := rest\<rparr>))"
proof -
  let ?st = "st\<lparr>ready := rest\<rparr>"
  have cb: "f < length (futures st)" "valid_cb (length (futures st)) c"
    using assms by (auto simp: tm_ok_def cbs_ok_def)
  have g: "grows ?st st' \<Longrightarrow> grows st st'" for st' by (simp add: grows_def fut_done_def state_of_def)
  show ?thesis
  proof (cases c)
    case (DoneCb n)
    then show ?thesis using done_cb_ok assms
      by (auto simp: run_callback_def done_cb_def grows_def fut_done_def state_of_def)
  next
    case (CancelCb n t opts h)
    then have "tm_ok ?st" "task_arg_ok ?st t" "h < length (futures ?st)"
      using pop_ready [OF assms] cb(2) by (auto simp: valid_cb_def task_arg_ok_def)
    from cancel_cb_ok [OF this] g show ?thesis by (auto simp: run_callback_def CancelCb)
  next
    case (GatherCb h)
    then have "tm_ok ?st" "h < length (futures ?st)"
      using pop_ready [OF assms] cb(2) by (auto simp: valid_cb_def)
    with extends_gather_cb [of h ?st f] have "extends ?st (gather_cb h f ?st)" by simp
    from extends_ok [OF this \<open>tm_ok ?st\<close>] g [OF extends_grows [OF this]] show ?thesis
      by (simp add: run_callback_def GatherCb)
  next
    case ShutdownCb
    then have "tm_ok ?st" using pop_ready [OF assms] by simp
    then show ?thesis using run_shutdown_tasks_ok [of ?st] g [OF grows_refl] g
      by (auto simp: run_callback_def ShutdownCb shutdown_cb_def split: fut_state.splits outcome.splits)
  qed
qed

section \<open>The task manager as a transition system\<close>

inductive tm_step :: "tm \<Rightarrow> tm \<Rightarrow> bool" where
  other_future: "new_future is_task p st = (f, st') \<Longrightarrow> tm_step st st'"
| register: "task_arg_ok st t \<Longrightarrow> register_task now name t opts st = (r, st') \<Longrightarrow> tm_step st st'"
| register_anonymous: "task_arg_ok st t \<Longrightarrow> register_anonymous_task now base t opts st = (r, st') \<Longrightarrow> tm_step st st'"
| register_executor: "register_executor_task now base k anon st = (r, st') \<Longrightarrow> tm_step st st'"
| register_shutdown: "tm_step st (register_shutdown_task v st)"
| cancel: "cancel_pending_task name st = (f, st') \<Longrightarrow> tm_step st st'"
| cancel_all: "cancel_all_pending_tasks st = (fs, st') \<Longrightarrow> tm_step st st'"
| replace: "task_arg_ok st t \<Longrightarrow> replace_task name t opts st = (f, st') \<Longrightarrow> tm_step st st'"
| finished: "f < length (futures st) \<Longrightarrow> \<not> fut_done st f \<Longrightarrow> tm_step st (finish f r st)"
| callback: "ready st = (c, f) # rest \<Longrightarrow> tm_step st (run_callback now c f (st\<lparr>ready := rest\<rparr>))"
| shutdown: "tm_step st (shutdown_task_manager st)"

lemma tm_step_ok:
  assumes "tm_step st st'" "tm_ok st"
  shows "tm_ok st' \<and> grows st st'"
  using assms
proof (cases rule: tm_step.cases)
  case (other_future k p f)
  then show ?thesis using extends_new(1) extends_ok extends_grows assms(2) by blast
next
  case (register t now name opts r)
  then show ?thesis using register_task_all assms(2) by blast
next
  case (register_anonymous t now base opts r)
  then show ?thesis using add_anonymous_ok assms(2) by blast
next
  case (register_executor now base k anon r)
  then show ?thesis using register_executor_task_ok assms(2) by blast
next
  case (register_shutdown v)
  then show ?thesis using assms(2)
    by (auto simp: register_shutdown_task_def tm_ok_def cbs_ok_def tracked_def fut_done_def state_of_def grows_def)
next
  case (cancel name f)
  then show ?thesis using cancel_pending_task_all assms(2) by blast
next
  case (cancel_all fs)
  then show ?thesis using cancel_all_ok(1,2) assms(2) by blast
next
  case (replace t name opts f)
  then show ?thesis using replace_task_ok assms(2) by blast
next
  case (finished f r)
  then show ?thesis using extends_finish extends_ok extends_grows assms(2) by blast
next
  case (callback c f rest now)
  then show ?thesis using callback_ok assms(2) by blast
next
  case shutdown
  show ?thesis
  proof (cases "is_shutdown st")
    case True
    with shutdown assms(2) show ?thesis by (auto simp: shutdown_task_manager_def)
  next
    case False
    from shutdown_ok(1,2) [OF assms(2) this] shutdown show ?thesis by simp
  qed
qed

inductive tm_reachable :: "tm \<Rightarrow> bool" where
  init: "tm_reachable (new_task_manager now)"
| step: "tm_reachable st \<Longrightarrow> tm_step st st' \<Longrightarrow> tm_reachable st'"

lemma new_task_manager_ok: "tm_ok (new_task_manager now)"
proof -
  have "tm_ok empty_tm" by (simp add: empty_tm_def tm_ok_def cbs_ok_def)
  moreover obtain r st where r: "register_task now (StrName ''_check_tasks'') (Function (Call ''_check_tasks'' VNone))
    \<lparr>delay = Some (MAX_TASK_AGE * 3 / 2), interval = Some MAX_TASK_AGE, ignore_ok = True\<rparr> empty_tm = (r, st)" by fastforce
  ultimately have "tm_ok st" using register_task_all [OF r] by (simp add: task_arg_ok_def)
  then have "tm_ok (st\<lparr>checker := f\<rparr>)" for f
    by (simp add: tm_ok_def cbs_ok_def tracked_def fut_done_def state_of_def)
  with \<open>tm_ok st\<close> show ?thesis by (simp add: new_task_manager_def init_checker_def r split: sum.splits)
qed

lemma tm_reachable_ok: "tm_reachable st \<Longrightarrow> tm_ok st"
  by (induction rule: tm_reachable.induct) (auto simp: new_task_manager_ok dest: tm_step_ok)

lemma tm_steps_ok: "tm_step\<^sup>*\<^sup>* st st' \<Longrightarrow> tm_ok st \<Longrightarrow> tm_ok st' \<and> grows st st'"
proof (induction rule: rtranclp_induct)
  case (step a b)
  then show ?case using tm_step_ok grows_trans by blast
qed auto


section \<open>Properties\<close>

text \<open>
  C11: in every reachable state, an entry of the table of pending tasks is an unfinished task
  that will remove the entry when it is done, or a finished one whose removal is queued; once
  all queued callbacks have run, only active tasks are left in the table.
\<close>

theorem pending_tasks_are_tracked:
  assumes "tm_reachable st" "dict_get (pending_tasks st) name = Some f"
  shows "f < length (futures st) \<and>
    (if is_pending_task_active name st then DoneCb name \<in> set (fut_callbacks (futures st ! f))
     else (DoneCb name, f) \<in> set (ready st)) \<and>
    (ready st = [] \<longrightarrow> is_pending_task_active name st)"
proof -
  from tm_reachable_ok [OF assms(1)] assms(2) have "f < length (futures st)" "tracked st name f" by (auto simp: tm_ok_def)
  then show ?thesis using assms(2) by (auto simp: tracked_def is_pending_task_active_def)
qed

definition ex_tm :: tm where
  "ex_tm = snd (register_task 5 (StrName ''job'') (Function (Call ''job'' VNone)) no_options (new_task_manager 0))"

lemma ex_tm_reachable: "tm_reachable ex_tm"
  unfolding ex_tm_def
  by (rule tm_reachable.step [OF tm_reachable.init tm_step.register [OF _ surjective_pairing]])
    (simp add: task_arg_ok_def)

lemma ex_tm_facts:
  "dict_get (pending_tasks ex_tm) (StrName ''job'') = Some 1" "is_shutdown ex_tm = False" "ready ex_tm = []"
  "state_of ex_tm 1 = Running" "fut_is_task (futures ex_tm ! 1)"
  "fut_callbacks (futures ex_tm ! 1) = [DoneCb (StrName ''job'')]"
  by code_simp+

theorem pending_tasks_are_tracked_witness:
  "1 < length (futures ex_tm) \<and> is_pending_task_active (StrName ''job'') ex_tm"
  using pending_tasks_are_tracked [OF ex_tm_reachable ex_tm_facts(1)] ex_tm_facts(3) by simp

text \<open>
  C12: shutting down asks every task of the table to cancel, and from then on no task is ever
  active again: registering is refused without raising, and the table is empty when the
  queued callbacks have run.
\<close>

theorem shutdown_is_final:
  assumes "tm_reachable st" "\<not> is_shutdown st" "tm_step\<^sup>*\<^sup>* (shutdown_task_manager st) st'"
  shows "(\<forall>name f. dict_get (pending_tasks st) name = Some f \<longrightarrow> state_of st' f \<noteq> Running) \<and>
    (\<forall>name. \<not> is_pending_task_active name st') \<and> (ready st' = [] \<longrightarrow> pending_tasks st' = []) \<and>
    (\<forall>now name j. \<exists>f st''. register_task now name (Function j) no_options st' = (return f, st'') \<and>
       pending_tasks st'' = pending_tasks st')"
proof -
  have ok: "tm_ok st" using tm_reachable_ok [OF assms(1)] .
  note S = shutdown_ok [OF ok assms(2)]
  note T = tm_steps_ok [OF assms(3) S(1)]
  have down: "is_shutdown st'" using S(3) T by (simp add: grows_def)
  have "state_of st' f \<noteq> Running" if "dict_get (pending_tasks st) name = Some f" for name f
  proof -
    have "f < length (futures st)" using that ok by (auto simp: tm_ok_def)
    then have "f < length (futures (shutdown_task_manager st))" using S(2) by (simp add: grows_def)
    then show ?thesis using S(4) [OF that] T by (simp add: grows_def)
  qed
  moreover have idle: "\<not> is_pending_task_active name st'" for name
    using T down by (auto simp: is_pending_task_active_def tm_ok_def split: option.splits)
  moreover have "pending_tasks st' = []" if "ready st' = []"
  proof (rule ccontr)
    assume "pending_tasks st' \<noteq> []"
    then obtain n f list where "pending_tasks st' = (n, f) # list" by (cases "pending_tasks st'") auto
    then have "dict_get (pending_tasks st') n = Some f" by simp
    then have "fut_done st' f" "tracked st' n f" using T down by (auto simp: tm_ok_def)
    with that show False by (simp add: tracked_def)
  qed
  moreover have "\<exists>f st''. register_task now name (Function j) no_options st' = (return f, st'') \<and>
       pending_tasks st'' = pending_tasks st'" for now name j
    using down by (simp add: register_task_def no_options_def is_function_def truthy_seconds_def succeed_def new_future_def)
  ultimately show ?thesis by blast
qed

theorem shutdown_is_final_witness:
  "state_of (shutdown_task_manager ex_tm) 1 \<noteq> Running \<and>
   \<not> is_pending_task_active (StrName ''job'') (shutdown_task_manager ex_tm)"
  using shutdown_is_final [OF ex_tm_reachable _ rtranclp.rtrancl_refl] ex_tm_facts(1,2) by blast

lemma fold_gather_state:
  "f < length (futures st) \<Longrightarrow> state_of (fold (\<lambda>f. add_done_callback f (GatherCb g)) fs st) f = state_of st f"
  by (induction fs arbitrary: st) simp_all

lemma gather_state:
  assumes "gather fs st = (g, st')" "f < length (futures st)"
  shows "state_of st' f = state_of st f"
proof -
  obtain st1 where n: "new_future False NoPlan st = (g, st1)"
    "st' = fold (\<lambda>f. add_done_callback f (GatherCb g)) fs (update_future g (\<lambda>x. x\<lparr>fut_missing := length fs\<rparr>) st1)"
    using assms(1) by (auto simp: gather_def Let_def split: prod.splits)
  note e = extends_new [OF n(1)]
  have "state_of (update_future g (\<lambda>x. x\<lparr>fut_missing := length fs\<rparr>) st1) f = state_of st f"
    using assms(2) e(2,3) state_of_new(4) [OF n(1)] by (simp add: state_of_def)
  then show ?thesis using fold_gather_state [of f "update_future g (\<lambda>x. x\<lparr>fut_missing := length fs\<rparr>) st1"] assms(2) e
    by (simp add: n(2))
qed

lemma cancel_pending_task_other:
  assumes "cancel_pending_task n st = (f, st')" "dict_get (pending_tasks st) n \<noteq> Some g" "g < length (futures st)"
  shows "state_of st' g = state_of st g"
  using assms(1)
proof (cases rule: cancel_pending_task_cases)
  case absent
  then show ?thesis using assms(3)
    by (auto simp: succeed_def new_future_def finish_def update_future_def state_of_def nth_append)
next
  case cancelled
  with assms(2) have "g \<noteq> f" by auto
  then show ?thesis using assms(3) by (auto simp: cancelled(3) cancel_def state_of_def)
qed simp

lemma cancel_tasks_other:
  assumes "cancel_tasks ns st = (fs, st')" "tm_ok st" "\<forall>n. dict_get (pending_tasks st) n \<noteq> Some g" "g < length (futures st)"
  shows "state_of st' g = state_of st g \<and> g < length (futures st')"
  using assms
proof (induction ns arbitrary: st fs)
  case (Cons n ns)
  obtain f st1 fs' where c: "cancel_pending_task n st = (f, st1)" "cancel_tasks ns st1 = (fs', st')"
    using Cons.prems(1) by (auto split: prod.splits)
  note A = cancel_pending_task_all [OF c(1) Cons.prems(2)]
  have "dict_get (pending_tasks st1) m \<noteq> Some g" for m using A Cons.prems(3) by metis
  moreover have "g < length (futures st1)" using A Cons.prems(4) by (simp add: grows_def)
  ultimately have "state_of st' g = state_of st1 g \<and> g < length (futures st')" using Cons.IH [OF c(2)] A by blast
  then show ?case using cancel_pending_task_other [OF c(1)] Cons.prems(3,4) by simp
qed auto

text \<open>A task that is not in the table outlives a shutdown.\<close>

lemma untracked_task_survives:
  assumes "tm_ok st" "\<not> is_shutdown st" "\<forall>n. dict_get (pending_tasks st) n \<noteq> Some g" "g < length (futures st)"
  shows "state_of (shutdown_task_manager st) g = state_of st g"
proof -
  obtain fs st1 where c: "cancel_all_pending_tasks st = (fs, st1)" by fastforce
  let ?st1 = "st1\<lparr>is_shutdown := True\<rparr>"
  have c': "cancel_all_pending_tasks (st\<lparr>is_shutdown := True\<rparr>) = (fs, ?st1)"
    using c by (simp add: cancel_all_pending_tasks_def cancel_tasks_shutdown)
  have k: "state_of ?st1 g = state_of st g" "g < length (futures ?st1)"
    using cancel_tasks_other [OF c [unfolded cancel_all_pending_tasks_def] assms(1,3,4)] by (simp_all add: set_shutdown)
  show ?thesis
  proof (cases "fs = []")
    case True
    then show ?thesis using c' assms(2) k run_shutdown_tasks_ok(5) [of ?st1] by (simp add: shutdown_task_manager_def)
  next
    case False
    obtain h st2 where h: "gather fs ?st1 = (h, st2)" by fastforce
    have "g < length (futures st2)" using extends_gather(1) [OF h] begin_shutdown(4) [OF c' assms(1,2)] k(2)
      by (auto simp: extends_def)
    then show ?thesis using c' assms(2) k gather_state [OF h k(2)] h False by (simp add: shutdown_task_manager_def)
  qed
qed

text \<open>
  cancelling a running task and registering another one under its name at once leaves the
  new one untracked: when the old task ends, its callback removes the entry of the new task,
  which then runs on after a shutdown.
\<close>

theorem reregistered_task_is_lost:
  assumes "tm_ok st" "\<not> is_shutdown st" "dict_get (pending_tasks st) name = Some old" "state_of st old = Running"
    "fut_is_task (futures st ! old)" "ready st = []" "fut_callbacks (futures st ! old) = [DoneCb name]"
    "st1 = snd (cancel_pending_task name st)"
    "register_task now name (Function j) no_options st1 = (r, st2)" "st3 = finish old WasCancelled st2"
    "st4 = run_callback now (DoneCb name) old (st3\<lparr>ready := []\<rparr>)"
  shows "\<exists>new. r = return new \<and> ready st3 = [(DoneCb name, old)] \<and> dict_get (pending_tasks st4) name = None \<and>
    state_of st4 new = Running \<and> state_of (shutdown_task_manager st4) new = Running"
proof -
  let ?new = "length (futures st)"
  have old: "old < length (futures st)" using assms(1,3) by (auto simp: tm_ok_def)
  have run: "\<not> fut_done st old" using assms(4) by (simp add: fut_done_def)
  have st1: "st1 = (update_future old (\<lambda>x. x\<lparr>fut_state := Cancelling\<rparr>) st)\<lparr>pending_tasks := dict_del name (pending_tasks st)\<rparr>"
    using assms(3,5) run by (simp add: assms(8) cancel_pending_task_def cancel_def)
  have c: "cancel_pending_task name st = (old, st1)" using assms(3,8) by (simp add: cancel_pending_task_def)
  have ok1: "tm_ok st1" using cancel_pending_task_ok [OF c assms(1)] .
  have r: "r = return ?new" and st2: "futures st2 = futures st1 @ [\<lparr>fut_is_task = True, fut_state = Running,
      fut_callbacks = [DoneCb name], fut_plan = Once j, fut_interval = None, fut_start_time = now, fut_missing = 0\<rparr>]"
    "ready st2 = []" "pending_tasks st2 = dict_set name ?new (pending_tasks st1)" "is_shutdown st2 = False"
    using assms(2,6,9)
    by (auto simp: st1 register_task_def no_options_def is_function_def truthy_seconds_def is_pending_task_active_def dict_simps
        start_task_def new_future_def task_plan_def add_done_callback_def update_future_def fut_done_def state_of_def
        nth_append list_update_append)
  have ok2: "tm_ok st2" using register_task_ok [OF assms(9) ok1] by (simp add: task_arg_ok_def)
  have "old < length (futures st2)" using old by (simp add: st2 st1)
  then have ok3: "tm_ok st3" unfolding assms(10) using extends_finish extends_ok ok2 by blast
  have cbs: "fut_callbacks (futures st2 ! old) = [DoneCb name]"
    using old assms(7) by (simp add: st2(1) st1 nth_append)
  then have q: "ready st3 = [(DoneCb name, old)]" by (simp add: assms(10) st2(2))
  have p: "pending_tasks st4 = dict_del name (dict_set name ?new (dict_del name (pending_tasks st)))"
    by (simp add: assms(11) run_callback_def done_cb_def assms(10) st2(3) st1)
  have new: "dict_get (pending_tasks st) n \<noteq> Some ?new" for n using assms(1) by (auto simp: tm_ok_def)
  have lost: "dict_get (pending_tasks st4) n \<noteq> Some ?new" for n using new [of n] by (simp add: p dict_simps)
  have "futures st4 = futures st3" by (simp add: assms(11) run_callback_def done_cb_def)
  then have f4: "state_of st4 ?new = Running" "?new < length (futures st4)"
    using old by (simp_all add: state_of_def assms(10) st2(1) st1 nth_append)
  have "tm_ok st4" "\<not> is_shutdown st4"
    using done_cb_ok [OF ok3 q] st2(4) by (simp_all add: assms(10,11) run_callback_def done_cb_def)
  from untracked_task_survives [OF this _ f4(2)] lost f4(1) r q show ?thesis by (simp add: p dict_simps)
qed


theorem reregistered_task_is_lost_witness:
  "\<exists>st4 :: tm. dict_get (pending_tasks st4) (StrName ''job'') = None \<and> state_of (shutdown_task_manager st4) 2 = Running"
proof -
  let ?n = "StrName ''job''" and ?j = "Call ''again'' VNone"
  obtain r st2 where r: "register_task 9 ?n (Function ?j) no_options (snd (cancel_pending_task ?n ex_tm)) = (r, st2)"
    by fastforce
  have "fst (register_task 9 ?n (Function ?j) no_options (snd (cancel_pending_task ?n ex_tm))) = return 2"
    by code_simp
  with r have "r = return 2" by simp
  let ?st4 = "run_callback 9 (DoneCb ?n) 1 (finish 1 WasCancelled st2\<lparr>ready := []\<rparr>)"
  have "\<not> is_shutdown ex_tm" using ex_tm_facts(2) by simp
  from reregistered_task_is_lost [OF tm_reachable_ok [OF ex_tm_reachable] this ex_tm_facts(1,4,5,3,6) refl r refl refl]
  obtain new where new: "r = return new \<and> ready (finish 1 WasCancelled st2) = [(DoneCb ?n, 1)] \<and>
    dict_get (pending_tasks ?st4) ?n = None \<and> state_of ?st4 new = Running \<and>
    state_of (shutdown_task_manager ?st4) new = Running" by (rule exE)
  have two: "new = 2" using \<open>r = return 2\<close> conjunct1 [OF new] by simp
  show ?thesis
    by (rule exI [of _ ?st4], rule conjI, rule new [THEN conjunct2, THEN conjunct2, THEN conjunct1],
        rule new [THEN conjunct2, THEN conjunct2, THEN conjunct2, THEN conjunct2, unfolded two])
qed

end
