(* ===== verification/RequestCache.thy ===== *)
theory RequestCache
  imports TaskManager
begin

text \<open>
  The request cache (\<^verbatim>\<open>ipv8/requestcache.py\<close>): caches identified by a prefix and a number,
  each with a timer task, and futures for callers that wait for a cache. Its state extends the
  state of the task manager.
\<close>

section \<open>Caches\<close>

text \<open>
  A cache object is named by its position in the list of all caches; \<open>cache_classes\<close> are the
  classes it is an instance of. A managed future has the value or the exception it is set to
  when the cache times out.
\<close>

datatype timeout_value = TimeoutResult fut_value | TimeoutError py_error

record number_cache =
  cache_prefix :: string
  cache_number :: int
  timeout_delay :: seconds
  cache_classes :: "nat list"
  managed_futures :: "(fid \<times> timeout_value) list"

record rc = tm +
  caches :: "number_cache list"
  identifiers :: "(string, nat) dict"
  waiters :: "(string \<times> int, fid) dict"
  timeout_override :: "seconds option"
  timeout_filters :: "nat list option"

definition create_identifier :: "int \<Rightarrow> string \<Rightarrow> string" where
  "create_identifier number pre = pre @ '':'' @ int_string number"

text \<open>A cache is looked up by a prefix or by a class with a \<^verbatim>\<open>name\<close>.\<close>

datatype prefix_arg = PrefixStr string | PrefixClass string

fun prefix_name :: "prefix_arg \<Rightarrow> string" where
  "prefix_name (PrefixStr s) = s" | "prefix_name (PrefixClass name) = name"

definition rc_has :: "prefix_arg \<Rightarrow> int \<Rightarrow> rc \<Rightarrow> bool" where
  "rc_has p number st \<longleftrightarrow> dict_get (identifiers st) (create_identifier number (prefix_name p)) \<noteq> None"

definition rc_get :: "prefix_arg \<Rightarrow> int \<Rightarrow> rc \<Rightarrow> nat option" where
  "rc_get p number st = dict_get (identifiers st) (create_identifier number (prefix_name p))"

definition new_number_cache :: "string \<Rightarrow> int \<Rightarrow> seconds \<Rightarrow> nat list \<Rightarrow> rc \<Rightarrow> nat result \<times> rc" where
  "new_number_cache pre number timeout classes st =
     (if rc_has (PrefixStr pre) number st then (raise RuntimeError, st)
      else
        (return (length (caches st)),
         st\<lparr>caches := caches st @ [\<lparr>cache_prefix = pre, cache_number = number, timeout_delay = timeout,
           cache_classes = classes, managed_futures = []\<rparr>]\<rparr>))"

definition register_future :: "nat \<Rightarrow> fid \<Rightarrow> timeout_value \<Rightarrow> rc \<Rightarrow> rc" where
  "register_future c f v st =
     st\<lparr>caches := (caches st)[c := (caches st ! c)\<lparr>managed_futures := managed_futures (caches st ! c) @ [(f, v)]\<rparr>]\<rparr>"

text \<open>The random numbers drawn are given; a thousand of them are tried.\<close>

fun first_unclaimed :: "int list \<Rightarrow> string \<Rightarrow> rc \<Rightarrow> int result" where
  "first_unclaimed [] pre st = raise RuntimeError"
| "first_unclaimed (n # ns) pre st =
     (if rc_has (PrefixStr pre) n st then first_unclaimed ns pre st else return n)"

definition find_unclaimed_identifier :: "int list \<Rightarrow> string \<Rightarrow> rc \<Rightarrow> int result" where
  "find_unclaimed_identifier draws pre st = first_unclaimed (take 1000 draws) pre st"

definition identifier_of :: "rc \<Rightarrow> nat \<Rightarrow> string" where
  "identifier_of st c = create_identifier (cache_number (caches st ! c)) (cache_prefix (caches st ! c))"

section \<open>Adding, popping and waiting\<close>

definition cancel_managed :: "nat \<Rightarrow> rc \<Rightarrow> rc" where
  "cancel_managed c st = fold (\<lambda>(f, _). cancel f) (managed_futures (caches st ! c)) st"

definition chosen_delay :: "nat \<Rightarrow> rc \<Rightarrow> seconds" where
  "chosen_delay c st =
     (case timeout_override st of
        None \<Rightarrow> timeout_delay (caches st ! c)
      | Some d \<Rightarrow>
          (case timeout_filters st of
             None \<Rightarrow> d
           | Some fs \<Rightarrow>
               if \<exists>f \<in> set fs. f \<in> set (cache_classes (caches st ! c)) then d else timeout_delay (caches st ! c)))"

definition on_timeout_job :: "nat \<Rightarrow> job" where
  "on_timeout_job c = Call ''_on_timeout'' (VObj c)"

definition delayed :: "seconds \<Rightarrow> task_options" where
  "delayed d = \<lparr>delay = Some d, interval = None, ignore_ok = True\<rparr>"

definition resolve_waiter :: "nat \<Rightarrow> rc \<Rightarrow> rc" where
  "resolve_waiter c st =
     (let key = (cache_prefix (caches st ! c), cache_number (caches st ! c));
          st' = st\<lparr>waiters := dict_del key (waiters st)\<rparr>
      in case dict_get (waiters st) key of
           None \<Rightarrow> st'
         | Some w \<Rightarrow> if fut_done st' w then st' else finish w (Returned (VObj c)) st')"

definition rc_add :: "seconds \<Rightarrow> nat \<Rightarrow> rc \<Rightarrow> (nat option) result \<times> rc" where
  "rc_add now c st =
     (if timeout_delay (caches st ! c) \<le> 0 then (raise AssertionError, st)
      else if is_shutdown st then (return None, cancel_managed c st)
      else if dict_get (identifiers st) (identifier_of st c) \<noteq> None then (return None, st)
      else
        let st = st\<lparr>identifiers := dict_set (identifier_of st c) c (identifiers st)\<rparr>
        in case register_task now (ObjName c) (Function (on_timeout_job c)) (delayed (chosen_delay c st)) st of
             (Inl e, st) \<Rightarrow> (raise e, st)
           | (Inr _, st) \<Rightarrow> (return (Some c), resolve_waiter c st))"

definition rc_pop :: "prefix_arg \<Rightarrow> int \<Rightarrow> rc \<Rightarrow> nat result \<times> rc" where
  "rc_pop p number st =
     (let i = create_identifier number (prefix_name p)
      in case dict_get (identifiers st) i of
           None \<Rightarrow> (raise KeyError, st)
         | Some c \<Rightarrow>
             (return c, snd (cancel_pending_task (ObjName c) (st\<lparr>identifiers := dict_del i (identifiers st)\<rparr>))))"

definition watch_future :: "string \<times> int \<Rightarrow> rc \<Rightarrow> rc" where
  "watch_future key st =
     (let st' = st\<lparr>waiters := dict_del key (waiters st)\<rparr>
      in case dict_get (waiters st) key of None \<Rightarrow> st' | Some w \<Rightarrow> cancel w st')"

text \<open>
  \<^verbatim>\<open>wait_for\<close>. With a class it waits for the name of the class, without the timeout. The
  representation of the future in the name of the watch task is left out.
\<close>

definition wait_for_name :: "seconds \<Rightarrow> string \<Rightarrow> int \<Rightarrow> seconds option \<Rightarrow> rc \<Rightarrow> fid result \<times> rc" where
  "wait_for_name now pre number timeout st =
     (case rc_get (PrefixStr pre) number st of
        Some c \<Rightarrow> (let (f, st) = succeed (VObj c) st in (return f, st))
      | None \<Rightarrow>
          let (w, st) = new_future False NoPlan st;
              st = st\<lparr>waiters := dict_set (pre, number) w (waiters st)\<rparr>;
              (r, st) =
                (case timeout of
                   None \<Rightarrow> (return 0, st)
                 | Some t \<Rightarrow>
                     register_anonymous_task now ''Watch RequestCache Future ''
                       (Function (Call ''_watch_future'' (VKey pre number))) (delayed t) st)
          in case r of
               Inl e \<Rightarrow> (raise e, st)
             | Inr _ \<Rightarrow> register_anonymous_task now (''RequestCache wait for '' @ pre) (FutureArg w) no_options st)"

definition wait_for :: "seconds \<Rightarrow> prefix_arg \<Rightarrow> int \<Rightarrow> seconds option \<Rightarrow> rc \<Rightarrow> fid result \<times> rc" where
  "wait_for now p number timeout st =
     (case p of
        PrefixStr pre \<Rightarrow> wait_for_name now pre number timeout st
      | PrefixClass name \<Rightarrow>
          (case rc_get p number st of
             Some c \<Rightarrow> (let (f, st) = succeed (VObj c) st in (return f, st))
           | None \<Rightarrow> wait_for_name now name number None st))"

definition passthrough_enter :: "nat list option \<Rightarrow> seconds \<Rightarrow> rc \<Rightarrow> rc" where
  "passthrough_enter filters timeout st = st\<lparr>timeout_override := Some timeout, timeout_filters := filters\<rparr>"

definition passthrough_exit :: "rc \<Rightarrow> rc" where
  "passthrough_exit st = st\<lparr>timeout_override := None, timeout_filters := None\<rparr>"

section \<open>Timeouts\<close>

definition timeout_outcome :: "timeout_value \<Rightarrow> outcome" where
  "timeout_outcome v = (case v of TimeoutResult x \<Rightarrow> Returned x | TimeoutError e \<Rightarrow> Failed e)"

definition set_managed :: "(fid \<times> timeout_value) list \<Rightarrow> rc \<Rightarrow> rc" where
  "set_managed fs st = fold (\<lambda>(f, v) st. if fut_done st f then st else finish f (timeout_outcome v) st) fs st"

text \<open>\<^verbatim>\<open>_on_timeout\<close>; the \<^verbatim>\<open>on_timeout\<close> of the cache is a parameter.\<close>

definition on_timeout :: "(nat \<Rightarrow> rc \<Rightarrow> unit result \<times> rc) \<Rightarrow> nat \<Rightarrow> rc \<Rightarrow> unit result \<times> rc" where
  "on_timeout hook c st =
     (let st = st\<lparr>identifiers := dict_del (identifier_of st c) (identifiers st)\<rparr>
      in case hook c st of
           (Inl e, st) \<Rightarrow> (raise e, st)
         | (Inr _, st) \<Rightarrow>
             (return (), snd (cancel_pending_task (ObjName c) (set_managed (managed_futures (caches st ! c)) st))))"

text \<open>The task that runs it: a task that was cancelled while it ran ends as cancelled.\<close>

definition run_timeout :: "(nat \<Rightarrow> rc \<Rightarrow> unit result \<times> rc) \<Rightarrow> nat \<Rightarrow> fid \<Rightarrow> rc \<Rightarrow> rc" where
  "run_timeout hook c f st =
     (let (r, st) = on_timeout hook c st
      in finish f (case r of
                     Inl e \<Rightarrow> Failed e
                   | Inr _ \<Rightarrow> if state_of st f = Cancelling then WasCancelled else Returned VNone) st)"

definition run_watch :: "string \<times> int \<Rightarrow> fid \<Rightarrow> rc \<Rightarrow> rc" where
  "run_watch key f st = finish f (Returned VNone) (watch_future key st)"

section \<open>Clearing and shutting down\<close>

definition rc_clear :: "rc \<Rightarrow> fid list \<times> rc" where
  "rc_clear st = (let (tasks, st) = cancel_all_pending_tasks st in (tasks, st\<lparr>identifiers := []\<rparr>))"

definition rc_shutdown :: "rc \<Rightarrow> rc" where
  "rc_shutdown st =
     (let (tasks, st) = cancel_all_pending_tasks (st\<lparr>is_shutdown := True\<rparr>);
          st = fold cancel_managed (dict_values (identifiers st)) st;
          st = st\<lparr>identifiers := []\<rparr>
      in if tasks = [] then st else snd (gather tasks st))"

definition empty_rc :: rc where
  "empty_rc = \<lparr>futures = [], ready = [], pending_tasks = [], shutdown_tasks = [], shutdown_log = [],
     is_shutdown = False, counter = 0, checker = 0, caches = [], identifiers = [], waiters = [],
     timeout_override = None, timeout_filters = None\<rparr>"

definition new_request_cache :: "seconds \<Rightarrow> rc" where
  "new_request_cache now = init_checker now empty_rc"

end
