(* ===== verification/RequestCache_Properties.thy ===== *)
theory RequestCache_Properties
  imports TaskManager_Properties RequestCache
begin

text \<open>
  Runs of the request cache: one timer per request, every operation keeps the invariant, each
  request is answered or times out at most once, and a timeout resolves its futures.
\<close>

section \<open>Timers\<close>

text \<open>The task that times out a cache.\<close>

definition plan_job :: "plan \<Rightarrow> job option" where
  "plan_job p = (case p of NoPlan \<Rightarrow> None | Once j \<Rightarrow> Some j | After _ j \<Rightarrow> Some j | Every _ _ j \<Rightarrow> Some j)"

definition timer :: "'a tm_scheme \<Rightarrow> fid \<Rightarrow> nat \<Rightarrow> bool" where
  "timer st f c \<longleftrightarrow> f < length (futures st) \<and> plan_job (fut_plan (futures st ! f)) = Some (on_timeout_job c)"

definition plain :: "'a tm_scheme \<Rightarrow> fid \<Rightarrow> bool" where
  "plain st f \<longleftrightarrow> f < length (futures st) \<and> (\<forall>c. \<not> timer st f c)"

text \<open>The callbacks in use: those that remove a timer's entry belong to that timer.\<close>

definition timer_cb :: "callback \<Rightarrow> nat option" where
  "timer_cb c = (case c of DoneCb (ObjName n) \<Rightarrow> Some n | _ \<Rightarrow> None)"

definition cb_fine :: "'a tm_scheme \<Rightarrow> callback \<Rightarrow> bool" where
  "cb_fine st c \<longleftrightarrow> (case c of CancelCb _ _ _ _ \<Rightarrow> False | GatherCb g \<Rightarrow> plain st g | _ \<Rightarrow> True)"

definition timer_cbs :: "'a tm_scheme \<Rightarrow> bool" where
  "timer_cbs st \<longleftrightarrow>
     (\<forall>(c, f) \<in> set (ready st). cb_fine st c \<and>
        (\<forall>n. timer_cb c = Some n \<longrightarrow> timer st f n \<and> state_of st f \<noteq> Running)) \<and>
     (\<forall>f < length (futures st). \<forall>c \<in> set (fut_callbacks (futures st ! f)). cb_fine st c \<and>
        (\<forall>n. timer_cb c = Some n \<longrightarrow> timer st f n))"

text \<open>Operations that leave the timers alone.\<close>

definition frame :: "'a tm_scheme \<Rightarrow> 'a tm_scheme \<Rightarrow> bool" where
  "frame st st' \<longleftrightarrow>
     length (futures st) \<le> length (futures st') \<and>
     (\<forall>f c. timer st' f c \<longleftrightarrow> timer st f c) \<and>
     (\<forall>f c. timer st f c \<longrightarrow> (state_of st' f = Running \<longleftrightarrow> state_of st f = Running)) \<and>
     (\<forall>c. dict_get (pending_tasks st') (ObjName c) = dict_get (pending_tasks st) (ObjName c)) \<and>
     (timer_cbs st \<longrightarrow> timer_cbs st')"

lemma frame_refl [intro]: "frame st st"
  by (simp add: frame_def)

lemma frame_trans [trans]: "frame a b \<Longrightarrow> frame b c \<Longrightarrow> frame a c"
  by (auto simp: frame_def)

lemma plain_frame: "plain st f \<Longrightarrow> frame st st' \<Longrightarrow> plain st' f"
  by (auto simp: plain_def frame_def)

lemma timer_update:
  assumes "fut_plan (u (futures st ! g)) = fut_plan (futures st ! g)"
  shows "timer (update_future g u st) f c = timer st f c"
proof (cases "f < length (futures st)")
  case True
  with assms show ?thesis by (simp add: timer_def)
qed (simp add: timer_def)

lemma cb_fine_mono:
  assumes "cb_fine st c" "length (futures st) \<le> length (futures st')" "\<And>f c. timer st' f c \<longleftrightarrow> timer st f c"
  shows "cb_fine st' c"
  using assms by (auto simp: cb_fine_def plain_def split: callback.splits)

lemma timer_cbs_mono:
  assumes cbs: "timer_cbs st"
    and "length (futures st) \<le> length (futures st')" "\<And>f c. timer st' f c \<longleftrightarrow> timer st f c"
    "\<And>f c. timer st f c \<Longrightarrow> state_of st f \<noteq> Running \<Longrightarrow> state_of st' f \<noteq> Running"
    "\<And>c f. (c, f) \<in> set (ready st') \<Longrightarrow> (c, f) \<in> set (ready st) \<or>
       timer_cb c = None \<and> cb_fine st' c \<or>
       f < length (futures st) \<and> c \<in> set (fut_callbacks (futures st ! f)) \<and> state_of st' f \<noteq> Running"
    "\<And>c f. f < length (futures st') \<Longrightarrow> c \<in> set (fut_callbacks (futures st' ! f)) \<Longrightarrow>
       f < length (futures st) \<and> c \<in> set (fut_callbacks (futures st ! f)) \<or> timer_cb c = None \<and> cb_fine st' c"
  shows "timer_cbs st'"
proof -
  have q: "cb_fine st' c \<and> (\<forall>n. timer_cb c = Some n \<longrightarrow> timer st f n)"
    if "f < length (futures st)" "c \<in> set (fut_callbacks (futures st ! f))" for c f
    using cbs that cb_fine_mono [OF _ assms(2,3)] by (auto simp: timer_cbs_def)
  have r: "cb_fine st' c \<and> (\<forall>n. timer_cb c = Some n \<longrightarrow> timer st f n \<and> state_of st f \<noteq> Running)"
    if "(c, f) \<in> set (ready st)" for c f
    using cbs that cb_fine_mono [OF _ assms(2,3)] by (auto simp: timer_cbs_def)
  have "cb_fine st' c \<and> (\<forall>n. timer_cb c = Some n \<longrightarrow> timer st' f n \<and> state_of st' f \<noteq> Running)"
    if "(c, f) \<in> set (ready st')" for c f
    using assms(5) [OF that]
  proof (elim disjE)
    assume "(c, f) \<in> set (ready st)"
    from r [OF this] show ?thesis using assms(3,4) by blast
  next
    assume "f < length (futures st) \<and> c \<in> set (fut_callbacks (futures st ! f)) \<and> state_of st' f \<noteq> Running"
    with q [of f c] show ?thesis using assms(3) by blast
  qed simp
  moreover have "cb_fine st' c \<and> (\<forall>n. timer_cb c = Some n \<longrightarrow> timer st' f n)"
    if "f < length (futures st')" "c \<in> set (fut_callbacks (futures st' ! f))" for c f
    using assms(6) [OF that] q [of f c] assms(3) [of f] by (elim disjE) simp_all
  ultimately show ?thesis by (auto simp: timer_cbs_def)
qed

lemma frameI:
  assumes "length (futures st) \<le> length (futures st')" "\<And>f c. timer st' f c \<longleftrightarrow> timer st f c"
    "\<And>f c. timer st f c \<Longrightarrow> (state_of st' f = Running \<longleftrightarrow> state_of st f = Running)"
    "\<And>c. dict_get (pending_tasks st') (ObjName c) = dict_get (pending_tasks st) (ObjName c)"
    "\<And>c f. (c, f) \<in> set (ready st') \<Longrightarrow> (c, f) \<in> set (ready st) \<or>
       timer_cb c = None \<and> cb_fine st' c \<or>
       f < length (futures st) \<and> c \<in> set (fut_callbacks (futures st ! f)) \<and> state_of st' f \<noteq> Running"
    "\<And>c f. f < length (futures st') \<Longrightarrow> c \<in> set (fut_callbacks (futures st' ! f)) \<Longrightarrow>
       f < length (futures st) \<and> c \<in> set (fut_callbacks (futures st ! f)) \<or> timer_cb c = None \<and> cb_fine st' c"
  shows "frame st st'"
proof -
  have "timer_cbs st \<longrightarrow> timer_cbs st'"
  proof
    assume "timer_cbs st"
    then show "timer_cbs st'"
      by (rule timer_cbs_mono) (use assms in blast)+
  qed
  with assms(1-4) show ?thesis by (simp add: frame_def)
qed

lemma frame_new:
  assumes "new_future k p st = (f, st')" "\<forall>c. plan_job p \<noteq> Some (on_timeout_job c)"
  shows "frame st st'" "plain st' f"
proof -
  have st': "st' = st\<lparr>futures := futures st @ [\<lparr>fut_is_task = k, fut_state = Running, fut_callbacks = [], fut_plan = p,
           fut_interval = None, fut_start_time = 0, fut_missing = 0\<rparr>]\<rparr>" "f = length (futures st)"
    using assms(1) by (simp_all add: new_future_def)
  have t: "timer st' g c \<longleftrightarrow> timer st g c" for g c
    using assms(2) by (auto simp: timer_def st' nth_append less_Suc_eq)
  show "frame st st'"
    by (rule frameI) (use t in \<open>auto simp: st' state_of_def timer_def nth_append less_Suc_eq split: if_splits\<close>)
  show "plain st' f" using assms(2) by (auto simp: plain_def timer_def st')
qed

lemma frame_update:
  assumes "fut_plan (u (futures st ! g)) = fut_plan (futures st ! g)" "fut_state (u (futures st ! g)) = fut_state (futures st ! g)"
    "\<forall>c \<in> set (fut_callbacks (u (futures st ! g))). c \<in> set (fut_callbacks (futures st ! g)) \<or> timer_cb c = None \<and> cb_fine st c"
  shows "frame st (update_future g u st)"
proof (rule frameI)
  have "cb_fine (update_future g u st) c" if "cb_fine st c" for c
    by (rule cb_fine_mono [OF that]) (use timer_update [of u st g] assms(1) in auto)
  with assms(3) show "f < length (futures st) \<and> c \<in> set (fut_callbacks (futures st ! f)) \<or> timer_cb c = None \<and> cb_fine (update_future g u st) c"
    if "f < length (futures (update_future g u st))" "c \<in> set (fut_callbacks (futures (update_future g u st) ! f))" for c f
    using that by (auto split: if_splits)
  show "state_of (update_future g u st) f = Running \<longleftrightarrow> state_of st f = Running" if "timer st f c" for f c
    using that assms(2) by (simp add: state_of_def timer_def)
qed (use timer_update [of u st g] assms in \<open>auto split: if_splits\<close>)

lemma frame_finish:
  assumes "plain st f \<or> f < length (futures st) \<and> state_of st f \<noteq> Running"
  shows "frame st (finish f r st)"
proof (rule frameI)
  have f: "f < length (futures st)" using assms by (auto simp: plain_def)
  show "timer (finish f r st) g c \<longleftrightarrow> timer st g c" for g c
    by (cases "g < length (futures st)") (auto simp: timer_def)
  show "state_of (finish f r st) g = Running \<longleftrightarrow> state_of st g = Running" if "timer st g c" for g c
    using that assms by (auto simp: plain_def timer_def state_of_def)
  show "(c, g) \<in> set (ready st) \<or> timer_cb c = None \<and> cb_fine (finish f r st) c \<or>
       g < length (futures st) \<and> c \<in> set (fut_callbacks (futures st ! g)) \<and> state_of (finish f r st) g \<noteq> Running"
    if "(c, g) \<in> set (ready (finish f r st))" for c g
    using that f by (auto simp: state_of_def)
qed (auto split: if_splits)

lemma frame_cancel:
  assumes "plain st f"
  shows "frame st (cancel f st)"
proof (cases "\<not> fut_done st f \<and> fut_is_task (futures st ! f)")
  case True
  have "frame st (update_future f (\<lambda>x. x\<lparr>fut_state := Cancelling\<rparr>) st)"
  proof (rule frameI)
    show "state_of (update_future f (\<lambda>x. x\<lparr>fut_state := Cancelling\<rparr>) st) g = Running \<longleftrightarrow> state_of st g = Running"
      if "timer st g c" for g c
      using that assms by (auto simp: plain_def timer_def state_of_def)
  qed (auto simp: timer_update split: if_splits)
  with True show ?thesis by (simp add: cancel_def)
qed (use assms in \<open>auto simp: cancel_def frame_finish\<close>)

lemma frame_add_done_callback:
  assumes "timer_cb c = None" "cb_fine st c"
  shows "frame st (add_done_callback f c st)"
proof (cases "fut_done st f")
  case True
  have "cb_fine (add_done_callback f c st) c"
    by (rule cb_fine_mono [OF assms(2)]) (use True in \<open>auto simp: add_done_callback_def timer_def\<close>)
  then show ?thesis
    by (intro frameI) (use assms True in \<open>auto simp: add_done_callback_def timer_def state_of_def\<close>)
next
  case False
  then show ?thesis using assms by (auto simp: add_done_callback_def intro: frame_update)
qed

lemma frame_succeed:
  assumes "succeed v st = (f, st')"
  shows "frame st st'" "plain st' f"
proof -
  obtain st1 where n: "new_future False NoPlan st = (f, st1)" "st' = finish f (Returned v) st1"
    using assms by (auto simp: succeed_def split: prod.splits)
  have no: "\<forall>c. plan_job NoPlan \<noteq> Some (on_timeout_job c)" by (simp add: plan_job_def)
  have f: "frame st1 st'" unfolding n(2) by (rule frame_finish [OF disjI1 [OF frame_new(2) [OF n(1) no]]])
  show "frame st st'" using frame_trans [OF frame_new(1) [OF n(1) no] f] .
  show "plain st' f" using plain_frame [OF frame_new(2) [OF n(1) no] f] .
qed

lemma frame_same:
  assumes "futures st' = futures st" "ready st' = ready st"
    "\<And>c. dict_get (pending_tasks st') (ObjName c) = dict_get (pending_tasks st) (ObjName c)"
  shows "frame st st'"
  by (rule frameI) (use assms in \<open>auto simp: timer_def state_of_def\<close>)

lemma frame_set_pending:
  "frame st (st\<lparr>pending_tasks := dict_set (StrName s) f (pending_tasks st)\<rparr>)"
  "frame st (st\<lparr>pending_tasks := dict_del (StrName s) (pending_tasks st)\<rparr>)"
  by (rule frame_same; simp add: dict_simps)+

lemma frame_counter: "frame st (st\<lparr>counter := n\<rparr>)"
  by (rule frame_same) simp_all

lemma frame_fold_gather:
  "plain st g \<Longrightarrow> frame st (fold (\<lambda>f. add_done_callback f (GatherCb g)) fs st)"
proof (induction fs arbitrary: st)
  case (Cons f fs)
  have f: "frame st (add_done_callback f (GatherCb g) st)"
    by (rule frame_add_done_callback) (simp_all add: timer_cb_def cb_fine_def Cons.prems)
  from frame_trans [OF f Cons.IH [OF plain_frame [OF Cons.prems f]]] show ?case by simp
qed auto

lemma frame_gather:
  assumes "gather fs st = (g, st')"
  shows "frame st st'"
proof -
  obtain st1 where n: "new_future False NoPlan st = (g, st1)"
    "st' = fold (\<lambda>f. add_done_callback f (GatherCb g)) fs (update_future g (\<lambda>x. x\<lparr>fut_missing := length fs\<rparr>) st1)"
    using assms(1) by (auto simp: gather_def Let_def split: prod.splits)
  have no: "\<forall>c. plan_job NoPlan \<noteq> Some (on_timeout_job c)" by (simp add: plan_job_def)
  note f = frame_new [OF n(1) no]
  have u: "frame st1 (update_future g (\<lambda>x. x\<lparr>fut_missing := length fs\<rparr>) st1)" by (rule frame_update) auto
  from frame_trans [OF f(1) frame_trans [OF u frame_fold_gather [OF plain_frame [OF f(2) u]]]] show ?thesis
    by (simp add: n(2))
qed

lemma plan_job_task_plan [simp]: "plan_job (task_plan opts j) = Some j"
  by (simp add: task_plan_def plan_job_def)

lemma frame_register:
  assumes "register_task now (StrName s) t opts st = (r, st')" "\<forall>f. t = FutureArg f \<longrightarrow> plain st f"
    "\<forall>j c. t = Function j \<longrightarrow> j \<noteq> on_timeout_job c"
  shows "frame st st'"
  using assms(1)
proof (cases rule: register_task_cases)
  case (refused f st1)
  have "frame st st1" using refused(2) assms(2) by (auto intro: frame_cancel split: user_task.splits)
  from frame_trans [OF this frame_succeed(1) [OF refused(3)]] show ?thesis .
next
  case (added f st1 st2)
  have "frame st st1"
  proof (cases t)
    case (Function j)
    with added(3) assms(3) show ?thesis
      by (auto simp: start_task_def intro!: frame_new [of True "task_plan opts j"])
  qed (use added in \<open>auto simp: start_task_def\<close>)
  also have "frame st1 st2" unfolding added(5) by (rule frame_update) auto
  also have "frame st2 (st2\<lparr>pending_tasks := dict_set (StrName s) f (pending_tasks st2)\<rparr>)" by (rule frame_set_pending)
  also have "frame \<dots> st'" unfolding added(6) by (rule frame_add_done_callback) (simp_all add: timer_cb_def cb_fine_def)
  finally show ?thesis .
qed auto

lemma frame_register_anonymous:
  assumes "register_anonymous_task now base t opts st = (r, st')" "\<forall>f. t = FutureArg f \<longrightarrow> plain st f"
    "\<forall>j c. t = Function j \<longrightarrow> j \<noteq> on_timeout_job c"
  shows "frame st st'"
proof -
  note f = frame_counter [of st "counter st + 1"]
  have "\<forall>f. t = FutureArg f \<longrightarrow> plain (st\<lparr>counter := counter st + 1\<rparr>) f" using assms(2) plain_frame f by blast
  from frame_trans [OF f frame_register [OF assms(1) [unfolded register_anonymous_task_def Let_def] this assms(3)]]
  show ?thesis .
qed

lemma frame_gather_cb:
  assumes "plain st g"
  shows "frame st (gather_cb g f st)"
proof -
  let ?st = "update_future g (\<lambda>x. x\<lparr>fut_missing := fut_missing x - 1\<rparr>) st"
  have u: "frame st ?st" by (rule frame_update) auto
  have "frame ?st (finish g r ?st)" for r by (rule frame_finish [OF disjI1 [OF plain_frame [OF assms u]]])
  then have "frame st (finish g r ?st)" for r using frame_trans [OF u] by blast
  then show ?thesis using u frame_finish [OF disjI1 [OF assms]]
    by (auto simp: gather_cb_def Let_def split: fut_state.splits outcome.splits)
qed

section \<open>The invariant of the request cache\<close>

lemma rc_update_simps [simp]:
  "state_of (st\<lparr>identifiers := i\<rparr>) = state_of st" "state_of (st\<lparr>waiters := w\<rparr>) = state_of st"
  "state_of (st\<lparr>caches := c\<rparr>) = state_of st" "state_of (st\<lparr>timeout_override := x\<rparr>) = state_of st"
  "state_of (st\<lparr>timeout_filters := y\<rparr>) = state_of st"
  "fut_done (st\<lparr>identifiers := i\<rparr>) = fut_done st" "fut_done (st\<lparr>waiters := w\<rparr>) = fut_done st"
  "fut_done (st\<lparr>caches := c\<rparr>) = fut_done st" "fut_done (st\<lparr>timeout_override := x\<rparr>) = fut_done st"
  "fut_done (st\<lparr>timeout_filters := y\<rparr>) = fut_done st"
  for st :: rc
  by (simp_all add: fun_eq_iff state_of_def fut_done_def)

lemma rc_update_ok [simp]:
  "tm_ok (st\<lparr>identifiers := i\<rparr>) = tm_ok st" "tm_ok (st\<lparr>waiters := w\<rparr>) = tm_ok st"
  "tm_ok (st\<lparr>caches := c\<rparr>) = tm_ok st" "tm_ok (st\<lparr>timeout_override := x\<rparr>) = tm_ok st"
  "tm_ok (st\<lparr>timeout_filters := y\<rparr>) = tm_ok st"
  for st :: rc
  by (simp_all add: tm_ok_def cbs_ok_def tracked_def)

lemma rc_update_frame [intro]:
  "frame st (st\<lparr>identifiers := i\<rparr>)" "frame st (st\<lparr>waiters := w\<rparr>)" "frame st (st\<lparr>caches := c\<rparr>)"
  "frame st (st\<lparr>timeout_override := x\<rparr>)" "frame st (st\<lparr>timeout_filters := y\<rparr>)"
  for st :: rc
  by (rule frame_same; simp)+

text \<open>
  One timer per cache; exactly the caches of the table have a running timer, which is the one
  registered under the cache; the futures of callers are not timers.
\<close>

definition has_timer :: "rc \<Rightarrow> nat \<Rightarrow> bool" where
  "has_timer st c \<longleftrightarrow>
     (\<exists>f. timer st f c \<and> state_of st f = Running \<and> dict_get (pending_tasks st) (ObjName c) = Some f)"

definition timers_ok :: "rc \<Rightarrow> bool" where
  "timers_ok st \<longleftrightarrow>
     timer_cbs st \<and>
     (\<forall>f g c. timer st f c \<longrightarrow> timer st g c \<longrightarrow> f = g) \<and>
     (\<forall>c f. dict_get (pending_tasks st) (ObjName c) = Some f \<longrightarrow> timer st f c) \<and>
     (\<forall>f c. timer st f c \<longrightarrow> c < length (caches st))"

definition table_ok :: "rc \<Rightarrow> bool" where
  "table_ok st \<longleftrightarrow>
     dict_wf (identifiers st) \<and>
     (\<forall>i c. dict_get (identifiers st) i = Some c \<longrightarrow> c < length (caches st) \<and> i = identifier_of st c \<and> has_timer st c) \<and>
     (\<forall>f c. timer st f c \<longrightarrow> state_of st f = Running \<longrightarrow> dict_get (identifiers st) (identifier_of st c) = Some c)"

definition callers_ok :: "rc \<Rightarrow> bool" where
  "callers_ok st \<longleftrightarrow>
     (\<forall>x \<in> set (caches st). \<forall>f v. (f, v) \<in> set (managed_futures x) \<longrightarrow> plain st f) \<and>
     (\<forall>k f. dict_get (waiters st) k = Some f \<longrightarrow> plain st f)"

text \<open>The task manager does not touch the fields of the request cache.\<close>

lemma more_simps [simp]:
  "tm.more (update_future f u st) = tm.more st" "tm.more (finish f r st) = tm.more st" "tm.more (cancel f st) = tm.more st"
  "tm.more (add_done_callback f c st) = tm.more st" "tm.more (gather_cb g f st) = tm.more st"
  by (simp_all add: update_future_def finish_def cancel_def add_done_callback_def gather_cb_def Let_def
      split: fut_state.split outcome.split)

lemma more_new [simp]: "tm.more (snd (new_future k p st)) = tm.more st"
  by (simp add: new_future_def)

lemma more_succeed [simp]: "tm.more (snd (succeed v st)) = tm.more st"
  by (simp add: succeed_def split_beta)

lemma more_fold_gather [simp]: "tm.more (fold (\<lambda>f. add_done_callback f (GatherCb g)) fs st) = tm.more st"
  by (induction fs arbitrary: st) simp_all

lemma more_gather [simp]: "tm.more (snd (gather fs st)) = tm.more st"
  by (simp add: gather_def split_beta Let_def)

lemma more_register [simp]: "tm.more (snd (register_task now n t opts st)) = tm.more st"
proof (cases "register_task now n t opts st" rule: prod.exhaust)
  case (Pair r st')
  then show ?thesis
  proof (cases rule: register_task_cases)
    case (refused f st1)
    then show ?thesis using more_succeed [of VNone st1] by (auto simp: Pair split: user_task.splits)
  next
    case (added f st1 st2)
    have "tm.more st1 = tm.more st"
      using added(3) more_new by (auto simp: start_task_def split: user_task.splits) (metis more_new snd_conv)
    with added show ?thesis by (simp add: Pair)
  qed (simp add: Pair)
qed

lemma more_register_anonymous [simp]: "tm.more (snd (register_anonymous_task now n t opts st)) = tm.more st"
  by (simp add: register_anonymous_task_def Let_def)

lemma more_cancel_pending [simp]: "tm.more (snd (cancel_pending_task n st)) = tm.more st"
  by (simp add: cancel_pending_task_def split: option.split)

lemma more_cancel_tasks [simp]: "tm.more (snd (cancel_tasks ns st)) = tm.more st"
  by (induction ns arbitrary: st) (simp_all add: split_beta)

lemma more_eq:
  fixes st st' :: rc
  assumes "tm.more st' = tm.more st"
  shows "identifiers st' = identifiers st" "caches st' = caches st" "waiters st' = waiters st"
    "timeout_override st' = timeout_override st" "timeout_filters st' = timeout_filters st"
  using assms by (cases st; cases st'; simp)+

definition rc_ok :: "rc \<Rightarrow> bool" where
  "rc_ok st \<longleftrightarrow> tm_ok st \<and> timers_ok st \<and> table_ok st \<and> callers_ok st"

lemma has_timer_frame: "has_timer st c \<Longrightarrow> frame st st' \<Longrightarrow> has_timer st' c"
  by (auto simp: has_timer_def frame_def)

lemma timers_ok_frame: "timers_ok st \<Longrightarrow> frame st st' \<Longrightarrow> length (caches st) \<le> length (caches st') \<Longrightarrow> timers_ok st'"
  by (fastforce simp: timers_ok_def frame_def)

lemma table_ok_frame:
  assumes "table_ok st" "timers_ok st" "frame st st'" "identifiers st' = identifiers st" "length (caches st) \<le> length (caches st')"
    "\<And>c. c < length (caches st) \<Longrightarrow> identifier_of st' c = identifier_of st c"
  shows "table_ok st'"
proof -
  have "c < length (caches st')" "i = identifier_of st' c" "has_timer st' c" if "dict_get (identifiers st') i = Some c" for i c
  proof -
    have c: "c < length (caches st)" "i = identifier_of st c" "has_timer st c"
      using that assms(1,4) by (auto simp: table_ok_def)
    then show "c < length (caches st')" "i = identifier_of st' c" "has_timer st' c"
      using assms(5,6) has_timer_frame [OF c(3) assms(3)] by simp_all
  qed
  moreover have "dict_get (identifiers st') (identifier_of st' c) = Some c" if "timer st' f c" "state_of st' f = Running" for f c
  proof -
    have "timer st f c" "state_of st f = Running" using that assms(3) by (auto simp: frame_def)
    then show ?thesis using assms by (auto simp: table_ok_def timers_ok_def)
  qed
  ultimately show ?thesis using assms(1,4) by (auto simp: table_ok_def)
qed

lemma callers_ok_frame:
  assumes "callers_ok st" "frame st st'"
    "\<And>x f v. x \<in> set (caches st') \<Longrightarrow> (f, v) \<in> set (managed_futures x) \<Longrightarrow>
       (\<exists>y \<in> set (caches st). (f, v) \<in> set (managed_futures y)) \<or> plain st' f"
    "\<And>k f. dict_get (waiters st') k = Some f \<Longrightarrow> dict_get (waiters st) k = Some f \<or> plain st' f"
  shows "callers_ok st'"
proof -
  have "plain st' f" if "x \<in> set (caches st')" "(f, v) \<in> set (managed_futures x)" for x f v
    using assms(3) [OF that] assms(1) plain_frame [OF _ assms(2)] unfolding callers_ok_def by blast
  moreover have "plain st' f" if "dict_get (waiters st') k = Some f" for k f
    using assms(4) [OF that] assms(1) plain_frame [OF _ assms(2)] unfolding callers_ok_def by blast
  ultimately show ?thesis by (auto simp: callers_ok_def)
qed

lemma rc_ok_frame:
  assumes "rc_ok st" "tm_ok st'" "frame st st'" "tm.more st' = tm.more st"
  shows "rc_ok st'"
proof -
  note m = more_eq [OF assms(4)]
  have "identifier_of st' c = identifier_of st c" for c by (simp add: identifier_of_def m)
  then have "timers_ok st'" "table_ok st'" "callers_ok st'"
    using assms(1,3) timers_ok_frame [of st st'] table_ok_frame [of st st'] callers_ok_frame [of st st']
    by (auto simp: rc_ok_def m)
  with assms(2) show ?thesis by (simp add: rc_ok_def)
qed

text \<open>Operations that retire the timers of some caches.\<close>

definition retires :: "nat set \<Rightarrow> 'a tm_scheme \<Rightarrow> 'a tm_scheme \<Rightarrow> bool" where
  "retires C st st' \<longleftrightarrow>
     length (futures st) \<le> length (futures st') \<and>
     (\<forall>f c. timer st' f c \<longleftrightarrow> timer st f c) \<and>
     (\<forall>f c. timer st f c \<longrightarrow> state_of st f \<noteq> Running \<longrightarrow> state_of st' f \<noteq> Running) \<and>
     (\<forall>f c. timer st f c \<longrightarrow> c \<notin> C \<longrightarrow> state_of st f = Running \<longrightarrow> state_of st' f = Running) \<and>
     (\<forall>c. dict_get (pending_tasks st') (ObjName c) = dict_get (pending_tasks st) (ObjName c) \<or>
        c \<in> C \<and> dict_get (pending_tasks st') (ObjName c) = None) \<and>
     (timer_cbs st \<longrightarrow> timer_cbs st')"

lemma retires_trans: "retires C a b \<Longrightarrow> retires C b c \<Longrightarrow> retires C a c"
  unfolding retires_def by (intro conjI; metis order_trans)

lemma frame_retires: "frame st st' \<Longrightarrow> retires C st st'"
  by (auto simp: frame_def retires_def)

definition keeps :: "'a tm_scheme \<Rightarrow> 'a tm_scheme \<Rightarrow> bool" where
  "keeps st st' \<longleftrightarrow> (\<forall>f c. timer st f c \<longrightarrow> state_of st f \<noteq> Running \<longrightarrow> timer st' f c \<and> state_of st' f \<noteq> Running)"

lemma frame_keeps: "frame st st' \<Longrightarrow> keeps st st'"
  by (auto simp: frame_def keeps_def)

lemma retires_keeps: "retires C st st' \<Longrightarrow> keeps st st'"
  by (auto simp: retires_def keeps_def)

lemma keeps_trans: "keeps a b \<Longrightarrow> keeps b c \<Longrightarrow> keeps a c"
  by (auto simp: keeps_def)

lemma retires_refl [intro]: "retires C st st"
  by (rule frame_retires [OF frame_refl])

lemma retires_finish:
  assumes "f < length (futures st)" "\<forall>c. timer st f c \<longrightarrow> c \<in> C"
  shows "retires C st (finish f r st)"
proof -
  have t: "timer (finish f r st) g c \<longleftrightarrow> timer st g c" for g c
    by (cases "g < length (futures st)") (auto simp: timer_def)
  have s: "state_of st g \<noteq> Running \<Longrightarrow> state_of (finish f r st) g \<noteq> Running" if "timer st g c" for g c
    using that by (auto simp: timer_def state_of_def)
  have "timer_cbs st \<Longrightarrow> timer_cbs (finish f r st)"
    by (erule timer_cbs_mono) (use assms t s in \<open>auto simp: state_of_def split: if_splits\<close>)
  with t s assms show ?thesis
    by (auto simp: retires_def timer_def state_of_def)
qed

lemma retires_cancel:
  assumes "f < length (futures st)" "\<forall>c. timer st f c \<longrightarrow> c \<in> C"
  shows "retires C st (cancel f st)"
proof (cases "\<not> fut_done st f \<and> fut_is_task (futures st ! f)")
  case True
  let ?st = "update_future f (\<lambda>x. x\<lparr>fut_state := Cancelling\<rparr>) st"
  have t: "timer ?st g c \<longleftrightarrow> timer st g c" for g c by (rule timer_update) simp
  have s: "state_of st g \<noteq> Running \<Longrightarrow> state_of ?st g \<noteq> Running" if "timer st g c" for g c
    using that by (auto simp: timer_def state_of_def)
  have "timer_cbs st \<Longrightarrow> timer_cbs ?st"
    by (erule timer_cbs_mono) (use assms t s in \<open>auto simp: state_of_def split: if_splits\<close>)
  with t s assms have "retires C st ?st" by (auto simp: retires_def timer_def state_of_def)
  with True show ?thesis by (simp add: cancel_def)
qed (use assms retires_finish in \<open>auto simp: cancel_def\<close>)

lemma retires_del:
  assumes "c \<in> C"
  shows "retires C st (st\<lparr>pending_tasks := dict_del (ObjName c) (pending_tasks st)\<rparr>)"
proof -
  let ?st = "st\<lparr>pending_tasks := dict_del (ObjName c) (pending_tasks st)\<rparr>"
  have "timer ?st g n \<longleftrightarrow> timer st g n" for g n by (simp add: timer_def)
  moreover have "timer_cbs st \<Longrightarrow> timer_cbs ?st"
    by (erule timer_cbs_mono) (auto simp: timer_def state_of_def)
  ultimately show ?thesis using assms by (auto simp: retires_def dict_simps state_of_def)
qed

lemma retires_cancel_pending:
  assumes "cancel_pending_task n st = (f, st')" "tm_ok st" "\<forall>c. n = ObjName c \<longrightarrow> c \<in> C"
    "\<forall>f c. dict_get (pending_tasks st) n = Some f \<longrightarrow> timer st f c \<longrightarrow> c \<in> C"
  shows "retires C st st'"
  using assms(1)
proof (cases rule: cancel_pending_task_cases)
  case absent
  then show ?thesis using frame_succeed(1) frame_retires by blast
next
  case finished
  then show ?thesis by (auto intro: frame_retires)
next
  case cancelled
  have f: "f < length (futures st)" using cancelled(1) assms(2) by (auto simp: tm_ok_def)
  have c: "retires C st (cancel f st)" using retires_cancel [OF f] assms(4) cancelled(1) by blast
  have st': "st' = (cancel f st)\<lparr>pending_tasks := dict_del n (pending_tasks (cancel f st))\<rparr>" by (simp add: cancelled(3))
  have "retires C (cancel f st) st'"
  proof (cases n)
    case (StrName s)
    show ?thesis unfolding st' StrName by (rule frame_retires [OF frame_set_pending(2)])
  next
    case (ObjName c)
    then have "c \<in> C" using assms(3) by simp
    then show ?thesis unfolding st' ObjName by (rule retires_del)
  qed
  with c show ?thesis by (rule retires_trans)
qed

lemma retires_cancel_tasks:
  assumes "cancel_tasks ns st = (fs, st')" "tm_ok st"
  shows "retires UNIV st st'"
  using assms
proof (induction ns arbitrary: st fs)
  case Nil
  then show ?case by (auto intro: frame_retires)
next
  case (Cons n ns)
  obtain f st1 fs' where c: "cancel_pending_task n st = (f, st1)" "cancel_tasks ns st1 = (fs', st')"
    using Cons.prems(1) by (auto split: prod.splits)
  have "retires UNIV st st1" using retires_cancel_pending [OF c(1) Cons.prems(2)] by simp
  moreover have "retires UNIV st1 st'" using Cons.IH [OF c(2)] cancel_pending_task_ok [OF c(1) Cons.prems(2)] by simp
  ultimately show ?case by (rule retires_trans)
qed

lemma retired_ok:
  assumes "timers_ok st" "table_ok st" "callers_ok st" "retires C st st'"
    "\<And>f c. c \<in> C \<Longrightarrow> timer st f c \<Longrightarrow> state_of st' f \<noteq> Running"
    "dict_wf (identifiers st')" "\<And>i. dict_get (identifiers st') i =
       (case dict_get (identifiers st) i of Some c \<Rightarrow> if c \<in> C then None else Some c | None \<Rightarrow> None)"
    "caches st' = caches st" "waiters st' = waiters st"
  shows "timers_ok st' \<and> table_ok st' \<and> callers_ok st'"
proof (intro conjI)
  have t: "timer st' f c \<longleftrightarrow> timer st f c" for f c using assms(4) by (simp add: retires_def)
  have p: "dict_get (pending_tasks st') (ObjName c) = dict_get (pending_tasks st) (ObjName c) \<or>
        c \<in> C \<and> dict_get (pending_tasks st') (ObjName c) = None" for c using assms(4) by (simp add: retires_def)
  have id: "identifier_of st' c = identifier_of st c" for c by (simp add: identifier_of_def assms(8))
  have "dict_get (pending_tasks st) (ObjName c) = Some f" if "dict_get (pending_tasks st') (ObjName c) = Some f" for c f
    using p [of c] that by auto
  then show "timers_ok st'"
    using assms(1,4,8) t by (auto simp: timers_ok_def retires_def)
  show "table_ok st'" unfolding table_ok_def
  proof (intro conjI allI impI)
    show "dict_wf (identifiers st')" by (rule assms(6))
  next
    fix i c assume i: "dict_get (identifiers st') i = Some c"
    then have o: "dict_get (identifiers st) i = Some c" "c \<notin> C"
      by (auto simp: assms(7) split: option.splits if_splits)
    then have h: "c < length (caches st)" "i = identifier_of st c" "has_timer st c" using assms(2) by (auto simp: table_ok_def)
    then show "c < length (caches st')" "i = identifier_of st' c" by (simp_all add: assms(8) id)
    from h(3) obtain f where f: "timer st f c" "state_of st f = Running" "dict_get (pending_tasks st) (ObjName c) = Some f"
      by (auto simp: has_timer_def)
    have "state_of st' f = Running" using f o(2) assms(4) by (auto simp: retires_def)
    with f t p [of c] o(2) show "has_timer st' c" by (auto simp: has_timer_def)
  next
    fix f c assume f: "timer st' f c" "state_of st' f = Running"
    then have "c \<notin> C" using assms(5) t by blast
    moreover have "state_of st f = Running" using f t assms(4) by (auto simp: retires_def)
    ultimately show "dict_get (identifiers st') (identifier_of st' c) = Some c"
      using f(1) t assms(2) by (auto simp: assms(7) id table_ok_def)
  qed
  have "plain st' f" if "plain st f" for f using that t assms(4) by (auto simp: plain_def retires_def)
  then show "callers_ok st'" using assms(3) unfolding callers_ok_def assms(8,9) by blast
qed

section \<open>Every operation keeps the invariant\<close>

lemma more_fold_cancel [simp]: "tm.more (fold (\<lambda>(f, v). cancel f) fs st) = tm.more st"
  by (induction fs arbitrary: st) auto

lemma fold_cancel_ok:
  assumes "tm_ok st" "\<forall>f v. (f, v) \<in> set fs \<longrightarrow> plain st f"
  shows "tm_ok (fold (\<lambda>(f, v). cancel f) fs st) \<and> frame st (fold (\<lambda>(f, v). cancel f) fs st)"
  using assms
proof (induction fs arbitrary: st)
  case (Cons x fs)
  obtain f v where x: "x = (f, v)" by (cases x)
  with Cons.prems have p: "plain st f" by auto
  then have c: "tm_ok (cancel f st)" "frame st (cancel f st)"
    using extends_ok [OF extends_cancel Cons.prems(1)] frame_cancel by (auto simp: plain_def)
  moreover have "\<forall>f' v. (f', v) \<in> set fs \<longrightarrow> plain (cancel f st) f'"
    using Cons.prems(2) plain_frame [OF _ c(2)] by (meson list.set_intros(2))
  ultimately show ?case using Cons.IH [of "cancel f st"] frame_trans [OF c(2)] by (simp add: x)
qed auto

lemma cancel_managed_ok:
  assumes "rc_ok st" "c < length (caches st)"
  shows "rc_ok (cancel_managed c st)" "frame st (cancel_managed c st)" "tm.more (cancel_managed c st) = tm.more st"
proof -
  have m: "\<forall>f v. (f, v) \<in> set (managed_futures (caches st ! c)) \<longrightarrow> plain st f"
    using assms nth_mem unfolding rc_ok_def callers_ok_def by blast
  show more: "tm.more (cancel_managed c st) = tm.more st" by (simp add: cancel_managed_def)
  have "tm_ok st" using assms(1) by (simp add: rc_ok_def)
  from fold_cancel_ok [OF this m] show f: "frame st (cancel_managed c st)" by (simp add: cancel_managed_def)
  show "rc_ok (cancel_managed c st)"
    using rc_ok_frame [OF assms(1) _ f more] fold_cancel_ok [OF \<open>tm_ok st\<close> m] by (simp add: cancel_managed_def)
qed

lemma new_number_cache_ok:
  assumes "new_number_cache pre n t cl st = (r, st')" "rc_ok st"
  shows "rc_ok st' \<and> frame st st'"
proof (cases "rc_has (PrefixStr pre) n st")
  case False
  let ?x = "\<lparr>cache_prefix = pre, cache_number = n, timeout_delay = t, cache_classes = cl, managed_futures = []\<rparr>"
  from assms(1) False have st': "st' = st\<lparr>caches := caches st @ [?x]\<rparr>" by (simp add: new_number_cache_def)
  have f: "frame st st'" unfolding st' by auto
  have "tm_ok st'" using assms(2) by (simp add: st' rc_ok_def)
  moreover have "timers_ok st'" by (rule timers_ok_frame [OF _ f]) (use assms(2) in \<open>auto simp: st' rc_ok_def\<close>)
  moreover have "table_ok st'"
    by (rule table_ok_frame [OF _ _ f]) (use assms(2) in \<open>auto simp: st' rc_ok_def identifier_of_def nth_append\<close>)
  moreover have "callers_ok st'"
    by (rule callers_ok_frame [OF _ f]) (use assms(2) in \<open>auto simp: st' rc_ok_def\<close>)
  ultimately show ?thesis using f by (simp add: rc_ok_def)
qed (use assms in \<open>auto simp: new_number_cache_def\<close>)

lemma register_future_ok:
  assumes "rc_ok st" "plain st f" "c < length (caches st)"
  shows "rc_ok (register_future c f v st)"
proof -
  let ?st = "register_future c f v st"
  have f: "frame st ?st" unfolding register_future_def by auto
  have "tm_ok ?st" using assms(1) by (simp add: register_future_def rc_ok_def)
  moreover have "timers_ok ?st"
    by (rule timers_ok_frame [OF _ f]) (use assms(1) in \<open>auto simp: register_future_def rc_ok_def\<close>)
  moreover have "identifier_of ?st n = identifier_of st n" for n
    using assms(3) by (cases "n = c") (simp_all add: identifier_of_def register_future_def)
  then have "table_ok ?st"
    by (intro table_ok_frame [OF _ _ f]) (use assms(1) in \<open>auto simp: register_future_def rc_ok_def\<close>)
  moreover have "callers_ok ?st"
  proof (rule callers_ok_frame [OF _ f])
    show "callers_ok st" using assms(1) by (simp add: rc_ok_def)
    fix x g w assume "x \<in> set (caches ?st)" "(g, w) \<in> set (managed_futures x)"
    then have "x \<in> set (caches st) \<or> g = f \<or> (g, w) \<in> set (managed_futures (caches st ! c))"
      by (auto simp: register_future_def dest!: set_update_subset_insert [THEN subsetD])
    then show "(\<exists>y \<in> set (caches st). (g, w) \<in> set (managed_futures y)) \<or> plain ?st g"
      using \<open>(g, w) \<in> set (managed_futures x)\<close> assms(2,3) plain_frame [OF _ f] nth_mem by blast
  qed (simp add: register_future_def)
  ultimately show ?thesis by (simp add: rc_ok_def)
qed

lemma resolve_waiter_ok:
  assumes "rc_ok st"
  shows "rc_ok (resolve_waiter c st)" "frame st (resolve_waiter c st)"
proof -
  let ?k = "(cache_prefix (caches st ! c), cache_number (caches st ! c))"
  let ?st = "st\<lparr>waiters := dict_del ?k (waiters st)\<rparr>"
  have f: "frame st ?st" by auto
  have ok: "rc_ok ?st" unfolding rc_ok_def
  proof (intro conjI)
    show "tm_ok ?st" using assms by (simp add: rc_ok_def)
    show "timers_ok ?st" by (rule timers_ok_frame [OF _ f]) (use assms in \<open>auto simp: rc_ok_def\<close>)
    show "table_ok ?st" by (rule table_ok_frame [OF _ _ f]) (use assms in \<open>auto simp: rc_ok_def identifier_of_def\<close>)
    show "callers_ok ?st"
      by (rule callers_ok_frame [OF _ f]) (use assms in \<open>auto simp: rc_ok_def dict_simps split: if_splits\<close>)
  qed
  have fin: "rc_ok (finish w x ?st) \<and> frame ?st (finish w x ?st)" if "dict_get (waiters st) ?k = Some w" for w x
  proof -
    have "plain st w" using assms that by (auto simp: rc_ok_def callers_ok_def)
    then have p: "plain ?st w" by (rule plain_frame [OF _ f])
    have "frame ?st (finish w x ?st)" using p by (intro frame_finish) simp
    moreover have "w < length (futures ?st)" "tm_ok ?st" using p ok by (auto simp: plain_def rc_ok_def)
    then have "tm_ok (finish w x ?st)" by (rule extends_ok [OF extends_finish])
    ultimately show ?thesis using rc_ok_frame [OF ok] by simp
  qed
  show "rc_ok (resolve_waiter c st)" using ok fin by (auto simp: resolve_waiter_def Let_def split: option.split)
  show "frame st (resolve_waiter c st)" using f fin frame_trans [OF f]
    by (auto simp: resolve_waiter_def Let_def split: option.split)
qed

lemma timer_added:
  assumes "timers_ok st" "tm_ok st" "\<not> is_shutdown st" "\<forall>f. \<not> timer st f c"
    "register_task now (ObjName c) (Function (on_timeout_job c)) (delayed d) st = (r, st')"
  shows "\<exists>f. r = Inr f \<and> tm_ok st' \<and> timer_cbs st' \<and> state_of st' f = Running \<and>
    (\<forall>g n. timer st' g n \<longleftrightarrow> timer st g n \<or> g = f \<and> n = c) \<and>
    (\<forall>g n. timer st g n \<longrightarrow> state_of st' g = state_of st g) \<and>
    (\<forall>n. dict_get (pending_tasks st') (ObjName n) = (if n = c then Some f else dict_get (pending_tasks st) (ObjName n)))"
proof -
  let ?f = "length (futures st)"
  have none: "dict_get (pending_tasks st) (ObjName c) = None"
    using assms(1,4) unfolding timers_ok_def by (metis not_Some_eq)
  have r: "r = Inr ?f" "futures st' = futures st @ [\<lparr>fut_is_task = True, fut_state = Running,
      fut_callbacks = [DoneCb (ObjName c)], fut_plan = task_plan (delayed d) (on_timeout_job c), fut_interval = None,
      fut_start_time = now, fut_missing = 0\<rparr>]"
    "ready st' = ready st" "pending_tasks st' = dict_set (ObjName c) ?f (pending_tasks st)"
    using assms(3,5) none
    by (auto simp: register_task_def is_function_def delayed_def is_pending_task_active_def start_task_def new_future_def
        add_done_callback_def update_future_def fut_done_def state_of_def nth_append list_update_append)
  have t: "timer st' g n \<longleftrightarrow> timer st g n \<or> g = ?f \<and> n = c" for g n
    by (auto simp: timer_def r(2) nth_append less_Suc_eq on_timeout_job_def)
  have s: "state_of st' g = state_of st g" if "g < ?f" for g using that by (simp add: state_of_def r(2) nth_append)
  have fine: "cb_fine st x \<Longrightarrow> cb_fine st' x" for x
    using t by (auto simp: cb_fine_def plain_def r(2) timer_def split: callback.splits)
  have "timer_cbs st" using assms(1) by (simp add: timers_ok_def)
  then have "timer_cbs st'"
    using fine t s unfolding timer_cbs_def r(3)
    by (auto simp: r(2) nth_append less_Suc_eq cb_fine_def timer_cb_def timer_def)
  moreover have "tm_ok st'" using register_task_ok [OF assms(5,2)] by (simp add: task_arg_ok_def)
  moreover have "state_of st' ?f = Running" by (simp add: state_of_def r(2))
  ultimately show ?thesis using t s by (auto simp: r(1,4) dict_simps timer_def)
qed

lemma rc_add_ok:
  assumes "rc_ok st" "c < length (caches st)" "\<forall>f. \<not> timer st f c" "rc_add now c st = (r, st')"
  shows "rc_ok st' \<and> keeps st st'"
proof -
  consider (same) "st' = st" | (down) "st' = cancel_managed c st"
    | (added) "\<not> is_shutdown st" "dict_get (identifiers st) (identifier_of st c) = None"
    using assms(4) by (auto simp: rc_add_def split: if_splits)
  then show ?thesis
  proof cases
    case added
    show ?thesis
    proof (cases "timeout_delay (caches st ! c) \<le> 0")
      case True
      with assms(1,4) show ?thesis by (auto simp: rc_add_def intro: frame_keeps)
    next
      case False
      let ?i = "identifier_of st c"
      let ?st = "st\<lparr>identifiers := dict_set ?i c (identifiers st)\<rparr>"
      have fr: "frame st ?st" by auto
      have tk: "timers_ok ?st" by (rule timers_ok_frame [OF _ fr]) (use assms(1) in \<open>auto simp: rc_ok_def\<close>)
      have ok: "tm_ok ?st" "\<not> is_shutdown ?st" "\<forall>f. \<not> timer ?st f c"
        using assms(1,3) added(1) fr by (auto simp: rc_ok_def frame_def)
      obtain r1 st1 where reg: "register_task now (ObjName c) (Function (on_timeout_job c)) (delayed (chosen_delay c ?st)) ?st = (r1, st1)"
        by fastforce
      from timer_added [OF tk ok(1,2,3) reg] obtain f where f: "r1 = Inr f" "tm_ok st1" "timer_cbs st1" "state_of st1 f = Running"
        "\<And>g n. timer st1 g n \<longleftrightarrow> timer ?st g n \<or> g = f \<and> n = c"
        "\<And>g n. timer ?st g n \<Longrightarrow> state_of st1 g = state_of ?st g"
        "\<And>n. dict_get (pending_tasks st1) (ObjName n) = (if n = c then Some f else dict_get (pending_tasks ?st) (ObjName n))"
        by blast
      have "tm.more st1 = tm.more ?st" using more_register reg by (metis snd_conv)
      note m = more_eq [OF this]
      have id: "identifier_of st1 n = identifier_of st n" for n by (simp add: identifier_of_def m)
      have ti: "timers_ok st1"
        using tk ok(3) f(3,5,7) assms(2) by (auto simp: timers_ok_def m)
      have old: "has_timer st1 n" if "has_timer st n" "n \<noteq> c" for n
      proof -
        have "has_timer ?st n" using has_timer_frame [OF that(1) fr] .
        with f(5-7) that(2) show ?thesis by (auto simp: has_timer_def)
      qed
      have new: "has_timer st1 c" using f by (auto simp: has_timer_def)
      have tb: "table_ok st" using assms(1) by (simp add: rc_ok_def)
      have "table_ok st1" unfolding table_ok_def
      proof (intro conjI allI impI)
        show "dict_wf (identifiers st1)" using tb by (simp add: m table_ok_def)
      next
        fix i n assume i: "dict_get (identifiers st1) i = Some n"
        show "n < length (caches st1)" "i = identifier_of st1 n"
          using i tb assms(2) by (auto simp: m id dict_simps table_ok_def split: if_splits)
        show "has_timer st1 n"
          using i tb old new by (cases "n = c") (auto simp: m dict_simps table_ok_def split: if_splits)
      next
        fix g n assume g: "timer st1 g n" "state_of st1 g = Running"
        show "dict_get (identifiers st1) (identifier_of st1 n) = Some n"
        proof (cases "n = c")
          case False
          then have "timer st g n" "state_of st g = Running" using g f(5,6) fr by (auto simp: frame_def)
          then have "dict_get (identifiers st) (identifier_of st n) = Some n" using tb by (simp add: table_ok_def)
          then show ?thesis using added(2) by (auto simp: m id dict_simps)
        qed (simp add: m id dict_simps)
      qed
      moreover have "plain st1 h" if "plain st h" for h
      proof -
        have "h < length (futures st1)" using that register_task_grows [OF reg ok(1)] by (auto simp: plain_def grows_def task_arg_ok_def)
        moreover have "h \<noteq> f"
        proof
          assume "h = f"
          have "f = length (futures st)"
            using reg f(1) ok(2) by (auto simp: register_task_def is_function_def delayed_def start_task_def new_future_def Let_def split: if_splits)
          with that \<open>h = f\<close> show False by (simp add: plain_def)
        qed
        ultimately show ?thesis using that f(5) fr by (auto simp: plain_def frame_def)
      qed
      then have "callers_ok st1" using assms(1) unfolding rc_ok_def callers_ok_def by (simp add: m)
      ultimately have "rc_ok st1" using f(2) ti by (simp add: rc_ok_def)
      moreover have "st' = resolve_waiter c st1"
        using assms(4) added False reg f(1) by (simp add: rc_add_def Let_def)
      moreover have "keeps st st1" using f(5,6) fr by (auto simp: keeps_def frame_def)
      ultimately show ?thesis using resolve_waiter_ok keeps_trans frame_keeps by metis
    qed
  qed (use cancel_managed_ok [OF assms(1,2)] frame_keeps [OF frame_refl [of st]] assms(1)
      frame_keeps [OF cancel_managed_ok(2) [OF assms(1,2)]] in auto)
qed

lemma retired_rc_ok:
  assumes "rc_ok st" "tm_ok st'" "retires C st st'"
    "\<And>f c. c \<in> C \<Longrightarrow> timer st f c \<Longrightarrow> state_of st' f \<noteq> Running"
    "dict_wf (identifiers st')" "\<And>i. dict_get (identifiers st') i =
       (case dict_get (identifiers st) i of Some c \<Rightarrow> if c \<in> C then None else Some c | None \<Rightarrow> None)"
    "caches st' = caches st" "waiters st' = waiters st"
  shows "rc_ok st'"
  using retired_ok [OF _ _ _ assms(3-8)] assms(1,2) by (simp add: rc_ok_def)

lemma table_inj:
  assumes "table_ok st" "dict_get (identifiers st) i = Some c" "dict_get (identifiers st) j = Some c"
  shows "i = j"
  using assms unfolding table_ok_def by metis

lemma del_identifier:
  assumes "rc_ok st" "dict_get (identifiers st) i = Some c"
  shows "dict_get (dict_del i (identifiers st)) j =
    (case dict_get (identifiers st) j of Some n \<Rightarrow> if n \<in> {c} then None else Some n | None \<Rightarrow> None)"
proof (cases "dict_get (identifiers st) j")
  case (Some n)
  have "j = i \<longleftrightarrow> n = c"
    using Some assms table_inj [of st i c j] by (auto simp: rc_ok_def)
  with Some show ?thesis by (simp add: dict_simps)
qed (simp add: dict_simps)

lemma timer_of_entry:
  assumes "rc_ok st" "dict_get (identifiers st) i = Some c"
  obtains f where "timer st f c" "state_of st f = Running" "dict_get (pending_tasks st) (ObjName c) = Some f"
    "\<And>g. timer st g c \<Longrightarrow> g = f"
proof -
  have "has_timer st c" using assms by (auto simp: rc_ok_def table_ok_def)
  then obtain f where f: "timer st f c" "state_of st f = Running" "dict_get (pending_tasks st) (ObjName c) = Some f"
    by (auto simp: has_timer_def)
  have "g = f" if "timer st g c" for g using assms(1) f(1) that unfolding rc_ok_def timers_ok_def by blast
  with f show ?thesis by (rule that)
qed

lemma entry_running:
  assumes "rc_ok st" "dict_get (identifiers st) i = Some c" "timer st g c"
  shows "state_of st g = Running"
proof (rule timer_of_entry [OF assms(1,2)])
  fix f assume f: "state_of st f = Running" "\<And>g. timer st g c \<Longrightarrow> g = f"
  from f(1) show "state_of st g = Running" unfolding f(2) [OF assms(3)] .
qed

lemma cancel_timer:
  assumes "rc_ok st" "tm_ok st0" "frame st st0" "cancel_pending_task (ObjName c) st0 = (g, st')" "timer st f c"
    "dict_get (pending_tasks st) (ObjName c) = Some f"
  shows "tm_ok st' \<and> retires {c} st st' \<and> (\<forall>h. timer st h c \<longrightarrow> state_of st' h \<noteq> Running) \<and> tm.more st' = tm.more st0"
proof -
  have p: "dict_get (pending_tasks st0) (ObjName c) = Some f" using assms(3,6) by (simp add: frame_def)
  have u: "h = f" if "timer st h c" for h using assms(1,5) that by (auto simp: rc_ok_def timers_ok_def)
  note C = cancel_pending_task_all [OF assms(4,2)]
  have u': "timer st0 h n \<longleftrightarrow> timer st h n" for h n using assms(3) by (simp add: frame_def)
  have one: "n = c" if "timer st f n" for n
    using that assms(5) by (auto simp: timer_def on_timeout_job_def)
  have "retires {c} st0 st'"
    by (rule retires_cancel_pending [OF assms(4,2)]) (use p u' one in auto)
  then have "retires {c} st st'" using frame_retires [OF assms(3)] retires_trans by blast
  moreover have "state_of st' f \<noteq> Running" using C p by simp
  moreover have "tm.more st' = tm.more st0" using more_cancel_pending assms(4) by (metis snd_conv)
  ultimately show ?thesis using C u by blast
qed

lemma rc_pop_ok:
  assumes "rc_ok st" "rc_pop p n st = (return c, st')"
  shows "rc_ok st' \<and> (\<exists>i. dict_get (identifiers st) i = Some c) \<and> (\<forall>f. timer st f c \<longrightarrow> state_of st' f \<noteq> Running) \<and>
    retires {c} st st'"
proof -
  let ?i = "create_identifier n (prefix_name p)"
  have i: "dict_get (identifiers st) ?i = Some c" using assms(2) by (auto simp: rc_pop_def Let_def split: option.splits)
  let ?st = "st\<lparr>identifiers := dict_del ?i (identifiers st)\<rparr>"
  obtain g where g: "cancel_pending_task (ObjName c) ?st = (g, st')"
    using assms(2) i by (cases "cancel_pending_task (ObjName c) ?st") (simp add: rc_pop_def)
  obtain f where f: "timer st f c" "state_of st f = Running" "dict_get (pending_tasks st) (ObjName c) = Some f"
    "\<And>g. timer st g c \<Longrightarrow> g = f" by (rule timer_of_entry [OF assms(1) i]) blast
  have fr: "frame st ?st" by auto
  have "tm_ok ?st" using assms(1) by (simp add: rc_ok_def)
  note C = cancel_timer [OF assms(1) this fr g f(1,3)]
  note m = more_eq [OF C [THEN conjunct2, THEN conjunct2, THEN conjunct2]]
  have "rc_ok st'"
  proof (rule retired_rc_ok [OF assms(1), where C = "{c}"])
    show "dict_wf (identifiers st')" using assms(1) by (simp add: m rc_ok_def table_ok_def)
    show "dict_get (identifiers st') j =
       (case dict_get (identifiers st) j of Some c' \<Rightarrow> if c' \<in> {c} then None else Some c' | None \<Rightarrow> None)" for j
      unfolding m using del_identifier [OF assms(1) i, of j] by simp
  qed (use C m in auto)
  with i C show ?thesis by blast
qed

lemma rc_pop_error: "rc_pop p n st = (raise e, st') \<Longrightarrow> st' = st \<and> e = KeyError"
  by (auto simp: rc_pop_def Let_def split: option.splits)

lemma set_managed_ok:
  assumes "tm_ok st" "\<forall>f v. (f, v) \<in> set fs \<longrightarrow> plain st f"
  shows "tm_ok (set_managed fs st) \<and> frame st (set_managed fs st) \<and> tm.more (set_managed fs st) = tm.more st"
  using assms
proof (induction fs arbitrary: st)
  case (Cons x fs)
  obtain f v where x: "x = (f, v)" by (cases x)
  let ?st = "if fut_done st f then st else finish f (timeout_outcome v) st"
  have p: "plain st f" using Cons.prems x by auto
  then have "extends st (finish f (timeout_outcome v) st)" by (intro extends_finish) (simp add: plain_def)
  then have c: "tm_ok ?st" "frame st ?st" "tm.more ?st = tm.more st"
    using extends_ok Cons.prems(1) frame_finish [OF disjI1 [OF p]] by auto
  have "\<forall>g v. (g, v) \<in> set fs \<longrightarrow> plain ?st g" using Cons.prems(2) plain_frame [OF _ c(2)] by (meson list.set_intros(2))
  from Cons.IH [OF c(1) this] c show ?case using frame_trans [OF c(2)]
    by (simp add: set_managed_def x)
qed (auto simp: set_managed_def)

text \<open>The timeout of a cache whose own \<^verbatim>\<open>on_timeout\<close> returns or raises without touching the table.\<close>

definition quiet_hook :: "unit result \<Rightarrow> nat \<Rightarrow> rc \<Rightarrow> unit result \<times> rc" where
  "quiet_hook r c st = (r, st)"

lemma run_timeout_ok:
  assumes "rc_ok st" "timer st f c" "state_of st f = Running"
  shows "rc_ok (run_timeout (quiet_hook r) c f st) \<and> (\<exists>i. dict_get (identifiers st) i = Some c) \<and>
    (\<forall>g. timer st g c \<longrightarrow> state_of (run_timeout (quiet_hook r) c f st) g \<noteq> Running) \<and>
    retires {c} st (run_timeout (quiet_hook r) c f st)"
proof -
  let ?i = "identifier_of st c" and ?st' = "run_timeout (quiet_hook r) c f st"
  let ?st = "st\<lparr>identifiers := dict_del ?i (identifiers st)\<rparr>"
  have i: "dict_get (identifiers st) ?i = Some c" using assms by (auto simp: rc_ok_def table_ok_def)
  obtain f' where f: "timer st f' c" "dict_get (pending_tasks st) (ObjName c) = Some f'" "\<And>g. timer st g c \<Longrightarrow> g = f'"
    using timer_of_entry [OF assms(1) i] by metis
  then have ff: "f' = f" using assms(2) by blast
  have fr: "frame st ?st" by auto
  have tok: "tm_ok ?st" using assms(1) by (simp add: rc_ok_def)
  have only: "n = c" if "timer st f n" for n using that assms(2) by (auto simp: timer_def on_timeout_job_def)
  have "\<exists>st1 o'. ?st' = finish f o' st1 \<and> tm_ok st1 \<and> retires {c} st st1 \<and> tm.more st1 = tm.more ?st"
  proof (cases r)
    case (Inl e)
    then show ?thesis using tok frame_retires [OF fr]
      by (auto simp: run_timeout_def on_timeout_def quiet_hook_def)
  next
    case (Inr u)
    let ?fs = "managed_futures (caches st ! c)"
    have cl: "c < length (caches st)" using i assms(1) by (auto simp: rc_ok_def table_ok_def)
    then have "\<forall>g v. (g, v) \<in> set ?fs \<longrightarrow> plain st g"
      using assms(1) nth_mem unfolding rc_ok_def callers_ok_def by blast
    then have "\<forall>g v. (g, v) \<in> set ?fs \<longrightarrow> plain ?st g" using plain_frame [OF _ fr] by blast
    note S = set_managed_ok [OF tok this]
    obtain g st1 where g: "cancel_pending_task (ObjName c) (set_managed ?fs ?st) = (g, st1)" by fastforce
    have "frame st (set_managed ?fs ?st)" using frame_trans [OF fr] S by blast
    from cancel_timer [OF assms(1) _ this g f(1,2)] S
    have "tm_ok st1" "retires {c} st st1" "tm.more st1 = tm.more ?st" by auto
    moreover have "?st' = finish f (if state_of st1 f = Cancelling then WasCancelled else Returned VNone) st1"
      using g by (simp add: run_timeout_def on_timeout_def quiet_hook_def Inr)
    ultimately show ?thesis by blast
  qed
  then obtain st1 o' where s: "?st' = finish f o' st1" "tm_ok st1" "retires {c} st st1" "tm.more st1 = tm.more ?st" by blast
  have fl: "f < length (futures st1)" using assms(2) s(3) by (auto simp: timer_def retires_def)
  have "retires {c} st1 (finish f o' st1)" using only s(3) by (intro retires_finish fl) (auto simp: retires_def)
  with s(3) have ret: "retires {c} st ?st'" unfolding s(1) by (rule retires_trans)
  have stop: "state_of ?st' g \<noteq> Running" if "timer st g c" for g
    using f(3) [OF that] ff fl by (simp add: s(1) state_of_def)
  have "tm.more ?st' = tm.more ?st" using s by simp
  note m = more_eq [OF this]
  have "rc_ok ?st'"
  proof (rule retired_rc_ok [OF assms(1) _ ret])
    show "tm_ok ?st'" unfolding s(1) using extends_ok [OF extends_finish [OF fl] s(2)] .
    show "dict_wf (identifiers ?st')" using assms(1) by (simp add: m rc_ok_def table_ok_def)
    show "dict_get (identifiers ?st') j =
       (case dict_get (identifiers st) j of Some c' \<Rightarrow> if c' \<in> {c} then None else Some c' | None \<Rightarrow> None)" for j
      unfolding m using del_identifier [OF assms(1) i, of j] by simp
  qed (use stop m in auto)
  with i stop ret show ?thesis by blast
qed

lemma all_timers_stop:
  assumes "rc_ok st" "cancel_all_pending_tasks st = (fs, st')" "timer st f c"
  shows "state_of st' f \<noteq> Running"
proof (cases "state_of st f = Running")
  case True
  then have i: "dict_get (identifiers st) (identifier_of st c) = Some c" using assms(1,3) by (auto simp: rc_ok_def table_ok_def)
  obtain g where g: "dict_get (pending_tasks st) (ObjName c) = Some g" "\<And>h. timer st h c \<Longrightarrow> h = g"
    by (rule timer_of_entry [OF assms(1) i]) blast
  have "f = g" using g(2) [OF assms(3)] .
  moreover have "state_of st' g \<noteq> Running" using cancel_all_ok(6) [OF assms(2)] g(1) assms(1) by (auto simp: rc_ok_def)
  ultimately show ?thesis by simp
next
  case False
  then show ?thesis using cancel_all_ok(2) [OF assms(2)] assms(1,3) by (auto simp: rc_ok_def timer_def grows_def)
qed

lemma rc_clear_ok:
  assumes "rc_ok st" "rc_clear st = (fs, st')"
  shows "rc_ok st'" "identifiers st' = []" "retires UNIV st st'"
proof -
  obtain st1 where c: "cancel_all_pending_tasks st = (fs, st1)" "st' = st1\<lparr>identifiers := []\<rparr>"
    using assms(2) by (auto simp: rc_clear_def split: prod.splits)
  have tok: "tm_ok st" using assms(1) by (simp add: rc_ok_def)
  have "tm.more st1 = tm.more st"
    using more_cancel_tasks c(1) unfolding cancel_all_pending_tasks_def by (metis snd_conv)
  note m = more_eq [OF this]
  have "retires UNIV st st1" using retires_cancel_tasks c(1) tok by (auto simp: cancel_all_pending_tasks_def)
  moreover have "frame st1 st'" unfolding c(2) by auto
  ultimately have ret: "retires UNIV st st'" using frame_retires retires_trans by blast
  show "rc_ok st'"
  proof (rule retired_rc_ok [OF assms(1) _ ret])
    show "tm_ok st'" using cancel_all_ok(1) [OF c(1) tok] by (simp add: c(2))
    show "state_of st' f \<noteq> Running" if "timer st f n" for f n using all_timers_stop [OF assms(1) c(1) that] by (simp add: c(2))
  qed (auto simp: c(2) m split: option.split)
  show "identifiers st' = []" by (simp add: c(2))
  show "retires UNIV st st'" by (rule ret)
qed

lemma frame_shutdown_flag: "frame st (st\<lparr>is_shutdown := b\<rparr>)"
  by (rule frame_same) simp_all

lemma fold_cancel_managed_ok:
  assumes "rc_ok st" "\<forall>c \<in> set cs. c < length (caches st)"
  shows "rc_ok (fold cancel_managed cs st) \<and> frame st (fold cancel_managed cs st) \<and> tm.more (fold cancel_managed cs st) = tm.more st"
  using assms
proof (induction cs arbitrary: st)
  case (Cons c cs)
  then have c: "c < length (caches st)" by simp
  note C = cancel_managed_ok [OF Cons.prems(1) c]
  have "\<forall>c \<in> set cs. c < length (caches (cancel_managed c' st))" if "c' = c" for c'
    using Cons.prems(2) more_eq(2) [OF C(3)] that by simp
  from Cons.IH [OF C(1) this [OF refl]] C frame_trans [OF C(2)] show ?case by simp
qed auto

lemma is_shutdown_fold_cancel: "is_shutdown (fold (\<lambda>(f, v). cancel f) xs st) = is_shutdown st"
  by (induction xs arbitrary: st) (simp_all add: split_beta)

lemma is_shutdown_cancel_managed: "is_shutdown (fold cancel_managed cs st) = is_shutdown st"
proof (induction cs arbitrary: st)
  case (Cons c cs)
  have "is_shutdown (cancel_managed c st) = is_shutdown st" unfolding cancel_managed_def by (rule is_shutdown_fold_cancel)
  with Cons.IH [of "cancel_managed c st"] show ?case by simp
qed simp

lemma rc_shutdown_ok:
  assumes "rc_ok st"
  shows "rc_ok (rc_shutdown st) \<and> identifiers (rc_shutdown st) = [] \<and> is_shutdown (rc_shutdown st) \<and>
    retires UNIV st (rc_shutdown st)"
proof -
  obtain fs st0 where c0: "cancel_all_pending_tasks st = (fs, st0)" by fastforce
  let ?st1 = "st0\<lparr>is_shutdown := True\<rparr>"
  have c: "cancel_all_pending_tasks (st\<lparr>is_shutdown := True\<rparr>) = (fs, ?st1)"
    using c0 by (simp add: cancel_all_pending_tasks_def cancel_tasks_shutdown)
  have tok: "tm_ok st" using assms by (simp add: rc_ok_def)
  note A = cancel_all_ok [OF c0 tok]
  have "tm.more st0 = tm.more st"
    using more_cancel_tasks c0 unfolding cancel_all_pending_tasks_def by (metis snd_conv)
  then have m1: "tm.more ?st1 = tm.more st" by simp
  note m = more_eq [OF m1]
  have tok1: "tm_ok ?st1" using A(1,5) by (auto simp: tm_ok_def set_shutdown)
  have "retires UNIV st st0" using retires_cancel_tasks c0 tok by (auto simp: cancel_all_pending_tasks_def)
  then have ret1: "retires UNIV st ?st1" using frame_retires [OF frame_shutdown_flag] retires_trans by blast
  \<comment> \<open>the managed futures of all caches are cancelled\<close>
  let ?cs = "dict_values (identifiers ?st1)"
  let ?st2 = "fold cancel_managed ?cs ?st1"
  have pl: "plain ?st1 f" if "plain st f" for f using that ret1 by (auto simp: plain_def retires_def)
  have caller: "callers_ok st" using assms by (simp add: rc_ok_def)
  have F: "tm_ok (fold cancel_managed cs s) \<and> frame s (fold cancel_managed cs s) \<and> tm.more (fold cancel_managed cs s) = tm.more s"
    if "tm_ok s" "callers_ok s" "\<forall>c \<in> set cs. c < length (caches s)" for cs s
    using that
  proof (induction cs arbitrary: s)
    case (Cons c cs)
    have "\<forall>f v. (f, v) \<in> set (managed_futures (caches s ! c)) \<longrightarrow> plain s f"
      using Cons.prems(2,3) nth_mem unfolding callers_ok_def by (metis list.set_intros(1))
    note C = fold_cancel_ok [OF Cons.prems(1) this, folded cancel_managed_def]
    have mm: "tm.more (cancel_managed c s) = tm.more s" by (simp add: cancel_managed_def)
    note e = more_eq [OF mm]
    have "callers_ok (cancel_managed c s)" by (rule callers_ok_frame [OF Cons.prems(2)]) (use C e in auto)
    from Cons.IH [OF _ this] C e Cons.prems(3) mm frame_trans [of s "cancel_managed c s"] show ?case by simp
  qed auto
  have "callers_ok ?st1" using caller pl unfolding callers_ok_def m by blast
  moreover have "\<forall>c \<in> set ?cs. c < length (caches ?st1)"
  proof
    fix c assume "c \<in> set ?cs"
    moreover have "dict_wf (identifiers st)" using assms by (simp add: rc_ok_def table_ok_def)
    ultimately obtain i where "dict_get (identifiers st) i = Some c" by (auto simp: m dict_wf_def)
    then show "c < length (caches ?st1)" using assms by (auto simp: m rc_ok_def table_ok_def)
  qed
  ultimately have C: "tm_ok ?st2 \<and> frame ?st1 ?st2 \<and> tm.more ?st2 = tm.more ?st1" using F [OF tok1] by blast
  let ?st3 = "?st2\<lparr>identifiers := []\<rparr>"
  let ?st4 = "if fs = [] then ?st3 else snd (gather fs ?st3)"
  have s: "rc_shutdown st = ?st4" using c by (simp add: rc_shutdown_def Let_def)
  have fr23: "frame ?st2 ?st3" by auto
  have lens: "length (futures ?st1) \<le> length (futures ?st3)" using C by (auto simp: frame_def)
  have fr34: "frame ?st3 ?st4"
    using frame_gather [of fs ?st3] by (cases "gather fs ?st3") auto
  have ret: "retires UNIV st ?st4"
    using ret1 frame_retires C fr23 fr34 retires_trans by meson
  have tok4: "tm_ok ?st4"
  proof (cases "gather fs ?st3")
    case (Pair g st4)
    have lt: "\<forall>f \<in> set fs. f < length (futures ?st3)" using A(3) lens by fastforce
    have "tm_ok (snd (gather fs ?st3))" unfolding Pair snd_conv
      by (rule extends_ok [OF extends_gather(1) [OF Pair lt]]) (use C in simp)
    with C show ?thesis by simp
  qed
  have m4: "tm.more ?st4 = tm.more ?st3" by simp
  note e4 = more_eq [OF m4] and e2 = more_eq [OF conjunct2 [OF conjunct2 [OF C]]]
  have down: "is_shutdown ?st4"
  proof -
    have "is_shutdown ?st2" using is_shutdown_cancel_managed [of ?cs ?st1] by simp
    then have "is_shutdown ?st3" by simp
    moreover have "is_shutdown (snd (gather fs ?st3)) = is_shutdown ?st3"
    proof (cases "gather fs ?st3")
      case (Pair g st4)
      have lt: "\<forall>f \<in> set fs. f < length (futures ?st3)" using A(3) lens by fastforce
      show ?thesis unfolding Pair snd_conv using extends_gather(1) [OF Pair lt] by (simp only: extends_def)
    qed
    ultimately show ?thesis by simp
  qed
  have stop: "state_of ?st4 f \<noteq> Running" if "timer st f n" for f n
  proof -
    have t1: "timer ?st1 f n" "state_of ?st1 f \<noteq> Running"
      using all_timers_stop [OF assms c0 that] that ret1 by (auto simp: set_shutdown retires_def)
    then have "timer ?st3 f n" "state_of ?st3 f \<noteq> Running" using C fr23 by (auto simp: frame_def)
    then show ?thesis using fr34 by (auto simp: frame_def)
  qed
  have f4: "caches ?st4 = caches st" "waiters ?st4 = waiters st"
    by (rule trans [OF e4(2) trans [OF _ trans [OF e2(2) m(2)]]], simp)
      (rule trans [OF e4(3) trans [OF _ trans [OF e2(3) m(3)]]], simp)
  have i4: "identifiers ?st4 = []" unfolding e4(1) by simp
  have "rc_ok ?st4"
  proof (rule retired_rc_ok [OF assms tok4 ret])
    show "state_of ?st4 f \<noteq> Running" if "timer st f n" for f n using stop [OF that] .
    show "dict_wf (identifiers ?st4)" unfolding i4 by simp
    show "dict_get (identifiers ?st4) i =
       (case dict_get (identifiers st) i of Some c \<Rightarrow> if c \<in> UNIV then None else Some c | None \<Rightarrow> None)" for i
      unfolding i4 by (simp split: option.split)
  qed (rule f4)+
  with down i4 ret show ?thesis unfolding s by blast
qed

lemma done_cb_timer_ok:
  assumes "rc_ok st" "ready st = (DoneCb n, f) # rest"
  shows "rc_ok (done_cb n (st\<lparr>ready := rest\<rparr>)) \<and> keeps st (done_cb n (st\<lparr>ready := rest\<rparr>))"
proof -
  let ?st = "st\<lparr>ready := rest\<rparr>" and ?st' = "done_cb n (st\<lparr>ready := rest\<rparr>)"
  have tok: "tm_ok ?st'" using done_cb_ok assms by (auto simp: rc_ok_def)
  have fr: "frame st ?st" by (rule frameI) (use assms(2) in \<open>auto simp: timer_def\<close>)
  have more: "tm.more ?st' = tm.more st" by (simp add: done_cb_def)
  show ?thesis
  proof (cases n)
    case (StrName s)
    have "frame ?st ?st'" unfolding done_cb_def StrName by (rule frame_set_pending)
    from rc_ok_frame [OF assms(1) tok frame_trans [OF fr this] more] frame_keeps [OF frame_trans [OF fr this]]
    show ?thesis by simp
  next
    case (ObjName c)
    have "timer_cbs st" using assms(1) by (simp add: rc_ok_def timers_ok_def)
    then have t: "timer st f c" "state_of st f \<noteq> Running"
      using assms(2) by (auto simp: timer_cbs_def ObjName timer_cb_def)
    have u: "g = f" if "timer st g c" for g using assms(1) t(1) that unfolding rc_ok_def timers_ok_def by blast
    have "retires {c} ?st ?st'" unfolding done_cb_def ObjName by (rule retires_del) simp
    then have ret: "retires {c} st ?st'" using frame_retires [OF fr] retires_trans by blast
    note m = more_eq [OF more]
    have no: "dict_get (identifiers st) i \<noteq> Some c" for i
    proof
      assume i: "dict_get (identifiers st) i = Some c"
      obtain g where "timer st g c" "state_of st g = Running" by (rule timer_of_entry [OF assms(1) i]) blast
      with u t(2) show False by auto
    qed
    have "rc_ok ?st'"
    proof (rule retired_rc_ok [OF assms(1) tok ret])
      show "dict_get (identifiers ?st') i =
         (case dict_get (identifiers st) i of Some k \<Rightarrow> if k \<in> {c} then None else Some k | None \<Rightarrow> None)" for i
        using no [of i] by (auto simp: m split: option.split)
      show "dict_wf (identifiers ?st')" using assms(1) by (simp add: m rc_ok_def table_ok_def)
      show "state_of ?st' g \<noteq> Running" if "k \<in> {c}" "timer st g k" for g k
        using that u t(2) by (auto simp: done_cb_def state_of_def)
    qed (simp_all add: m)
    with retires_keeps [OF ret] show ?thesis by simp
  qed
qed

lemma rc_callback_ok:
  assumes "rc_ok st" "ready st = (c, f) # rest"
  shows "rc_ok (run_callback now c f (st\<lparr>ready := rest\<rparr>)) \<and> keeps st (run_callback now c f (st\<lparr>ready := rest\<rparr>))"
proof -
  let ?st = "st\<lparr>ready := rest\<rparr>"
  have fr: "frame st ?st" by (rule frameI) (use assms(2) in \<open>auto simp: timer_def\<close>)
  have fine: "cb_fine st c" using assms by (auto simp: rc_ok_def timers_ok_def timer_cbs_def)
  have tok: "tm_ok (run_callback now c f ?st)" using callback_ok [OF _ assms(2)] assms(1) by (simp add: rc_ok_def)
  show ?thesis
  proof (cases c)
    case (DoneCb n)
    then show ?thesis using done_cb_timer_ok assms by (simp add: run_callback_def)
  next
    case (GatherCb g)
    have "plain ?st g" using fine plain_frame [OF _ fr] by (simp add: GatherCb cb_fine_def)
    from frame_trans [OF fr frame_gather_cb [OF this]] have "frame st (run_callback now c f ?st)"
      by (simp add: run_callback_def GatherCb)
    from rc_ok_frame [OF assms(1) tok this] frame_keeps [OF this] show ?thesis by (simp add: run_callback_def GatherCb)
  next
    case ShutdownCb
    have r: "frame ?st (run_shutdown_tasks ?st)" by (rule frame_same) (simp_all add: run_shutdown_tasks_def)
    have e: "run_callback now c f ?st = ?st \<or> run_callback now c f ?st = run_shutdown_tasks ?st"
      by (auto simp: run_callback_def ShutdownCb shutdown_cb_def split: fut_state.split outcome.split)
    then have "frame st (run_callback now c f ?st)" using fr frame_trans [OF fr r] by auto
    moreover have "tm.more (run_callback now c f ?st) = tm.more st" using e by (auto simp: run_shutdown_tasks_def)
    ultimately show ?thesis using rc_ok_frame [OF assms(1) tok] frame_keeps by blast
  next
    case (CancelCb n t opts g)
    then show ?thesis using fine by (simp add: cb_fine_def)
  qed
qed

lemma finish_ok:
  assumes "rc_ok st" "plain st f \<or> f < length (futures st) \<and> state_of st f \<noteq> Running"
  shows "rc_ok (finish f r st)"
proof -
  have "f < length (futures st)" using assms(2) by (auto simp: plain_def)
  then have "tm_ok (finish f r st)" using extends_ok [OF extends_finish] assms(1) by (auto simp: rc_ok_def)
  from rc_ok_frame [OF assms(1) this frame_finish [OF assms(2)]] show ?thesis by simp
qed

lemma new_future_ok:
  assumes "rc_ok st" "new_future k NoPlan st = (f, st')"
  shows "rc_ok st'" "plain st' f" "frame st st'" "tm.more st' = tm.more st"
proof -
  have no: "\<forall>c. plan_job NoPlan \<noteq> Some (on_timeout_job c)" by (simp add: plan_job_def)
  note f = frame_new [OF assms(2) no]
  have "tm_ok st'" using extends_ok [OF extends_new(1) [OF assms(2)]] assms(1) by (simp add: rc_ok_def)
  moreover show m: "tm.more st' = tm.more st" using more_new assms(2) by (metis snd_conv)
  ultimately show "rc_ok st'" using rc_ok_frame [OF assms(1) _ f(1)] by blast
  show "plain st' f" "frame st st'" by (rule f)+
qed

lemma succeed_ok:
  assumes "rc_ok st" "succeed v st = (f, st')"
  shows "rc_ok st' \<and> frame st st'"
proof -
  have "tm_ok st'" using extends_ok [OF extends_succeed(1) [OF assms(2)]] assms(1) by (simp add: rc_ok_def)
  moreover have "tm.more st' = tm.more st" using more_succeed assms(2) by (metis snd_conv)
  ultimately show ?thesis using rc_ok_frame [OF assms(1) _ frame_succeed(1) [OF assms(2)]] frame_succeed(1) [OF assms(2)] by blast
qed

lemma set_waiter_ok:
  assumes "rc_ok st" "plain st w"
  shows "rc_ok (st\<lparr>waiters := dict_set k w (waiters st)\<rparr>)"
proof -
  let ?st = "st\<lparr>waiters := dict_set k w (waiters st)\<rparr>"
  have f: "frame st ?st" by auto
  have pw: "plain ?st w" using plain_frame [OF assms(2) f] .
  show ?thesis unfolding rc_ok_def
  proof (intro conjI)
    show "tm_ok ?st" using assms by (simp add: rc_ok_def)
    show "timers_ok ?st" by (rule timers_ok_frame [OF _ f]) (use assms in \<open>auto simp: rc_ok_def\<close>)
    show "table_ok ?st" by (rule table_ok_frame [OF _ _ f]) (use assms in \<open>auto simp: rc_ok_def identifier_of_def\<close>)
    show "callers_ok ?st"
      by (rule callers_ok_frame [OF _ f]) (use assms pw in \<open>auto simp: rc_ok_def dict_simps split: if_splits\<close>)
  qed
qed

lemma del_waiter_ok:
  assumes "rc_ok st"
  shows "rc_ok (st\<lparr>waiters := dict_del k (waiters st)\<rparr>)"
proof -
  let ?st = "st\<lparr>waiters := dict_del k (waiters st)\<rparr>"
  have f: "frame st ?st" by auto
  show ?thesis unfolding rc_ok_def
  proof (intro conjI)
    show "tm_ok ?st" using assms by (simp add: rc_ok_def)
    show "timers_ok ?st" by (rule timers_ok_frame [OF _ f]) (use assms in \<open>auto simp: rc_ok_def\<close>)
    show "table_ok ?st" by (rule table_ok_frame [OF _ _ f]) (use assms in \<open>auto simp: rc_ok_def identifier_of_def\<close>)
    show "callers_ok ?st"
      by (rule callers_ok_frame [OF _ f]) (use assms in \<open>auto simp: rc_ok_def dict_simps split: if_splits\<close>)
  qed
qed

lemma anonymous_ok:
  assumes "rc_ok st" "register_anonymous_task now base t opts st = (r, st')" "\<forall>f. t = FutureArg f \<longrightarrow> plain st f"
    "\<forall>j c. t = Function j \<longrightarrow> j \<noteq> on_timeout_job c"
  shows "rc_ok st'" "frame st st'"
proof -
  have "task_arg_ok st t" using assms(3) by (auto simp: task_arg_ok_def plain_def)
  then have "tm_ok st'" using add_anonymous_ok(1) [OF assms(2)] assms(1) by (simp add: rc_ok_def)
  moreover show f: "frame st st'" using frame_register_anonymous [OF assms(2-4)] .
  moreover have "tm.more st' = tm.more st" using more_register_anonymous assms(2) by (metis snd_conv)
  ultimately show "rc_ok st'" using rc_ok_frame [OF assms(1)] by blast
qed

lemma wait_for_name_ok:
  assumes "rc_ok st" "wait_for_name now pre n timeout st = (r, st')"
  shows "rc_ok st' \<and> frame st st'"
proof (cases "rc_get (PrefixStr pre) n st")
  case (Some c)
  obtain f st1 where "succeed (VObj c) st = (f, st1)" by fastforce
  with Some assms show ?thesis using succeed_ok by (simp add: wait_for_name_def)
next
  case None
  obtain w st1 where w: "new_future False NoPlan st = (w, st1)" by fastforce
  note N = new_future_ok [OF assms(1) w]
  let ?st2 = "st1\<lparr>waiters := dict_set (pre, n) w (waiters st1)\<rparr>"
  have ok2: "rc_ok ?st2" by (rule set_waiter_ok [OF N(1,2)])
  have f2: "frame st1 ?st2" by auto
  then have p2: "plain ?st2 w" by (rule plain_frame [OF N(2)])
  obtain r3 st3 where s3: "(case timeout of
                   None \<Rightarrow> (return 0, ?st2)
                 | Some t \<Rightarrow>
                     register_anonymous_task now ''Watch RequestCache Future ''
                       (Function (Call ''_watch_future'' (VKey pre n))) (delayed t) ?st2) = (r3, st3)" by fastforce
  have ok3: "rc_ok st3 \<and> frame ?st2 st3"
  proof (cases timeout)
    case (Some t)
    then have "register_anonymous_task now ''Watch RequestCache Future ''
        (Function (Call ''_watch_future'' (VKey pre n))) (delayed t) ?st2 = (r3, st3)" using s3 by simp
    from anonymous_ok [OF ok2 this] show ?thesis by (simp add: on_timeout_job_def)
  qed (use s3 ok2 in auto)
  have p3: "plain st3 w" using plain_frame [OF p2] ok3 by blast
  have "st' = st3 \<or> (\<exists>r'. register_anonymous_task now (''RequestCache wait for '' @ pre) (FutureArg w) no_options st3 = (r', st'))"
    using assms(2) None w s3 by (auto simp: wait_for_name_def split: sum.splits)
  moreover have f3: "frame st st3" using frame_trans [OF N(3) frame_trans [OF f2]] ok3 by blast
  moreover have "rc_ok st' \<and> frame st3 st'"
    if "register_anonymous_task now b (FutureArg w) no_options st3 = (r', st')" for b r'
    using anonymous_ok [OF conjunct1 [OF ok3] that] p3 by simp
  ultimately show ?thesis using ok3 frame_trans [OF f3] by blast
qed

lemma wait_for_ok:
  assumes "rc_ok st" "wait_for now p n timeout st = (r, st')"
  shows "rc_ok st' \<and> frame st st'"
proof (cases p)
  case (PrefixClass name)
  then show ?thesis
  proof (cases "rc_get p n st")
    case (Some c)
    obtain f st1 where "succeed (VObj c) st = (f, st1)" by fastforce
    with Some assms PrefixClass show ?thesis using succeed_ok by (simp add: wait_for_def)
  qed (use assms wait_for_name_ok in \<open>auto simp: wait_for_def\<close>)
qed (use assms wait_for_name_ok in \<open>auto simp: wait_for_def\<close>)

lemma watch_future_ok:
  assumes "rc_ok st"
  shows "rc_ok (watch_future k st)" "frame st (watch_future k st)"
proof -
  let ?st = "st\<lparr>waiters := dict_del k (waiters st)\<rparr>"
  have ok: "rc_ok ?st" by (rule del_waiter_ok [OF assms])
  have f: "frame st ?st" by auto
  have c: "rc_ok (cancel w ?st) \<and> frame st (cancel w ?st)" if "dict_get (waiters st) k = Some w" for w
  proof -
    have "plain st w" using assms that unfolding rc_ok_def callers_ok_def by blast
    then have p: "plain ?st w" using plain_frame f by blast
    then have "tm_ok (cancel w ?st)" using extends_ok [OF extends_cancel [of w ?st]] ok by (simp add: plain_def rc_ok_def)
    from rc_ok_frame [OF ok this frame_cancel [OF p]] frame_trans [OF f frame_cancel [OF p]] show ?thesis by simp
  qed
  show "rc_ok (watch_future k st)" "frame st (watch_future k st)"
    using ok f c by (auto simp: watch_future_def Let_def split: option.split)
qed

section \<open>Runs of the request cache\<close>

text \<open>
  The steps of a request cache whose callers make a new object for every request, and what
  the loop runs: timers, watches, other futures that finish, and callbacks. The events are the
  caches that are handed out by \<^verbatim>\<open>pop\<close> and those that time out.
\<close>

datatype rc_event = Popped nat | TimedOut nat

fun event_cache :: "rc_event \<Rightarrow> nat" where
  "event_cache (Popped c) = c" | "event_cache (TimedOut c) = c"

inductive rc_step :: "rc \<Rightarrow> rc \<Rightarrow> bool" where
  other_future: "new_future k NoPlan st = (f, st') \<Longrightarrow> rc_step st st'"
| new_cache: "new_number_cache pre n t cl st = (r, st') \<Longrightarrow> rc_step st st'"
| manage: "plain st f \<Longrightarrow> c < length (caches st) \<Longrightarrow> rc_step st (register_future c f v st)"
| add: "c < length (caches st) \<Longrightarrow> \<forall>f. \<not> timer st f c \<Longrightarrow> rc_add now c st = (r, st') \<Longrightarrow> rc_step st st'"
| pop_error: "rc_pop p n st = (raise e, st') \<Longrightarrow> rc_step st st'"
| wait_for: "wait_for now p n timeout st = (r, st') \<Longrightarrow> rc_step st st'"
| enter: "rc_step st (passthrough_enter fs t st)"
| exit: "rc_step st (passthrough_exit st)"
| clear: "rc_clear st = (ts, st') \<Longrightarrow> rc_step st st'"
| shutdown: "rc_step st (rc_shutdown st)"
| callback: "ready st = (c, f) # rest \<Longrightarrow> rc_step st (run_callback now c f (st\<lparr>ready := rest\<rparr>))"
| finished: "plain st f \<Longrightarrow> \<not> fut_done st f \<Longrightarrow> rc_step st (finish f r st)"
| watch: "plain st f \<Longrightarrow> state_of st f = Running \<Longrightarrow> rc_step st (run_watch k f st)"
| cancelled: "f < length (futures st) \<Longrightarrow> state_of st f = Cancelling \<Longrightarrow> rc_step st (finish f WasCancelled st)"

inductive rc_run :: "rc_event list \<Rightarrow> rc \<Rightarrow> bool" where
  init: "rc_run [] (new_request_cache now)"
| step: "rc_run es st \<Longrightarrow> rc_step st st' \<Longrightarrow> rc_run es st'"
| popped: "rc_run es st \<Longrightarrow> rc_pop p n st = (return c, st') \<Longrightarrow> rc_run (es @ [Popped c]) st'"
| timed_out: "rc_run es st \<Longrightarrow> timer st f c \<Longrightarrow> state_of st f = Running \<Longrightarrow>
    rc_run (es @ [TimedOut c]) (run_timeout (quiet_hook r) c f st)"

lemma rc_step_ok:
  assumes "rc_step st st'" "rc_ok st"
  shows "rc_ok st' \<and> keeps st st'"
  using assms
proof (cases rule: rc_step.cases)
  case (other_future k f)
  then show ?thesis using new_future_ok [OF assms(2)] frame_keeps by blast
next
  case (new_cache pre n t cl r)
  then show ?thesis using new_number_cache_ok [OF _ assms(2)] frame_keeps by blast
next
  case (manage f c v)
  have "frame st (register_future c f v st)" unfolding register_future_def by auto
  with manage register_future_ok [OF assms(2)] frame_keeps show ?thesis by blast
next
  case (add c now r)
  then show ?thesis using rc_add_ok [OF assms(2)] by blast
next
  case (pop_error p n e)
  then show ?thesis using rc_pop_error assms(2) frame_keeps by blast
next
  case (wait_for now p n timeout r)
  then show ?thesis using wait_for_ok [OF assms(2)] frame_keeps by blast
next
  case (enter fs t)
  have m: "frame st st'" unfolding enter(1) passthrough_enter_def by (rule frame_same) simp_all
  have e: "caches st' = caches st" "identifiers st' = identifiers st" "waiters st' = waiters st"
    by (simp_all add: enter passthrough_enter_def)
  have "tm_ok st'" using assms(2) by (simp add: enter passthrough_enter_def rc_ok_def)
  then show ?thesis
    using assms(2) timers_ok_frame [OF _ m] table_ok_frame [OF _ _ m] callers_ok_frame [OF _ m] frame_keeps [OF m]
    by (auto simp: rc_ok_def e identifier_of_def)
next
  case exit
  have m: "frame st st'" unfolding exit(1) passthrough_exit_def by (rule frame_same) simp_all
  have e: "caches st' = caches st" "identifiers st' = identifiers st" "waiters st' = waiters st"
    by (simp_all add: exit passthrough_exit_def)
  have "tm_ok st'" using assms(2) by (simp add: exit passthrough_exit_def rc_ok_def)
  then show ?thesis
    using assms(2) timers_ok_frame [OF _ m] table_ok_frame [OF _ _ m] callers_ok_frame [OF _ m] frame_keeps [OF m]
    by (auto simp: rc_ok_def e identifier_of_def)
next
  case (clear ts)
  then show ?thesis using rc_clear_ok [OF assms(2)] retires_keeps by blast
next
  case shutdown
  then show ?thesis using rc_shutdown_ok [OF assms(2)] retires_keeps by blast
next
  case (callback c f rest now)
  then show ?thesis using rc_callback_ok [OF assms(2)] by blast
next
  case (finished f r)
  then show ?thesis using finish_ok [OF assms(2)] frame_keeps frame_finish by blast
next
  case (watch f k)
  note W = watch_future_ok [OF assms(2), of k]
  have p: "plain (watch_future k st) f" using plain_frame [OF watch(2) W(2)] .
  from finish_ok [OF W(1) disjI1 [OF p]] frame_trans [OF W(2) frame_finish [OF disjI1 [OF p]]] show ?thesis
    using frame_keeps by (auto simp: watch run_watch_def)
next
  case (cancelled f)
  then have "f < length (futures st) \<and> state_of st f \<noteq> Running" by simp
  then show ?thesis using finish_ok [OF assms(2)] frame_keeps frame_finish cancelled(1) by blast
qed

lemma new_request_cache_ok: "rc_ok (new_request_cache now)"
proof -
  have e: "tm_ok empty_rc" by (simp add: empty_rc_def tm_ok_def cbs_ok_def)
  have ok: "rc_ok empty_rc"
    using e by (simp add: empty_rc_def rc_ok_def timers_ok_def table_ok_def callers_ok_def timer_cbs_def timer_def)
  obtain r st where r: "register_task now (StrName ''_check_tasks'') (Function (Call ''_check_tasks'' VNone))
    \<lparr>delay = Some (MAX_TASK_AGE * 3 / 2), interval = Some MAX_TASK_AGE, ignore_ok = True\<rparr> empty_rc = (r, st)" by fastforce
  have "frame empty_rc st" by (rule frame_register [OF r]) (simp_all add: on_timeout_job_def)
  moreover have "tm_ok st" using register_task_ok [OF r e] by (simp add: task_arg_ok_def)
  moreover have "tm.more st = tm.more empty_rc" using more_register r by (metis snd_conv)
  ultimately have st: "rc_ok st" using rc_ok_frame [OF ok] by blast
  have "rc_ok (st\<lparr>checker := f\<rparr>)" for f
  proof (rule rc_ok_frame [OF st])
    show "tm_ok (st\<lparr>checker := f\<rparr>)" using st
      by (simp add: rc_ok_def tm_ok_def cbs_ok_def tracked_def fut_done_def state_of_def)
  qed (simp_all add: frame_same)
  with st show ?thesis by (simp add: new_request_cache_def init_checker_def r split: sum.split)
qed

definition events_ok :: "rc_event list \<Rightarrow> rc \<Rightarrow> bool" where
  "events_ok es st \<longleftrightarrow> distinct (map event_cache es) \<and>
     (\<forall>e \<in> set es. \<exists>f. timer st f (event_cache e) \<and> state_of st f \<noteq> Running)"

lemma event_added:
  assumes "rc_ok st" "events_ok es st" "dict_get (identifiers st) i = Some c" "keeps st st'"
    "\<forall>f. timer st f c \<longrightarrow> timer st' f c \<and> state_of st' f \<noteq> Running" "event_cache e = c"
  shows "events_ok (es @ [e]) st'"
proof -
  obtain f where f: "timer st f c" "state_of st f = Running" "\<And>g. timer st g c \<Longrightarrow> g = f"
    by (rule timer_of_entry [OF assms(1,3)]) blast
  have "c \<notin> event_cache ` set es"
  proof
    assume "c \<in> event_cache ` set es"
    then obtain g where "timer st g c" "state_of st g \<noteq> Running" using assms(2) by (auto simp: events_ok_def)
    with f(2,3) show False by auto
  qed
  with f(1) assms(2,4,5,6) show ?thesis by (fastforce simp: events_ok_def keeps_def)
qed

lemma rc_run_ok: "rc_run es st \<Longrightarrow> rc_ok st \<and> events_ok es st"
proof (induction rule: rc_run.induct)
  case (init now)
  then show ?case by (simp add: new_request_cache_ok events_ok_def)
next
  case (step es st st')
  then have "rc_ok st' \<and> keeps st st'" using rc_step_ok by blast
  with step show ?case by (fastforce simp: events_ok_def keeps_def)
next
  case (popped es st p n c st')
  then have ok: "rc_ok st" "events_ok es st" by auto
  note P = rc_pop_ok [OF ok(1) popped.hyps(2)]
  then obtain i where i: "dict_get (identifiers st) i = Some c" by blast
  from P have s: "\<forall>f. timer st f c \<longrightarrow> timer st' f c \<and> state_of st' f \<noteq> Running" by (auto simp: retires_def)
  from P have k: "keeps st st'" using retires_keeps by blast
  from event_added [OF ok i k s, of "Popped c"] P show ?case by simp
next
  case (timed_out es st f c r)
  then have ok: "rc_ok st" "events_ok es st" by auto
  note P = run_timeout_ok [OF ok(1) timed_out.hyps(2,3), of r]
  then obtain i where i: "dict_get (identifiers st) i = Some c" by blast
  from P have s: "\<forall>g. timer st g c \<longrightarrow> timer (run_timeout (quiet_hook r) c f st) g c \<and>
      state_of (run_timeout (quiet_hook r) c f st) g \<noteq> Running" by (auto simp: retires_def)
  from P have k: "keeps st (run_timeout (quiet_hook r) c f st)" using retires_keeps by blast
  from event_added [OF ok i k s, of "TimedOut c"] P show ?case by simp
qed

section \<open>Properties\<close>

text \<open>
  C13: in every run of a request cache each cache is handed out by \<^verbatim>\<open>pop\<close> or times out at most
  once, and never both; one that was popped or timed out is not in the table.
\<close>

theorem popped_or_timed_out_once:
  assumes "rc_run es st"
  shows "distinct (map event_cache es) \<and>
    (\<forall>c. Popped c \<in> set es \<longrightarrow> TimedOut c \<notin> set es) \<and>
    (\<forall>e \<in> set es. \<forall>i. dict_get (identifiers st) i \<noteq> Some (event_cache e))"
proof -
  have ok: "rc_ok st" "events_ok es st" using rc_run_ok [OF assms] by auto
  have "Popped c \<in> set es \<Longrightarrow> TimedOut c \<notin> set es" for c
  proof
    assume e: "Popped c \<in> set es" "TimedOut c \<in> set es"
    have "inj_on event_cache (set es)" using ok(2) by (simp add: events_ok_def distinct_map)
    from inj_onD [OF this _ e] show False by simp
  qed
  moreover have "dict_get (identifiers st) i \<noteq> Some (event_cache e)" if mem: "e \<in> set es" for e i
  proof
    assume i: "dict_get (identifiers st) i = Some (event_cache e)"
    obtain g where g: "timer st g (event_cache e)" "state_of st g \<noteq> Running"
      using ok(2) mem unfolding events_ok_def by blast
    from g(2) entry_running [OF ok(1) i g(1)] show False by contradiction
  qed
  moreover have "distinct (map event_cache es)" using ok(2) unfolding events_ok_def by blast
  ultimately show ?thesis by blast
qed

text \<open>
  C14: in every reachable state the caches of the table stand under their own identifiers, and
  each has an active timer, the only task ever registered to time it out: no request waits
  for ever.
\<close>

theorem every_request_has_a_timer:
  assumes "rc_run es st" "dict_get (identifiers st) i = Some c"
  shows "i = identifier_of st c \<and> is_pending_task_active (ObjName c) st \<and>
    (\<exists>f. get_task (ObjName c) st = Some f \<and> timer st f c \<and> state_of st f = Running \<and> (\<forall>g. timer st g c \<longrightarrow> g = f))"
proof -
  have ok: "rc_ok st" using rc_run_ok [OF assms(1)] by simp
  obtain f where f: "timer st f c" "state_of st f = Running" "dict_get (pending_tasks st) (ObjName c) = Some f"
    "\<And>g. timer st g c \<Longrightarrow> g = f" by (rule timer_of_entry [OF ok assms(2)]) blast
  have i: "i = identifier_of st c" using ok assms(2) unfolding rc_ok_def table_ok_def by blast
  have a: "is_pending_task_active (ObjName c) st" using f(2,3) by (simp add: is_pending_task_active_def fut_done_def)
  have "get_task (ObjName c) st = Some f" using f(3) by (simp add: get_task_def)
  with f i a show ?thesis by blast
qed

lemma set_managed_done:
  assumes "\<forall>f v. (f, v) \<in> set fs \<longrightarrow> f < length (futures st)"
  shows "length (futures (set_managed fs st)) = length (futures st) \<and>
    (\<forall>f v. (f, v) \<in> set fs \<longrightarrow> fut_done (set_managed fs st) f) \<and>
    (\<forall>f < length (futures st). fut_done st f \<longrightarrow> state_of (set_managed fs st) f = state_of st f)"
  using assms
proof (induction fs arbitrary: st)
  case (Cons x fs)
  obtain f v where x: "x = (f, v)" by (cases x)
  let ?st = "if fut_done st f then st else finish f (timeout_outcome v) st"
  have fl: "f < length (futures st)" using Cons.prems x by auto
  have l: "length (futures ?st) = length (futures st)" by simp
  have "\<forall>g w. (g, w) \<in> set fs \<longrightarrow> g < length (futures ?st)" using Cons.prems unfolding l by (meson list.set_intros(2))
  note I = Cons.IH [OF this]
  have s: "set_managed (x # fs) st = set_managed fs ?st" by (simp add: set_managed_def x)
  have d: "fut_done ?st f" using fut_done_finish [OF fl] by simp
  have same: "state_of ?st g = state_of st g" if "g < length (futures st)" "fut_done st g" for g
    using that by (auto simp: state_of_def)
  have keep: "state_of (set_managed fs ?st) g = state_of ?st g" if "g < length (futures st)" "fut_done ?st g" for g
    using I that unfolding l by blast
  have "state_of (set_managed fs ?st) f = state_of ?st f" using keep [OF fl d] .
  with d have 1: "fut_done (set_managed fs ?st) f" by (simp only: fut_done_def)
  have 2: "state_of (set_managed fs ?st) g = state_of st g" if g: "g < length (futures st)" "fut_done st g" for g
  proof -
    have "fut_done ?st g" using g(2) same [OF g] by (simp only: fut_done_def)
    from keep [OF g(1) this] same [OF g] show ?thesis by simp
  qed
  have 3: "fut_done (set_managed fs ?st) g" if "(g, w) \<in> set (x # fs)" for g w
    using that I 1 by (auto simp: x)
  show ?case unfolding s using I 2 3 unfolding l by blast
qed (simp add: set_managed_def)

text \<open>
  when a cache times out and its own handler returns, all of its managed futures are
  done: the ones that were done keep their outcome, a pending one has its timeout value.
\<close>

theorem timeout_resolves_futures:
  assumes "rc_run es st" "timer st f c" "state_of st f = Running" "(g, v) \<in> set (managed_futures (caches st ! c))"
    "st' = run_timeout (quiet_hook (return ())) c f st"
  shows "fut_done st' g \<and> (fut_done st g \<longrightarrow> state_of st' g = state_of st g) \<and>
    \<not> rc_has (PrefixStr (cache_prefix (caches st ! c))) (cache_number (caches st ! c)) st'"
proof -
  have ok: "rc_ok st" using rc_run_ok [OF assms(1)] by simp
  let ?i = "identifier_of st c" and ?fs = "managed_futures (caches st ! c)"
  let ?st = "st\<lparr>identifiers := dict_del ?i (identifiers st)\<rparr>"
  have i: "dict_get (identifiers st) ?i = Some c" using ok assms(2,3) unfolding rc_ok_def table_ok_def by blast
  have cl: "c < length (caches st)" using i ok unfolding rc_ok_def table_ok_def by blast
  have pl: "plain st h" if "(h, w) \<in> set ?fs" for h w
    using ok that nth_mem [OF cl] unfolding rc_ok_def callers_ok_def by blast
  then have lens: "\<forall>h w. (h, w) \<in> set ?fs \<longrightarrow> h < length (futures ?st)" by (auto simp: plain_def)
  note S = set_managed_done [OF lens]
  let ?st1 = "set_managed ?fs ?st"
  have g: "g < length (futures st)" "g \<noteq> f" using pl [OF assms(4)] assms(2) by (auto simp: plain_def)
  obtain h st2 where c: "cancel_pending_task (ObjName c) ?st1 = (h, st2)" by fastforce
  have fr: "frame ?st ?st1"
    using set_managed_ok [of ?st ?fs] ok plain_frame [OF pl, of _ _ ?st] by (auto simp: rc_ok_def)
  have "timers_ok st" using ok by (simp add: rc_ok_def)
  then have "dict_get (pending_tasks st) (ObjName c) \<noteq> Some g" using assms(2) g(2) unfolding timers_ok_def by blast
  then have "dict_get (pending_tasks ?st1) (ObjName c) \<noteq> Some g" using fr by (simp add: frame_def)
  from cancel_pending_task_other [OF c this] S g have s2: "state_of st2 g = state_of ?st1 g" by simp
  have tok: "tm_ok ?st1" using set_managed_ok [of ?st ?fs] ok plain_frame [OF pl, of _ _ ?st] by (auto simp: rc_ok_def)
  have l2: "g < length (futures st2)" using cancel_pending_task_grows [OF c tok] S g(1) by (simp add: grows_def)
  have st': "st' = finish f (if state_of st2 f = Cancelling then WasCancelled else Returned VNone) st2"
    using c by (simp add: assms(5) run_timeout_def on_timeout_def quiet_hook_def)
  then have s': "state_of st' g = state_of ?st1 g" using l2 g(2) s2 by (simp add: state_of_def)
  have d: "fut_done ?st1 g" using S assms(4) by blast
  then have "fut_done st' g" using s' by (simp add: fut_done_def)
  moreover have "state_of st' g = state_of st g" if "fut_done st g" using S g(1) that s' by simp
  moreover have "rc_ok st'" using run_timeout_ok [OF ok assms(2,3)] assms(5) by blast
  have "tm.more st2 = tm.more ?st1" using more_cancel_pending c by (metis snd_conv)
  then have "tm.more st' = tm.more ?st" using set_managed_ok [of ?st ?fs] ok plain_frame [OF pl, of _ _ ?st]
    by (auto simp: st' rc_ok_def)
  from more_eq(1) [OF this] have "dict_get (identifiers st') ?i = None" by (simp add: dict_simps)
  then have "\<not> rc_has (PrefixStr (cache_prefix (caches st ! c))) (cache_number (caches st ! c)) st'"
    by (simp add: rc_has_def identifier_of_def)
  ultimately show ?thesis by blast
qed

section \<open>A concrete run\<close>

definition ex_cache :: rc where
  "ex_cache = snd (new_number_cache ''p'' 5 10 [] (new_request_cache 0))"

definition ex_future :: rc where
  "ex_future = snd (new_future False NoPlan ex_cache)"

definition ex_managed :: rc where
  "ex_managed = register_future 0 1 (TimeoutResult (VObj 7)) ex_future"

definition ex_rc :: rc where
  "ex_rc = snd (rc_add 3 0 ex_managed)"

lemma no_timer:
  assumes "list_all (\<lambda>x. plan_job (fut_plan x) \<noteq> Some (on_timeout_job c)) (futures st)"
  shows "\<not> timer st f c"
  using assms by (auto simp: timer_def list_all_length)

lemma ex_rc_run: "rc_run [] ex_rc"
proof -
  have "rc_run [] (new_request_cache 0)" by (rule rc_run.init)
  then have "rc_run [] ex_cache" unfolding ex_cache_def
    by (rule rc_run.step [OF _ rc_step.new_cache [OF surjective_pairing]])
  then have f: "rc_run [] ex_future" unfolding ex_future_def
    by (rule rc_run.step [OF _ rc_step.other_future [OF surjective_pairing]])
  have "plan_job (fut_plan (futures ex_future ! 1)) = None \<and> 1 < length (futures ex_future) \<and> 0 < length (caches ex_future)"
    by code_simp
  then have "plain ex_future 1" "0 < length (caches ex_future)" by (simp_all add: plain_def timer_def)
  from rc_run.step [OF f rc_step.manage [OF this]] have m: "rc_run [] ex_managed" by (simp add: ex_managed_def)
  have "list_all (\<lambda>x. plan_job (fut_plan x) \<noteq> Some (on_timeout_job 0)) (futures ex_managed) \<and> 0 < length (caches ex_managed)"
    by code_simp
  then have a: "\<forall>f. \<not> timer ex_managed f 0" "0 < length (caches ex_managed)" using no_timer by auto
  show ?thesis unfolding ex_rc_def
    by (rule rc_run.step [OF m rc_step.add [OF a(2,1) surjective_pairing]])
qed

lemma ex_rc_facts:
  "dict_get (identifiers ex_rc) ''p:5'' = Some 0" "timer ex_rc 2 0" "state_of ex_rc 2 = Running"
  "(1, TimeoutResult (VObj 7)) \<in> set (managed_futures (caches ex_rc ! 0))"
proof -
  have "2 < length (futures ex_rc) \<and> plan_job (fut_plan (futures ex_rc ! 2)) = Some (on_timeout_job 0)" by code_simp
  then show "timer ex_rc 2 0" by (simp add: timer_def)
qed code_simp+

theorem popped_or_timed_out_once_witness:
  "\<exists>st. rc_run [TimedOut 0] st \<and> Popped 0 \<notin> set [TimedOut 0] \<and> dict_get (identifiers st) ''p:5'' \<noteq> Some 0"
proof -
  let ?st = "run_timeout (quiet_hook (return ())) 0 2 ex_rc"
  have run: "rc_run [TimedOut 0] ?st"
    using rc_run.timed_out [OF ex_rc_run ex_rc_facts(2,3), of "return ()"] by simp
  from popped_or_timed_out_once [OF run] run show ?thesis by auto
qed

theorem every_request_has_a_timer_witness:
  "is_pending_task_active (ObjName 0) ex_rc \<and> ''p:5'' = identifier_of ex_rc 0"
  using every_request_has_a_timer [OF ex_rc_run ex_rc_facts(1)] by blast

theorem timeout_resolves_futures_witness:
  "fut_done (run_timeout (quiet_hook (return ())) 0 2 ex_rc) 1"
  using timeout_resolves_futures [OF ex_rc_run ex_rc_facts(2,3,4) refl] by blast

end
