(* ===== verification/Network.thy ===== *)
theory Network
  imports Serialization
begin

text \<open>
  The network (\<^verbatim>\<open>ipv8/peerdiscovery/network.py\<close>): known addresses, verified peers and the
  caches that reverse these relations. Peer objects are shared and changed in place, so they
  live in a store and everything else refers to them by their position in it.
\<close>

section \<open>State\<close>

text \<open>Addresses as keys: the host in Unicode points and the port.\<close>

type_synonym addr = "unicode \<times> int"
type_synonym pid = nat

record walkable_address =
  introduced_by :: bytes
  wa_service :: "bytes option"
  new_style :: bool

datatype notification = PeerAdded nat pid | PeerRemoved nat pid

text \<open>
  Sets are lists without duplicates; the iteration order of a Python set is not specified,
  here it is the order of insertion. \<open>notified\<close> are the calls made to observers so far.
\<close>

record network =
  peer_objects :: "peer list"
  all_addresses :: "(addr, walkable_address) dict"
  verified_peers :: "pid list"
  verified_by_key :: "(bytes, pid) dict"
  blacklist :: "addr list"
  blacklist_mids :: "bytes list"
  services_per_peer :: "(bytes, bytes list) dict"
  service_overlays :: "(bytes, nat) dict"
  reverse_ip_cache_size :: nat
  reverse_ip_lookup :: "(addr, pid) dict"
  reverse_intro_cache_size :: nat
  reverse_intro_lookup :: "(bytes, addr list) dict"
  reverse_service_cache_size :: nat
  reverse_service_lookup :: "(bytes, pid list) dict"
  peer_observers :: "nat list"
  notified :: "notification list"

definition new_network :: network where
  "new_network = \<lparr>peer_objects = [], all_addresses = [], verified_peers = [], verified_by_key = [],
     blacklist = [], blacklist_mids = [], services_per_peer = [], service_overlays = [],
     reverse_ip_cache_size = 500, reverse_ip_lookup = [], reverse_intro_cache_size = 500, reverse_intro_lookup = [],
     reverse_service_cache_size = 500, reverse_service_lookup = [], peer_observers = [], notified = []\<rparr>"

text \<open>A peer object made by the caller.\<close>

definition new_object :: "peer \<Rightarrow> network \<Rightarrow> pid \<times> network" where
  "new_object p net = (length (peer_objects net), net\<lparr>peer_objects := peer_objects net @ [p]\<rparr>)"

definition key_of :: "network \<Rightarrow> pid \<Rightarrow> bytes" where
  "key_of net p = public_key_bin (peer_objects net ! p)"

definition addrs_of :: "network \<Rightarrow> pid \<Rightarrow> addr list" where
  "addrs_of net p = map (\<lambda>a. (ustr (addr_host a), addr_port a)) (dict_values (dd_items (addresses (peer_objects net ! p))))"

text \<open>Membership of peers is by equality of their keys.\<close>

definition peer_in :: "network \<Rightarrow> pid \<Rightarrow> pid list \<Rightarrow> bool" where
  "peer_in net p ps \<longleftrightarrow> key_of net p \<in> set (map (key_of net) ps)"

definition remove_eq :: "network \<Rightarrow> pid \<Rightarrow> pid list \<Rightarrow> pid list" where
  "remove_eq net p ps =
     (case dropWhile (\<lambda>q. key_of net q \<noteq> key_of net p) ps of
        [] \<Rightarrow> ps | _ # rest \<Rightarrow> takeWhile (\<lambda>q. key_of net q \<noteq> key_of net p) ps @ rest)"

definition limit :: "nat \<Rightarrow> ('k, 'v) dict \<Rightarrow> ('k, 'v) dict" where
  "limit n d = (if n < length d then dict_popfirst d else d)"

definition unknown_address :: walkable_address where
  "unknown_address = \<lparr>introduced_by = [], wa_service = None, new_style = False\<rparr>"

section \<open>Peers\<close>

definition is_new_style :: "addr \<Rightarrow> network \<Rightarrow> bool" where
  "is_new_style a net = new_style (case dict_get (all_addresses net) a of None \<Rightarrow> unknown_address | Some w \<Rightarrow> w)"

definition notify_added :: "pid \<Rightarrow> network \<Rightarrow> network" where
  "notify_added p net = net\<lparr>notified := notified net @ map (\<lambda>ob. PeerAdded ob p) (peer_observers net)\<rparr>"

definition notify_removed :: "pid \<Rightarrow> network \<Rightarrow> network" where
  "notify_removed p net = net\<lparr>notified := notified net @ map (\<lambda>ob. PeerRemoved ob p) (peer_observers net)\<rparr>"

definition verify_peer :: "pid \<Rightarrow> network \<Rightarrow> network" where
  "verify_peer p net =
     (if peer_in net p (verified_peers net) then net
      else
        notify_added p
          (net\<lparr>verified_peers := verified_peers net @ [p],
               verified_by_key := dict_set (key_of net p) p (verified_by_key net)\<rparr>))"

definition add_unknown :: "addr \<Rightarrow> (addr, walkable_address) dict \<Rightarrow> (addr, walkable_address) dict" where
  "add_unknown a d = (if dict_get d a = None then dict_set a unknown_address d else d)"

definition add_verified_peer :: "pid \<Rightarrow> network \<Rightarrow> network" where
  "add_verified_peer p net =
     (if mid (peer_objects net ! p) \<in> set (blacklist_mids net) then net
      else
        case dict_get (verified_by_key net) (key_of net p) of
          Some known \<Rightarrow>
            net\<lparr>peer_objects := (peer_objects net)[known :=
              (peer_objects net ! known)\<lparr>addresses :=
                 dd_update (dd_items (addresses (peer_objects net ! p))) (addresses (peer_objects net ! known))\<rparr>]\<rparr>
        | None \<Rightarrow>
            if \<exists>a \<in> set (addrs_of net p). dict_get (all_addresses net) a \<noteq> None then verify_peer p net
            else if \<forall>a \<in> set (addrs_of net p). a \<notin> set (blacklist net)
            then verify_peer p (net\<lparr>all_addresses := fold add_unknown (addrs_of net p) (all_addresses net)\<rparr>)
            else net)"

definition discover_address :: "pid \<Rightarrow> addr \<Rightarrow> bytes option \<Rightarrow> bool \<Rightarrow> network \<Rightarrow> network" where
  "discover_address p a service style net =
     (if a \<in> set (blacklist net) then add_verified_peer p net
      else
        add_verified_peer p
          (if (case dict_get (all_addresses net) a of
                 None \<Rightarrow> True | Some w \<Rightarrow> dict_get (verified_by_key net) (introduced_by w) = None)
           then
             net\<lparr>all_addresses :=
                   dict_set a \<lparr>introduced_by = key_of net p, wa_service = service, new_style = style\<rparr> (all_addresses net),
                 reverse_intro_lookup :=
                   (case dict_get (reverse_intro_lookup net) (key_of net p) of
                      Some (x # xs) \<Rightarrow> dict_set (key_of net p) ((x # xs) @ [a]) (reverse_intro_lookup net)
                    | _ \<Rightarrow>
                        limit (reverse_intro_cache_size net)
                          (dict_set (key_of net p) [a] (reverse_intro_lookup net)))\<rparr>
           else net))"

definition remove_peer :: "pid \<Rightarrow> network \<Rightarrow> network" where
  "remove_peer p net =
     (let net = net\<lparr>all_addresses := fold dict_del (addrs_of net p) (all_addresses net)\<rparr>;
          net = (if peer_in net p (verified_peers net)
                 then notify_removed p (net\<lparr>verified_peers := remove_eq net p (verified_peers net)\<rparr>) else net)
      in net\<lparr>verified_by_key := dict_del (key_of net p) (verified_by_key net),
             services_per_peer := dict_del (key_of net p) (services_per_peer net)\<rparr>)"

text \<open>The removed peers lose their services; the map of keys is left as it is.\<close>

definition remove_by_address :: "addr \<Rightarrow> network \<Rightarrow> network" where
  "remove_by_address a net =
     (let removed = filter (\<lambda>p. a \<in> set (addrs_of net p)) (verified_peers net)
      in fold notify_removed removed
           (net\<lparr>all_addresses := dict_del a (all_addresses net),
                services_per_peer := fold (\<lambda>p. dict_del (key_of net p)) removed (services_per_peer net),
                verified_peers := filter (\<lambda>p. a \<notin> set (addrs_of net p)) (verified_peers net)\<rparr>))"

section \<open>Services\<close>

definition set_union :: "'a list \<Rightarrow> 'a list \<Rightarrow> 'a list" where
  "set_union xs ys = xs @ filter (\<lambda>y. y \<notin> set xs) (remdups ys)"

definition refresh_service :: "pid \<Rightarrow> bytes \<Rightarrow> network \<Rightarrow> network" where
  "refresh_service p service net =
     (case dict_get (reverse_service_lookup net) service of
        None \<Rightarrow> net
      | Some cache \<Rightarrow>
          let known = (case dict_get (verified_by_key net) (key_of net p) of None \<Rightarrow> p | Some q \<Rightarrow> q);
              cache' = (if peer_in net p cache then remove_eq net p cache else cache) @ [known]
          in net\<lparr>reverse_service_lookup :=
                   limit (reverse_service_cache_size net) (dict_set service cache' (reverse_service_lookup net))\<rparr>)"

definition discover_services :: "pid \<Rightarrow> bytes list \<Rightarrow> network \<Rightarrow> network" where
  "discover_services p services net =
     (let k = key_of net p;
          old = (case dict_get (services_per_peer net) k of None \<Rightarrow> [] | Some s \<Rightarrow> s)
      in fold (refresh_service p) services
           (net\<lparr>services_per_peer := dict_set k (set_union old services) (services_per_peer net)\<rparr>))"

definition register_service_provider :: "bytes \<Rightarrow> nat \<Rightarrow> network \<Rightarrow> network" where
  "register_service_provider s ov net = net\<lparr>service_overlays := dict_set s ov (service_overlays net)\<rparr>"

definition get_services_for_peer :: "pid \<Rightarrow> network \<Rightarrow> bytes list" where
  "get_services_for_peer p net =
     (case dict_get (services_per_peer net) (key_of net p) of None \<Rightarrow> [] | Some s \<Rightarrow> s)"

definition provides :: "network \<Rightarrow> bytes \<Rightarrow> pid \<Rightarrow> bool" where
  "provides net s p \<longleftrightarrow> s \<in> set (get_services_for_peer p net)"

definition get_peers_for_service :: "bytes \<Rightarrow> network \<Rightarrow> pid list \<times> network" where
  "get_peers_for_service s net =
     (let out =
        (case dict_get (reverse_service_lookup net) s of
           None \<Rightarrow> filter (provides net s) (verified_peers net)
         | Some cache \<Rightarrow> filter (\<lambda>p. peer_in net p (verified_peers net) \<and> provides net s p) cache)
      in (out, net\<lparr>reverse_service_lookup :=
            limit (reverse_service_cache_size net)
              (dict_set s out (dict_del s (reverse_service_lookup net)))\<rparr>))"

section \<open>Addresses\<close>

text \<open>
  The addresses to walk to. The service of an address is added to the set of services that is
  stored for the peer that introduced it, when there is such a set.
\<close>

definition address_services :: "walkable_address \<Rightarrow> network \<Rightarrow> bytes list \<times> network" where
  "address_services w net =
     (let stored = dict_get (services_per_peer net) (introduced_by w);
          services = (case stored of None \<Rightarrow> [] | Some x \<Rightarrow> x);
          services = (case wa_service w of
                        Some x \<Rightarrow> if x = [] then services else set_union services [x] | None \<Rightarrow> services)
      in (services,
          case stored of
            None \<Rightarrow> net
          | Some _ \<Rightarrow> net\<lparr>services_per_peer := dict_set (introduced_by w) services (services_per_peer net)\<rparr>))"

fun with_service ::
  "bytes \<Rightarrow> bool \<Rightarrow> addr list \<Rightarrow> network \<Rightarrow> addr list \<times> network" where
  "with_service s old_style [] net = ([], net)"
| "with_service s old_style (a # as) net =
     (case dict_get (all_addresses net) a of
        None \<Rightarrow> with_service s old_style as net
      | Some w \<Rightarrow>
          if old_style \<and> new_style w then with_service s old_style as net
          else
            let (services, net) = address_services w net;
                (out, net) = with_service s old_style as net
            in (if s \<in> set services then a # out else out, net))"

definition get_walkable_addresses :: "bytes option \<Rightarrow> bool \<Rightarrow> network \<Rightarrow> addr list \<times> network" where
  "get_walkable_addresses service old_style net =
     (let named = (case service of Some s \<Rightarrow> if s = [] then None else Some s | None \<Rightarrow> None);
          (known, net) = (case named of Some s \<Rightarrow> get_peers_for_service s net | None \<Rightarrow> (verified_peers net, net));
          verified = concat (map (addrs_of net) known);
          out = filter (\<lambda>a. a \<notin> set verified) (dict_keys (all_addresses net))
      in case named of None \<Rightarrow> (out, net) | Some s \<Rightarrow> with_service s old_style out net)"

text \<open>A cached peer is returned as it is, whether it is still verified or not.\<close>

definition get_verified_by_address :: "addr \<Rightarrow> network \<Rightarrow> pid option \<times> network" where
  "get_verified_by_address a net =
     (let rest = dict_del a (reverse_ip_lookup net);
          remember = (\<lambda>p. net\<lparr>reverse_ip_lookup := limit (reverse_ip_cache_size net) (dict_set a p rest)\<rparr>)
      in case dict_get (reverse_ip_lookup net) a of
           Some p \<Rightarrow> (Some p, remember p)
         | None \<Rightarrow>
             (case filter (\<lambda>p. a \<in> set (addrs_of net p)) (verified_peers net) of
                [] \<Rightarrow> (None, net\<lparr>reverse_ip_lookup := rest\<rparr>)
              | p # _ \<Rightarrow> (Some p, remember p)))"

definition get_verified_by_public_key_bin :: "bytes \<Rightarrow> network \<Rightarrow> pid option" where
  "get_verified_by_public_key_bin k net = dict_get (verified_by_key net) k"

definition get_introductions_from :: "pid \<Rightarrow> network \<Rightarrow> addr list \<times> network" where
  "get_introductions_from p net =
     (case dict_get (reverse_intro_lookup net) (key_of net p) of
        Some xs \<Rightarrow> (xs, net)
      | None \<Rightarrow>
          let xs = map fst (filter (\<lambda>(a, w). introduced_by w = key_of net p) (all_addresses net))
          in (xs, net\<lparr>reverse_intro_lookup :=
                   limit (reverse_intro_cache_size net) (dict_set (key_of net p) xs (reverse_intro_lookup net))\<rparr>))"

section \<open>Snapshots\<close>

text \<open>An address as a value of the serializer, and a value read as an address.\<close>

definition address_value :: "address \<Rightarrow> pyval" where
  "address_value a =
     (case addr_class a of
        PlainTuple \<Rightarrow> PTuple [PStr (ustr (addr_host a)), PInt (addr_port a)]
      | c \<Rightarrow> PAddr c (ustr (addr_host a)) (addr_port a))"

definition value_address :: "pyval \<Rightarrow> addr" where
  "value_address v = (case v of PAddr c h p \<Rightarrow> (h, p) | _ \<Rightarrow> ([], 0))"

text \<open>Reading the address of a peer refreshes its preferred one.\<close>

fun snapshot_peers :: "pid list \<Rightarrow> network \<Rightarrow> bytes result \<times> network" where
  "snapshot_peers [] net = (return [], net)"
| "snapshot_peers (p # ps) net =
     (let (q, a) = get_address (peer_objects net ! p);
          net = net\<lparr>peer_objects := (peer_objects net)[p := q]\<rparr>
      in if addr_tuple a = (''0.0.0.0'', 0) then snapshot_peers ps net
         else
           case serializer_pack default_packers ''address'' (address_value a) of
             Inl e \<Rightarrow> (raise e, net)
           | Inr b \<Rightarrow>
               (case snapshot_peers ps net of
                  (Inl e, net) \<Rightarrow> (raise e, net) | (Inr bs, net) \<Rightarrow> (return (b @ bs), net)))"

definition snapshot :: "network \<Rightarrow> bytes result \<times> network" where
  "snapshot net = snapshot_peers (verified_peers net) net"

text \<open>
  The loop over a snapshot stops at the first entry that cannot be read, as the offset is only
  changed by an entry that can.
\<close>

function load_loop :: "bytes \<Rightarrow> nat \<Rightarrow> (addr, walkable_address) dict \<Rightarrow> (addr, walkable_address) dict" where
  "load_loop b off d =
     (if length b \<le> off then d
      else
        case serializer_unpack default_packers (Fmt ''address'') b off of
          Inl _ \<Rightarrow> d
        | Inr (v, off') \<Rightarrow>
            if off' \<le> off then d else load_loop b off' (dict_set (value_address v) unknown_address d))"
  by pat_completeness auto
termination by (relation "measure (\<lambda>(b, off, d). length b - off)") auto

declare load_loop.simps [simp del]

definition load_snapshot :: "bytes \<Rightarrow> network \<Rightarrow> network" where
  "load_snapshot b net = net\<lparr>all_addresses := load_loop b 0 (all_addresses net)\<rparr>"

section \<open>Observers\<close>

definition add_peer_observer :: "nat \<Rightarrow> network \<Rightarrow> network" where
  "add_peer_observer ob net = net\<lparr>peer_observers := List.insert ob (peer_observers net)\<rparr>"

definition remove_peer_observer :: "nat \<Rightarrow> network \<Rightarrow> network" where
  "remove_peer_observer ob net = net\<lparr>peer_observers := remove1 ob (peer_observers net)\<rparr>"

end
