(* ===== verification/Network_Properties.thy ===== *)
theory Network_Properties
  imports Network Roundtrip
begin

text \<open>
  What the network promises: verified peers are indexed by their keys in every run, the caches are
  bounded, which addresses are walked to, and what a snapshot restores; and where a removal by address and
  a query for addresses leave it in a state it does not mean.
\<close>

section \<open>Frames\<close>

lemma length_limit: "length d \<le> Suc n \<Longrightarrow> length (limit n d) \<le> n"
  by (cases d) (auto simp: limit_def dict_popfirst_def)

lemma length_dict_set_le: "length (dict_set k v d) \<le> Suc (length d)"
  by (simp add: dict_simps)

lemma length_dict_del_le: "length (dict_del k d) \<le> length d"
  by (rule length_delete_le)

lemma length_limit_set: "length d \<le> n \<Longrightarrow> length (limit n (dict_set k v d)) \<le> n"
  using length_dict_set_le [of k v d] by (intro length_limit) simp

lemma nth_update_same: "f y = f (xs ! q) \<Longrightarrow> f (xs[q := y] ! p) = f (xs ! p)"
  by (cases "q < length xs"; cases "p = q") (simp_all add: list_update_beyond)

text \<open>What an operation on the caches and services leaves alone.\<close>

definition same_peers :: "network \<Rightarrow> network \<Rightarrow> bool" where
  "same_peers net net' \<longleftrightarrow> verified_peers net' = verified_peers net \<and> verified_by_key net' = verified_by_key net \<and>
     length (peer_objects net') = length (peer_objects net) \<and>
     (\<forall>p < length (peer_objects net). key_of net' p = key_of net p) \<and>
     notified net' = notified net \<and> peer_observers net' = peer_observers net"

definition caches_bounded :: "network \<Rightarrow> bool" where
  "caches_bounded net \<longleftrightarrow> length (reverse_ip_lookup net) \<le> reverse_ip_cache_size net \<and>
     length (reverse_intro_lookup net) \<le> reverse_intro_cache_size net \<and>
     length (reverse_service_lookup net) \<le> reverse_service_cache_size net"

text \<open>
  The verified peers have distinct keys, each of them is what the index holds under its key, and
  the index holds every peer under its own key.
\<close>

definition index_ok :: "(pid \<Rightarrow> bytes) \<Rightarrow> nat \<Rightarrow> pid list \<Rightarrow> (bytes, pid) dict \<Rightarrow> bool" where
  "index_ok key n vs idx \<longleftrightarrow> distinct (map key vs) \<and>
     (\<forall>p \<in> set vs. p < n \<and> dict_get idx (key p) = Some p) \<and>
     (\<forall>k p. dict_get idx k = Some p \<longrightarrow> p < n \<and> key p = k)"

lemma index_okD:
  assumes "index_ok key n vs idx"
  shows "distinct (map key vs)" "p \<in> set vs \<Longrightarrow> p < n" "p \<in> set vs \<Longrightarrow> dict_get idx (key p) = Some p"
    "dict_get idx k = Some p \<Longrightarrow> p < n" "dict_get idx k = Some p \<Longrightarrow> key p = k"
  using assms unfolding index_ok_def by blast+

lemma index_okI:
  assumes "distinct (map key vs)" "\<And>p. p \<in> set vs \<Longrightarrow> p < n" "\<And>p. p \<in> set vs \<Longrightarrow> dict_get idx (key p) = Some p"
    "\<And>k p. dict_get idx k = Some p \<Longrightarrow> p < n" "\<And>k p. dict_get idx k = Some p \<Longrightarrow> key p = k"
  shows "index_ok key n vs idx"
  using assms unfolding index_ok_def by blast

lemma index_ok_fresh:
  assumes "index_ok key n vs idx" "dict_get idx (key p) = None"
  shows "key p \<notin> key ` set vs"
  using index_okD(3) [OF assms(1)] assms(2) by (metis imageE option.distinct(1))

lemma index_ok_add:
  assumes "index_ok key n vs idx" "p < n" "dict_get idx (key p) = None"
  shows "index_ok key n (vs @ [p]) (dict_set (key p) p idx)"
proof (rule index_okI)
  note f = index_ok_fresh [OF assms(1,3)]
  show "distinct (map key (vs @ [p]))" using index_okD(1) [OF assms(1)] f by simp
  fix q assume q: "q \<in> set (vs @ [p])"
  show "q < n" using q assms(2) index_okD(2) [OF assms(1)] by auto
  show "dict_get (dict_set (key p) p idx) (key q) = Some q"
    using q f index_okD(3) [OF assms(1), of q] by (cases "q \<in> set vs") (auto simp: dict_get_set image_iff)
next
  fix k q assume k: "dict_get (dict_set (key p) p idx) k = Some q"
  show "q < n" using k assms(2) index_okD(4) [OF assms(1)] by (simp add: dict_get_set split: if_splits)
  show "key q = k" using k index_okD(5) [OF assms(1)] by (auto simp: dict_get_set split: if_splits)
qed

lemma index_ok_filter: "index_ok key n vs idx \<Longrightarrow> index_ok key n (filter P vs) idx"
  by (rule index_okI) (auto intro: distinct_map_filter dest: index_okD)

lemma index_ok_remove:
  assumes "index_ok key n vs idx"
  shows "index_ok key n (filter (\<lambda>q. key q \<noteq> k) vs) (dict_del k idx)"
proof (rule index_okI)
  fix p assume p: "p \<in> set (filter (\<lambda>q. key q \<noteq> k) vs)"
  show "p < n" using p index_okD(2) [OF assms] by simp
  show "dict_get (dict_del k idx) (key p) = Some p" using p index_okD(3) [OF assms, of p] by (simp add: dict_get_del)
next
  fix l p assume p: "dict_get (dict_del k idx) l = Some p"
  show "p < n" "key p = l" using p index_okD(4,5) [OF assms] by (auto simp: dict_get_del split: if_splits)
qed (simp add: distinct_map_filter index_okD(1) [OF assms])

lemma index_ok_cong:
  assumes k: "\<forall>p < n. key' p = key p" and n: "n \<le> n'" and ok: "index_ok key n vs idx"
  shows "index_ok key' n' vs idx"
proof (rule index_okI)
  have "map key' vs = map key vs" using k index_okD(2) [OF ok] by (intro map_cong) auto
  then show "distinct (map key' vs)" using index_okD(1) [OF ok] by metis
  fix p assume p: "p \<in> set vs"
  have "p < n" using p index_okD(2) [OF ok] by simp
  with k n index_okD(3) [OF ok p] show "p < n'" "dict_get idx (key' p) = Some p" by simp_all
next
  fix l p assume p: "dict_get idx l = Some p"
  have "p < n" "key p = l" using index_okD(4,5) [OF ok p] by simp_all
  with k n show "p < n'" "key' p = l" by simp_all
qed

definition indexed :: "network \<Rightarrow> bool" where
  "indexed net \<longleftrightarrow> index_ok (key_of net) (length (peer_objects net)) (verified_peers net) (verified_by_key net)"

lemma indexed_same_peers: "same_peers net net' \<Longrightarrow> indexed net \<Longrightarrow> indexed net'"
  using index_ok_cong [of "length (peer_objects net)" "key_of net'" "key_of net"] by (simp add: indexed_def same_peers_def)

lemma same_peers_refl [simp]: "same_peers net net"
  by (simp add: same_peers_def)

lemma same_peers_trans: "same_peers a b \<Longrightarrow> same_peers b c \<Longrightarrow> same_peers a c"
  by (auto simp: same_peers_def)

lemma key_of_simps [simp]:
  "key_of (net\<lparr>all_addresses := d\<rparr>) = key_of net"
  "key_of (net\<lparr>verified_peers := ps\<rparr>) = key_of net"
  "key_of (net\<lparr>verified_by_key := vb\<rparr>) = key_of net"
  "key_of (net\<lparr>services_per_peer := sp\<rparr>) = key_of net"
  "key_of (net\<lparr>reverse_ip_lookup := ri\<rparr>) = key_of net"
  "key_of (net\<lparr>reverse_intro_lookup := rn\<rparr>) = key_of net"
  "key_of (net\<lparr>reverse_service_lookup := rs\<rparr>) = key_of net"
  "key_of (net\<lparr>notified := no\<rparr>) = key_of net"
  "key_of (net\<lparr>service_overlays := so\<rparr>) = key_of net"
  "key_of (net\<lparr>peer_observers := po\<rparr>) = key_of net"
  by (simp_all add: key_of_def fun_eq_iff)

lemma notify_simps [simp]:
  "key_of (notify_added p net) = key_of net" "key_of (notify_removed p net) = key_of net"
  by (simp_all add: notify_added_def notify_removed_def)

lemma refresh_service_same: "same_peers net (refresh_service p s net)"
  by (simp add: refresh_service_def same_peers_def Let_def split: option.split)

lemma fold_same_peers: "(\<And>x net. same_peers net (f x net)) \<Longrightarrow> same_peers net (fold f xs net)"
  by (induction xs arbitrary: net) (auto intro: same_peers_trans)

lemma discover_services_same: "same_peers net (discover_services p ss net)"
  unfolding discover_services_def Let_def
  by (rule same_peers_trans [OF _ fold_same_peers [OF refresh_service_same]]) (simp add: same_peers_def)

lemma get_peers_for_service_same: "same_peers net (snd (get_peers_for_service s net))"
  by (simp add: get_peers_for_service_def same_peers_def Let_def)

lemma address_services_same: "same_peers net (snd (address_services w net))"
  by (simp add: address_services_def same_peers_def Let_def split: option.split)

text \<open>The state after the loop over the addresses.\<close>

definition visit :: "bool \<Rightarrow> addr \<Rightarrow> network \<Rightarrow> network" where
  "visit old a net =
     (case dict_get (all_addresses net) a of
        None \<Rightarrow> net | Some w \<Rightarrow> if old \<and> new_style w then net else snd (address_services w net))"

lemma snd_with_service: "snd (with_service s old as net) = fold (visit old) as net"
proof (induction as arbitrary: net)
  case (Cons a as)
  then show ?case
    by (cases "dict_get (all_addresses net) a"; cases "old \<and> new_style (the (dict_get (all_addresses net) a))")
      (auto simp: visit_def Let_def case_prod_beta)
qed simp

lemma visit_same: "same_peers net (visit old a net)"
  by (simp add: visit_def address_services_same split: option.split)

lemma get_walkable_addresses_same: "same_peers net (snd (get_walkable_addresses service old net))"
  by (auto simp: get_walkable_addresses_def Let_def case_prod_beta snd_with_service split: option.split
      intro: get_peers_for_service_same same_peers_trans [OF get_peers_for_service_same fold_same_peers [OF visit_same]])

lemma get_verified_by_address_same: "same_peers net (snd (get_verified_by_address a net))"
  by (simp add: get_verified_by_address_def same_peers_def Let_def split: option.split list.split)

lemma get_introductions_from_same: "same_peers net (snd (get_introductions_from p net))"
  by (simp add: get_introductions_from_def same_peers_def Let_def split: option.split)

lemma get_address_key [simp]: "public_key_bin (fst (get_address p)) = public_key_bin p"
  by (simp add: get_address_def update_preferred_address_def Let_def)

lemma snapshot_peers_same:
  "same_peers net (snd (snapshot_peers ps net))"
proof (induction ps arbitrary: net)
  case (Cons p ps)
  define net' where "net' = net\<lparr>peer_objects := (peer_objects net)[p := fst (get_address (peer_objects net ! p))]\<rparr>"
  have "same_peers net net'"
    by (auto simp: net'_def same_peers_def key_of_def intro!: nth_update_same)
  then have "same_peers net (snd (snapshot_peers ps net'))" using Cons [of net'] by (rule same_peers_trans)
  with \<open>same_peers net net'\<close> show ?case
    by (auto simp: Let_def case_prod_beta simp flip: net'_def split: sum.split prod.split dest: arg_cong [of _ _ snd])
qed simp

lemma load_snapshot_same: "same_peers net (load_snapshot b net)"
  by (simp add: load_snapshot_def same_peers_def)

section \<open>The index of verified peers\<close>

lemma indexed_verify_peer:
  assumes "indexed net" "p < length (peer_objects net)" "dict_get (verified_by_key net) (key_of net p) = None"
  shows "indexed (verify_peer p net)"
  using index_ok_add [OF assms [unfolded indexed_def]] assms(1)
  by (simp add: verify_peer_def indexed_def) (simp add: notify_added_def)

lemma indexed_all_addresses [simp]: "indexed (net\<lparr>all_addresses := d\<rparr>) = indexed net"
  by (simp add: indexed_def)

lemma key_of_update_addresses:
  "key_of (net\<lparr>peer_objects := (peer_objects net)[q := (peer_objects net ! q)\<lparr>addresses := d\<rparr>]\<rparr>) p = key_of net p"
  by (auto simp: key_of_def intro: nth_update_same)

lemma update_addresses_same:
  "same_peers net (net\<lparr>peer_objects := (peer_objects net)[q := (peer_objects net ! q)\<lparr>addresses := d\<rparr>]\<rparr>)"
  by (simp add: same_peers_def key_of_update_addresses)

lemma indexed_add_verified_peer:
  assumes "indexed net" "p < length (peer_objects net)"
  shows "indexed (add_verified_peer p net)"
  using assms unfolding add_verified_peer_def
  by (auto intro!: indexed_verify_peer indexed_same_peers [OF update_addresses_same] split: option.split)

lemma discover_address_split:
  obtains net' where "discover_address p a service style net = add_verified_peer p net'"
    "same_peers net net'" "peer_objects net' = peer_objects net"
proof (cases "a \<in> set (blacklist net)")
  case True
  then show ?thesis using that [of net] by (simp add: discover_address_def)
next
  case False
  then show ?thesis by (intro that) (simp add: discover_address_def, auto simp: same_peers_def)
qed

lemma indexed_discover_address:
  assumes "indexed net" "p < length (peer_objects net)"
  shows "indexed (discover_address p a service style net)"
proof -
  obtain net' where n: "discover_address p a service style net = add_verified_peer p net'"
    "same_peers net net'" "peer_objects net' = peer_objects net" by (rule discover_address_split)
  show ?thesis unfolding n(1)
    using indexed_same_peers [OF n(2) assms(1)] assms(2) n(3) by (intro indexed_add_verified_peer) simp_all
qed

lemma distinct_map_filter': "distinct (map f xs) \<Longrightarrow> distinct (map f (filter P xs))"
  by (rule distinct_map_filter)

lemma remove_eq_distinct:
  assumes "distinct (map (key_of net) ps)"
  shows "remove_eq net p ps = filter (\<lambda>q. key_of net q \<noteq> key_of net p) ps"
  using assms
proof (induction ps)
  case (Cons q ps)
  show ?case
  proof (cases "key_of net q = key_of net p")
    case True
    with Cons.prems have "filter (\<lambda>q. key_of net q \<noteq> key_of net p) ps = ps"
      by (auto simp: filter_id_conv image_iff)
    with True show ?thesis by (simp add: remove_eq_def)
  next
    case False
    have "distinct (map (key_of net) ps)" using Cons.prems by simp
    have e: "dropWhile (\<lambda>q. key_of net q \<noteq> key_of net p) ps = [] \<longleftrightarrow> (\<forall>x \<in> set ps. key_of net x \<noteq> key_of net p)"
      by (simp add: dropWhile_eq_Nil_conv)
    show ?thesis
    proof (cases "dropWhile (\<lambda>q. key_of net q \<noteq> key_of net p) ps")
      case Nil
      have "filter (\<lambda>q. key_of net q \<noteq> key_of net p) (q # ps) = q # ps"
        using e Nil False by (simp add: filter_id_conv)
      moreover have "remove_eq net p (q # ps) = q # ps" using Nil False by (simp add: remove_eq_def del: dropWhile_eq_Nil_conv)
      ultimately show ?thesis by metis
    next
      case (Cons r rest)
      with \<open>distinct (map (key_of net) ps)\<close> Cons.IH False show ?thesis by (simp add: remove_eq_def)
    qed
  qed
qed (simp add: remove_eq_def)

lemma remove_peer_fields:
  assumes "indexed net"
  shows "verified_peers (remove_peer p net) = filter (\<lambda>q. key_of net q \<noteq> key_of net p) (verified_peers net)"
    "verified_by_key (remove_peer p net) = dict_del (key_of net p) (verified_by_key net)"
    "peer_objects (remove_peer p net) = peer_objects net"
    "key_of (remove_peer p net) = key_of net"
proof -
  have d: "distinct (map (key_of net) (verified_peers net))" using assms by (simp add: indexed_def index_ok_def)
  have "\<not> peer_in net p (verified_peers net) \<Longrightarrow> filter (\<lambda>q. key_of net q \<noteq> key_of net p) (verified_peers net) = verified_peers net"
    by (auto simp: peer_in_def filter_id_conv image_iff)
  then show "verified_peers (remove_peer p net) = filter (\<lambda>q. key_of net q \<noteq> key_of net p) (verified_peers net)"
    by (simp add: remove_peer_def Let_def remove_eq_distinct d) (auto simp: notify_removed_def peer_in_def)
qed (simp_all add: remove_peer_def Let_def notify_removed_def key_of_def fun_eq_iff)

lemma indexed_remove_peer:
  assumes "indexed net" shows "indexed (remove_peer p net)"
  using index_ok_remove [OF assms [unfolded indexed_def]] by (simp add: indexed_def remove_peer_fields [OF assms])

lemma fold_notify_removed: "fold notify_removed ps net = net\<lparr>notified := notified (fold notify_removed ps net)\<rparr>"
  by (induction ps arbitrary: net) (simp, metis (no_types, lifting) fold_simps(2) network.surjective network.update_convs(16) notify_removed_def)

lemma remove_by_address_fields:
  "verified_peers (remove_by_address a net) = filter (\<lambda>p. a \<notin> set (addrs_of net p)) (verified_peers net)"
  "verified_by_key (remove_by_address a net) = verified_by_key net"
  "peer_objects (remove_by_address a net) = peer_objects net"
  "key_of (remove_by_address a net) = key_of net"
  "all_addresses (remove_by_address a net) = dict_del a (all_addresses net)"
  by (subst remove_by_address_def, simp add: Let_def key_of_def fun_eq_iff, subst fold_notify_removed, simp)+

lemma indexed_remove_by_address:
  assumes "indexed net" shows "indexed (remove_by_address a net)"
  using assms by (simp add: indexed_def remove_by_address_fields index_ok_filter)

section \<open>The caches are bounded\<close>

lemma caches_bounded_simps [simp]:
  "caches_bounded (net\<lparr>all_addresses := d\<rparr>) = caches_bounded net"
  "caches_bounded (net\<lparr>services_per_peer := sp\<rparr>) = caches_bounded net"
  "caches_bounded (net\<lparr>verified_peers := vs\<rparr>) = caches_bounded net"
  "caches_bounded (net\<lparr>verified_by_key := vb\<rparr>) = caches_bounded net"
  "caches_bounded (net\<lparr>peer_objects := ps\<rparr>) = caches_bounded net"
  "caches_bounded (notify_added p net) = caches_bounded net"
  "caches_bounded (notify_removed p net) = caches_bounded net"
  by (simp_all add: caches_bounded_def notify_added_def notify_removed_def)

lemma caches_bounded_fold:
  "(\<And>x net. caches_bounded net \<Longrightarrow> caches_bounded (f x net)) \<Longrightarrow> caches_bounded net \<Longrightarrow> caches_bounded (fold f xs net)"
  by (induction xs arbitrary: net) auto

lemma caches_bounded_add_verified_peer: "caches_bounded net \<Longrightarrow> caches_bounded (add_verified_peer p net)"
  by (simp add: add_verified_peer_def verify_peer_def split: option.split)

lemma caches_bounded_discover_address:
  assumes "caches_bounded net" shows "caches_bounded (discover_address p a service style net)"
proof -
  have "length (dict_set k ((x # xs) @ [a]) d) = length d" if "dict_get d k = Some (x # xs)" for k x xs and d :: "(bytes, addr list) dict"
    using that by (simp add: length_dict_set)
  then show ?thesis using assms
    by (auto simp: discover_address_def caches_bounded_def [of "_ \<lparr>all_addresses := _\<rparr>"] length_limit_set caches_bounded_def [of net]
        intro!: caches_bounded_add_verified_peer split: option.split list.split)
      (auto simp: caches_bounded_def length_limit_set)
qed

lemma caches_bounded_discover_services:
  assumes "caches_bounded net" shows "caches_bounded (discover_services p ss net)"
  unfolding discover_services_def Let_def
proof (rule caches_bounded_fold)
  fix s net assume "caches_bounded net"
  then show "caches_bounded (refresh_service p s net)"
    by (simp add: refresh_service_def caches_bounded_def length_limit_set Let_def split: option.split)
qed (simp add: assms)

lemma length_refreshed:
  assumes "length d \<le> n" shows "length (limit n (dict_set k v (dict_del k d))) \<le> n"
  using length_dict_del_le [of k d] assms by (intro length_limit_set) simp

lemma caches_bounded_get_peers_for_service: "caches_bounded net \<Longrightarrow> caches_bounded (snd (get_peers_for_service s net))"
  by (simp add: get_peers_for_service_def caches_bounded_def length_refreshed Let_def)

lemma caches_bounded_visit: "caches_bounded net \<Longrightarrow> caches_bounded (visit old a net)"
  by (simp add: visit_def address_services_def Let_def split: option.split)

lemma caches_bounded_get_walkable_addresses:
  assumes "caches_bounded net" shows "caches_bounded (snd (get_walkable_addresses service old net))"
  using assms caches_bounded_fold [OF caches_bounded_visit caches_bounded_get_peers_for_service]
  by (auto simp: get_walkable_addresses_def Let_def case_prod_beta snd_with_service split: option.split)

lemma caches_bounded_get_verified_by_address:
  assumes "caches_bounded net" shows "caches_bounded (snd (get_verified_by_address a net))"
  using assms length_dict_del_le [of a "reverse_ip_lookup net"] le_trans [OF length_dict_del_le]
  by (auto simp: get_verified_by_address_def caches_bounded_def length_refreshed Let_def split: option.split list.split)

lemma caches_bounded_get_introductions_from:
  "caches_bounded net \<Longrightarrow> caches_bounded (snd (get_introductions_from p net))"
  by (simp add: get_introductions_from_def caches_bounded_def length_limit_set Let_def split: option.split)

lemma caches_bounded_remove_peer: "caches_bounded net \<Longrightarrow> caches_bounded (remove_peer p net)"
  by (simp add: remove_peer_def Let_def)

lemma caches_bounded_remove_by_address: "caches_bounded net \<Longrightarrow> caches_bounded (remove_by_address a net)"
  by (simp add: remove_by_address_def Let_def caches_bounded_fold)

lemma caches_bounded_snapshot_peers: "caches_bounded net \<Longrightarrow> caches_bounded (snd (snapshot_peers ps net))"
proof (induction ps arbitrary: net)
  case (Cons p ps)
  define net' where "net' = net\<lparr>peer_objects := (peer_objects net)[p := fst (get_address (peer_objects net ! p))]\<rparr>"
  have "caches_bounded net'" using Cons.prems by (simp add: net'_def)
  with Cons.IH [of net'] show ?case
    by (auto simp: Let_def case_prod_beta simp flip: net'_def split: sum.split prod.split dest: arg_cong [of _ _ snd])
qed simp

section \<open>Runs\<close>

datatype net_op =
    NewPeer peer
  | DiscoverAddress pid addr "bytes option" bool
  | DiscoverServices pid "bytes list"
  | AddVerifiedPeer pid
  | RemovePeer pid
  | RemoveByAddress addr
  | GetPeersForService bytes
  | GetWalkableAddresses "bytes option" bool
  | GetVerifiedByAddress addr
  | GetIntroductionsFrom pid
  | Snapshot
  | LoadSnapshot bytes

fun net_do :: "net_op \<Rightarrow> network \<Rightarrow> network" where
  "net_do (NewPeer p) net = snd (new_object p net)"
| "net_do (DiscoverAddress p a s style) net = discover_address p a s style net"
| "net_do (DiscoverServices p ss) net = discover_services p ss net"
| "net_do (AddVerifiedPeer p) net = add_verified_peer p net"
| "net_do (RemovePeer p) net = remove_peer p net"
| "net_do (RemoveByAddress a) net = remove_by_address a net"
| "net_do (GetPeersForService s) net = snd (get_peers_for_service s net)"
| "net_do (GetWalkableAddresses s old) net = snd (get_walkable_addresses s old net)"
| "net_do (GetVerifiedByAddress a) net = snd (get_verified_by_address a net)"
| "net_do (GetIntroductionsFrom p) net = snd (get_introductions_from p net)"
| "net_do Snapshot net = snd (snapshot net)"
| "net_do (LoadSnapshot b) net = load_snapshot b net"

text \<open>Operations take peers that exist.\<close>

fun op_ok :: "net_op \<Rightarrow> network \<Rightarrow> bool" where
  "op_ok (DiscoverAddress p a s style) net \<longleftrightarrow> p < length (peer_objects net)"
| "op_ok (DiscoverServices p ss) net \<longleftrightarrow> p < length (peer_objects net)"
| "op_ok (AddVerifiedPeer p) net \<longleftrightarrow> p < length (peer_objects net)"
| "op_ok (RemovePeer p) net \<longleftrightarrow> p < length (peer_objects net)"
| "op_ok (GetIntroductionsFrom p) net \<longleftrightarrow> p < length (peer_objects net)"
| "op_ok _ net \<longleftrightarrow> True"

fun net_run :: "net_op list \<Rightarrow> network \<Rightarrow> network option" where
  "net_run [] net = Some net"
| "net_run (op # ops) net = (if op_ok op net then net_run ops (net_do op net) else None)"

lemma indexed_new_object: "indexed net \<Longrightarrow> indexed (snd (new_object p net))"
  unfolding indexed_def new_object_def
  by (rule index_ok_cong [of "length (peer_objects net)" _ "key_of net"]) (auto simp: key_of_def nth_append)

lemma indexed_net_do:
  assumes "indexed net" "op_ok op net" shows "indexed (net_do op net)"
proof (cases op)
  case (NewPeer p) then show ?thesis using assms by (simp add: indexed_new_object)
next
  case (DiscoverAddress p a s style) then show ?thesis using assms by (simp add: indexed_discover_address)
next
  case (DiscoverServices p ss)
  then show ?thesis using indexed_same_peers [OF discover_services_same assms(1)] by simp
next
  case (AddVerifiedPeer p) then show ?thesis using assms by (simp add: indexed_add_verified_peer)
next
  case (RemovePeer p) then show ?thesis using assms by (simp add: indexed_remove_peer)
next
  case (RemoveByAddress a) then show ?thesis using assms by (simp add: indexed_remove_by_address)
next
  case (GetPeersForService s)
  then show ?thesis using indexed_same_peers [OF get_peers_for_service_same assms(1)] by simp
next
  case (GetWalkableAddresses s old)
  then show ?thesis using indexed_same_peers [OF get_walkable_addresses_same assms(1)] by simp
next
  case (GetVerifiedByAddress a)
  then show ?thesis using indexed_same_peers [OF get_verified_by_address_same assms(1)] by simp
next
  case (GetIntroductionsFrom p)
  then show ?thesis using indexed_same_peers [OF get_introductions_from_same assms(1)] by simp
next
  case Snapshot
  then show ?thesis using indexed_same_peers [OF snapshot_peers_same assms(1)] by (simp add: snapshot_def)
next
  case (LoadSnapshot b)
  then show ?thesis using indexed_same_peers [OF load_snapshot_same assms(1)] by simp
qed

lemmas caches_bounded_intros = caches_bounded_discover_address caches_bounded_discover_services
  caches_bounded_add_verified_peer caches_bounded_remove_peer caches_bounded_remove_by_address
  caches_bounded_get_peers_for_service caches_bounded_get_walkable_addresses caches_bounded_get_verified_by_address
  caches_bounded_get_introductions_from caches_bounded_snapshot_peers

lemma caches_bounded_net_do: "caches_bounded net \<Longrightarrow> caches_bounded (net_do op net)"
  by (cases op) (simp_all add: caches_bounded_intros new_object_def snapshot_def load_snapshot_def)

lemma net_run_ok:
  "net_run ops net = Some net' \<Longrightarrow> indexed net \<Longrightarrow> caches_bounded net \<Longrightarrow> indexed net' \<and> caches_bounded net'"
  by (induction ops arbitrary: net) (auto split: if_splits simp: indexed_net_do caches_bounded_net_do)

lemma new_network_ok: "indexed new_network" "caches_bounded new_network"
  by (simp_all add: new_network_def indexed_def caches_bounded_def index_ok_def)

section \<open>Keys of peers never change\<close>

definition keeps_keys :: "network \<Rightarrow> network \<Rightarrow> bool" where
  "keeps_keys net net' \<longleftrightarrow> length (peer_objects net) \<le> length (peer_objects net') \<and>
     (\<forall>p < length (peer_objects net). key_of net' p = key_of net p)"

lemma keeps_keys_same: "same_peers net net' \<Longrightarrow> keeps_keys net net'"
  by (simp add: same_peers_def keeps_keys_def)

lemma keeps_keys_trans: "keeps_keys a b \<Longrightarrow> keeps_keys b c \<Longrightarrow> keeps_keys a c"
  by (simp add: keeps_keys_def)

lemma keeps_keys_objects: "peer_objects net' = peer_objects net \<Longrightarrow> keeps_keys net net'"
  by (simp add: keeps_keys_def key_of_def)

lemma verify_peer_objects: "peer_objects (verify_peer p net) = peer_objects net"
  by (simp add: verify_peer_def notify_added_def)

lemma keeps_keys_add_verified_peer: "keeps_keys net (add_verified_peer p net)"
  by (auto simp: add_verified_peer_def keeps_keys_same keeps_keys_objects verify_peer_objects
      intro: keeps_keys_same update_addresses_same split: option.split)

lemma keeps_keys_net_do:
  "keeps_keys net (net_do op net)"
proof (cases op)
  case (NewPeer p) then show ?thesis by (simp add: new_object_def keeps_keys_def key_of_def nth_append)
next
  case (DiscoverAddress p a s style)
  obtain net' where n: "discover_address p a s style net = add_verified_peer p net'" "same_peers net net'"
    by (rule discover_address_split)
  then show ?thesis using DiscoverAddress
    by (simp add: keeps_keys_trans [OF keeps_keys_same [OF n(2)] keeps_keys_add_verified_peer])
next
  case (RemovePeer p)
  have "peer_objects (remove_peer p net) = peer_objects net" by (simp add: remove_peer_def Let_def notify_removed_def)
  then show ?thesis using RemovePeer by (simp add: keeps_keys_objects)
qed (simp_all add: keeps_keys_same discover_services_same keeps_keys_add_verified_peer keeps_keys_objects
    remove_by_address_fields get_peers_for_service_same get_walkable_addresses_same get_verified_by_address_same
    get_introductions_from_same snapshot_peers_same snapshot_def load_snapshot_same)

lemma keeps_keys_run: "net_run ops net = Some net' \<Longrightarrow> keeps_keys net net'"
proof (induction ops arbitrary: net)
  case (Cons op ops)
  then have "keeps_keys (net_do op net) net'" by (auto split: if_splits)
  with keeps_keys_net_do show ?case by (rule keeps_keys_trans)
qed (simp add: keeps_keys_def)

section \<open>A peer removed by its address\<close>

definition lost :: "bytes \<Rightarrow> pid \<Rightarrow> network \<Rightarrow> bool" where
  "lost k p net \<longleftrightarrow> dict_get (verified_by_key net) k = Some p \<and> k \<notin> key_of net ` set (verified_peers net)"

lemma index_ok_inj:
  assumes "index_ok key n vs idx" "q \<in> set vs" "p \<in> set vs" "key q = key p"
  shows "q = p"
proof -
  have "Some q = dict_get idx (key q)" using index_okD(3) [OF assms(1,2)] by (rule sym)
  also have "\<dots> = Some p" unfolding assms(4) by (rule index_okD(3) [OF assms(1,3)])
  finally show ?thesis by (rule option.inject [THEN iffD1])
qed

lemma lost_same_peers: "same_peers net net' \<Longrightarrow> indexed net \<Longrightarrow> lost k p net \<Longrightarrow> lost k p net'"
proof -
  assume same: "same_peers net net'" and i: "indexed net" and l: "lost k p net"
  have "key_of net' q = key_of net q" if "q \<in> set (verified_peers net)" for q
    using index_okD(2) [OF i [unfolded indexed_def] that] same by (simp add: same_peers_def)
  then have "key_of net' ` set (verified_peers net) = key_of net ` set (verified_peers net)" by (rule image_cong [OF refl])
  with l same show "lost k p net'" by (simp add: lost_def same_peers_def)
qed

lemma lost_add_verified_peer:
  assumes "lost k p net" "indexed net" shows "lost k p (add_verified_peer q net)"
proof -
  have v: "lost k p (verify_peer q net')" if "verified_by_key net' = verified_by_key net" "verified_peers net' = verified_peers net"
    "key_of net' = key_of net" "dict_get (verified_by_key net) (key_of net q) = None" for net'
    using assms that by (auto simp: lost_def verify_peer_def notify_added_def key_of_def fun_eq_iff dict_get_set)
  show ?thesis
    using assms by (auto simp: add_verified_peer_def v intro: lost_same_peers [OF update_addresses_same] split: option.split)
qed

lemma lost_net_do:
  assumes "lost k p net" "indexed net" "op_ok op net" "\<And>q. op = RemovePeer q \<Longrightarrow> key_of net q \<noteq> k"
  shows "lost k p (net_do op net)"
proof (cases op)
  case (NewPeer r)
  have "key_of (snd (new_object r net)) q = key_of net q" if "q \<in> set (verified_peers net)" for q
    using index_okD(2) [OF assms(2) [unfolded indexed_def] that] by (simp add: new_object_def key_of_def nth_append)
  then show ?thesis using NewPeer assms(1) by (auto simp: lost_def) (auto simp: new_object_def)
next
  case (DiscoverAddress r a s style)
  obtain net' where n: "discover_address r a s style net = add_verified_peer r net'" "same_peers net net'"
    by (rule discover_address_split)
  show ?thesis using DiscoverAddress n(1)
      lost_add_verified_peer [OF lost_same_peers [OF n(2) assms(2,1)] indexed_same_peers [OF n(2) assms(2)]] by simp
next
  case (RemovePeer q)
  then show ?thesis using assms(1) assms(4) [OF RemovePeer]
    by (auto simp: lost_def remove_peer_fields [OF assms(2)] dict_get_del)
next
  case (RemoveByAddress a)
  then show ?thesis using assms(1) by (auto simp: lost_def remove_by_address_fields)
qed (use assms(1,2) in \<open>auto simp: lost_add_verified_peer snapshot_def intro: lost_same_peers discover_services_same
    get_peers_for_service_same get_walkable_addresses_same get_verified_by_address_same
    get_introductions_from_same snapshot_peers_same load_snapshot_same\<close>)

lemma lost_run:
  assumes "net_run ops net = Some net'" "lost k p net" "indexed net"
    "\<And>q. RemovePeer q \<in> set ops \<Longrightarrow> key_of net' q \<noteq> k"
  shows "lost k p net'"
  using assms
proof (induction ops arbitrary: net)
  case (Cons op ops)
  have ok: "op_ok op net" and run: "net_run ops (net_do op net) = Some net'"
    using Cons.prems(1) by (auto split: if_splits)
  have "key_of net q \<noteq> k" if "op = RemovePeer q" for q
  proof -
    have "q < length (peer_objects net)" using ok that by simp
    moreover have "keeps_keys net net'" using Cons.prems(1) by (rule keeps_keys_run)
    ultimately show ?thesis using Cons.prems(4) [of q] that by (simp add: keeps_keys_def)
  qed
  then have "lost k p (net_do op net)" using lost_net_do [OF Cons.prems(2,3) ok] by blast
  then show ?case using Cons.IH [OF run _ indexed_net_do [OF Cons.prems(3) ok]] Cons.prems(4) by simp
qed simp


text \<open>A verified peer that is removed because of one of its addresses keeps its entry in the index of keys.
  Whatever happens then, unless that very key is removed with \<^verbatim>\<open>remove_peer\<close>, no peer with its key is verified again.\<close>

theorem peer_removed_by_address_is_lost:
  assumes "net_run before new_network = Some net" "p \<in> set (verified_peers net)" "a \<in> set (addrs_of net p)"
    and "net_run later (remove_by_address a net) = Some net'"
    and "\<forall>q. RemovePeer q \<in> set later \<longrightarrow> key_of net' q \<noteq> key_of net p"
  shows "key_of net p \<notin> set (map (key_of net') (verified_peers net')) \<and>
    get_verified_by_public_key_bin (key_of net p) net' = Some p"
proof -
  have i: "indexed net" using net_run_ok [OF assms(1) new_network_ok] by simp
  note ok = i [unfolded indexed_def]
  have "lost (key_of net p) p (remove_by_address a net)"
    using assms(3) index_okD(3) [OF ok assms(2)] index_ok_inj [OF ok _ assms(2)]
    by (auto simp: lost_def remove_by_address_fields)
  from lost_run [OF assms(4) this indexed_remove_by_address [OF i]] assms(5)
  show ?thesis by (simp add: lost_def get_verified_by_public_key_bin_def)
qed

section \<open>Walking\<close>

definition services_at :: "network \<Rightarrow> bytes \<Rightarrow> bytes set" where
  "services_at net k = (case dict_get (services_per_peer net) k of None \<Rightarrow> {} | Some x \<Rightarrow> set x)"

lemma set_set_union [simp]: "set (set_union xs ys) = set xs \<union> set ys"
  by (auto simp: set_union_def)

lemma address_services_facts:
  "all_addresses (snd (address_services w net)) = all_addresses net"
  "peer_objects (snd (address_services w net)) = peer_objects net"
  "set (fst (address_services w net)) = services_at net (introduced_by w) \<union> {x. wa_service w = Some x \<and> x \<noteq> []}"
  "services_at net k \<subseteq> services_at (snd (address_services w net)) k"
  "dict_get (services_per_peer net) (introduced_by w) \<noteq> None \<Longrightarrow>
     services_at (snd (address_services w net)) (introduced_by w) = set (fst (address_services w net))"
  "dict_get (services_per_peer net) k \<noteq> None \<Longrightarrow> dict_get (services_per_peer (snd (address_services w net))) k \<noteq> None"
  by (auto simp: address_services_def services_at_def Let_def dict_get_set split: option.splits)

lemma visit_facts:
  "all_addresses (visit old a net) = all_addresses net"
  "peer_objects (visit old a net) = peer_objects net"
  "services_at net k \<subseteq> services_at (visit old a net) k"
  "dict_get (services_per_peer net) k \<noteq> None \<Longrightarrow> dict_get (services_per_peer (visit old a net)) k \<noteq> None"
proof -
  show "dict_get (services_per_peer net) k \<noteq> None \<Longrightarrow> dict_get (services_per_peer (visit old a net)) k \<noteq> None"
    using address_services_facts(6) [of net k] by (cases "dict_get (all_addresses net) a") (simp_all add: visit_def)
qed (simp_all add: visit_def address_services_facts split: option.split)

lemma fold_visit_facts:
  "all_addresses (fold (visit old) as net) = all_addresses net"
  "peer_objects (fold (visit old) as net) = peer_objects net"
  "services_at net k \<subseteq> services_at (fold (visit old) as net) k"
  "dict_get (services_per_peer net) k \<noteq> None \<Longrightarrow> dict_get (services_per_peer (fold (visit old) as net)) k \<noteq> None"
proof (induction as arbitrary: net)
  case (Cons a as)
  { case 1 then show ?case using Cons(1) by (simp add: visit_facts) next
    case 2 then show ?case using Cons(2) by (simp add: visit_facts) next
    case 3 then show ?case using Cons(3) [of "visit old a net"] visit_facts(3) [of net k old a] by auto next
    case 4 then show ?case using Cons(4) [of "visit old a net"] visit_facts(4) [of net k old a] by simp }
qed auto

lemma fst_with_service_Cons:
  "fst (with_service s old (a # as) net) =
     (case dict_get (all_addresses net) a of
        None \<Rightarrow> []
      | Some w \<Rightarrow> if old \<and> new_style w \<or> s \<notin> set (fst (address_services w net)) then [] else [a]) @
     fst (with_service s old as (visit old a net))"
  by (cases "dict_get (all_addresses net) a"; cases "old \<and> new_style (the (dict_get (all_addresses net) a))")
    (auto simp: visit_def Let_def case_prod_beta)

lemma with_service_sound:
  "a \<in> set (fst (with_service s old as net)) \<Longrightarrow>
   a \<in> set as \<and> (\<exists>w. dict_get (all_addresses net) a = Some w \<and> \<not> (old \<and> new_style w) \<and>
      (wa_service w = Some s \<or> s \<in> services_at (snd (with_service s old as net)) (introduced_by w)))"
proof (induction as arbitrary: net)
  case (Cons b as)
  have snd: "snd (with_service s old (b # as) net) = snd (with_service s old as (visit old b net))"
    by (simp add: snd_with_service del: with_service.simps)
  show ?case
  proof (cases "a \<in> set (fst (with_service s old as (visit old b net)))")
    case True
    from Cons.IH [OF True] show ?thesis by (auto simp: snd visit_facts simp del: with_service.simps)
  next
    case False
    with Cons.prems obtain w where w: "a = b" "dict_get (all_addresses net) b = Some w" "\<not> (old \<and> new_style w)"
      "s \<in> set (fst (address_services w net))"
      by (cases "dict_get (all_addresses net) b")
        (auto simp: fst_with_service_Cons simp del: with_service.simps split: if_splits)
    have "services_at net (introduced_by w) \<subseteq> services_at (snd (with_service s old (b # as) net)) (introduced_by w)"
      unfolding snd_with_service by (rule fold_visit_facts)
    with w show ?thesis by (auto simp: address_services_facts simp del: with_service.simps)
  qed
qed simp

lemma with_service_complete:
  assumes "a \<in> set as" "dict_get (all_addresses net) a = Some w" "\<not> (old \<and> new_style w)"
    "(wa_service w = Some s \<and> s \<noteq> []) \<or> s \<in> services_at net (introduced_by w)"
  shows "a \<in> set (fst (with_service s old as net))"
  using assms
proof (induction as arbitrary: net)
  case (Cons b as)
  show ?case
  proof (cases "a = b")
    case True
    then show ?thesis using Cons.prems
      by (auto simp: fst_with_service_Cons address_services_facts simp del: with_service.simps)
  next
    case False
    have "a \<in> set (fst (with_service s old as (visit old b net)))"
      using Cons.prems False by (intro Cons.IH) (auto simp: visit_facts dest: subsetD [OF visit_facts(3)])
    then show ?thesis by (simp add: fst_with_service_Cons del: with_service.simps)
  qed
qed simp

lemma visit_adds_service:
  assumes "a \<in> set as" "dict_get (all_addresses net) a = Some w" "\<not> (old \<and> new_style w)" "wa_service w = Some x" "x \<noteq> []"
    "dict_get (services_per_peer net) (introduced_by w) \<noteq> None"
  shows "x \<in> services_at (fold (visit old) as net) (introduced_by w)"
  using assms
proof (induction as arbitrary: net)
  case (Cons b as)
  show ?case
  proof (cases "a = b")
    case True
    have "x \<in> services_at (visit old a net) (introduced_by w)"
      using Cons.prems(2-) by (auto simp: visit_def address_services_facts)
    with True fold_visit_facts(3) [of "visit old a net" "introduced_by w" old as] show ?thesis by auto
  next
    case False
    then show ?thesis using Cons.prems Cons.IH [of "visit old b net"] by (simp add: visit_facts)
  qed
qed simp

lemma get_peers_for_service_frame:
  "all_addresses (snd (get_peers_for_service s net)) = all_addresses net"
  "services_per_peer (snd (get_peers_for_service s net)) = services_per_peer net"
  "peer_objects (snd (get_peers_for_service s net)) = peer_objects net"
  by (simp_all add: get_peers_for_service_def Let_def)

lemma addrs_of_cong: "peer_objects net' = peer_objects net \<Longrightarrow> addrs_of net' p = addrs_of net p"
  by (simp add: addrs_of_def)

lemma get_walkable_addresses_service:
  assumes "s \<noteq> []"
  shows "get_walkable_addresses (Some s) old net =
    with_service s old
      (filter (\<lambda>a. a \<notin> set (concat (map (addrs_of net) (fst (get_peers_for_service s net))))) (dict_keys (all_addresses net)))
      (snd (get_peers_for_service s net))"
proof -
  have "addrs_of (snd (get_peers_for_service s net)) = addrs_of net"
    by (intro ext addrs_of_cong get_peers_for_service_frame)
  then show ?thesis using assms
    by (simp add: get_walkable_addresses_def Let_def case_prod_beta get_peers_for_service_frame)
qed

text \<open>
  The addresses to walk to for a service: known, of the asked style, not of a provider among the
  verified peers, and discovered through the service or introduced by a provider of it.
\<close>

definition walkable_for :: "bytes \<Rightarrow> bool \<Rightarrow> network \<Rightarrow> (bytes \<Rightarrow> bytes set) \<Rightarrow> addr set" where
  "walkable_for s old net services =
     {a. \<exists>w. dict_get (all_addresses net) a = Some w \<and> \<not> (old \<and> new_style w) \<and>
        (\<forall>p \<in> set (fst (get_peers_for_service s net)). a \<notin> set (addrs_of net p)) \<and>
        (wa_service w = Some s \<or> s \<in> services (introduced_by w))}"

lemma in_dict_keys: "dict_get d a = Some w \<Longrightarrow> a \<in> set (dict_keys d)"
  by (metis map_of_eq_None_iff option.distinct(1) set_map)

lemma walkable_addresses_lower:
  assumes "s \<noteq> []"
  shows "walkable_for s old net (services_at net) \<subseteq> set (fst (get_walkable_addresses (Some s) old net))"
proof
  fix a assume "a \<in> walkable_for s old net (services_at net)"
  then obtain w where w: "dict_get (all_addresses net) a = Some w" "\<not> (old \<and> new_style w)"
    "\<forall>p \<in> set (fst (get_peers_for_service s net)). a \<notin> set (addrs_of net p)"
    "wa_service w = Some s \<or> s \<in> services_at net (introduced_by w)"
    by (auto simp: walkable_for_def)
  show "a \<in> set (fst (get_walkable_addresses (Some s) old net))"
    unfolding get_walkable_addresses_service [OF assms]
    using w in_dict_keys [OF w(1)] assms
    by (intro with_service_complete) (auto simp: get_peers_for_service_frame services_at_def)
qed

lemma walkable_addresses_upper:
  assumes "s \<noteq> []"
  shows "set (fst (get_walkable_addresses (Some s) old net)) \<subseteq>
    walkable_for s old net (services_at (snd (get_walkable_addresses (Some s) old net)))"
  unfolding get_walkable_addresses_service [OF assms]
  using with_service_sound by (fastforce simp: walkable_for_def get_peers_for_service_frame)

text \<open>Without a service the addresses to walk to are the known addresses that no verified peer has, and nothing
  changes. With a service they lie between what the services stored before the call allow and what those stored after it
  allow.\<close>

theorem walkable_addresses_are_unverified:
  assumes "s \<noteq> []"
  shows "set (fst (get_walkable_addresses None old net)) =
      {a. dict_get (all_addresses net) a \<noteq> None \<and> (\<forall>p \<in> set (verified_peers net). a \<notin> set (addrs_of net p))} \<and>
    snd (get_walkable_addresses None old net) = net \<and>
    walkable_for s old net (services_at net) \<subseteq> set (fst (get_walkable_addresses (Some s) old net)) \<and>
    set (fst (get_walkable_addresses (Some s) old net)) \<subseteq>
      walkable_for s old net (services_at (snd (get_walkable_addresses (Some s) old net)))"
proof (intro conjI)
  show "set (fst (get_walkable_addresses None old net)) =
      {a. dict_get (all_addresses net) a \<noteq> None \<and> (\<forall>p \<in> set (verified_peers net). a \<notin> set (addrs_of net p))}"
    by (auto simp: get_walkable_addresses_def Let_def map_of_eq_None_iff)
  show "snd (get_walkable_addresses None old net) = net"
    by (simp add: get_walkable_addresses_def Let_def)
qed (rule walkable_addresses_lower [OF assms] walkable_addresses_upper [OF assms])+

text \<open>Asking for the addresses of one service makes the peer that introduced an unverified address a provider of
  the service through which that address was discovered, although it never advertised it.\<close>

theorem walking_grants_services:
  assumes "s \<noteq> []" "dict_get (all_addresses net) a = Some w" "wa_service w = Some x" "x \<noteq> []"
    and "introduced_by w = key_of net p" "dict_get (services_per_peer net) (key_of net p) \<noteq> None"
    and "\<forall>q \<in> set (fst (get_peers_for_service s net)). a \<notin> set (addrs_of net q)"
  shows "x \<in> set (get_services_for_peer p (snd (get_walkable_addresses (Some s) False net)))"
proof -
  let ?as = "filter (\<lambda>a. a \<notin> set (concat (map (addrs_of net) (fst (get_peers_for_service s net))))) (dict_keys (all_addresses net))"
  let ?net = "fold (visit False) ?as (snd (get_peers_for_service s net))"
  have "a \<in> set (dict_keys (all_addresses net))" using assms(2) by (rule in_dict_keys)
  then have "x \<in> services_at ?net (introduced_by w)"
    using assms by (intro visit_adds_service [of a]) (auto simp: get_peers_for_service_frame)
  moreover have "key_of ?net p = key_of net p"
    by (simp add: key_of_def fold_visit_facts get_peers_for_service_frame)
  ultimately show ?thesis
    by (auto simp: get_walkable_addresses_service [OF assms(1)] snd_with_service get_services_for_peer_def services_at_def
        assms(5) split: option.splits)
qed

section \<open>Snapshots\<close>

lemma unpack_address_progress:
  "unpack_address ip_only data off = Inr (vs, off') \<Longrightarrow> off < off'"
  by (auto simp: unpack_address_def bind_result_eq_Inr split: if_splits prod.splits)

lemma lookup_address: "lookup_packer default_packers ''address'' = return (AddressPacker False)"
  by (simp add: lookup_packer_def default_packers_def)

lemma address_packer:
  "serializer_pack default_packers ''address'' v = pack_address False v"
  "serializer_unpack default_packers (Fmt ''address'') data off =
     bind_result (unpack_address False data off) (\<lambda>(vs, off'). return (hd vs, off'))"
  by (simp_all add: serializer_pack_def serializer_unpack_def lookup_address Let_def pack_item.simps pack_simple_def)

text \<open>So the loop over a snapshot always advances, and never stops because it did not.\<close>

lemma load_loop_step:
  "load_loop b off d =
     (if length b \<le> off then d
      else
        case unpack_address False b off of
          Inl _ \<Rightarrow> d
        | Inr (vs, off') \<Rightarrow> load_loop b off' (dict_set (value_address (hd vs)) unknown_address d))"
  by (subst load_loop.simps) (auto simp: address_packer split: sum.split dest!: unpack_address_progress)

definition add_values :: "pyval list \<Rightarrow> (addr, walkable_address) dict \<Rightarrow> (addr, walkable_address) dict" where
  "add_values vs d = fold (\<lambda>v. dict_set (value_address v) unknown_address) vs d"

lemma load_loop_packed:
  assumes "\<forall>v \<in> set vs. address_ok False v"
  shows "\<exists>bs. map_result (pack_address False) vs = return bs \<and>
    (\<forall>pre d. load_loop (pre @ concat bs) (length pre) d = add_values vs d)"
  using assms
proof (induction vs)
  case Nil
  then show ?case by (simp add: add_values_def load_loop_step)
next
  case (Cons v vs)
  obtain bs where bs: "map_result (pack_address False) vs = return bs"
    "\<And>pre d. load_loop (pre @ concat bs) (length pre) d = add_values vs d" using Cons by auto
  obtain b where b: "pack_address False v = return b"
    "\<And>pre post. unpack_address False (pre @ b @ post) (length pre) = return ([v], length pre + length b)"
    using address_roundtrip [of False v] Cons.prems by auto
  have "0 < length b" using unpack_address_progress [OF b(2) [of "[]" "[]"]] by simp
  then have "load_loop (pre @ concat (b # bs)) (length pre) d = add_values (v # vs) d" for pre d
    using b(2) [of pre "concat bs"] bs(2) [of "pre @ b"]
    by (subst load_loop_step) (simp add: add_values_def)
  with b(1) bs(1) show ?case by simp
qed

text \<open>The addresses that \<open>snapshot\<close> writes.\<close>

definition snapshot_values :: "network \<Rightarrow> pyval list" where
  "snapshot_values net = map address_value
     (filter (\<lambda>a. addr_tuple a \<noteq> (''0.0.0.0'', 0)) (map (\<lambda>p. snd (get_address (peer_objects net ! p))) (verified_peers net)))"

lemma get_address_twice [simp]: "snd (get_address (fst (get_address p))) = snd (get_address p)"
  by (simp add: get_address_def update_preferred_address_def Let_def)

lemma snapshot_peers_packed:
  assumes "map_result (pack_address False)
     (map address_value (filter (\<lambda>a. addr_tuple a \<noteq> (''0.0.0.0'', 0)) (map (\<lambda>p. snd (get_address (peer_objects net ! p))) ps))) = return bs"
  shows "fst (snapshot_peers ps net) = return (concat bs)"
  using assms
proof (induction ps arbitrary: net bs)
  case (Cons p ps)
  define net' where "net' = net\<lparr>peer_objects := (peer_objects net)[p := fst (get_address (peer_objects net ! p))]\<rparr>"
  have same: "snd (get_address (peer_objects net' ! q)) = snd (get_address (peer_objects net ! q))" for q
    unfolding net'_def by (simp add: nth_update_same [where f = "\<lambda>x. snd (get_address x)"])
  note IH = Cons.IH [of net', unfolded same]
  show ?case
  proof (cases "addr_tuple (snd (get_address (peer_objects net ! p))) = (''0.0.0.0'', 0)")
    case True
    then show ?thesis using Cons.prems IH by (simp add: Let_def case_prod_beta flip: net'_def)
  next
    case False
    with Cons.prems obtain b cs where b: "pack_address False (address_value (snd (get_address (peer_objects net ! p)))) = return b"
      "map_result (pack_address False) (map address_value (filter (\<lambda>a. addr_tuple a \<noteq> (''0.0.0.0'', 0))
         (map (\<lambda>p. snd (get_address (peer_objects net ! p))) ps))) = return cs" "bs = b # cs"
      by (auto simp: bind_result_eq_Inr)
    have "fst (snapshot_peers ps net') = return (concat cs)" by (rule IH [OF b(2)])
    then show ?thesis using False b(1,3)
      by (cases "snapshot_peers ps net'") (simp add: Let_def case_prod_beta address_packer flip: net'_def)
  qed
qed simp

lemma add_values_get:
  "dict_get (add_values vs d) a = (if a \<in> value_address ` set vs then Some unknown_address else dict_get d a)"
  unfolding add_values_def
  by (induction vs arbitrary: d) (auto simp: dict_get_set)

text \<open>C16: A snapshot of a network whose verified peers have addresses that can be written as addresses is read back as
  exactly those addresses (all but \<^verbatim>\<open>0.0.0.0:0\<close>), with no introducer and no service; what else was known stays.\<close>

theorem snapshot_roundtrip:
  assumes "\<forall>v \<in> set (snapshot_values net). address_ok False v"
  shows "\<exists>b. fst (snapshot net) = return b \<and>
    (\<forall>net2 a. dict_get (all_addresses (load_snapshot b net2)) a =
       (if a \<in> value_address ` set (snapshot_values net) then Some unknown_address else dict_get (all_addresses net2) a))"
proof -
  obtain bs where bs: "map_result (pack_address False) (snapshot_values net) = return bs"
    "\<And>pre d. load_loop (pre @ concat bs) (length pre) d = add_values (snapshot_values net) d"
    using load_loop_packed [OF assms] by auto
  have "fst (snapshot net) = return (concat bs)"
    unfolding snapshot_def by (rule snapshot_peers_packed) (use bs(1) in \<open>simp add: snapshot_values_def\<close>)
  with bs(2) [of "[]"] show ?thesis by (simp add: load_snapshot_def add_values_get)
qed

section \<open>Concrete networks\<close>

definition ex_peer :: peer where
  "ex_peer = \<lparr>public_key_bin = [1], mid = [2],
     addresses = \<lparr>dd_items = [(UDPv4Address, Address UDPv4Address ''1.2.3.4'' 8090)], dirty = True\<rparr>,
     cached_address = None, creation_time = 0, last_response = 0, lamport_timestamp = 0, pings = [],
     new_style_intro = False, address_frozen = False\<rparr>"

definition ex_addr :: addr where
  "ex_addr = (ustr ''1.2.3.4'', 8090)"

definition other_addr :: addr where
  "other_addr = (ustr ''5.6.7.8'', 8090)"

lemmas ex_simps = ex_peer_def ex_addr_def other_addr_def new_network_def new_object_def discover_address_def
  add_verified_peer_def verify_peer_def notify_added_def addrs_of_def key_of_def peer_in_def limit_def
  get_verified_by_public_key_bin_def remove_by_address_def Let_def ustr_def of_char_def add_unknown_def

text \<open>A peer that is met, verified, and removed by its address.\<close>

definition ex_met :: "net_op list" where
  "ex_met = [NewPeer ex_peer, AddVerifiedPeer 0]"

lemma ex_met_run: "\<exists>net. net_run ex_met new_network = Some net \<and> verified_peers net = [0] \<and> peer_objects net = [ex_peer]
    \<and> services_per_peer net = [] \<and> blacklist net = [] \<and> blacklist_mids net = [] \<and> all_addresses net = [(ex_addr, unknown_address)]"
  by (simp add: ex_met_def ex_simps)


theorem peer_removed_by_address_is_lost_witness:
  "\<exists>net net'. net_run ex_met new_network = Some net \<and>
     net_run [AddVerifiedPeer 0] (remove_by_address ex_addr net) = Some net' \<and>
     [1] \<notin> set (map (key_of net') (verified_peers net'))"
proof -
  obtain net where net: "net_run ex_met new_network = Some net" "verified_peers net = [0]" "peer_objects net = [ex_peer]"
    using ex_met_run by blast
  have a: "ex_addr \<in> set (addrs_of net 0)" by (simp add: addrs_of_def net(3) ex_peer_def ex_addr_def)
  obtain net' where net': "net_run [AddVerifiedPeer 0] (remove_by_address ex_addr net) = Some net'"
    by (simp add: remove_by_address_fields net(3))
  have "key_of net 0 \<notin> set (map (key_of net') (verified_peers net'))"
    using peer_removed_by_address_is_lost [OF net(1) _ a net'] net(2) by simp
  then show ?thesis using net net' by (auto simp: key_of_def ex_peer_def)
qed

text \<open>A peer that introduced an address for one service and is asked for another.\<close>

definition ex_walk :: network where
  "ex_walk = new_network\<lparr>peer_objects := [ex_peer], verified_peers := [0], verified_by_key := [([1], 0)],
     all_addresses := [(other_addr, \<lparr>introduced_by = [1], wa_service = Some [7], new_style = False\<rparr>)],
     services_per_peer := [([1], [[9]])]\<rparr>"

lemma ex_walk_facts:
  "fst (get_peers_for_service [9] ex_walk) = [0]" "addrs_of ex_walk 0 = [ex_addr]" "ex_addr \<noteq> other_addr"
  "dict_get (all_addresses ex_walk) other_addr = Some \<lparr>introduced_by = [1], wa_service = Some [7], new_style = False\<rparr>"
  "key_of ex_walk 0 = [1]" "dict_get (services_per_peer ex_walk) [1] = Some [[9]]"
  by (simp_all add: ex_walk_def new_network_def get_peers_for_service_def provides_def get_services_for_peer_def
      addrs_of_def key_of_def ex_peer_def ex_addr_def other_addr_def ustr_def Let_def)

theorem walkable_addresses_are_unverified_witness:
  "other_addr \<in> set (fst (get_walkable_addresses (Some [9]) False ex_walk))"
proof -
  have "other_addr \<in> walkable_for [9] False ex_walk (services_at ex_walk)"
    using ex_walk_facts by (simp add: walkable_for_def services_at_def)
  moreover have "walkable_for [9] False ex_walk (services_at ex_walk) \<subseteq> set (fst (get_walkable_addresses (Some [9]) False ex_walk))"
    using walkable_addresses_are_unverified [of "[9]" False ex_walk] by simp
  ultimately show ?thesis by (rule rev_subsetD)
qed

theorem walking_grants_services_witness:
  "get_services_for_peer 0 ex_walk = [[9]] \<and>
     [7] \<in> set (get_services_for_peer 0 (snd (get_walkable_addresses (Some [9]) False ex_walk)))"
proof
  show "get_services_for_peer 0 ex_walk = [[9]]" by (simp add: get_services_for_peer_def ex_walk_facts)
  show "[7] \<in> set (get_services_for_peer 0 (snd (get_walkable_addresses (Some [9]) False ex_walk)))"
    by (rule walking_grants_services [OF _ ex_walk_facts(4)]) (use ex_walk_facts in simp_all)
qed

theorem snapshot_roundtrip_witness:
  "\<exists>b. fst (snapshot ex_walk) = return b \<and> dict_get (all_addresses (load_snapshot b new_network)) ex_addr = Some unknown_address"
proof -
  have v: "snapshot_values ex_walk = [PAddr UDPv4Address (ustr ''1.2.3.4'') 8090]"
    by (simp add: snapshot_values_def ex_walk_def new_network_def ex_peer_def get_address_def update_preferred_address_def
        INTERFACE_ORDER_def Let_def addr_tuple_def address_value_def)
  have "address_ok False (PAddr UDPv4Address (ustr ''1.2.3.4'') 8090)" by code_simp
  then show ?thesis using snapshot_roundtrip [of ex_walk] by (auto simp: v value_address_def ex_addr_def)
qed

end
