(* ===== verification/Fp2.thy ===== *)
theory Fp2
  imports Prelude
begin

text \<open>
  Values of the field of \<^verbatim>\<open>p * p\<close> elements (\<^verbatim>\<open>ipv8/attestation/wallet/primitives/value.py\<close>):
  quotients of two quadratic polynomials modulo \<^verbatim>\<open>x^2 + x + 1\<close> and modulo a number.
\<close>

section \<open>Values\<close>

text \<open>
  \<^verbatim>\<open>FP2Value\<close>: \<open>fa + fb x + fc x\<^sup>2\<close> divided by \<open>fA + fB x + fC x\<^sup>2\<close>. The constructor
  reduces the coefficients; \<open>make_fp2\<close> is the constructor on a modulus that may be anything, \<open>value_of\<close>
  the one on the modulus of an existing value.
\<close>

record fp2 =
  modulus :: int
  fa :: int
  fb :: int
  fc :: int
  fA :: int
  fB :: int
  fC :: int

definition value_of :: "int \<Rightarrow> int \<Rightarrow> int \<Rightarrow> int \<Rightarrow> int \<Rightarrow> int \<Rightarrow> int \<Rightarrow> fp2" where
  "value_of m a b c aC bC cC =
     \<lparr>modulus = m, fa = a mod m, fb = b mod m, fc = c mod m, fA = aC mod m, fB = bC mod m, fC = cC mod m\<rparr>"

definition make_fp2 :: "int \<Rightarrow> int \<Rightarrow> int \<Rightarrow> int \<Rightarrow> int \<Rightarrow> int \<Rightarrow> int \<Rightarrow> fp2 result" where
  "make_fp2 m a b c aC bC cC = (if m = 0 then raise ZeroDivisionError else return (value_of m a b c aC bC cC))"

text \<open>The constructor with default values: a number, and a linear polynomial.\<close>

abbreviation number :: "int \<Rightarrow> int \<Rightarrow> fp2" where
  "number m a \<equiv> value_of m a 0 0 1 0 0"

abbreviation linear :: "int \<Rightarrow> int \<Rightarrow> int \<Rightarrow> fp2" where
  "linear m a b \<equiv> value_of m a b 0 1 0 0"

section \<open>Text\<close>

text \<open>\<^verbatim>\<open>format_polynomial\<close>: the loop over the coefficients, with the text so far.\<close>

definition format_term :: "string \<Rightarrow> int \<times> string \<Rightarrow> string" where
  "format_term out = (\<lambda>(v, s).
     if v = 0 then out
     else
       let fmt_v = (if \<bar>v\<bar> = 1 \<and> s \<noteq> '''' then '''' else dec_string (nat \<bar>v\<bar>))
       in out @ (if out \<noteq> '''' then '' + '' else '''') @ fmt_v @ s)"

definition format_polynomial :: "int \<Rightarrow> int \<Rightarrow> int \<Rightarrow> string" where
  "format_polynomial a b c =
     (let out = foldl format_term '''' [(a, ''''), (b, ''x''), (c, ''x^2'')]
      in if out = '''' then ''0'' else out)"

definition value_str :: "fp2 \<Rightarrow> string" where
  "value_str v =
     (let numerator = format_polynomial (fa v) (fb v) (fc v);
          denominator = format_polynomial (fA v) (fB v) (fC v)
      in if denominator = ''1'' then numerator else ''('' @ numerator @ '')/('' @ denominator @ '')'')"

section \<open>Arithmetic\<close>

definition add_value :: "fp2 \<Rightarrow> fp2 \<Rightarrow> fp2" where
  "add_value s t =
     value_of (modulus s)
       (fA s * fa t - fC s * fa t + fa s * fA t - fc s * fA t - fB s * fb t
        + fC s * fb t - fA s * fc t + fB s * fc t - fa s * fC t + fb s * fC t)
       (fB s * fa t - fC s * fa t + fb s * fA t - fc s * fA t + fA s * fb t
        - fB s * fb t + fa s * fB t - fb s * fB t - fA s * fc t + fC s * fc t
        - fa s * fC t + fc s * fC t)
       0
       (fA s * fA t - fC s * fA t - fB s * fB t
        + fC s * fB t - fA s * fC t + fB s * fC t)
       (fB s * fA t - fC s * fA t + fA s * fB t
        - fB s * fB t - fA s * fC t + fC s * fC t)
       0"

definition sub_value :: "fp2 \<Rightarrow> fp2 \<Rightarrow> fp2" where
  "sub_value s t =
     value_of (modulus s)
       (- fA s * fa t + fC s * fa t + fa s * fA t - fc s * fA t + fB s * fb t
        - fC s * fb t - fb s * fB t + fc s * fB t + fA s * fc t - fB s * fc t
        - fa s * fC t + fb s * fC t)
       (- fB s * fa t + fC s * fa t + fb s * fA t - fc s * fA t - fA s * fb t
        + fB s * fb t + fa s * fB t - fb s * fB t + fA s * fc t - fC s * fc t
        - fa s * fC t + fc s * fC t)
       0
       (fA s * fA t - fC s * fA t - fB s * fB t
        + fC s * fB t - fA s * fC t + fB s * fC t)
       (fB s * fA t - fC s * fA t + fA s * fB t
        - fB s * fB t - fA s * fC t + fC s * fC t)
       0"

definition mul_value :: "fp2 \<Rightarrow> fp2 \<Rightarrow> fp2" where
  "mul_value s t =
     value_of (modulus s)
       (fa s * fa t - fc s * fa t - fb s * fb t
        + fc s * fb t - fa s * fc t + fb s * fc t)
       (fb s * fa t - fc s * fa t + fa s * fb t
        - fb s * fb t - fa s * fc t + fc s * fc t)
       0
       (fA s * fA t - fC s * fA t - fB s * fB t
        + fC s * fB t - fA s * fC t + fB s * fC t)
       (fB s * fA t - fC s * fA t + fA s * fB t
        - fB s * fB t - fA s * fC t + fC s * fC t)
       0"

definition div_value :: "fp2 \<Rightarrow> fp2 \<Rightarrow> fp2" where
  "div_value s t =
     value_of (modulus s)
       (fa s * fA t - fc s * fA t - fb s * fB t
        + fc s * fB t - fa s * fC t + fb s * fC t)
       (fb s * fA t - fc s * fA t + fa s * fB t
        - fb s * fB t - fa s * fC t + fc s * fC t)
       0
       (fA s * fa t - fC s * fa t - fB s * fb t
        + fC s * fb t - fA s * fc t + fB s * fc t)
       (fB s * fa t - fC s * fa t + fA s * fb t
        - fB s * fb t - fA s * fc t + fC s * fc t)
       0"

text \<open>
  The operators assert that the moduli agree. The code that follows works with values of one modulus, by
  construction, where the unchecked operations are the operators.
\<close>

definition same_modulus :: "(fp2 \<Rightarrow> fp2 \<Rightarrow> 'a) \<Rightarrow> fp2 \<Rightarrow> fp2 \<Rightarrow> 'a result" where
  "same_modulus f s t = (if modulus s = modulus t then return (f s t) else raise AssertionError)"

definition fp2_add :: "fp2 \<Rightarrow> fp2 \<Rightarrow> fp2 result" where "fp2_add = same_modulus add_value"
definition fp2_sub :: "fp2 \<Rightarrow> fp2 \<Rightarrow> fp2 result" where "fp2_sub = same_modulus sub_value"
definition fp2_mul :: "fp2 \<Rightarrow> fp2 \<Rightarrow> fp2 result" where "fp2_mul = same_modulus mul_value"
definition fp2_floordiv :: "fp2 \<Rightarrow> fp2 \<Rightarrow> fp2 result" where "fp2_floordiv = same_modulus div_value"

definition inverse_value :: "fp2 \<Rightarrow> fp2" where
  "inverse_value v = value_of (modulus v) (fA v) (fB v) (fC v) (fa v) (fb v) (fc v)"

section \<open>Normal forms, equality and powers\<close>

text \<open>\<^verbatim>\<open>_modinv\<close> of the cryptography package is the argument \<open>modinv\<close>.\<close>

definition normalize :: "(int \<Rightarrow> int \<Rightarrow> int) \<Rightarrow> fp2 \<Rightarrow> fp2" where
  "normalize modinv v =
     (let m = modulus v; mp = modinv (fA v mod m) m
      in if 0 < mp then
           value_of m ((fa v * mp) mod m) ((fb v * mp) mod m) ((fc v * mp) mod m)
             1 ((fB v * mp) mod m) ((fC v * mp) mod m)
         else value_of m (fa v) (fb v) (fc v) (fA v) (fB v) (fC v))"

definition eq_value :: "(int \<Rightarrow> int \<Rightarrow> int) \<Rightarrow> fp2 \<Rightarrow> fp2 \<Rightarrow> bool" where
  "eq_value modinv s t \<longleftrightarrow>
     (let divd = normalize modinv (div_value s t)
      in fa divd = fA divd \<and> fb divd = fB divd \<and> fc divd = fC divd)"

definition fp2_eq :: "(int \<Rightarrow> int \<Rightarrow> int) \<Rightarrow> fp2 \<Rightarrow> fp2 \<Rightarrow> bool result" where
  "fp2_eq modinv = same_modulus (eq_value modinv)"

fun pow_loop :: "fp2 \<Rightarrow> fp2 \<Rightarrow> nat \<Rightarrow> fp2" where
  "pow_loop R U n =
     (if n = 0 then R
      else pow_loop (if n mod 2 = 1 then mul_value R U else R) (mul_value U U) (n div 2))"

declare pow_loop.simps [simp del]

definition intpow :: "(int \<Rightarrow> int \<Rightarrow> int) \<Rightarrow> fp2 \<Rightarrow> int \<Rightarrow> fp2" where
  "intpow modinv v k =
     (let R = pow_loop (number (modulus v) 1) v (nat (if k < 0 then - k else k))
      in if k < 0 then normalize modinv (inverse_value R) else R)"

section \<open>Compression\<close>

definition wp_nominator :: "fp2 \<Rightarrow> fp2" where
  "wp_nominator v = linear (modulus v) (fa v) (fb v)"

definition wp_denom_inverse :: "(int \<Rightarrow> int \<Rightarrow> int) \<Rightarrow> fp2 \<Rightarrow> fp2" where
  "wp_denom_inverse modinv v =
     (let m = modulus v;
          iq = number m (fA v * fA v - fA v * fB v + fB v * fB v);
          a = div_value (number m (fA v - fB v)) iq;
          b = div_value (number m (- fB v)) iq
      in linear m (fa (normalize modinv a)) (fa (normalize modinv b)))"

definition compress_value :: "(int \<Rightarrow> int \<Rightarrow> int) \<Rightarrow> fp2 \<Rightarrow> fp2" where
  "compress_value modinv v =
     (let n = normalize modinv v in mul_value (wp_nominator n) (wp_denom_inverse modinv n))"

definition wp_compress :: "(int \<Rightarrow> int \<Rightarrow> int) \<Rightarrow> fp2 \<Rightarrow> fp2 result" where
  "wp_compress modinv v =
     (if fc v = 0 \<and> fC v = 0 then return (compress_value modinv v) else raise AssertionError)"

end
