(* ===== verification/Boneh.thy ===== *)
theory Boneh
  imports Fp2
begin

text \<open>
  The cryptosystem of Boneh, Goh and Nissim (\<^verbatim>\<open>ipv8/attestation/wallet/primitives/structs.py\<close>,
  \<^verbatim>\<open>ec.py\<close>, \<^verbatim>\<open>boneh.py\<close>): how numbers and keys are written, the Weil pairing, key generation,
  encoding and decoding. Primality tests and the generation of primes belong to the cryptography package
  and are arguments, as are the random numbers: an operation takes those it may still draw and returns
  the ones left, and has no value when it needs more.
\<close>

section \<open>Writing numbers\<close>

text \<open>The digits of \<^verbatim>\<open>f"{num:x}"\<close>.\<close>

fun hex_digits :: "nat \<Rightarrow> nat list" where
  "hex_digits n = (if n < 16 then [n] else hex_digits (n div 16) @ [n mod 16])"

declare hex_digits.simps [simp del]

fun digit_pairs :: "nat list \<Rightarrow> bytes" where
  "digit_pairs (a # b # ds) = of_nat (16 * a + b) # digit_pairs ds"
| "digit_pairs _ = []"

text \<open>
  \<^verbatim>\<open>_num_to_str\<close>. The text of a negative number starts with its sign; the first pair then is either a
  negative digit, which does not fit a byte, or a zero and a sign, which is no number.
\<close>

definition num_to_str :: "int \<Rightarrow> bytes result" where
  "num_to_str n =
     (if n < 0 then (if odd (length (hex_digits (nat (- n)))) then raise StructError else raise ValueError)
      else
        let h = hex_digits (nat n)
        in return (digit_pairs (if odd (length h) then 0 # h else h)))"

definition str_to_num :: "bytes \<Rightarrow> nat" where
  "str_to_num s = foldl (\<lambda>out b. or (push_bit 8 out) (unat b)) 0 s"

definition ipack :: "int \<Rightarrow> bytes result" where
  "ipack n =
     bind_result (num_to_str n) (\<lambda>pnum.
       bind_result (num_to_str (int (length pnum))) (\<lambda>l.
         if 256 \<le> length l then raise StructError else return (of_nat (length l) # l @ pnum)))"

definition iunpack :: "bytes \<Rightarrow> (int \<times> bytes) result" where
  "iunpack s =
     (case s of
        [] \<Rightarrow> raise StructError
      | b # rest \<Rightarrow>
          let llen = unat b; l = str_to_num (take llen rest)
          in return (int (str_to_num (take l (drop llen rest))), drop (llen + l) rest))"

definition pack_pair :: "int \<Rightarrow> int \<Rightarrow> bytes result" where
  "pack_pair a b = bind_result (ipack a) (\<lambda>x. bind_result (ipack b) (\<lambda>y. return (x @ y)))"

definition unpack_pair :: "bytes \<Rightarrow> (int \<times> int \<times> bytes) result" where
  "unpack_pair s = bind_result (iunpack s) (\<lambda>(a, r). bind_result (iunpack r) (\<lambda>(b, r). return (a, b, r)))"

text \<open>Numbers one after the other, as the classes of the package write and read them.\<close>

fun pack_nums :: "int list \<Rightarrow> bytes result" where
  "pack_nums [] = return []"
| "pack_nums (n # ns) = bind_result (ipack n) (\<lambda>b. bind_result (pack_nums ns) (\<lambda>bs. return (b @ bs)))"

text \<open>\<^verbatim>\<open>while rem and len(nums) < k\<close>\<close>

fun read_nums :: "nat \<Rightarrow> bytes \<Rightarrow> (int list \<times> bytes) result" where
  "read_nums 0 s = return ([], s)"
| "read_nums (Suc k) s =
     (if s = [] then return ([], s)
      else bind_result (iunpack s) (\<lambda>(n, r). bind_result (read_nums k r) (\<lambda>(ns, r). return (n # ns, r))))"

section \<open>Keys\<close>

record public_key =
  pk_p :: int
  pk_g :: fp2
  pk_h :: fp2

record private_key = public_key +
  sk_n :: int
  sk_t1 :: int

definition public_numbers :: "'a public_key_scheme \<Rightarrow> int list" where
  "public_numbers pk = [pk_p pk, fa (pk_g pk), fb (pk_g pk), fa (pk_h pk), fb (pk_h pk)]"

definition serialize_public_key :: "'a public_key_scheme \<Rightarrow> bytes result" where
  "serialize_public_key pk = pack_nums (public_numbers pk)"

definition serialize_private_key :: "private_key \<Rightarrow> bytes result" where
  "serialize_private_key sk = pack_nums (public_numbers sk @ [sk_n sk, sk_t1 sk])"

definition linear_result :: "int \<Rightarrow> int \<Rightarrow> int \<Rightarrow> fp2 result" where
  "linear_result m a b = make_fp2 m a b 0 1 0 0"

definition unserialize_public_key :: "bytes \<Rightarrow> public_key option result" where
  "unserialize_public_key s =
     bind_result (read_nums 5 s) (\<lambda>(nums, _).
       if length nums \<noteq> 5 then return None
       else
         bind_result (linear_result (nums ! 0) (nums ! 1) (nums ! 2)) (\<lambda>g.
           bind_result (linear_result (nums ! 0) (nums ! 3) (nums ! 4)) (\<lambda>h.
             return (Some \<lparr>pk_p = nums ! 0, pk_g = g, pk_h = h\<rparr>))))"

definition unserialize_private_key :: "bytes \<Rightarrow> private_key option result" where
  "unserialize_private_key s =
     bind_result (read_nums 7 s) (\<lambda>(nums, _).
       if length nums \<noteq> 7 then return None
       else
         bind_result (linear_result (nums ! 0) (nums ! 1) (nums ! 2)) (\<lambda>g.
           bind_result (linear_result (nums ! 0) (nums ! 3) (nums ! 4)) (\<lambda>h.
             return (Some \<lparr>pk_p = nums ! 0, pk_g = g, pk_h = h, sk_n = nums ! 5, sk_t1 = nums ! 6\<rparr>))))"

definition public_key_of :: "private_key \<Rightarrow> public_key" where
  "public_key_of sk = \<lparr>pk_p = pk_p sk, pk_g = pk_g sk, pk_h = pk_h sk\<rparr>"

section \<open>The curve\<close>

text \<open>Points, with \<open>None\<close> for the point at infinity, which is \<^verbatim>\<open>"O"\<close>.\<close>

type_synonym point = "(fp2 \<times> fp2) option"

definition esum :: "(int \<Rightarrow> int \<Rightarrow> int) \<Rightarrow> int \<Rightarrow> point \<Rightarrow> point \<Rightarrow> point" where
  "esum modinv m p q =
     (case (p, q) of
        (None, None) \<Rightarrow> None
      | (None, Some _) \<Rightarrow> q
      | (Some _, None) \<Rightarrow> p
      | (Some (x1, y1), Some (x2, y2)) \<Rightarrow>
          if eq_value modinv x1 x2 \<and> eq_value modinv y1 (mul_value (number m (- 1)) y2) then None
          else
            let l = (if eq_value modinv x1 x2
                     then normalize modinv (div_value (mul_value (mul_value (number m 3) x1) x1) (mul_value (number m 2) y1))
                     else normalize modinv (div_value (sub_value y1 y2) (sub_value x1 x2)));
                x3 = sub_value (sub_value (mul_value l l) x1) x2;
                y3 = add_value (mul_value l (sub_value x3 x1)) y1
            in Some (normalize modinv x3, normalize modinv (mul_value (number m (- 1)) y3)))"

text \<open>\<^verbatim>\<open>H\<close>; the point at infinity cannot be unpacked into coordinates.\<close>

definition h_line :: "(int \<Rightarrow> int \<Rightarrow> int) \<Rightarrow> int \<Rightarrow> point \<Rightarrow> point \<Rightarrow> fp2 \<Rightarrow> fp2 \<Rightarrow> fp2 result" where
  "h_line modinv m p q x y =
     (case (p, q) of
        (Some (x1, y1), Some (x2, y2)) \<Rightarrow>
          return
            (if eq_value modinv x1 x2 \<and> eq_value modinv y1 (mul_value (number m (- 1)) y2)
             then normalize modinv (sub_value x x1)
             else
               let l = (if eq_value modinv x1 x2 \<and> eq_value modinv y1 y2
                        then div_value (mul_value (mul_value (number m 3) x1) x1) (mul_value (number m 2) y1)
                        else div_value (sub_value y2 y1) (sub_value x2 x1))
               in normalize modinv
                    (div_value (sub_value (sub_value y y1) (mul_value l (sub_value x x1)))
                       (sub_value (add_value x (add_value x1 x2)) (mul_value l l))))
      | _ \<Rightarrow> raise ValueError)"

text \<open>
  The loop over the bits after the first one. The coordinates of the point at infinity, the text
  \<^verbatim>\<open>"O"\<close>, are a letter and an index error.
\<close>

fun miller_loop ::
  "(int \<Rightarrow> int \<Rightarrow> int) \<Rightarrow> int \<Rightarrow> fp2 \<times> fp2 \<Rightarrow> point \<Rightarrow> bool list \<Rightarrow> point \<Rightarrow> fp2 \<Rightarrow> fp2 result" where
  "miller_loop modinv m p R [] T f = return f"
| "miller_loop modinv m p R (b # bs) T f =
     (case R of
        None \<Rightarrow> raise IndexError
      | Some (x, y) \<Rightarrow>
          bind_result (h_line modinv m T T x y) (\<lambda>h.
            let f = normalize modinv (mul_value (mul_value f f) h); T = esum modinv m T T
            in if b then
                 bind_result (h_line modinv m T (Some p) x y) (\<lambda>h.
                   miller_loop modinv m p R bs (esum modinv m T (Some p)) (normalize modinv (mul_value f h)))
               else miller_loop modinv m p R bs T f))"

definition millercalc :: "(int \<Rightarrow> int \<Rightarrow> int) \<Rightarrow> int \<Rightarrow> nat \<Rightarrow> fp2 \<times> fp2 \<Rightarrow> point \<Rightarrow> fp2 result" where
  "millercalc modinv m M p R = miller_loop modinv m p R (tl (binary_digits M)) (Some p) (number m 1)"

definition weilpairing ::
  "(int \<Rightarrow> int \<Rightarrow> int) \<Rightarrow> int \<Rightarrow> nat \<Rightarrow> fp2 \<times> fp2 \<Rightarrow> fp2 \<times> fp2 \<Rightarrow> fp2 \<times> fp2 \<Rightarrow> fp2 result" where
  "weilpairing modinv md m P Q S =
     (let nS = (fst S, mul_value (number md (- 1)) (snd S))
      in bind_result (millercalc modinv md m P (esum modinv md (Some Q) (Some S))) (\<lambda>A.
         bind_result (millercalc modinv md m P (Some S)) (\<lambda>B.
         bind_result (millercalc modinv md m Q (esum modinv md (Some P) (Some nS))) (\<lambda>C.
         bind_result (millercalc modinv md m Q (Some nS)) (\<lambda>D.
           let wp = div_value (mul_value A D) (mul_value B C)
           in return (mul_value (wp_nominator wp) (wp_denom_inverse modinv wp)))))))"

section \<open>Key generation\<close>

text \<open>\<open>generate_prime\<close> with the number of candidates it may try.\<close>

fun generate_prime :: "(int \<Rightarrow> bool) \<Rightarrow> int \<Rightarrow> nat \<Rightarrow> int \<Rightarrow> int \<Rightarrow> int option" where
  "generate_prime is_prime n 0 l p = (if p mod 3 \<noteq> 2 \<or> \<not> is_prime p then None else Some p)"
| "generate_prime is_prime n (Suc k) l p =
     (if p mod 3 \<noteq> 2 \<or> \<not> is_prime p then generate_prime is_prime n k (l + 1) ((l + 1) * n - 1) else Some p)"

definition bilinear_group ::
  "(int \<Rightarrow> int \<Rightarrow> int) \<Rightarrow> nat \<Rightarrow> int \<Rightarrow> int \<Rightarrow> int \<Rightarrow> int \<Rightarrow> int \<Rightarrow> fp2" where
  "bilinear_group modinv n p g1x g1y g2x g2y =
     (case weilpairing modinv p n (number p g1x, number p g1y) (linear p 0 g2x, number p g2y) (number p 0, number p 0) of
        Inr v \<Rightarrow> v | Inl _ \<Rightarrow> number p 0)"

definition is_good_wp :: "(int \<Rightarrow> int \<Rightarrow> int) \<Rightarrow> int \<Rightarrow> fp2 \<Rightarrow> bool" where
  "is_good_wp modinv n wp \<longleftrightarrow>
     (let is_one = eq_value modinv wp (number (modulus wp) 1);
          is_zero = eq_value modinv wp (number (modulus wp) 0);
          good_order = eq_value modinv (intpow modinv wp (n + 1)) wp
      in good_order \<and> \<not> is_zero \<and> \<not> is_one)"

text \<open>\<open>get_good_wp\<close>: each round draws the two coordinates of a base.\<close>

fun good_wp_loop :: "(int \<Rightarrow> int \<Rightarrow> int) \<Rightarrow> int \<Rightarrow> int \<Rightarrow> fp2 option \<Rightarrow> int list \<Rightarrow> (fp2 \<times> int list) option" where
  "good_wp_loop modinv n p wp draws =
     (case wp of
        Some v \<Rightarrow>
          if is_good_wp modinv n v then Some (v, draws)
          else (case draws of
                  x # y # draws' \<Rightarrow>
                    let w = bilinear_group modinv (nat n) p x y x y
                    in good_wp_loop modinv n p
                         (Some (if is_good_wp modinv n w then w else intpow modinv w ((p + 1) div n))) draws'
                | _ \<Rightarrow> None)
      | None \<Rightarrow>
          (case draws of
             x # y # draws' \<Rightarrow>
               let w = bilinear_group modinv (nat n) p x y x y
               in good_wp_loop modinv n p
                    (Some (if is_good_wp modinv n w then w else intpow modinv w ((p + 1) div n))) draws'
           | _ \<Rightarrow> None))"

declare good_wp_loop.simps [simp del]

text \<open>The loop for the second generator, which must not vanish on the larger prime.\<close>

fun second_generator ::
  "(int \<Rightarrow> int \<Rightarrow> int) \<Rightarrow> int \<Rightarrow> int \<Rightarrow> int \<Rightarrow> nat \<Rightarrow> int list \<Rightarrow> (fp2 \<times> int list) option" where
  "second_generator modinv n p t2 0 draws = None"
| "second_generator modinv n p t2 (Suc k) draws =
     (case good_wp_loop modinv n p None draws of
        None \<Rightarrow> None
      | Some (u, draws') \<Rightarrow>
          if eq_value modinv (intpow modinv u t2) (number p 1) then second_generator modinv n p t2 k draws'
          else Some (u, draws'))"

definition generate_keypair ::
  "(int \<Rightarrow> int \<Rightarrow> int) \<Rightarrow> (int \<Rightarrow> bool) \<Rightarrow> int \<times> int \<Rightarrow> nat \<Rightarrow> int list \<Rightarrow> (public_key \<times> private_key) option" where
  "generate_keypair modinv is_prime primes fuel draws =
     (let t1 = min (fst primes) (snd primes); t2 = max (fst primes) (snd primes); n = t1 * t2
      in case generate_prime is_prime n fuel 0 1 of
           None \<Rightarrow> None
         | Some p \<Rightarrow>
             (case good_wp_loop modinv n p None draws of
                None \<Rightarrow> None
              | Some (g, draws) \<Rightarrow>
                  (case second_generator modinv n p t2 fuel draws of
                     None \<Rightarrow> None
                   | Some (u, _) \<Rightarrow>
                       let h = intpow modinv u t2
                       in Some (\<lparr>pk_p = p, pk_g = g, pk_h = h\<rparr>,
                                \<lparr>pk_p = p, pk_g = g, pk_h = h, sk_n = t1 * t2, sk_t1 = t1\<rparr>))))"

section \<open>Encoding and decoding\<close>

text \<open>\<open>get_random_exponentiation\<close>: draws until the power is not one.\<close>

fun random_exponentiation :: "(int \<Rightarrow> int \<Rightarrow> int) \<Rightarrow> fp2 \<Rightarrow> int list \<Rightarrow> (fp2 \<times> int list) option" where
  "random_exponentiation modinv v [] = None"
| "random_exponentiation modinv v (r # draws) =
     (let test = intpow modinv v r
      in if eq_value modinv test (number (modulus v) 1) then random_exponentiation modinv v draws
         else Some (test, draws))"

definition boneh_encode ::
  "(int \<Rightarrow> int \<Rightarrow> int) \<Rightarrow> 'a public_key_scheme \<Rightarrow> int \<Rightarrow> int list \<Rightarrow> (fp2 \<times> int list) option" where
  "boneh_encode modinv pk m draws =
     map_option (\<lambda>(r, draws). (mul_value (intpow modinv (pk_g pk) m) r, draws))
       (random_exponentiation modinv (pk_h pk) draws)"

definition boneh_decode :: "(int \<Rightarrow> int \<Rightarrow> int) \<Rightarrow> private_key \<Rightarrow> int list \<Rightarrow> fp2 \<Rightarrow> int option" where
  "boneh_decode modinv sk msgspace c =
     (let d = intpow modinv c (sk_t1 sk); t = intpow modinv (pk_g sk) (sk_t1 sk)
      in find (\<lambda>m. eq_value modinv d (intpow modinv t m)) msgspace)"

end
