(* ===== verification/BonehExact.thy ===== *)
theory BonehExact
  imports Boneh Utf8
begin

text \<open>
  Attestations of exact values (\<^verbatim>\<open>ipv8/attestation/wallet/bonehexact/attestation.py\<close>,
  \<^verbatim>\<open>structs.py\<close>, \<^verbatim>\<open>algorithm.py\<close> and \<^verbatim>\<open>primitives/attestation.py\<close>): the bits of the
  hash of a value are encoded in pairs, each with a complement that cancels the random numbers, and a
  verifier learns how many pairs add up to 0, 1 and 2.
\<close>

section \<open>Randomness\<close>

text \<open>
  A computation that draws random numbers and may raise: no value when it needs more numbers than there are.
  A shuffle is given by the list of old positions in the new order.
\<close>

type_synonym 'a rand = "int list \<Rightarrow> ('a result \<times> int list) option"

definition rreturn :: "'a \<Rightarrow> 'a rand" where
  "rreturn x draws = Some (return x, draws)"

definition rresult :: "'a result \<Rightarrow> 'a rand" where
  "rresult r draws = Some (r, draws)"

definition rbind :: "'a rand \<Rightarrow> ('a \<Rightarrow> 'b rand) \<Rightarrow> 'b rand" where
  "rbind m f draws =
     (case m draws of
        None \<Rightarrow> None | Some (Inl e, draws') \<Rightarrow> Some (Inl e, draws') | Some (Inr x, draws') \<Rightarrow> f x draws')"

fun rmap :: "('a \<Rightarrow> 'b rand) \<Rightarrow> 'a list \<Rightarrow> 'b list rand" where
  "rmap f [] = rreturn []"
| "rmap f (x # xs) = rbind (f x) (\<lambda>y. rbind (rmap f xs) (\<lambda>ys. rreturn (y # ys)))"

definition rdraw :: "nat \<Rightarrow> int list rand" where
  "rdraw n draws = (if length draws < n then None else Some (return (take n draws), drop n draws))"

definition rencode :: "(int \<Rightarrow> int \<Rightarrow> int) \<Rightarrow> 'a public_key_scheme \<Rightarrow> int \<Rightarrow> fp2 rand" where
  "rencode modinv pk m draws = map_option (\<lambda>(c, draws). (return c, draws)) (boneh_encode modinv pk m draws)"

definition shuffled :: "nat list \<Rightarrow> 'a list \<Rightarrow> 'a list" where
  "shuffled perm xs = map (nth xs) perm"

definition item :: "'a list \<Rightarrow> nat \<Rightarrow> 'a result" where
  "item xs i = (if i < length xs then return (xs ! i) else raise IndexError)"

text \<open>\<^verbatim>\<open>range(0, n, 2)\<close>\<close>

definition even_range :: "nat \<Rightarrow> nat list" where
  "even_range n = map (\<lambda>i. 2 * i) [0..<(n + 1) div 2]"

section \<open>Hashes as numbers\<close>

definition to_ascii :: "unicode + bytes \<Rightarrow> bytes result" where
  "to_ascii v =
     (case v of
        Inl u \<Rightarrow> if \<exists>c \<in> set u. 256 \<le> c then raise StructError else return (map of_nat u)
      | Inr b \<Rightarrow> return b)"

text \<open>\<^verbatim>\<open>sha256_as_int\<close>, \<^verbatim>\<open>sha256_4_as_int\<close> and \<^verbatim>\<open>sha512_as_int\<close>; the hash functions are arguments.\<close>

datatype hash_mode = Sha256 | Sha256_4 | Sha512

record hashes =
  sha256 :: "bytes \<Rightarrow> bytes"
  sha512 :: "bytes \<Rightarrow> bytes"

definition hash_as_int :: "hashes \<Rightarrow> hash_mode \<Rightarrow> unicode + bytes \<Rightarrow> nat result" where
  "hash_as_int H mode v =
     bind_result (to_ascii v) (\<lambda>b.
       return (str_to_num (case mode of Sha256 \<Rightarrow> sha256 H b | Sha256_4 \<Rightarrow> take 4 (sha256 H b) | Sha512 \<Rightarrow> sha512 H b)))"

fun hash_bitspace :: "hash_mode \<Rightarrow> nat" where
  "hash_bitspace Sha256 = 256"
| "hash_bitspace Sha256_4 = 32"
| "hash_bitspace Sha512 = 512"

section \<open>Attestations\<close>

record bitpair =
  bp_a :: fp2
  bp_b :: fp2
  bp_complement :: fp2

definition compress_bitpair :: "bitpair \<Rightarrow> fp2" where
  "compress_bitpair b = mul_value (mul_value (bp_a b) (bp_b b)) (bp_complement b)"

definition bitpair_numbers :: "bitpair \<Rightarrow> int list" where
  "bitpair_numbers b = [fa (bp_a b), fb (bp_a b), fa (bp_b b), fb (bp_b b), fa (bp_complement b), fb (bp_complement b)]"

definition serialize_bitpair :: "bitpair \<Rightarrow> bytes result" where
  "serialize_bitpair b = pack_nums (bitpair_numbers b)"

definition unserialize_bitpair :: "bytes \<Rightarrow> int \<Rightarrow> bitpair result" where
  "unserialize_bitpair s p =
     bind_result (read_nums 6 s) (\<lambda>(nums, _).
       if length nums < 2 then raise IndexError
       else
         bind_result (linear_result p (nums ! 0) (nums ! 1)) (\<lambda>a.
           if length nums < 4 then raise IndexError
           else
             bind_result (linear_result p (nums ! 2) (nums ! 3)) (\<lambda>b.
               if length nums < 6 then raise IndexError
               else
                 bind_result (linear_result p (nums ! 4) (nums ! 5)) (\<lambda>c.
                   return \<lparr>bp_a = a, bp_b = b, bp_complement = c\<rparr>))))"

record attestation =
  at_pk :: public_key
  at_bitpairs :: "bitpair list"
  at_id_format :: "string option"

fun serialize_bitpairs :: "bitpair list \<Rightarrow> bytes result" where
  "serialize_bitpairs [] = return []"
| "serialize_bitpairs (b # bs) =
     bind_result (serialize_bitpair b) (\<lambda>x. bind_result (serialize_bitpairs bs) (\<lambda>y. return (x @ y)))"

definition serialize_attestation :: "attestation \<Rightarrow> bytes result" where
  "serialize_attestation att =
     bind_result (serialize_public_key (at_pk att)) (\<lambda>x.
       bind_result (serialize_bitpairs (at_bitpairs att)) (\<lambda>y. return (x @ y)))"

text \<open>The loop over the rest; what is written for a bit pair is never empty, so the rest gets shorter.\<close>

function unserialize_bitpairs :: "bytes \<Rightarrow> int \<Rightarrow> bitpair list result" where
  "unserialize_bitpairs s p =
     (if s = [] then return []
      else
        bind_result (unserialize_bitpair s p) (\<lambda>b.
          case serialize_bitpair b of
            Inl e \<Rightarrow> raise e
          | Inr x \<Rightarrow>
              if x = [] then raise RuntimeError
              else bind_result (unserialize_bitpairs (drop (length x) s) p) (\<lambda>bs. return (b # bs))))"
  by pat_completeness auto
termination by (relation "measure (\<lambda>(s, p). length s)") auto

declare unserialize_bitpairs.simps [simp del]

definition unserialize_attestation :: "bytes \<Rightarrow> string option \<Rightarrow> attestation result" where
  "unserialize_attestation s id_format =
     bind_result (unserialize_public_key s) (\<lambda>pk.
       case pk of
         None \<Rightarrow> raise AttributeError
       | Some pk \<Rightarrow>
           bind_result (serialize_public_key pk) (\<lambda>x.
             bind_result (unserialize_bitpairs (drop (length x) s) (pk_p pk)) (\<lambda>bs.
               return \<lparr>at_pk = pk, at_bitpairs = bs, at_id_format = id_format\<rparr>)))"

section \<open>Attesting\<close>

text \<open>The bits of a number, padded with zeros on the left.\<close>

definition padded_bits :: "nat \<Rightarrow> nat \<Rightarrow> int list" where
  "padded_bits v bitspace =
     (let A = map of_bool (binary_digits v) in replicate (bitspace - length A) 0 @ A)"

text \<open>Random numbers whose sum vanishes modulo \<open>p + 1\<close>.\<close>

definition generate_modular_additive_inverse :: "int \<Rightarrow> nat \<Rightarrow> nat list \<Rightarrow> int list rand" where
  "generate_modular_additive_inverse p n perm =
     rbind (rdraw (n - 1)) (\<lambda>R. rreturn (shuffled perm (R @ [p - sum_list R mod (p + 1) + 1])))"

definition private_part ::
  "(int \<Rightarrow> int \<Rightarrow> int) \<Rightarrow> public_key \<Rightarrow> int list \<Rightarrow> nat \<Rightarrow> (nat \<times> fp2) rand" where
  "private_part modinv pk R i =
     rbind (rresult (item R i)) (\<lambda>x.
       rbind (rresult (item R (i + 1))) (\<lambda>y.
         rbind (rencode modinv pk (pk_p pk - (x + y) mod (pk_p pk + 1) + 1)) (\<lambda>e. rreturn (i, e))))"

definition public_part :: "fp2 list \<Rightarrow> nat \<Rightarrow> (nat \<times> fp2 \<times> fp2) rand" where
  "public_part v i =
     rbind (rresult (item v i)) (\<lambda>x. rbind (rresult (item v (i + 1))) (\<lambda>y. rreturn (i, x, y)))"

text \<open>The position of a pair after the shuffle, which is what the map holds under its old position.\<close>

definition shuffle_map :: "(nat \<times> fp2 \<times> fp2) list \<Rightarrow> (nat, nat) dict" where
  "shuffle_map ps = fold (\<lambda>(k, i, _). dict_set i (2 * k)) (enumerate 0 ps) []"

definition pair_of :: "(nat \<times> fp2 \<times> fp2) list \<Rightarrow> fp2 list \<Rightarrow> nat \<times> fp2 \<Rightarrow> (nat \<times> fp2) result" where
  "pair_of ps out_public = (\<lambda>(i, e).
     case dict_get (shuffle_map ps) i of None \<Rightarrow> raise KeyError | Some k \<Rightarrow> return (k, e))"

definition make_bitpair :: "fp2 list \<Rightarrow> nat \<times> fp2 \<Rightarrow> bitpair result" where
  "make_bitpair out_public = (\<lambda>(i, e).
     bind_result (item out_public i) (\<lambda>a.
       bind_result (item out_public (i + 1)) (\<lambda>b. return \<lparr>bp_a = a, bp_b = b, bp_complement = e\<rparr>)))"

text \<open>The three permutations are those of the random numbers, the public and the private part.\<close>

definition attest ::
  "(int \<Rightarrow> int \<Rightarrow> int) \<Rightarrow> public_key \<Rightarrow> nat \<Rightarrow> nat \<Rightarrow> nat list \<times> nat list \<times> nat list \<Rightarrow> attestation rand" where
  "attest modinv pk v bitspace = (\<lambda>(perm1, perm2, perm3).
     let A = padded_bits v bitspace
     in rbind (generate_modular_additive_inverse (pk_p pk) bitspace perm1) (\<lambda>R.
        rbind (rmap (\<lambda>(a, b). rencode modinv pk (a + b)) (zip A R)) (\<lambda>t_out_public_v.
        rbind (rmap (private_part modinv pk R) (even_range (length A - 1))) (\<lambda>t_out_private.
        rbind (rmap (public_part t_out_public_v) (even_range (length t_out_public_v))) (\<lambda>t_out_public.
          let t_out_public = shuffled perm2 t_out_public;
              out_public = concat (map (\<lambda>(i, v1, v2). [v1, v2]) t_out_public)
          in rbind (rresult (map_result (pair_of t_out_public out_public) t_out_private)) (\<lambda>out_private.
             rbind (rresult (map_result (make_bitpair out_public) (shuffled perm3 out_private))) (\<lambda>bitpairs.
               rreturn \<lparr>at_pk = pk, at_bitpairs = bitpairs, at_id_format = None\<rparr>)))))))"

section \<open>Relativity maps\<close>

type_synonym relativity_map = "(nat, nat) dict"

definition create_empty_relativity_map :: relativity_map where
  "create_empty_relativity_map = [(0, 0), (1, 0), (2, 0), (3, 0)]"

definition count_response :: "nat \<Rightarrow> relativity_map \<Rightarrow> relativity_map result" where
  "count_response r d = (case dict_get d r of None \<Rightarrow> raise KeyError | Some n \<Rightarrow> return (dict_set r (n + 1) d))"

definition binary_relativity :: "nat \<Rightarrow> nat \<Rightarrow> relativity_map result" where
  "binary_relativity v bitspace =
     (let A = padded_bits v bitspace
      in bind_result
           (foldl (\<lambda>out i. bind_result out (\<lambda>out.
                bind_result (item A i) (\<lambda>x. bind_result (item A (i + 1)) (\<lambda>y. count_response (nat (x + y)) out))))
              (return [(0, 0), (1, 0), (2, 0)]) (even_range (bitspace - 1)))
           (\<lambda>out. return (dict_set 3 0 out)))"

text \<open>Floating-point numbers are taken to be rational numbers.\<close>

fun relativity_match :: "(nat \<times> nat) list \<Rightarrow> relativity_map \<Rightarrow> rat \<Rightarrow> rat result" where
  "relativity_match [] d acc = return acc"
| "relativity_match ((k, v) # es) d acc =
     (case dict_get d k of
        None \<Rightarrow> raise KeyError
      | Some n \<Rightarrow>
          if v < n then return 0
          else if v = 0 \<or> n = 0 then relativity_match es d acc
          else relativity_match es d (acc * (of_nat n / of_nat v)))"

definition binary_relativity_match :: "relativity_map \<Rightarrow> relativity_map \<Rightarrow> rat result" where
  "binary_relativity_match expected d = relativity_match expected d 1"

definition binary_relativity_certainty :: "relativity_map \<Rightarrow> relativity_map \<Rightarrow> rat result" where
  "binary_relativity_certainty expected d =
     bind_result (binary_relativity_match expected d) (\<lambda>m.
       return (m * (1 - (1 / 2) ^ sum_list (dict_values d))))"

section \<open>Challenges\<close>

definition create_challenge :: "(int \<Rightarrow> int \<Rightarrow> int) \<Rightarrow> public_key \<Rightarrow> bitpair \<Rightarrow> fp2 rand" where
  "create_challenge modinv pk b = rbind (rencode modinv pk 0) (\<lambda>e. rreturn (mul_value (compress_bitpair b) e))"

definition create_honesty_check :: "(int \<Rightarrow> int \<Rightarrow> int) \<Rightarrow> public_key \<Rightarrow> int \<Rightarrow> fp2 rand" where
  "create_honesty_check modinv pk v = rencode modinv pk v"

definition create_challenge_response :: "(int \<Rightarrow> int \<Rightarrow> int) \<Rightarrow> private_key \<Rightarrow> fp2 \<Rightarrow> int" where
  "create_challenge_response modinv sk c = (case boneh_decode modinv sk [0, 1, 2] c of None \<Rightarrow> 3 | Some m \<Rightarrow> m)"

definition create_challenge_response_from_pair :: "(int \<Rightarrow> int \<Rightarrow> int) \<Rightarrow> private_key \<Rightarrow> int \<Rightarrow> int \<Rightarrow> int" where
  "create_challenge_response_from_pair modinv sk a b = create_challenge_response modinv sk (linear (pk_p sk) a b)"

section \<open>The algorithm object\<close>

text \<open>\<^verbatim>\<open>BonehExactAlgorithm.__init__\<close>: the checks of an identity format.\<close>

definition check_boneh_format :: "string \<Rightarrow> int \<Rightarrow> string \<Rightarrow> hash_mode result" where
  "check_boneh_format algorithm key_size hash =
     (if algorithm \<noteq> ''bonehexact'' then raise RuntimeError
      else if key_size < 32 \<or> 512 < key_size then raise RuntimeError
      else if hash = ''sha256'' then return Sha256
      else if hash = ''sha256_4'' then return Sha256_4
      else if hash = ''sha512'' then return Sha512
      else raise RuntimeError)"

definition boneh_attest ::
  "hashes \<Rightarrow> hash_mode \<Rightarrow> (int \<Rightarrow> int \<Rightarrow> int) \<Rightarrow> public_key \<Rightarrow> bytes \<Rightarrow> nat list \<times> nat list \<times> nat list \<Rightarrow> bytes rand" where
  "boneh_attest H mode modinv pk v perms =
     rbind (rresult (hash_as_int H mode (Inr v))) (\<lambda>n.
       rbind (attest modinv pk n (hash_bitspace mode) perms) (\<lambda>att. rresult (serialize_attestation att)))"

definition boneh_certainty :: "hashes \<Rightarrow> hash_mode \<Rightarrow> bytes \<Rightarrow> relativity_map \<Rightarrow> rat result" where
  "boneh_certainty H mode v aggregate =
     bind_result (hash_as_int H mode (Inr v)) (\<lambda>n.
       bind_result (binary_relativity n (hash_bitspace mode)) (\<lambda>e. binary_relativity_certainty e aggregate))"

definition boneh_create_challenges :: "(int \<Rightarrow> int \<Rightarrow> int) \<Rightarrow> attestation \<Rightarrow> bytes list rand" where
  "boneh_create_challenges modinv att =
     rmap (\<lambda>b. rbind (create_challenge modinv (at_pk att) b) (\<lambda>c. rresult (pack_pair (fa c) (fb c)))) (at_bitpairs att)"

text \<open>\<^verbatim>\<open>struct.pack(">B", n)\<close> and back.\<close>

definition pack_byte :: "int \<Rightarrow> bytes result" where
  "pack_byte n = (if 0 \<le> n \<and> n < 256 then return [of_nat (nat n)] else raise StructError)"

definition unpack_byte :: "bytes \<Rightarrow> nat result" where
  "unpack_byte b = (case b of [x] \<Rightarrow> return (unat x) | _ \<Rightarrow> raise StructError)"

definition boneh_challenge_response :: "(int \<Rightarrow> int \<Rightarrow> int) \<Rightarrow> private_key \<Rightarrow> bytes \<Rightarrow> bytes result" where
  "boneh_challenge_response modinv sk challenge =
     bind_result (unpack_pair challenge) (\<lambda>(a, b, _). pack_byte (create_challenge_response_from_pair modinv sk a b))"

definition boneh_honesty_challenge :: "(int \<Rightarrow> int \<Rightarrow> int) \<Rightarrow> public_key \<Rightarrow> int \<Rightarrow> bytes rand" where
  "boneh_honesty_challenge modinv pk v =
     rbind (create_honesty_check modinv pk v) (\<lambda>c. rresult (pack_pair (fa c) (fb c)))"

definition boneh_process_honesty :: "int \<Rightarrow> bytes \<Rightarrow> bool result" where
  "boneh_process_honesty v response = bind_result (unpack_byte response) (\<lambda>n. return (v = int n))"

text \<open>
  The lock all responses are counted under is released only when the counting did not raise; whoever
  acquires a held lock waits, without a result.
\<close>

definition process_challenge_response ::
  "nat \<Rightarrow> bool \<Rightarrow> relativity_map \<Rightarrow> (unit result \<times> bool \<times> relativity_map) option" where
  "process_challenge_response r locked d =
     (if locked then None
      else
        case count_response r d of
          Inl e \<Rightarrow> Some (raise e, True, d) | Inr d' \<Rightarrow> Some (return (), False, d'))"

definition boneh_process_response ::
  "bytes \<Rightarrow> bool \<Rightarrow> relativity_map \<Rightarrow> (unit result \<times> bool \<times> relativity_map) option" where
  "boneh_process_response response locked aggregate =
     (case unpack_byte response of
        Inl e \<Rightarrow> Some (raise e, locked, aggregate) | Inr n \<Rightarrow> process_challenge_response n locked aggregate)"

end
