(* ===== verification/Fp2_Properties.thy ===== *)
theory Fp2_Properties
  imports Fp2
begin

text \<open>
  The values of \<^verbatim>\<open>value.py\<close> as elements of a field: the ring of the polynomials modulo \<^verbatim>\<open>x^2 + x + 1\<close>, congruence in it, and
  what each operation of \<^theory_text>\<open>Fp2\<close> computes of the fraction it is given.
\<close>

section \<open>The ring of Eisenstein integers\<close>

text \<open>Pairs \<open>r + i x\<close> with \<open>x\<^sup>2 + x + 1 = 0\<close>.\<close>

datatype eis = Eis (re: int) (im: int)

instantiation eis :: comm_ring_1
begin

definition zero_eis :: eis where "0 = Eis 0 0"
definition one_eis :: eis where "1 = Eis 1 0"
definition plus_eis :: "eis \<Rightarrow> eis \<Rightarrow> eis" where "u + v = Eis (re u + re v) (im u + im v)"
definition minus_eis :: "eis \<Rightarrow> eis \<Rightarrow> eis" where "u - v = Eis (re u - re v) (im u - im v)"
definition uminus_eis :: "eis \<Rightarrow> eis" where "- u = Eis (- re u) (- im u)"
definition times_eis :: "eis \<Rightarrow> eis \<Rightarrow> eis" where
  "u * v = Eis (re u * re v - im u * im v) (re u * im v + im u * re v - im u * im v)"

instance
  by standard (auto simp: zero_eis_def one_eis_def plus_eis_def minus_eis_def uminus_eis_def times_eis_def
      algebra_simps)

end

lemmas eis_simps = zero_eis_def one_eis_def plus_eis_def minus_eis_def uminus_eis_def times_eis_def

lemma of_int_eis: "of_int n = Eis n 0"
proof -
  have "of_nat m = Eis (int m) 0" for m by (induction m) (simp_all add: eis_simps)
  then show ?thesis by (cases n) (simp_all add: eis_simps of_nat_diff)
qed

section \<open>Congruence modulo a number\<close>

definition cong :: "int \<Rightarrow> eis \<Rightarrow> eis \<Rightarrow> bool" where
  "cong p u v \<longleftrightarrow> of_int p dvd u - v"

lemma dvd_eis: "of_int p dvd u \<longleftrightarrow> p dvd re u \<and> p dvd im u"
proof
  assume "of_int p dvd u"
  then show "p dvd re u \<and> p dvd im u" by (auto simp: of_int_eis eis_simps elim!: dvdE)
next
  assume "p dvd re u \<and> p dvd im u"
  then obtain a b where "re u = p * a" "im u = p * b" by (auto elim!: dvdE)
  then have "u = of_int p * Eis a b" by (cases u) (simp add: of_int_eis eis_simps)
  then show "of_int p dvd u" by (rule dvdI)
qed

lemma cong_iff: "cong p u v \<longleftrightarrow> re u mod p = re v mod p \<and> im u mod p = im v mod p"
  by (simp add: cong_def dvd_eis minus_eis_def mod_eq_dvd_iff)

lemma cong_refl [simp]: "cong p u u"
  by (simp add: cong_def)

lemma cong_sym: "cong p u v \<Longrightarrow> cong p v u"
  by (simp add: cong_iff)

lemma cong_trans [trans]: "cong p u v \<Longrightarrow> cong p v w \<Longrightarrow> cong p u w"
  by (simp add: cong_iff)

lemma cong_add: "cong p u u' \<Longrightarrow> cong p v v' \<Longrightarrow> cong p (u + v) (u' + v')"
  unfolding cong_def using dvd_add [of "of_int p" "u - u'" "v - v'"] by (simp add: algebra_simps)

lemma cong_mult:
  assumes "cong p u u'" "cong p v v'" shows "cong p (u * v) (u' * v')"
proof -
  have "u * v - u' * v' = (u - u') * v + u' * (v - v')" by (simp add: algebra_simps)
  then show ?thesis using assms by (simp add: cong_def)
qed

lemma cong_power: "cong p u v \<Longrightarrow> cong p (u ^ n) (v ^ n)"
  by (induction n) (simp_all add: cong_mult)

lemma cong_transs: "cong p u v \<Longrightarrow> u = u' \<Longrightarrow> v = v' \<Longrightarrow> cong p u' v'"
  by simp

section \<open>Values as fractions\<close>

definition num :: "fp2 \<Rightarrow> eis" where "num v = Eis (fa v - fc v) (fb v - fc v)"
definition den :: "fp2 \<Rightarrow> eis" where "den v = Eis (fA v - fC v) (fB v - fC v)"

lemma mod_diff_mod: "(a mod m - b mod m) mod m = (a - b) mod (m :: int)"
  by (rule mod_diff_eq)

lemma num_value_of: "cong m (num (value_of m a b c aC bC cC)) (Eis (a - c) (b - c))"
  and den_value_of: "cong m (den (value_of m a b c aC bC cC)) (Eis (aC - cC) (bC - cC))"
  by (simp_all add: cong_iff num_def den_def value_of_def mod_diff_eq)

lemma modulus_simps [simp]:
  "modulus (value_of m a b c aC bC cC) = m" "modulus (add_value s t) = modulus s" "modulus (sub_value s t) = modulus s"
  "modulus (mul_value s t) = modulus s" "modulus (div_value s t) = modulus s" "modulus (inverse_value s) = modulus s"
  "modulus (normalize modinv s) = modulus s"
  by (simp_all add: value_of_def add_value_def sub_value_def mul_value_def div_value_def inverse_value_def normalize_def Let_def)

lemma mul_value_cong:
  "cong (modulus s) (num (mul_value s t)) (num s * num t)" "cong (modulus s) (den (mul_value s t)) (den s * den t)"
  unfolding mul_value_def
  by (rule cong_transs [OF num_value_of refl] cong_transs [OF den_value_of refl],
      simp add: num_def den_def times_eis_def algebra_simps)+

lemma div_value_cong:
  "cong (modulus s) (num (div_value s t)) (num s * den t)" "cong (modulus s) (den (div_value s t)) (den s * num t)"
  unfolding div_value_def
  by (rule cong_transs [OF num_value_of refl] cong_transs [OF den_value_of refl],
      simp add: num_def den_def times_eis_def algebra_simps)+

lemma sub_value_cong:
  "cong (modulus s) (num (sub_value s t)) (num s * den t - num t * den s)"
  "cong (modulus s) (den (sub_value s t)) (den s * den t)"
  unfolding sub_value_def
  by (rule cong_transs [OF num_value_of refl] cong_transs [OF den_value_of refl],
      simp add: num_def den_def times_eis_def minus_eis_def algebra_simps)+

text \<open>The sum misses one product.\<close>

lemma add_value_cong:
  "cong (modulus s) (num (add_value s t))
     (num s * den t + num t * den s + Eis ((fb s - fc s) * fB t) 0)"
  "cong (modulus s) (den (add_value s t)) (den s * den t)"
  unfolding add_value_def
  by (rule cong_transs [OF num_value_of refl] cong_transs [OF den_value_of refl],
      simp add: num_def den_def times_eis_def plus_eis_def algebra_simps)+

lemma inverse_value_cong:
  "cong (modulus v) (num (inverse_value v)) (den v)" "cong (modulus v) (den (inverse_value v)) (num v)"
  unfolding inverse_value_def
  by (rule cong_transs [OF num_value_of refl] cong_transs [OF den_value_of refl], simp add: num_def den_def)+

section \<open>Prime moduli\<close>

definition prime_number :: "int \<Rightarrow> bool" where
  "prime_number p \<longleftrightarrow> 1 < p \<and> (\<forall>d. 0 < d \<longrightarrow> d dvd p \<longrightarrow> d = 1 \<or> d = p)"

lemma prime_coprime:
  assumes "prime_number p" "\<not> p dvd a" shows "coprime a p"
proof -
  have "gcd a p dvd p" "0 < gcd a p" using assms(1) by (auto simp: prime_number_def)
  then have "gcd a p = 1 \<or> gcd a p = p" using assms(1) by (simp add: prime_number_def)
  moreover have "gcd a p \<noteq> p" using assms(2) by (metis gcd_dvd1)
  ultimately show ?thesis by (simp add: coprime_iff_gcd_eq_1)
qed

lemma prime_dvd_mult:
  assumes "prime_number p" "p dvd a * b" shows "p dvd a \<or> p dvd b"
  using prime_coprime [OF assms(1), of a] assms(2)
  by (metis coprime_commute coprime_dvd_mult_right_iff)

lemma prime_dvd_power: "prime_number p \<Longrightarrow> p dvd a ^ n \<Longrightarrow> p dvd a"
proof (induction n)
  case 0
  then show ?case by (auto simp: prime_number_def)
next
  case (Suc n)
  then show ?case using prime_dvd_mult [of p a "a ^ n"] by auto
qed

lemma prime_inverse:
  assumes "prime_number p" "\<not> p dvd a" obtains b where "a * b mod p = 1"
proof -
  obtain b c where "b * a + c * p = 1"
    using bezout_int [of a p] prime_coprime [OF assms] by (auto simp: coprime_iff_gcd_eq_1)
  then have "a * b = 1 + (- c) * p" by (simp add: algebra_simps)
  then have "a * b mod p = 1 mod p" by (metis mod_mult_self1)
  also have "1 mod p = 1" using assms(1) by (simp add: prime_number_def)
  finally show ?thesis by (rule that)
qed

text \<open>Fermat's little theorem, from the binomial theorem.\<close>

lemma prime_dvd_choose:
  assumes "prime_number (int p)" "0 < k" "k < p" shows "int p dvd int (p choose k)"
proof -
  obtain j q where j: "k = Suc j" and q: "p = Suc q" using assms by (metis gr0_implies_Suc less_imp_Suc_add)
  have "int k * int (p choose k) = int p * int (q choose j)"
    unfolding j q by (metis Suc_times_binomial_eq of_nat_mult mult.commute)
  then have "int p dvd int k * int (p choose k)" by simp
  moreover have "\<not> int p dvd int k" using assms(2,3) by (auto dest: zdvd_imp_le)
  ultimately show ?thesis using prime_dvd_mult [OF assms(1)] by blast
qed

lemma fermat_step:
  assumes "prime_number (int p)" shows "int p dvd (a + 1) ^ p - (a ^ p + 1)"
proof -
  have p: "1 < p" using assms by (simp add: prime_number_def)
  have "(a + 1) ^ p = (\<Sum>k\<le>p. of_nat (p choose k) * a ^ k)"
    by (simp add: binomial_ring)
  also have "{..p} = insert 0 (insert p {0<..<p})" using p by auto
  also have "(\<Sum>k\<in>insert 0 (insert p {0<..<p}). of_nat (p choose k) * a ^ k)
      = 1 + (a ^ p + (\<Sum>k\<in>{0<..<p}. of_nat (p choose k) * a ^ k))" using p by simp
  finally have "(a + 1) ^ p - (a ^ p + 1) = (\<Sum>k\<in>{0<..<p}. of_nat (p choose k) * a ^ k)" by simp
  moreover have "int p dvd (\<Sum>k\<in>{0<..<p}. of_nat (p choose k) * a ^ k)"
    by (intro dvd_sum dvd_mult2) (use prime_dvd_choose [OF assms] in auto)
  ultimately show ?thesis by simp
qed

lemma fermat_nat:
  assumes "prime_number (int p)" shows "int p dvd int n ^ p - int n"
proof (induction n)
  case 0
  then show ?case using assms by (auto simp: prime_number_def power_0_left)
next
  case (Suc n)
  have "int (Suc n) ^ p - int (Suc n) = ((int n + 1) ^ p - (int n ^ p + 1)) + (int n ^ p - int n)"
    by (simp add: algebra_simps)
  with dvd_add [OF fermat_step [OF assms, of "int n"] Suc] show ?case by metis
qed

lemma fermat:
  assumes "prime_number p" shows "p dvd z ^ nat p - z"
proof -
  have p: "1 < p" "prime_number (int (nat p))" using assms by (simp_all add: prime_number_def)
  have z: "int (nat (z mod p)) = z mod p" using p(1) by simp
  have "int (nat p) dvd int (nat (z mod p)) ^ nat p - int (nat (z mod p))" by (rule fermat_nat [OF p(2)])
  then have "(z mod p) ^ nat p mod p = (z mod p) mod p" using p(1) unfolding z mod_eq_dvd_iff by simp
  then have "z ^ nat p mod p = z mod p" by (simp add: power_mod)
  then show ?thesis by (simp add: mod_eq_dvd_iff)
qed

text \<open>Modulo such a prime, \<open>x\<^sup>2 + x + 1\<close> has no root, and every value but zero has an inverse.\<close>

definition field_modulus :: "int \<Rightarrow> bool" where
  "field_modulus p \<longleftrightarrow> prime_number p \<and> p mod 3 = 2"

lemma no_root:
  assumes "field_modulus p" shows "\<not> p dvd z * z - z + 1"
proof
  assume z: "p dvd z * z - z + 1"
  have p: "prime_number p" "p mod 3 = 2" "1 < p" using assms by (auto simp: field_modulus_def prime_number_def)
  obtain k where k: "nat p = 3 * k + 2"
  proof -
    have "p = 3 * (p div 3) + 2" using p(2) div_mult_mod_eq [of p 3] by simp
    moreover have "0 \<le> p div 3" using p(3) by simp
    ultimately have "nat p = 3 * nat (p div 3) + 2" by linarith
    then show ?thesis by (rule that)
  qed
  have cube: "p dvd z ^ 3 - (- 1)"
  proof -
    have "z ^ 3 - (- 1) = (z + 1) * (z * z - z + 1)" by (simp add: algebra_simps power3_eq_cube)
    with z show ?thesis by simp
  qed
  have "(z ^ 3) ^ k mod p = (- 1) ^ k mod p" using cube by (metis mod_eq_dvd_iff power_mod)
  then have "((z ^ 3) ^ k * z ^ 2) mod p = ((- 1) ^ k * z ^ 2) mod p" by (metis mod_mult_left_eq)
  moreover have "(z ^ 3) ^ k * z ^ 2 = z ^ nat p" by (simp add: k power_add power_mult power2_eq_square)
  moreover have "z ^ nat p mod p = z mod p" using fermat [OF p(1), of z] by (simp add: mod_eq_dvd_iff)
  ultimately have e: "((- 1) ^ k * z ^ 2) mod p = z mod p" by simp
  have nz: "\<not> p dvd z"
  proof
    assume "p dvd z"
    then have "p dvd z * z - z" by simp
    with z have "p dvd 1" by (metis add_diff_cancel_left' dvd_diff)
    with p(3) show False by simp
  qed
  have "p dvd (- 1) ^ k * z ^ 2 - z" using e by (simp add: mod_eq_dvd_iff)
  also have "(- 1) ^ k * z ^ 2 - z = z * ((- 1) ^ k * z - 1)"
    by (simp only: power2_eq_square right_diff_distrib mult.left_commute [of z] mult.assoc mult_1_right)
  finally have "p dvd z * ((- 1) ^ k * z - 1)" .
  then have d: "p dvd (- 1) ^ k * z - 1" using prime_dvd_mult [OF p(1)] nz by blast
  show False
  proof (cases "even k")
    case True
    with d have d: "p dvd z - 1" by simp
    have "z * z - z + 1 = (z - 1) * z + 1" by (simp add: algebra_simps)
    with z d have "p dvd 1" by (metis add_diff_cancel_left' dvd_diff dvd_mult2)
    with p(3) show False by simp
  next
    case False
    with d have d: "p dvd - z - 1" by simp
    have "z * z - z + 1 = (- z - 1) * (- z + 2) + 3" by (simp add: algebra_simps)
    with z d have "p dvd 3" by (metis add_diff_cancel_left' dvd_diff dvd_mult2)
    then have "p \<le> 3" by (auto dest: zdvd_imp_le)
    with p(2,3) \<open>p dvd 3\<close> have "p = 2 \<or> p = 3" by linarith
    with p(2) \<open>p dvd 3\<close> show False by auto
  qed
qed

definition norm_form :: "eis \<Rightarrow> int" where
  "norm_form u = re u * re u - re u * im u + im u * im u"

definition conjugate :: "eis \<Rightarrow> eis" where
  "conjugate u = Eis (re u - im u) (- im u)"

lemma mult_conjugate: "u * conjugate u = of_int (norm_form u)"
  by (simp add: conjugate_def norm_form_def of_int_eis times_eis_def algebra_simps)

lemma norm_form_nonzero:
  assumes "field_modulus p" "p dvd norm_form u" shows "cong p u 0"
proof -
  have p: "prime_number p" using assms(1) by (simp add: field_modulus_def)
  have im: "p dvd im u"
  proof (rule ccontr)
    assume n: "\<not> p dvd im u"
    obtain b where b: "im u * b mod p = 1" using prime_inverse [OF p n] .
    define z where "z = re u * b"
    have "p dvd im u * b - 1" using b p by (metis mod_eq_dvd_iff mod_mod_trivial)
    then have q: "im u * b mod p = 1 mod p" by (simp add: mod_eq_dvd_iff)
    have "p dvd norm_form u * (b * b)" using assms(2) by simp
    moreover have "norm_form u * (b * b) = z * z - z * (im u * b) + (im u * b) * (im u * b)"
      by (simp add: norm_form_def z_def algebra_simps)
    moreover have "(z * z - z * (im u * b) + (im u * b) * (im u * b)) mod p = (z * z - z * 1 + 1 * 1) mod p"
      using q by (intro mod_add_cong mod_diff_cong mod_mult_cong refl) auto
    ultimately have "p dvd z * z - z * 1 + 1 * 1" by (metis dvd_eq_mod_eq_0)
    with no_root [OF assms(1), of z] show False by simp
  qed
  moreover have "p dvd re u"
  proof -
    have "norm_form u = re u * re u + im u * (im u - re u)" by (simp add: norm_form_def algebra_simps)
    with assms(2) im have "p dvd re u * re u" by (metis dvd_add_left_iff dvd_mult2)
    with prime_dvd_mult [OF p] show ?thesis by blast
  qed
  ultimately show ?thesis by (simp add: cong_def dvd_eis)
qed

section \<open>Units\<close>

definition unit_mod :: "int \<Rightarrow> eis \<Rightarrow> bool" where
  "unit_mod p u \<longleftrightarrow> (\<exists>w. cong p (u * w) 1)"

lemma cong_mult_right: "cong p u v \<Longrightarrow> cong p (w * u) (w * v)"
  by (rule cong_mult) simp_all

lemma cong_mult_left: "cong p u v \<Longrightarrow> cong p (u * w) (v * w)"
  by (rule cong_mult) simp_all

lemma unit_cancel: "unit_mod p w \<Longrightarrow> cong p (u * w) (v * w) \<longleftrightarrow> cong p u v"
proof
  assume w: "unit_mod p w" and c: "cong p (u * w) (v * w)"
  obtain w' where w': "cong p (w * w') 1" using w by (auto simp: unit_mod_def)
  have "cong p (u * (w * w')) (u * 1)" "cong p (v * (w * w')) (v * 1)" using w' by (rule cong_mult_right)+
  moreover have "cong p (u * (w * w')) (v * (w * w'))" using cong_mult_left [OF c, of w'] by (simp add: mult.assoc)
  ultimately show "cong p u v" by (simp add: cong_iff)
qed (rule cong_mult_left)

lemma unit_mult [simp]: "unit_mod p u \<Longrightarrow> unit_mod p v \<Longrightarrow> unit_mod p (u * v)"
proof -
  assume "unit_mod p u" "unit_mod p v"
  then obtain u' v' where "cong p (u * u') 1" "cong p (v * v') 1" by (auto simp: unit_mod_def)
  then have "cong p ((u * u') * (v * v')) (1 * 1)" by (rule cong_mult)
  then have "cong p ((u * v) * (u' * v')) 1" by (simp add: mult.assoc mult.left_commute)
  then show ?thesis unfolding unit_mod_def by blast
qed

lemma unit_cong: "cong p u v \<Longrightarrow> unit_mod p u \<Longrightarrow> unit_mod p v"
  unfolding unit_mod_def by (meson cong_mult_left cong_sym cong_trans)

lemma unit_one [simp]: "unit_mod p 1"
  unfolding unit_mod_def by (rule exI [of _ 1]) simp

lemma unit_power: "unit_mod p u \<Longrightarrow> unit_mod p (u ^ n)"
  by (induction n) simp_all

lemma unit_left: "cong p (u * v) 1 \<Longrightarrow> unit_mod p u"
  unfolding unit_mod_def by blast

lemma unit_right: "cong p (u * v) 1 \<Longrightarrow> unit_mod p v"
  unfolding unit_mod_def by (subst mult.commute) blast

lemma unit_nonzero:
  assumes "field_modulus p" "\<not> cong p u 0" shows "unit_mod p u"
proof -
  have "\<not> p dvd norm_form u" using norm_form_nonzero [OF assms(1)] assms(2) by blast
  then obtain b where b: "norm_form u * b mod p = 1" using prime_inverse assms(1) by (auto simp: field_modulus_def)
  have "1 < p" using assms(1) by (simp add: field_modulus_def prime_number_def)
  then have "cong p (u * (conjugate u * of_int b)) 1"
    using b by (simp add: mult_conjugate flip: mult.assoc) (simp add: cong_iff of_int_eis eis_simps)
  then show ?thesis by (rule unit_left)
qed

lemma unit_not_zero: "1 < p \<Longrightarrow> unit_mod p u \<Longrightarrow> \<not> cong p u 0"
proof
  assume p: "1 < p" and u: "unit_mod p u" "cong p u 0"
  then obtain w where w: "cong p (u * w) 1" by (auto simp: unit_mod_def)
  have "cong p (u * w) (0 * w)" using u(2) by (rule cong_mult_left)
  from cong_trans [OF cong_sym [OF this] w] have "cong p 0 1" by simp
  with p show False by (simp add: cong_iff eis_simps)
qed

section \<open>What a value stands for\<close>

text \<open>
  \<open>rep p v x\<close>: the quotient \<open>v\<close> modulo \<open>p\<close> is \<open>x\<close>. The inverse function of the
  cryptography package inverts modulo a prime, and returns 0 for 0.
\<close>

definition rep :: "int \<Rightarrow> fp2 \<Rightarrow> eis \<Rightarrow> bool" where
  "rep p v x \<longleftrightarrow> modulus v = p \<and> unit_mod p (den v) \<and> cong p (num v) (x * den v)"

definition modinv_ok :: "(int \<Rightarrow> int \<Rightarrow> int) \<Rightarrow> int \<Rightarrow> bool" where
  "modinv_ok modinv p \<longleftrightarrow> modinv 0 p = 0 \<and> (\<forall>e. 0 < e \<longrightarrow> e < p \<longrightarrow> 0 < modinv e p \<and> e * modinv e p mod p = 1)"

lemma rep_cong: "rep p v x \<Longrightarrow> cong p x y \<Longrightarrow> rep p v y"
  by (auto simp: rep_def intro: cong_trans cong_mult_left)

lemma rep_unique: "rep p v x \<Longrightarrow> rep p v y \<Longrightarrow> cong p x y"
  using unit_cancel [of p "den v" x y] cong_trans [OF cong_sym, of p "num v" "x * den v" "y * den v"] by (simp add: rep_def)

lemma rep_I:
  assumes "modulus v = p" "cong p (num v) n" "cong p (den v) d" "unit_mod p d" "cong p n (x * d)"
  shows "rep p v x"
  using assms unfolding rep_def
  by (meson cong_mult_right cong_sym cong_trans unit_cong)

lemma rep_number: "1 < p \<Longrightarrow> rep p (number p a) (of_int a)"
  by (rule rep_I [OF _ num_value_of den_value_of]) (simp_all add: of_int_eis flip: one_eis_def)

lemma rep_linear: "1 < p \<Longrightarrow> rep p (linear p a b) (Eis a b)"
  by (rule rep_I [OF _ num_value_of den_value_of]) (simp_all flip: one_eis_def)

lemma rep_mul:
  assumes s: "rep p s x" and t: "rep p t y"
  shows "rep p (mul_value s t) (x * y)"
proof -
  have m: "modulus s = p" using s by (simp add: rep_def)
  have "cong p (num s * num t) ((x * den s) * (y * den t))" using s t by (auto simp: rep_def intro: cong_mult)
  then have "cong p (num s * num t) (x * y * (den s * den t))" by (simp add: algebra_simps)
  then show ?thesis
    by (intro rep_I [OF _ mul_value_cong [of s t, unfolded m]]) (use m s t in \<open>simp_all add: rep_def\<close>)
qed

lemma rep_div:
  assumes s: "rep p s x" and t: "rep p t y" and i: "cong p (y * y') 1"
  shows "rep p (div_value s t) (x * y')"
proof -
  have nt: "cong p (num t) (y * den t)" and m: "modulus s = p" using s t by (simp_all add: rep_def)
  have u: "unit_mod p (num t)" using unit_cong [OF cong_sym [OF nt]] t unit_left [OF i] by (simp add: rep_def)
  have "cong p (x * y' * (den s * num t)) (x * y' * (den s * (y * den t)))" by (intro cong_mult_right nt)
  also have "x * y' * (den s * (y * den t)) = (y * y') * (x * den s * den t)" by (simp add: algebra_simps)
  also have "cong p \<dots> (1 * (x * den s * den t))" by (rule cong_mult_left [OF i])
  finally have "cong p (num s * den t) (x * y' * (den s * num t))"
    using s by (auto simp: rep_def intro: cong_trans [OF cong_mult_left] cong_sym)
  then show ?thesis
    by (intro rep_I [OF _ div_value_cong [of s t, unfolded m]]) (use m u s in \<open>simp_all add: rep_def\<close>)
qed

lemma cong_diff: "cong p u u' \<Longrightarrow> cong p v v' \<Longrightarrow> cong p (u - v) (u' - v')"
  unfolding cong_def using dvd_diff [of "of_int p" "u - u'" "v - v'"] by (simp add: algebra_simps)

lemma rep_sub:
  assumes s: "rep p s x" and t: "rep p t y"
  shows "rep p (sub_value s t) (x - y)"
proof -
  have m: "modulus s = p" using s by (simp add: rep_def)
  have "cong p (num s * den t - num t * den s) (x * den s * den t - y * den t * den s)"
    using s t by (auto simp: rep_def intro: cong_diff cong_mult_left)
  then have "cong p (num s * den t - num t * den s) ((x - y) * (den s * den t))" by (simp add: algebra_simps)
  then show ?thesis
    by (intro rep_I [OF _ sub_value_cong [of s t, unfolded m]]) (use m s t in \<open>simp_all add: rep_def\<close>)
qed

text \<open>The sum is right when the denominator of the second value is a number or the numerator of the first one is.\<close>

lemma rep_sum:
  assumes s: "rep p s x" and t: "rep p t y"
  shows "cong p (num s * den t + num t * den s) (x * den s * den t + y * den t * den s)"
proof -
  have "cong p (num s * den t) (x * den s * den t)" "cong p (num t * den s) (y * den t * den s)"
    using s t by (auto simp: rep_def intro: cong_mult_left)
  then show ?thesis by (rule cong_add)
qed

lemma rep_add:
  assumes s: "rep p s x" and t: "rep p t y" and "p dvd (fb s - fc s) * fB t"
  shows "rep p (add_value s t) (x + y)"
proof -
  have m: "modulus s = p" using s by (simp add: rep_def)
  have z: "cong p (Eis ((fb s - fc s) * fB t) 0) 0" using assms(3) by (simp add: cong_iff eis_simps)
  have "cong p (num s * den t + num t * den s + Eis ((fb s - fc s) * fB t) 0) (x * den s * den t + y * den t * den s + 0)"
    using cong_add [OF rep_sum [OF s t] z] .
  then have "cong p (num s * den t + num t * den s + Eis ((fb s - fc s) * fB t) 0) ((x + y) * (den s * den t))"
    by (simp add: algebra_simps)
  then show ?thesis
    by (intro rep_I [OF _ add_value_cong [of s t, unfolded m]]) (use m s t in \<open>simp_all add: rep_def\<close>)
qed

text \<open>Otherwise it is wrong.\<close>

lemma not_rep_add:
  assumes s: "rep p s x" and t: "rep p t y" and "\<not> p dvd (fb s - fc s) * fB t"
  shows "\<not> rep p (add_value s t) (x + y)"
proof
  assume "rep p (add_value s t) (x + y)"
  moreover have m: "modulus s = p" using s by (simp add: rep_def)
  note ad = add_value_cong [of s t, unfolded m]
  ultimately have "cong p (num (add_value s t)) ((x + y) * (den s * den t))"
    using cong_trans [OF _ cong_mult_right [OF ad(2)]] by (simp add: rep_def)
  with ad(1) have c: "cong p (num s * den t + num t * den s + Eis ((fb s - fc s) * fB t) 0) ((x + y) * (den s * den t))"
    by (meson cong_sym cong_trans)
  have "cong p (num s * den t + num t * den s) (x * den s * den t + y * den t * den s)"
    by (rule rep_sum [OF s t])
  from cong_diff [OF c this] have "cong p (Eis ((fb s - fc s) * fB t) 0) 0" by (simp add: algebra_simps)
  with assms(3) show False by (simp add: cong_iff eis_simps dvd_eq_mod_eq_0)
qed

section \<open>Normal forms and equality\<close>

definition reduced :: "fp2 \<Rightarrow> bool" where
  "reduced v \<longleftrightarrow> (\<forall>x \<in> {fa v, fb v, fc v, fA v, fB v, fC v}. 0 \<le> x \<and> x < modulus v)"

lemma reduced_value_of [simp]: "0 < m \<Longrightarrow> reduced (value_of m a b c aC bC cC)"
  by (simp add: reduced_def value_of_def)

lemma normalize_cases:
  assumes "modinv_ok modinv (modulus v)" "1 < modulus v"
  obtains (inverse) mp where "fA v * mp mod modulus v = 1"
      "normalize modinv v = value_of (modulus v) (fa v * mp) (fb v * mp) (fc v * mp) (fA v * mp) (fB v * mp) (fC v * mp)"
  | (zero) "fA v mod modulus v = 0" "normalize modinv v = value_of (modulus v) (fa v) (fb v) (fc v) (fA v) (fB v) (fC v)"
proof (cases "fA v mod modulus v = 0")
  case True
  then show ?thesis using assms by (intro zero) (simp_all add: normalize_def modinv_ok_def)
next
  case False
  define mp where "mp = modinv (fA v mod modulus v) (modulus v)"
  have "0 \<le> fA v mod modulus v" using assms(2) by simp
  with False have e: "0 < fA v mod modulus v" by linarith
  have "fA v mod modulus v < modulus v" using assms(2) by simp
  with assms(1) e have mp: "0 < mp" "(fA v mod modulus v) * mp mod modulus v = 1"
    by (simp_all add: modinv_ok_def mp_def)
  then have one: "fA v * mp mod modulus v = 1" by (simp add: mod_mult_left_eq)
  have "1 mod modulus v = 1" using assms(2) by simp
  then show ?thesis using one mp(1)
    by (intro inverse [OF one]) (simp add: normalize_def value_of_def Let_def flip: mp_def)
qed

lemma scaled_cong:
  "cong m (num (value_of m (fa v * k) (fb v * k) (fc v * k) (fA v * k) (fB v * k) (fC v * k))) (num v * of_int k)"
  "cong m (den (value_of m (fa v * k) (fb v * k) (fc v * k) (fA v * k) (fB v * k) (fC v * k))) (den v * of_int k)"
  by (rule cong_transs [OF num_value_of refl] cong_transs [OF den_value_of refl],
      simp add: num_def den_def of_int_eis times_eis_def algebra_simps)+

lemma unit_of_int:
  assumes "1 < p" "a * k mod p = 1" shows "unit_mod p (of_int k)"
proof (rule unit_right)
  show "cong p (of_int a * of_int k) 1" using assms by (simp add: cong_iff of_int_eis eis_simps)
qed

lemma rep_normalize:
  assumes "modinv_ok modinv p" "1 < p" "rep p v x"
  shows "rep p (normalize modinv v) x"
proof -
  have m: "modulus v = p" using assms(3) by (simp add: rep_def)
  note sc = scaled_cong [of p v]
  consider (inverse) mp where "fA v * mp mod p = 1"
      "normalize modinv v = value_of p (fa v * mp) (fb v * mp) (fc v * mp) (fA v * mp) (fB v * mp) (fC v * mp)"
    | (zero) "normalize modinv v = value_of p (fa v * 1) (fb v * 1) (fc v * 1) (fA v * 1) (fB v * 1) (fC v * 1)"
    using normalize_cases [of modinv v] assms(1,2) m by auto
  then show ?thesis
  proof cases
    case inverse
    have "cong p (num v * of_int mp) (x * (den v * of_int mp))"
      using assms(3) cong_mult_left [of p "num v" "x * den v" "of_int mp"] by (simp add: rep_def mult.assoc)
    moreover have "unit_mod p (den v * of_int mp)"
      using assms(3) unit_of_int [OF assms(2) inverse(1)] by (simp add: rep_def)
    ultimately show ?thesis unfolding inverse(2) by (intro rep_I [OF _ sc]) simp_all
  next
    case zero
    show ?thesis unfolding zero using assms(3)
      by (intro rep_I [OF _ sc [of 1]]) (simp_all add: rep_def)
  qed
qed

lemma mod_eq_iff_cong_value:
  assumes "fc d = 0" "fC d = 0" "reduced d" "modulus d = p"
  shows "cong p (num d) (den d) \<longleftrightarrow> fa d = fA d \<and> fb d = fB d"
  using assms by (auto simp: cong_iff num_def den_def reduced_def)

lemma div_value_shape: "fc (div_value s t) = 0" "fC (div_value s t) = 0" "0 < modulus s \<Longrightarrow> reduced (div_value s t)"
  by (simp_all add: div_value_def) (simp_all add: value_of_def)

text \<open>The equality test compares the fractions.\<close>

lemma eq_value_iff:
  assumes "modinv_ok modinv p" "1 < p" "modulus s = p"
  shows "eq_value modinv s t \<longleftrightarrow> cong p (num s * den t) (num t * den s)"
proof -
  define d where "d = div_value s t"
  have d: "fc d = 0" "fC d = 0" "reduced d" "modulus d = p"
    using div_value_shape [of s t] assms(2,3) by (simp_all add: d_def)
  have "cong p (num d) (num s * den t)" "cong p (den d) (num t * den s)"
    using div_value_cong [of s t] assms(3) by (simp_all add: d_def mult.commute)
  then have "cong p (num s * den t) (num t * den s) \<longleftrightarrow> cong p (num d) (den d)"
    by (meson cong_sym cong_trans)
  also have "\<dots> \<longleftrightarrow> fa d = fA d \<and> fb d = fB d" by (rule mod_eq_iff_cong_value [OF d])
  also have "\<dots> \<longleftrightarrow> eq_value modinv s t"
  proof -
    let ?n = "normalize modinv d"
    have eq: "fa d = fA d \<longleftrightarrow> fa d mod p = fA d mod p" "fb d = fB d \<longleftrightarrow> fb d mod p = fB d mod p"
      using d(3,4) by (auto simp: reduced_def)
    have "fa ?n = fA ?n \<and> fb ?n = fB ?n \<and> fc ?n = fC ?n \<longleftrightarrow> fa d = fA d \<and> fb d = fB d"
    proof (cases rule: normalize_cases [of modinv d, unfolded d(4), OF assms(1,2)])
      case (1 mp)
      have k: "x * mp mod p = y * mp mod p \<longleftrightarrow> x mod p = y mod p" for x y
      proof
        assume "x * mp mod p = y * mp mod p"
        then have "(x * mp) * fA d mod p = (y * mp) * fA d mod p" by (metis mod_mult_left_eq)
        moreover have "(z * mp) * fA d mod p = z mod p" for z
        proof -
          have "(z * mp) * fA d mod p = z * (fA d * mp mod p) mod p" by (simp add: mod_mult_right_eq algebra_simps)
          with 1(1) show ?thesis by simp
        qed
        ultimately show "x mod p = y mod p" by simp
      next
        assume "x mod p = y mod p"
        then show "x * mp mod p = y * mp mod p" by (metis mod_mult_left_eq)
      qed
      show ?thesis unfolding 1(2) using k d(1,2,4) eq by (simp add: value_of_def)
    next
      case 2
      show ?thesis unfolding 2(2) using d(1,2,4) eq by (simp add: value_of_def)
    qed
    then show ?thesis by (simp add: eq_value_def Let_def flip: d_def)
  qed
  finally show ?thesis by simp
qed

lemma eq_value_rep:
  assumes "modinv_ok modinv p" "1 < p" "rep p s x" "rep p t y"
  shows "eq_value modinv s t \<longleftrightarrow> cong p x y"
proof -
  have "cong p (num s * den t) (x * (den s * den t))" "cong p (num t * den s) (y * (den s * den t))"
    using assms(3,4) cong_mult_left [of p "num s" "x * den s" "den t"] cong_mult_left [of p "num t" "y * den t" "den s"]
    by (simp_all add: rep_def algebra_simps)
  then have "cong p (num s * den t) (num t * den s) \<longleftrightarrow> cong p (x * (den s * den t)) (y * (den s * den t))"
    by (meson cong_sym cong_trans)
  also have "\<dots> \<longleftrightarrow> cong p x y" using assms(3,4) by (intro unit_cancel) (simp add: rep_def)
  finally show ?thesis using assms by (simp add: eq_value_iff rep_def)
qed

section \<open>Powers\<close>

definition pw :: "eis \<Rightarrow> eis \<Rightarrow> int \<Rightarrow> eis" where
  "pw x x' k = (if 0 \<le> k then x ^ nat k else x' ^ nat (- k))"

lemma cancel_powers:
  assumes "cong p (x * x') 1"
  shows "cong p (x ^ m * x' ^ n) (pw x x' (int m - int n))"
proof (cases "n \<le> m")
  case True
  have "x ^ m * x' ^ n = x ^ (m - n) * (x * x') ^ n" using True
    by (simp add: power_mult_distrib mult.assoc flip: power_add mult.assoc)
  moreover have "cong p \<dots> (x ^ (m - n) * 1)" using cong_power [OF assms, of n] by (intro cong_mult_right) simp
  ultimately show ?thesis using True by (simp add: pw_def nat_diff_distrib')
next
  case False
  then have "x ^ m * x' ^ n = (x * x') ^ m * x' ^ (n - m)"
    by (simp add: power_mult_distrib mult.assoc flip: power_add)
  moreover have "cong p \<dots> (1 * x' ^ (n - m))" using cong_power [OF assms, of m] by (intro cong_mult_left) simp
  ultimately show ?thesis using False by (simp add: pw_def nat_diff_distrib')
qed

lemma pw_split: "pw x x' k = x ^ nat k * x' ^ nat (- k)"
  by (simp add: pw_def)

lemma pw_add:
  assumes "cong p (x * x') 1" shows "cong p (pw x x' (a + b)) (pw x x' a * pw x x' b)"
proof -
  have "pw x x' a * pw x x' b = x ^ (nat a + nat b) * x' ^ (nat (- a) + nat (- b))"
    by (simp add: pw_split power_add algebra_simps)
  moreover have "int (nat a + nat b) - int (nat (- a) + nat (- b)) = a + b" by simp
  ultimately show ?thesis using cancel_powers [OF assms, of "nat a + nat b" "nat (- a) + nat (- b)"] by (metis cong_sym)
qed

lemma pw_inverse:
  assumes "cong p (x * x') 1" shows "cong p (pw x x' k * pw x x' (- k)) 1"
  using pw_add [OF assms, of k "- k"] by (simp add: pw_def [of _ _ 0] cong_sym)

lemma pw_nonneg: "0 \<le> k \<Longrightarrow> pw x x' k = x ^ nat k"
  by (simp add: pw_def)

lemma rep_pow_loop:
  "rep p r y \<Longrightarrow> rep p u x \<Longrightarrow> rep p (pow_loop r u n) (y * x ^ n)"
proof (induction r u n arbitrary: x y rule: pow_loop.induct)
  case (1 r u n)
  show ?case
  proof (cases "n = 0")
    case True
    with 1 show ?thesis by (simp add: pow_loop.simps)
  next
    case False
    let ?r = "if n mod 2 = 1 then mul_value r u else r" and ?y = "if n mod 2 = 1 then y * x else y"
    have "rep p (pow_loop ?r (mul_value u u) (n div 2)) (?y * (x * x) ^ (n div 2))"
      using 1(2,3) False by (intro 1(1)) (simp_all add: rep_mul)
    moreover have "?y * (x * x) ^ (n div 2) = y * x ^ n"
    proof -
      have "n = 2 * (n div 2) + n mod 2" by simp
      then have "x ^ n = (x * x) ^ (n div 2) * x ^ (n mod 2)" by (metis power_add power_mult power2_eq_square)
      then show ?thesis by (auto simp: algebra_simps)
    qed
    ultimately show ?thesis using False by (simp add: pow_loop.simps [of r u n])
  qed
qed

lemma rep_inverse:
  assumes "rep p v x" "cong p (x * x') 1" shows "rep p (inverse_value v) x'"
proof -
  have m: "modulus v = p" and c: "cong p (num v) (x * den v)" and u: "unit_mod p (den v)" using assms(1) by (simp_all add: rep_def)
  have "unit_mod p (num v)" using unit_cong [OF cong_sym [OF c]] u unit_left [OF assms(2)] by simp
  moreover have "cong p (den v) (x' * num v)"
  proof -
    have "cong p (x' * num v) (x' * (x * den v))" by (rule cong_mult_right [OF c])
    also have "x' * (x * den v) = (x * x') * den v" by (simp add: algebra_simps)
    also have "cong p \<dots> (1 * den v)" by (rule cong_mult_left [OF assms(2)])
    finally show ?thesis by (simp add: cong_sym)
  qed
  ultimately show ?thesis by (intro rep_I [OF _ inverse_value_cong [of v, unfolded m]]) (simp_all add: m)
qed

lemma rep_intpow:
  assumes "modinv_ok modinv p" "1 < p" "rep p v x" "cong p (x * x') 1"
  shows "rep p (intpow modinv v k) (pw x x' k)"
proof -
  define n where "n = nat (if k < 0 then - k else k)"
  have one: "rep p (number (modulus v) 1) 1" using rep_number [OF assms(2), of 1] assms(3) by (simp add: rep_def)
  have r: "rep p (pow_loop (number (modulus v) 1) v n) (x ^ n)" using rep_pow_loop [OF one assms(3), of n] by simp
  have i: "cong p (x ^ n * x' ^ n) 1" using cong_power [OF assms(4), of n] by (simp add: power_mult_distrib)
  have "rep p (normalize modinv (inverse_value (pow_loop (number (modulus v) 1) v n))) (x' ^ n)"
    by (rule rep_normalize [OF assms(1,2) rep_inverse [OF r i]])
  with r show ?thesis by (auto simp: intpow_def pw_def n_def Let_def)
qed

section \<open>Compression\<close>

lemma linear_cong: "cong p u v \<Longrightarrow> linear p (re u) (im u) = linear p (re v) (im v)"
  by (simp add: cong_iff value_of_def)

lemma mul_linear:
  assumes "1 < p"
  shows "mul_value (linear p (re u) (im u)) (linear p (re v) (im v)) = linear p (re (u * v)) (im (u * v))"
proof -
  have o: "1 mod p = 1" using assms by simp
  have "(re u mod p * (re v mod p) - im u mod p * (im v mod p)) mod p = (re u * re v - im u * im v) mod p"
    by (intro mod_diff_cong mod_mult_cong) simp_all
  moreover have "(im u mod p * (re v mod p) + re u mod p * (im v mod p) - im u mod p * (im v mod p)) mod p =
      (re u * im v + im u * re v - im u * im v) mod p"
    by (subst add.commute) (intro mod_diff_cong mod_add_cong mod_mult_cong; simp)
  ultimately show ?thesis using o by (simp add: mul_value_def value_of_def times_eis_def)
qed

lemma number_quotient:
  assumes "modinv_ok modinv p" "1 < p" "\<not> p dvd q"
  obtains k where "q * k mod p = 1" "\<And>c. fa (normalize modinv (div_value (number p c) (number p q))) = c * k mod p"
proof -
  define k where "k = modinv (q mod p) p"
  have o: "1 mod p = 1" using assms(2) by simp
  have q: "0 \<le> q mod p" "q mod p < p" "q mod p \<noteq> 0" using assms(2,3) by (auto simp: dvd_eq_mod_eq_0)
  then have k: "0 < k" "q mod p * k mod p = 1" using assms(1) by (simp_all add: modinv_ok_def k_def)
  then have one: "q * k mod p = 1" by (simp add: mod_mult_left_eq)
  have "fa (normalize modinv (div_value (number p c) (number p q))) = c * k mod p" for c
    using k(1) o by (simp add: normalize_def div_value_def value_of_def k_def Let_def mod_mult_left_eq)
  with one show ?thesis by (rule that)
qed

lemma compress_value_rep:
  assumes "field_modulus p" "modinv_ok modinv p" "rep p v x" "fc v = 0" "fC v = 0"
  shows "compress_value modinv v = linear p (re x) (im x)"
proof -
  have p: "1 < p" using assms(1) by (simp add: field_modulus_def prime_number_def)
  have m: "modulus v = p" using assms(3) by (simp add: rep_def)
  define n where "n = normalize modinv v"
  have n: "rep p n x" unfolding n_def by (rule rep_normalize [OF assms(2) p assms(3)])
  have nc: "fc n = 0" "fC n = 0" "modulus n = p"
    using assms(4,5) m by (auto simp: n_def normalize_def value_of_def Let_def)
  have nd: "num n = Eis (fa n) (fb n)" "den n = Eis (fA n) (fB n)" using nc by (simp_all add: num_def den_def)
  define q where "q = norm_form (den n)"
  have "\<not> cong p (den n) 0" using n unit_not_zero [OF p] by (simp add: rep_def)
  then have q: "\<not> p dvd q" using norm_form_nonzero [OF assms(1)] unfolding q_def by blast
  obtain k where k: "q * k mod p = 1" and quot: "\<And>c. fa (normalize modinv (div_value (number p c) (number p q))) = c * k mod p"
    using number_quotient [OF assms(2) p q] by blast
  let ?w = "conjugate (den n) * of_int k"
  have qd: "q = fA n * fA n - fA n * fB n + fB n * fB n" by (simp add: q_def norm_form_def nd)
  have "wp_denom_inverse modinv n = linear p ((fA n - fB n) * k mod p) (- fB n * k mod p)"
    unfolding wp_denom_inverse_def nc(3) Let_def quot [unfolded qd] by (rule refl)
  also have "\<dots> = linear p (re ?w) (im ?w)"
    by (simp add: nd conjugate_def of_int_eis times_eis_def value_of_def)
  finally have "compress_value modinv v = mul_value (linear p (re (num n)) (im (num n))) (linear p (re ?w) (im ?w))"
    by (simp add: compress_value_def Let_def wp_nominator_def nd nc(3) flip: n_def)
  also have "\<dots> = linear p (re (num n * ?w)) (im (num n * ?w))" by (rule mul_linear [OF p])
  also have "\<dots> = linear p (re x) (im x)"
  proof (rule linear_cong)
    have "cong p (num n * ?w) (x * den n * ?w)" using n by (auto simp: rep_def intro: cong_mult_left)
    also have "x * den n * ?w = x * of_int (q * k)" by (simp add: q_def algebra_simps flip: mult_conjugate)
    also have "cong p \<dots> (x * 1)"
      using k p by (intro cong_mult_right) (simp add: cong_iff of_int_eis eis_simps)
    finally show "cong p (num n * ?w) x" by simp
  qed
  finally show ?thesis .
qed

section \<open>Properties\<close>

text \<open>C19: Over a modulus that the key generation accepts (a prime that is 2 modulo 3), two values are equal for
  \<^verbatim>\<open>==\<close> exactly if their cross products agree in the ring of polynomials modulo the modulus and
  \<open>x\<^sup>2 + x + 1\<close>, and values that stand for the same element compress to the same value.\<close>

theorem equality_is_equality_of_fractions:
  assumes "modinv_ok modinv p" "field_modulus p" "modulus s = p" "modulus t = p"
  shows "fp2_eq modinv s t = return (cong p (num s * den t) (num t * den s)) \<and>
    (rep p s x \<and> fc s = 0 \<and> fC s = 0 \<longrightarrow> wp_compress modinv s = return (linear p (re x) (im x)))"
proof -
  have p: "1 < p" using assms(2) by (simp add: field_modulus_def prime_number_def)
  show ?thesis
    using assms(3,4) eq_value_iff [OF assms(1) p assms(3)] compress_value_rep [OF assms(2,1), of s x]
    by (simp add: fp2_eq_def same_modulus_def wp_compress_def)
qed

text \<open>C20: Products, quotients, differences and powers, negative ones included, stand for the products, quotients,
  differences and powers of what the values stand for.\<close>

theorem arithmetic_is_field_arithmetic:
  assumes "modinv_ok modinv p" "1 < p" "rep p s x" "rep p t y" "cong p (y * y') 1"
  shows "rep p (mul_value s t) (x * y) \<and> rep p (div_value s t) (x * y') \<and> rep p (sub_value s t) (x - y) \<and>
    rep p (inverse_value t) y' \<and> rep p (intpow modinv t k) (pw y y' k) \<and> rep p (normalize modinv s) x"
  by (intro conjI rep_mul [OF assms(3,4)] rep_div [OF assms(3-5)] rep_sub [OF assms(3,4)] rep_inverse [OF assms(4,5)]
      rep_intpow [OF assms(1,2,4,5)] rep_normalize [OF assms(1-3)])

text \<open>A sum stands for the sum of what the values stand for exactly if the product of the first value's coefficients
  of \<open>x\<close> (less that of \<open>x\<^sup>2\<close>) and the second value's denominator's coefficient of \<open>x\<close> vanishes,
  as that product is missing from the formula.\<close>

theorem sum_misses_a_product:
  assumes "rep p s x" "rep p t y"
  shows "rep p (add_value s t) (x + y) \<longleftrightarrow> p dvd (fb s - fc s) * fB t"
  using rep_add [OF assms] not_rep_add [OF assms] by blast

section \<open>Concrete values\<close>

definition ex_modinv :: "int \<Rightarrow> int \<Rightarrow> int" where
  "ex_modinv e m =
     (if e = 1 then 1 else if e = 2 then 6 else if e = 3 then 4 else if e = 4 then 3 else if e = 5 then 9
      else if e = 6 then 2 else if e = 7 then 8 else if e = 8 then 7 else if e = 9 then 5 else if e = 10 then 10 else 0)"

lemma less_11: "0 \<le> (e :: int) \<Longrightarrow> e < 11 \<Longrightarrow> e \<in> {0, 1, 2, 3, 4, 5, 6, 7, 8, 9, 10}"
  unfolding insert_iff empty_iff by presburger

lemma ex_modinv_ok: "modinv_ok ex_modinv 11"
  unfolding modinv_ok_def
proof (intro conjI allI impI)
  fix e :: int assume "0 < e" "e < 11"
  then have "e \<in> {0, 1, 2, 3, 4, 5, 6, 7, 8, 9, 10}" by (intro less_11) simp_all
  with \<open>0 < e\<close> show "0 < ex_modinv e 11" "e * ex_modinv e 11 mod 11 = 1" by (auto simp: ex_modinv_def)
qed (simp add: ex_modinv_def)

lemma field_modulus_11: "field_modulus 11"
proof -
  have "d = 1 \<or> d = 11" if "0 < d" "d dvd 11" for d :: int
  proof -
    have "d \<le> 11" using that by (auto dest: zdvd_imp_le)
    then have "d = 11 \<or> d \<in> {0, 1, 2, 3, 4, 5, 6, 7, 8, 9, 10}" using that(1) less_11 [of d] by linarith
    with that show ?thesis by auto
  qed
  then show ?thesis by (simp add: field_modulus_def prime_number_def)
qed

theorem equality_is_equality_of_fractions_witness:
  "fp2_eq ex_modinv (value_of 11 2 4 0 2 0 0) (linear 11 1 2) = return True \<and>
   wp_compress ex_modinv (value_of 11 2 4 0 2 0 0) = return (linear 11 1 2)"
proof -
  have r: "rep 11 (value_of 11 2 4 0 2 0 0) (Eis 1 2)"
  proof (rule rep_I [OF _ num_value_of den_value_of])
    show "unit_mod 11 (Eis (2 - 0) (0 - 0))"
      by (rule unit_left [of _ _ "Eis 6 0"]) (simp add: cong_iff eis_simps)
    show "cong 11 (Eis (2 - 0) (4 - 0)) (Eis 1 2 * Eis (2 - 0) (0 - 0))" by (simp add: cong_iff eis_simps)
  qed simp
  have c: "cong 11 (num (value_of 11 2 4 0 2 0 0) * den (linear 11 1 2)) (num (linear 11 1 2) * den (value_of 11 2 4 0 2 0 0))"
    by (simp add: cong_iff num_def den_def value_of_def times_eis_def)
  have n: "fc (value_of 11 2 4 0 2 0 0) = 0" "fC (value_of 11 2 4 0 2 0 0) = 0" by (simp_all add: value_of_def)
  show ?thesis
    using equality_is_equality_of_fractions [OF ex_modinv_ok field_modulus_11, of "value_of 11 2 4 0 2 0 0" "linear 11 1 2" "Eis 1 2"]
      r c n by simp
qed

theorem arithmetic_is_field_arithmetic_witness:
  "rep 11 (div_value (linear 11 3 0) (linear 11 2 0)) (Eis 18 0) \<and>
   rep 11 (intpow ex_modinv (linear 11 2 0) (- 1)) (Eis 6 0)"
  using arithmetic_is_field_arithmetic [where s = "linear 11 3 0" and t = "linear 11 2 0" and y' = "Eis 6 0" and k = "- 1",
      OF ex_modinv_ok _ rep_linear rep_linear]
  by (simp add: cong_iff eis_simps pw_def)

theorem sum_misses_a_product_witness:
  "\<not> rep 11 (add_value (linear 11 0 1) (value_of 11 1 0 0 0 1 0)) (Eis 0 1 + Eis (- 1) (- 1))"
proof -
  have r: "rep 11 (value_of 11 1 0 0 0 1 0) (Eis (- 1) (- 1))"
  proof (rule rep_I [OF _ num_value_of den_value_of])
    show "unit_mod 11 (Eis (0 - 0) (1 - 0))"
      by (rule unit_left [of _ _ "Eis (- 1) (- 1)"]) (simp add: cong_iff eis_simps)
    show "cong 11 (Eis (1 - 0) (0 - 0)) (Eis (- 1) (- 1) * Eis (0 - 0) (1 - 0))" by (simp add: cong_iff eis_simps)
  qed simp
  show ?thesis using sum_misses_a_product [OF rep_linear r, of 0 1] by (simp add: value_of_def)
qed

end
