(* ===== verification/Boneh_Properties.thy ===== *)
theory Boneh_Properties
  imports Boneh BonehExact Fp2_Properties "HOL-Library.Multiset"
begin

text \<open>
  The keys: how they are written and read back, what makes a key valid, that encodings under a valid key add up (the
  interface \<^theory_text>\<open>additive_encoding\<close>), that generated keys are valid, and one run of the key generation.
\<close>

section \<open>Numbers are read back\<close>

lemma str_to_num_eq: "str_to_num s = nat_of_bytes s"
proof -
  have "or (push_bit 8 n) (unat (b :: byte)) = 256 * n + unat b" for n and b :: byte
  proof -
    have "and (push_bit 8 n) (unat b) = 0"
    proof (rule bit_eqI)
      fix k
      have "bit (unat b) k \<Longrightarrow> k < 8" using bit_imp_le_length [of b k] by (simp add: bit_unsigned_iff)
      then show "bit (and (push_bit 8 n) (unat b)) k \<longleftrightarrow> bit (0 :: nat) k"
        by (auto simp: bit_and_iff bit_push_bit_iff)
    qed
    then show ?thesis by (simp add: push_bit_eq_mult flip: disjunctive_add_eq_or)
  qed
  then show ?thesis by (simp add: str_to_num_def nat_of_bytes_def)
qed

definition hex_value :: "nat list \<Rightarrow> nat" where
  "hex_value = foldl (\<lambda>a d. 16 * a + d) 0"

lemma hex_digits_value: "hex_value (hex_digits n) = n"
proof (induction n rule: hex_digits.induct)
  case (1 n)
  then show ?case by (subst hex_digits.simps) (auto simp: hex_value_def)
qed

lemma hex_digits_small: "d \<in> set (hex_digits n) \<Longrightarrow> d < 16"
proof (induction n rule: hex_digits.induct)
  case (1 n)
  show ?case
  proof (cases "n < 16")
    case True
    with 1(2) show ?thesis by (simp add: hex_digits.simps [of n])
  next
    case False
    with 1(2) have "d \<in> set (hex_digits (n div 16)) \<or> d = n mod 16" by (auto simp: hex_digits.simps [of n])
    then show ?thesis using 1(1) [OF False] by auto
  qed
qed

lemma hex_digits_nonempty [simp]: "hex_digits n \<noteq> []"
  by (subst hex_digits.simps) simp

lemma foldl_hex: "foldl (\<lambda>a d. 16 * a + d) x ds = x * 16 ^ length ds + hex_value ds"
proof (induction ds arbitrary: x)
  case (Cons d ds)
  from Cons.IH [of "16 * x + d"] Cons.IH [of d] show ?case
    by (simp add: hex_value_def algebra_simps)
qed (simp add: hex_value_def)

lemma foldl_bytes: "foldl (\<lambda>a b. 256 * a + unat (b :: byte)) x bs = x * 256 ^ length bs + nat_of_bytes bs"
proof (induction bs arbitrary: x)
  case (Cons b bs)
  from Cons.IH [of "256 * x + unat b"] Cons.IH [of "unat b"] show ?case
    by (simp add: nat_of_bytes_def algebra_simps)
qed (simp add: nat_of_bytes_def)

lemma digit_pairs_value:
  "even (length ds) \<Longrightarrow> \<forall>d \<in> set ds. d < 16 \<Longrightarrow>
   nat_of_bytes (digit_pairs ds) = hex_value ds \<and> 2 * length (digit_pairs ds) = length ds"
proof (induction ds rule: digit_pairs.induct)
  case (1 a b ds)
  then have IH: "nat_of_bytes (digit_pairs ds) = hex_value ds" "2 * length (digit_pairs ds) = length ds" by auto
  have "16 * a + b < 256" using 1(3) by auto
  then have u: "unat (of_nat (16 * a + b) :: byte) = 16 * a + b" by (rule unat_of_nat_byte)
  have "nat_of_bytes (digit_pairs (a # b # ds)) = (16 * a + b) * 256 ^ length (digit_pairs ds) + hex_value ds"
    using foldl_bytes [of "16 * a + b" "digit_pairs ds"] IH(1) u by (simp add: nat_of_bytes_def)
  also have "(256 :: nat) ^ length (digit_pairs ds) = 16 ^ length ds"
    unfolding IH(2) [symmetric] by (simp add: power_mult)
  also have "(16 * a + b) * 16 ^ length ds + hex_value ds = hex_value (a # b # ds)"
    using foldl_hex [of "16 * a + b" ds] by (simp add: hex_value_def)
  finally show ?case using IH(2) by simp
qed (simp_all add: hex_value_def)

lemma num_to_str_inverse:
  assumes "0 \<le> n"
  obtains b where "num_to_str n = return b" "nat_of_bytes b = nat n" "length b = (length (hex_digits (nat n)) + 1) div 2"
proof -
  let ?h = "hex_digits (nat n)"
  define h where "h = (if odd (length ?h) then 0 # ?h else ?h)"
  have "even (length h)" "\<forall>d \<in> set h. d < 16" "hex_value h = nat n"
    using hex_digits_small hex_digits_value by (auto simp: h_def hex_value_def)
  from digit_pairs_value [OF this(1,2)] this(3)
  have "nat_of_bytes (digit_pairs h) = nat n" "2 * length (digit_pairs h) = length h" by simp_all
  moreover have "num_to_str n = return (digit_pairs h)" using assms by (simp add: num_to_str_def h_def Let_def)
  moreover have "length h = 2 * ((length ?h + 1) div 2)" by (simp add: h_def)
  ultimately show ?thesis using that by simp
qed

lemma ipack_nonneg: "ipack n = return b \<Longrightarrow> 0 \<le> n"
  by (auto simp: ipack_def num_to_str_def bind_result_eq_Inr split: if_splits)

lemma iunpack_ipack:
  assumes "ipack n = return b"
  shows "iunpack (b @ rest) = return (n, rest)" and "b \<noteq> []"
proof -
  obtain x where x: "num_to_str n = return x" "nat_of_bytes x = nat n"
    using num_to_str_inverse [OF ipack_nonneg [OF assms]] by metis
  obtain l where l: "num_to_str (int (length x)) = return l" "nat_of_bytes l = length x"
    using num_to_str_inverse [of "int (length x)"] by auto
  have b: "b = of_nat (length l) # l @ x" and s: "length l < 256"
    using assms x(1) l(1) by (auto simp: ipack_def split: if_splits)
  have u: "unat (of_nat (length l) :: byte) = length l" using s by (rule unat_of_nat_byte)
  show "iunpack (b @ rest) = return (n, rest)"
    using u x(2) l(2) ipack_nonneg [OF assms] by (simp add: b iunpack_def str_to_num_eq)
  show "b \<noteq> []" by (simp add: b)
qed

lemma length_hex_digits: "k < 16 ^ Suc m \<Longrightarrow> length (hex_digits k) \<le> Suc m"
proof (induction m arbitrary: k)
  case 0
  then show ?case by (simp add: hex_digits.simps)
next
  case (Suc m)
  have "k div 16 < 16 ^ Suc m" using Suc.prems by (simp add: less_mult_imp_div_less mult.commute)
  from Suc.IH [OF this] show ?case by (simp add: hex_digits.simps [of k])
qed

lemma ipack_succeeds:
  assumes "0 \<le> n" "length (hex_digits (nat n)) < 2 ^ 16"
  shows "\<exists>b. ipack n = return b"
proof -
  obtain x where x: "num_to_str n = return x" "length x = (length (hex_digits (nat n)) + 1) div 2"
    using num_to_str_inverse [OF assms(1)] by metis
  have "length x < 16 ^ 4" using assms(2) by (simp add: x(2))
  then have "length (hex_digits (length x)) \<le> 4" using length_hex_digits [of "length x" 3] by simp
  moreover obtain l where "num_to_str (int (length x)) = return l" "length l = (length (hex_digits (length x)) + 1) div 2"
    using num_to_str_inverse [of "int (length x)"] by auto
  ultimately show ?thesis using x(1) by (simp add: ipack_def)
qed

lemma read_pack_nums:
  "pack_nums ns = return b \<Longrightarrow> read_nums (length ns) (b @ rest) = return (ns, rest)"
proof (induction ns arbitrary: b)
  case (Cons n ns)
  then obtain x y where x: "ipack n = return x" "pack_nums ns = return y" "b = x @ y"
    by (auto simp: bind_result_eq_Inr)
  with iunpack_ipack [OF x(1)] Cons.IH [OF x(2)] show ?case by simp
qed simp

lemma pack_pair_roundtrip: "pack_pair a b = return s \<Longrightarrow> unpack_pair (s @ rest) = return (a, b, rest)"
  by (auto simp: pack_pair_def unpack_pair_def bind_result_eq_Inr iunpack_ipack)

section \<open>Keys are read back\<close>

definition linear_shape :: "int \<Rightarrow> fp2 \<Rightarrow> bool" where
  "linear_shape p v \<longleftrightarrow> v = linear p (fa v) (fb v)"

definition key_shape :: "'a public_key_scheme \<Rightarrow> bool" where
  "key_shape pk \<longleftrightarrow> pk_p pk \<noteq> 0 \<and> linear_shape (pk_p pk) (pk_g pk) \<and> linear_shape (pk_p pk) (pk_h pk)"

lemma key_shape_linear:
  assumes "key_shape pk"
  shows "linear (pk_p pk) (fa (pk_g pk)) (fb (pk_g pk)) = pk_g pk" "linear (pk_p pk) (fa (pk_h pk)) (fb (pk_h pk)) = pk_h pk"
  using assms by (simp_all add: key_shape_def linear_shape_def)

lemma public_key_read_back:
  assumes "key_shape sk" "serialize_public_key sk = return b"
  shows "unserialize_public_key (b @ rest) = return (Some (public_key_of sk))"
proof -
  have five: "length (public_numbers sk) = 5" by (simp add: public_numbers_def)
  have "read_nums 5 (b @ rest) = return (public_numbers sk, rest)"
    using read_pack_nums [of "public_numbers sk" b rest, unfolded five] assms(2) by (simp add: serialize_public_key_def)
  then show ?thesis using assms(1) key_shape_linear [OF assms(1)]
    by (simp add: unserialize_public_key_def public_numbers_def linear_result_def make_fp2_def key_shape_def public_key_of_def)
qed

lemma private_key_read_back:
  assumes "key_shape sk" "serialize_private_key sk = return c"
  shows "unserialize_private_key (c @ rest) = return (Some sk)"
proof -
  have seven: "length (public_numbers sk @ [sk_n sk, sk_t1 sk]) = 7" by (simp add: public_numbers_def)
  have "read_nums 7 (c @ rest) = return (public_numbers sk @ [sk_n sk, sk_t1 sk], rest)"
    using read_pack_nums [of "public_numbers sk @ [sk_n sk, sk_t1 sk]" c rest, unfolded seven] assms(2)
    by (simp add: serialize_private_key_def)
  then show ?thesis using assms(1) key_shape_linear [OF assms(1)]
    by (simp add: unserialize_private_key_def public_numbers_def linear_result_def make_fp2_def key_shape_def
        eval_nat_numeral)
qed

text \<open>A public or private key whose elements are polynomials of degree one without a denominator, as generated keys
  are, is read back from what was written for it, whatever follows.\<close>

theorem keys_roundtrip:
  assumes "key_shape sk"
  shows "(serialize_public_key sk = return b \<longrightarrow> unserialize_public_key (b @ rest) = return (Some (public_key_of sk))) \<and>
    (serialize_private_key sk = return c \<longrightarrow> unserialize_private_key (c @ rest) = return (Some sk))"
  using public_key_read_back [OF assms] private_key_read_back [OF assms] by blast

section \<open>Additive encodings\<close>

text \<open>
  What attestations need of a cryptosystem: a relation between numbers and their encodings that the
  combination of encodings adds up, that only counts modulo an order, and a decoder for a range of numbers.
\<close>

locale additive_encoding =
  fixes encodes :: "int \<Rightarrow> 'c \<Rightarrow> bool"
    and combine :: "'c \<Rightarrow> 'c \<Rightarrow> 'c"
    and decode :: "int list \<Rightarrow> 'c \<Rightarrow> int option"
    and order :: int
    and bound :: int
  assumes combine: "encodes m c \<Longrightarrow> encodes n d \<Longrightarrow> encodes (m + n) (combine c d)"
    and order: "encodes m c \<Longrightarrow> order dvd n - m \<Longrightarrow> encodes n c"
    and decode: "encodes m c \<Longrightarrow> 0 \<le> m \<Longrightarrow> m \<le> bound \<Longrightarrow> set ms \<subseteq> {0..bound} \<Longrightarrow>
      decode ms c = (if m \<in> set ms then Some m else None)"
begin

text \<open>A pair with a complement that cancels what was added to its numbers, and an encoding of zero.\<close>

lemma cancelled_pair:
  assumes "encodes (a + x) c" "encodes (b + y) d" "encodes (order - (x + y) mod order) e" "encodes 0 z"
  shows "encodes (a + b) (combine (combine (combine c d) e) z)"
proof (rule order)
  show "encodes ((a + x) + (b + y) + (order - (x + y) mod order) + 0) (combine (combine (combine c d) e) z)"
    by (intro combine assms)
  have "x + y = order * ((x + y) div order) + (x + y) mod order" by simp
  then have "(a + b) - ((a + x) + (b + y) + (order - (x + y) mod order) + 0) = order * (- 1 - (x + y) div order)"
    by (simp only: right_diff_distrib)
  then show "order dvd (a + b) - ((a + x) + (b + y) + (order - (x + y) mod order) + 0)" by (metis dvd_triv_left)
qed

lemma decode_cancelled_pair:
  assumes "encodes (a + x) c" "encodes (b + y) d" "encodes (order - (x + y) mod order) e" "encodes 0 z"
    and "0 \<le> a + b" "a + b \<le> 2" "2 \<le> bound"
  shows "decode [0, 1, 2] (combine (combine (combine c d) e) z) = Some (a + b)"
proof -
  have "a + b \<in> {0, 1, 2}" using assms(5,6) by auto
  then show ?thesis
    using decode [OF cancelled_pair [OF assms(1-4)], of "[0, 1, 2]"] assms(5-7) by auto
qed

end

section \<open>Valid keys\<close>

text \<open>
  A key whose modulus is one that the key generation accepts, with a first generator whose order divides
  the modulus plus one and whose power that decodes has distinct powers up to a bound, and a second
  generator that vanishes on the secret.
\<close>

definition generator :: "int \<Rightarrow> fp2 \<Rightarrow> eis \<Rightarrow> eis \<Rightarrow> bool" where
  "generator p v x x' \<longleftrightarrow> rep p v x \<and> cong p (x * x') 1"

definition valid_key :: "int \<Rightarrow> (int \<Rightarrow> int \<Rightarrow> int) \<Rightarrow> private_key \<Rightarrow> bool" where
  "valid_key bound modinv sk \<longleftrightarrow> field_modulus (pk_p sk) \<and> modinv_ok modinv (pk_p sk) \<and> 0 \<le> sk_t1 sk \<and>
     (\<exists>G G'. generator (pk_p sk) (pk_g sk) G G' \<and> cong (pk_p sk) (G ^ nat (pk_p sk + 1)) 1 \<and>
        (\<forall>i j. i < j \<longrightarrow> int j \<le> bound \<longrightarrow> \<not> cong (pk_p sk) ((G ^ nat (sk_t1 sk)) ^ i) ((G ^ nat (sk_t1 sk)) ^ j))) \<and>
     (\<exists>H H'. generator (pk_p sk) (pk_h sk) H H' \<and> cong (pk_p sk) (H ^ nat (sk_t1 sk)) 1)"

text \<open>An encoding of a number: its power of the first generator, times something that the secret power removes.\<close>

definition encodes :: "int \<Rightarrow> (int \<Rightarrow> int \<Rightarrow> int) \<Rightarrow> private_key \<Rightarrow> int \<Rightarrow> fp2 \<Rightarrow> bool" where
  "encodes bound modinv sk m c \<longleftrightarrow> valid_key bound modinv sk \<and>
     (\<exists>G G' r r'. generator (pk_p sk) (pk_g sk) G G' \<and> cong (pk_p sk) (r * r') 1 \<and>
        cong (pk_p sk) (r ^ nat (sk_t1 sk)) 1 \<and> rep (pk_p sk) c (pw G G' m * r))"

lemma inverse_unique:
  assumes "cong p x y" "cong p (x * x') 1" "cong p (y * y') 1" shows "cong p x' y'"
proof -
  have "cong p (x' * (y * y')) (x' * 1)" by (rule cong_mult_right [OF assms(3)])
  moreover have "cong p (x' * y * y') (x' * x * y')"
    by (intro cong_mult_left cong_mult_right cong_sym [OF assms(1)])
  moreover have "cong p (x' * x * y') (1 * y')"
    using assms(2) by (intro cong_mult_left) (simp add: mult.commute)
  ultimately show ?thesis by (simp add: mult.assoc) (meson cong_sym cong_trans)
qed

lemma pw_cong:
  assumes "cong p x y" "cong p (x * x') 1" "cong p (y * y') 1" shows "cong p (pw x x' k) (pw y y' k)"
  using cong_power [OF assms(1)] cong_power [OF inverse_unique [OF assms]] by (simp add: pw_def)

lemma generator_cong:
  assumes "generator p v x x'" "generator p v y y'" shows "cong p (pw x x' k) (pw y y' k)"
  using assms rep_unique [of p v x y] by (auto simp: generator_def intro: pw_cong)

lemma generator_power_cong:
  assumes "generator p v x x'" "generator p v y y'" shows "cong p (x ^ n) (y ^ n)"
  using assms rep_unique [of p v x y] by (auto simp: generator_def intro: cong_power)

lemma valid_keyD:
  assumes "valid_key bound modinv sk" "generator (pk_p sk) (pk_g sk) G G'"
  shows "modinv_ok modinv (pk_p sk)" "1 < pk_p sk" "0 \<le> sk_t1 sk" "cong (pk_p sk) (G ^ nat (pk_p sk + 1)) 1"
    "int i \<le> bound \<Longrightarrow> int j \<le> bound \<Longrightarrow> cong (pk_p sk) ((G ^ nat (sk_t1 sk)) ^ i) ((G ^ nat (sk_t1 sk)) ^ j) \<Longrightarrow> i = j"
proof -
  obtain K K' where K: "generator (pk_p sk) (pk_g sk) K K'" "cong (pk_p sk) (K ^ nat (pk_p sk + 1)) 1"
    "\<forall>i j. i < j \<longrightarrow> int j \<le> bound \<longrightarrow> \<not> cong (pk_p sk) ((K ^ nat (sk_t1 sk)) ^ i) ((K ^ nat (sk_t1 sk)) ^ j)"
    using assms(1) unfolding valid_key_def by blast
  note GK = generator_power_cong [OF assms(2) K(1)]
  show "modinv_ok modinv (pk_p sk)" "1 < pk_p sk" "0 \<le> sk_t1 sk"
    using assms(1) by (auto simp: valid_key_def field_modulus_def prime_number_def)
  show "cong (pk_p sk) (G ^ nat (pk_p sk + 1)) 1" by (rule cong_trans [OF GK K(2)])
  assume b: "int i \<le> bound" "int j \<le> bound" and c: "cong (pk_p sk) ((G ^ nat (sk_t1 sk)) ^ i) ((G ^ nat (sk_t1 sk)) ^ j)"
  have k: "cong (pk_p sk) ((G ^ nat (sk_t1 sk)) ^ n) ((K ^ nat (sk_t1 sk)) ^ n)" for n
    by (intro cong_power GK)
  have "cong (pk_p sk) ((K ^ nat (sk_t1 sk)) ^ i) ((K ^ nat (sk_t1 sk)) ^ j)"
    by (rule cong_trans [OF cong_sym [OF k] cong_trans [OF c k]])
  with K(3) b cong_sym show "i = j" by (metis linorder_neqE_nat)
qed

lemma pw_mult_order:
  assumes "cong p (x ^ nat q) 1" "cong p (x * x') 1" "0 \<le> q" shows "cong p (pw x x' (q * k)) 1"
proof -
  have "cong p (x' ^ nat q) 1"
  proof (rule inverse_unique [OF assms(1)])
    show "cong p (x ^ nat q * x' ^ nat q) 1" using cong_power [OF assms(2), of "nat q"] by (simp add: power_mult_distrib)
  qed simp
  then have "cong p ((x ^ nat q) ^ n) 1" "cong p ((x' ^ nat q) ^ n) 1" for n
    using cong_power [OF assms(1), of n] cong_power [of p "x' ^ nat q" 1 n] by simp_all
  moreover have "pw x x' (q * k) = (if 0 \<le> q * k then (x ^ nat q) ^ nat k else (x' ^ nat q) ^ nat (- k))"
    using assms(3) by (auto simp: pw_def nat_mult_distrib zero_le_mult_iff mult_le_0_iff simp flip: power_mult mult_minus_right)
  ultimately show ?thesis by simp
qed

lemma encodes_combine:
  assumes "encodes bound modinv sk m c" "encodes bound modinv sk n d"
  shows "encodes bound modinv sk (m + n) (mul_value c d)"
proof -
  let ?p = "pk_p sk" and ?t = "nat (sk_t1 sk)"
  obtain G G' r r' where 1: "generator ?p (pk_g sk) G G'" "cong ?p (r * r') 1" "cong ?p (r ^ ?t) 1" "rep ?p c (pw G G' m * r)"
    using assms(1) by (auto simp: encodes_def)
  obtain K K' s s' where 2: "generator ?p (pk_g sk) K K'" "cong ?p (s * s') 1" "cong ?p (s ^ ?t) 1" "rep ?p d (pw K K' n * s)"
    using assms(2) by (auto simp: encodes_def)
  have "rep ?p d (pw G G' n * s)"
    by (rule rep_cong [OF 2(4)]) (intro cong_mult_left generator_cong [OF 2(1) 1(1)])
  with 1(4) have "rep ?p (mul_value c d) (pw G G' m * r * (pw G G' n * s))" by (rule rep_mul)
  moreover have "cong ?p (pw G G' m * r * (pw G G' n * s)) (pw G G' (m + n) * (r * s))"
  proof -
    have eq: "pw G G' m * r * (pw G G' n * s) = pw G G' m * pw G G' n * (r * s)" by (simp add: algebra_simps)
    have "cong ?p (G * G') 1" using 1(1) by (simp add: generator_def)
    then show ?thesis unfolding eq by (intro cong_mult_left cong_sym [OF pw_add])
  qed
  ultimately have "rep ?p (mul_value c d) (pw G G' (m + n) * (r * s))" by (rule rep_cong)
  moreover have "cong ?p (r * s * (r' * s')) 1"
    using cong_mult [OF 1(2) 2(2)] by (simp add: algebra_simps)
  moreover have "cong ?p ((r * s) ^ ?t) 1" using cong_mult [OF 1(3) 2(3)] by (simp add: power_mult_distrib)
  ultimately show ?thesis using assms(1) 1(1) unfolding encodes_def by blast
qed

lemma encodes_order:
  assumes "encodes bound modinv sk m c" "pk_p sk + 1 dvd n - m"
  shows "encodes bound modinv sk n c"
proof -
  let ?p = "pk_p sk" and ?t = "nat (sk_t1 sk)"
  obtain G G' r r' where 1: "generator ?p (pk_g sk) G G'" "cong ?p (r * r') 1" "cong ?p (r ^ ?t) 1" "rep ?p c (pw G G' m * r)"
    using assms(1) by (auto simp: encodes_def)
  have v: "valid_key bound modinv sk" using assms(1) by (simp add: encodes_def)
  note vk = valid_keyD [OF v 1(1)]
  obtain k where k: "n = m + (?p + 1) * k" using assms(2) by (metis add_diff_cancel_left' diff_add_cancel dvdE add.commute)
  have i: "cong ?p (G * G') 1" using 1(1) by (simp add: generator_def)
  have "cong ?p (pw G G' n) (pw G G' m * pw G G' ((?p + 1) * k))" unfolding k by (rule pw_add [OF i])
  also have "cong ?p \<dots> (pw G G' m * 1)" using vk(2) by (intro cong_mult_right pw_mult_order [OF vk(4) i]) simp
  finally have "cong ?p (pw G G' m * r) (pw G G' n * r)" by (intro cong_mult_left) (simp add: cong_sym)
  with 1(4) have "rep ?p c (pw G G' n * r)" by (rule rep_cong)
  with v 1(1-3) show ?thesis unfolding encodes_def by blast
qed

lemma boneh_decode_encodes:
  assumes "encodes bound modinv sk m c" "0 \<le> m" "m \<le> bound" "set ms \<subseteq> {0..bound}"
  shows "boneh_decode modinv sk ms c = (if m \<in> set ms then Some m else None)"
proof -
  let ?p = "pk_p sk" and ?t = "nat (sk_t1 sk)"
  obtain G G' r r' where 1: "generator ?p (pk_g sk) G G'" "cong ?p (r * r') 1" "cong ?p (r ^ ?t) 1" "rep ?p c (pw G G' m * r)"
    using assms(1) by (auto simp: encodes_def)
  have v: "valid_key bound modinv sk" using assms(1) by (simp add: encodes_def)
  note vk = valid_keyD [OF v 1(1)]
  have i: "cong ?p (G * G') 1" and g: "rep ?p (pk_g sk) G" using 1(1) by (simp_all add: generator_def)
  have ti: "cong ?p (G ^ n * G' ^ n) 1" for n using cong_power [OF i, of n] by (simp add: power_mult_distrib)
  have ci: "cong ?p (pw G G' m * r * (G' ^ nat m * r')) 1"
    using cong_mult [OF ti [of "nat m"] 1(2)] assms(2) by (simp add: pw_nonneg algebra_simps)
  have "rep ?p (intpow modinv c (sk_t1 sk)) ((pw G G' m * r) ^ ?t)"
    using rep_intpow [OF vk(1,2) 1(4) ci, of "sk_t1 sk"] vk(3) by (simp add: pw_nonneg)
  moreover have "cong ?p ((pw G G' m * r) ^ ?t) ((G ^ ?t) ^ nat m)"
  proof -
    have "(pw G G' m * r) ^ ?t = (G ^ ?t) ^ nat m * r ^ ?t"
      using assms(2) by (simp add: pw_nonneg power_mult_distrib power_mult [symmetric] mult.commute)
    then show ?thesis using cong_mult_right [OF 1(3), of "(G ^ ?t) ^ nat m"] by simp
  qed
  ultimately have d: "rep ?p (intpow modinv c (sk_t1 sk)) ((G ^ ?t) ^ nat m)" by (rule rep_cong)
  have t: "rep ?p (intpow modinv (pk_g sk) (sk_t1 sk)) (G ^ ?t)"
    using rep_intpow [OF vk(1,2) g i, of "sk_t1 sk"] vk(3) by (simp add: pw_nonneg)
  have test: "eq_value modinv (intpow modinv c (sk_t1 sk)) (intpow modinv (intpow modinv (pk_g sk) (sk_t1 sk)) k) \<longleftrightarrow> k = m"
    if "k \<in> set ms" for k
  proof -
    have k: "0 \<le> k" "k \<le> bound" using that assms(4) by auto
    have "rep ?p (intpow modinv (intpow modinv (pk_g sk) (sk_t1 sk)) k) ((G ^ ?t) ^ nat k)"
      using rep_intpow [OF vk(1,2) t ti, of k] k(1) by (simp add: pw_nonneg)
    from eq_value_rep [OF vk(1,2) d this] vk(5) [of "nat m" "nat k"] k assms(2,3) show ?thesis by auto
  qed
  show ?thesis using test unfolding boneh_decode_def Let_def
    by (induction ms) (auto split: if_splits)
qed

interpretation boneh: additive_encoding "encodes bound modinv sk" mul_value "boneh_decode modinv sk" "pk_p sk + 1" bound
  for bound modinv sk
  by unfold_locales (rule encodes_combine encodes_order boneh_decode_encodes; assumption)+

lemma random_exponentiation_power:
  "random_exponentiation modinv v draws = Some (c, draws') \<Longrightarrow> \<exists>r. c = intpow modinv v r"
  by (induction draws) (auto simp: Let_def split: if_splits)

lemma boneh_encode_encodes:
  assumes "valid_key bound modinv sk" "boneh_encode modinv (public_key_of sk) m draws = Some (c, draws')"
  shows "encodes bound modinv sk m c"
proof -
  let ?p = "pk_p sk" and ?t = "nat (sk_t1 sk)"
  obtain G G' where G: "generator ?p (pk_g sk) G G'" using assms(1) by (auto simp: valid_key_def)
  obtain H H' where H: "generator ?p (pk_h sk) H H'" "cong ?p (H ^ ?t) 1" using assms(1) by (auto simp: valid_key_def)
  note vk = valid_keyD [OF assms(1) G]
  obtain r where c: "c = mul_value (intpow modinv (pk_g sk) m) (intpow modinv (pk_h sk) r)"
    using assms(2) random_exponentiation_power [of modinv "pk_h sk" draws] by (auto simp: boneh_encode_def public_key_of_def)
  have g: "rep ?p (intpow modinv (pk_g sk) m) (pw G G' m)" and h: "rep ?p (intpow modinv (pk_h sk) r) (pw H H' r)"
    using G H(1) by (auto simp: generator_def intro: rep_intpow [OF vk(1,2)])
  have "rep ?p c (pw G G' m * pw H H' r)" unfolding c by (rule rep_mul [OF g h])
  moreover have hi: "cong ?p (H * H') 1" using H(1) by (simp add: generator_def)
  moreover have "cong ?p (pw H H' r * pw H H' (- r)) 1" by (rule pw_inverse [OF hi])
  moreover have "cong ?p (pw H H' r ^ ?t) 1"
  proof -
    have h't: "cong ?p (H' ^ ?t) 1"
    proof (rule inverse_unique [OF H(2)])
      show "cong ?p (H ^ ?t * H' ^ ?t) 1" using cong_power [OF hi, of ?t] by (simp add: power_mult_distrib)
    qed simp
    have "cong ?p ((H ^ ?t) ^ nat r) 1" "cong ?p ((H' ^ ?t) ^ nat (- r)) 1"
      using cong_power [OF H(2), of "nat r"] cong_power [OF h't, of "nat (- r)"] by simp_all
    then show ?thesis by (auto simp: pw_def simp flip: power_mult simp: mult.commute)
  qed
  ultimately show ?thesis using assms(1) G unfolding encodes_def by blast
qed

section \<open>Sums of encodings\<close>

text \<open>C18: For a valid key, the product of encodings of two numbers decodes to their sum, when it and the numbers tried
  lie within the bound of the key, and to nothing when the sum is not tried.\<close>

theorem encodings_add_up:
  assumes "valid_key bound modinv sk"
    and "boneh_encode modinv (public_key_of sk) m d1 = Some (c1, d1')" "boneh_encode modinv (public_key_of sk) n d2 = Some (c2, d2')"
    and "0 \<le> m + n" "m + n \<le> bound" "set ms \<subseteq> {0..bound}"
  shows "boneh_decode modinv sk ms (mul_value c1 c2) = (if m + n \<in> set ms then Some (m + n) else None)"
  by (rule boneh.decode [OF boneh.combine [OF boneh_encode_encodes [OF assms(1,2)] boneh_encode_encodes [OF assms(1,3)]] assms(4-6)])

section \<open>Generated keys are valid\<close>

lemma linear_shape_linear: "linear_shape p (linear p a b)"
  by (simp add: linear_shape_def) (simp add: value_of_def)

lemma linear_shape_rep: "1 < p \<Longrightarrow> linear_shape p v \<Longrightarrow> rep p v (Eis (fa v) (fb v))"
  using rep_linear [of p "fa v" "fb v"] by (simp add: linear_shape_def)

lemma linear_shape_mul:
  assumes "1 < p" "linear_shape p v" "linear_shape p w" shows "linear_shape p (mul_value v w)"
proof -
  have "v = linear p (re (Eis (fa v) (fb v))) (im (Eis (fa v) (fb v)))" "w = linear p (re (Eis (fa w) (fb w))) (im (Eis (fa w) (fb w)))"
    using assms(2,3) by (simp_all add: linear_shape_def)
  with mul_linear [OF assms(1)] linear_shape_linear show ?thesis by metis
qed

lemma linear_shape_pow_loop:
  "1 < p \<Longrightarrow> linear_shape p r \<Longrightarrow> linear_shape p u \<Longrightarrow> linear_shape p (pow_loop r u n)"
proof (induction r u n rule: pow_loop.induct)
  case (1 r u n)
  show ?case
  proof (cases "n = 0")
    case True
    with 1 show ?thesis by (simp add: pow_loop.simps)
  next
    case False
    have "linear_shape p (pow_loop (if n mod 2 = 1 then mul_value r u else r) (mul_value u u) (n div 2))"
      using 1 False by (intro 1(1)) (simp_all add: linear_shape_mul)
    with False show ?thesis by (simp add: pow_loop.simps [of r u n])
  qed
qed

lemma linear_shape_modulus: "linear_shape p v \<Longrightarrow> modulus v = p"
  by (metis linear_shape_def modulus_simps(1))

lemma linear_shape_intpow:
  assumes "1 < p" "linear_shape p v" "0 \<le> k" shows "linear_shape p (intpow modinv v k)"
proof -
  have "linear_shape p (number (modulus v) 1)"
    using linear_shape_linear [of p 1 0] by (simp add: linear_shape_modulus [OF assms(2)])
  with assms linear_shape_pow_loop show ?thesis by (simp add: intpow_def Let_def)
qed

lemma miller_loop_modulus:
  "miller_loop modinv p P R bs T f = return A \<Longrightarrow> modulus f = p \<Longrightarrow> modulus A = p"
proof (induction bs arbitrary: T f)
  case (Cons b bs)
  obtain x y where R: "R = Some (x, y)" using Cons.prems(1) by (cases R) auto
  obtain h where h: "h_line modinv p T T x y = return h" using Cons.prems(1) R by (auto simp: bind_result_eq_Inr)
  let ?f = "normalize modinv (mul_value (mul_value f f) h)" and ?T = "esum modinv p T T"
  show ?case
  proof (cases b)
    case True
    obtain k where "h_line modinv p ?T (Some P) x y = return k"
      using Cons.prems(1) R h True by (auto simp: bind_result_eq_Inr Let_def)
    then have "miller_loop modinv p P R bs (esum modinv p ?T (Some P)) (normalize modinv (mul_value ?f k)) = return A"
      using Cons.prems(1) R h True by (simp add: Let_def)
    from Cons.IH [OF this] show ?thesis using Cons.prems(2) by simp
  next
    case False
    then have "miller_loop modinv p P R bs ?T ?f = return A" using Cons.prems(1) R h by (simp add: Let_def)
    from Cons.IH [OF this] show ?thesis using Cons.prems(2) by simp
  qed
qed simp

lemma linear_shape_weilpairing:
  assumes "1 < p" "weilpairing modinv p m P Q S = return v" shows "linear_shape p v"
proof -
  obtain A B C D where ABCD: "millercalc modinv p m P (esum modinv p (Some Q) (Some S)) = return A"
    "v = mul_value (wp_nominator (div_value (mul_value A D) (mul_value B C)))
       (wp_denom_inverse modinv (div_value (mul_value A D) (mul_value B C)))"
    using assms(2) by (auto simp: weilpairing_def Let_def bind_result_eq_Inr)
  have "modulus A = p" using miller_loop_modulus ABCD(1) by (fastforce simp: millercalc_def)
  then have "linear_shape p (wp_nominator (div_value (mul_value A D) (mul_value B C)))"
    "linear_shape p (wp_denom_inverse modinv (div_value (mul_value A D) (mul_value B C)))"
    by (simp_all add: wp_nominator_def wp_denom_inverse_def Let_def linear_shape_linear)
  with assms(1) ABCD(2) show ?thesis by (simp add: linear_shape_mul)
qed

lemma linear_shape_bilinear_group: "1 < p \<Longrightarrow> linear_shape p (bilinear_group modinv n p a b c d)"
  using linear_shape_weilpairing linear_shape_linear [of p 0 0]
  by (auto simp: bilinear_group_def split: sum.split)

definition next_wp :: "(int \<Rightarrow> int \<Rightarrow> int) \<Rightarrow> int \<Rightarrow> int \<Rightarrow> int \<Rightarrow> int \<Rightarrow> fp2" where
  "next_wp modinv n p x y =
     (let w = bilinear_group modinv (nat n) p x y x y
      in if is_good_wp modinv n w then w else intpow modinv w ((p + 1) div n))"

lemma next_wp_shape: "1 < p \<Longrightarrow> 0 \<le> n \<Longrightarrow> linear_shape p (next_wp modinv n p x y)"
  by (simp add: next_wp_def Let_def linear_shape_bilinear_group linear_shape_intpow pos_imp_zdiv_nonneg_iff div_int_pos_iff)

lemma good_wp_loop_step:
  "good_wp_loop modinv n p wp draws =
     (if \<exists>v. wp = Some v \<and> is_good_wp modinv n v then Some (the wp, draws)
      else case draws of x # y # ds \<Rightarrow> good_wp_loop modinv n p (Some (next_wp modinv n p x y)) ds | _ \<Rightarrow> None)"
  by (subst good_wp_loop.simps) (auto simp: next_wp_def Let_def split: option.split list.split)

lemma good_wp_loop_good:
  assumes "1 < p" "0 \<le> n"
  shows "good_wp_loop modinv n p wp draws = Some (v, draws') \<Longrightarrow> \<forall>w. wp = Some w \<longrightarrow> linear_shape p w \<Longrightarrow>
    linear_shape p v \<and> is_good_wp modinv n v"
proof (induction draws arbitrary: wp rule: length_induct)
  case (1 draws)
  show ?case
  proof (cases "\<exists>v. wp = Some v \<and> is_good_wp modinv n v")
    case True
    with 1(2,3) show ?thesis by (auto simp: good_wp_loop_step [of _ _ _ wp])
  next
    case False
    then obtain x y ds where d: "draws = x # y # ds" "good_wp_loop modinv n p (Some (next_wp modinv n p x y)) ds = Some (v, draws')"
      using 1(2) unfolding good_wp_loop_step [of modinv n p wp draws] if_not_P [OF False] by (auto split: list.splits)
    have "length ds < length draws" using d(1) by simp
    with 1(1) d(2) next_wp_shape [OF assms] show ?thesis by blast
  qed
qed

lemma second_generator_good:
  assumes "1 < p" "0 \<le> n"
  shows "second_generator modinv n p t2 k draws = Some (u, draws') \<Longrightarrow> linear_shape p u \<and> is_good_wp modinv n u"
proof (induction k arbitrary: draws)
  case (Suc k)
  then show ?case using good_wp_loop_good [OF assms, of modinv None] by (auto split: option.splits prod.splits if_splits)
qed simp

text \<open>A good pairing is a unit whose power \<open>n\<close> is one.\<close>

lemma good_wp_order:
  assumes f: "field_modulus p" and i: "modinv_ok modinv p" and v: "linear_shape p v" and n: "0 \<le> n" and g: "is_good_wp modinv n v"
  obtains x' where "generator p v (Eis (fa v) (fb v)) x'" "cong p (Eis (fa v) (fb v) ^ nat n) 1"
proof -
  let ?x = "Eis (fa v) (fb v)"
  have p: "1 < p" using f by (simp add: field_modulus_def prime_number_def)
  have m: "modulus v = p" by (rule linear_shape_modulus [OF v])
  have r: "rep p v ?x" by (rule linear_shape_rep [OF p v])
  have "\<not> cong p ?x 0" using g eq_value_rep [OF i p r rep_number [OF p, of 0]] by (simp add: is_good_wp_def m)
  then obtain x' where x': "cong p (?x * x') 1" using unit_nonzero [OF f] by (auto simp: unit_mod_def)
  have "rep p (intpow modinv v (n + 1)) (?x ^ nat (n + 1))"
    using rep_intpow [OF i p r x', of "n + 1"] n by (simp add: pw_nonneg)
  then have "cong p (?x ^ nat (n + 1)) ?x" using g eq_value_rep [OF i p _ r] by (simp add: is_good_wp_def)
  moreover have "nat (n + 1) = Suc (nat n)" using n by simp
  ultimately have "cong p (?x ^ nat n * ?x) (1 * ?x)" by (simp add: mult.commute)
  then have "cong p (?x ^ nat n) 1" using unit_cancel [OF unit_left [OF x']] by blast
  with r x' show ?thesis by (intro that) (simp_all add: generator_def)
qed

lemma generate_prime_shape:
  "generate_prime is_prime n k l p = Some q \<Longrightarrow> (\<exists>j. p = j * n - 1) \<or> p mod 3 \<noteq> 2 \<Longrightarrow>
     q mod 3 = 2 \<and> is_prime q \<and> (\<exists>j. q = j * n - 1)"
proof (induction is_prime n k l p rule: generate_prime.induct)
  case (2 is_prime n k l p)
  show ?case
  proof (cases "p mod 3 \<noteq> 2 \<or> \<not> is_prime p")
    case True
    with 2(2) have "generate_prime is_prime n k (l + 1) ((l + 1) * n - 1) = Some q" by simp
    from 2(1) [OF True this] show ?thesis by blast
  next
    case False
    with 2(2,3) show ?thesis by auto
  qed
qed (auto split: if_splits)

text \<open>An element of prime order has distinct powers below the order.\<close>

lemma distinct_powers:
  assumes "prime_number t" "cong p (x ^ nat t) 1" "\<not> cong p x 1" "cong p (x * x') 1"
    and "i < j" "int j < t" "cong p (x ^ i) (x ^ j)"
  shows False
proof -
  define k where "k = j - i"
  have k: "0 < k" "int k < t" using assms(5,6) by (simp_all add: k_def)
  have "cong p (1 * x ^ i) (x ^ k * x ^ i)" using assms(5,7) by (simp add: k_def flip: power_add)
  then have xk: "cong p (x ^ k) 1"
    using unit_cancel [OF unit_power [OF unit_left [OF assms(4)]]] by (blast intro: cong_sym)
  have "\<not> t dvd int k" using k by (auto dest: zdvd_imp_le)
  then have "gcd (int k) t = 1" using prime_coprime [OF assms(1)] by (simp add: coprime_iff_gcd_eq_1)
  then obtain a b where ab: "a * int k + b * t = 1" using bezout_int [of "int k" t] by auto
  have t: "0 \<le> t" using assms(1) by (simp add: prime_number_def)
  have "cong p (pw x x' (int k * a)) 1" "cong p (pw x x' (t * b)) 1"
    using xk assms(2,4) t by (auto intro!: pw_mult_order)
  then have "cong p (pw x x' (int k * a) * pw x x' (t * b)) (1 * 1)" by (rule cong_mult)
  moreover have "cong p (pw x x' 1) (pw x x' (int k * a) * pw x x' (t * b))"
    using pw_add [OF assms(4), of "int k * a" "t * b"] ab by (simp add: mult.commute)
  ultimately have "cong p (pw x x' 1) 1" using cong_trans by fastforce
  with assms(3) show False by (simp add: pw_def)
qed

text \<open>A generated key is valid for every bound below its larger prime, given a sound primality test, distinct from
  which only one thing is not checked: that the first generator does not vanish on the smaller prime.\<close>

theorem generated_keys_are_valid:
  assumes "generate_keypair modinv is_prime (t1, t2) fuel draws = Some (pk, sk)"
    and "\<forall>q. is_prime q \<longrightarrow> prime_number q" "modinv_ok modinv (pk_p sk)"
    and "prime_number t1" "prime_number t2" "t1 \<le> t2" "bound < t2"
    and "\<not> cong (pk_p sk) (num (pk_g sk) ^ nat t1) 1"
  shows "valid_key bound modinv sk \<and> key_shape sk \<and> pk = public_key_of sk"
proof -
  have t: "1 < t1" "1 < t2" using assms(4,5) by (simp_all add: prime_number_def)
  let ?n = "t1 * t2"
  obtain p g u ds ds' ds'' where p: "generate_prime is_prime ?n fuel 0 1 = Some p"
    and g: "good_wp_loop modinv ?n p None draws = Some (g, ds)"
    and u: "second_generator modinv ?n p t2 fuel ds' = Some (u, ds'')"
    and sk: "pk = \<lparr>pk_p = p, pk_g = g, pk_h = intpow modinv u t2\<rparr>"
      "sk = \<lparr>pk_p = p, pk_g = g, pk_h = intpow modinv u t2, sk_n = ?n, sk_t1 = t1\<rparr>"
    using assms(1,6) by (auto simp: generate_keypair_def Let_def split: option.splits prod.splits)
  have n: "0 \<le> ?n" using t by simp
  obtain j where j: "p = j * ?n - 1" and f: "field_modulus p"
    using generate_prime_shape [OF p] assms(2) by (auto simp: field_modulus_def)
  have p1: "1 < p" using f by (simp add: field_modulus_def prime_number_def)
  have i: "modinv_ok modinv p" using assms(3) by (simp add: sk)
  have gs: "linear_shape p g" "is_good_wp modinv ?n g" using good_wp_loop_good [OF p1 n g] by auto
  have us: "linear_shape p u" "is_good_wp modinv ?n u" using second_generator_good [OF p1 n u] by auto
  obtain G' where G: "generator p g (Eis (fa g) (fb g)) G'" "cong p (Eis (fa g) (fb g) ^ nat ?n) 1"
    using good_wp_order [OF f i gs(1) n gs(2)] by blast
  obtain U' where U: "generator p u (Eis (fa u) (fb u)) U'" "cong p (Eis (fa u) (fb u) ^ nat ?n) 1"
    using good_wp_order [OF f i us(1) n us(2)] by blast
  let ?G = "Eis (fa g) (fb g)" and ?U = "Eis (fa u) (fb u)"
  have nt: "nat ?n = nat t1 * nat t2" using t by (simp add: nat_mult_distrib)
  have gi: "cong p (?G * G') 1" and ui: "cong p (?U * U') 1" using G(1) U(1) by (simp_all add: generator_def)
  have h: "rep p (intpow modinv u t2) (?U ^ nat t2)"
    using rep_intpow [OF i p1 _ ui, of u t2] U(1) t by (simp add: pw_nonneg generator_def)
  have H: "generator p (intpow modinv u t2) (?U ^ nat t2) (U' ^ nat t2)"
    using h cong_power [OF ui, of "nat t2"] by (simp add: generator_def power_mult_distrib)
  have Ht: "cong p ((?U ^ nat t2) ^ nat t1) 1" using U(2) by (simp add: nt mult.commute flip: power_mult)
  have "0 < j"
  proof (rule ccontr)
    assume "\<not> 0 < j"
    then have "j * ?n \<le> 0" by (intro mult_nonpos_nonneg n) simp
    with j p1 show False by simp
  qed
  then have "nat (p + 1) = nat j * nat ?n" using j n by (simp add: nat_mult_distrib)
  then have Gp: "cong p (?G ^ nat (p + 1)) 1"
    using cong_power [OF G(2), of "nat j"] by (simp add: mult.commute flip: power_mult)
  have num: "num g = ?G"
  proof -
    have "fc g = 0" using gs(1) by (metis linear_shape_def fp2.select_convs(4) mod_0 value_of_def)
    then show ?thesis by (simp add: num_def)
  qed
  have dist: "\<not> cong p ((?G ^ nat t1) ^ a) ((?G ^ nat t1) ^ b)" if "a < b" "int b \<le> bound" for a b
  proof
    assume c: "cong p ((?G ^ nat t1) ^ a) ((?G ^ nat t1) ^ b)"
    have T: "cong p ((?G ^ nat t1) ^ nat t2) 1" using G(2) by (simp add: nt flip: power_mult)
    have inv: "cong p (?G ^ nat t1 * G' ^ nat t1) 1" using cong_power [OF gi, of "nat t1"] by (simp add: power_mult_distrib)
    have n1: "\<not> cong p (?G ^ nat t1) 1" using assms(8) num by (simp add: sk)
    show False by (rule distinct_powers [OF assms(5) T n1 inv that(1) _ c]) (use that(2) assms(7) in simp)
  qed
  have hs: "linear_shape p (intpow modinv u t2)" using t by (intro linear_shape_intpow [OF p1 us(1)]) simp
  have "valid_key bound modinv sk"
    unfolding valid_key_def sk using f i t G(1) Gp dist H Ht by auto
  moreover have "key_shape sk" using p1 gs(1) hs by (simp add: key_shape_def sk)
  ultimately show ?thesis by (simp add: sk public_key_of_def)
qed

lemma prime_number_2: "prime_number 2"
proof -
  have "d = 1 \<or> d = 2" if "0 < d" "d dvd 2" for d :: int
    using zdvd_imp_le [OF that(2)] that(1) by linarith
  then show ?thesis by (simp add: prime_number_def)
qed

lemma prime_number_3: "prime_number 3"
proof -
  have "d = 1 \<or> d = 3" if "0 < d" "d dvd 3" for d :: int
  proof -
    have "d \<le> 3" using zdvd_imp_le [OF that(2)] by simp
    moreover have "d \<noteq> 2" using that(2) by auto
    ultimately show ?thesis using that(1) by linarith
  qed
  then show ?thesis by (simp add: prime_number_def)
qed

definition ex_generated :: private_key where
  "ex_generated = \<lparr>pk_p = 11, pk_g = linear 11 1 1, pk_h = linear 11 10 0, sk_n = 6, sk_t1 = 2\<rparr>"

text \<open>Rules that evaluate the pairing one value after the other.\<close>

lemma esum_eval:
  assumes "eq_value modinv x1 x2 = e1" "eq_value modinv y1 (mul_value (number m (- 1)) y2) = e2" "\<not> (e1 \<and> e2)"
    and "(if e1 then normalize modinv (div_value (mul_value (mul_value (number m 3) x1) x1) (mul_value (number m 2) y1))
          else normalize modinv (div_value (sub_value y1 y2) (sub_value x1 x2))) = l"
    and "sub_value (sub_value (mul_value l l) x1) x2 = x3"
    and "add_value (mul_value l (sub_value x3 x1)) y1 = y3"
    and "normalize modinv x3 = x" "normalize modinv (mul_value (number m (- 1)) y3) = y"
  shows "esum modinv m (Some (x1, y1)) (Some (x2, y2)) = Some (x, y)"
  using assms by (auto simp: esum_def Let_def)

lemma esum_eval_None:
  assumes "eq_value modinv x1 x2" "eq_value modinv y1 (mul_value (number m (- 1)) y2)"
  shows "esum modinv m (Some (x1, y1)) (Some (x2, y2)) = None"
  using assms by (simp add: esum_def)

lemma h_line_eval:
  assumes "eq_value modinv x1 x2 = e1" "eq_value modinv y1 (mul_value (number m (- 1)) y2) = e2" "\<not> (e1 \<and> e2)"
    and "(if e1 \<and> eq_value modinv y1 y2
          then div_value (mul_value (mul_value (number m 3) x1) x1) (mul_value (number m 2) y1)
          else div_value (sub_value y2 y1) (sub_value x2 x1)) = l"
    and "sub_value (sub_value y y1) (mul_value l (sub_value x x1)) = a"
    and "sub_value (add_value x (add_value x1 x2)) (mul_value l l) = b"
    and "normalize modinv (div_value a b) = h"
  shows "h_line modinv m (Some (x1, y1)) (Some (x2, y2)) x y = return h"
  using assms by (auto simp: h_line_def Let_def)

lemma h_line_eval_vertical:
  assumes "eq_value modinv x1 x2" "eq_value modinv y1 (mul_value (number m (- 1)) y2)" "normalize modinv (sub_value x x1) = h"
  shows "h_line modinv m (Some (x1, y1)) (Some (x2, y2)) x y = return h"
  using assms by (simp add: h_line_def)

lemma miller_loop_eval:
  assumes "h_line modinv m T T x y = return h" "normalize modinv (mul_value (mul_value f f) h) = f1" "esum modinv m T T = T1"
    and "h_line modinv m T1 (Some p) x y = return h1" "normalize modinv (mul_value f1 h1) = f2" "esum modinv m T1 (Some p) = T2"
    and "h_line modinv m T2 T2 x y = return h2" "normalize modinv (mul_value (mul_value f2 f2) h2) = f3"
  shows "miller_loop modinv m p (Some (x, y)) [True, False] T f = return f3"
  using assms by (simp add: Let_def)

lemma weilpairing_eval:
  assumes "tl (binary_digits k) = bs" "mul_value (number m (- 1)) sy = ny"
    and "esum modinv m (Some Q) (Some (sx, sy)) = R1" "number m 1 = one"
    and "miller_loop modinv m P R1 bs (Some P) one = return A"
    and "miller_loop modinv m P (Some (sx, sy)) bs (Some P) one = return B"
    and "esum modinv m (Some P) (Some (sx, ny)) = R2"
    and "miller_loop modinv m Q R2 bs (Some Q) one = return C"
    and "miller_loop modinv m Q (Some (sx, ny)) bs (Some Q) one = return D"
    and "div_value (mul_value A D) (mul_value B C) = w"
    and "mul_value (wp_nominator w) (wp_denom_inverse modinv w) = v"
  shows "weilpairing modinv m k P Q (sx, sy) = return v"
  using assms by (simp add: weilpairing_def millercalc_def Let_def)

lemmas value_simps = eq_value_def normalize_def value_of_def add_value_def sub_value_def mul_value_def div_value_def
  ex_modinv_def Let_def

text \<open>The points and the lines of one pairing.\<close>

lemma run_0:
  "esum ex_modinv 11 (Some (value_of 11 0 3 0 1 0 0, value_of 11 3 0 0 1 0 0)) (Some (value_of 11 0 0 0 1 0 0, value_of 11 0 0 0 1 0 0)) = Some (value_of 11 2 0 0 1 1 0, value_of 11 2 0 0 1 0 0)"
  by (rule esum_eval [of _ _ _ False _ _ _ False "value_of 11 3 0 0 0 3 0" "value_of 11 4 0 0 2 2 0" "value_of 11 1 0 0 5 0 0"]) (simp_all add: value_simps)

lemma run_1:
  "h_line ex_modinv 11 (Some (value_of 11 3 0 0 1 0 0, value_of 11 3 0 0 1 0 0)) (Some (value_of 11 3 0 0 1 0 0, value_of 11 3 0 0 1 0 0)) (value_of 11 2 0 0 1 1 0) (value_of 11 2 0 0 1 0 0) = return (value_of 11 1 10 0 1 9 0)"
  by (rule h_line_eval [of _ _ _ True _ _ _ False "value_of 11 5 0 0 6 0 0" _ _ "value_of 11 10 9 0 6 6 0" "value_of 11 10 4 0 3 3 0"]) (simp_all add: value_simps)

lemma run_2:
  "esum ex_modinv 11 (Some (value_of 11 3 0 0 1 0 0, value_of 11 3 0 0 1 0 0)) (Some (value_of 11 3 0 0 1 0 0, value_of 11 3 0 0 1 0 0)) = Some (value_of 11 6 0 0 1 0 0, value_of 11 0 0 0 1 0 0)"
  by (rule esum_eval [of _ _ _ True _ _ _ False "value_of 11 10 0 0 1 0 0" "value_of 11 6 0 0 1 0 0" "value_of 11 0 0 0 1 0 0"]) (simp_all add: value_simps)

lemma run_3:
  "h_line ex_modinv 11 (Some (value_of 11 6 0 0 1 0 0, value_of 11 0 0 0 1 0 0)) (Some (value_of 11 3 0 0 1 0 0, value_of 11 3 0 0 1 0 0)) (value_of 11 2 0 0 1 1 0) (value_of 11 2 0 0 1 0 0) = return (value_of 11 1 10 0 1 5 0)"
  by (rule h_line_eval [of _ _ _ False _ _ _ False "value_of 11 3 0 0 8 0 0" _ _ "value_of 11 6 1 0 8 8 0" "value_of 11 2 6 0 9 9 0"]) (simp_all add: value_simps)

lemma run_4:
  "esum ex_modinv 11 (Some (value_of 11 6 0 0 1 0 0, value_of 11 0 0 0 1 0 0)) (Some (value_of 11 3 0 0 1 0 0, value_of 11 3 0 0 1 0 0)) = Some (value_of 11 3 0 0 1 0 0, value_of 11 8 0 0 1 0 0)"
  by (rule esum_eval [of _ _ _ False _ _ _ False "value_of 11 10 0 0 1 0 0" "value_of 11 3 0 0 1 0 0" "value_of 11 3 0 0 1 0 0"]) (simp_all add: value_simps)

lemma run_5:
  "h_line ex_modinv 11 (Some (value_of 11 3 0 0 1 0 0, value_of 11 8 0 0 1 0 0)) (Some (value_of 11 3 0 0 1 0 0, value_of 11 8 0 0 1 0 0)) (value_of 11 2 0 0 1 1 0) (value_of 11 2 0 0 1 0 0) = return (value_of 11 10 3 0 1 9 0)"
  by (rule h_line_eval [of _ _ _ True _ _ _ False "value_of 11 5 0 0 5 0 0" _ _ "value_of 11 8 7 0 5 5 0" "value_of 11 10 4 0 3 3 0"]) (simp_all add: value_simps)

lemma run_6:
  "h_line ex_modinv 11 (Some (value_of 11 3 0 0 1 0 0, value_of 11 3 0 0 1 0 0)) (Some (value_of 11 3 0 0 1 0 0, value_of 11 3 0 0 1 0 0)) (value_of 11 0 0 0 1 0 0) (value_of 11 0 0 0 1 0 0) = return (value_of 11 1 0 0 1 0 0)"
  by (rule h_line_eval [of _ _ _ True _ _ _ False "value_of 11 5 0 0 6 0 0" _ _ "value_of 11 8 0 0 6 0 0" "value_of 11 4 0 0 3 0 0"]) (simp_all add: value_simps)

lemma run_7:
  "h_line ex_modinv 11 (Some (value_of 11 6 0 0 1 0 0, value_of 11 0 0 0 1 0 0)) (Some (value_of 11 3 0 0 1 0 0, value_of 11 3 0 0 1 0 0)) (value_of 11 0 0 0 1 0 0) (value_of 11 0 0 0 1 0 0) = return (value_of 11 2 0 0 1 0 0)"
  by (rule h_line_eval [of _ _ _ False _ _ _ False "value_of 11 3 0 0 8 0 0" _ _ "value_of 11 7 0 0 8 0 0" "value_of 11 6 0 0 9 0 0"]) (simp_all add: value_simps)

lemma run_8:
  "h_line ex_modinv 11 (Some (value_of 11 3 0 0 1 0 0, value_of 11 8 0 0 1 0 0)) (Some (value_of 11 3 0 0 1 0 0, value_of 11 8 0 0 1 0 0)) (value_of 11 0 0 0 1 0 0) (value_of 11 0 0 0 1 0 0) = return (value_of 11 10 0 0 1 0 0)"
  by (rule h_line_eval [of _ _ _ True _ _ _ False "value_of 11 5 0 0 5 0 0" _ _ "value_of 11 8 0 0 5 0 0" "value_of 11 4 0 0 3 0 0"]) (simp_all add: value_simps)

lemma run_9:
  "esum ex_modinv 11 (Some (value_of 11 3 0 0 1 0 0, value_of 11 3 0 0 1 0 0)) (Some (value_of 11 0 0 0 1 0 0, value_of 11 0 0 0 1 0 0)) = Some (value_of 11 9 0 0 1 0 0, value_of 11 2 0 0 1 0 0)"
  by (rule esum_eval [of _ _ _ False _ _ _ False "value_of 11 1 0 0 1 0 0" "value_of 11 9 0 0 1 0 0" "value_of 11 9 0 0 1 0 0"]) (simp_all add: value_simps)

lemma run_10:
  "h_line ex_modinv 11 (Some (value_of 11 0 3 0 1 0 0, value_of 11 3 0 0 1 0 0)) (Some (value_of 11 0 3 0 1 0 0, value_of 11 3 0 0 1 0 0)) (value_of 11 9 0 0 1 0 0) (value_of 11 2 0 0 1 0 0) = return (value_of 11 1 10 0 1 3 0)"
  by (rule h_line_eval [of _ _ _ True _ _ _ False "value_of 11 6 6 0 6 0 0" _ _ "value_of 11 10 1 0 6 0 0" "value_of 11 5 4 0 3 0 0"]) (simp_all add: value_simps)

lemma run_11:
  "esum ex_modinv 11 (Some (value_of 11 0 3 0 1 0 0, value_of 11 3 0 0 1 0 0)) (Some (value_of 11 0 3 0 1 0 0, value_of 11 3 0 0 1 0 0)) = Some (value_of 11 0 6 0 1 0 0, value_of 11 0 0 0 1 0 0)"
  by (rule esum_eval [of _ _ _ True _ _ _ False "value_of 11 1 1 0 1 0 0" "value_of 11 0 6 0 1 0 0" "value_of 11 0 0 0 1 0 0"]) (simp_all add: value_simps)

lemma run_12:
  "h_line ex_modinv 11 (Some (value_of 11 0 6 0 1 0 0, value_of 11 0 0 0 1 0 0)) (Some (value_of 11 0 3 0 1 0 0, value_of 11 3 0 0 1 0 0)) (value_of 11 9 0 0 1 0 0) (value_of 11 2 0 0 1 0 0) = return (value_of 11 1 10 0 1 7 0)"
  by (rule h_line_eval [of _ _ _ False _ _ _ False "value_of 11 3 0 0 0 8 0" _ _ "value_of 11 6 1 0 0 8 0" "value_of 11 2 7 0 2 2 0"]) (simp_all add: value_simps)

lemma run_13:
  "esum ex_modinv 11 (Some (value_of 11 0 6 0 1 0 0, value_of 11 0 0 0 1 0 0)) (Some (value_of 11 0 3 0 1 0 0, value_of 11 3 0 0 1 0 0)) = Some (value_of 11 8 0 0 1 1 0, value_of 11 8 0 0 1 0 0)"
  by (rule esum_eval [of _ _ _ False _ _ _ False "value_of 11 8 0 0 0 3 0" "value_of 11 5 0 0 2 2 0" "value_of 11 4 0 0 5 0 0"]) (simp_all add: value_simps)

lemma run_14:
  "h_line ex_modinv 11 (Some (value_of 11 8 0 0 1 1 0, value_of 11 8 0 0 1 0 0)) (Some (value_of 11 8 0 0 1 1 0, value_of 11 8 0 0 1 0 0)) (value_of 11 9 0 0 1 0 0) (value_of 11 2 0 0 1 0 0) = return (value_of 11 8 1 0 1 3 0)"
  by (rule h_line_eval [of _ _ _ True _ _ _ False "value_of 11 5 0 0 0 5 0" _ _ "value_of 11 3 10 0 6 0 0" "value_of 11 5 4 0 3 0 0"]) (simp_all add: value_simps)

lemma run_15:
  "h_line ex_modinv 11 (Some (value_of 11 0 3 0 1 0 0, value_of 11 3 0 0 1 0 0)) (Some (value_of 11 0 3 0 1 0 0, value_of 11 3 0 0 1 0 0)) (value_of 11 0 0 0 1 0 0) (value_of 11 0 0 0 1 0 0) = return (value_of 11 2 0 0 0 2 0)"
  by (rule h_line_eval [of _ _ _ True _ _ _ False "value_of 11 6 6 0 6 0 0" _ _ "value_of 11 8 0 0 6 0 0" "value_of 11 0 4 0 3 0 0"]) (simp_all add: value_simps)

lemma run_16:
  "h_line ex_modinv 11 (Some (value_of 11 0 6 0 1 0 0, value_of 11 0 0 0 1 0 0)) (Some (value_of 11 0 3 0 1 0 0, value_of 11 3 0 0 1 0 0)) (value_of 11 0 0 0 1 0 0) (value_of 11 0 0 0 1 0 0) = return (value_of 11 8 0 0 0 4 0)"
  by (rule h_line_eval [of _ _ _ False _ _ _ False "value_of 11 3 0 0 0 8 0" _ _ "value_of 11 0 7 0 0 8 0" "value_of 11 6 0 0 2 2 0"]) (simp_all add: value_simps)

lemma run_17:
  "h_line ex_modinv 11 (Some (value_of 11 8 0 0 1 1 0, value_of 11 8 0 0 1 0 0)) (Some (value_of 11 8 0 0 1 1 0, value_of 11 8 0 0 1 0 0)) (value_of 11 0 0 0 1 0 0) (value_of 11 0 0 0 1 0 0) = return (value_of 11 9 0 0 0 2 0)"
  by (rule h_line_eval [of _ _ _ True _ _ _ False "value_of 11 5 0 0 0 5 0" _ _ "value_of 11 3 0 0 6 0 0" "value_of 11 0 4 0 3 0 0"]) (simp_all add: value_simps)

lemma run_A:
  "miller_loop ex_modinv 11 (value_of 11 3 0 0 1 0 0, value_of 11 3 0 0 1 0 0) (Some (value_of 11 2 0 0 1 1 0, value_of 11 2 0 0 1 0 0)) [True, False] (Some (value_of 11 3 0 0 1 0 0, value_of 11 3 0 0 1 0 0)) (number 11 1) = return (value_of 11 8 2 0 1 4 0)"
proof (rule miller_loop_eval [where ?f1.0 = "value_of 11 1 10 0 1 9 0" and ?f2.0 = "value_of 11 0 8 0 0 2 0", OF run_1 _ run_2 run_3 _ run_4 run_5])
qed (simp_all add: value_simps)

lemma run_B:
  "miller_loop ex_modinv 11 (value_of 11 3 0 0 1 0 0, value_of 11 3 0 0 1 0 0) (Some (value_of 11 0 0 0 1 0 0, value_of 11 0 0 0 1 0 0)) [True, False] (Some (value_of 11 3 0 0 1 0 0, value_of 11 3 0 0 1 0 0)) (number 11 1) = return (value_of 11 7 0 0 1 0 0)"
proof (rule miller_loop_eval [where ?f1.0 = "value_of 11 1 0 0 1 0 0" and ?f2.0 = "value_of 11 2 0 0 1 0 0", OF run_6 _ run_2 run_7 _ run_4 run_8])
qed (simp_all add: value_simps)

lemma run_C:
  "miller_loop ex_modinv 11 (value_of 11 0 3 0 1 0 0, value_of 11 3 0 0 1 0 0) (Some (value_of 11 9 0 0 1 0 0, value_of 11 2 0 0 1 0 0)) [True, False] (Some (value_of 11 0 3 0 1 0 0, value_of 11 3 0 0 1 0 0)) (number 11 1) = return (value_of 11 9 4 0 1 3 0)"
proof (rule miller_loop_eval [where ?f1.0 = "value_of 11 1 10 0 1 3 0" and ?f2.0 = "value_of 11 0 4 0 1 0 0", OF run_10 _ run_11 run_12 _ run_13 run_14])
qed (simp_all add: value_simps)

lemma run_D:
  "miller_loop ex_modinv 11 (value_of 11 0 3 0 1 0 0, value_of 11 3 0 0 1 0 0) (Some (value_of 11 0 0 0 1 0 0, value_of 11 0 0 0 1 0 0)) [True, False] (Some (value_of 11 0 3 0 1 0 0, value_of 11 3 0 0 1 0 0)) (number 11 1) = return (value_of 11 4 0 0 1 1 0)"
proof (rule miller_loop_eval [where ?f1.0 = "value_of 11 2 0 0 0 2 0" and ?f2.0 = "value_of 11 9 0 0 1 1 0", OF run_15 _ run_11 run_16 _ run_13 run_17])
qed (simp_all add: value_simps)

lemma run_bits: "tl (binary_digits 6) = [True, False]"
  by code_simp

lemma run_pairing:
  "weilpairing ex_modinv 11 6 (number 11 3, number 11 3) (linear 11 0 3, number 11 3) (number 11 0, number 11 0)
   = return (linear 11 1 1)"
proof (rule weilpairing_eval [where w = "value_of 11 8 3 0 3 6 0" and ny = "number 11 0" and bs = "[True, False]", OF run_bits _ run_0 refl run_A run_B run_9 run_C run_D])
  let ?w = "value_of 11 8 3 0 3 6 0"
  have n: "wp_nominator ?w = linear 11 8 3" by (simp add: wp_nominator_def value_of_def)
  have i: "wp_denom_inverse ex_modinv ?w = linear 11 6 1"
  proof -
    have f: "fA ?w = 3" "fB ?w = 6" "modulus ?w = 11" by (simp_all add: value_of_def)
    show ?thesis unfolding wp_denom_inverse_def f Let_def by (simp add: value_simps)
  qed
  show "mul_value (wp_nominator ?w) (wp_denom_inverse ex_modinv ?w) = linear 11 1 1"
    unfolding n i by (simp add: value_simps)
qed (simp_all add: value_simps)

lemma run_group: "bilinear_group ex_modinv 6 11 3 3 3 3 = linear 11 1 1"
  by (simp only: bilinear_group_def run_pairing sum.case)

lemma run_power: "intpow ex_modinv (linear 11 1 1) 7 = linear 11 1 1" "intpow ex_modinv (linear 11 1 1) 3 = linear 11 10 0"
  by (simp_all add: intpow_def pow_loop.simps value_simps)

lemma run_good: "is_good_wp ex_modinv 6 (linear 11 1 1)"
proof -
  have "eq_value ex_modinv (linear 11 1 1) (linear 11 1 1)" "\<not> eq_value ex_modinv (linear 11 1 1) (number 11 1)"
    "\<not> eq_value ex_modinv (linear 11 1 1) (number 11 0)" by (simp_all add: value_simps)
  then show ?thesis using run_power(1) by (simp add: is_good_wp_def value_of_def)
qed

lemma run_loop: "good_wp_loop ex_modinv 6 11 None (3 # 3 # ds) = Some (linear 11 1 1, ds)"
  by (subst good_wp_loop.simps) (simp add: run_group run_good Let_def good_wp_loop.simps [of _ _ _ "Some _"])

lemma run_keypair:
  "generate_keypair ex_modinv (\<lambda>q. q = 11) (2, 3) 3 [3, 3, 3, 3] = Some (public_key_of ex_generated, ex_generated)"
proof -
  have s: "second_generator ex_modinv 6 11 3 3 [3, 3] = Some (linear 11 1 1, [])"
  proof -
    have "\<not> eq_value ex_modinv (linear 11 10 0) (number 11 1)" by (simp add: value_simps)
    then show ?thesis by (simp add: numeral_3_eq_3 run_loop run_power(2))
  qed
  have "generate_prime (\<lambda>q. q = 11) 6 3 0 1 = Some 11" by (simp add: numeral_3_eq_3)
  then show ?thesis by (simp add: generate_keypair_def run_loop s run_power(2) public_key_of_def ex_generated_def Let_def)
qed

theorem generated_keys_are_valid_witness:
  "valid_key 2 ex_modinv ex_generated \<and> key_shape ex_generated \<and> public_key_of ex_generated = public_key_of ex_generated"
proof (rule generated_keys_are_valid [OF run_keypair _ _ prime_number_2 prime_number_3])
  have "num (linear 11 1 1) = Eis 1 1" by (simp add: num_def value_of_def)
  then show "\<not> cong (pk_p ex_generated) (num (pk_g ex_generated) ^ nat 2) 1"
    by (simp add: ex_generated_def cong_iff power2_eq_square eis_simps)
  show "\<forall>q. q = (11 :: int) \<longrightarrow> prime_number q" using field_modulus_11 by (simp add: field_modulus_def)
  show "modinv_ok ex_modinv (pk_p ex_generated)" by (simp add: ex_generated_def ex_modinv_ok)
qed simp_all

end
