(* ===== verification/BonehExact_Properties.thy ===== *)
theory BonehExact_Properties
  imports Boneh_Properties
begin

text \<open>
  The attestations: a value that is attested and whose holder answers the challenges is recognised, attestations are read back
  as they were written, and what an unexpected answer does to the verifier.
\<close>

section \<open>Computations that draw\<close>

lemma rbind_return:
  "rbind m f d = Some (return y, d') \<longleftrightarrow> (\<exists>x d1. m d = Some (return x, d1) \<and> f x d1 = Some (return y, d'))"
  by (auto simp: rbind_def split: option.splits sum.splits)

lemma rreturn_return: "rreturn x d = Some (return y, d') \<longleftrightarrow> y = x \<and> d' = d"
  by (auto simp: rreturn_def)

lemma rresult_return: "rresult r d = Some (return y, d') \<longleftrightarrow> r = return y \<and> d' = d"
  by (auto simp: rresult_def)

lemmas rand_simps = rbind_return rreturn_return rresult_return

definition draws_to :: "'a rand \<Rightarrow> 'a \<Rightarrow> bool" where
  "draws_to m x \<longleftrightarrow> (\<exists>d d'. m d = Some (return x, d'))"

lemma draws_toI: "m d = Some (return x, d') \<Longrightarrow> draws_to m x"
  by (auto simp: draws_to_def)

lemma rmap_draws_to: "rmap f xs d = Some (return ys, d') \<Longrightarrow> list_all2 (\<lambda>x. draws_to (f x)) xs ys"
proof (induction xs arbitrary: d ys)
  case (Cons x xs)
  then show ?case by (auto simp: rand_simps intro: draws_toI)
qed (simp add: rand_simps)

lemma rencode_encodes:
  "valid_key bound modinv sk \<Longrightarrow> draws_to (rencode modinv (public_key_of sk) m) c \<Longrightarrow> encodes bound modinv sk m c"
  by (auto simp: draws_to_def rencode_def intro: boneh_encode_encodes)

section \<open>Lists\<close>

lemma even_range_double: "even_range (2 * n - 1) = map (\<lambda>k. 2 * k) [0..<n]" "even_range (2 * n) = map (\<lambda>k. 2 * k) [0..<n]"
  by (cases n; simp add: even_range_def)+

lemma mset_shuffled:
  assumes "mset perm = mset [0..<length xs]" shows "mset (shuffled perm xs) = mset xs"
proof -
  have "mset (shuffled perm xs) = image_mset (nth xs) (mset perm)" unfolding shuffled_def by (rule mset_map)
  also have "\<dots> = mset (map (nth xs) [0..<length xs])" unfolding assms by (simp only: mset_map)
  finally show ?thesis by (simp only: map_nth)
qed

lemma length_shuffled: "length (shuffled perm xs) = length perm"
  by (simp add: shuffled_def)

lemma map_result_all2: "map_result f xs = return ys \<longleftrightarrow> list_all2 (\<lambda>x y. f x = return y) xs ys"
proof (induction xs arbitrary: ys)
  case Nil
  then show ?case by (cases ys) auto
next
  case (Cons x xs)
  then show ?case by (cases ys) (auto simp: bind_result_eq_Inr)
qed

section \<open>Counting responses\<close>

lemma count_responses:
  assumes "\<forall>r \<in> set rs. r \<in> set (dict_keys d)"
  shows "\<exists>d'. foldl (\<lambda>acc r. bind_result acc (count_response r)) (return d) rs = return d' \<and>
    dict_keys d' = dict_keys d \<and> (\<forall>k. dict_get d' k = map_option (\<lambda>n. n + count_list rs k) (dict_get d k))"
  using assms
proof (induction rs arbitrary: d)
  case Nil
  then show ?case by (simp add: option.map_ident)
next
  case (Cons r rs)
  then obtain n where n: "dict_get d r = Some n" by (metis list.set_intros(1) map_of_eq_None_iff not_Some_eq set_map)
  define e where "e = dict_set r (n + 1) d"
  have "\<forall>r \<in> set rs. r \<in> set (dict_keys e)" using Cons.prems by (auto simp: e_def dict_set_keys simp del: set_map)
  from Cons.IH [OF this] obtain d' where d': "foldl (\<lambda>acc r. bind_result acc (count_response r)) (return e) rs = return d'"
    "dict_keys d' = dict_keys e" "\<forall>k. dict_get d' k = map_option (\<lambda>n. n + count_list rs k) (dict_get e k)" by blast
  have "count_response r d = return e" using n by (simp add: count_response_def e_def)
  moreover have "dict_keys e = dict_keys d"
    using Cons.prems by (simp add: e_def dict_set_keys del: set_map)
  ultimately show ?case using d' n by (auto simp: e_def dict_get_set)
qed

lemma padded_bits_length:
  assumes "v < 2 ^ n" "0 < n" shows "length (padded_bits v n) = n" and "set (padded_bits v n) \<subseteq> {0, 1}"
proof -
  have "length (binary_digits v) \<le> n" using assms
  proof (induction v arbitrary: n rule: binary_digits.induct)
    case (1 v)
    show ?case
    proof (cases "v < 2")
      case True
      with 1(3) show ?thesis by (simp add: binary_digits.simps)
    next
      case False
      with 1(2,3) obtain m where m: "n = Suc m" "0 < m" by (cases n) (auto, metis False One_nat_def gr0I power_0 mult.right_neutral)
      have "v div 2 < 2 ^ m" using 1(2) m by auto
      with 1(1) [OF False this m(2)] False m show ?thesis by (simp add: binary_digits.simps [of v])
    qed
  qed
  then show "length (padded_bits v n) = n" by (simp add: padded_bits_def Let_def)
  show "set (padded_bits v n) \<subseteq> {0, 1}" by (auto simp: padded_bits_def Let_def)
qed

definition pair_sums :: "int list \<Rightarrow> nat \<Rightarrow> nat list" where
  "pair_sums A n = map (\<lambda>k. nat (A ! (2 * k) + A ! (2 * k + 1))) [0..<n]"

lemma binary_relativity_counts:
  assumes "length (padded_bits v (2 * n)) = 2 * n" "set (padded_bits v (2 * n)) \<subseteq> {0, 1}"
  shows "\<exists>e. binary_relativity v (2 * n) = return e \<and> dict_wf e \<and>
    (\<forall>k. dict_get e k = (if k < 4 then Some (count_list (pair_sums (padded_bits v (2 * n)) n) k) else None))"
proof -
  let ?A = "padded_bits v (2 * n)" and ?rs = "pair_sums (padded_bits v (2 * n)) n"
  let ?d = "[(0, 0), (1, 0), (2, 0)] :: relativity_map"
  have A: "?A ! i \<in> {0, 1}" if "i < 2 * n" for i
    by (rule subsetD [OF assms(2) nth_mem]) (simp add: assms(1) that)
  have rs: "r \<in> {0, 1, 2}" if r: "r \<in> set ?rs" for r
  proof -
    obtain k where "k < n" "r = nat (?A ! (2 * k) + ?A ! (2 * k + 1))" using r by (auto simp: pair_sums_def)
    moreover have "?A ! (2 * k) \<in> {0, 1}" "?A ! (2 * k + 1) \<in> {0, 1}" using \<open>k < n\<close> by (intro A; simp)+
    ultimately show ?thesis unfolding insert_iff empty_iff by (elim disjE) simp_all
  qed
  then have "\<forall>r \<in> set ?rs. r \<in> set (dict_keys ?d)" by auto
  from count_responses [OF this] obtain d' where d': "foldl (\<lambda>acc r. bind_result acc (count_response r)) (return ?d) ?rs = return d'"
    "dict_keys d' = dict_keys ?d" "\<forall>k. dict_get d' k = map_option (\<lambda>m. m + count_list ?rs k) (dict_get ?d k)" by blast
  have "foldl (\<lambda>out i. bind_result out (\<lambda>out.
                bind_result (item ?A i) (\<lambda>x. bind_result (item ?A (i + 1)) (\<lambda>y. count_response (nat (x + y)) out))))
              acc (map (\<lambda>k. 2 * k) ks) =
      foldl (\<lambda>acc r. bind_result acc (count_response r)) acc (map (\<lambda>k. nat (?A ! (2 * k) + ?A ! (2 * k + 1))) ks)"
    if "\<forall>k \<in> set ks. k < n" for ks acc
    using that
  proof (induction ks arbitrary: acc)
    case (Cons k ks)
    have "2 * k < length ?A" "2 * k + 1 < length ?A" using Cons.prems assms(1) by auto
    with Cons show ?case by (simp add: item_def)
  qed simp
  from this [of "[0..<n]"] have "binary_relativity v (2 * n) = return (dict_set 3 0 d')"
    using d'(1) unfolding binary_relativity_def Let_def even_range_double pair_sums_def by simp
  moreover have "count_list ?rs 3 = 0" using rs [of 3] by (auto simp: count_list_0_iff)
  moreover have "dict_get ?d k = (if k < 3 then Some 0 else None)" for k by auto
  moreover have "dict_wf (dict_set 3 0 d')" using d'(2) by (intro dict_wf_set) (simp add: dict_wf_def)
  ultimately show ?thesis using d'(3) by (auto simp: dict_get_set)
qed

section \<open>Honest provers\<close>

text \<open>Where the map finds a pair of the public part after the shuffle.\<close>

lemma shuffle_fold_other:
  "j \<notin> fst ` set ps \<Longrightarrow> dict_get (fold (\<lambda>(k, i, _). dict_set i (2 * k)) (enumerate n ps) d) j = dict_get d j"
  by (induction ps arbitrary: n d) (auto simp: dict_get_set)

lemma shuffle_fold_get:
  "distinct (map fst ps) \<Longrightarrow> k < length ps \<Longrightarrow>
   dict_get (fold (\<lambda>(k, i, _). dict_set i (2 * k)) (enumerate n ps) d) (fst (ps ! k)) = Some (2 * (n + k))"
proof (induction ps arbitrary: n d k)
  case (Cons p ps)
  show ?case
  proof (cases k)
    case 0
    obtain i x where p: "p = (i, x)" by fastforce
    have "i \<notin> fst ` set ps" using Cons.prems(1) p by simp
    from shuffle_fold_other [OF this] show ?thesis by (simp add: 0 p dict_get_set)
  next
    case (Suc m)
    with Cons show ?thesis by simp
  qed
qed simp

lemma shuffle_map_get:
  "distinct (map fst ps) \<Longrightarrow> k < length ps \<Longrightarrow> dict_get (shuffle_map ps) (fst (ps ! k)) = Some (2 * k)"
  using shuffle_fold_get [of ps k 0 "[]"] by (simp add: shuffle_map_def)

lemma shuffle_map_miss: "i \<notin> fst ` set ps \<Longrightarrow> dict_get (shuffle_map ps) i = None"
  using shuffle_fold_other [of i ps 0 "[]"] by (simp add: shuffle_map_def)

definition flat_pairs :: "(nat \<times> fp2 \<times> fp2) list \<Rightarrow> fp2 list" where
  "flat_pairs ps = concat (map (\<lambda>(i, v1, v2). [v1, v2]) ps)"

lemma flat_pairs_nth:
  "k < length ps \<Longrightarrow> length (flat_pairs ps) = 2 * length ps \<and> flat_pairs ps ! (2 * k) = fst (snd (ps ! k)) \<and>
     flat_pairs ps ! Suc (2 * k) = snd (snd (ps ! k))"
proof (induction ps arbitrary: k)
  case (Cons p ps)
  have len: "length (flat_pairs qs) = 2 * length qs" for qs
    by (induction qs) (auto simp: flat_pairs_def)
  show ?case
  proof (cases k)
    case 0
    then show ?thesis by (simp add: flat_pairs_def case_prod_beta len [unfolded flat_pairs_def])
  next
    case (Suc m)
    with Cons show ?thesis by (simp add: flat_pairs_def case_prod_beta)
  qed
qed simp

text \<open>A pair of the private part gets the public pair of its own old position.\<close>

lemma bitpair_of_private:
  assumes "distinct (map fst ps)" "pair_of ps (flat_pairs ps) (i, e) = return q" "make_bitpair (flat_pairs ps) q = return b"
  shows "\<exists>p \<in> set ps. fst p = i \<and> b = \<lparr>bp_a = fst (snd p), bp_b = snd (snd p), bp_complement = e\<rparr>"
proof -
  obtain j where j: "dict_get (shuffle_map ps) i = Some j" "q = (j, e)"
    using assms(2) by (auto simp: pair_of_def split: option.splits)
  then have "i \<in> fst ` set ps" using shuffle_map_miss by fastforce
  then obtain k where k: "k < length ps" "fst (ps ! k) = i" by (auto simp: in_set_conv_nth)
  then have jk: "j = 2 * k" using shuffle_map_get [OF assms(1) k(1)] j(1) by simp
  have "b = \<lparr>bp_a = fst (snd (ps ! k)), bp_b = snd (snd (ps ! k)), bp_complement = e\<rparr>"
    using assms(3) flat_pairs_nth [OF k(1)] j(2) jk by (auto simp: make_bitpair_def item_def bind_result_eq_Inr split: if_splits)
  with k show ?thesis by (intro bexI [of _ "ps ! k"]) simp_all
qed

lemma public_part_draws: "draws_to (public_part v i) t \<Longrightarrow> t = (i, v ! i, v ! (i + 1)) \<and> i + 1 < length v"
  by (auto simp: draws_to_def public_part_def rand_simps item_def split: if_splits)

lemma private_part_draws:
  assumes "valid_key bound modinv sk" "draws_to (private_part modinv (public_key_of sk) R i) t"
  shows "fst t = i \<and> i + 1 < length R \<and>
    encodes bound modinv sk (pk_p sk + 1 - (R ! i + R ! (i + 1)) mod (pk_p sk + 1)) (snd t)"
proof -
  have pk: "pk_p (public_key_of sk) = pk_p sk" by (simp add: public_key_of_def)
  obtain d d' where "private_part modinv (public_key_of sk) R i d = Some (return t, d')" using assms(2) by (auto simp: draws_to_def)
  then obtain e d1 d2 where e: "t = (i, e)" "i + 1 < length R"
    "rencode modinv (public_key_of sk) (pk_p sk - (R ! i + R ! (i + 1)) mod (pk_p sk + 1) + 1) d1 = Some (return e, d2)"
    by (auto simp: private_part_def rand_simps item_def pk split: if_splits)
  have "draws_to (rencode modinv (public_key_of sk) (pk_p sk - (R ! i + R ! (i + 1)) mod (pk_p sk + 1) + 1)) e"
    using e(3) unfolding draws_to_def by blast
  from rencode_encodes [OF assms(1) this] e(1,2) show ?thesis by (simp add: algebra_simps)
qed

text \<open>The bit pairs of an attestation, each for one position of the value.\<close>

lemma attest_bitpairs:
  assumes key: "valid_key bound modinv sk"
    and A: "length (padded_bits v (2 * n)) = 2 * n"
    and perms: "mset perm1 = mset [0..<2 * n]" "mset perm2 = mset [0..<n]" "mset perm3 = mset [0..<n]"
    and run: "attest modinv (public_key_of sk) v (2 * n) (perm1, perm2, perm3) draws = Some (return att, draws')"
  shows "at_pk att = public_key_of sk \<and> (\<exists>bs R. mset (at_bitpairs att) = mset bs \<and> length bs = n \<and>
    (\<forall>k < n. encodes bound modinv sk (padded_bits v (2 * n) ! (2 * k) + R ! (2 * k)) (bp_a (bs ! k)) \<and>
       encodes bound modinv sk (padded_bits v (2 * n) ! (2 * k + 1) + R ! (2 * k + 1)) (bp_b (bs ! k)) \<and>
       encodes bound modinv sk (pk_p sk + 1 - (R ! (2 * k) + R ! (2 * k + 1)) mod (pk_p sk + 1)) (bp_complement (bs ! k))))"
proof -
  let ?A = "padded_bits v (2 * n)" and ?pk = "public_key_of sk"
  have pk: "pk_p ?pk = pk_p sk" by (simp add: public_key_of_def)
  have lp: "length perm1 = 2 * n" "length perm2 = n" "length perm3 = n"
    using arg_cong [OF perms(1), of size] arg_cong [OF perms(2), of size] arg_cong [OF perms(3), of size] by simp_all
  obtain R d1 cs d2 priv d3 pub d4 out bps where
      gen: "generate_modular_additive_inverse (pk_p ?pk) (2 * n) perm1 draws = Some (return R, d1)"
    and cs: "rmap (\<lambda>(a, b). rencode modinv ?pk (a + b)) (zip ?A R) d1 = Some (return cs, d2)"
    and priv: "rmap (private_part modinv ?pk R) (even_range (2 * n - 1)) d2 = Some (return priv, d3)"
    and pub: "rmap (public_part cs) (even_range (length cs)) d3 = Some (return pub, d4)"
    and out: "map_result (pair_of (shuffled perm2 pub) (flat_pairs (shuffled perm2 pub))) priv = return out"
    and bps: "map_result (make_bitpair (flat_pairs (shuffled perm2 pub))) (shuffled perm3 out) = return bps"
    and att: "att = \<lparr>at_pk = ?pk, at_bitpairs = bps, at_id_format = None\<rparr>"
    using run unfolding attest_def Let_def prod.case rand_simps flat_pairs_def [symmetric] A by blast
  have R: "length R = 2 * n"
    using gen lp by (auto simp: generate_modular_additive_inverse_def rand_simps length_shuffled)
  define B where "B = (\<lambda>k. \<lparr>bp_a = cs ! (2 * k), bp_b = cs ! (2 * k + 1), bp_complement = snd (priv ! k)\<rparr>)"
  have "list_all2 (\<lambda>x. draws_to ((\<lambda>(a, b). rencode modinv ?pk (a + b)) x)) (zip ?A R) cs" by (rule rmap_draws_to [OF cs])
  then have lcs: "length cs = 2 * n" and csi: "i < 2 * n \<Longrightarrow> encodes bound modinv sk (?A ! i + R ! i) (cs ! i)" for i
    using A R rencode_encodes [OF key] by (auto simp: list_all2_conv_all_nth)
  have "list_all2 (\<lambda>i. draws_to (private_part modinv ?pk R i)) (map (\<lambda>k. 2 * k) [0..<n]) priv"
    using rmap_draws_to [OF priv] unfolding even_range_double .
  then have lpriv: "length priv = n" and privd: "k < n \<Longrightarrow> draws_to (private_part modinv ?pk R (2 * k)) (priv ! k)" for k
    by (auto simp: list_all2_conv_all_nth)
  have privk: "fst (priv ! k) = 2 * k \<and>
      encodes bound modinv sk (pk_p sk + 1 - (R ! (2 * k) + R ! (2 * k + 1)) mod (pk_p sk + 1)) (snd (priv ! k))" if "k < n" for k
    using private_part_draws [OF key privd [OF that]] by simp
  have "list_all2 (\<lambda>i. draws_to (public_part cs i)) (map (\<lambda>k. 2 * k) [0..<n]) pub"
    using rmap_draws_to [OF pub] unfolding lcs even_range_double .
  then have lpub: "length pub = n" and pubk: "k < n \<Longrightarrow> pub ! k = (2 * k, cs ! (2 * k), cs ! (2 * k + 1))" for k
    using public_part_draws by (auto simp: list_all2_conv_all_nth)
  have pub_eq: "pub = map (\<lambda>k. (2 * k, cs ! (2 * k), cs ! (2 * k + 1))) [0..<n]"
    using lpub pubk by (intro nth_equalityI) simp_all
  let ?ps = "shuffled perm2 pub"
  have mps: "mset ?ps = mset pub" using perms(2) by (intro mset_shuffled) (simp add: lpub)
  have "distinct (map fst pub)" by (simp add: pub_eq comp_def distinct_map inj_on_def)
  moreover have "mset (map fst ?ps) = mset (map fst pub)" by (simp only: mset_map mps)
  ultimately have dist: "distinct (map fst ?ps)" by (metis mset_eq_imp_distinct_iff)
  have "mset bps = mset (map B [0..<n])"
  proof -
    have mk: "map_result (make_bitpair (flat_pairs ?ps)) out = return (map B [0..<n])"
    proof -
      have o: "list_all2 (\<lambda>x y. pair_of ?ps (flat_pairs ?ps) x = return y) priv out" using out by (simp add: map_result_all2)
      have "make_bitpair (flat_pairs ?ps) (out ! k) = return (B k)" if k: "k < n" for k
      proof -
        have ok: "pair_of ?ps (flat_pairs ?ps) (priv ! k) = return (out ! k)"
          using o k lpriv by (simp add: list_all2_conv_all_nth)
        have "make_bitpair (flat_pairs ?ps) (out ! k) \<in> range Inr"
        proof -
          have "out ! k \<in> set (shuffled perm3 out)"
          proof -
            have "mset (shuffled perm3 out) = mset out"
              using perms(3) o lpriv by (intro mset_shuffled) (simp add: list_all2_lengthD [symmetric])
            moreover have "length out = n" using o lpriv by (simp add: list_all2_lengthD [symmetric])
            ultimately show ?thesis using k by (metis mset_eq_setD nth_mem)
          qed
          then show ?thesis using bps unfolding map_result_all2 list_all2_conv_all_nth
            by (metis in_set_conv_nth rangeI)
        qed
        then obtain b where b: "make_bitpair (flat_pairs ?ps) (out ! k) = return b" by auto
        obtain e where e: "priv ! k = (2 * k, e)" using privk [OF k] by (cases "priv ! k") auto
        obtain p where p: "p \<in> set ?ps" "fst p = 2 * k" "b = \<lparr>bp_a = fst (snd p), bp_b = snd (snd p), bp_complement = e\<rparr>"
          using bitpair_of_private [OF dist ok [unfolded e] b] by blast
        have "p \<in> set pub" using p(1) mps by (metis mset_eq_setD)
        then have "p = (2 * k, cs ! (2 * k), cs ! (2 * k + 1))" using p(2) unfolding pub_eq by auto
        then show ?thesis using b p(3) e by (simp add: B_def)
      qed
      then show ?thesis using o lpriv by (simp add: map_result_all2 list_all2_conv_all_nth)
    qed
    have lout: "length out = n" using list_all2_lengthD [OF mk [unfolded map_result_all2]] by simp
    have "map_result (make_bitpair (flat_pairs ?ps)) (shuffled perm3 out) = return (shuffled perm3 (map B [0..<n]))"
      unfolding map_result_all2
    proof (rule list_all2_all_nthI)
      show "length (shuffled perm3 out) = length (shuffled perm3 (map B [0..<n]))" by (simp add: length_shuffled)
      fix i assume i: "i < length (shuffled perm3 out)"
      have "perm3 ! i \<in> set [0..<n]" using i perms(3) by (metis length_shuffled mset_eq_setD nth_mem)
      then show "make_bitpair (flat_pairs ?ps) (shuffled perm3 out ! i) = return (shuffled perm3 (map B [0..<n]) ! i)"
        using i mk lout by (simp add: shuffled_def map_result_all2 list_all2_conv_all_nth)
    qed
    then have "bps = shuffled perm3 (map B [0..<n])" using bps by simp
    moreover have "mset (shuffled perm3 (map B [0..<n])) = mset (map B [0..<n])" using perms(3) by (intro mset_shuffled) simp
    ultimately show ?thesis by simp
  qed
  moreover have "encodes bound modinv sk (?A ! (2 * k) + R ! (2 * k)) (bp_a (B k)) \<and>
      encodes bound modinv sk (?A ! (2 * k + 1) + R ! (2 * k + 1)) (bp_b (B k)) \<and>
      encodes bound modinv sk (pk_p sk + 1 - (R ! (2 * k) + R ! (2 * k + 1)) mod (pk_p sk + 1)) (bp_complement (B k))"
    if "k < n" for k
    using csi [of "2 * k"] csi [of "2 * k + 1"] privk [OF that] that by (simp add: B_def)
  ultimately show ?thesis
    by (intro conjI exI [of _ "map B [0..<n]"] exI [of _ R]) (simp_all add: att)
qed

lemma count_mset_list: "count (mset xs) k = count_list xs k"
  by (induction xs) auto

lemma sum_counts: "set rs \<subseteq> {0, 1, 2, 3} \<Longrightarrow>
   count_list rs 0 + count_list rs 1 + count_list rs 2 + count_list rs (3 :: nat) = length rs"
  by (induction rs) auto

lemma relativity_match_same:
  "\<forall>(k, v) \<in> set es. dict_get d k = Some v \<Longrightarrow> relativity_match es d acc = return acc"
  by (induction es d acc rule: relativity_match.induct) auto

lemma challenge_response:
  assumes "valid_key bound modinv sk" "2 \<le> bound"
    and "encodes bound modinv sk (a + x) (bp_a b)" "encodes bound modinv sk (b' + y) (bp_b b)"
    and "encodes bound modinv sk (pk_p sk + 1 - (x + y) mod (pk_p sk + 1)) (bp_complement b)"
    and "0 \<le> a + b'" "a + b' \<le> 2"
    and "draws_to (create_challenge modinv (public_key_of sk) b) c"
  shows "create_challenge_response modinv sk c = a + b'"
proof -
  obtain e d d' where e: "rencode modinv (public_key_of sk) 0 d = Some (return e, d')" "c = mul_value (compress_bitpair b) e"
    using assms(8) by (auto simp: draws_to_def create_challenge_def rand_simps)
  have "draws_to (rencode modinv (public_key_of sk) 0) e" using e(1) unfolding draws_to_def by blast
  from rencode_encodes [OF assms(1) this]
  have "boneh_decode modinv sk [0, 1, 2] (mul_value (mul_value (mul_value (bp_a b) (bp_b b)) (bp_complement b)) e) = Some (a + b')"
    using boneh.decode_cancelled_pair assms(2-7) by blast
  then show ?thesis by (simp add: create_challenge_response_def e(2) compress_bitpair_def)
qed

text \<open>C17: For a valid key, an attestation of a value and any challenges to its bit pairs, the honest responses count to
  exactly the relativity map of the value, and the certainty that the value is the attested one is \<open>1 - 1/2\<^sup>n\<close>
  for \<open>n\<close> pairs, whatever was drawn and however it was shuffled.\<close>

theorem honest_responses_match:
  assumes "valid_key bound modinv sk" "2 \<le> bound" "0 < n" "v < 2 ^ (2 * n)"
    and "mset perm1 = mset [0..<2 * n]" "mset perm2 = mset [0..<n]" "mset perm3 = mset [0..<n]"
    and "attest modinv (public_key_of sk) v (2 * n) (perm1, perm2, perm3) draws = Some (return att, draws')"
    and "list_all2 (\<lambda>b. draws_to (create_challenge modinv (at_pk att) b)) (at_bitpairs att) cs"
  shows "\<exists>d e. binary_relativity v (2 * n) = return e \<and>
    foldl (\<lambda>acc r. bind_result acc (count_response r)) (return create_empty_relativity_map)
      (map (\<lambda>c. nat (create_challenge_response modinv sk c)) cs) = return d \<and>
    (\<forall>k. dict_get d k = dict_get e k) \<and> binary_relativity_certainty e d = return (1 - (1 / 2) ^ n)"
proof -
  let ?A = "padded_bits v (2 * n)" and ?r = "\<lambda>c. nat (create_challenge_response modinv sk c)"
  let ?rs = "map ?r cs"
  have A: "length ?A = 2 * n" "set ?A \<subseteq> {0, 1}" using padded_bits_length [OF assms(4)] assms(3) by simp_all
  obtain bs R where pk: "at_pk att = public_key_of sk" and m: "mset (at_bitpairs att) = mset bs" "length bs = n"
    and enc: "\<forall>k < n. encodes bound modinv sk (?A ! (2 * k) + R ! (2 * k)) (bp_a (bs ! k)) \<and>
       encodes bound modinv sk (?A ! (2 * k + 1) + R ! (2 * k + 1)) (bp_b (bs ! k)) \<and>
       encodes bound modinv sk (pk_p sk + 1 - (R ! (2 * k) + R ! (2 * k + 1)) mod (pk_p sk + 1)) (bp_complement (bs ! k))"
    using attest_bitpairs [OF assms(1) A(1) assms(5-8)] by blast
  let ?s = "\<lambda>k. ?A ! (2 * k) + ?A ! (2 * k + 1)"
  have s: "0 \<le> ?s k \<and> ?s k \<le> 2" if "k < n" for k
  proof -
    have "?A ! (2 * k) \<in> {0, 1}" "?A ! (2 * k + 1) \<in> {0, 1}"
      using that A(1) by (intro subsetD [OF A(2) nth_mem]; simp)+
    then show ?thesis by auto
  qed
  have resp: "?r c = nat (?s k)" if "draws_to (create_challenge modinv (at_pk att) (bs ! k)) c" "k < n" for c k
    using challenge_response [OF assms(1,2)] enc s that pk by metis
  define f where "f = (\<lambda>b. ?r (SOME c. draws_to (create_challenge modinv (at_pk att) b) c))"
  have ex: "\<exists>c. draws_to (create_challenge modinv (at_pk att) b) c" if "b \<in> set bs" for b
    using assms(9) m(1) that unfolding list_all2_conv_all_nth by (metis in_set_conv_nth mset_eq_setD)
  have f: "f (bs ! k) = nat (?s k)" if "k < n" for k
    unfolding f_def using ex [of "bs ! k"] that m(2) by (intro resp) (auto intro: someI_ex)
  have "?rs = map f (at_bitpairs att)"
  proof (rule nth_equalityI)
    show "length ?rs = length (map f (at_bitpairs att))" using assms(9) by (simp add: list_all2_lengthD)
    fix i assume i: "i < length ?rs"
    have d: "draws_to (create_challenge modinv (at_pk att) (at_bitpairs att ! i)) (cs ! i)" and l: "i < length (at_bitpairs att)"
      using assms(9) i by (auto simp: list_all2_conv_all_nth)
    obtain k where k: "k < n" "at_bitpairs att ! i = bs ! k"
      using nth_mem [OF l] m by (metis in_set_conv_nth mset_eq_setD)
    show "?rs ! i = map f (at_bitpairs att) ! i" using i l k f [OF k(1)] resp [OF d [unfolded k(2)] k(1)] by simp
  qed
  then have "mset ?rs = image_mset f (mset bs)" using m(1) by simp
  also have "\<dots> = mset (map f bs)" by simp
  also have "map f bs = pair_sums ?A n" using f m(2) by (intro nth_equalityI) (simp_all add: pair_sums_def)
  finally have ms: "mset ?rs = mset (pair_sums ?A n)" .
  have cnt: "count_list ?rs k = count_list (pair_sums ?A n) k" for k using ms by (metis count_mset_list)
  have len: "length ?rs = n" using arg_cong [OF ms, of size] by (simp add: pair_sums_def)
  have rs: "set ?rs \<subseteq> {0, 1, 2}"
  proof -
    have "set (pair_sums ?A n) \<subseteq> {0, 1, 2}"
    proof
      fix r assume "r \<in> set (pair_sums ?A n)"
      then obtain k where "k < n" "r = nat (?s k)" by (auto simp: pair_sums_def)
      with s [of k] show "r \<in> {0, 1, 2}" by auto
    qed
    then show ?thesis using mset_eq_setD [OF ms] by simp
  qed
  obtain e where e: "binary_relativity v (2 * n) = return e" "dict_wf e"
    "\<forall>k. dict_get e k = (if k < 4 then Some (count_list (pair_sums ?A n) k) else None)"
    using binary_relativity_counts [OF A] by blast
  let ?d0 = "create_empty_relativity_map"
  have "\<forall>r \<in> set ?rs. r \<in> set (dict_keys ?d0)" using rs by (auto simp: create_empty_relativity_map_def)
  from count_responses [OF this] obtain d where d: "foldl (\<lambda>acc r. bind_result acc (count_response r)) (return ?d0) ?rs = return d"
    "dict_keys d = dict_keys ?d0" "\<forall>k. dict_get d k = map_option (\<lambda>m. m + count_list ?rs k) (dict_get ?d0 k)" by blast
  have d0: "dict_get ?d0 k = (if k < 4 then Some 0 else None)" for k by (auto simp: create_empty_relativity_map_def)
  have de: "\<forall>k. dict_get d k = dict_get e k" using d(3) e(3) cnt d0 by simp
  have "dict_values d = map (\<lambda>k. the (dict_get d k)) (dict_keys d)"
  proof -
    have "dict_wf d" unfolding dict_wf_def d(2) by (simp add: create_empty_relativity_map_def)
    then have "snd x = the (dict_get d (fst x))" if "x \<in> set d" for x
      using in_set_dict_wf [of d "fst x" "snd x"] that by simp
    then show ?thesis by simp
  qed
  also have "\<dots> = [count_list ?rs 0, count_list ?rs 1, count_list ?rs 2, count_list ?rs 3]"
    unfolding d(2) using d(3) d0 by (simp add: create_empty_relativity_map_def)
  finally have vals: "dict_values d = [count_list ?rs 0, count_list ?rs 1, count_list ?rs 2, count_list ?rs 3]" .
  have sum: "sum_list (dict_values d) = n" unfolding vals using sum_counts [of ?rs] subset_trans [OF rs, of "{0, 1, 2, 3}"] len by simp
  have "relativity_match e d 1 = return 1"
  proof (rule relativity_match_same, rule ballI)
    fix x assume "x \<in> set e"
    then show "case x of (k, v) \<Rightarrow> dict_get d k = Some v"
      using in_set_dict_wf [OF e(2), of "fst x" "snd x"] de by (simp add: case_prod_beta)
  qed
  then have "binary_relativity_certainty e d = return (1 - (1 / 2) ^ n)"
    by (simp add: binary_relativity_certainty_def binary_relativity_match_def sum)
  then show ?thesis using e(1) d(1) de by blast
qed

section \<open>Attestations are read back\<close>

definition bitpair_shape :: "int \<Rightarrow> bitpair \<Rightarrow> bool" where
  "bitpair_shape p b \<longleftrightarrow> linear_shape p (bp_a b) \<and> linear_shape p (bp_b b) \<and> linear_shape p (bp_complement b)"

lemma bitpair_roundtrip:
  assumes "p \<noteq> 0" "bitpair_shape p b" "serialize_bitpair b = return x"
  shows "unserialize_bitpair (x @ rest) p = return b" and "x \<noteq> []"
proof -
  have six: "length (bitpair_numbers b) = 6" by (simp add: bitpair_numbers_def)
  have "read_nums 6 (x @ rest) = return (bitpair_numbers b, rest)"
    using read_pack_nums [of "bitpair_numbers b" x rest, unfolded six] assms(3) by (simp add: serialize_bitpair_def)
  then show "unserialize_bitpair (x @ rest) p = return b"
    using assms(1,2) by (simp add: unserialize_bitpair_def six bitpair_numbers_def linear_result_def make_fp2_def
        bitpair_shape_def linear_shape_def)
  show "x \<noteq> []"
    using assms(3) iunpack_ipack(2) by (auto simp: serialize_bitpair_def bitpair_numbers_def bind_result_eq_Inr)
qed

lemma bitpairs_roundtrip:
  "p \<noteq> 0 \<Longrightarrow> \<forall>b \<in> set bs. bitpair_shape p b \<Longrightarrow> serialize_bitpairs bs = return x \<Longrightarrow>
   unserialize_bitpairs x p = return bs"
proof (induction bs arbitrary: x)
  case (Cons b bs)
  obtain y z where y: "serialize_bitpair b = return y" "serialize_bitpairs bs = return z" "x = y @ z"
    using Cons.prems(3) by (auto simp: bind_result_eq_Inr)
  have "bitpair_shape p b" using Cons.prems(2) by simp
  note r = bitpair_roundtrip(1) [OF Cons.prems(1) this y(1), of z] bitpair_roundtrip(2) [OF Cons.prems(1) this y(1)]
  have "unserialize_bitpairs z p = return bs" using Cons y(2) by simp
  then show ?case using r y Cons.prems(2) by (subst unserialize_bitpairs.simps) simp
qed (simp add: unserialize_bitpairs.simps)

text \<open>C21: An attestation whose key and bit pairs are polynomials of degree one without a denominator is read back from
  what was written for it; only its identity format is given again by the reader.\<close>

theorem attestation_roundtrip:
  assumes "key_shape (at_pk att)" "\<forall>b \<in> set (at_bitpairs att). bitpair_shape (pk_p (at_pk att)) b"
    and "serialize_attestation att = return x"
  shows "unserialize_attestation x f = return (att\<lparr>at_id_format := f\<rparr>)"
proof -
  obtain y z where y: "serialize_public_key (at_pk att) = return y" "serialize_bitpairs (at_bitpairs att) = return z" "x = y @ z"
    using assms(3) by (auto simp: serialize_attestation_def bind_result_eq_Inr)
  define sk where "sk = \<lparr>pk_p = pk_p (at_pk att), pk_g = pk_g (at_pk att), pk_h = pk_h (at_pk att), sk_n = 0, sk_t1 = 0\<rparr>"
  have sk: "public_key_of sk = at_pk att" "key_shape sk" "serialize_public_key sk = return y"
    using assms(1) y(1) by (simp_all add: sk_def public_key_of_def key_shape_def serialize_public_key_def public_numbers_def)
  have "unserialize_public_key (y @ z) = return (Some (at_pk att))"
    using public_key_read_back [OF sk(2,3)] sk(1) by simp
  moreover have "unserialize_bitpairs z (pk_p (at_pk att)) = return (at_bitpairs att)"
    using assms(1,2) y(2) by (intro bitpairs_roundtrip) (simp_all add: key_shape_def)
  ultimately show ?thesis using y(1,3) by (simp add: unserialize_attestation_def)
qed

text \<open>A response other than 0, 1, 2 and 3 raises \<^verbatim>\<open>KeyError\<close> and leaves the lock held, so that no later
  response, of any prover, is ever counted.\<close>

theorem unexpected_response_blocks:
  assumes "3 < unat r"
  shows "boneh_process_response [r] False create_empty_relativity_map =
      Some (raise KeyError, True, create_empty_relativity_map) \<and>
    (\<forall>b aggregate. boneh_process_response [b] True aggregate = None)"
  using assms by (auto simp: boneh_process_response_def unpack_byte_def process_challenge_response_def count_response_def
      create_empty_relativity_map_def)

section \<open>A concrete key\<close>

definition ex_sk :: private_key where
  "ex_sk = \<lparr>pk_p = 11, pk_g = linear 11 0 (- 1), pk_h = linear 11 (- 1) 0, sk_n = 6, sk_t1 = 2\<rparr>"

lemma ex_sk_valid: "valid_key 2 ex_modinv ex_sk"
proof -
  have g: "generator 11 (linear 11 0 (- 1)) (Eis 0 (- 1)) (Eis 1 1)"
    using rep_linear [of 11 0 "- 1"] by (simp add: generator_def cong_iff eis_simps)
  have h: "generator 11 (linear 11 (- 1) 0) (Eis (- 1) 0) (Eis (- 1) 0)"
    using rep_linear [of 11 "- 1" 0] by (simp add: generator_def cong_iff eis_simps)
  have T: "(Eis 0 (- 1)) ^ 2 = Eis (- 1) (- 1)" by (simp add: power2_eq_square times_eis_def)
  have "\<not> cong 11 (Eis (- 1) (- 1) ^ i) (Eis (- 1) (- 1) ^ j)" if "i < j" "int j \<le> 2" for i j
  proof -
    have "i = 0 \<and> j = 1 \<or> i = 0 \<and> j = 2 \<or> i = 1 \<and> j = 2" using that by arith
    then show ?thesis by (elim disjE conjE) (simp_all add: power2_eq_square times_eis_def cong_iff one_eis_def)
  qed
  moreover have "cong 11 (Eis 0 (- 1) ^ 12) 1" "cong 11 (Eis (- 1) 0 ^ 2) 1"
    by (simp_all add: cong_iff eval_nat_numeral times_eis_def one_eis_def)
  ultimately show ?thesis
    using g h field_modulus_11 ex_modinv_ok unfolding valid_key_def ex_sk_def by (auto simp: T)
qed

definition ex_attestation :: attestation where
  "ex_attestation = \<lparr>at_pk = public_key_of ex_sk,
     at_bitpairs = [\<lparr>bp_a = linear 11 10 0, bp_b = linear 11 0 1, bp_complement = linear 11 10 0\<rparr>], at_id_format = None\<rparr>"

lemma ex_attest:
  "attest ex_modinv (public_key_of ex_sk) 2 (2 * 1) ([0, 1], [0], [0]) [5, 5, 5, 5] = Some (return ex_attestation, [])"
  by code_simp

lemma ex_challenge: "create_challenge ex_modinv (at_pk ex_attestation) (hd (at_bitpairs ex_attestation)) [5] = Some (return (linear 11 0 10), [])"
  by code_simp

theorem honest_responses_match_witness:
  "\<exists>d e. binary_relativity 2 2 = return e \<and> (\<forall>k. dict_get d k = dict_get e k) \<and>
     binary_relativity_certainty e d = return (1 / 2)"
proof -
  have "draws_to (create_challenge ex_modinv (at_pk ex_attestation) (hd (at_bitpairs ex_attestation))) (linear 11 0 10)"
    using ex_challenge unfolding draws_to_def by blast
  then have c: "list_all2 (\<lambda>b. draws_to (create_challenge ex_modinv (at_pk ex_attestation) b)) (at_bitpairs ex_attestation) [linear 11 0 10]"
    by (simp add: ex_attestation_def)
  have "mset [0, 1] = mset [0..<2 * 1]" "mset [0] = mset [0..<1]" by (simp_all add: eval_nat_numeral)
  from honest_responses_match [OF ex_sk_valid _ _ _ this this(2) ex_attest c] show ?thesis by auto
qed

lemma ex_encode:
  "boneh_encode ex_modinv (public_key_of ex_sk) 1 [5] = Some (linear 11 0 1, [])"
  by code_simp

theorem encodings_add_up_witness:
  "boneh_decode ex_modinv ex_sk [0, 1, 2] (mul_value (linear 11 0 1) (linear 11 0 1)) = Some 2"
  using encodings_add_up [OF ex_sk_valid ex_encode ex_encode, of "[0, 1, 2]"] by simp

theorem unexpected_response_blocks_witness:
  "boneh_process_response [7] False create_empty_relativity_map = Some (raise KeyError, True, create_empty_relativity_map)"
  using unexpected_response_blocks [of 7] by simp

lemma ex_shapes: "key_shape ex_sk" "key_shape (at_pk ex_attestation)"
  "\<forall>b \<in> set (at_bitpairs ex_attestation). bitpair_shape (pk_p (at_pk ex_attestation)) b"
  using linear_shape_linear by (simp_all add: key_shape_def ex_sk_def ex_attestation_def public_key_of_def bitpair_shape_def)

lemma ex_sk_written: "serialize_private_key ex_sk = return [1,1,11,1,1,0,1,1,10,1,1,10,1,1,0,1,1,6,1,1,2]"
  by code_simp

theorem keys_roundtrip_witness:
  "unserialize_private_key [1,1,11,1,1,0,1,1,10,1,1,10,1,1,0,1,1,6,1,1,2] = return (Some ex_sk)"
  using keys_roundtrip [OF ex_shapes(1), of "[]" "[]" "[1,1,11,1,1,0,1,1,10,1,1,10,1,1,0,1,1,6,1,1,2]"] ex_sk_written by simp

theorem attestation_roundtrip_witness:
  "\<exists>x. serialize_attestation ex_attestation = return x \<and>
     unserialize_attestation x (Some ''id_metadata'') = return (ex_attestation\<lparr>at_id_format := Some ''id_metadata''\<rparr>)"
proof -
  have "\<exists>x. serialize_attestation ex_attestation = return x"
  proof -
    have "serialize_attestation ex_attestation =
      return [1,1,11,1,1,0,1,1,10,1,1,10,1,1,0, 1,1,10,1,1,0,1,1,0,1,1,1,1,1,10,1,1,0]" by code_simp
    then show ?thesis by blast
  qed
  then show ?thesis using attestation_roundtrip [OF ex_shapes(2,3)] by blast
qed

end
