(* ===== verification/TokenTree.thy ===== *)
theory TokenTree
  imports Prelude
begin

text \<open>
  Signed objects and trees of tokens (\<^verbatim>\<open>ipv8/attestation/signed_object.py\<close>,
  \<^verbatim>\<open>ipv8/attestation/tokentree/token.py\<close> and \<^verbatim>\<open>tree.py\<close>). Hashes and signatures belong to other
  packages: they are the fields of \<open>crypto\<close>, an argument. A public key is the bytes \<^verbatim>\<open>key_to_bin\<close> gives
  for it.
\<close>

section \<open>Signed objects\<close>

record 'sk crypto =
  sha3 :: "bytes \<Rightarrow> bytes"
  is_valid_signature :: "bytes \<Rightarrow> bytes \<Rightarrow> bytes \<Rightarrow> bool"
  make_signature :: "'sk \<Rightarrow> bytes \<Rightarrow> bytes"
  pub :: "'sk \<Rightarrow> bytes"
  signature_length :: "bytes \<Rightarrow> nat"

text \<open>\<^verbatim>\<open>AbstractSignedObject._sign\<close>: the signature of an object with this plaintext.\<close>

definition sign_object :: "'sk crypto \<Rightarrow> bytes \<Rightarrow> 'sk option \<Rightarrow> bytes option \<Rightarrow> bytes result" where
  "sign_object C plain sk sig =
     (case (sk, sig) of
        (Some k, None) \<Rightarrow> return (make_signature C k plain)
      | (None, Some s) \<Rightarrow> return s
      | _ \<Rightarrow> raise RuntimeError)"

section \<open>Tokens\<close>

record token =
  tk_prev :: bytes
  tk_content_hash :: bytes
  tk_content :: "bytes option"
  tk_signature :: bytes

definition token_plaintext :: "token \<Rightarrow> bytes" where
  "token_plaintext t = tk_prev t @ tk_content_hash t"

definition token_signed :: "token \<Rightarrow> bytes" where
  "token_signed t = token_plaintext t @ tk_signature t"

text \<open>The hash is computed once; what it covers never changes.\<close>

definition token_hash :: "'sk crypto \<Rightarrow> token \<Rightarrow> bytes" where
  "token_hash C t = sha3 C (token_signed t)"

definition token_eq :: "token \<Rightarrow> token \<Rightarrow> bool" where
  "token_eq s t \<longleftrightarrow> token_signed s = token_signed t"

definition verify_token :: "'sk crypto \<Rightarrow> bytes \<Rightarrow> token \<Rightarrow> bool" where
  "verify_token C pk t = is_valid_signature C pk (token_plaintext t) (tk_signature t)"

definition new_token ::
  "'sk crypto \<Rightarrow> bytes \<Rightarrow> bytes option \<Rightarrow> bytes option \<Rightarrow> 'sk option \<Rightarrow> bytes option \<Rightarrow> token result" where
  "new_token C prev content content_hash sk sig =
     bind_result
       (case (content, content_hash) of
          (Some c, None) \<Rightarrow> return (Some c, sha3 C c)
        | (None, Some h) \<Rightarrow> return (None, h)
        | _ \<Rightarrow> raise RuntimeError)
       (\<lambda>(c, h). bind_result (sign_object C (prev @ h) sk sig) (\<lambda>s.
          return \<lparr>tk_prev = prev, tk_content_hash = h, tk_content = c, tk_signature = s\<rparr>))"

definition create_token :: "'sk crypto \<Rightarrow> token \<Rightarrow> bytes \<Rightarrow> 'sk \<Rightarrow> token result" where
  "create_token C previous content sk = new_token C (token_hash C previous) (Some content) None (Some sk) None"

definition slice :: "bytes \<Rightarrow> nat \<Rightarrow> nat \<Rightarrow> bytes" where
  "slice b i n = take n (drop i b)"

definition unserialize_token :: "'sk crypto \<Rightarrow> bytes \<Rightarrow> nat \<Rightarrow> bytes \<Rightarrow> token result" where
  "unserialize_token C data offset pk =
     (let n = signature_length C pk
      in if length data < offset + (64 + n) then raise StructError
         else new_token C (slice data offset 32) None (Some (slice data (offset + 32) 32)) None
                (Some (slice data (offset + 64) n)))"

definition receive_content :: "'sk crypto \<Rightarrow> bytes \<Rightarrow> token \<Rightarrow> token \<times> bool" where
  "receive_content C content t =
     (if sha3 C content = tk_content_hash t then (t\<lparr>tk_content := Some content\<rparr>, True) else (t, False))"

definition token_to_database :: "token \<Rightarrow> bytes \<times> bytes \<times> bytes \<times> bytes option" where
  "token_to_database t = (tk_prev t, tk_signature t, tk_content_hash t, tk_content t)"

definition token_from_database :: "'sk crypto \<Rightarrow> bytes \<times> bytes \<times> bytes \<times> bytes option \<Rightarrow> token result" where
  "token_from_database C = (\<lambda>(prev, sig, content_hash, content).
     bind_result (new_token C prev None (Some content_hash) None (Some sig)) (\<lambda>t.
       return (case content of None \<Rightarrow> t | Some c \<Rightarrow> fst (receive_content C c t))))"

section \<open>Trees\<close>

record 'sk token_tree =
  elements :: "(bytes, token) dict"
  unchained :: "token list"
  unchained_max_size :: nat
  tree_public_key :: bytes
  tree_private_key :: "'sk option"
  genesis_hash :: bytes

definition new_tree :: "'sk crypto \<Rightarrow> bytes option \<Rightarrow> 'sk option \<Rightarrow> 'sk token_tree result" where
  "new_tree C pk sk =
     bind_result
       (case (pk, sk) of
          (Some p, None) \<Rightarrow> return (p, None) | (None, Some k) \<Rightarrow> return (pub C k, Some k) | _ \<Rightarrow> raise RuntimeError)
       (\<lambda>(p, k).
          return \<lparr>elements = [], unchained = [], unchained_max_size = 100, tree_public_key = p,
            tree_private_key = k, genesis_hash = sha3 C p\<rparr>)"

definition append_token :: "'sk crypto \<Rightarrow> token \<Rightarrow> 'sk token_tree \<Rightarrow> 'sk token_tree" where
  "append_token C t tr = tr\<lparr>elements := dict_set (token_hash C t) t (elements tr)\<rparr>"

definition previous_hash :: "'sk crypto \<Rightarrow> token option \<Rightarrow> 'sk token_tree \<Rightarrow> bytes" where
  "previous_hash C after tr = (case after of None \<Rightarrow> genesis_hash tr | Some a \<Rightarrow> token_hash C a)"

definition tree_add :: "'sk crypto \<Rightarrow> bytes \<Rightarrow> token option \<Rightarrow> 'sk token_tree \<Rightarrow> ('sk token_tree \<times> token) result" where
  "tree_add C content after tr =
     (case tree_private_key tr of
        None \<Rightarrow> raise RuntimeError
      | Some sk \<Rightarrow>
          bind_result (new_token C (previous_hash C after tr) (Some content) None (Some sk) None) (\<lambda>t.
            return (append_token C t tr, t)))"

definition tree_add_by_hash ::
  "'sk crypto \<Rightarrow> bytes \<Rightarrow> token option \<Rightarrow> 'sk token_tree \<Rightarrow> ('sk token_tree \<times> token) result" where
  "tree_add_by_hash C content_hash after tr =
     (case tree_private_key tr of
        None \<Rightarrow> raise RuntimeError
      | Some sk \<Rightarrow>
          bind_result (new_token C (previous_hash C after tr) None (Some content_hash) (Some sk) None) (\<lambda>t.
            return (append_token C t tr, t)))"

text \<open>The waiting tokens are the keys of an ordered dictionary: an equal token keeps its place.\<close>

definition delay_token :: "token \<Rightarrow> 'sk token_tree \<Rightarrow> 'sk token_tree" where
  "delay_token t tr =
     (let u = (if \<exists>s \<in> set (unchained tr). token_eq s t then unchained tr else unchained tr @ [t])
      in tr\<lparr>unchained := (if unchained_max_size tr < length u then tl u else u)\<rparr>)"

definition wake_token :: "token \<Rightarrow> 'sk token_tree \<Rightarrow> 'sk token_tree" where
  "wake_token t tr = tr\<lparr>unchained := filter (\<lambda>s. \<not> token_eq s t) (unchained tr)\<rparr>"

definition waiting_for :: "bytes \<Rightarrow> 'sk token_tree \<Rightarrow> token option" where
  "waiting_for h tr = find (\<lambda>s. tk_prev s = h) (unchained tr)"

text \<open>A known token, which may receive the content of its copy.\<close>

definition shadow_token :: "'sk crypto \<Rightarrow> token \<Rightarrow> token \<Rightarrow> token" where
  "shadow_token C t s =
     (case (tk_content s, tk_content t) of (None, Some c) \<Rightarrow> fst (receive_content C c s) | _ \<Rightarrow> s)"

definition known_previous :: "token \<Rightarrow> 'sk token_tree \<Rightarrow> bool" where
  "known_previous t tr \<longleftrightarrow> tk_prev t = genesis_hash tr \<or> dict_get (elements tr) (tk_prev t) \<noteq> None"

text \<open>
  \<^verbatim>\<open>gather_token\<close> and \<^verbatim>\<open>_append_chain_reaction_token\<close>. A new token wakes the first token that waits for it,
  which is gathered in turn; there is one token less waiting each time.
\<close>

lemma waiting_for_wakes:
  assumes "waiting_for h tr = Some w"
  shows "length (unchained (wake_token w tr)) < length (unchained tr)"
  using assms by (auto simp: waiting_for_def wake_token_def find_Some_iff token_eq_def intro!: length_filter_less)

function gather_token :: "'sk crypto \<Rightarrow> token \<Rightarrow> 'sk token_tree \<Rightarrow> 'sk token_tree \<times> token option" where
  "gather_token C t tr =
     (if \<not> verify_token C (tree_public_key tr) t then (tr, None)
      else if \<not> known_previous t tr then (delay_token t tr, None)
      else
        case dict_get (elements tr) (token_hash C t) of
          Some s \<Rightarrow>
            let s = shadow_token C t s
            in (tr\<lparr>elements := dict_set (token_hash C t) s (elements tr)\<rparr>, Some s)
        | None \<Rightarrow>
            let tr = append_token C t tr
            in (case waiting_for (token_hash C t) tr of
                  None \<Rightarrow> (tr, Some t) | Some w \<Rightarrow> (fst (gather_token C w (wake_token w tr)), Some t)))"
  by pat_completeness auto
termination
  by (relation "measure (\<lambda>(C, t, tr). length (unchained tr))")
    (auto dest!: waiting_for_wakes simp: append_token_def)

declare gather_token.simps [simp del]

definition get_missing :: "'sk token_tree \<Rightarrow> bytes set" where
  "get_missing tr = set (map tk_prev (unchained tr))"

text \<open>
  The loops back to the root run without a bound when \<^verbatim>\<open>maxdepth\<close> is \<open>- 1\<close>; they have no value when they do not
  end.
\<close>

partial_function (option) verify_loop ::
  "'sk crypto \<Rightarrow> 'sk token_tree \<Rightarrow> int \<Rightarrow> int \<Rightarrow> token \<Rightarrow> bool option" where
  "verify_loop C tr maxdepth steps t =
     (if maxdepth = - 1 \<or> steps < maxdepth then
        if \<not> verify_token C (tree_public_key tr) t then Some False
        else if tk_prev t = genesis_hash tr then Some (steps < maxdepth)
        else (case dict_get (elements tr) (tk_prev t) of
                None \<Rightarrow> Some False | Some s \<Rightarrow> verify_loop C tr maxdepth (steps + 1) s)
      else Some (steps < maxdepth))"

definition tree_verify :: "'sk crypto \<Rightarrow> token \<Rightarrow> int \<Rightarrow> 'sk token_tree \<Rightarrow> bool option" where
  "tree_verify C t maxdepth tr = verify_loop C tr maxdepth 0 t"

partial_function (option) root_path_loop ::
  "'sk crypto \<Rightarrow> 'sk token_tree \<Rightarrow> int \<Rightarrow> int \<Rightarrow> token \<Rightarrow> token list \<Rightarrow> token list option" where
  "root_path_loop C tr maxdepth steps t path =
     (if maxdepth = - 1 \<or> steps < maxdepth then
        if \<not> verify_token C (tree_public_key tr) t then Some []
        else if tk_prev t = genesis_hash tr then Some (if steps < maxdepth then path else [])
        else (case dict_get (elements tr) (tk_prev t) of
                None \<Rightarrow> Some [] | Some s \<Rightarrow> root_path_loop C tr maxdepth (steps + 1) s (path @ [s]))
      else Some (if steps < maxdepth then path else []))"

definition get_root_path :: "'sk crypto \<Rightarrow> token \<Rightarrow> int \<Rightarrow> 'sk token_tree \<Rightarrow> token list option" where
  "get_root_path C t maxdepth tr = root_path_loop C tr maxdepth 0 t [t]"

partial_function (option) serialize_loop :: "'sk token_tree \<Rightarrow> bytes \<Rightarrow> bytes \<Rightarrow> bytes option" where
  "serialize_loop tr next_token out =
     (case dict_get (elements tr) next_token of
        None \<Rightarrow> Some out | Some t \<Rightarrow> serialize_loop tr (tk_prev t) (out @ token_signed t))"

definition serialize_public :: "token option \<Rightarrow> 'sk token_tree \<Rightarrow> bytes option" where
  "serialize_public up_to tr =
     (case up_to of
        Some t \<Rightarrow> serialize_loop tr (tk_prev t) (token_signed t)
      | None \<Rightarrow> Some (concat (map token_signed (dict_values (elements tr)))))"

text \<open>The loop over the chunks; a chunk that is cut off raises, with the tokens before it gathered.\<close>

fun gather_chunks :: "'sk crypto \<Rightarrow> bytes \<Rightarrow> nat list \<Rightarrow> bool \<Rightarrow> 'sk token_tree \<Rightarrow> 'sk token_tree \<times> bool result" where
  "gather_chunks C s [] correct tr = (tr, return correct)"
| "gather_chunks C s (i # is) correct tr =
     (case unserialize_token C s i (tree_public_key tr) of
        Inl e \<Rightarrow> (tr, raise e)
      | Inr t \<Rightarrow>
          let (tr, r) = gather_token C t tr
          in gather_chunks C s is (correct \<and> r \<noteq> None) tr)"

text \<open>\<^verbatim>\<open>range(0, len(s), chunk_size)\<close>\<close>

definition chunk_starts :: "nat \<Rightarrow> nat \<Rightarrow> nat list" where
  "chunk_starts n width = map (\<lambda>k. k * width) [0..<(n + width - 1) div width]"

definition unserialize_public :: "'sk crypto \<Rightarrow> bytes \<Rightarrow> 'sk token_tree \<Rightarrow> 'sk token_tree \<times> bool result" where
  "unserialize_public C s tr =
     gather_chunks C s (chunk_starts (length s) (64 + signature_length C (tree_public_key tr))) True tr"

end
