(* ===== verification/Identity.thy ===== *)
theory Identity
  imports TokenTree
begin

text \<open>
  Pseudonyms (\<^verbatim>\<open>ipv8/attestation/identity/attestation.py\<close>, \<^verbatim>\<open>metadata.py\<close>, \<^verbatim>\<open>database.py\<close> and
  \<^verbatim>\<open>manager.py\<close>): signed metadata and attestations about it, the tables that keep them, and the disclosures by
  which a pseudonym shows some of its credentials. The tables are lists of rows in the order of their
  insertion.
\<close>

section \<open>The environment\<close>

text \<open>
  What belongs to other packages: hashes and signatures, the order in which a set of objects with these
  contents is iterated (a permutation of their positions), the reading of public keys, and JSON; the values
  of a JSON object have type \<open>'j\<close>.
\<close>

record ('sk, 'j) identity_env =
  id_crypto :: "'sk crypto"
  set_order :: "bytes list \<Rightarrow> nat list"
  key_from_public_bin :: "bytes \<Rightarrow> bytes result"
  json_dumps :: "(string, 'j) dict \<Rightarrow> bytes"
  json_loads :: "bytes \<Rightarrow> (string, 'j) dict result"
  json_string :: "string \<Rightarrow> 'j"
  json_number :: "seconds \<Rightarrow> 'j"

text \<open>A set of objects, given by their contents, and its iteration.\<close>

fun as_set :: "('a \<Rightarrow> bytes) \<Rightarrow> 'a list \<Rightarrow> 'a list" where
  "as_set key [] = []"
| "as_set key (x # xs) = x # as_set key (filter (\<lambda>y. key y \<noteq> key x) xs)"

definition iterate_set :: "('sk, 'j) identity_env \<Rightarrow> ('a \<Rightarrow> bytes) \<Rightarrow> 'a list \<Rightarrow> 'a list" where
  "iterate_set E key xs = (let s = as_set key xs in map (nth s) (set_order E (map key s)))"

section \<open>Metadata and attestations\<close>

record metadata =
  md_pointer :: bytes
  md_json :: bytes
  md_signature :: bytes

definition metadata_plaintext :: "metadata \<Rightarrow> bytes" where
  "metadata_plaintext m = md_pointer m @ md_json m"

definition metadata_signed :: "metadata \<Rightarrow> bytes" where
  "metadata_signed m = metadata_plaintext m @ md_signature m"

definition metadata_hash :: "'sk crypto \<Rightarrow> metadata \<Rightarrow> bytes" where
  "metadata_hash C m = sha3 C (metadata_signed m)"

definition verify_metadata :: "'sk crypto \<Rightarrow> bytes \<Rightarrow> metadata \<Rightarrow> bool" where
  "verify_metadata C pk m = is_valid_signature C pk (metadata_plaintext m) (md_signature m)"

definition new_metadata :: "'sk crypto \<Rightarrow> bytes \<Rightarrow> bytes \<Rightarrow> 'sk option \<Rightarrow> bytes option \<Rightarrow> metadata result" where
  "new_metadata C pointer json sk sig =
     bind_result (sign_object C (pointer @ json) sk sig) (\<lambda>s.
       return \<lparr>md_pointer = pointer, md_json = json, md_signature = s\<rparr>)"

definition create_metadata :: "('sk, 'j) identity_env \<Rightarrow> token \<Rightarrow> (string, 'j) dict \<Rightarrow> 'sk \<Rightarrow> metadata result" where
  "create_metadata E t d sk =
     new_metadata (id_crypto E) (token_hash (id_crypto E) t) (json_dumps E d) (Some sk) None"

text \<open>The slices \<^verbatim>\<open>data[32:-n]\<close> and \<^verbatim>\<open>data[-n:]\<close>; for \<open>n = 0\<close> the first is empty and the second is everything.\<close>

definition unserialize_metadata :: "'sk crypto \<Rightarrow> bytes \<Rightarrow> bytes \<Rightarrow> nat \<Rightarrow> metadata result" where
  "unserialize_metadata C data pk offset =
     (if offset \<noteq> 0 then raise RuntimeError
      else
        let n = signature_length C pk
        in new_metadata C (take 32 data) (if n = 0 then [] else drop 32 (take (length data - n) data)) None
             (Some (if n = 0 then data else drop (length data - n) data)))"

record id_attestation =
  ia_pointer :: bytes
  ia_signature :: bytes

definition attestation_signed :: "id_attestation \<Rightarrow> bytes" where
  "attestation_signed a = ia_pointer a @ ia_signature a"

definition attestation_hash :: "'sk crypto \<Rightarrow> id_attestation \<Rightarrow> bytes" where
  "attestation_hash C a = sha3 C (attestation_signed a)"

definition verify_attestation :: "'sk crypto \<Rightarrow> bytes \<Rightarrow> id_attestation \<Rightarrow> bool" where
  "verify_attestation C pk a = is_valid_signature C pk (ia_pointer a) (ia_signature a)"

definition new_attestation :: "'sk crypto \<Rightarrow> bytes \<Rightarrow> 'sk option \<Rightarrow> bytes option \<Rightarrow> id_attestation result" where
  "new_attestation C pointer sk sig =
     bind_result (sign_object C pointer sk sig) (\<lambda>s. return \<lparr>ia_pointer = pointer, ia_signature = s\<rparr>)"

definition create_attestation :: "'sk crypto \<Rightarrow> metadata \<Rightarrow> 'sk \<Rightarrow> id_attestation result" where
  "create_attestation C m sk = new_attestation C (metadata_hash C m) (Some sk) None"

definition unserialize_id_attestation :: "'sk crypto \<Rightarrow> bytes \<Rightarrow> bytes \<Rightarrow> nat \<Rightarrow> id_attestation result" where
  "unserialize_id_attestation C data pk offset =
     (let n = signature_length C pk
      in if length data < offset + (32 + n) then raise StructError
         else new_attestation C (slice data offset 32) None (Some (slice data (offset + 32) n)))"

section \<open>The tables\<close>

record id_database =
  tokens_table :: "(bytes \<times> token) list"
  metadata_table :: "(bytes \<times> metadata) list"
  attestations_table :: "(bytes \<times> bytes \<times> id_attestation) list"

text \<open>\<^verbatim>\<open>INSERT OR IGNORE\<close>: a row with the primary key of another is dropped.\<close>

definition insert_or_ignore :: "('r \<Rightarrow> 'k) \<Rightarrow> 'r \<Rightarrow> 'r list \<Rightarrow> 'r list" where
  "insert_or_ignore key r rows = (if key r \<in> key ` set rows then rows else rows @ [r])"

definition insert_token :: "bytes \<Rightarrow> token \<Rightarrow> id_database \<Rightarrow> id_database" where
  "insert_token pk t db =
     db\<lparr>tokens_table := insert_or_ignore (\<lambda>(p, t). (p, tk_prev t, tk_content_hash t)) (pk, t) (tokens_table db)\<rparr>"

definition insert_metadata :: "bytes \<Rightarrow> metadata \<Rightarrow> id_database \<Rightarrow> id_database" where
  "insert_metadata pk m db =
     db\<lparr>metadata_table := insert_or_ignore (\<lambda>(p, m). (p, md_pointer m)) (pk, m) (metadata_table db)\<rparr>"

definition insert_attestation :: "bytes \<Rightarrow> bytes \<Rightarrow> id_attestation \<Rightarrow> id_database \<Rightarrow> id_database" where
  "insert_attestation pk authority a db =
     db\<lparr>attestations_table :=
       insert_or_ignore (\<lambda>(p, _, a). (p, ia_pointer a)) (pk, authority, a) (attestations_table db)\<rparr>"

definition get_tokens_for :: "('sk, 'j) identity_env \<Rightarrow> bytes \<Rightarrow> id_database \<Rightarrow> token list" where
  "get_tokens_for E pk db =
     iterate_set E token_signed
       (map (\<lambda>(_, t). case token_from_database (id_crypto E) (token_to_database t) of Inr t \<Rightarrow> t | Inl _ \<Rightarrow> t)
         (filter (\<lambda>(p, _). p = pk) (tokens_table db)))"

definition get_metadata_for :: "('sk, 'j) identity_env \<Rightarrow> bytes \<Rightarrow> id_database \<Rightarrow> metadata list" where
  "get_metadata_for E pk db = iterate_set E metadata_signed (map snd (filter (\<lambda>(p, _). p = pk) (metadata_table db)))"

definition get_attestations_for :: "('sk, 'j) identity_env \<Rightarrow> bytes \<Rightarrow> id_database \<Rightarrow> id_attestation list" where
  "get_attestations_for E pk db =
     iterate_set E attestation_signed (map (snd \<circ> snd) (filter (\<lambda>(p, _). p = pk) (attestations_table db)))"

definition get_attestations_by :: "('sk, 'j) identity_env \<Rightarrow> bytes \<Rightarrow> id_database \<Rightarrow> id_attestation list" where
  "get_attestations_by E pk db =
     iterate_set E attestation_signed (map (snd \<circ> snd) (filter (\<lambda>(_, q, _). q = pk) (attestations_table db)))"

definition get_attestations_over :: "('sk, 'j) identity_env \<Rightarrow> metadata \<Rightarrow> id_database \<Rightarrow> id_attestation list" where
  "get_attestations_over E m db =
     iterate_set E attestation_signed
       (map (snd \<circ> snd) (filter (\<lambda>(_, _, a). ia_pointer a = metadata_hash (id_crypto E) m) (attestations_table db)))"

text \<open>\<^verbatim>\<open>next\<close> on no row raises \<^verbatim>\<open>StopIteration\<close>.\<close>

definition get_authority :: "id_attestation \<Rightarrow> id_database \<Rightarrow> bytes result" where
  "get_authority a db =
     (case find (\<lambda>(_, _, b). ia_signature b = ia_signature a) (attestations_table db) of
        None \<Rightarrow> raise StopIteration | Some (_, q, _) \<Rightarrow> return q)"

record credential =
  cr_metadata :: metadata
  cr_attestations :: "id_attestation list"

definition get_credential_over :: "('sk, 'j) identity_env \<Rightarrow> metadata \<Rightarrow> id_database \<Rightarrow> credential" where
  "get_credential_over E m db = \<lparr>cr_metadata = m, cr_attestations = get_attestations_over E m db\<rparr>"

definition get_credentials_for :: "('sk, 'j) identity_env \<Rightarrow> bytes \<Rightarrow> id_database \<Rightarrow> credential list" where
  "get_credentials_for E pk db = map (\<lambda>m. get_credential_over E m db) (get_metadata_for E pk db)"

definition get_known_identities :: "id_database \<Rightarrow> bytes list" where
  "get_known_identities db = map fst (tokens_table db)"

section \<open>Pseudonyms\<close>

record 'sk pseudonym =
  pm_tree :: "'sk token_tree"
  pm_credentials :: "credential list"

abbreviation pm_key :: "'sk pseudonym \<Rightarrow> bytes" where
  "pm_key p \<equiv> tree_public_key (pm_tree p)"

datatype 'sk any_key = PublicKey bytes | PrivateKey 'sk

definition new_pseudonym :: "('sk, 'j) identity_env \<Rightarrow> 'sk any_key \<Rightarrow> id_database \<Rightarrow> 'sk pseudonym result" where
  "new_pseudonym E key db =
     bind_result
       (case key of PublicKey p \<Rightarrow> new_tree (id_crypto E) (Some p) None | PrivateKey k \<Rightarrow> new_tree (id_crypto E) None (Some k))
       (\<lambda>tr. return
          \<lparr>pm_tree = fold (append_token (id_crypto E)) (get_tokens_for E (tree_public_key tr) db) tr,
           pm_credentials = get_credentials_for E (tree_public_key tr) db\<rparr>)"

definition add_attestation ::
  "('sk, 'j) identity_env \<Rightarrow> bytes \<Rightarrow> bytes \<times> id_attestation \<Rightarrow> id_database \<Rightarrow> id_database \<times> bool" where
  "add_attestation E pk = (\<lambda>(authority, a) db.
     if verify_attestation (id_crypto E) authority a then (insert_attestation pk authority a db, True) else (db, False))"

fun add_attestations ::
  "('sk, 'j) identity_env \<Rightarrow> bytes \<Rightarrow> (bytes \<times> id_attestation) list \<Rightarrow> id_database \<Rightarrow> id_database \<times> id_attestation list" where
  "add_attestations E pk [] db = (db, [])"
| "add_attestations E pk (a # as) db =
     (let (db, ok) = add_attestation E pk a db; (db, valid) = add_attestations E pk as db
      in (db, if ok then snd a # valid else valid))"

text \<open>\<^verbatim>\<open>add_credential\<close>; the attestations in the order of the set that holds them.\<close>

definition add_credential ::
  "('sk, 'j) identity_env \<Rightarrow> token \<Rightarrow> metadata \<Rightarrow> (bytes \<times> id_attestation) list \<Rightarrow> id_database \<times> 'sk pseudonym \<Rightarrow>
   (id_database \<times> 'sk pseudonym) \<times> credential option" where
  "add_credential E t m attestations = (\<lambda>(db, p).
     let C = id_crypto E; (tr, r) = gather_token C t (pm_tree p); p = p\<lparr>pm_tree := tr\<rparr>
     in if r = None then ((db, p), None)
        else
          let db = insert_token (pm_key p) t db
          in if verify_metadata C (pm_key p) m \<and> md_pointer m = token_hash C t then
               let (db, valid) = add_attestations E (pm_key p) attestations (insert_metadata (pm_key p) m db);
                   out = \<lparr>cr_metadata = m, cr_attestations = as_set attestation_signed valid\<rparr>
               in ((db, p\<lparr>pm_credentials := pm_credentials p @ [out]\<rparr>), Some out)
             else ((db, p), None))"

definition add_metadata :: "('sk, 'j) identity_env \<Rightarrow> bytes \<Rightarrow> metadata \<Rightarrow> id_database \<Rightarrow> id_database \<times> bool" where
  "add_metadata E pk m db =
     (if verify_metadata (id_crypto E) pk m then (insert_metadata pk m db, True) else (db, False))"

definition create_credential ::
  "('sk, 'j) identity_env \<Rightarrow> bytes \<Rightarrow> (string, 'j) dict \<Rightarrow> metadata option \<Rightarrow> id_database \<times> 'sk pseudonym \<Rightarrow>
   (id_database \<times> 'sk pseudonym) \<times> credential option result" where
  "create_credential E h d after = (\<lambda>(db, p).
     let C = id_crypto E;
         preceding = (case after of None \<Rightarrow> None | Some m \<Rightarrow> dict_get (elements (pm_tree p)) (md_pointer m))
     in case tree_add_by_hash C h preceding (pm_tree p) of
          Inl e \<Rightarrow> ((db, p), raise e)
        | Inr (tr, t) \<Rightarrow>
            let p = p\<lparr>pm_tree := tr\<rparr>
            in (case new_metadata C (token_hash C t) (json_dumps E d) (tree_private_key tr) None of
                  Inl e \<Rightarrow> ((db, p), raise e)
                | Inr m \<Rightarrow> (let (s, r) = add_credential E t m [] (db, p) in (s, return r))))"

section \<open>Disclosures\<close>

definition be_pack :: "nat \<Rightarrow> nat \<Rightarrow> bytes result" where
  "be_pack n v = (if v < 256 ^ n then return (bytes_of_nat n v) else raise StructError)"

fun disclose_metadata :: "metadata list \<Rightarrow> bytes result" where
  "disclose_metadata [] = return []"
| "disclose_metadata (m # ms) =
     bind_result (be_pack 4 (length (metadata_signed m))) (\<lambda>l.
       bind_result (disclose_metadata ms) (\<lambda>r. return (l @ metadata_signed m @ r)))"

text \<open>The attestations that are shown and their authorities.\<close>

fun disclose_attestations ::
  "('sk, 'j) identity_env \<Rightarrow> id_database \<Rightarrow> bytes set \<Rightarrow> id_attestation list \<Rightarrow> (bytes \<times> bytes) result" where
  "disclose_attestations E db selector [] = return ([], [])"
| "disclose_attestations E db selector (a # as) =
     (if attestation_hash (id_crypto E) a \<in> selector then
        bind_result (get_authority a db) (\<lambda>q.
          bind_result (be_pack 2 (length q)) (\<lambda>l.
            bind_result (disclose_attestations E db selector as) (\<lambda>(r, s).
              return (attestation_signed a @ r, l @ q @ s))))
      else disclose_attestations E db selector as)"

definition token_insert :: "token \<Rightarrow> token list \<Rightarrow> token list" where
  "token_insert t ts = (if \<exists>s \<in> set ts. token_eq s t then ts else ts @ [t])"

text \<open>The walk back to the root.\<close>

partial_function (option) disclose_walk :: "'sk token_tree \<Rightarrow> token \<Rightarrow> token list \<Rightarrow> token list result option" where
  "disclose_walk tr t acc =
     (if tk_prev t = genesis_hash tr then Some (return acc)
      else
        case dict_get (elements tr) (tk_prev t) of
          None \<Rightarrow> Some (raise KeyError) | Some s \<Rightarrow> disclose_walk tr s (token_insert s acc))"

fun disclose_tokens :: "'sk crypto \<Rightarrow> 'sk token_tree \<Rightarrow> bytes list \<Rightarrow> token list \<Rightarrow> token list result option" where
  "disclose_tokens C tr [] acc = Some (return acc)"
| "disclose_tokens C tr (h # hs) acc =
     (case dict_get (elements tr) h of
        None \<Rightarrow> Some (raise KeyError)
      | Some t \<Rightarrow>
          (case tree_verify C t 1000 tr of
             None \<Rightarrow> None
           | Some False \<Rightarrow> Some (raise RuntimeError)
           | Some True \<Rightarrow>
               (case disclose_walk tr t (token_insert t acc) of
                  None \<Rightarrow> None
                | Some (Inl e) \<Rightarrow> Some (raise e)
                | Some (Inr acc) \<Rightarrow> disclose_tokens C tr hs acc)))"

text \<open>\<^verbatim>\<open>create_disclosure\<close> of a set of metadata, given in the order of its iteration.\<close>

definition create_disclosure ::
  "('sk, 'j) identity_env \<Rightarrow> metadata list \<Rightarrow> bytes set \<Rightarrow> id_database \<Rightarrow> 'sk pseudonym \<Rightarrow>
   (bytes \<times> bytes \<times> bytes \<times> bytes) result option" where
  "create_disclosure E ms selector db p =
     (case disclose_metadata ms of
        Inl e \<Rightarrow> Some (raise e)
      | Inr s_metadata \<Rightarrow>
          (case disclose_attestations E db selector (concat (map (\<lambda>m. get_attestations_over E m db) ms)) of
             Inl e \<Rightarrow> Some (raise e)
           | Inr (attestations, authorities) \<Rightarrow>
               (case disclose_tokens (id_crypto E) (pm_tree p) (as_set id (map md_pointer ms)) [] of
                  None \<Rightarrow> None
                | Some (Inl e) \<Rightarrow> Some (raise e)
                | Some (Inr tokens) \<Rightarrow>
                    Some (return (s_metadata, concat (map token_signed (iterate_set E token_signed tokens)),
                      attestations, authorities)))))"

definition disclose_credentials ::
  "('sk, 'j) identity_env \<Rightarrow> credential list \<Rightarrow> bytes set \<Rightarrow> id_database \<Rightarrow> 'sk pseudonym \<Rightarrow>
   (bytes \<times> bytes \<times> bytes \<times> bytes) result option" where
  "disclose_credentials E cs selector db p =
     create_disclosure E (iterate_set E metadata_signed (map cr_metadata cs)) selector db p"

section \<open>The manager\<close>

record 'sk identity_manager =
  im_database :: id_database
  im_pseudonyms :: "(bytes, 'sk pseudonym) dict"

definition new_identity_manager :: "id_database \<Rightarrow> 'sk identity_manager" where
  "new_identity_manager db = \<lparr>im_database = db, im_pseudonyms = []\<rparr>"

definition public_bin :: "'sk crypto \<Rightarrow> 'sk any_key \<Rightarrow> bytes" where
  "public_bin C key = (case key of PublicKey p \<Rightarrow> p | PrivateKey k \<Rightarrow> pub C k)"

definition get_pseudonym ::
  "('sk, 'j) identity_env \<Rightarrow> 'sk any_key \<Rightarrow> 'sk identity_manager \<Rightarrow> ('sk identity_manager \<times> 'sk pseudonym) result" where
  "get_pseudonym E key im =
     (let b = public_bin (id_crypto E) key
      in case dict_get (im_pseudonyms im) b of
           Some p \<Rightarrow> return (im, p)
         | None \<Rightarrow>
             bind_result (new_pseudonym E key (im_database im)) (\<lambda>p.
               return (im\<lparr>im_pseudonyms := dict_set b p (im_pseudonyms im)\<rparr>, p)))"

function load_metadata :: "('sk, 'j) identity_env \<Rightarrow> bytes \<Rightarrow> bytes \<Rightarrow> id_database \<Rightarrow> id_database \<times> unit result" where
  "load_metadata E pk data db =
     (if data = [] then (db, return ())
      else if length data < 4 then (db, raise StructError)
      else
        let n = nat_of_bytes (take 4 data)
        in (case unserialize_metadata (id_crypto E) (take n (drop 4 data)) pk 0 of
              Inl e \<Rightarrow> (db, raise e)
            | Inr m \<Rightarrow> load_metadata E pk (drop (4 + n) data) (fst (add_metadata E pk m db))))"
  by pat_completeness auto
termination by (relation "measure (\<lambda>(E, pk, data, db). length data)") auto

declare load_metadata.simps [simp del]

function load_attestations ::
  "('sk, 'j) identity_env \<Rightarrow> bytes \<Rightarrow> bytes \<Rightarrow> nat \<Rightarrow> bytes \<Rightarrow> bool \<Rightarrow> id_database \<Rightarrow> id_database \<times> bool result" where
  "load_attestations E pk attestations offset authorities correct db =
     (if authorities = [] then (db, return correct)
      else if length authorities < 2 then (db, raise StructError)
      else
        let n = nat_of_bytes (take 2 authorities)
        in (case key_from_public_bin E (take n (drop 2 authorities)) of
              Inl e \<Rightarrow> (db, raise e)
            | Inr authority \<Rightarrow>
                (case unserialize_id_attestation (id_crypto E) attestations authority offset of
                   Inl e \<Rightarrow> (db, raise e)
                 | Inr a \<Rightarrow>
                     let (db, ok) = add_attestation E pk (authority, a) db
                     in load_attestations E pk attestations (offset + 32 + signature_length (id_crypto E) authority)
                          (drop (2 + n) authorities) (correct \<and> ok) db)))"
  by pat_completeness auto
termination by (relation "measure (\<lambda>(E, pk, attestations, offset, authorities, correct, db). length authorities)") auto

declare load_attestations.simps [simp del]

definition substantiate ::
  "('sk, 'j) identity_env \<Rightarrow> bytes \<Rightarrow> bytes \<times> bytes \<times> bytes \<times> bytes \<Rightarrow> 'sk identity_manager \<Rightarrow>
   'sk identity_manager \<times> bool result" where
  "substantiate E pk = (\<lambda>(s_metadata, s_tokens, s_attestations, s_authorities) im.
     case get_pseudonym E (PublicKey pk) im of
       Inl e \<Rightarrow> (im, raise e)
     | Inr (im, p) \<Rightarrow>
         let (tr, r) = unserialize_public (id_crypto E) s_tokens (pm_tree p);
             im = im\<lparr>im_pseudonyms := dict_set pk (p\<lparr>pm_tree := tr\<rparr>) (im_pseudonyms im)\<rparr>
         in (case r of
               Inl e \<Rightarrow> (im, raise e)
             | Inr correct \<Rightarrow>
                 let (db, r) = load_metadata E pk s_metadata (im_database im); im = im\<lparr>im_database := db\<rparr>
                 in (case r of
                       Inl e \<Rightarrow> (im, raise e)
                     | Inr _ \<Rightarrow>
                         let (db, r) = load_attestations E pk s_attestations 0 s_authorities correct (im_database im)
                         in (im\<lparr>im_database := db\<rparr>, r))))"

end
