(* ===== verification/IdentityCommunity.thy ===== *)
theory IdentityCommunity
  imports Identity
begin

text \<open>
  The overlay that requests and makes attestations (\<^verbatim>\<open>ipv8/attestation/identity/community.py\<close>). A peer is
  its public key. A handler takes the time of the clock and returns the overlay, the messages it sends with
  their receivers, and the exception it ends with, if any.
\<close>

definition SAFE_UDP_PACKET_LENGTH :: nat where
  "SAFE_UDP_PACKET_LENGTH = 1296"

datatype identity_message =
    Disclose "bytes \<times> bytes \<times> bytes \<times> bytes"
  | Attest bytes
  | RequestMissing nat
  | MissingResponse bytes

text \<open>What is known about an attribute: its name, when it was announced, whose it is, and its metadata.\<close>

type_synonym 'j known_attribute = "string \<times> seconds \<times> bytes \<times> (string, 'j) dict option"

record ('sk, 'j) identity_community =
  ic_key :: 'sk
  ic_manager :: "'sk identity_manager"
  known_attestation_hashes :: "(bytes, 'j known_attribute) dict"
  token_chain :: "token list"
  metadata_chain :: "metadata list"
  attestation_chain :: "id_attestation list list"
  permissions :: "(bytes, nat) dict"

section \<open>The own pseudonym\<close>

definition own_key_bin :: "('sk, 'j) identity_env \<Rightarrow> ('sk, 'j) identity_community \<Rightarrow> bytes" where
  "own_key_bin E c = pub (id_crypto E) (ic_key c)"

text \<open>The pseudonym of this overlay is the one that the manager keeps for its key.\<close>

definition own_pseudonym :: "('sk, 'j) identity_env \<Rightarrow> ('sk, 'j) identity_community \<Rightarrow> 'sk pseudonym result" where
  "own_pseudonym E c =
     (case dict_get (im_pseudonyms (ic_manager c)) (own_key_bin E c) of None \<Rightarrow> raise KeyError | Some p \<Rightarrow> return p)"

definition own_credentials :: "('sk, 'j) identity_env \<Rightarrow> ('sk, 'j) identity_community \<Rightarrow> credential list" where
  "own_credentials E c = get_credentials_for E (own_key_bin E c) (im_database (ic_manager c))"

text \<open>The longest path of the tree.\<close>

fun longest_chain :: "'sk crypto \<Rightarrow> 'sk token_tree \<Rightarrow> token list \<Rightarrow> token list \<Rightarrow> token list option" where
  "longest_chain C tr [] best = Some best"
| "longest_chain C tr (t # ts) best =
     (case get_root_path C t 1000 tr of
        None \<Rightarrow> None | Some p \<Rightarrow> longest_chain C tr ts (if length best < length p then p else best))"

definition new_identity_community ::
  "('sk, 'j) identity_env \<Rightarrow> 'sk \<Rightarrow> 'sk identity_manager \<Rightarrow> ('sk, 'j) identity_community result option" where
  "new_identity_community E sk im =
     (case get_pseudonym E (PrivateKey sk) im of
        Inl e \<Rightarrow> Some (raise e)
      | Inr (im, p) \<Rightarrow>
          map_option
            (\<lambda>chain.
               let cs = filter (\<lambda>c. \<exists>t \<in> set chain. md_pointer (cr_metadata c) = token_hash (id_crypto E) t)
                     (get_credentials_for E (pm_key p) (im_database im))
               in return \<lparr>ic_key = sk, ic_manager = im, known_attestation_hashes = [], token_chain = chain,
                    metadata_chain = map cr_metadata cs, attestation_chain = map cr_attestations cs, permissions = []\<rparr>)
            (longest_chain (id_crypto E) (pm_tree p) (dict_values (elements (pm_tree p))) []))"

section \<open>Known attributes\<close>

definition pad_hash :: "bytes \<Rightarrow> bytes" where
  "pad_hash h = ascii_bytes ''SHA-1'' @ replicate 7 0 @ h"

definition padded :: "bytes \<Rightarrow> bytes" where
  "padded h = (if length h = 20 then pad_hash h else h)"

definition add_known_hash ::
  "seconds \<Rightarrow> bytes \<Rightarrow> string \<Rightarrow> bytes \<Rightarrow> (string, 'j) dict option \<Rightarrow> ('sk, 'j) identity_community \<Rightarrow>
   ('sk, 'j) identity_community" where
  "add_known_hash now h name pk md c =
     c\<lparr>known_attestation_hashes := dict_set (padded h) (name, now, pk, md) (known_attestation_hashes c)\<rparr>"

fun find_attestation :: "'sk token_tree \<Rightarrow> bytes \<Rightarrow> credential list \<Rightarrow> metadata option result" where
  "find_attestation tr h [] = return None"
| "find_attestation tr h (c # cs) =
     (case dict_get (elements tr) (md_pointer (cr_metadata c)) of
        None \<Rightarrow> raise KeyError
      | Some t \<Rightarrow> if tk_content_hash t = h then return (Some (cr_metadata c)) else find_attestation tr h cs)"

definition get_attestation_by_hash ::
  "('sk, 'j) identity_env \<Rightarrow> bytes \<Rightarrow> ('sk, 'j) identity_community \<Rightarrow> metadata option result" where
  "get_attestation_by_hash E h c =
     bind_result (own_pseudonym E c) (\<lambda>p. find_attestation (pm_tree p) (padded h) (own_credentials E c))"

section \<open>Signing\<close>

text \<open>
  \<^verbatim>\<open>any(authority == key for authority in get_authority(attestation))\<close>: the result of \<^verbatim>\<open>get_authority\<close> is a
  byte string, so the loop compares integers with the key.
\<close>

datatype py_value = PyInt nat | PyBytes bytes

definition any_authority :: "bytes \<Rightarrow> bytes \<Rightarrow> bool" where
  "any_authority authority key = list_ex (\<lambda>b. PyInt (unat b) = PyBytes key) authority"

fun already_attested :: "bytes \<Rightarrow> id_database \<Rightarrow> id_attestation list \<Rightarrow> bool result" where
  "already_attested key db [] = return False"
| "already_attested key db (a # as) =
     bind_result (get_authority a db) (\<lambda>q. if any_authority q key then return True else already_attested key db as)"

definition dict_eq :: "('k, 'v) dict \<Rightarrow> ('k, 'v) dict \<Rightarrow> bool" where
  "dict_eq d e \<longleftrightarrow> (\<forall>k \<in> set (dict_keys d) \<union> set (dict_keys e). dict_get d k = dict_get e k)"

definition should_sign ::
  "('sk, 'j) identity_env \<Rightarrow> seconds \<Rightarrow> 'sk pseudonym \<Rightarrow> metadata \<Rightarrow> ('sk, 'j) identity_community \<Rightarrow> bool result" where
  "should_sign E now p m c =
     bind_result (json_loads E (md_json m)) (\<lambda>transaction.
       case dict_get (elements (pm_tree p)) (md_pointer m) of
         None \<Rightarrow> return False
       | Some t \<Rightarrow>
           if \<not> {''name'', ''date'', ''schema''} \<subseteq> set (dict_keys transaction) then return False
           else
             case dict_get (known_attestation_hashes c) (tk_content_hash t) of
               None \<Rightarrow> return False
             | Some (name, time, pk, md) \<Rightarrow>
                 if pm_key p \<noteq> pk then return False
                 else if time + 300 < now then return False
                 else if dict_get transaction ''name'' \<noteq> Some (json_string E name) then return False
                 else if (case md of
                     None \<Rightarrow> False
                   | Some d \<Rightarrow> \<not> dict_eq (filter (\<lambda>(k, _). k \<notin> {''name'', ''date'', ''schema''}) transaction) d) then return False
                 else
                   bind_result
                     (already_attested (own_key_bin E c) (im_database (ic_manager c))
                       (get_attestations_over E m (im_database (ic_manager c))))
                     (\<lambda>b. return (\<not> b)))"

section \<open>Disclosing\<close>

text \<open>\<^verbatim>\<open>tokens[-trim_len * token_size:]\<close>, which is everything when \<open>trim_len\<close> is 0.\<close>

definition fit_disclosure ::
  "('sk, 'j) identity_env \<Rightarrow> ('sk, 'j) identity_community \<Rightarrow> bytes \<times> bytes \<times> bytes \<times> bytes \<Rightarrow>
   bytes \<times> bytes \<times> bytes \<times> bytes" where
  "fit_disclosure E c = (\<lambda>(md, tokens, attestations, authorities).
     let token_size = 64 + signature_length (id_crypto E) (own_key_bin E c);
         meta_len = length md + length attestations + length authorities;
         trim_len = (SAFE_UDP_PACKET_LENGTH - meta_len) div token_size
     in (md,
         if meta_len + length tokens > SAFE_UDP_PACKET_LENGTH
         then (if trim_len = 0 then tokens else drop (length tokens - trim_len * token_size) tokens)
         else tokens,
         attestations, authorities))"

definition self_advertise ::
  "('sk, 'j) identity_env \<Rightarrow> seconds \<Rightarrow> bytes \<Rightarrow> string \<Rightarrow> string \<Rightarrow> (string, 'j) dict option \<Rightarrow>
   ('sk, 'j) identity_community \<Rightarrow> ('sk, 'j) identity_community \<times> credential option result" where
  "self_advertise E now h name block_type md c =
     (case own_pseudonym E c of
        Inl e \<Rightarrow> (c, raise e)
      | Inr p \<Rightarrow>
          let extended = fold (\<lambda>(k, v). dict_set k v) (case md of None \<Rightarrow> [] | Some d \<Rightarrow> d)
                [(''name'', json_string E name), (''schema'', json_string E block_type), (''date'', json_number E now)];
              after = (if metadata_chain c = [] then None else Some (last (metadata_chain c)));
              im = ic_manager c;
              ((db, p), r) = create_credential E (padded h) extended after (im_database im, p);
              c = c\<lparr>ic_manager := im\<lparr>im_database := db, im_pseudonyms := dict_set (own_key_bin E c) p (im_pseudonyms im)\<rparr>\<rparr>
          in (case r of
                Inl e \<Rightarrow> (c, raise e)
              | Inr None \<Rightarrow> (c, return None)
              | Inr (Some cr) \<Rightarrow>
                  let c = c\<lparr>attestation_chain := attestation_chain c @ [cr_attestations cr],
                        metadata_chain := metadata_chain c @ [cr_metadata cr]\<rparr>
                  in (case dict_get (elements (pm_tree p)) (md_pointer (cr_metadata cr)) of
                        None \<Rightarrow> (c, raise KeyError)
                      | Some t \<Rightarrow> (c\<lparr>token_chain := token_chain c @ [t]\<rparr>, return (Some cr)))))"

definition request_attestation_advertisement ::
  "('sk, 'j) identity_env \<Rightarrow> seconds \<Rightarrow> bytes \<Rightarrow> bytes \<Rightarrow> string \<Rightarrow> string \<Rightarrow> (string, 'j) dict option \<Rightarrow>
   ('sk, 'j) identity_community \<Rightarrow>
   (('sk, 'j) identity_community \<times> (bytes \<times> identity_message) list \<times> unit result) option" where
  "request_attestation_advertisement E now peer h name block_type md c =
     (case self_advertise E now h name block_type md c of
        (c, Inl e) \<Rightarrow> Some (c, [], raise e)
      | (c, Inr None) \<Rightarrow> Some (c, [], return ())
      | (c, Inr (Some cr)) \<Rightarrow>
          let c = c\<lparr>permissions := dict_set peer (length (token_chain c)) (permissions c)\<rparr>
          in (case own_pseudonym E c of
                Inl e \<Rightarrow> Some (c, [], raise e)
              | Inr p \<Rightarrow>
                  (case disclose_credentials E [cr] {} (im_database (ic_manager c)) p of
                     None \<Rightarrow> None
                   | Some (Inl e) \<Rightarrow> Some (c, [], raise e)
                   | Some (Inr d) \<Rightarrow> Some (c, [(peer, Disclose (fit_disclosure E c d))], return ()))))"

section \<open>Handlers\<close>

definition with_database :: "id_database \<Rightarrow> ('sk, 'j) identity_community \<Rightarrow> ('sk, 'j) identity_community" where
  "with_database db c = c\<lparr>ic_manager := (ic_manager c)\<lparr>im_database := db\<rparr>\<rparr>"

text \<open>The loop over the credentials of the peer.\<close>

fun sign_credentials ::
  "('sk, 'j) identity_env \<Rightarrow> seconds \<Rightarrow> bytes \<Rightarrow> 'sk pseudonym \<Rightarrow> credential list \<Rightarrow> ('sk, 'j) identity_community \<Rightarrow>
   ('sk, 'j) identity_community \<times> (bytes \<times> identity_message) list \<times> unit result" where
  "sign_credentials E now peer p [] c = (c, [], return ())"
| "sign_credentials E now peer p (cr # crs) c =
     (case should_sign E now p (cr_metadata cr) c of
        Inl e \<Rightarrow> (c, [], raise e)
      | Inr False \<Rightarrow> sign_credentials E now peer p crs c
      | Inr True \<Rightarrow>
          (case create_attestation (id_crypto E) (cr_metadata cr) (ic_key c) of
             Inl e \<Rightarrow> (c, [], raise e)
           | Inr a \<Rightarrow>
               let db = fst (add_attestation E (pm_key p) (own_key_bin E c, a) (im_database (ic_manager c)));
                   (c, msgs, r) = sign_credentials E now peer p crs (with_database db c)
               in (c, (peer, Attest (attestation_signed a)) # msgs, r)))"

definition required_attributes :: "bytes \<Rightarrow> ('sk, 'j) identity_community \<Rightarrow> bytes list" where
  "required_attributes peer c = map fst (filter (\<lambda>(_, _, _, pk, _). pk = peer) (known_attestation_hashes c))"

definition received_disclosure_for_attest ::
  "('sk, 'j) identity_env \<Rightarrow> seconds \<Rightarrow> bytes \<Rightarrow> bytes \<times> bytes \<times> bytes \<times> bytes \<Rightarrow> ('sk, 'j) identity_community \<Rightarrow>
   ('sk, 'j) identity_community \<times> (bytes \<times> identity_message) list \<times> unit result" where
  "received_disclosure_for_attest E now peer disclosure c =
     (if required_attributes peer c = [] then (c, [], return ())
      else
        let (im, r) = substantiate E peer disclosure (ic_manager c); c = c\<lparr>ic_manager := im\<rparr>
        in (case r of
              Inl e \<Rightarrow> (c, [], raise e)
            | Inr correct \<Rightarrow>
                (case dict_get (im_pseudonyms im) peer of
                   None \<Rightarrow> (c, [], raise KeyError)
                 | Some p \<Rightarrow>
                     let required = required_attributes peer c;
                         known = map tk_content_hash (dict_values (elements (pm_tree p)));
                         (c, msgs, r) =
                           (if correct \<and> (\<exists>h \<in> set required. h \<in> set known)
                            then sign_credentials E now peer p (get_credentials_for E peer (im_database im)) c
                            else (c, [], return ()))
                     in (case r of
                           Inl e \<Rightarrow> (c, msgs, raise e)
                         | Inr _ \<Rightarrow>
                             (c, msgs @ map (\<lambda>_. (peer, RequestMissing (length (elements (pm_tree p)))))
                                (filter (\<lambda>h. h \<notin> set known) required), return ())))))"

definition on_attest ::
  "('sk, 'j) identity_env \<Rightarrow> bytes \<Rightarrow> bytes \<Rightarrow> ('sk, 'j) identity_community \<Rightarrow>
   ('sk, 'j) identity_community \<times> (bytes \<times> identity_message) list \<times> unit result" where
  "on_attest E peer payload c =
     (case unserialize_id_attestation (id_crypto E) payload peer 0 of
        Inl e \<Rightarrow> (c, [], raise e)
      | Inr a \<Rightarrow>
          (with_database (fst (add_attestation E (own_key_bin E c) (peer, a) (im_database (ic_manager c)))) c, [], return ()))"

text \<open>Tokens are sent until one does not fit any more.\<close>

fun fill_packet :: "token list \<Rightarrow> bytes \<Rightarrow> bytes" where
  "fill_packet [] out = out"
| "fill_packet (t # ts) out =
     (if SAFE_UDP_PACKET_LENGTH < length out + length (token_signed t) then out else fill_packet ts (out @ token_signed t))"

definition on_request_missing ::
  "bytes \<Rightarrow> nat \<Rightarrow> ('sk, 'j) identity_community \<Rightarrow>
   ('sk, 'j) identity_community \<times> (bytes \<times> identity_message) list \<times> unit result" where
  "on_request_missing peer known c =
     (let permitted = take (case dict_get (permissions c) peer of None \<Rightarrow> 0 | Some n \<Rightarrow> n) (token_chain c)
      in (c, [(peer, MissingResponse (fill_packet (drop known permitted) []))], return ()))"

text \<open>A message from a peer whose signature was checked.\<close>

definition identity_receive ::
  "('sk, 'j) identity_env \<Rightarrow> seconds \<Rightarrow> bytes \<times> identity_message \<Rightarrow> ('sk, 'j) identity_community \<Rightarrow>
   ('sk, 'j) identity_community \<times> (bytes \<times> identity_message) list \<times> unit result" where
  "identity_receive E now = (\<lambda>(peer, msg) c.
     case msg of
       Disclose d \<Rightarrow> received_disclosure_for_attest E now peer d c
     | Attest a \<Rightarrow> on_attest E peer a c
     | RequestMissing known \<Rightarrow> on_request_missing peer known c
     | MissingResponse tokens \<Rightarrow> received_disclosure_for_attest E now peer ([], tokens, [], []) c)"

end
