(* ===== verification/TokenTree_Properties.thy ===== *)
theory TokenTree_Properties
  imports TokenTree "HOL-Library.Multiset"
begin

text \<open>
  Token trees: what every tree satisfies, paths to the root, chains that arrive in any order, and what is written is read back.
\<close>

section \<open>What gathering keeps\<close>

lemma token_hash_content [simp]: "token_hash C (t\<lparr>tk_content := c\<rparr>) = token_hash C t"
  by (simp add: token_hash_def token_signed_def token_plaintext_def)

lemma verify_token_content [simp]: "verify_token C pk (t\<lparr>tk_content := c\<rparr>) = verify_token C pk t"
  by (simp add: verify_token_def token_plaintext_def)

lemma shadow_token_cases: "shadow_token C t s = s \<or> (\<exists>c. shadow_token C t s = s\<lparr>tk_content := Some c\<rparr>)"
  by (auto simp: shadow_token_def receive_content_def split: option.splits)

lemma shadow_token_simps [simp]:
  "token_hash C (shadow_token C t s) = token_hash C s" "verify_token C pk (shadow_token C t s) = verify_token C pk s"
  "tk_prev (shadow_token C t s) = tk_prev s" "token_signed (shadow_token C t s) = token_signed s"
  using shadow_token_cases [of C t s] by (auto simp: token_signed_def token_plaintext_def)

lemma append_token_simps [simp]:
  "elements (append_token C t tr) = dict_set (token_hash C t) t (elements tr)"
  "unchained (append_token C t tr) = unchained tr" "unchained_max_size (append_token C t tr) = unchained_max_size tr"
  "tree_public_key (append_token C t tr) = tree_public_key tr" "genesis_hash (append_token C t tr) = genesis_hash tr"
  "tree_private_key (append_token C t tr) = tree_private_key tr"
  by (simp_all add: append_token_def)

lemma wake_token_simps [simp]:
  "elements (wake_token t tr) = elements tr" "unchained_max_size (wake_token t tr) = unchained_max_size tr"
  "tree_public_key (wake_token t tr) = tree_public_key tr" "genesis_hash (wake_token t tr) = genesis_hash tr"
  "tree_private_key (wake_token t tr) = tree_private_key tr"
  by (simp_all add: wake_token_def)

lemma delay_token_simps [simp]:
  "elements (delay_token t tr) = elements tr" "unchained_max_size (delay_token t tr) = unchained_max_size tr"
  "tree_public_key (delay_token t tr) = tree_public_key tr" "genesis_hash (delay_token t tr) = genesis_hash tr"
  "tree_private_key (delay_token t tr) = tree_private_key tr"
  by (simp_all add: delay_token_def Let_def)

text \<open>How a call of gathering goes.\<close>

lemma gather_illegal: "\<not> verify_token C (tree_public_key tr) t \<Longrightarrow> gather_token C t tr = (tr, None)"
  by (simp add: gather_token.simps)

lemma gather_delayed:
  "verify_token C (tree_public_key tr) t \<Longrightarrow> \<not> known_previous t tr \<Longrightarrow> gather_token C t tr = (delay_token t tr, None)"
  by (simp add: gather_token.simps)

lemma gather_known:
  assumes "verify_token C (tree_public_key tr) t" "known_previous t tr" "dict_get (elements tr) (token_hash C t) = Some s"
  shows "gather_token C t tr =
    (tr\<lparr>elements := dict_set (token_hash C t) (shadow_token C t s) (elements tr)\<rparr>, Some (shadow_token C t s))"
  using assms by (simp add: gather_token.simps Let_def)

lemma gather_fresh:
  assumes "verify_token C (tree_public_key tr) t" "known_previous t tr" "dict_get (elements tr) (token_hash C t) = None"
  shows "gather_token C t tr =
    (case waiting_for (token_hash C t) tr of
       None \<Rightarrow> append_token C t tr | Some w \<Rightarrow> fst (gather_token C w (wake_token w (append_token C t tr))), Some t)"
  using assms by (subst gather_token.simps) (simp add: waiting_for_def split: option.split)

lemma gather_cases:
  obtains (illegal) "\<not> verify_token C (tree_public_key tr) t"
  | (delayed) "verify_token C (tree_public_key tr) t" "\<not> known_previous t tr"
  | (known) s where "verify_token C (tree_public_key tr) t" "known_previous t tr"
      "dict_get (elements tr) (token_hash C t) = Some s"
  | (fresh) "verify_token C (tree_public_key tr) t" "known_previous t tr"
      "dict_get (elements tr) (token_hash C t) = None" "waiting_for (token_hash C t) tr = None"
  | (waking) w where "verify_token C (tree_public_key tr) t" "known_previous t tr"
      "dict_get (elements tr) (token_hash C t) = None" "waiting_for (token_hash C t) tr = Some w"
  by (metis option.exhaust)

lemma gather_induct [consumes 0, case_names illegal delayed known fresh waking]:
  assumes "\<And>C t tr. \<not> verify_token C (tree_public_key tr) t \<Longrightarrow> P C t tr (tr, None)"
    and "\<And>C t tr. verify_token C (tree_public_key tr) t \<Longrightarrow> \<not> known_previous t tr \<Longrightarrow> P C t tr (delay_token t tr, None)"
    and "\<And>C t tr s. verify_token C (tree_public_key tr) t \<Longrightarrow> known_previous t tr \<Longrightarrow>
      dict_get (elements tr) (token_hash C t) = Some s \<Longrightarrow>
      P C t tr (tr\<lparr>elements := dict_set (token_hash C t) (shadow_token C t s) (elements tr)\<rparr>, Some (shadow_token C t s))"
    and "\<And>C t tr. verify_token C (tree_public_key tr) t \<Longrightarrow> known_previous t tr \<Longrightarrow>
      dict_get (elements tr) (token_hash C t) = None \<Longrightarrow> waiting_for (token_hash C t) tr = None \<Longrightarrow>
      P C t tr (append_token C t tr, Some t)"
    and "\<And>C t tr w. verify_token C (tree_public_key tr) t \<Longrightarrow> known_previous t tr \<Longrightarrow>
      dict_get (elements tr) (token_hash C t) = None \<Longrightarrow> waiting_for (token_hash C t) tr = Some w \<Longrightarrow>
      P C w (wake_token w (append_token C t tr)) (gather_token C w (wake_token w (append_token C t tr))) \<Longrightarrow>
      P C t tr (fst (gather_token C w (wake_token w (append_token C t tr))), Some t)"
  shows "P C t tr (gather_token C t tr)"
proof (induction C t tr rule: gather_token.induct)
  case (1 C t tr)
  show ?case
  proof (cases rule: gather_cases [of C tr t])
    case illegal then show ?thesis using assms(1) by (simp add: gather_illegal)
  next
    case delayed then show ?thesis using assms(2) by (simp add: gather_delayed)
  next
    case (known s) then show ?thesis using assms(3) by (simp add: gather_known)
  next
    case fresh then show ?thesis using assms(4) by (simp add: gather_fresh)
  next
    case (waking w)
    have "P C w (wake_token w (append_token C t tr)) (gather_token C w (wake_token w (append_token C t tr)))"
      using 1 [OF _ _ waking(3) refl] waking by (simp add: waiting_for_def)
    then show ?thesis using assms(5) [OF waking] waking by (simp add: gather_fresh)
  qed
qed

definition same_tree :: "'sk token_tree \<Rightarrow> 'sk token_tree \<Rightarrow> bool" where
  "same_tree tr tr' \<longleftrightarrow> tree_public_key tr' = tree_public_key tr \<and> genesis_hash tr' = genesis_hash tr \<and>
     tree_private_key tr' = tree_private_key tr \<and> unchained_max_size tr' = unchained_max_size tr"

lemma gather_same_tree: "same_tree tr (fst (gather_token C t tr))"
  by (induction C t tr rule: gather_induct) (simp_all add: same_tree_def)

section \<open>The tree is rooted\<close>

text \<open>
  Every element is stored under its hash and signed, and what it points to is the root or came before it.
\<close>

fun rooted :: "'sk crypto \<Rightarrow> bytes \<Rightarrow> bytes set \<Rightarrow> (bytes, token) dict \<Rightarrow> bool" where
  "rooted C pk seen [] = True"
| "rooted C pk seen ((h, t) # es) \<longleftrightarrow>
     h = token_hash C t \<and> verify_token C pk t \<and> tk_prev t \<in> seen \<and> rooted C pk (insert h seen) es"

definition tree_ok :: "'sk crypto \<Rightarrow> 'sk token_tree \<Rightarrow> bool" where
  "tree_ok C tr \<longleftrightarrow> dict_wf (elements tr) \<and> rooted C (tree_public_key tr) {genesis_hash tr} (elements tr) \<and>
     (\<forall>u \<in> set (unchained tr). verify_token C (tree_public_key tr) u) \<and>
     distinct (map token_signed (unchained tr)) \<and> length (unchained tr) \<le> unchained_max_size tr"

lemma rooted_append:
  "rooted C pk seen (es @ fs) \<longleftrightarrow> rooted C pk seen es \<and> rooted C pk (seen \<union> set (dict_keys es)) fs"
  by (induction es arbitrary: seen) auto

lemma rooted_get: "rooted C pk seen es \<Longrightarrow> dict_get es h = Some t \<Longrightarrow> h = token_hash C t \<and> verify_token C pk t"
  by (induction es arbitrary: seen) (auto split: if_splits)

lemma rooted_update:
  assumes "rooted C pk seen es" "dict_get es h = Some s" "token_hash C s' = token_hash C s"
    and "verify_token C pk s' = verify_token C pk s" "tk_prev s' = tk_prev s"
  shows "rooted C pk seen (dict_set h s' es)"
  using assms by (induction es arbitrary: seen) (auto split: if_splits)

lemma tree_ok_append:
  assumes "tree_ok C tr" "verify_token C (tree_public_key tr) t" "known_previous t tr"
    and "dict_get (elements tr) (token_hash C t) = None"
  shows "tree_ok C (append_token C t tr)"
proof -
  have "tk_prev t \<in> {genesis_hash tr} \<union> set (dict_keys (elements tr))"
    using assms(3) by (auto simp: known_previous_def map_of_eq_None_iff)
  then show ?thesis
    using assms by (simp add: tree_ok_def dict_set_fresh rooted_append) (auto simp: dict_wf_def map_of_eq_None_iff)
qed

lemma tree_ok_delay:
  assumes "tree_ok C tr" "verify_token C (tree_public_key tr) t"
  shows "tree_ok C (delay_token t tr)"
proof -
  let ?u = "if \<exists>s \<in> set (unchained tr). token_eq s t then unchained tr else unchained tr @ [t]"
  have u: "\<forall>v \<in> set ?u. verify_token C (tree_public_key tr) v" "distinct (map token_signed ?u)"
    "length ?u \<le> Suc (unchained_max_size tr)"
    using assms by (auto simp: tree_ok_def token_eq_def)
  have "distinct (map token_signed (tl ?u))" "\<forall>v \<in> set (tl ?u). verify_token C (tree_public_key tr) v"
    using u(1,2) by (cases ?u; simp)+
  with u assms show ?thesis by (simp add: tree_ok_def delay_token_def Let_def)
qed

lemma tree_ok_wake: "tree_ok C tr \<Longrightarrow> tree_ok C (wake_token t tr)"
  by (auto simp: tree_ok_def wake_token_def distinct_map_filter intro: le_trans [OF length_filter_le])

lemma gather_tree_ok: "tree_ok C tr \<Longrightarrow> tree_ok C (fst (gather_token C t tr))"
proof (induction C t tr rule: gather_induct)
  case (known C t tr s)
  have "token_hash C t = token_hash C s" using known rooted_get by (fastforce simp: tree_ok_def)
  then show ?case using known by (simp add: tree_ok_def) (intro rooted_update, auto)
next
  case (waking C t tr w)
  then have "tree_ok C (wake_token w (append_token C t tr))" by (intro tree_ok_wake tree_ok_append)
  then show ?case using waking.IH by simp
qed (simp_all add: tree_ok_delay tree_ok_append)

lemma gather_keeps: "dict_get (elements tr) h = Some s \<Longrightarrow>
  \<exists>s'. dict_get (elements (fst (gather_token C t tr))) h = Some s' \<and> token_signed s' = token_signed s"
proof (induction C t tr arbitrary: s rule: gather_induct)
  case (waking C t tr w)
  have "dict_get (elements (wake_token w (append_token C t tr))) h = Some s"
    using waking by (auto simp: dict_get_set)
  from waking.IH [OF this] show ?case by simp
qed (auto simp: dict_get_set)

section \<open>Paths to the root\<close>

inductive leads :: "'sk crypto \<Rightarrow> 'sk token_tree \<Rightarrow> token \<Rightarrow> token list \<Rightarrow> bool" for C tr where
  root: "verify_token C (tree_public_key tr) t \<Longrightarrow> tk_prev t = genesis_hash tr \<Longrightarrow> leads C tr t [t]"
| step: "verify_token C (tree_public_key tr) t \<Longrightarrow> tk_prev t \<noteq> genesis_hash tr \<Longrightarrow>
    dict_get (elements tr) (tk_prev t) = Some s \<Longrightarrow> leads C tr s p \<Longrightarrow> leads C tr t (t # p)"

lemma leads_nonempty: "leads C tr t p \<Longrightarrow> p \<noteq> [] \<and> hd p = t"
  by (induction rule: leads.induct) auto

lemma leads_Cons: "leads C tr t p \<Longrightarrow> t # tl p = p"
  using leads_nonempty by (cases p) fastforce+

lemma root_path_loop_leads:
  "leads C tr t p \<Longrightarrow> 0 \<le> steps \<Longrightarrow>
   root_path_loop C tr maxdepth steps t path =
     Some (if steps + int (length p) \<le> maxdepth then path @ tl p else [])"
proof (induction arbitrary: steps path rule: leads.induct)
  case (root t)
  then show ?case by (subst root_path_loop.simps) simp
next
  case (step t s p)
  from step.hyps have p: "p \<noteq> []" "s # tl p = p" using leads_nonempty leads_Cons by blast+
  then show ?case
    using step p by (subst root_path_loop.simps) auto
qed

lemma verify_loop_leads:
  "leads C tr t p \<Longrightarrow> 0 \<le> steps \<Longrightarrow>
   verify_loop C tr maxdepth steps t = Some (steps + int (length p) \<le> maxdepth)"
proof (induction arbitrary: steps rule: leads.induct)
  case (root t)
  then show ?case by (subst verify_loop.simps) auto
next
  case (step t s p)
  then have "p \<noteq> []" using leads_nonempty by blast
  then show ?case using step by (subst verify_loop.simps) auto
qed

lemma serialize_loop_leads:
  "leads C tr t p \<Longrightarrow> dict_get (elements tr) (genesis_hash tr) = None \<Longrightarrow>
   serialize_loop tr (tk_prev t) out = Some (out @ concat (map token_signed (tl p)))"
proof (induction arbitrary: out rule: leads.induct)
  case (root t)
  then show ?case by (subst serialize_loop.simps) simp
next
  case (step t s p)
  then have "s # tl p = p" using leads_Cons by blast
  then have "concat (map token_signed p) = token_signed s @ concat (map token_signed (tl p))"
    by (metis concat.simps(2) list.simps(9))
  then show ?case using step by (subst serialize_loop.simps) simp
qed

lemma rooted_leads:
  "rooted C (tree_public_key tr) {genesis_hash tr} es \<Longrightarrow> \<forall>(h, t) \<in> set es. dict_get (elements tr) h = Some t \<Longrightarrow>
   (h, t) \<in> set es \<Longrightarrow> \<exists>p. leads C tr t p \<and> length p \<le> length es"
proof (induction es arbitrary: h t rule: rev_induct)
  case (snoc e es)
  obtain h' t' where e: "e = (h', t')" by (cases e)
  have r: "rooted C (tree_public_key tr) {genesis_hash tr} es" "verify_token C (tree_public_key tr) t'"
    "tk_prev t' = genesis_hash tr \<or> tk_prev t' \<in> set (dict_keys es)"
    using snoc.prems(1) by (auto simp: e rooted_append)
  have IH: "\<exists>p. leads C tr t p \<and> length p \<le> length es" if "(h, t) \<in> set es" for h t
    using snoc.IH [OF r(1) _ that] snoc.prems(2) by simp
  show ?case
  proof (cases "(h, t) \<in> set es")
    case True
    from IH [OF this] show ?thesis by force
  next
    case False
    with snoc.prems(3) e have t: "t = t'" by simp
    show ?thesis
    proof (cases "tk_prev t' = genesis_hash tr")
      case True
      then show ?thesis using leads.root [OF r(2)] t by (intro exI [of _ "[t]"]) simp
    next
      case False
      with r(3) obtain s where s: "(tk_prev t', s) \<in> set es" by auto
      from IH [OF this] obtain p where p: "leads C tr s p" "length p \<le> length es" by blast
      moreover have "dict_get (elements tr) (tk_prev t') = Some s" using snoc.prems(2) s by auto
      ultimately show ?thesis using leads.step [OF r(2) False] t by (intro exI [of _ "t # p"]) simp
    qed
  qed
qed simp

lemma element_leads:
  assumes "tree_ok C tr" "dict_get (elements tr) h = Some t"
  shows "h = token_hash C t \<and> (\<exists>p. leads C tr t p \<and> length p \<le> length (elements tr))"
proof -
  have "\<forall>(h, t) \<in> set (elements tr). dict_get (elements tr) h = Some t"
    using assms(1) by (auto simp: tree_ok_def in_set_dict_wf)
  from rooted_leads [OF _ this map_of_SomeD [OF assms(2)]] assms rooted_get show ?thesis
    by (fastforce simp: tree_ok_def)
qed

section \<open>What a tree goes through\<close>

text \<open>
  The tokens a user appends follow the root or a known token, and have the hash of no other token.
\<close>

definition legal_addition :: "'sk crypto \<Rightarrow> token option \<Rightarrow> token \<Rightarrow> 'sk token_tree \<Rightarrow> bool" where
  "legal_addition C after t tr \<longleftrightarrow>
     (case after of None \<Rightarrow> True | Some a \<Rightarrow> dict_get (elements tr) (token_hash C a) \<noteq> None) \<and>
     (case dict_get (elements tr) (token_hash C t) of None \<Rightarrow> True | Some s \<Rightarrow> tk_prev s = tk_prev t)"

inductive tree_reachable :: "'sk crypto \<Rightarrow> 'sk token_tree \<Rightarrow> bool" for C where
  new: "new_tree C pk sk = return tr \<Longrightarrow> tree_reachable C tr"
| gather: "tree_reachable C tr \<Longrightarrow> tree_reachable C (fst (gather_token C t tr))"
| receive: "tree_reachable C tr \<Longrightarrow> tree_reachable C (fst (unserialize_public C s tr))"
| add: "tree_reachable C tr \<Longrightarrow> tree_add C c after tr = return (tr', t) \<Longrightarrow> legal_addition C after t tr \<Longrightarrow>
    tree_reachable C tr'"
| add_by_hash: "tree_reachable C tr \<Longrightarrow> tree_add_by_hash C h after tr = return (tr', t) \<Longrightarrow>
    legal_addition C after t tr \<Longrightarrow> tree_reachable C tr'"

definition signing :: "'sk crypto \<Rightarrow> bool" where
  "signing C \<longleftrightarrow> (\<forall>k m. is_valid_signature C (pub C k) m (make_signature C k m))"

definition own_key :: "'sk crypto \<Rightarrow> 'sk token_tree \<Rightarrow> bool" where
  "own_key C tr \<longleftrightarrow> genesis_hash tr = sha3 C (tree_public_key tr) \<and>
     (\<forall>k. tree_private_key tr = Some k \<longrightarrow> tree_public_key tr = pub C k)"

lemma tree_ok_addition:
  assumes "tree_ok C tr" "verify_token C (tree_public_key tr) t" "tk_prev t = previous_hash C after tr"
    and "legal_addition C after t tr"
  shows "tree_ok C (append_token C t tr)"
proof (cases "dict_get (elements tr) (token_hash C t)")
  case None
  have "known_previous t tr"
    using assms(3,4) by (auto simp: known_previous_def previous_hash_def legal_addition_def split: option.splits)
  from tree_ok_append [OF assms(1,2) this None] show ?thesis .
next
  case (Some s)
  then have "token_hash C t = token_hash C s" "tk_prev t = tk_prev s" "verify_token C (tree_public_key tr) s"
    using assms(1,4) rooted_get by (fastforce simp: tree_ok_def legal_addition_def)+
  then show ?thesis using assms(1,2) Some by (simp add: tree_ok_def) (intro rooted_update, auto)
qed

lemma new_token_signed:
  assumes "signing C" "new_token C prev c h (Some k) None = return t"
  shows "verify_token C (pub C k) t \<and> tk_prev t = prev"
  using assms
  by (auto simp: new_token_def sign_object_def signing_def verify_token_def token_plaintext_def bind_result_eq_Inr
      split: option.splits)

lemma gather_chunks_ok:
  "tree_ok C tr \<Longrightarrow> tree_ok C (fst (gather_chunks C s is correct tr)) \<and> same_tree tr (fst (gather_chunks C s is correct tr))"
proof (induction "is" arbitrary: tr correct)
  case (Cons i "is")
  show ?case
  proof (cases "unserialize_token C s i (tree_public_key tr)")
    case (Inr t)
    have "tree_ok C (fst (gather_token C t tr))" by (rule gather_tree_ok [OF Cons.prems])
    from Cons.IH [OF this] gather_same_tree [of tr C t] Inr show ?thesis
      by (auto simp: split_beta same_tree_def)
  qed (use Cons.prems in \<open>simp add: same_tree_def\<close>)
qed (simp add: same_tree_def)

lemma tree_reachable_ok: "tree_reachable C tr \<Longrightarrow> signing C \<Longrightarrow> tree_ok C tr \<and> own_key C tr"
proof (induction rule: tree_reachable.induct)
  case (new pk sk tr)
  then show ?case by (auto simp: new_tree_def tree_ok_def own_key_def bind_result_eq_Inr split: option.splits)
next
  case (gather tr t)
  then show ?case using gather_tree_ok gather_same_tree [of tr C t] by (auto simp: own_key_def same_tree_def)
next
  case (receive tr s)
  then have "tree_ok C tr" "own_key C tr" by simp_all
  from gather_chunks_ok [OF this(1)] this(2) show ?case
    unfolding unserialize_public_def same_tree_def own_key_def by metis
next
  case (add tr c after tr' t)
  then obtain k where k: "tree_private_key tr = Some k" "tr' = append_token C t tr"
      "new_token C (previous_hash C after tr) (Some c) None (Some k) None = return t"
    by (auto simp: tree_add_def bind_result_eq_Inr split: option.splits)
  with add new_token_signed [OF add.prems k(3)] show ?case by (auto simp: own_key_def intro: tree_ok_addition)
next
  case (add_by_hash tr h after tr' t)
  then obtain k where k: "tree_private_key tr = Some k" "tr' = append_token C t tr"
      "new_token C (previous_hash C after tr) None (Some h) (Some k) None = return t"
    by (auto simp: tree_add_by_hash_def bind_result_eq_Inr split: option.splits)
  with add_by_hash new_token_signed [OF add_by_hash.prems k(3)] show ?case by (auto simp: own_key_def intro: tree_ok_addition)
qed


section \<open>Chains\<close>

text \<open>
  A chain of tokens from the root, and the tree that has gathered the first \<open>k\<close> of them, with the tokens at the
  positions \<open>us\<close> waiting.
\<close>

definition chain :: "'sk crypto \<Rightarrow> 'sk token_tree \<Rightarrow> token list \<Rightarrow> bool" where
  "chain C tr ts \<longleftrightarrow>
     (\<forall>i < length ts. verify_token C (tree_public_key tr) (ts ! i) \<and>
        tk_prev (ts ! i) = (if i = 0 then genesis_hash tr else token_hash C (ts ! (i - 1)))) \<and>
     distinct (map (token_hash C) ts) \<and> genesis_hash tr \<notin> token_hash C ` set ts"

definition gathered :: "'sk crypto \<Rightarrow> token list \<Rightarrow> nat \<Rightarrow> nat list \<Rightarrow> 'sk token_tree \<Rightarrow> 'sk token_tree" where
  "gathered C ts k us tr =
     tr\<lparr>elements := map (\<lambda>t. (token_hash C t, t)) (take k ts), unchained := map (nth ts) us\<rparr>"

lemma gathered_simps [simp]:
  "tree_public_key (gathered C ts k us tr) = tree_public_key tr" "genesis_hash (gathered C ts k us tr) = genesis_hash tr"
  "unchained (gathered C ts k us tr) = map (nth ts) us" "unchained_max_size (gathered C ts k us tr) = unchained_max_size tr"
  "elements (gathered C ts k us tr) = map (\<lambda>t. (token_hash C t, t)) (take k ts)"
  by (simp_all add: gathered_def)

lemma chain_hash_inject:
  assumes "chain C tr ts" "i < length ts" "j < length ts"
  shows "token_hash C (ts ! i) = token_hash C (ts ! j) \<longleftrightarrow> i = j"
proof -
  have "distinct (map (token_hash C) ts)" using assms(1) by (simp add: chain_def)
  from nth_eq_iff_index_eq [OF this, of i j] assms(2,3) show ?thesis by simp
qed

lemma chain_signed_inject:
  assumes "chain C tr ts" "i < length ts" "j < length ts"
  shows "token_eq (ts ! i) (ts ! j) \<longleftrightarrow> i = j"
proof
  assume "token_eq (ts ! i) (ts ! j)"
  then have "token_hash C (ts ! i) = token_hash C (ts ! j)" by (simp add: token_eq_def token_hash_def)
  with chain_hash_inject [OF assms] show "i = j" by simp
qed (simp add: token_eq_def)

lemma chain_genesis:
  assumes "chain C tr ts" "i < length ts" shows "token_hash C (ts ! i) \<noteq> genesis_hash tr"
proof -
  have "token_hash C (ts ! i) \<in> token_hash C ` set ts" using assms(2) by simp
  moreover have "genesis_hash tr \<notin> token_hash C ` set ts" using assms(1) unfolding chain_def by blast
  ultimately show ?thesis by metis
qed

lemma get_gathered:
  assumes "chain C tr ts" "i < length ts" "k \<le> length ts"
  shows "dict_get (elements (gathered C ts k us tr)) (token_hash C (ts ! i)) = (if i < k then Some (ts ! i) else None)"
proof (cases "i < k")
  case True
  have "distinct (map fst (elements (gathered C ts k us tr)))"
    using assms(1) by (simp add: chain_def o_def flip: take_map)
  moreover have "(token_hash C (ts ! i), ts ! i) \<in> set (elements (gathered C ts k us tr))"
    using True assms(3) by (auto simp: in_set_conv_nth image_iff intro!: bexI [of _ "ts ! i"] exI [of _ i])
  ultimately show ?thesis using True by simp
next
  case False
  have "token_hash C (ts ! i) \<notin> token_hash C ` set (take k ts)"
  proof
    assume "token_hash C (ts ! i) \<in> token_hash C ` set (take k ts)"
    then obtain m where m: "m < k" "token_hash C (ts ! i) = token_hash C (ts ! m)"
      using assms(3) by (auto simp: in_set_conv_nth)
    then have "i = m" using chain_hash_inject [OF assms(1,2), of m] assms(3) by simp
    with m(1) False show False by simp
  qed
  then show ?thesis using False by (simp add: map_of_eq_None_iff image_image)
qed

lemma known_previous_gathered:
  assumes "chain C tr ts" "i < length ts" "k \<le> length ts"
  shows "known_previous (ts ! i) (gathered C ts k us tr) \<longleftrightarrow> i \<le> k"
proof (cases i)
  case 0
  then show ?thesis using assms(1,2) by (simp add: known_previous_def chain_def)
next
  case (Suc m)
  then have "tk_prev (ts ! i) = token_hash C (ts ! m)" "m < length ts" using assms(1,2) by (simp_all add: chain_def)
  with Suc get_gathered [OF assms(1) _ assms(3), of m us] chain_genesis [OF assms(1), of m] show ?thesis
    by (auto simp: known_previous_def)
qed

lemma waiting_gathered:
  assumes "chain C tr ts" "i < length ts" "\<forall>u \<in> set us. u < length ts"
  shows "waiting_for (token_hash C (ts ! i)) (gathered C ts k us tr) = (if Suc i \<in> set us then Some (ts ! Suc i) else None)"
proof -
  have "tk_prev (ts ! u) = token_hash C (ts ! i) \<longleftrightarrow> u = Suc i" if "u < length ts" for u
  proof (cases u)
    case 0
    with assms(1) that chain_genesis [OF assms(1,2)] show ?thesis by (simp add: chain_def)
  next
    case (Suc m)
    with that have "tk_prev (ts ! u) = token_hash C (ts ! m)" "m < length ts" using assms(1) by (simp_all add: chain_def)
    with chain_hash_inject [OF assms(1) _ assms(2), of m] Suc show ?thesis by simp
  qed
  with assms(3) have "find (\<lambda>s. tk_prev s = token_hash C (ts ! i)) (map (nth ts) us) =
      (if Suc i \<in> set us then Some (ts ! Suc i) else None)"
    by (induction us) auto
  then show ?thesis by (simp add: waiting_for_def)
qed

lemma wake_gathered:
  assumes "chain C tr ts" "i < length ts" "\<forall>u \<in> set us. u < length ts"
  shows "wake_token (ts ! i) (gathered C ts k us tr) = gathered C ts k (filter (\<lambda>u. u \<noteq> i) us) tr"
proof -
  have "filter (\<lambda>s. \<not> token_eq s (ts ! i)) (map (nth ts) us) = map (nth ts) (filter (\<lambda>u. u \<noteq> i) us)"
    using assms(3) chain_signed_inject [OF assms(1) _ assms(2)] by (induction us) auto
  then show ?thesis by (simp add: wake_token_def gathered_def)
qed

lemma append_gathered:
  assumes "chain C tr ts" "k < length ts"
  shows "append_token C (ts ! k) (gathered C ts k us tr) = gathered C ts (Suc k) us tr"
  using get_gathered [OF assms, of k us] assms(2)
  by (simp add: append_token_def gathered_def dict_set_fresh take_Suc_conv_app_nth)

text \<open>The next token of the chain wakes all tokens that follow without a gap.\<close>

lemma gather_next:
  assumes "chain C tr ts" "k < length ts" "\<forall>u \<in> set us. k < u \<and> u < length ts"
  shows "\<exists>n. gather_token C (ts ! k) (gathered C ts k us tr) =
      (gathered C ts n (filter (\<lambda>u. n \<le> u) us) tr, Some (ts ! k)) \<and>
    k < n \<and> n \<le> length ts \<and> n \<notin> set us \<and> {k<..<n} \<subseteq> set us"
  using assms(2,3)
proof (induction "length us" arbitrary: k us rule: less_induct)
  case less
  let ?tr = "gathered C ts k us tr"
  note gets = get_gathered [OF assms(1) less.prems(1), of k us]
  have v: "verify_token C (tree_public_key ?tr) (ts ! k)" "known_previous (ts ! k) ?tr"
    "dict_get (elements ?tr) (token_hash C (ts ! k)) = None"
    using assms(1) less.prems(1) known_previous_gathered [OF assms(1) less.prems(1), of k us] gets
    by (simp_all add: chain_def del: gathered_simps(5))
  have us: "\<forall>u \<in> set us. u < length ts" using less.prems(2) by blast
  have w: "waiting_for (token_hash C (ts ! k)) ?tr = (if Suc k \<in> set us then Some (ts ! Suc k) else None)"
    by (rule waiting_gathered [OF assms(1) less.prems(1) us])
  note g = gather_fresh [OF v, unfolded w append_gathered [OF assms(1) less.prems(1)]]
  show ?case
  proof (cases "Suc k \<in> set us")
    case False
    then have "filter (\<lambda>u. Suc k \<le> u) us = us" using less.prems(2) by (auto simp: filter_id_conv)
    with False g less.prems(1) show ?thesis by (intro exI [of _ "Suc k"]) auto
  next
    case True
    let ?us = "filter (\<lambda>u. u \<noteq> Suc k) us"
    have "length ?us < length us" using True by (auto intro: length_filter_less)
    moreover have "\<forall>u \<in> set ?us. Suc k < u \<and> u < length ts" using less.prems(2) by auto
    moreover have k: "Suc k < length ts" using True less.prems(2) by auto
    ultimately obtain n where n: "gather_token C (ts ! Suc k) (gathered C ts (Suc k) ?us tr) =
        (gathered C ts n (filter (\<lambda>u. n \<le> u) ?us) tr, Some (ts ! Suc k))"
      "Suc k < n" "n \<le> length ts" "n \<notin> set ?us" "{Suc k<..<n} \<subseteq> set ?us"
      using less.hyps [of ?us "Suc k"] by blast
    have "filter (\<lambda>u. n \<le> u) ?us = filter (\<lambda>u. n \<le> u) us" using n(2) by (auto intro: filter_cong)
    moreover have "n \<notin> set us" using n(2,4) by auto
    moreover have "{k<..<n} \<subseteq> set us"
    proof
      fix x assume "x \<in> {k<..<n}"
      with subsetD [OF n(5), of x] True show "x \<in> set us" by (cases "x = Suc k") auto
    qed
    ultimately show ?thesis
      using g n(1-3) True wake_gathered [OF assms(1) k us, of "Suc k"] by (intro exI [of _ n]) simp
  qed
qed

lemma gather_later:
  assumes "chain C tr ts" "k < j" "j < length ts" "\<forall>u \<in> set us. u < length ts" "j \<notin> set us"
  shows "gather_token C (ts ! j) (gathered C ts k us tr) =
    (gathered C ts k (if unchained_max_size tr \<le> length us then tl (us @ [j]) else us @ [j]) tr, None)"
proof -
  have "verify_token C (tree_public_key (gathered C ts k us tr)) (ts ! j)" "\<not> known_previous (ts ! j) (gathered C ts k us tr)"
    using assms known_previous_gathered [OF assms(1,3), of k us] by (simp_all add: chain_def)
  note g = gather_delayed [OF this]
  have "\<not> (\<exists>s \<in> set (map (nth ts) us). token_eq s (ts ! j))"
    using assms chain_signed_inject [OF assms(1) _ assms(3)] by auto
  then show ?thesis unfolding g by (auto simp: delay_token_def gathered_def map_tl)
qed

fun gather_all :: "'sk crypto \<Rightarrow> token list \<Rightarrow> 'sk token_tree \<Rightarrow> 'sk token_tree \<times> token option list" where
  "gather_all C [] tr = (tr, [])"
| "gather_all C (t # ts) tr =
     (let (tr, r) = gather_token C t tr; (tr, rs) = gather_all C ts tr in (tr, r # rs))"

text \<open>Whatever the order in which the tokens of a chain come, no more than fit the waiting room, they are all gathered.\<close>

lemma gather_any_order:
  assumes "chain C tr ts" "distinct (us @ js)" "k \<notin> set us" "k \<le> length ts"
    and "set us \<union> set js = {k..<length ts}" "length ts \<le> Suc (unchained_max_size tr)"
  shows "fst (gather_all C (map (nth ts) js) (gathered C ts k us tr)) = gathered C ts (length ts) [] tr"
  using assms(2-5)
proof (induction js arbitrary: k us)
  case Nil
  then have "k = length ts" "us = []" by auto
  then show ?case by simp
next
  case (Cons j js)
  have j: "j \<notin> set us" "j \<notin> set js" "k \<le> j" "j < length ts"
    using Cons.prems(1) equalityD1 [OF Cons.prems(4)] by auto
  have us: "\<forall>u \<in> set us. u < length ts" "distinct us" "set us \<subseteq> {k<..<length ts}" using Cons.prems by force+
  show ?case
  proof (cases "j = k")
    case True
    have "k < length ts" "\<forall>u \<in> set us. k < u \<and> u < length ts" using True j us by auto
    from gather_next [OF assms(1) this] obtain n where
      n: "gather_token C (ts ! k) (gathered C ts k us tr) = (gathered C ts n (filter (\<lambda>u. n \<le> u) us) tr, Some (ts ! k))"
      "k < n" "n \<le> length ts" "n \<notin> set us" "{k<..<n} \<subseteq> set us" by blast
    let ?us = "filter (\<lambda>u. n \<le> u) us"
    have d: "distinct (?us @ js)" "n \<notin> set ?us" using Cons.prems(1) n(4) by auto
    have "set ?us \<union> set js = {n..<length ts}"
    proof (intro equalityI subsetI)
      fix x assume x: "x \<in> {n..<length ts}"
      then have "x \<in> set us \<union> set (j # js)" using Cons.prems(4) n(2) by simp
      then show "x \<in> set ?us \<union> set js" using x True n(2) by auto
    next
      fix x assume x: "x \<in> set ?us \<union> set js"
      then have "x \<in> {k..<length ts}" "x \<noteq> k" using Cons.prems(4) j(2) True n(2) by auto
      moreover have "\<not> x < n" if "x \<in> set js"
      proof
        assume "x < n"
        with calculation n(5) have "x \<in> set us" by (auto dest!: subsetD [of _ _ x])
        with that Cons.prems(1) show False by auto
      qed
      ultimately show "x \<in> {n..<length ts}" using x by auto
    qed
    from Cons.IH [OF d n(3) this] n(1) True show ?thesis by (simp add: split_beta)
  next
    case False
    with j have kj: "k < j" by simp
    have "card (set us \<union> {j}) \<le> card {k<..<length ts}" using us j kj by (intro card_mono) auto
    then have "length us < unchained_max_size tr"
      using us(2) j(1,4) kj assms(6) by (simp add: distinct_card)
    then have g: "gather_token C (ts ! j) (gathered C ts k us tr) = (gathered C ts k (us @ [j]) tr, None)"
      using gather_later [OF assms(1) kj j(4) us(1) j(1)] by simp
    have "fst (gather_all C (map (nth ts) js) (gathered C ts k (us @ [j]) tr)) = gathered C ts (length ts) [] tr"
      using Cons.prems False by (intro Cons.IH) auto
    then show ?thesis using g by (simp add: split_beta)
  qed
qed

section \<open>Writing and reading trees\<close>

definition bare :: "token \<Rightarrow> token" where
  "bare t = t\<lparr>tk_content := None\<rparr>"

definition token_shape :: "'sk crypto \<Rightarrow> bytes \<Rightarrow> token \<Rightarrow> bool" where
  "token_shape C pk t \<longleftrightarrow> length (tk_prev t) = 32 \<and> length (tk_content_hash t) = 32 \<and>
     length (tk_signature t) = signature_length C pk"

lemma bare_simps [simp]:
  "token_hash C (bare t) = token_hash C t" "verify_token C pk (bare t) = verify_token C pk t"
  "tk_prev (bare t) = tk_prev t" "token_signed (bare t) = token_signed t" "tk_content (bare t) = None"
  by (simp_all add: bare_def token_signed_def token_plaintext_def)

lemma unserialize_token_signed:
  assumes "token_shape C pk t"
  shows "unserialize_token C (xs @ token_signed t @ ys) (length xs) pk = return (bare t)"
  using assms
  by (simp add: unserialize_token_def token_shape_def token_signed_def token_plaintext_def new_token_def sign_object_def
      slice_def bare_def Let_def)

lemma length_token_signed: "token_shape C pk t \<Longrightarrow> length (token_signed t) = 64 + signature_length C pk"
  by (simp add: token_shape_def token_signed_def token_plaintext_def)

lemma gather_chunks_signed:
  assumes "\<forall>t \<in> set ts. token_shape C (tree_public_key tr) t" "\<forall>t \<in> set us. token_shape C (tree_public_key tr) t"
    and "w = 64 + signature_length C (tree_public_key tr)"
  shows "gather_chunks C (concat (map token_signed (us @ ts))) (map (\<lambda>k. k * w) [length us..<length us + length ts]) correct tr =
    (fst (gather_all C (map bare ts) tr), return (correct \<and> None \<notin> set (snd (gather_all C (map bare ts) tr))))"
  using assms
proof (induction ts arbitrary: us tr correct)
  case (Cons t ts)
  obtain tr' r where g: "gather_token C (bare t) tr = (tr', r)" by (cases "gather_token C (bare t) tr")
  have k: "tree_public_key tr' = tree_public_key tr" using gather_same_tree [of tr C "bare t"] g by (simp add: same_tree_def)
  have "length (concat (map token_signed us)) = length us * w"
    using Cons.prems(2,3) length_token_signed by (induction us) fastforce+
  then have u: "unserialize_token C (concat (map token_signed (us @ t # ts))) (length us * w) (tree_public_key tr) = return (bare t)"
    using unserialize_token_signed [of C _ t "concat (map token_signed us)" "concat (map token_signed ts)"] Cons.prems(1)
    by simp
  have s: "[length us..<length us + length (t # ts)] = length us # [length (us @ [t])..<length (us @ [t]) + length ts]"
    by (subst upt_conv_Cons) simp_all
  have IH: "gather_chunks C (concat (map token_signed ((us @ [t]) @ ts)))
      (map (\<lambda>k. k * w) [length (us @ [t])..<length (us @ [t]) + length ts]) (correct \<and> r \<noteq> None) tr' =
    (fst (gather_all C (map bare ts) tr'),
     return ((correct \<and> r \<noteq> None) \<and> None \<notin> set (snd (gather_all C (map bare ts) tr'))))"
    using Cons.prems k by (intro Cons.IH) auto
  show ?case unfolding s using u g IH by (cases r) (auto simp: split_beta)
qed simp

lemma unserialize_signed:
  assumes "\<forall>t \<in> set ts. token_shape C (tree_public_key tr) t"
  shows "unserialize_public C (concat (map token_signed ts)) tr =
    (fst (gather_all C (map bare ts) tr), return (None \<notin> set (snd (gather_all C (map bare ts) tr))))"
proof -
  let ?w = "64 + signature_length C (tree_public_key tr)"
  have "length (concat (map token_signed ts)) = length ts * ?w"
    using assms length_token_signed by (induction ts) fastforce+
  moreover have "(length ts * ?w + ?w - 1) div ?w = length ts"
    by (rule div_nat_eqI) (auto simp: algebra_simps)
  ultimately have "chunk_starts (length (concat (map token_signed ts))) ?w = map (\<lambda>k. k * ?w) [0..<length ts]"
    by (simp add: chunk_starts_def)
  then show ?thesis
    using gather_chunks_signed [OF assms, of "[]" ?w True] by (simp add: unserialize_public_def)
qed

text \<open>A dump lists every token after the one it points to.\<close>

lemma gather_rooted:
  assumes "rooted C (tree_public_key tr) (insert (genesis_hash tr) (set (dict_keys (elements tr)))) es"
    and "dict_wf (elements tr @ es)" "unchained tr = []"
  shows "gather_all C (map (bare \<circ> snd) es) tr =
    (tr\<lparr>elements := elements tr @ map (\<lambda>(h, t). (h, bare t)) es\<rparr>, map (Some \<circ> bare \<circ> snd) es)"
  using assms
proof (induction es arbitrary: tr)
  case (Cons e es)
  obtain h t where e: "e = (h, t)" by (cases e)
  have h: "h = token_hash C t" "verify_token C (tree_public_key tr) (bare t)" "known_previous (bare t) tr"
      "dict_get (elements tr) (token_hash C (bare t)) = None" "waiting_for (token_hash C (bare t)) tr = None"
    using Cons.prems by (auto simp: e known_previous_def dict_wf_def map_of_eq_None_iff waiting_for_def simp flip: not_None_eq)
  let ?tr = "append_token C (bare t) tr"
  have t: "elements ?tr = elements tr @ [(h, bare t)]" using h by (simp add: dict_set_fresh)
  have "gather_all C (map (bare \<circ> snd) es) ?tr =
      (?tr\<lparr>elements := elements ?tr @ map (\<lambda>(h, t). (h, bare t)) es\<rparr>, map (Some \<circ> bare \<circ> snd) es)"
    using Cons.prems by (intro Cons.IH) (auto simp: t e dict_wf_def insert_commute simp del: append_token_simps(1))
  then show ?case using gather_fresh [OF h(2-4)] h(5) t by (simp add: e) (simp add: append_token_def o_def)
qed simp

lemma leads_unique: "leads C tr t p \<Longrightarrow> leads C tr t q \<Longrightarrow> p = q"
proof (induction arbitrary: q rule: leads.induct)
  case (root t)
  then show ?case by (auto elim: leads.cases)
next
  case (step t s p)
  from step.prems show ?case
  proof (cases rule: leads.cases)
    case (step s' p')
    then have "s' = s" using step.hyps(3) by simp
    then show ?thesis using step step.IH by blast
  qed (use step.hyps(2) in simp)
qed

lemma leads_suffix: "leads C tr t p \<Longrightarrow> i < length p \<Longrightarrow> leads C tr (p ! i) (drop i p)"
proof (induction arbitrary: i rule: leads.induct)
  case (root t)
  then show ?case using leads.root by auto
next
  case (step t s p)
  then show ?case using leads.step [OF step.hyps] by (cases i) auto
qed

lemma leads_elements:
  "leads C tr t p \<Longrightarrow> tree_ok C tr \<Longrightarrow> dict_get (elements tr) (token_hash C t) = Some t \<Longrightarrow>
   s \<in> set p \<Longrightarrow> dict_get (elements tr) (token_hash C s) = Some s"
proof (induction rule: leads.induct)
  case (step t s' p)
  have "dict_get (elements tr) (token_hash C s') = Some s'"
    using step.hyps(3) step.prems(1) rooted_get unfolding tree_ok_def by metis
  with step show ?case by auto
qed simp

lemma leads_distinct:
  assumes "leads C tr t p" "tree_ok C tr" "dict_get (elements tr) (token_hash C t) = Some t"
  shows "distinct (map (token_hash C) p)"
proof -
  have "i = j" if "i < length p" "j < length p" "token_hash C (p ! i) = token_hash C (p ! j)" for i j
  proof -
    have "p ! i = p ! j"
      using leads_elements [OF assms nth_mem [OF that(1)]] leads_elements [OF assms nth_mem [OF that(2)]]
      unfolding that(3) by (metis option.inject)
    then have "drop i p = drop j p"
      using leads_suffix [OF assms(1) that(1)] leads_suffix [OF assms(1) that(2)] leads_unique by simp
    then have "length p - i = length p - j" by (metis length_drop)
    with that(1,2) show ?thesis by simp
  qed
  then show ?thesis unfolding distinct_conv_nth by (metis length_map nth_map)
qed

lemma leads_links:
  "leads C tr t p \<Longrightarrow> tree_ok C tr \<Longrightarrow> i < length p \<Longrightarrow>
   verify_token C (tree_public_key tr) (rev p ! i) \<and>
   tk_prev (rev p ! i) = (if i = 0 then genesis_hash tr else token_hash C (rev p ! (i - 1)))"
proof (induction arbitrary: i rule: leads.induct)
  case (step t s p)
  have p: "p \<noteq> []" "hd p = s" using leads_nonempty step.hyps(4) by blast+
  have s: "tk_prev t = token_hash C s"
    using step.hyps(3) step.prems(1) rooted_get unfolding tree_ok_def by metis
  show ?case
  proof (cases "i < length p")
    case True
    then have "i - 1 < length p" by simp
    with step.IH [OF step.prems(1) True] True show ?thesis by (simp add: nth_append)
  next
    case False
    with step.prems(2) have i: "i = length p" by simp
    have "rev p ! (length p - 1) = s" using p by (cases p) (auto simp: nth_append)
    with i s p step.hyps(1) show ?thesis by (simp add: nth_append)
  qed
qed simp

lemma chain_leads:
  assumes "leads C tr t p" "tree_ok C tr" "dict_get (elements tr) (token_hash C t) = Some t"
    and "dict_get (elements tr) (genesis_hash tr) = None"
    and "tree_public_key tr' = tree_public_key tr" "genesis_hash tr' = genesis_hash tr"
  shows "chain C tr' (map bare (rev p))"
  unfolding chain_def
proof (intro conjI allI impI)
  fix i assume i: "i < length (map bare (rev p))"
  then show "verify_token C (tree_public_key tr') (map bare (rev p) ! i)"
    using leads_links [OF assms(1,2), of i] assms(5) by simp
  show "tk_prev (map bare (rev p) ! i) = (if i = 0 then genesis_hash tr' else token_hash C (map bare (rev p) ! (i - 1)))"
    using leads_links [OF assms(1,2), of i] assms(6) i by simp
next
  show "distinct (map (token_hash C) (map bare (rev p)))"
    using leads_distinct [OF assms(1-3)] by (simp add: o_def flip: rev_map)
  show "genesis_hash tr' \<notin> token_hash C ` set (map bare (rev p))"
  proof
    assume "genesis_hash tr' \<in> token_hash C ` set (map bare (rev p))"
    then obtain s where "s \<in> set p" "genesis_hash tr = token_hash C s" using assms(6) by auto
    with leads_elements [OF assms(1-3), of s] assms(4) show False by simp
  qed
qed

text \<open>A dump of a whole tree is read back by a fresh tree of the same owner, in the order of the dump; the tokens come
  without their content.\<close>

theorem tree_dump_roundtrip:
  assumes "tree_reachable C tr" "signing C" "new_tree C (Some (tree_public_key tr)) None = return fresh"
    and "\<forall>t \<in> set (dict_values (elements tr)). token_shape C (tree_public_key tr) t"
  shows "\<exists>s tr'. serialize_public None tr = Some s \<and> unserialize_public C s fresh = (tr', return True) \<and>
    elements tr' = map (\<lambda>(h, t). (h, bare t)) (elements tr) \<and> unchained tr' = []"
proof -
  have f: "tree_public_key fresh = tree_public_key tr" "elements fresh = []" "unchained fresh = []"
    "genesis_hash fresh = genesis_hash tr"
    using assms(3) tree_reachable_ok [OF assms(1,2)] by (auto simp: new_tree_def own_key_def)
  have "gather_all C (map (bare \<circ> snd) (elements tr)) fresh =
      (fresh\<lparr>elements := elements fresh @ map (\<lambda>(h, t). (h, bare t)) (elements tr)\<rparr>, map (Some \<circ> bare \<circ> snd) (elements tr))"
    using tree_reachable_ok [OF assms(1,2)] by (intro gather_rooted) (simp_all add: f tree_ok_def)
  then show ?thesis
    using unserialize_signed [of "dict_values (elements tr)" C fresh] assms(4) f
    by (auto simp: serialize_public_def)
qed

text \<open>The path of an element, as \<open>serialize_public\<close> writes it, is read back by a fresh tree into the whole path when it
  has at most 101 tokens, although reading reports a failure for every path of more than one token: the tokens come
  before those they point to.\<close>

theorem tree_path_roundtrip:
  assumes "tree_reachable C tr" "signing C" "new_tree C (Some (tree_public_key tr)) None = return fresh"
    and "dict_get (elements tr) h = Some t" "dict_get (elements tr) (genesis_hash tr) = None"
    and "\<forall>t \<in> set (dict_values (elements tr)). token_shape C (tree_public_key tr) t"
  shows "\<exists>p s tr'. leads C tr t p \<and> serialize_public (Some t) tr = Some s \<and>
    unserialize_public C s fresh = (tr', return (length p = 1)) \<and>
    (length p \<le> 101 \<longrightarrow> elements tr' = map (\<lambda>t. (token_hash C t, bare t)) (rev p) \<and> unchained tr' = [])"
proof -
  have ok: "tree_ok C tr" "genesis_hash tr = sha3 C (tree_public_key tr)"
    using tree_reachable_ok [OF assms(1,2)] by (simp_all add: own_key_def)
  obtain p where p: "h = token_hash C t" "leads C tr t p" using element_leads [OF ok(1) assms(4)] by blast
  have f: "tree_public_key fresh = tree_public_key tr" "elements fresh = []" "unchained fresh = []"
    "genesis_hash fresh = genesis_hash tr" "unchained_max_size fresh = 100"
    using assms(3) ok(2) by (auto simp: new_tree_def)
  let ?ts = "map bare (rev p)"
  have c: "chain C fresh ?ts" using assms(4,5) p f by (intro chain_leads [OF p(2) ok(1)]) simp_all
  have s: "serialize_public (Some t) tr = Some (concat (map token_signed p))"
  proof -
    have "token_signed t @ concat (map token_signed (tl p)) = concat (map token_signed (t # tl p))" by simp
    then show ?thesis
      using serialize_loop_leads [OF p(2) assms(5)] leads_Cons [OF p(2)] by (simp add: serialize_public_def)
  qed
  have shapes: "\<forall>t \<in> set p. token_shape C (tree_public_key fresh) t"
  proof
    fix s assume "s \<in> set p"
    from leads_elements [OF p(2) ok(1) _ this] assms(4) p(1) have "(token_hash C s, s) \<in> set (elements tr)"
      by (auto dest: map_of_SomeD)
    then show "token_shape C (tree_public_key fresh) s" using assms(6) f(1) by force
  qed
  have order: "map bare p = map (nth ?ts) (rev [0..<length p])"
    by (simp add: rev_map [symmetric] map_nth flip: rev_map) (metis length_map length_rev map_nth rev_map rev_rev_ident)
  have start: "fresh = gathered C ?ts 0 [] fresh" using f by (simp add: gathered_def)
  have all: "elements (fst (gather_all C (map bare p) fresh)) = map (\<lambda>t. (token_hash C t, bare t)) (rev p) \<and>
      unchained (fst (gather_all C (map bare p) fresh)) = []" if "length p \<le> 101"
  proof -
    have "fst (gather_all C (map (nth ?ts) (rev [0..<length p])) (gathered C ?ts 0 [] fresh)) = gathered C ?ts (length ?ts) [] fresh"
      using that f(5) by (intro gather_any_order [OF c]) auto
    then show ?thesis using start order by (simp add: o_def)
  qed
  have flag: "None \<in> set (snd (gather_all C (map bare p) fresh)) \<longleftrightarrow> length p \<noteq> 1"
  proof -
    have v: "verify_token C (tree_public_key fresh) (bare t)" using p(2) f(1) by (auto elim: leads.cases)
    from p(2) show ?thesis
    proof (cases rule: leads.cases)
      case root
      then have "gather_token C (bare t) fresh = (append_token C (bare t) fresh, Some (bare t))"
        using v f by (subst gather_fresh) (simp_all add: known_previous_def waiting_for_def)
      with root show ?thesis by simp
    next
      case (step s q)
      then have "gather_token C (bare t) fresh = (delay_token (bare t) fresh, None)"
        using v f by (intro gather_delayed) (simp_all add: known_previous_def)
      moreover have "q \<noteq> []" using step leads_nonempty by blast
      ultimately show ?thesis using step by (simp add: split_beta)
    qed
  qed
  show ?thesis
    using unserialize_signed [OF shapes] s p all flag by (intro exI conjI) (auto simp: prod_eq_iff)
qed

text \<open>C23: The tokens of a chain may arrive in any order: when there are at most 101 of them, a fresh tree ends up with the
  whole chain, in its order, and none waits any longer.\<close>

theorem chains_arrive_in_any_order:
  assumes "new_tree C (Some pk) None = return fresh" "chain C fresh ts" "length ts \<le> 101"
    and "mset order = mset [0..<length ts]"
  shows "elements (fst (gather_all C (map (nth ts) order) fresh)) = map (\<lambda>t. (token_hash C t, t)) ts \<and>
    unchained (fst (gather_all C (map (nth ts) order) fresh)) = []"
proof -
  have f: "elements fresh = []" "unchained fresh = []" "unchained_max_size fresh = 100"
    using assms(1) by (auto simp: new_tree_def)
  have "fresh = gathered C ts 0 [] fresh" using f by (simp add: gathered_def)
  moreover have "distinct order" "set order = {0..<length ts}"
    using assms(4) by (metis distinct_upt mset_eq_imp_distinct_iff, metis set_mset_mset set_upt)
  then have "fst (gather_all C (map (nth ts) order) (gathered C ts 0 [] fresh)) = gathered C ts (length ts) [] fresh"
    using assms(3) f by (intro gather_any_order [OF assms(2)]) auto
  ultimately show ?thesis by simp
qed

text \<open>When two tokens wait for the same one, its arrival wakes only the first: the second waits on, and the tree reports
  as missing what it has.\<close>

theorem second_waiting_token_stays:
  assumes "new_tree C (Some pk) None = return fresh"
    and "verify_token C pk a" "verify_token C pk b" "verify_token C pk c"
    and "tk_prev a = sha3 C pk" "tk_prev b = token_hash C a" "tk_prev c = token_hash C a"
    and "distinct [sha3 C pk, token_hash C a, token_hash C b, token_hash C c]"
  shows "\<exists>tr. gather_all C [b, c, a] fresh = (tr, [None, None, Some a]) \<and>
    dict_get (elements tr) (token_hash C a) = Some a \<and> dict_get (elements tr) (token_hash C b) = Some b \<and>
    dict_get (elements tr) (token_hash C c) = None \<and> unchained tr = [c] \<and> get_missing tr = {token_hash C a}"
proof -
  have f: "fresh = \<lparr>elements = [], unchained = [], unchained_max_size = 100, tree_public_key = pk, tree_private_key = None,
      genesis_hash = sha3 C pk\<rparr>" using assms(1) by (simp add: new_tree_def)
  have bc: "\<not> token_eq b c" "\<not> token_eq c b" using assms(8) by (auto simp: token_eq_def token_hash_def)
  have b: "gather_token C b fresh = (fresh\<lparr>unchained := [b]\<rparr>, None)"
    using assms by (subst gather_delayed) (auto simp: f known_previous_def delay_token_def)
  have c: "gather_token C c (fresh\<lparr>unchained := [b]\<rparr>) = (fresh\<lparr>unchained := [b, c]\<rparr>, None)"
    using assms bc by (subst gather_delayed) (auto simp: f known_previous_def delay_token_def)
  let ?tr = "fresh\<lparr>elements := [(token_hash C a, a)], unchained := [c]\<rparr>"
  have a: "gather_token C a (fresh\<lparr>unchained := [b, c]\<rparr>) = (fst (gather_token C b ?tr), Some a)"
    using assms bc by (subst gather_fresh) (auto simp: f known_previous_def waiting_for_def append_token_def wake_token_def token_eq_def)
  have "gather_token C b ?tr = (fresh\<lparr>elements := [(token_hash C a, a), (token_hash C b, b)], unchained := [c]\<rparr>, Some b)"
    using assms by (subst gather_fresh) (auto simp: f known_previous_def waiting_for_def append_token_def)
  with a b c have "gather_all C [b, c, a] fresh =
      (fresh\<lparr>elements := [(token_hash C a, a), (token_hash C b, b)], unchained := [c]\<rparr>, [None, None, Some a])" by simp
  then show ?thesis using assms(7,8) by (auto simp: get_missing_def)
qed

section \<open>Witnesses\<close>

text \<open>A hash of 32 bytes that depends on two bytes only, and a signature scheme with one signature.\<close>

definition ex_crypto :: "unit crypto" where
  "ex_crypto =
     \<lparr>sha3 = \<lambda>b. replicate 31 0 @ [if 63 < length b then 1 + b ! 31 + 16 * b ! 63 else 1],
      is_valid_signature = \<lambda>pk m s. s = [0], make_signature = \<lambda>k m. [0], pub = \<lambda>k. [7], signature_length = \<lambda>pk. 1\<rparr>"

definition ex_hash :: "byte \<Rightarrow> bytes" where
  "ex_hash b = replicate 31 0 @ [b]"

definition ex_token :: "byte \<Rightarrow> byte \<Rightarrow> token" where
  "ex_token prev content = \<lparr>tk_prev = ex_hash prev, tk_content_hash = ex_hash content, tk_content = None, tk_signature = [0]\<rparr>"

lemma ex_hash_simps [simp]:
  "ex_hash a = ex_hash b \<longleftrightarrow> a = b" "length (ex_hash a) = 32" "ex_hash a ! 31 = a" "sha3 ex_crypto [7] = ex_hash 1"
  by (simp_all add: ex_hash_def ex_crypto_def nth_append)

lemma ex_token_simps [simp]:
  "token_hash ex_crypto (ex_token a b) = ex_hash (1 + a + 16 * b)" "verify_token ex_crypto pk (ex_token a b)"
  "tk_prev (ex_token a b) = ex_hash a" "tk_content (ex_token a b) = None" "bare (ex_token a b) = ex_token a b"
  "token_shape ex_crypto pk (ex_token a b)"
  by (simp_all add: token_hash_def token_signed_def token_plaintext_def ex_token_def verify_token_def ex_crypto_def
      nth_append ex_hash_def bare_def token_shape_def)

lemma ex_signing: "signing ex_crypto"
  by (simp add: signing_def ex_crypto_def)

definition ex_fresh :: "unit token_tree" where
  "ex_fresh = \<lparr>elements = [], unchained = [], unchained_max_size = 100, tree_public_key = [7], tree_private_key = None,
     genesis_hash = ex_hash 1\<rparr>"

lemma ex_fresh_new: "new_tree ex_crypto (Some [7]) None = return ex_fresh"
  by (simp add: new_tree_def ex_fresh_def)

definition ex_tree :: "(bytes \<times> token) list \<Rightarrow> unit token_tree" where
  "ex_tree es = ex_fresh\<lparr>elements := es, tree_private_key := Some ()\<rparr>"

lemma ex_tree_new: "new_tree ex_crypto None (Some ()) = return (ex_tree [])"
proof -
  have "pub ex_crypto () = [7]" by (simp add: ex_crypto_def)
  then show ?thesis by (simp add: new_tree_def ex_fresh_def ex_tree_def)
qed

lemma ex_new_token: "new_token ex_crypto (ex_hash a) None (Some (ex_hash b)) (Some ()) None = return (ex_token a b)"
  by (simp add: new_token_def sign_object_def ex_token_def ex_crypto_def)

lemma ex_tree_reachable: "tree_reachable ex_crypto (ex_tree [(ex_hash 2, ex_token 1 0), (ex_hash 3, ex_token 2 0)])"
proof -
  have 1: "tree_add_by_hash ex_crypto (ex_hash 0) None (ex_tree []) = return (ex_tree [(ex_hash 2, ex_token 1 0)], ex_token 1 0)"
    by (simp add: tree_add_by_hash_def ex_tree_def ex_fresh_def previous_hash_def ex_new_token append_token_def)
  have 2: "tree_add_by_hash ex_crypto (ex_hash 0) (Some (ex_token 1 0)) (ex_tree [(ex_hash 2, ex_token 1 0)]) =
      return (ex_tree [(ex_hash 2, ex_token 1 0), (ex_hash 3, ex_token 2 0)], ex_token 2 0)"
    by (simp add: tree_add_by_hash_def ex_tree_def ex_fresh_def previous_hash_def ex_new_token append_token_def)
  have "tree_reachable ex_crypto (ex_tree [(ex_hash 2, ex_token 1 0)])"
    by (rule tree_reachable.add_by_hash [OF tree_reachable.new [OF ex_tree_new] 1]) (simp add: legal_addition_def ex_tree_def ex_fresh_def)
  from tree_reachable.add_by_hash [OF this 2] show ?thesis by (simp add: legal_addition_def ex_tree_def)
qed

lemma ex_leads:
  "leads ex_crypto (ex_tree [(ex_hash 2, ex_token 1 0), (ex_hash 3, ex_token 2 0)]) (ex_token 2 0) p \<longleftrightarrow>
   p = [ex_token 2 0, ex_token 1 0]"
proof -
  have "leads ex_crypto (ex_tree [(ex_hash 2, ex_token 1 0), (ex_hash 3, ex_token 2 0)]) (ex_token 2 0) [ex_token 2 0, ex_token 1 0]"
    by (rule leads.step [OF _ _ _ leads.root]) (simp_all add: ex_tree_def ex_fresh_def)
  then show ?thesis using leads_unique by blast
qed


theorem tree_dump_roundtrip_witness:
  "\<exists>s tr. serialize_public None (ex_tree [(ex_hash 2, ex_token 1 0), (ex_hash 3, ex_token 2 0)]) = Some s \<and>
     unserialize_public ex_crypto s ex_fresh = (tr, return True) \<and>
     elements tr = [(ex_hash 2, ex_token 1 0), (ex_hash 3, ex_token 2 0)]"
  using tree_dump_roundtrip [OF ex_tree_reachable ex_signing, of ex_fresh] ex_fresh_new
  by (auto simp: ex_tree_def ex_fresh_def)

theorem tree_path_roundtrip_witness:
  "\<exists>s tr. serialize_public (Some (ex_token 2 0)) (ex_tree [(ex_hash 2, ex_token 1 0), (ex_hash 3, ex_token 2 0)]) = Some s \<and>
     unserialize_public ex_crypto s ex_fresh = (tr, return False) \<and>
     elements tr = [(ex_hash 2, ex_token 1 0), (ex_hash 3, ex_token 2 0)]"
proof -
  let ?tr = "ex_tree [(ex_hash 2, ex_token 1 0), (ex_hash 3, ex_token 2 0)]"
  have "\<exists>p s tr'. leads ex_crypto ?tr (ex_token 2 0) p \<and> serialize_public (Some (ex_token 2 0)) ?tr = Some s \<and>
    unserialize_public ex_crypto s ex_fresh = (tr', return (length p = 1)) \<and>
    (length p \<le> 101 \<longrightarrow> elements tr' = map (\<lambda>t. (token_hash ex_crypto t, bare t)) (rev p) \<and> unchained tr' = [])"
  proof (rule tree_path_roundtrip [OF ex_tree_reachable ex_signing, of _ "ex_hash 3"])
    show "new_tree ex_crypto (Some (tree_public_key ?tr)) None = return ex_fresh"
      using ex_fresh_new by (simp add: ex_tree_def ex_fresh_def)
  qed (simp_all add: ex_tree_def ex_fresh_def)
  then show ?thesis by (auto simp: ex_leads)
qed

theorem chains_arrive_in_any_order_witness:
  "elements (fst (gather_all ex_crypto [ex_token 3 0, ex_token 1 0, ex_token 2 0] ex_fresh)) =
     [(ex_hash 2, ex_token 1 0), (ex_hash 3, ex_token 2 0), (ex_hash 4, ex_token 3 0)]"
proof -
  have "chain ex_crypto ex_fresh [ex_token 1 0, ex_token 2 0, ex_token 3 0]"
  proof -
    have "P i" if "i < 3" "P 0" "P 1" "P 2" for i :: nat and P
    proof -
      have "i = 0 \<or> i = 1 \<or> i = 2" using that(1) by linarith
      with that show ?thesis by auto
    qed
    from this [of _ "\<lambda>i. verify_token ex_crypto [7] ([ex_token 1 0, ex_token 2 0, ex_token 3 0] ! i) \<and>
        tk_prev ([ex_token 1 0, ex_token 2 0, ex_token 3 0] ! i) =
          (if i = 0 then ex_hash 1 else token_hash ex_crypto ([ex_token 1 0, ex_token 2 0, ex_token 3 0] ! (i - 1)))"]
    show ?thesis by (simp add: chain_def ex_fresh_def)
  qed
  moreover have "mset [2, 0, 1] = mset [0..<length [ex_token 1 0, ex_token 2 0, ex_token 3 0]]"
    by (simp add: upt_rec)
  ultimately show ?thesis
    using chains_arrive_in_any_order [OF ex_fresh_new, of "[ex_token 1 0, ex_token 2 0, ex_token 3 0]" "[2, 0, 1]"] by simp
qed

theorem second_waiting_token_stays_witness:
  "unchained (fst (gather_all ex_crypto [ex_token 2 0, ex_token 2 1, ex_token 1 0] ex_fresh)) = [ex_token 2 1]"
proof -
  have "\<exists>tr. gather_all ex_crypto [ex_token 2 0, ex_token 2 1, ex_token 1 0] ex_fresh = (tr, [None, None, Some (ex_token 1 0)]) \<and>
    dict_get (elements tr) (token_hash ex_crypto (ex_token 1 0)) = Some (ex_token 1 0) \<and>
    dict_get (elements tr) (token_hash ex_crypto (ex_token 2 0)) = Some (ex_token 2 0) \<and>
    dict_get (elements tr) (token_hash ex_crypto (ex_token 2 1)) = None \<and> unchained tr = [ex_token 2 1] \<and>
    get_missing tr = {token_hash ex_crypto (ex_token 1 0)}"
    by (rule second_waiting_token_stays [OF ex_fresh_new]) simp_all
  then obtain tr where "gather_all ex_crypto [ex_token 2 0, ex_token 2 1, ex_token 1 0] ex_fresh = (tr, [None, None, Some (ex_token 1 0)])"
    "unchained tr = [ex_token 2 1]" by blast
  then show ?thesis by (simp del: gather_all.simps)
qed

end
