(* ===== verification/Identity_Properties.thy ===== *)
theory Identity_Properties
  imports IdentityCommunity TokenTree_Properties
begin

text \<open>
  Pseudonyms and the overlay that attests: what the tables keep, what is signed, how disclosures fit a packet, and that a disclosed
  credential is read back.
\<close>

section \<open>Sets\<close>

definition set_order_ok :: "('sk, 'j) identity_env \<Rightarrow> bool" where
  "set_order_ok E \<longleftrightarrow> (\<forall>ks. mset (set_order E ks) = mset [0..<length ks])"

lemma set_order_facts:
  assumes "set_order_ok E"
  shows "distinct (set_order E ks)" "set (set_order E ks) = {0..<length ks}"
  using assms unfolding set_order_ok_def
  by (metis distinct_upt mset_eq_imp_distinct_iff, metis set_mset_mset set_upt)

lemma set_as_set_subset: "set (as_set key xs) \<subseteq> set xs"
  by (induction key xs rule: as_set.induct) auto

lemma as_set_distinct: "distinct (map key xs) \<Longrightarrow> as_set key xs = xs"
proof (induction key xs rule: as_set.induct)
  case (2 key x xs)
  then have "filter (\<lambda>y. key y \<noteq> key x) xs = xs" by (auto simp: filter_id_conv image_iff)
  with 2 show ?case by simp
qed simp

lemma set_iterate_set: "set_order_ok E \<Longrightarrow> set (iterate_set E key xs) = set (as_set key xs)"
  by (auto simp: iterate_set_def Let_def set_order_facts in_set_conv_nth image_iff) (metis atLeast0LessThan lessThan_iff)

section \<open>The tables\<close>

lemma insert_or_ignore_distinct: "distinct (map key rows) \<Longrightarrow> distinct (map key (insert_or_ignore key r rows))"
  by (simp add: insert_or_ignore_def)

text \<open>The table keeps one attestation about the metadata of a pseudonym: a valid attestation of another authority is
  reported as added, but the table stays as it is.\<close>

theorem second_authority_is_dropped:
  assumes "verify_attestation (id_crypto E) authority a" "(pk, q, b) \<in> set (attestations_table db)" "ia_pointer b = ia_pointer a"
  shows "add_attestation E pk (authority, a) db = (db, True) \<and>
    (b \<noteq> a \<and> (pk, authority, a) \<notin> set (attestations_table db) \<longrightarrow>
       (pk, authority, a) \<notin> set (attestations_table (fst (add_attestation E pk (authority, a) db))))"
proof -
  have "(pk, ia_pointer a) \<in> (\<lambda>(p, _, a). (p, ia_pointer a)) ` set (attestations_table db)"
    using assms(2,3) by (force simp: image_iff)
  then have "insert_attestation pk authority a db = db"
    by (simp add: insert_attestation_def insert_or_ignore_def)
  with assms(1) show ?thesis by (simp add: add_attestation_def)
qed

section \<open>Signing twice\<close>

lemma any_authority_False [simp]: "\<not> any_authority q key"
  by (simp add: any_authority_def list_ex_iff)

lemma get_attestations_over_rows:
  assumes "set_order_ok E" "a \<in> set (get_attestations_over E m db)"
  shows "\<exists>p q. (p, q, a) \<in> set (attestations_table db)"
proof -
  have "a \<in> set (map (snd \<circ> snd) (filter (\<lambda>(_, _, a). ia_pointer a = metadata_hash (id_crypto E) m) (attestations_table db)))"
    using assms(2) unfolding get_attestations_over_def set_iterate_set [OF assms(1)] by (rule subsetD [OF set_as_set_subset])
  then obtain r where "r \<in> set (attestations_table db)" "snd (snd r) = a" by auto
  then show ?thesis by (metis prod.collapse)
qed

lemma already_attested_False:
  assumes "\<forall>a \<in> set as. \<exists>p q. (p, q, a) \<in> set (attestations_table db)"
  shows "already_attested key db as = return False"
  using assms
proof (induction "as")
  case (Cons a "as")
  then obtain p q where "(p, q, a) \<in> set (attestations_table db)" by auto
  then have "find (\<lambda>(_, _, b). ia_signature b = ia_signature a) (attestations_table db) \<noteq> None"
    by (auto simp: find_None_iff)
  then obtain q' where "get_authority a db = return q'" by (auto simp: get_authority_def)
  with Cons show ?case by simp
qed simp

lemma ic_manager_with_database [simp]:
  "im_database (ic_manager (with_database db c)) = db" "own_key_bin E (with_database db c) = own_key_bin E c"
  "known_attestation_hashes (with_database db c) = known_attestation_hashes c"
  by (simp_all add: with_database_def own_key_bin_def)

text \<open>Whether a credential is signed does not depend on the attestations that are known: the check for an attestation
  of one's own compares bytes with a key and never succeeds, so the same metadata is signed again.\<close>

theorem own_attestation_is_not_noticed:
  assumes "set_order_ok E"
  shows "should_sign E now p m (with_database db c) = should_sign E now p m c \<and>
    (should_sign E now p m c = return True \<longrightarrow>
       should_sign E now p m (with_database (fst (add_attestation E pk (own_key_bin E c, a) (im_database (ic_manager c)))) c)
         = return True)"
proof -
  have "already_attested (own_key_bin E c) db (get_attestations_over E m db) = return False" for db
    by (intro already_attested_False ballI get_attestations_over_rows [OF assms])
  then have "should_sign E now p m (with_database db c) = should_sign E now p m c" for db
    unfolding should_sign_def ic_manager_with_database by (simp only:)
  then show ?thesis by simp
qed

section \<open>Fitting a packet\<close>

definition disclosure_length :: "bytes \<times> bytes \<times> bytes \<times> bytes \<Rightarrow> nat" where
  "disclosure_length = (\<lambda>(a, b, c, d). length a + length b + length c + length d)"

text \<open>C25: Fitting a disclosure keeps a suffix of the tokens; the result fits the packet exactly when the disclosure did or
  there is room for a token beside the rest. When there is none, all the tokens are kept.\<close>

theorem disclosure_fits_unless_no_room:
  assumes "fit_disclosure E c (md, tokens, attestations, authorities) = d"
    and "room = (SAFE_UDP_PACKET_LENGTH - (length md + length attestations + length authorities)) div
      (64 + signature_length (id_crypto E) (own_key_bin E c))"
  shows "(\<exists>k. d = (md, drop k tokens, attestations, authorities)) \<and>
    (disclosure_length d \<le> SAFE_UDP_PACKET_LENGTH \<longleftrightarrow>
       disclosure_length (md, tokens, attestations, authorities) \<le> SAFE_UDP_PACKET_LENGTH \<or> 0 < room) \<and>
    (SAFE_UDP_PACKET_LENGTH < disclosure_length (md, tokens, attestations, authorities) \<and> room = 0 \<longrightarrow>
       d = (md, tokens, attestations, authorities))"
proof -
  let ?size = "64 + signature_length (id_crypto E) (own_key_bin E c)"
  let ?meta = "length md + length attestations + length authorities"
  let ?tokens = "if ?meta + length tokens > SAFE_UDP_PACKET_LENGTH
         then (if room = 0 then tokens else drop (length tokens - room * ?size) tokens) else tokens"
  have d: "d = (md, ?tokens, attestations, authorities)"
    unfolding assms(1) [symmetric] assms(2) fit_disclosure_def Let_def by simp
  have "\<exists>k. ?tokens = drop k tokens" by (metis drop0)
  moreover have "length (drop (length tokens - room * ?size) tokens) \<le> room * ?size" by simp
  moreover have "room * ?size \<le> SAFE_UDP_PACKET_LENGTH - ?meta" unfolding assms(2) by (rule div_times_less_eq_dividend)
  moreover have "0 < room \<Longrightarrow> ?meta \<le> SAFE_UDP_PACKET_LENGTH"
    using assms(2) by (cases "?meta \<le> SAFE_UDP_PACKET_LENGTH") simp_all
  ultimately show ?thesis unfolding d disclosure_length_def by auto
qed

section \<open>Disclosures\<close>

lemma disclose_walk_leads:
  "leads C tr t p \<Longrightarrow> distinct (map token_signed (acc @ tl p)) \<Longrightarrow>
   disclose_walk tr t acc = Some (return (acc @ tl p))"
proof (induction arbitrary: acc rule: leads.induct)
  case (root t)
  then show ?case by (subst disclose_walk.simps) simp
next
  case (step t s p)
  have p: "s # tl p = p" by (rule leads_Cons [OF step.hyps(4)])
  then have d: "distinct (map token_signed (acc @ s # tl p))" using step.prems by simp
  then have "token_insert s acc = acc @ [s]" by (auto simp: token_insert_def token_eq_def) (metis imageI)
  moreover have "disclose_walk tr s (acc @ [s]) = Some (return ((acc @ [s]) @ tl p))"
    using d by (intro step.IH) simp
  ultimately show ?case using step p by (subst disclose_walk.simps) simp
qed

lemma leads_signed_distinct:
  assumes "leads C tr t p" "tree_ok C tr" "dict_get (elements tr) (token_hash C t) = Some t"
  shows "distinct (map token_signed p)"
proof -
  have "distinct (map (sha3 C) (map token_signed p))"
    using leads_distinct [OF assms] unfolding token_hash_def map_map o_def .
  then show ?thesis unfolding distinct_map [of "sha3 C"] by blast
qed

lemma disclose_tokens_leads:
  assumes "leads C tr t p" "tree_ok C tr" "dict_get (elements tr) h = Some t" "length p \<le> 1000"
  shows "disclose_tokens C tr [h] [] = Some (return p)"
proof -
  have h: "h = token_hash C t" using element_leads [OF assms(2,3)] by blast
  have "tree_verify C t 1000 tr = Some True"
    using verify_loop_leads [OF assms(1), of 0 1000] assms(4) by (simp add: tree_verify_def)
  moreover have "disclose_walk tr t [t] = Some (return p)"
    using disclose_walk_leads [OF assms(1), of "[t]"] leads_signed_distinct [OF assms(1,2)] assms(3) h leads_Cons [OF assms(1)]
    by simp
  ultimately show ?thesis using assms(3) by (simp add: token_insert_def)
qed

text \<open>Metadata is read back as it was written.\<close>

definition metadata_shape :: "'sk crypto \<Rightarrow> bytes \<Rightarrow> metadata \<Rightarrow> bool" where
  "metadata_shape C pk m \<longleftrightarrow> length (md_pointer m) = 32 \<and> length (md_signature m) = signature_length C pk \<and>
     0 < signature_length C pk \<and> length (metadata_signed m) < 256 ^ 4"

lemma unserialize_metadata_signed:
  assumes "metadata_shape C pk m"
  shows "unserialize_metadata C (metadata_signed m) pk 0 = return m"
proof -
  let ?n = "signature_length C pk"
  have "length (metadata_signed m) - ?n = length (md_pointer m @ md_json m)"
    using assms by (simp add: metadata_shape_def metadata_signed_def metadata_plaintext_def)
  then show ?thesis
    using assms
    by (simp add: unserialize_metadata_def new_metadata_def sign_object_def metadata_shape_def metadata_signed_def
        metadata_plaintext_def Let_def)
qed

lemma load_metadata_signed:
  assumes "\<forall>m \<in> set ms. metadata_shape (id_crypto E) pk m"
  shows "\<exists>s. disclose_metadata ms = return s \<and>
    load_metadata E pk s db = (fold (\<lambda>m db. fst (add_metadata E pk m db)) ms db, return ())"
  using assms
proof (induction ms arbitrary: db)
  case (Cons m ms)
  then obtain s where s: "disclose_metadata ms = return s"
    "load_metadata E pk s (fst (add_metadata E pk m db)) = (fold (\<lambda>m db. fst (add_metadata E pk m db)) (m # ms) db, return ())"
    by fastforce
  let ?l = "length (metadata_signed m)"
  have l: "?l < 256 ^ 4" using Cons.prems by (simp add: metadata_shape_def)
  have "disclose_metadata (m # ms) = return (bytes_of_nat 4 ?l @ metadata_signed m @ s)"
    using s(1) l by (simp add: be_pack_def)
  moreover have "load_metadata E pk (bytes_of_nat 4 ?l @ metadata_signed m @ s) db =
      (fold (\<lambda>m db. fst (add_metadata E pk m db)) (m # ms) db, return ())"
  proof -
    have "nat_of_bytes (bytes_of_nat 4 ?l) = ?l" by (rule nat_of_bytes_of_nat [OF l])
    moreover have "bytes_of_nat 4 ?l \<noteq> []" by (metis length_bytes_of_nat list.size(3) zero_neq_numeral)
    ultimately show ?thesis
      using s(2) unserialize_metadata_signed [of "id_crypto E" pk m] Cons.prems
      by (subst load_metadata.simps) (simp add: Let_def)
  qed
  ultimately show ?case by blast
qed (simp add: load_metadata.simps)

lemma load_attestations_Nil [simp]: "load_attestations E pk a i [] correct db = (db, return correct)"
  by (simp add: load_attestations.simps)

lemma get_new_pseudonym:
  assumes "new_tree (id_crypto E) (Some pk) None = return fresh" "set_order_ok E"
  shows "get_pseudonym E (PublicKey pk) (new_identity_manager \<lparr>tokens_table = [], metadata_table = [], attestations_table = []\<rparr>) =
    return (\<lparr>im_database = \<lparr>tokens_table = [], metadata_table = [], attestations_table = []\<rparr>,
       im_pseudonyms = [(pk, \<lparr>pm_tree = fresh, pm_credentials = []\<rparr>)]\<rparr>, \<lparr>pm_tree = fresh, pm_credentials = []\<rparr>)"
proof -
  have "set_order E [] = []" using set_order_facts(2) [OF assms(2), of "[]"] by simp
  then show ?thesis
    using assms(1)
    by (simp add: get_pseudonym_def new_identity_manager_def public_bin_def new_pseudonym_def get_tokens_for_def
        get_credentials_for_def get_metadata_for_def iterate_set_def Let_def)
qed

lemma disclose_no_attestations: "disclose_attestations E db {} as = return ([], [])"
  by (induction "as") auto

text \<open>The tokens of a path, in whatever order their set is iterated, give the path to a fresh tree.\<close>

lemma unserialize_path_set:
  assumes "set_order_ok E" "tree_ok C tr" "leads C tr t p" "dict_get (elements tr) (token_hash C t) = Some t"
    and "dict_get (elements tr) (genesis_hash tr) = None" "length p \<le> 101"
    and "\<forall>t \<in> set (dict_values (elements tr)). token_shape C (tree_public_key tr) t"
    and "fresh = \<lparr>elements = [], unchained = [], unchained_max_size = 100, tree_public_key = tree_public_key tr,
      tree_private_key = None, genesis_hash = genesis_hash tr\<rparr>"
  shows "\<exists>tr' r. unserialize_public C (concat (map token_signed (iterate_set E token_signed p))) fresh = (tr', return r) \<and>
    elements tr' = map (\<lambda>t. (token_hash C t, bare t)) (rev p) \<and> unchained tr' = []"
proof -
  let ?ts = "map bare (rev p)" and ?n = "length p"
  define ord where "ord = set_order E (map token_signed p)"
  have o: "distinct ord" "set ord = {0..<?n}"
    using set_order_facts [OF assms(1), of "map token_signed p"] by (simp_all add: ord_def)
  have i: "iterate_set E token_signed p = map (nth p) ord"
    using as_set_distinct [OF leads_signed_distinct [OF assms(3,2,4)]] by (simp add: iterate_set_def ord_def)
  define js where "js = map (\<lambda>i. ?n - 1 - i) ord"
  have j: "distinct js" "set js = {0..<?n}"
  proof -
    show "distinct js" unfolding js_def distinct_map using o by (auto intro!: inj_onI)
    show "set js = {0..<?n}"
    proof (intro equalityI subsetI)
      fix x assume "x \<in> {0..<?n}"
      then have "?n - 1 - x \<in> set ord" "x = ?n - 1 - (?n - 1 - x)" using o(2) by auto
      then show "x \<in> set js" unfolding js_def by (metis image_eqI set_map)
    qed (use o(2) in \<open>auto simp: js_def\<close>)
  qed
  have b: "map bare (map (nth p) ord) = map (nth ?ts) js"
    using o(2) by (auto simp: js_def rev_nth)
  have c: "chain C fresh ?ts" using assms(8) by (intro chain_leads [OF assms(3,2,4,5)]) simp_all
  have f: "fresh = gathered C ?ts 0 [] fresh" using assms(8) by (simp add: gathered_def)
  have g: "fst (gather_all C (map (nth ?ts) js) (gathered C ?ts 0 [] fresh)) = gathered C ?ts (length ?ts) [] fresh"
    using j assms(6,8) by (intro gather_any_order [OF c]) auto
  have s: "\<forall>s \<in> set p. token_shape C (tree_public_key tr) s"
  proof
    fix s assume "s \<in> set p"
    from leads_elements [OF assms(3,2,4) this] have "(token_hash C s, s) \<in> set (elements tr)" by (rule map_of_SomeD)
    then show "token_shape C (tree_public_key tr) s" using assms(7) by force
  qed
  have "\<forall>s \<in> set (map (nth p) ord). token_shape C (tree_public_key fresh) s"
    using s o(2) assms(8) by auto
  note u = unserialize_signed [OF this]
  have "elements (fst (gather_all C (map (nth ?ts) js) fresh)) = map (\<lambda>t. (token_hash C t, bare t)) (rev p) \<and>
      unchained (fst (gather_all C (map (nth ?ts) js) fresh)) = []"
    using g f by (simp add: o_def)
  then show ?thesis unfolding i u b by blast
qed

abbreviation no_rows :: id_database where
  "no_rows \<equiv> \<lparr>tokens_table = [], metadata_table = [], attestations_table = []\<rparr>"

text \<open>C24: A credential whose token has a path of at most 101 tokens is disclosed without an error, and who knows nothing
  of its owner and reads the disclosure ends up with the path to the token and the metadata, in whatever order the
  tokens are written.\<close>

theorem disclosure_roundtrip:
  assumes "tree_reachable (id_crypto E) (pm_tree p)" "signing (id_crypto E)" "set_order_ok E"
    and "dict_get (elements (pm_tree p)) (md_pointer m) = Some t"
    and "dict_get (elements (pm_tree p)) (genesis_hash (pm_tree p)) = None"
    and "tree_verify (id_crypto E) t 101 (pm_tree p) = Some True"
    and "\<forall>t \<in> set (dict_values (elements (pm_tree p))). token_shape (id_crypto E) (pm_key p) t"
    and "metadata_shape (id_crypto E) (pm_key p) m" "verify_metadata (id_crypto E) (pm_key p) m"
  shows "\<exists>d im correct q path. create_disclosure E [m] {} db p = Some (return d) \<and>
    substantiate E (pm_key p) d (new_identity_manager no_rows) = (im, return correct) \<and>
    dict_get (im_pseudonyms im) (pm_key p) = Some q \<and> get_root_path (id_crypto E) t 101 (pm_tree p) = Some path \<and>
    elements (pm_tree q) = map (\<lambda>t. (token_hash (id_crypto E) t, bare t)) (rev path) \<and> unchained (pm_tree q) = [] \<and>
    metadata_table (im_database im) = [(pm_key p, m)]"
proof -
  let ?C = "id_crypto E" and ?tr = "pm_tree p"
  have ok: "tree_ok ?C ?tr" "genesis_hash ?tr = sha3 ?C (pm_key p)"
    using tree_reachable_ok [OF assms(1,2)] by (simp_all add: own_key_def)
  obtain path where path: "md_pointer m = token_hash ?C t" "leads ?C ?tr t path"
    using element_leads [OF ok(1) assms(4)] by blast
  have len: "length path \<le> 101"
    using verify_loop_leads [OF path(2), of 0 101] assms(6) by (simp add: tree_verify_def)
  have root: "get_root_path ?C t 101 ?tr = Some path"
    using root_path_loop_leads [OF path(2), of 0 101 "[t]"] len leads_Cons [OF path(2)] by (simp add: get_root_path_def)
  define fresh :: "'a token_tree" where
    "fresh = \<lparr>elements = [], unchained = [], unchained_max_size = 100, tree_public_key = pm_key p,
      tree_private_key = None, genesis_hash = genesis_hash ?tr\<rparr>"
  have new: "new_tree ?C (Some (pm_key p)) None = return fresh" by (simp add: new_tree_def fresh_def ok(2))
  have elem: "dict_get (elements ?tr) (token_hash ?C t) = Some t" using assms(4) path(1) by simp
  obtain tr' r where u: "unserialize_public ?C (concat (map token_signed (iterate_set E token_signed path))) fresh = (tr', return r)"
    "elements tr' = map (\<lambda>t. (token_hash ?C t, bare t)) (rev path)" "unchained tr' = []"
    using unserialize_path_set [OF assms(3) ok(1) path(2) elem assms(5) len assms(7) fresh_def] by blast
  obtain s where s: "disclose_metadata [m] = return s"
    "load_metadata E (pm_key p) s no_rows = (fst (add_metadata E (pm_key p) m no_rows), return ())"
    using load_metadata_signed [of "[m]" E "pm_key p"] assms(8) by auto
  let ?d = "(s, concat (map token_signed (iterate_set E token_signed path)), [], [])"
  have d: "create_disclosure E [m] {} db p = Some (return ?d)"
    using s(1) disclose_tokens_leads [OF path(2) ok(1) assms(4)] len
    by (simp add: create_disclosure_def disclose_no_attestations del: disclose_metadata.simps)
  have md: "fst (add_metadata E (pm_key p) m no_rows) = no_rows\<lparr>metadata_table := [(pm_key p, m)]\<rparr>"
    using assms(9) by (simp add: add_metadata_def insert_metadata_def insert_or_ignore_def)
  have "substantiate E (pm_key p) ?d (new_identity_manager no_rows) =
      (\<lparr>im_database = no_rows\<lparr>metadata_table := [(pm_key p, m)]\<rparr>,
        im_pseudonyms = [(pm_key p, \<lparr>pm_tree = tr', pm_credentials = []\<rparr>)]\<rparr>, return r)"
    unfolding substantiate_def using get_new_pseudonym [OF new assms(3)] u(1) s(2) md by (simp add: Let_def)
  then show ?thesis using d root u(2,3) by (intro exI conjI) (assumption | simp)+
qed

section \<open>Witnesses\<close>

definition ex_env :: "(unit, string) identity_env" where
  "ex_env = \<lparr>id_crypto = ex_crypto, set_order = \<lambda>ks. rev [0..<length ks], key_from_public_bin = Inr,
     json_dumps = \<lambda>_. [], json_loads = \<lambda>_. return [(''name'', ''age''), (''date'', ''now''), (''schema'', ''id_metadata'')],
     json_string = \<lambda>s. s, json_number = \<lambda>_. ''now''\<rparr>"

lemma ex_env_simps [simp]:
  "id_crypto ex_env = ex_crypto" "json_loads ex_env b = return [(''name'', ''age''), (''date'', ''now''), (''schema'', ''id_metadata'')]"
  "json_string ex_env s = s"
  by (simp_all add: ex_env_def)

lemma ex_set_order: "set_order_ok ex_env"
  by (simp add: set_order_ok_def ex_env_def)

theorem second_authority_is_dropped_witness:
  "add_attestation ex_env [7] ([9], \<lparr>ia_pointer = [1], ia_signature = [0]\<rparr>)
     (no_rows\<lparr>attestations_table := [([7], [8], \<lparr>ia_pointer = [1], ia_signature = [1]\<rparr>)]\<rparr>) =
   (no_rows\<lparr>attestations_table := [([7], [8], \<lparr>ia_pointer = [1], ia_signature = [1]\<rparr>)]\<rparr>, True)"
  by (rule conjunct1 [OF second_authority_is_dropped [where q = "[8]" and b = "\<lparr>ia_pointer = [1], ia_signature = [1]\<rparr>"]])
    (simp_all add: verify_attestation_def ex_crypto_def)

definition ex_md :: metadata where
  "ex_md = \<lparr>md_pointer = ex_hash 3, md_json = [], md_signature = [0]\<rparr>"

definition ex_pseudonym :: "unit pseudonym" where
  "ex_pseudonym = \<lparr>pm_tree = ex_tree [(ex_hash 2, ex_token 1 0), (ex_hash 3, ex_token 2 0)], pm_credentials = []\<rparr>"

definition ex_community :: "(unit, string) identity_community" where
  "ex_community = \<lparr>ic_key = (), ic_manager = new_identity_manager no_rows,
     known_attestation_hashes = [(ex_hash 0, ''age'', 100, [7], None)], token_chain = [], metadata_chain = [],
     attestation_chain = [], permissions = []\<rparr>"

lemma ex_should_sign: "should_sign ex_env 200 ex_pseudonym ex_md ex_community = return True"
proof -
  have "get_attestations_over ex_env ex_md no_rows = []"
    by (simp add: get_attestations_over_def iterate_set_def ex_env_def Let_def)
  moreover have "tk_content_hash (ex_token 2 0) = ex_hash 0" by (simp add: ex_token_def)
  ultimately show ?thesis
    by (simp add: should_sign_def ex_pseudonym_def ex_tree_def ex_fresh_def ex_md_def ex_community_def new_identity_manager_def)
qed

theorem own_attestation_is_not_noticed_witness:
  "should_sign ex_env 200 ex_pseudonym ex_md
     (with_database (fst (add_attestation ex_env [7] (own_key_bin ex_env ex_community, \<lparr>ia_pointer = [], ia_signature = [0]\<rparr>)
        (im_database (ic_manager ex_community)))) ex_community) = return True"
  using own_attestation_is_not_noticed [OF ex_set_order, where p = ex_pseudonym and m = ex_md and c = ex_community] ex_should_sign
  by blast

theorem disclosure_fits_unless_no_room_witness:
  "disclosure_length (fit_disclosure ex_env ex_community (replicate 1250 0, replicate 130 0, [], [])) = 1380"
proof -
  have r: "(SAFE_UDP_PACKET_LENGTH - (length (replicate 1250 (0 :: byte)) + length ([] :: bytes) + length ([] :: bytes))) div
      (64 + signature_length (id_crypto ex_env) (own_key_bin ex_env ex_community)) = 0"
    by (simp add: SAFE_UDP_PACKET_LENGTH_def ex_crypto_def)
  have "fit_disclosure ex_env ex_community (replicate 1250 0, replicate 130 0, [], []) = (replicate 1250 0, replicate 130 0, [], [])"
    using disclosure_fits_unless_no_room [OF refl r [symmetric]]
    by (simp add: disclosure_length_def SAFE_UDP_PACKET_LENGTH_def)
  then show ?thesis by (simp add: disclosure_length_def)
qed

theorem disclosure_roundtrip_witness:
  "\<exists>d im correct q path. create_disclosure ex_env [ex_md] {} no_rows ex_pseudonym = Some (return d) \<and>
    substantiate ex_env (pm_key ex_pseudonym) d (new_identity_manager no_rows) = (im, return correct) \<and>
    dict_get (im_pseudonyms im) (pm_key ex_pseudonym) = Some q \<and>
    get_root_path (id_crypto ex_env) (ex_token 2 0) 101 (pm_tree ex_pseudonym) = Some path \<and>
    elements (pm_tree q) = map (\<lambda>t. (token_hash (id_crypto ex_env) t, bare t)) (rev path) \<and> unchained (pm_tree q) = [] \<and>
    metadata_table (im_database im) = [(pm_key ex_pseudonym, ex_md)]"
proof (rule disclosure_roundtrip)
  show "tree_reachable (id_crypto ex_env) (pm_tree ex_pseudonym)" using ex_tree_reachable by (simp add: ex_pseudonym_def)
  have l: "leads ex_crypto (pm_tree ex_pseudonym) (ex_token 2 0) [ex_token 2 0, ex_token 1 0]"
    using ex_leads by (simp add: ex_pseudonym_def)
  show "tree_verify (id_crypto ex_env) (ex_token 2 0) 101 (pm_tree ex_pseudonym) = Some True"
    using verify_loop_leads [OF l, of 0 101] by (simp add: tree_verify_def)
  show "metadata_shape (id_crypto ex_env) (pm_key ex_pseudonym) ex_md"
    by (simp add: metadata_shape_def ex_md_def ex_crypto_def metadata_signed_def metadata_plaintext_def)
  show "verify_metadata (id_crypto ex_env) (pm_key ex_pseudonym) ex_md"
    by (simp add: verify_metadata_def ex_md_def ex_crypto_def)
qed (simp_all add: ex_signing ex_set_order ex_pseudonym_def ex_tree_def ex_fresh_def ex_md_def)

end
