(* ===== verification/Ops.thy ===== *)
theory Ops
  imports Prelude
begin

text \<open>
  Operations that change a state and return or raise, as the handlers of the overlays do, and two calculi for them:
  \<open>keeps\<close>, what an operation keeps of the state whatever happens, and \<open>leads\<close>, what holds of the state after it.
\<close>

section \<open>Operations with a state and errors\<close>

text \<open>An operation changes the state and returns or raises; what it changed before it raised stays changed.\<close>

type_synonym ('s, 'a) op = "'s \<Rightarrow> 's \<times> 'a result"

definition op_return :: "'a \<Rightarrow> ('s, 'a) op" where
  "op_return x = (\<lambda>s. (s, return x))"

definition op_raise :: "py_error \<Rightarrow> ('s, 'a) op" where
  "op_raise e = (\<lambda>s. (s, raise e))"

definition op_bind :: "('s, 'a) op \<Rightarrow> ('a \<Rightarrow> ('s, 'b) op) \<Rightarrow> ('s, 'b) op" where
  "op_bind m f = (\<lambda>s. case m s of (s, Inl e) \<Rightarrow> (s, raise e) | (s, Inr x) \<Rightarrow> f x s)"

definition op_then :: "('s, unit) op \<Rightarrow> ('s, 'b) op \<Rightarrow> ('s, 'b) op" where
  "op_then m n = op_bind m (\<lambda>_. n)"

definition op_modify :: "('s \<Rightarrow> 's) \<Rightarrow> ('s, unit) op" where
  "op_modify f = (\<lambda>s. (f s, return ()))"

definition op_of :: "'a result \<Rightarrow> ('s, 'a) op" where
  "op_of r = (\<lambda>s. (s, r))"

definition op_state :: "('s \<Rightarrow> ('s, 'a) op) \<Rightarrow> ('s, 'a) op" where
  "op_state f = (\<lambda>s. f s s)"

definition op_when :: "bool \<Rightarrow> ('s, unit) op \<Rightarrow> ('s, unit) op" where
  "op_when b m = (if b then m else op_return ())"

text \<open>A handler whose exceptions are logged.\<close>

definition op_logged :: "('s, unit) op \<Rightarrow> ('s, unit) op" where
  "op_logged m = (\<lambda>s. (fst (m s), return ()))"

definition op_catch :: "('s, 'a) op \<Rightarrow> (py_error \<Rightarrow> ('s, 'a) op) \<Rightarrow> ('s, 'a) op" where
  \<comment> \<open>\<^verbatim>\<open>try: m, except: h\<close>\<close>
  "op_catch m h = (\<lambda>s. case m s of (s, Inl e) \<Rightarrow> h e s | (s, Inr x) \<Rightarrow> (s, return x))"

fun op_for :: "('a \<Rightarrow> ('s, unit) op) \<Rightarrow> 'a list \<Rightarrow> ('s, unit) op" where
  "op_for f [] = op_return ()"
| "op_for f (x # xs) = op_then (f x) (op_for f xs)"

section \<open>Reasoning about operations\<close>

text \<open>An operation keeps a property of the state, whether it returns or raises.\<close>

definition keeps :: "('s \<Rightarrow> bool) \<Rightarrow> ('s, 'a) op \<Rightarrow> bool" where
  "keeps P m \<longleftrightarrow> (\<forall>s. P s \<longrightarrow> P (fst (m s)))"

named_theorems keeps_intros

lemma keepsI: "(\<And>s. P s \<Longrightarrow> P (fst (m s))) \<Longrightarrow> keeps P m"
  by (simp add: keeps_def)

lemma keepsD: "keeps P m \<Longrightarrow> P s \<Longrightarrow> P (fst (m s))"
  by (simp add: keeps_def)

lemma keeps_return [keeps_intros]: "keeps P (op_return x)"
  by (simp add: keeps_def op_return_def)

lemma keeps_raise [keeps_intros]: "keeps P (op_raise e)"
  by (simp add: keeps_def op_raise_def)

lemma keeps_of [keeps_intros]: "keeps P (op_of r)"
  by (simp add: keeps_def op_of_def)

lemma keeps_bind [keeps_intros]:
  assumes "keeps P m" "\<And>x. keeps P (f x)"
  shows "keeps P (op_bind m f)"
proof (rule keepsI)
  fix s assume "P s"
  then have p: "P (fst (m s))" by (rule keepsD [OF assms(1)])
  show "P (fst (op_bind m f s))"
    using p keepsD [OF assms(2) p] by (auto simp: op_bind_def split: prod.split sum.split)
qed

lemma keeps_then [keeps_intros]: "keeps P m \<Longrightarrow> keeps P n \<Longrightarrow> keeps P (op_then m n)"
  by (simp add: op_then_def keeps_bind)

lemma keeps_state [keeps_intros]: "(\<And>s. P s \<Longrightarrow> keeps P (f s)) \<Longrightarrow> keeps P (op_state f)"
  by (simp add: keeps_def op_state_def)

lemma keeps_modify [keeps_intros]: "(\<And>s. P s \<Longrightarrow> P (f s)) \<Longrightarrow> keeps P (op_modify f)"
  by (simp add: keeps_def op_modify_def)

lemma keeps_when [keeps_intros]: "(b \<Longrightarrow> keeps P m) \<Longrightarrow> keeps P (op_when b m)"
  by (simp add: op_when_def keeps_return)

lemma keeps_logged [keeps_intros]: "keeps P m \<Longrightarrow> keeps P (op_logged m)"
  by (simp add: keeps_def op_logged_def)

lemma keeps_catch [keeps_intros]:
  assumes "keeps P m" "\<And>e. keeps P (h e)"
  shows "keeps P (op_catch m h)"
proof (rule keepsI)
  fix s assume "P s"
  then have p: "P (fst (m s))" by (rule keepsD [OF assms(1)])
  show "P (fst (op_catch m h s))"
    using p keepsD [OF assms(2) p] by (auto simp: op_catch_def split: prod.split sum.split)
qed

lemma keeps_for [keeps_intros]: "(\<And>x. x \<in> set xs \<Longrightarrow> keeps P (f x)) \<Longrightarrow> keeps P (op_for f xs)"
  by (induction xs) (auto intro: keeps_intros)

lemma keeps_if [keeps_intros]: "(b \<Longrightarrow> keeps P m) \<Longrightarrow> (\<not> b \<Longrightarrow> keeps P n) \<Longrightarrow> keeps P (if b then m else n)"
  by simp

lemma keeps_Let [keeps_intros]: "(\<And>x. x = e \<Longrightarrow> keeps P (f x)) \<Longrightarrow> keeps P (Let e f)"
  by simp

lemma keeps_option [keeps_intros]:
  "(x = None \<Longrightarrow> keeps P a) \<Longrightarrow> (\<And>y. x = Some y \<Longrightarrow> keeps P (f y)) \<Longrightarrow> keeps P (case_option a f x)"
  by (cases x) simp_all

lemma keeps_list [keeps_intros]:
  "(x = [] \<Longrightarrow> keeps P a) \<Longrightarrow> (\<And>y ys. x = y # ys \<Longrightarrow> keeps P (f y ys)) \<Longrightarrow> keeps P (case_list a f x)"
  by (cases x) simp_all

lemma keeps_prod [keeps_intros]: "(\<And>y z. x = (y, z) \<Longrightarrow> keeps P (f y z)) \<Longrightarrow> keeps P (case_prod f x)"
  by (cases x) simp_all

lemma keeps_sum [keeps_intros]:
  "(\<And>y. x = Inl y \<Longrightarrow> keeps P (f y)) \<Longrightarrow> (\<And>y. x = Inr y \<Longrightarrow> keeps P (g y)) \<Longrightarrow> keeps P (case_sum f g x)"
  by (cases x) simp_all

text \<open>From one property to another one: operations that keep the first may come before.\<close>

definition leads :: "('s \<Rightarrow> bool) \<Rightarrow> ('s \<Rightarrow> bool) \<Rightarrow> ('s, 'a) op \<Rightarrow> bool" where
  "leads P Q m \<longleftrightarrow> (\<forall>s. P s \<longrightarrow> Q (fst (m s)))"

lemma leads_bind:
  assumes "keeps P m" "\<And>s. P s \<Longrightarrow> Q s" "\<And>x. leads P Q (f x)"
  shows "leads P Q (op_bind m f)"
  unfolding leads_def
proof (intro allI impI)
  fix s assume "P s"
  then have p: "P (fst (m s))" by (rule keepsD [OF assms(1)])
  show "Q (fst (op_bind m f s))"
    using p assms(2) assms(3) unfolding leads_def by (auto simp: op_bind_def split: prod.split sum.split)
qed

lemma leads_then:
  assumes "leads P Q m" "keeps Q n"
  shows "leads P Q (op_then m n)"
  unfolding leads_def
proof (intro allI impI)
  fix s assume "P s"
  then have p: "Q (fst (m s))" using assms(1) by (simp add: leads_def)
  show "Q (fst (op_then m n s))"
    using p keepsD [OF assms(2) p] by (auto simp: op_then_def op_bind_def split: prod.split sum.split)
qed

lemma leads_keeps: "keeps P m \<Longrightarrow> (\<And>s. P s \<Longrightarrow> Q s) \<Longrightarrow> leads P Q m"
  by (simp add: leads_def keeps_def)

lemma leads_state: "(\<And>s. P s \<Longrightarrow> leads P Q (f s)) \<Longrightarrow> leads P Q (op_state f)"
  by (simp add: leads_def op_state_def)

lemma keeps_here: "(\<And>s. P s \<Longrightarrow> P (fst (f s s))) \<Longrightarrow> keeps P (op_state f)"
  by (simp add: keeps_def op_state_def)

end
