(* ===== verification/Tunnel.thy ===== *)
theory Tunnel
  imports Payloads
begin

text \<open>
  Circuits, relays and exit sockets and the endpoint that encrypts, relays and decrypts their cells
  (\<^verbatim>\<open>ipv8/messaging/anonymization/tunnel.py\<close> and \<^verbatim>\<open>crypto.py\<close>). Peers are their public key and their
  address. The objects with session keys are shared between hops: they live in a list, and hops hold their
  positions. The authenticated encryption of libnacl is the argument \<open>aead\<close>; it fails with a
  \<^verbatim>\<open>ValueError\<close>.
\<close>

section \<open>Session keys\<close>

datatype direction = FORWARD | BACKWARD

record session_keys =
  key_forward :: bytes
  key_backward :: bytes
  salt_forward :: bytes
  salt_backward :: bytes
  salt_explicit_forward :: int
  salt_explicit_backward :: int

record aead =
  aead_encrypt :: "bytes \<Rightarrow> bytes \<Rightarrow> bytes \<Rightarrow> bytes option"
  aead_decrypt :: "bytes \<Rightarrow> bytes \<Rightarrow> bytes \<Rightarrow> bytes option"

definition direction_key :: "direction \<Rightarrow> session_keys \<Rightarrow> bytes" where
  "direction_key d k = (case d of FORWARD \<Rightarrow> key_forward k | BACKWARD \<Rightarrow> key_backward k)"

definition direction_salt :: "direction \<Rightarrow> session_keys \<Rightarrow> bytes" where
  "direction_salt d k = (case d of FORWARD \<Rightarrow> salt_forward k | BACKWARD \<Rightarrow> salt_backward k)"

definition next_salt :: "direction \<Rightarrow> session_keys \<Rightarrow> int \<times> session_keys" where
  "next_salt d k =
     (case d of
        FORWARD \<Rightarrow> (salt_explicit_forward k + 1, k\<lparr>salt_explicit_forward := salt_explicit_forward k + 1\<rparr>)
      | BACKWARD \<Rightarrow> (salt_explicit_backward k + 1, k\<lparr>salt_explicit_backward := salt_explicit_backward k + 1\<rparr>))"

definition encrypt_str :: "aead \<Rightarrow> bytes \<Rightarrow> direction \<Rightarrow> session_keys \<Rightarrow> session_keys \<times> bytes result" where
  "encrypt_str A content d k =
     (let (explicit, k) = next_salt d k
      in (k,
          bind_result (pack_struct [SInt 8] [PInt explicit]) (\<lambda>e.
            case aead_encrypt A (direction_key d k) (direction_salt d k @ e) content of
              None \<Rightarrow> raise ValueError | Some c \<Rightarrow> return (e @ c))))"

text \<open>The nonce has twelve bytes: the salt and the number in front of the content.\<close>

definition decrypt_str :: "aead \<Rightarrow> bytes \<Rightarrow> direction \<Rightarrow> session_keys \<Rightarrow> bytes result" where
  "decrypt_str A content d k =
     (if length content < 24 then raise CryptoException
      else
        let data = direction_salt d k @ content
        in case aead_decrypt A (direction_key d k) (take 12 data) (drop 12 data) of
             None \<Rightarrow> raise ValueError | Some m \<Rightarrow> return m)"

text \<open>\<open>hkdf\<close> derives 72 bytes from a shared secret.\<close>

definition generate_session_keys :: "(bytes \<Rightarrow> bytes) \<Rightarrow> bytes \<Rightarrow> session_keys" where
  "generate_session_keys hkdf secret =
     (let key = hkdf secret
      in \<lparr>key_forward = take 32 (drop 32 key), key_backward = take 32 key, salt_forward = take 4 (drop 68 key),
          salt_backward = take 4 (drop 64 key), salt_explicit_forward = 1, salt_explicit_backward = 1\<rparr>)"

section \<open>Routing objects\<close>

record tpeer =
  tp_key :: bytes
  tp_address :: address

definition tpeer_eq :: "tpeer \<Rightarrow> tpeer \<Rightarrow> bool" where
  "tpeer_eq p q \<longleftrightarrow> tp_key p = tp_key q"

record hop =
  hop_peer :: tpeer
  hop_keys :: "nat option"
  hop_flags :: "int list option"
  dh_first_part :: "bytes option"
  dh_secret :: "bytes option"

definition plain_hop :: "tpeer \<Rightarrow> nat option \<Rightarrow> hop" where
  "plain_hop p k = \<lparr>hop_peer = p, hop_keys = k, hop_flags = None, dh_first_part = None, dh_secret = None\<rparr>"

abbreviation hop_address :: "hop \<Rightarrow> address" where
  "hop_address h \<equiv> tp_address (hop_peer h)"

record routing_object =
  ro_id :: int
  creation_time :: seconds
  last_activity :: seconds
  bytes_up :: nat
  bytes_down :: nat

definition beat_heart :: "seconds \<Rightarrow> 'a routing_object_scheme \<Rightarrow> 'a routing_object_scheme" where
  "beat_heart now r = r\<lparr>last_activity := now\<rparr>"

datatype circuit_type = CIRCUIT_TYPE_DATA | CIRCUIT_TYPE_IP_SEEDER | CIRCUIT_TYPE_RP_SEEDER | CIRCUIT_TYPE_RP_DOWNLOADER

datatype circuit_state = CIRCUIT_STATE_READY | CIRCUIT_STATE_EXTENDING | CIRCUIT_STATE_CLOSING

text \<open>The future \<^verbatim>\<open>ready\<close>: pending, or done with the circuit or with nothing.\<close>

datatype circuit_ready = ReadyPending | ReadyCircuit | ReadyNone

record circuit = routing_object +
  goal_hops :: nat
  ctype :: circuit_type
  required_exit :: "tpeer option"
  info_hash :: "bytes option"
  ready_state :: circuit_ready
  closing_info :: string
  closing :: bool
  hops :: "hop list"
  unverified_hop :: "hop option"
  hs_session_keys :: "nat option"
  e2e :: bool
  relay_early_count :: nat
  dirty :: bool

definition new_circuit ::
  "seconds \<Rightarrow> int \<Rightarrow> nat \<Rightarrow> circuit_type \<Rightarrow> tpeer option \<Rightarrow> bytes option \<Rightarrow> circuit" where
  "new_circuit now i goal t exit_peer hash =
     \<lparr>ro_id = i, creation_time = now, last_activity = now, bytes_up = 0, bytes_down = 0, goal_hops = goal, ctype = t,
      required_exit = exit_peer, info_hash = hash, ready_state = ReadyPending, closing_info = [], closing = False,
      hops = [], unverified_hop = None, hs_session_keys = None, e2e = False, relay_early_count = 0, dirty = False\<rparr>"

definition state_of_circuit :: "circuit \<Rightarrow> circuit_state" where
  "state_of_circuit c =
     (if closing c then CIRCUIT_STATE_CLOSING
      else if length (hops c) < goal_hops c then CIRCUIT_STATE_EXTENDING
      else CIRCUIT_STATE_READY)"

text \<open>Setting the result of a future that is done raises, with the hop added.\<close>

definition add_hop :: "hop \<Rightarrow> circuit \<Rightarrow> circuit \<times> unit result" where
  "add_hop h c =
     (let c = c\<lparr>hops := hops c @ [h]\<rparr>
      in if state_of_circuit c = CIRCUIT_STATE_READY then
           if ready_state c \<noteq> ReadyPending then (c, raise InvalidStateError)
           else (c\<lparr>ready_state := ReadyCircuit, dirty := True\<rparr>, return ())
         else (c\<lparr>dirty := True\<rparr>, return ()))"

definition set_hs_session_keys :: "nat \<Rightarrow> circuit \<Rightarrow> circuit" where
  "set_hs_session_keys k c = c\<lparr>hs_session_keys := Some k, dirty := True\<rparr>"

definition first_hop :: "circuit \<Rightarrow> hop option" where
  "first_hop c = (case hops c of h # _ \<Rightarrow> Some h | [] \<Rightarrow> unverified_hop c)"

definition exit_flags :: "circuit \<Rightarrow> int list" where
  "exit_flags c = (if hops c = [] then [] else case hop_flags (last (hops c)) of None \<Rightarrow> [] | Some fs \<Rightarrow> fs)"

definition close_circuit :: "string \<Rightarrow> circuit \<Rightarrow> circuit" where
  "close_circuit info c =
     c\<lparr>closing_info := info, closing := True,
       ready_state := (if ready_state c = ReadyPending then ReadyNone else ready_state c)\<rparr>"

record relay_route = routing_object +
  relay_hop :: hop
  relay_direction :: direction
  rendezvous_relay :: bool
  relay_cells :: nat

definition new_relay :: "seconds \<Rightarrow> int \<Rightarrow> hop \<Rightarrow> direction \<Rightarrow> bool \<Rightarrow> relay_route" where
  "new_relay now i h d rendezvous =
     \<lparr>ro_id = i, creation_time = now, last_activity = now, bytes_up = 0, bytes_down = 0, relay_hop = h,
      relay_direction = d, rendezvous_relay = rendezvous, relay_cells = 1\<rparr>"

record exit_socket = routing_object +
  exit_hop :: hop
  exit_enabled :: bool
  exit_ipv4 :: bool
  exit_ipv6 :: bool
  exit_queue :: "(bytes \<times> address) list"

section \<open>The endpoint\<close>

record crypto_endpoint =
  ce_prefix :: bytes
  ce_max_relay_early :: "int option"
  ce_keys :: "session_keys list"
  circuits :: "(int, circuit) dict"
  relays :: "(int, relay_route) dict"
  exit_sockets :: "(int, exit_socket) dict"
  ce_community :: bool

text \<open>What an endpoint sends: a packet to an address.\<close>

type_synonym packet = "address \<times> bytes"

definition max_relay_early :: "'a crypto_endpoint_scheme \<Rightarrow> int" where
  "max_relay_early e = (case ce_max_relay_early e of None \<Rightarrow> 8 | Some n \<Rightarrow> n)"

definition is_extend :: "cell \<Rightarrow> bool result" where
  "is_extend c = (case message c of [] \<Rightarrow> raise IndexError | b # _ \<Rightarrow> return (b = 4))"

text \<open>A layer of encryption; a \<^verbatim>\<open>ValueError\<close> becomes a \<^verbatim>\<open>CryptoException\<close>.\<close>

definition crypto_error :: "'a result \<Rightarrow> 'a result" where
  "crypto_error r = (case r of Inl ValueError \<Rightarrow> raise CryptoException | _ \<Rightarrow> r)"

definition encrypt_layer ::
  "aead \<Rightarrow> direction \<Rightarrow> hop \<Rightarrow> session_keys list \<Rightarrow> bytes \<Rightarrow> session_keys list \<times> bytes result" where
  "encrypt_layer A d h ks m =
     (case hop_keys h of
        None \<Rightarrow> (ks, raise CryptoException)
      | Some i \<Rightarrow> let (k, r) = encrypt_str A m d (ks ! i) in (ks[i := k], crypto_error r))"

fun encrypt_layers ::
  "aead \<Rightarrow> direction \<Rightarrow> hop list \<Rightarrow> session_keys list \<Rightarrow> bytes \<Rightarrow> session_keys list \<times> bytes result" where
  "encrypt_layers A d [] ks m = (ks, return m)"
| "encrypt_layers A d (h # hs) ks m =
     (case encrypt_layer A d h ks m of
        (ks, Inl e) \<Rightarrow> (ks, raise e) | (ks, Inr m) \<Rightarrow> encrypt_layers A d hs ks m)"

definition encrypt_cell ::
  "aead \<Rightarrow> direction \<Rightarrow> hop list \<Rightarrow> session_keys list \<Rightarrow> cell \<Rightarrow> session_keys list \<times> cell result" where
  "encrypt_cell A d hs ks c =
     (if plaintext c then (ks, return c)
      else
        let (ks, r) = encrypt_layers A d (rev hs) ks (message c)
        in (ks, bind_result r (\<lambda>m. return (c\<lparr>message := m\<rparr>))))"

fun decrypt_layers :: "aead \<Rightarrow> direction \<Rightarrow> hop list \<Rightarrow> session_keys list \<Rightarrow> bytes \<Rightarrow> bytes result" where
  "decrypt_layers A d [] ks m = return m"
| "decrypt_layers A d (h # hs) ks m =
     (case hop_keys h of
        None \<Rightarrow> raise CryptoException
      | Some i \<Rightarrow> bind_result (crypto_error (decrypt_str A m d (ks ! i))) (decrypt_layers A d hs ks))"

definition decrypt_cell :: "aead \<Rightarrow> direction \<Rightarrow> hop list \<Rightarrow> session_keys list \<Rightarrow> cell \<Rightarrow> cell result" where
  "decrypt_cell A d hs ks c =
     (if plaintext c then return c
      else bind_result (decrypt_layers A d hs ks (message c)) (\<lambda>m. return (c\<lparr>message := m\<rparr>)))"

text \<open>
  \<^verbatim>\<open>outgoing_crypto\<close> and \<^verbatim>\<open>incoming_crypto\<close>: a \<^verbatim>\<open>CryptoException\<close> gives no cell; other exceptions are
  raised.
\<close>

definition caught :: "cell result \<Rightarrow> cell option result" where
  "caught r = (case r of Inl CryptoException \<Rightarrow> return None | Inl e \<Rightarrow> raise e | Inr c \<Rightarrow> return (Some c))"

definition hs_hop :: "circuit \<Rightarrow> nat \<Rightarrow> hop result" where
  "hs_hop c k = (case first_hop c of None \<Rightarrow> raise AttributeError | Some h \<Rightarrow> return (plain_hop (hop_peer h) (Some k)))"

definition encrypt_circuit ::
  "aead \<Rightarrow> circuit \<Rightarrow> session_keys list \<Rightarrow> cell \<Rightarrow> session_keys list \<times> cell result" where
  "encrypt_circuit A c ks cl =
     (case hs_session_keys c of
        None \<Rightarrow> encrypt_cell A FORWARD (hops c) ks cl
      | Some k \<Rightarrow>
          (case hs_hop c k of
             Inl e \<Rightarrow> (ks, raise e)
           | Inr h \<Rightarrow>
               (case encrypt_cell A (if ctype c = CIRCUIT_TYPE_RP_SEEDER then FORWARD else BACKWARD) [h] ks cl of
                  (ks, Inl e) \<Rightarrow> (ks, raise e)
                | (ks, Inr cl) \<Rightarrow> encrypt_cell A FORWARD (hops c) ks cl)))"

definition outgoing_crypto ::
  "aead \<Rightarrow> cell \<Rightarrow> 'a crypto_endpoint_scheme \<Rightarrow> 'a crypto_endpoint_scheme \<times> cell option result" where
  "outgoing_crypto A cl e =
     (let (ks, r) =
        (case dict_get (circuits e) (circuit_id cl) of
           Some c \<Rightarrow> encrypt_circuit A c (ce_keys e) cl
         | None \<Rightarrow>
             (case dict_get (exit_sockets e) (circuit_id cl) of
                Some x \<Rightarrow> encrypt_cell A BACKWARD [exit_hop x] (ce_keys e) cl
              | None \<Rightarrow>
                  (case dict_get (relays e) (circuit_id cl) of
                     None \<Rightarrow> (ce_keys e, return cl)
                   | Some r \<Rightarrow>
                       if rendezvous_relay r then encrypt_cell A BACKWARD [relay_hop r] (ce_keys e) cl
                       else
                         (case dict_get (relays e) (ro_id r) of
                            None \<Rightarrow> (ce_keys e, raise KeyError)
                          | Some other \<Rightarrow> encrypt_cell A (relay_direction other) [relay_hop other] (ce_keys e) cl))))
      in (e\<lparr>ce_keys := ks\<rparr>, caught r))"

definition decrypt_circuit :: "aead \<Rightarrow> circuit \<Rightarrow> session_keys list \<Rightarrow> cell \<Rightarrow> cell result" where
  "decrypt_circuit A c ks cl =
     bind_result (decrypt_cell A BACKWARD (hops c) ks cl) (\<lambda>cl.
       case hs_session_keys c of
         None \<Rightarrow> return cl
       | Some k \<Rightarrow>
           bind_result (hs_hop c k) (\<lambda>h.
             decrypt_cell A (if ctype c = CIRCUIT_TYPE_RP_DOWNLOADER then FORWARD else BACKWARD) [h] ks cl))"

definition incoming_crypto :: "aead \<Rightarrow> cell \<Rightarrow> 'a crypto_endpoint_scheme \<Rightarrow> cell option result" where
  "incoming_crypto A cl e =
     (case (dict_get (exit_sockets e) (circuit_id cl), dict_get (circuits e) (circuit_id cl)) of
        (Some x, _) \<Rightarrow> caught (decrypt_cell A FORWARD [exit_hop x] (ce_keys e) cl)
      | (None, Some c) \<Rightarrow> caught (decrypt_circuit A c (ce_keys e) cl)
      | (None, None) \<Rightarrow> if plaintext cl then return (Some cl) else return None)"

section \<open>Sending, relaying and receiving\<close>

definition update_circuit :: "int \<Rightarrow> (circuit \<Rightarrow> circuit) \<Rightarrow> 'a crypto_endpoint_scheme \<Rightarrow> 'a crypto_endpoint_scheme" where
  "update_circuit i f e =
     (case dict_get (circuits e) i of None \<Rightarrow> e | Some c \<Rightarrow> e\<lparr>circuits := dict_set i (f c) (circuits e)\<rparr>)"

definition update_relay ::
  "int \<Rightarrow> (relay_route \<Rightarrow> relay_route) \<Rightarrow> 'a crypto_endpoint_scheme \<Rightarrow> 'a crypto_endpoint_scheme" where
  "update_relay i f e =
     (case dict_get (relays e) i of None \<Rightarrow> e | Some r \<Rightarrow> e\<lparr>relays := dict_set i (f r) (relays e)\<rparr>)"

text \<open>\<^verbatim>\<open>send_cell\<close> up to the encryption: the flag and the count of the circuit.\<close>

definition mark_relay_early ::
  "cell \<Rightarrow> 'a crypto_endpoint_scheme \<Rightarrow> ('a crypto_endpoint_scheme \<times> cell) result" where
  "mark_relay_early cl e =
     (case dict_get (circuits e) (circuit_id cl) of
        None \<Rightarrow> return (e, cl)
      | Some c \<Rightarrow>
          bind_result (is_extend cl) (\<lambda>x.
            let early = (x \<or> int (relay_early_count c) < max_relay_early e)
            in return
                 (if early
                  then update_circuit (circuit_id cl) (\<lambda>c. c\<lparr>relay_early_count := relay_early_count c + 1\<rparr>) e
                  else e,
                  cl\<lparr>relay_early := early\<rparr>)))"

definition count_sent :: "int \<Rightarrow> nat \<Rightarrow> 'a crypto_endpoint_scheme \<Rightarrow> 'a crypto_endpoint_scheme" where
  "count_sent i n e =
     (if dict_get (circuits e) i \<noteq> None then update_circuit i (\<lambda>c. c\<lparr>bytes_up := bytes_up c + n\<rparr>) e
      else update_relay i (\<lambda>r. r\<lparr>bytes_up := bytes_up r + n\<rparr>) e)"

definition send_cell ::
  "aead \<Rightarrow> address \<Rightarrow> cell \<Rightarrow> 'a crypto_endpoint_scheme \<Rightarrow> 'a crypto_endpoint_scheme \<times> packet list \<times> unit result" where
  "send_cell A target cl e =
     (case mark_relay_early cl e of
        Inl err \<Rightarrow> (e, [], raise err)
      | Inr (e, cl) \<Rightarrow>
          (case outgoing_crypto A cl e of
             (e, Inl err) \<Rightarrow> (e, [], raise err)
           | (e, Inr None) \<Rightarrow> (e, [], return ())
           | (e, Inr (Some cl)) \<Rightarrow>
               (case cell_to_bin (ce_prefix e) cl of
                  Inl err \<Rightarrow> (e, [], raise err)
                | Inr packet \<Rightarrow> (count_sent (circuit_id cl) (length packet) e, [(target, packet)], return ()))))"

text \<open>The cryptography of \<^verbatim>\<open>relay_cell\<close>: what is sent on, if anything.\<close>

definition relay_crypto ::
  "aead \<Rightarrow> relay_route \<Rightarrow> cell \<Rightarrow> 'a crypto_endpoint_scheme \<Rightarrow> session_keys list \<times> cell result" where
  "relay_crypto A r cl e =
     (if rendezvous_relay r then
        (case decrypt_cell A FORWARD [relay_hop r] (ce_keys e) cl of
           Inl err \<Rightarrow> (ce_keys e, raise err)
         | Inr cl \<Rightarrow>
             (case dict_get (relays e) (ro_id r) of
                None \<Rightarrow> (ce_keys e, raise KeyError)
              | Some this_relay \<Rightarrow>
                  (let (ks, x) = encrypt_cell A BACKWARD [relay_hop this_relay] (ce_keys e) cl
                   in (ks, bind_result x (\<lambda>cl. return (cl\<lparr>relay_early := False\<rparr>))))))
      else
        case relay_direction r of
          FORWARD \<Rightarrow> (ce_keys e, decrypt_cell A FORWARD [relay_hop r] (ce_keys e) cl)
        | BACKWARD \<Rightarrow> encrypt_cell A BACKWARD [relay_hop r] (ce_keys e) cl)"

definition relay_cell ::
  "aead \<Rightarrow> cell \<Rightarrow> 'a crypto_endpoint_scheme \<Rightarrow> 'a crypto_endpoint_scheme \<times> packet list \<times> unit result" where
  "relay_cell A cl e =
     (if plaintext cl then (e, [], return ())
      else
        case dict_get (relays e) (circuit_id cl) of
          None \<Rightarrow> (e, [], raise KeyError)
        | Some r \<Rightarrow>
            if relay_early cl \<and> max_relay_early e \<le> int (relay_cells r) then (e, [], return ())
            else
              let (ks, x) = relay_crypto A r cl e; e = e\<lparr>ce_keys := ks\<rparr>
              in (case caught x of
                    Inl err \<Rightarrow> (e, [], raise err)
                  | Inr None \<Rightarrow> (e, [], return ())
                  | Inr (Some out) \<Rightarrow>
                      (case cell_to_bin (ce_prefix e) (out\<lparr>circuit_id := ro_id r\<rparr>) of
                         Inl err \<Rightarrow> (e, [], raise err)
                       | Inr packet \<Rightarrow>
                           (update_relay (circuit_id cl)
                              (\<lambda>r. r\<lparr>bytes_up := bytes_up r + length packet, relay_cells := relay_cells r + 1\<rparr>) e,
                            [(hop_address (relay_hop r), packet)], return ()))))"

text \<open>
  \<^verbatim>\<open>process_cell\<close>: cells of a relay are sent on; the others are decrypted, checked and given to the
  community, the argument \<open>deliver\<close>. The activity of the circuit is recorded afterwards.
\<close>

definition cell_allowed :: "cell \<Rightarrow> 'a crypto_endpoint_scheme \<Rightarrow> bool result" where
  "cell_allowed cl e =
     bind_result (is_extend cl) (\<lambda>x.
       return (\<not> ((\<not> relay_early cl \<and> x) \<or> max_relay_early e \<le> 0) \<and>
         \<not> (plaintext cl \<and> unat (hd (message cl)) \<notin> set NO_CRYPTO_PACKETS)))"

definition process_cell ::
  "aead \<Rightarrow> seconds \<Rightarrow>
   (packet \<Rightarrow> 'a crypto_endpoint_scheme \<Rightarrow> 'a crypto_endpoint_scheme \<times> packet list \<times> unit result) \<Rightarrow>
   packet \<Rightarrow> 'a crypto_endpoint_scheme \<Rightarrow> 'a crypto_endpoint_scheme \<times> packet list \<times> unit result" where
  "process_cell A now deliver = (\<lambda>(source, data) e.
     case cell_from_bin data of
       Inl err \<Rightarrow> (e, [], raise err)
     | Inr cl \<Rightarrow>
         (case dict_get (relays e) (circuit_id cl) of
            Some next_relay \<Rightarrow>
              relay_cell A cl
                (update_relay (ro_id next_relay)
                  (\<lambda>r. (beat_heart now r)\<lparr>bytes_down := bytes_down r + length data\<rparr>) e)
          | None \<Rightarrow>
              (case incoming_crypto A cl e of
                 Inl err \<Rightarrow> (e, [], raise err)
               | Inr None \<Rightarrow> (e, [], return ())
               | Inr (Some cl) \<Rightarrow>
                   (case cell_allowed cl e of
                      Inl err \<Rightarrow> (e, [], raise err)
                    | Inr False \<Rightarrow> (e, [], return ())
                    | Inr True \<Rightarrow>
                        if \<not> ce_community e then (e, [], return ())
                        else
                          (case cell_to_bin (ce_prefix e) cl of
                             Inl err \<Rightarrow> (e, [], raise err)
                           | Inr packet \<Rightarrow>
                               (case deliver (source, packet) e of
                                  (e, out, Inl err) \<Rightarrow> (e, out, raise err)
                                | (e, out, Inr _) \<Rightarrow>
                                    (update_circuit (circuit_id cl)
                                       (\<lambda>c. (beat_heart now c)\<lparr>bytes_down := bytes_down c + length data\<rparr>) e,
                                     out, return ())))))))"

definition endpoint_on_packet ::
  "aead \<Rightarrow> seconds \<Rightarrow>
   (packet \<Rightarrow> 'a crypto_endpoint_scheme \<Rightarrow> 'a crypto_endpoint_scheme \<times> packet list \<times> unit result) \<Rightarrow>
   packet \<Rightarrow> 'a crypto_endpoint_scheme \<Rightarrow> 'a crypto_endpoint_scheme \<times> packet list \<times> unit result" where
  "endpoint_on_packet A now deliver = (\<lambda>(source, data) e.
     if take (length (ce_prefix e)) data = ce_prefix e \<and> length data \<le> 22 then (e, [], raise IndexError)
     else if take (length (ce_prefix e)) data = ce_prefix e \<and> data ! 22 = CELL_MSG_ID
       then process_cell A now deliver (source, data) e
     else if ce_community e then deliver (source, data) e
     else (e, [], return ()))"

end
