(* ===== verification/TunnelCommunity.thy ===== *)
theory TunnelCommunity
  imports Ops Tunnel Network RequestCache
begin

text \<open>
  The tunnel overlay (\<^verbatim>\<open>ipv8/messaging/anonymization/community.py\<close>, \<^verbatim>\<open>caches.py\<close>, \<^verbatim>\<open>exit_socket.py\<close>): its
  messages, state, operations and handlers, and the event loop that runs its coroutines. A circuit is named by its
  identifier; a cache by what it is registered with.
\<close>

section \<open>Messages\<close>

text \<open>The messages inside cells: the circuit, and the fields of their payloads.\<close>

datatype tunnel_message =
    MData int address address bytes
  | MCreate int int bytes bytes
  | MCreated int int bytes bytes bytes
  | MExtend int int bytes bytes address
  | MExtended int int bytes bytes bytes
  | MPing int int
  | MPong int int
  | MTestRequest int int int bytes
  | MTestResponse int int bytes

fun message_spec :: "tunnel_message \<Rightarrow> payload_spec" where
  "message_spec (MData _ _ _ _) = tunnel_DataPayload"
| "message_spec (MCreate _ _ _ _) = tunnel_CreatePayload"
| "message_spec (MCreated _ _ _ _ _) = tunnel_CreatedPayload"
| "message_spec (MExtend _ _ _ _ _) = tunnel_ExtendPayload"
| "message_spec (MExtended _ _ _ _ _) = tunnel_ExtendedPayload"
| "message_spec (MPing _ _) = tunnel_PingPayload"
| "message_spec (MPong _ _) = tunnel_PongPayload"
| "message_spec (MTestRequest _ _ _ _) = tunnel_TestRequestPayload"
| "message_spec (MTestResponse _ _ _) = tunnel_TestResponsePayload"

fun message_circuit :: "tunnel_message \<Rightarrow> int" where
  "message_circuit (MData c _ _ _) = c"
| "message_circuit (MCreate c _ _ _) = c"
| "message_circuit (MCreated c _ _ _ _) = c"
| "message_circuit (MExtend c _ _ _ _) = c"
| "message_circuit (MExtended c _ _ _ _) = c"
| "message_circuit (MPing c _) = c"
| "message_circuit (MPong c _) = c"
| "message_circuit (MTestRequest c _ _ _) = c"
| "message_circuit (MTestResponse c _ _) = c"

fun message_values :: "tunnel_message \<Rightarrow> pyval list" where
  "message_values (MData c d a x) = [PInt c, address_value d, address_value a, PBytes x]"
| "message_values (MCreate c i k x) = [PInt c, PInt i, PBytes k, PBytes x]"
| "message_values (MCreated c i k a x) = [PInt c, PInt i, PBytes k, PBytes a, PBytes x]"
| "message_values (MExtend c i k x a) = [PInt c, PInt i, PBytes k, PBytes x, address_value a]"
| "message_values (MExtended c i k a x) = [PInt c, PInt i, PBytes k, PBytes a, PBytes x]"
| "message_values (MPing c i) = [PInt c, PInt i]"
| "message_values (MPong c i) = [PInt c, PInt i]"
| "message_values (MTestRequest c i n x) = [PInt c, PInt i, PInt n, PBytes x]"
| "message_values (MTestResponse c i x) = [PInt c, PInt i, PBytes x]"

text \<open>An address that was read; the text of its host outside ASCII is not told apart.\<close>

definition wire_address :: "pyval \<Rightarrow> address" where
  "wire_address v =
     (case v of
        PAddr c h p \<Rightarrow> Address c (map (\<lambda>u. if u < 128 then char_of u else CHR ''?'') h) p
      | _ \<Rightarrow> Address PlainTuple [] 0)"

definition message_of :: "nat \<Rightarrow> pyval list \<Rightarrow> tunnel_message option" where
  "message_of n vs =
     (case vs of
        [PInt c, PInt i] \<Rightarrow> if n = 6 then Some (MPing c i) else if n = 7 then Some (MPong c i) else None
      | [PInt c, PInt i, PBytes x] \<Rightarrow> if n = 20 then Some (MTestResponse c i x) else None
      | [PInt c, PInt i, PInt r, PBytes x] \<Rightarrow> if n = 19 then Some (MTestRequest c i r x) else None
      | [PInt c, PInt i, PBytes k, PBytes x] \<Rightarrow> if n = 2 then Some (MCreate c i k x) else None
      | [PInt c, PInt i, PBytes k, PBytes a, PBytes x] \<Rightarrow>
          if n = 3 then Some (MCreated c i k a x) else if n = 5 then Some (MExtended c i k a x) else None
      | [PInt c, PInt i, PBytes k, PBytes x, a] \<Rightarrow> if n = 4 then Some (MExtend c i k x (wire_address a)) else None
      | [PInt c, d, a, PBytes x] \<Rightarrow> if n = 1 then Some (MData c (wire_address d) (wire_address a) x) else None
      | _ \<Rightarrow> None)"

definition cell_payloads :: "payload_spec list" where
  "cell_payloads =
     [tunnel_DataPayload, tunnel_CreatePayload, tunnel_CreatedPayload, tunnel_ExtendPayload, tunnel_ExtendedPayload,
      tunnel_PingPayload, tunnel_PongPayload, tunnel_TestRequestPayload, tunnel_TestResponsePayload]"

text \<open>The handlers of \<^verbatim>\<open>decode_map_private\<close> and the payloads they unpack.\<close>

definition cell_handler :: "nat \<Rightarrow> payload_spec option" where
  "cell_handler n = find (\<lambda>s. spec_msg_id s = Some n) cell_payloads"

definition read_message :: "payload_spec \<Rightarrow> bytes \<Rightarrow> tunnel_message result" where
  "read_message s data =
     bind_result (unpack_serializable tunnel_serializer (spec_class s) data 23) (\<lambda>(v, _).
       case v of
         PObj _ vs \<Rightarrow> (case message_of (the (spec_msg_id s)) vs of None \<Rightarrow> raise TypeError | Some m \<Rightarrow> return m)
       | _ \<Rightarrow> raise TypeError)"

definition message_cell :: "tunnel_message \<Rightarrow> cell result" where
  "message_cell m =
     bind_result (pack_serializable tunnel_serializer (PObj (spec_class (message_spec m)) (message_values m))) (\<lambda>b.
       let n = the (spec_msg_id (message_spec m))
       in return \<lparr>circuit_id = message_circuit m, message = of_nat n # drop 4 b, plaintext = n \<in> set NO_CRYPTO_PACKETS,
            relay_early = False\<rparr>)"

section \<open>The state of the overlay\<close>

abbreviation (input) PEER_FLAG_RELAY :: int where "PEER_FLAG_RELAY \<equiv> 1"
abbreviation (input) PEER_FLAG_EXIT_BT :: int where "PEER_FLAG_EXIT_BT \<equiv> 2"
abbreviation (input) PEER_FLAG_EXIT_IPV8 :: int where "PEER_FLAG_EXIT_IPV8 \<equiv> 4"
abbreviation (input) PEER_FLAG_SPEED_TEST :: int where "PEER_FLAG_SPEED_TEST \<equiv> 8"

record tunnel_settings =
  max_circuits :: nat
  max_joined_circuits :: nat
  max_time :: seconds
  max_time_inactive :: seconds
  max_traffic :: nat
  circuit_timeout :: nat
  next_hop_timeout :: nat
  remove_tunnel_delay :: seconds
  peer_flags :: "int list"

text \<open>
  What the overlay uses of its environment: the authenticated encryption, the key derivation, the functions of
  Diffie-Hellman keys (\<open>te_box\<close> fails with a \<^verbatim>\<open>ValueError\<close>), its own keys, what it knows of the keys of peers
  (the exception of a key that does not parse, the curve key of one that is compatible), and the peers that the
  network has verified with the times of their last responses.
\<close>

record tunnel_env =
  te_aead :: aead
  te_hkdf :: "bytes \<Rightarrow> bytes"
  te_box :: "bytes \<Rightarrow> bytes \<Rightarrow> bytes option"
  te_auth :: "bytes \<Rightarrow> bytes \<Rightarrow> bytes"
  te_my_key :: bytes
  te_my_secret :: bytes
  te_key_error :: "bytes \<Rightarrow> py_error option"
  te_curve_key :: "bytes \<Rightarrow> bytes option"
  te_verified :: "bytes \<Rightarrow> (tpeer \<times> seconds) option"
  te_has_dht :: bool
  te_tunnel_endpoint :: bool

text \<open>
  The random choices of one operation: a temporary key pair (secret, public), the circuit identifiers and the numbers
  of caches drawn one after the other, the identifier of a retry cache, the position of a choice, the order of a
  shuffled list, random bytes.
\<close>

record tunnel_draw =
  draw_key :: "bytes \<times> bytes"
  draw_ids :: "int list"
  draw_numbers :: "int list"
  draw_identifier :: int
  draw_choice :: nat
  draw_shuffle :: "tpeer list \<Rightarrow> tpeer list"
  draw_bytes :: "nat \<Rightarrow> bytes"

text \<open>The caches, by the circuit or the number that they are registered with.\<close>

record create_cache =
  cr_extend_identifier :: int
  cr_to_circuit_id :: int
  cr_from_circuit_id :: int
  cr_peer :: tpeer
  cr_to_peer :: tpeer

record created_cache =
  cd_candidate :: tpeer
  cd_candidates :: "(bytes, tpeer) dict"

text \<open>A retry is for the first hop, among peers, or for a further hop, among public keys.\<close>

datatype retry_candidates = RetryFirst "tpeer list" | RetryExtend "bytes list"

record retry_cache =
  rt_identifier :: int
  rt_candidates :: retry_candidates
  rt_max_tries :: int

text \<open>
  What waits in the event loop: the coroutines of the overlay, before their first step or after a sleep. A reason for
  a destroy message that is 0 is none.
\<close>

datatype tunnel_task =
    RemoveCircuit int string bool int
  | PopCircuit int
  | RemoveRelay int bool int
  | PopRelay int
  | RemoveExit int bool int
  | PopExit int
  | HandleCreate address tunnel_message
  | HandleExtend address tunnel_message
  | ExtendTo tunnel_message tpeer
  | RetryLater int retry_candidates int
  | OpenTransports int

text \<open>What leaves the overlay.\<close>

datatype tunnel_effect =
    Sent address bytes
  | SentDestroy address int int
  | ExitSent int bytes address
  | RawData int address bytes
  | Notified address bytes
  | PeerLookup tpeer
  | Resolving int bytes address
  | OtherMessage address bytes
  | TestResult int bytes seconds

record tunnel_community = crypto_endpoint +
  tc_settings :: tunnel_settings
  circuits_needed :: "(nat, nat) dict"
  candidates :: "(bytes, tpeer \<times> int list) dict"
  create_caches :: "(int, create_cache) dict"
  created_caches :: "(int, created_cache) dict"
  retry_caches :: "(int, retry_cache) dict"
  ping_caches :: "(int, unit) dict"
  test_caches :: "(int, seconds) dict"
  tc_tasks :: "tunnel_task list"
  tc_sleeping :: "(seconds \<times> tunnel_task) list"
  tc_out :: "tunnel_effect list"

type_synonym 'a tc_op = "(tunnel_community, 'a) op"

definition emit :: "tunnel_effect list \<Rightarrow> unit tc_op" where
  "emit xs = op_modify (\<lambda>t. t\<lparr>tc_out := tc_out t @ xs\<rparr>)"

definition schedule :: "tunnel_task list \<Rightarrow> unit tc_op" where
  "schedule xs = op_modify (\<lambda>t. t\<lparr>tc_tasks := tc_tasks t @ xs\<rparr>)"

definition remove_circuit :: "int \<Rightarrow> string \<Rightarrow> bool \<Rightarrow> int \<Rightarrow> unit tc_op" where
  "remove_circuit i info remove_now destroy = schedule [RemoveCircuit i info remove_now destroy]"

definition remove_relay :: "int \<Rightarrow> bool \<Rightarrow> int \<Rightarrow> unit tc_op" where
  "remove_relay i remove_now destroy = schedule [RemoveRelay i remove_now destroy]"

definition remove_exit_socket :: "int \<Rightarrow> bool \<Rightarrow> int \<Rightarrow> unit tc_op" where
  "remove_exit_socket i remove_now destroy = schedule [RemoveExit i remove_now destroy]"

section \<open>Sending\<close>

definition send_message :: "tunnel_env \<Rightarrow> address \<Rightarrow> tunnel_message \<Rightarrow> unit tc_op" where
  "send_message E target m =
     op_bind (op_of (message_cell m)) (\<lambda>cl t.
       case send_cell (te_aead E) target cl t of
         (t, packets, r) \<Rightarrow> (t\<lparr>tc_out := tc_out t @ map (\<lambda>(a, b). Sent a b) packets\<rparr>, r))"

definition send_data :: "tunnel_env \<Rightarrow> address \<Rightarrow> int \<Rightarrow> address \<Rightarrow> address \<Rightarrow> bytes \<Rightarrow> unit tc_op" where
  "send_data E target i dest source data = send_message E target (MData i dest source data)"

definition send_destroy :: "address \<Rightarrow> int \<Rightarrow> int \<Rightarrow> unit tc_op" where
  "send_destroy target i reason = emit [SentDestroy target i reason]"

definition destroy_circuit :: "circuit \<Rightarrow> int \<Rightarrow> unit tc_op" where
  "destroy_circuit c reason =
     (case first_hop c of None \<Rightarrow> op_raise AttributeError | Some h \<Rightarrow> send_destroy (hop_address h) (ro_id c) reason)"

definition destroy_relay :: "int \<Rightarrow> int \<Rightarrow> unit tc_op" where
  "destroy_relay i reason =
     op_state (\<lambda>t.
       case dict_get (relays t) i of
         None \<Rightarrow> op_return () | Some r \<Rightarrow> send_destroy (hop_address (relay_hop r)) (ro_id r) reason)"

definition destroy_exit_socket :: "exit_socket \<Rightarrow> int \<Rightarrow> unit tc_op" where
  "destroy_exit_socket x reason = send_destroy (hop_address (exit_hop x)) (ro_id x) reason"

section \<open>Finding circuits and peers\<close>

definition generate_circuit_id :: "int list \<Rightarrow> tunnel_community \<Rightarrow> int option" where
  "generate_circuit_id draws t = find (\<lambda>i. dict_get (circuits t) i = None) draws"

definition find_circuits ::
  "circuit_type option \<Rightarrow> circuit_state option \<Rightarrow> int list option \<Rightarrow> nat option \<Rightarrow> tunnel_community \<Rightarrow> circuit list" where
  "find_circuits ct st flags n t =
     filter (\<lambda>c. (st = None \<or> st = Some (state_of_circuit c)) \<and> (ct = None \<or> ct = Some (ctype c)) \<and>
         (case flags of None \<Rightarrow> True | Some fs \<Rightarrow> set fs \<subseteq> set (exit_flags c)) \<and>
         (n = None \<or> n = Some (goal_hops c)))
       (dict_values (circuits t))"

definition get_candidates :: "tunnel_env \<Rightarrow> int list \<Rightarrow> tunnel_community \<Rightarrow> tpeer list" where
  "get_candidates E requested t =
     map (\<lambda>(_, p, _). p)
       (filter (\<lambda>(_, p, flags). set requested \<subseteq> set flags \<and> te_curve_key E (tp_key p) \<noteq> None) (candidates t))"

definition candidate_flags :: "tpeer \<Rightarrow> tunnel_community \<Rightarrow> int list option" where
  "candidate_flags p t = map_option snd (dict_get (candidates t) (tp_key p))"

text \<open>A key that is in the dictionary keeps its object.\<close>

definition set_candidate :: "tpeer \<Rightarrow> int list \<Rightarrow> tunnel_community \<Rightarrow> tunnel_community" where
  "set_candidate p flags t =
     (let old = (case dict_get (candidates t) (tp_key p) of None \<Rightarrow> p | Some (q, _) \<Rightarrow> q)
      in t\<lparr>candidates := dict_set (tp_key p) (old, flags) (candidates t)\<rparr>)"

definition extract_peer_flags :: "bytes \<Rightarrow> int list result" where
  "extract_peer_flags extra =
     (if extra = [] then return []
      else
        bind_result (unpack_serializable tunnel_serializer (spec_class tunnel_ExtraIntroductionPayload) extra 0) (\<lambda>(v, _).
          case v of
            PObj _ [PList vs] \<Rightarrow> (case ints_of vs of None \<Rightarrow> raise TypeError | Some is \<Rightarrow> return is)
          | _ \<Rightarrow> raise TypeError))"

text \<open>\<^verbatim>\<open>introduction_request_callback\<close> and \<^verbatim>\<open>introduction_response_callback\<close>.\<close>

definition introduction_callback :: "tpeer \<Rightarrow> bytes \<Rightarrow> unit tc_op" where
  "introduction_callback p extra =
     op_bind (op_of (extract_peer_flags extra)) (\<lambda>flags. op_modify (set_candidate p flags))"

definition choice :: "nat \<Rightarrow> 'a list \<Rightarrow> 'a option" where
  "choice n xs = (if xs = [] then None else Some (xs ! (n mod length xs)))"

definition first_nonempty :: "'a list list \<Rightarrow> 'a list" where
  "first_nonempty xss = (case find (\<lambda>xs. xs \<noteq> []) xss of None \<Rightarrow> [] | Some xs \<Rightarrow> xs)"

definition select_exit :: "tunnel_env \<Rightarrow> nat \<Rightarrow> int list option \<Rightarrow> circuit_type \<Rightarrow> tunnel_community \<Rightarrow> tpeer option" where
  "select_exit E n flags ct t =
     choice n
       (case flags of
          Some fs \<Rightarrow> get_candidates E fs t
        | None \<Rightarrow>
            (case ct of
               CIRCUIT_TYPE_DATA \<Rightarrow> get_candidates E [PEER_FLAG_EXIT_BT] t
             | CIRCUIT_TYPE_IP_SEEDER \<Rightarrow>
                 first_nonempty [get_candidates E [PEER_FLAG_EXIT_BT] t, get_candidates E [PEER_FLAG_EXIT_IPV8] t,
                   get_candidates E [PEER_FLAG_RELAY] t]
             | _ \<Rightarrow> first_nonempty [get_candidates E [PEER_FLAG_RELAY] t, get_candidates E [PEER_FLAG_EXIT_BT] t]))"

section \<open>Creating circuits\<close>

definition pop_retry :: "int \<Rightarrow> unit tc_op" where
  "pop_retry i = op_modify (\<lambda>t. t\<lparr>retry_caches := dict_del i (retry_caches t)\<rparr>)"

definition unverified :: "tpeer \<Rightarrow> int list option \<Rightarrow> bytes \<times> bytes \<Rightarrow> hop" where
  "unverified p flags key =
     \<lparr>hop_peer = p, hop_keys = None, hop_flags = flags, dh_first_part = Some (snd key), dh_secret = Some (fst key)\<rparr>"

definition send_initial_create ::
  "tunnel_env \<Rightarrow> tunnel_draw \<Rightarrow> int \<Rightarrow> tpeer list \<Rightarrow> int \<Rightarrow> unit tc_op" where
  "send_initial_create E d i peers max_tries =
     op_then (pop_retry i)
       (case peers of
          [] \<Rightarrow> op_raise IndexError
        | first # _ \<Rightarrow>
            op_then
              (op_modify (\<lambda>t.
                 let h = unverified first (candidate_flags first t) (draw_key d);
                     cache = \<lparr>rt_identifier = draw_identifier d,
                       rt_candidates = RetryFirst (filter (\<lambda>p. \<not> tpeer_eq p first) peers), rt_max_tries = max_tries - 1\<rparr>
                 in (update_circuit i (\<lambda>c. c\<lparr>unverified_hop := Some h\<rparr>) t)
                      \<lparr>retry_caches := dict_set i cache (retry_caches t)\<rparr>))
              (send_message E (tp_address first) (MCreate i (draw_identifier d) (te_my_key E) (snd (draw_key d)))))"

text \<open>
  \<^verbatim>\<open>Counter.most_common\<close>: every peer once, the most frequent first, equally frequent ones in the order of their first
  occurrence.
\<close>

definition distinct_peers :: "tpeer list \<Rightarrow> tpeer list" where
  "distinct_peers ps = rev (fold (\<lambda>p acc. if \<exists>q \<in> set acc. tpeer_eq q p then acc else p # acc) ps [])"

definition most_common :: "tpeer list \<Rightarrow> tpeer list" where
  "most_common ps = sort_key (\<lambda>p. - int (length (filter (tpeer_eq p) ps))) (distinct_peers ps)"

fun first_hops :: "circuit_type \<Rightarrow> circuit list \<Rightarrow> tpeer list result" where
  "first_hops ct [] = return []"
| "first_hops ct (c # cs) =
     (if ctype c = ct then
        (case first_hop c of
           None \<Rightarrow> raise AttributeError
         | Some h \<Rightarrow> bind_result (first_hops ct cs) (\<lambda>ps. return (hop_peer h # ps)))
      else first_hops ct cs)"

definition possible_first_hops ::
  "tunnel_env \<Rightarrow> tunnel_draw \<Rightarrow> circuit_type \<Rightarrow> tpeer option \<Rightarrow> tunnel_community \<Rightarrow> tpeer list result" where
  "possible_first_hops E d ct required t =
     bind_result (first_hops ct (dict_values (circuits t))) (\<lambda>ps.
       let peers = draw_shuffle d
             (ps @ get_candidates E [PEER_FLAG_RELAY] t @ get_candidates E [PEER_FLAG_RELAY, PEER_FLAG_EXIT_BT] t)
       in return
            (rev (filter (\<lambda>p. case required of None \<Rightarrow> True | Some q \<Rightarrow> \<not> tpeer_eq p q) (most_common peers))))"

definition create_circuit ::
  "tunnel_env \<Rightarrow> seconds \<Rightarrow> tunnel_draw \<Rightarrow> nat \<Rightarrow> circuit_type \<Rightarrow> int list option \<Rightarrow> tpeer option \<Rightarrow> bytes option \<Rightarrow>
   (int option) tc_op" where
  "create_circuit E now d goal ct flags required hash =
     op_state (\<lambda>t.
       let required =
             (if ct = CIRCUIT_TYPE_IP_SEEDER \<and> required = None then select_exit E (draw_choice d) None ct t
              else if flags \<noteq> None then select_exit E (draw_choice d) flags CIRCUIT_TYPE_DATA t
              else required);
           required =
             (if goal = 1 \<and> required = None then select_exit E (draw_choice d) flags ct t else required)
       in if goal = 1 \<and> required = None then op_return None
          else
            op_bind
              (op_of (if goal = 1 then return [the required] else possible_first_hops E d ct required t)) (\<lambda>peers.
                if peers = [] then op_return None
                else
                  case generate_circuit_id (draw_ids d) t of
                    None \<Rightarrow> op_raise StopIteration
                  | Some i \<Rightarrow>
                      op_then
                        (op_modify (\<lambda>t. t\<lparr>circuits := dict_set i (new_circuit now i goal ct required hash) (circuits t)\<rparr>))
                        (op_then
                          (send_initial_create E d i peers
                            (int (circuit_timeout (tc_settings t) div next_hop_timeout (tc_settings t))))
                          (op_return (Some i)))))"

text \<open>
  \<^verbatim>\<open>do_circuits\<close>: one circuit after the other, until one cannot be built; every attempt takes its random choices from the
  list, which has to be long enough.
\<close>

fun build_circuits :: "tunnel_env \<Rightarrow> seconds \<Rightarrow> nat \<Rightarrow> nat \<Rightarrow> tunnel_draw list \<Rightarrow> (tunnel_draw list) tc_op" where
  "build_circuits E now n k [] = op_return []"
| "build_circuits E now n k (d # ds) =
     (if k = 0 then op_return (d # ds)
      else
        op_bind (create_circuit E now d n CIRCUIT_TYPE_DATA None None None) (\<lambda>r.
          if r = None then op_return ds else build_circuits E now n (k - 1) ds))"

fun build_needed :: "tunnel_env \<Rightarrow> seconds \<Rightarrow> (nat \<times> nat) list \<Rightarrow> tunnel_draw list \<Rightarrow> unit tc_op" where
  "build_needed E now [] ds = op_return ()"
| "build_needed E now ((n, needed) # rest) ds =
     op_state (\<lambda>t.
       op_bind (build_circuits E now n (needed - length (find_circuits (Some CIRCUIT_TYPE_DATA) None None (Some n) t)) ds)
         (build_needed E now rest))"

text \<open>\<^verbatim>\<open>do_remove\<close>: the keys of the peers that the network returns are given.\<close>

definition circuit_to_remove :: "tunnel_settings \<Rightarrow> seconds \<Rightarrow> int \<times> circuit \<Rightarrow> tunnel_task list" where
  "circuit_to_remove s now = (\<lambda>(i, c).
     if state_of_circuit c = CIRCUIT_STATE_READY \<and> last_activity c < now - max_time_inactive s
       then [RemoveCircuit i ''no activity'' False 0]
     else if creation_time c < now - max_time s then [RemoveCircuit i ''too old'' False 0]
     else if max_traffic s < bytes_up c + bytes_down c then [RemoveCircuit i ''traffic limit exceeded'' False 1]
     else [])"

definition relay_to_remove :: "tunnel_settings \<Rightarrow> seconds \<Rightarrow> int \<times> relay_route \<Rightarrow> tunnel_task list" where
  "relay_to_remove s now = (\<lambda>(i, r).
     if last_activity r < now - max_time_inactive s then [RemoveRelay i False 0]
     else if max_traffic s < bytes_up r + bytes_down r then [RemoveRelay i False 1]
     else [])"

definition exit_to_remove :: "tunnel_settings \<Rightarrow> seconds \<Rightarrow> int \<times> exit_socket \<Rightarrow> tunnel_task list" where
  "exit_to_remove s now = (\<lambda>(i, x).
     if last_activity x < now - max_time_inactive s then [RemoveExit i False 0]
     else if creation_time x < now - max_time s then [RemoveExit i False 0]
     else if max_traffic s < bytes_up x + bytes_down x then [RemoveExit i False 1]
     else [])"

definition do_remove :: "seconds \<Rightarrow> bytes list \<Rightarrow> unit tc_op" where
  "do_remove now peers =
     op_state (\<lambda>t.
       let s = tc_settings t
       in op_then
            (schedule (concat (map (circuit_to_remove s now) (circuits t)) @ concat (map (relay_to_remove s now) (relays t)) @
              concat (map (exit_to_remove s now) (exit_sockets t))))
            (op_modify (\<lambda>t. t\<lparr>candidates := filter (\<lambda>(k, _). k \<in> set peers) (candidates t)\<rparr>)))"

definition do_circuits :: "tunnel_env \<Rightarrow> seconds \<Rightarrow> bytes list \<Rightarrow> tunnel_draw list \<Rightarrow> unit tc_op" where
  "do_circuits E now peers ds =
     op_state (\<lambda>t. op_then (build_needed E now (circuits_needed t) ds) (do_remove now peers))"

definition build_tunnels :: "tunnel_env \<Rightarrow> seconds \<Rightarrow> bytes list \<Rightarrow> tunnel_draw list \<Rightarrow> nat \<Rightarrow> unit tc_op" where
  "build_tunnels E now peers ds n =
     op_when (0 < n)
       (op_then (op_modify (\<lambda>t. t\<lparr>circuits_needed := dict_set n (max_circuits (tc_settings t)) (circuits_needed t)\<rparr>))
         (do_circuits E now peers ds))"

definition tunnels_ready :: "nat \<Rightarrow> tunnel_community \<Rightarrow> rat" where
  "tunnels_ready n t =
     (case dict_get (circuits_needed t) n of
        None \<Rightarrow> 1
      | Some k \<Rightarrow>
          if 0 < n \<and> 0 < k
          then of_nat (length (find_circuits (Some CIRCUIT_TYPE_DATA) (Some CIRCUIT_STATE_READY) None (Some n) t)) / of_nat k
          else 1)"

text \<open>\<^verbatim>\<open>unload\<close> asks for the removal of everything, then the tasks of the overlay are shut down.\<close>

definition unload_removals :: "unit tc_op" where
  "unload_removals =
     op_state (\<lambda>t. schedule
       (map (\<lambda>i. RemoveCircuit i ''unload'' True 2) (dict_keys (circuits t)) @
        map (\<lambda>i. RemoveRelay i True 2) (dict_keys (relays t)) @
        map (\<lambda>i. RemoveExit i True 2) (dict_keys (exit_sockets t))))"

section \<open>Joining and extending circuits\<close>

definition shared_secrets :: "tunnel_env \<Rightarrow> bytes \<Rightarrow> bytes \<Rightarrow> bytes \<Rightarrow> bytes \<Rightarrow> bytes result" where
  "shared_secrets E key1 secret1 key2 secret2 =
     (case (te_box E key1 secret1, te_box E key2 secret2) of
        (Some x, Some y) \<Rightarrow> return (x @ y) | _ \<Rightarrow> raise ValueError)"

definition generate_diffie_shared_secret :: "tunnel_env \<Rightarrow> bytes \<times> bytes \<Rightarrow> bytes \<Rightarrow> (bytes \<times> bytes \<times> bytes) result" where
  "generate_diffie_shared_secret E tmp received =
     bind_result (shared_secrets E received (fst tmp) received (te_my_secret E)) (\<lambda>s.
       return (s, snd tmp, te_auth E (snd tmp) (take 32 s)))"

definition verify_and_generate_shared_secret :: "tunnel_env \<Rightarrow> bytes \<Rightarrow> bytes \<Rightarrow> bytes \<Rightarrow> bytes \<Rightarrow> bytes result" where
  "verify_and_generate_shared_secret E secret received auth b =
     bind_result (shared_secrets E received secret b secret) (\<lambda>s.
       if te_auth E received (take 32 s) = auth then return s else raise ValueError)"

text \<open>The key object of a hop, with its position.\<close>

definition add_keys :: "session_keys \<Rightarrow> nat tc_op" where
  "add_keys k = (\<lambda>t. (t\<lparr>ce_keys := ce_keys t @ [k]\<rparr>, return (length (ce_keys t))))"

definition announced_peers :: "tunnel_env \<Rightarrow> tunnel_community \<Rightarrow> tpeer list" where
  "announced_peers E t =
     (let exits = take 4 (get_candidates E [PEER_FLAG_EXIT_BT, PEER_FLAG_RELAY] t);
          exits = (case exits of [] \<Rightarrow> [] | x # _ \<Rightarrow> x # exits);
          relays = take 4 (filter
            (\<lambda>p. PEER_FLAG_EXIT_BT \<notin> set (case candidate_flags p t of None \<Rightarrow> [] | Some fs \<Rightarrow> fs))
            (get_candidates E [PEER_FLAG_RELAY] t))
      in relays @ exits)"

definition new_exit_socket :: "seconds \<Rightarrow> int \<Rightarrow> hop \<Rightarrow> exit_socket" where
  "new_exit_socket now i h =
     \<lparr>ro_id = i, creation_time = now, last_activity = now, bytes_up = 0, bytes_down = 0, exit_hop = h, exit_enabled = False,
      exit_ipv4 = False, exit_ipv6 = False, exit_queue = []\<rparr>"

definition join_circuit ::
  "tunnel_env \<Rightarrow> seconds \<Rightarrow> tunnel_draw \<Rightarrow> address \<Rightarrow> int \<Rightarrow> int \<Rightarrow> bytes \<Rightarrow> bytes \<Rightarrow> unit tc_op" where
  "join_circuit E now d source i identifier node_key dh =
     op_bind (op_of (generate_diffie_shared_secret E (draw_key d) dh)) (\<lambda>(secret, key, auth).
       op_state (\<lambda>t.
         let peers = announced_peers E t; p = \<lparr>tp_key = node_key, tp_address = source\<rparr>
         in case te_key_error E node_key of
              Some err \<Rightarrow> op_raise err
            | None \<Rightarrow>
                if dict_get (created_caches t) i \<noteq> None then op_raise RuntimeError
                else
                  op_then
                    (op_modify (\<lambda>t. t\<lparr>created_caches :=
                       dict_set i \<lparr>cd_candidate = p,
                         cd_candidates = fold (\<lambda>p. dict_set (tp_key p) p) peers []\<rparr> (created_caches t)\<rparr>))
                    (op_bind (op_of (serializer_pack tunnel_serializer ''varlenH-list'' (PList (map (PBytes \<circ> tp_key) peers))))
                      (\<lambda>plain.
                        let (k, r) = encrypt_str (te_aead E) plain FORWARD (generate_session_keys (te_hkdf E) secret)
                        in op_bind (op_of r) (\<lambda>enc.
                             op_bind (add_keys k) (\<lambda>n.
                               op_then
                                 (op_modify (\<lambda>t. t\<lparr>exit_sockets :=
                                    dict_set i (new_exit_socket now i (plain_hop p (Some n))) (exit_sockets t)\<rparr>))
                                 (send_message E source (MCreated i identifier key auth enc))))))))"

definition should_join_circuit :: "tunnel_community \<Rightarrow> bool" where
  "should_join_circuit t \<longleftrightarrow> length (relays t) + length (exit_sockets t) < max_joined_circuits (tc_settings t)"

definition on_create :: "tunnel_env \<Rightarrow> seconds \<Rightarrow> tunnel_draw \<Rightarrow> address \<Rightarrow> tunnel_message \<Rightarrow> unit tc_op" where
  "on_create E now d source m =
     (case m of
        MCreate i identifier node_key dh \<Rightarrow>
          op_state (\<lambda>t.
            if peer_flags (tc_settings t) = [] then op_return ()
            else if dict_get (created_caches t) i \<noteq> None then op_return ()
            else op_when (should_join_circuit t) (join_circuit E now d source i identifier node_key dh))
      | _ \<Rightarrow> op_return ())"

section \<open>Extending our own circuits\<close>

text \<open>The public keys to extend to: the first that is in the list twice in a row separates relays and exits.\<close>

fun split_candidates :: "bytes list \<Rightarrow> bytes list \<Rightarrow> bytes list \<times> bytes list" where
  "split_candidates seen [] = (rev seen, [])"
| "split_candidates seen [x] = (rev (x # seen), [])"
| "split_candidates seen (x # y # rest) =
     (if x = y then (rev seen, y # rest) else split_candidates (x # seen) (y # rest))"

definition become_exit :: "circuit \<Rightarrow> bool" where
  "become_exit c \<longleftrightarrow> int (goal_hops c) - 1 = int (length (hops c))"

fun usable_keys :: "tunnel_env \<Rightarrow> bytes list \<Rightarrow> bytes list \<Rightarrow> bytes list result" where
  "usable_keys E exclude [] = return []"
| "usable_keys E exclude (k # ks) =
     (if k \<in> set exclude then usable_keys E exclude ks
      else case te_key_error E k of
             Some err \<Rightarrow> raise err
           | None \<Rightarrow> bind_result (usable_keys E exclude ks) (\<lambda>ks. return (k # ks)))"

definition zero_address :: address where
  "zero_address = Address PlainTuple ''0.0.0.0'' 0"

text \<open>The hop to extend to, its address and the candidates that are left.\<close>

definition extension_among ::
  "tunnel_env \<Rightarrow> nat \<Rightarrow> bytes list \<Rightarrow> bytes list \<Rightarrow> tunnel_community \<Rightarrow> ((bytes \<times> address) option \<times> bytes list) result" where
  "extension_among E n exclude cands t =
     bind_result (usable_keys E exclude cands) (\<lambda>cands.
       return
         (let k = (case cands of [] \<Rightarrow> [] | k # _ \<Rightarrow> k)
          in if k \<noteq> [] then Some (k, zero_address)
             else
               map_option (\<lambda>p. (tp_key p, tp_address p))
                 (choice n (filter (\<lambda>p. tp_key p \<notin> set exclude) (get_candidates E [PEER_FLAG_EXIT_BT, PEER_FLAG_RELAY] t))),
          cands))"

definition choose_extension ::
  "tunnel_env \<Rightarrow> nat \<Rightarrow> circuit \<Rightarrow> bytes list \<Rightarrow> tunnel_community \<Rightarrow> ((bytes \<times> address) option \<times> bytes list) result" where
  "choose_extension E n c cands t =
     (let exclude = map (tp_key \<circ> hop_peer) (hops c) @ [te_my_key E]
      in case required_exit c of
           None \<Rightarrow> extension_among E n exclude cands t
         | Some p \<Rightarrow>
             if become_exit c then return (Some (tp_key p, tp_address p), cands)
             else extension_among E n (exclude @ [tp_key p]) cands t)"

definition send_extend :: "tunnel_env \<Rightarrow> tunnel_draw \<Rightarrow> int \<Rightarrow> bytes list \<Rightarrow> int \<Rightarrow> unit tc_op" where
  "send_extend E d i cands max_tries =
     op_state (\<lambda>t.
       case dict_get (circuits t) i of
         None \<Rightarrow> op_return ()
       | Some c \<Rightarrow>
           op_bind (op_of (choose_extension E (draw_choice d) c cands t)) (\<lambda>(found, cands).
             case found of
               None \<Rightarrow> remove_circuit i ''no candidates to extend'' False 0
             | Some (k, a) \<Rightarrow>
                 op_then (pop_retry i)
                   (case te_key_error E k of
                      Some err \<Rightarrow> op_raise err
                    | None \<Rightarrow>
                        let p = \<lparr>tp_key = k, tp_address = no_address\<rparr>;
                            h = unverified p (candidate_flags p t) (draw_key d);
                            alt = (if \<not> become_exit c \<or> required_exit c = None then filter (\<lambda>x. x \<noteq> k) cands else []);
                            cache = \<lparr>rt_identifier = draw_identifier d, rt_candidates = RetryExtend alt,
                              rt_max_tries = max_tries - 1\<rparr>
                        in op_then
                             (op_modify (\<lambda>t. (update_circuit i (\<lambda>c. c\<lparr>unverified_hop := Some h\<rparr>) t)
                                \<lparr>retry_caches := dict_set i cache (retry_caches t)\<rparr>))
                             (case first_hop (c\<lparr>unverified_hop := Some h\<rparr>) of
                                None \<Rightarrow> op_raise AttributeError
                              | Some first \<Rightarrow>
                                  send_message E (hop_address first)
                                    (MExtend i (draw_identifier d) k (snd (draw_key d)) a)))))"

text \<open>A peer answered: its key is agreed upon, the hop is added, and the circuit is extended or ready.\<close>

definition candidate_list :: "bytes \<Rightarrow> bytes list result" where
  "candidate_list plain =
     bind_result (serializer_unpack tunnel_serializer (Fmt ''varlenH-list'') plain 0) (\<lambda>(v, _).
       case v of
         PList vs \<Rightarrow> map_result (\<lambda>v. case v of PBytes b \<Rightarrow> return b | _ \<Rightarrow> raise TypeError) vs
       | _ \<Rightarrow> raise TypeError)"

definition add_verified_hop :: "int \<Rightarrow> hop \<Rightarrow> nat \<Rightarrow> unit tc_op" where
  "add_verified_hop i h n =
     op_state (\<lambda>t.
       case dict_get (circuits t) i of
         None \<Rightarrow> op_raise KeyError
       | Some c \<Rightarrow>
           let (c, r) = add_hop (h\<lparr>hop_keys := Some n\<rparr>) (c\<lparr>unverified_hop := None\<rparr>)
           in op_then (op_modify (update_circuit i (\<lambda>_. c))) (op_of r))"

definition continue_circuit :: "tunnel_env \<Rightarrow> tunnel_draw \<Rightarrow> int \<Rightarrow> session_keys \<Rightarrow> bytes \<Rightarrow> unit tc_op" where
  "continue_circuit E d i k enc =
     op_state (\<lambda>t.
       case dict_get (circuits t) i of
         None \<Rightarrow> op_raise KeyError
       | Some c \<Rightarrow>
           (case state_of_circuit c of
              CIRCUIT_STATE_EXTENDING \<Rightarrow>
                op_bind (op_of (decrypt_str (te_aead E) enc FORWARD k)) (\<lambda>plain.
                  op_bind (op_of (candidate_list plain)) (\<lambda>cands.
                    let (relays, exits) = split_candidates [] cands;
                        cands = (if become_exit c then exits else if relays \<noteq> [] then relays else exits)
                    in (case dict_get (retry_caches t) i of
                          None \<Rightarrow> op_raise KeyError
                        | Some cache \<Rightarrow> op_then (pop_retry i) (send_extend E d i cands (rt_max_tries cache)))))
            | CIRCUIT_STATE_READY \<Rightarrow>
                if dict_get (retry_caches t) i = None then op_raise KeyError else pop_retry i
            | CIRCUIT_STATE_CLOSING \<Rightarrow> op_return ()))"

definition ours_on_created_extended ::
  "tunnel_env \<Rightarrow> tunnel_draw \<Rightarrow> int \<Rightarrow> bytes \<Rightarrow> bytes \<Rightarrow> bytes \<Rightarrow> unit tc_op" where
  "ours_on_created_extended E d i key auth enc =
     op_state (\<lambda>t.
       case dict_get (circuits t) i of
         None \<Rightarrow> op_raise KeyError
       | Some c \<Rightarrow>
           (case unverified_hop c of
              None \<Rightarrow> op_return ()
            | Some h \<Rightarrow>
                (case dh_secret h of
                   None \<Rightarrow> op_return ()
                 | Some secret \<Rightarrow>
                     (case te_curve_key E (tp_key (hop_peer h)) of
                        None \<Rightarrow> op_raise AttributeError
                      | Some b \<Rightarrow>
                          (case verify_and_generate_shared_secret E secret key auth b of
                             Inl _ \<Rightarrow> remove_circuit i ''error while verifying shared secret'' False 0
                           | Inr s \<Rightarrow>
                               let k = generate_session_keys (te_hkdf E) s
                               in op_bind (add_keys k) (\<lambda>n.
                                    op_then (add_verified_hop i h n) (continue_circuit E d i k enc)))))))"

section \<open>Handlers\<close>

definition relay_between :: "seconds \<Rightarrow> create_cache \<Rightarrow> nat option \<Rightarrow> tunnel_community \<Rightarrow> tunnel_community" where
  "relay_between now r k t =
     t\<lparr>relays := dict_set (cr_from_circuit_id r) (new_relay now (cr_to_circuit_id r) (plain_hop (cr_to_peer r) k) FORWARD False)
       (dict_set (cr_to_circuit_id r) (new_relay now (cr_from_circuit_id r) (plain_hop (cr_peer r) k) BACKWARD False)
         (relays t))\<rparr>"

definition on_created :: "tunnel_env \<Rightarrow> seconds \<Rightarrow> tunnel_draw \<Rightarrow> tunnel_message \<Rightarrow> unit tc_op" where
  "on_created E now d m =
     (case m of
        MCreated i identifier key auth enc \<Rightarrow>
          op_state (\<lambda>t.
            case dict_get (create_caches t) identifier of
              Some r \<Rightarrow>
                op_then (op_modify (\<lambda>t. t\<lparr>create_caches := dict_del identifier (create_caches t)\<rparr>))
                  (case dict_get (exit_sockets t) (cr_from_circuit_id r) of
                     None \<Rightarrow> op_return ()
                   | Some x \<Rightarrow>
                       op_then (remove_exit_socket (cr_from_circuit_id r) True 0)
                         (op_then (op_modify (relay_between now r (hop_keys (exit_hop x))))
                           (send_message E (tp_address (cr_peer r))
                             (MExtended (cr_from_circuit_id r) (cr_extend_identifier r) key auth enc))))
            | None \<Rightarrow>
                (case dict_get (retry_caches t) i of
                   None \<Rightarrow> op_return ()
                 | Some cache \<Rightarrow>
                     op_when (rt_identifier cache = identifier) (ours_on_created_extended E d i key auth enc)))
      | _ \<Rightarrow> op_return ())"

definition on_extended :: "tunnel_env \<Rightarrow> tunnel_draw \<Rightarrow> tunnel_message \<Rightarrow> unit tc_op" where
  "on_extended E d m =
     (case m of
        MExtended i identifier key auth enc \<Rightarrow>
          op_state (\<lambda>t.
            case dict_get (retry_caches t) i of
              None \<Rightarrow> op_return ()
            | Some cache \<Rightarrow>
                op_when (rt_identifier cache = identifier) (ours_on_created_extended E d i key auth enc))
      | _ \<Rightarrow> op_return ())"

text \<open>\<^verbatim>\<open>on_extend\<close>: the peer to extend to; then, after a lookup if it was silent for long, the rest.\<close>

definition extend_candidate ::
  "tunnel_env \<Rightarrow> seconds \<Rightarrow> created_cache \<Rightarrow> bytes \<Rightarrow> address \<Rightarrow> ((tpeer \<times> bool) option) result" where
  "extend_candidate E now request node_key a =
     (case dict_get (cd_candidates request) node_key of
        Some p \<Rightarrow> return (Some (p, False))
      | None \<Rightarrow>
          if addr_tuple a = addr_tuple zero_address then return None
          else
            case te_verified E node_key of
              Some (p, seen) \<Rightarrow> return (Some (p, seen + 575 / 10 < now))
            | None \<Rightarrow>
                (case te_key_error E node_key of
                   Some err \<Rightarrow> raise err
                 | None \<Rightarrow> return (Some (\<lparr>tp_key = node_key, tp_address = a\<rparr>, False))))"

definition unused_number :: "int list \<Rightarrow> (int, 'c) dict \<Rightarrow> int option" where
  "unused_number draws used = find (\<lambda>n. dict_get used n = None) (take 1000 draws)"

definition neighbour :: "int \<Rightarrow> tunnel_community \<Rightarrow> (tpeer option) result" where
  "neighbour i t =
     (case dict_get (circuits t) i of
        Some c \<Rightarrow> (case first_hop c of None \<Rightarrow> raise AttributeError | Some h \<Rightarrow> return (Some (hop_peer h)))
      | None \<Rightarrow>
          (case dict_get (exit_sockets t) i of
             Some x \<Rightarrow> return (Some (hop_peer (exit_hop x)))
           | None \<Rightarrow> return (map_option (hop_peer \<circ> relay_hop) (dict_get (relays t) i))))"

definition extend_to :: "tunnel_env \<Rightarrow> tunnel_draw \<Rightarrow> tunnel_message \<Rightarrow> tpeer \<Rightarrow> unit tc_op" where
  "extend_to E d m target =
     (case m of
        MExtend i identifier node_key dh a \<Rightarrow>
          op_state (\<lambda>t.
            case generate_circuit_id (draw_ids d) t of
              None \<Rightarrow> op_raise StopIteration
            | Some to_id \<Rightarrow>
                op_bind (op_of (neighbour i t)) (\<lambda>p.
                  case p of
                    None \<Rightarrow> op_return ()
                  | Some p \<Rightarrow>
                      (case unused_number (draw_numbers d) (create_caches t) of
                         None \<Rightarrow> op_raise RuntimeError
                       | Some n \<Rightarrow>
                           op_then
                             (op_modify (\<lambda>t. t\<lparr>create_caches :=
                                dict_set n \<lparr>cr_extend_identifier = identifier, cr_to_circuit_id = to_id, cr_from_circuit_id = i,
                                  cr_peer = p, cr_to_peer = target\<rparr> (create_caches t)\<rparr>))
                             (send_message E (tp_address target) (MCreate to_id n (te_my_key E) dh)))))
      | _ \<Rightarrow> op_return ())"

definition on_extend :: "tunnel_env \<Rightarrow> seconds \<Rightarrow> tunnel_draw \<Rightarrow> tunnel_message \<Rightarrow> unit tc_op" where
  "on_extend E now d m =
     (case m of
        MExtend i identifier node_key dh a \<Rightarrow>
          op_state (\<lambda>t.
            if PEER_FLAG_RELAY \<notin> set (peer_flags (tc_settings t)) then op_return ()
            else
              case dict_get (created_caches t) i of
                None \<Rightarrow> op_return ()
              | Some request \<Rightarrow>
                  op_bind (op_of (extend_candidate E now request node_key a)) (\<lambda>r.
                    case r of
                      None \<Rightarrow> op_return ()
                    | Some (p, lookup) \<Rightarrow>
                        if lookup \<and> te_has_dht E then emit [PeerLookup p] else extend_to E d m p))
      | _ \<Rightarrow> op_return ())"

section \<open>Exit sockets\<close>

text \<open>\<^verbatim>\<open>DataChecker\<close>: what looks like traffic that may leave.\<close>

definition could_be_utp :: "bytes \<Rightarrow> bool" where
  "could_be_utp data \<longleftrightarrow>
     20 \<le> length data \<and> unat (data ! 0) div 16 \<le> 4 \<and> unat (data ! 0) mod 16 = 1 \<and> unat (data ! 1) \<le> 3"

definition could_be_udp_tracker :: "bytes \<Rightarrow> bool" where
  "could_be_udp_tracker data \<longleftrightarrow>
     (8 \<le> length data \<and> nat_of_bytes (take 4 data) \<le> 3) \<or>
     (12 \<le> length data \<and> nat_of_bytes (take 4 (drop 8 data)) \<le> 3)"

definition could_be_dht :: "bytes \<Rightarrow> bool" where
  "could_be_dht data \<longleftrightarrow> 1 < length data \<and> data ! 0 = 100 \<and> data ! (length data - 1) = 101"

definition could_be_bt :: "bytes \<Rightarrow> bool" where
  "could_be_bt data \<longleftrightarrow> could_be_utp data \<or> could_be_udp_tracker data \<or> could_be_dht data"

definition could_be_ipv8 :: "bytes \<Rightarrow> bool" where
  "could_be_ipv8 data \<longleftrightarrow> 23 \<le> length data \<and> data ! 0 = 0 \<and> (data ! 1 = 1 \<or> data ! 1 = 2)"

definition is_allowed :: "bytes \<Rightarrow> tunnel_community \<Rightarrow> bool" where
  "is_allowed data t \<longleftrightarrow>
     (could_be_bt data \<and> PEER_FLAG_EXIT_BT \<in> set (peer_flags (tc_settings t))) \<or>
     (could_be_ipv8 data \<and> PEER_FLAG_EXIT_IPV8 \<in> set (peer_flags (tc_settings t))) \<or>
     (could_be_ipv8 data \<and> ce_prefix t = take 22 data)"

definition update_exit :: "int \<Rightarrow> (exit_socket \<Rightarrow> exit_socket) \<Rightarrow> tunnel_community \<Rightarrow> tunnel_community" where
  "update_exit i f t =
     (case dict_get (exit_sockets t) i of None \<Rightarrow> t | Some x \<Rightarrow> t\<lparr>exit_sockets := dict_set i (f x) (exit_sockets t)\<rparr>)"

definition enable_exit :: "int \<Rightarrow> unit tc_op" where
  "enable_exit i =
     op_state (\<lambda>t.
       case dict_get (exit_sockets t) i of
         None \<Rightarrow> op_return ()
       | Some x \<Rightarrow>
           op_when (\<not> exit_enabled x)
             (op_then (op_modify (update_exit i (\<lambda>x. x\<lparr>exit_enabled := True\<rparr>))) (schedule [OpenTransports i])))"

text \<open>Ten packets wait while the transports are opened; the oldest gives way.\<close>

definition enqueue :: "bytes \<times> address \<Rightarrow> (bytes \<times> address) list \<Rightarrow> (bytes \<times> address) list" where
  "enqueue p q = (let q = q @ [p] in drop (length q - 10) q)"

definition exit_sendto :: "seconds \<Rightarrow> int \<Rightarrow> bytes \<times> address \<Rightarrow> unit tc_op" where
  "exit_sendto now i = (\<lambda>(data, dest).
     op_state (\<lambda>t.
       case dict_get (exit_sockets t) i of
         None \<Rightarrow> op_return ()
       | Some x \<Rightarrow>
           if \<not> is_allowed data t then op_return ()
           else if addr_class dest = DomainAddress then emit [Resolving i data dest]
           else if \<not> (if addr_class dest = UDPv6Address then exit_ipv6 x else exit_ipv4 x)
             then op_modify (update_exit i (\<lambda>x. x\<lparr>exit_queue := enqueue (data, dest) (exit_queue x)\<rparr>))
           else
             op_then (emit [ExitSent i data dest])
               (op_modify (update_exit i (\<lambda>x. (beat_heart now x)\<lparr>bytes_up := bytes_up x + length data\<rparr>)))))"

definition open_ipv6 :: "seconds \<Rightarrow> int \<Rightarrow> unit tc_op" where
  "open_ipv6 now i =
     op_state (\<lambda>t.
       case dict_get (exit_sockets t) i of
         None \<Rightarrow> op_return ()
       | Some x \<Rightarrow>
           op_then (op_modify (update_exit i (\<lambda>x. x\<lparr>exit_ipv6 := True, exit_queue := []\<rparr>)))
             (op_for (exit_sendto now i) (exit_queue x)))"

definition tunnel_data :: "tunnel_env \<Rightarrow> int \<Rightarrow> address \<Rightarrow> bytes \<Rightarrow> unit tc_op" where
  "tunnel_data E i source data =
     op_state (\<lambda>t.
       case dict_get (exit_sockets t) i of
         None \<Rightarrow> op_return ()
       | Some x \<Rightarrow> send_data E (hop_address (exit_hop x)) (ro_id x) zero_address source data)"

definition datagram_received :: "tunnel_env \<Rightarrow> int \<Rightarrow> bytes \<Rightarrow> address \<Rightarrow> unit tc_op" where
  "datagram_received E i data source =
     (if addr_class source = UDPv6Address \<and> take 7 (addr_host source) = ''::ffff:'' then op_return ()
      else
        op_then (op_modify (update_exit i (\<lambda>x. x\<lparr>bytes_down := bytes_down x + length data\<rparr>)))
          (op_state (\<lambda>t. op_when (is_allowed data t) (op_logged (tunnel_data E i source data)))))"

definition exit_data :: "seconds \<Rightarrow> int \<Rightarrow> address \<Rightarrow> address \<Rightarrow> bytes \<Rightarrow> unit tc_op" where
  "exit_data now i source dest data =
     op_state (\<lambda>t.
       case dict_get (exit_sockets t) i of
         None \<Rightarrow> op_return ()
       | Some x \<Rightarrow>
           if exit_enabled x then op_logged (exit_sendto now i (data, dest))
           else if addr_host source = addr_host (hop_address (exit_hop x))
             then op_then (enable_exit i) (op_logged (exit_sendto now i (data, dest)))
           else op_return ())"

section \<open>Data, pings and tests\<close>

text \<open>\<^verbatim>\<open>on_data\<close>; a packet of this overlay is given back, to be handled as if it came from its origin.\<close>

definition on_data ::
  "tunnel_env \<Rightarrow> seconds \<Rightarrow> address \<Rightarrow> tunnel_message \<Rightarrow> ((address \<times> bytes \<times> int) option) tc_op" where
  "on_data E now source m =
     (case m of
        MData i dest origin data \<Rightarrow>
          op_state (\<lambda>t.
            op_bind
              (op_of (case dict_get (circuits t) i of
                        None \<Rightarrow> return None
                      | Some c \<Rightarrow>
                          (case first_hop c of
                             None \<Rightarrow> raise AttributeError
                           | Some h \<Rightarrow>
                               return (if addr_tuple source = addr_tuple (hop_address h) then Some c else None))))
              (\<lambda>found.
                case found of
                  Some c \<Rightarrow>
                    op_then (op_modify (update_circuit i (beat_heart now)))
                      (if could_be_ipv8 data \<and> ctype c \<notin> {CIRCUIT_TYPE_RP_DOWNLOADER, CIRCUIT_TYPE_RP_SEEDER} then
                         if ce_prefix t = take 22 data then op_return (Some (origin, data, i))
                         else op_then (op_when (te_tunnel_endpoint E) (emit [Notified origin data])) (op_return None)
                       else op_then (emit [RawData i origin data]) (op_return None))
                | None \<Rightarrow>
                    op_then (op_when (addr_tuple dest \<noteq> addr_tuple zero_address) (exit_data now i source dest data))
                      (op_return None)))
      | _ \<Rightarrow> op_return None)"

definition known_circuit :: "int \<Rightarrow> tunnel_community \<Rightarrow> bool" where
  "known_circuit i t \<longleftrightarrow>
     dict_get (circuits t) i \<noteq> None \<or> dict_get (exit_sockets t) i \<noteq> None \<or> dict_get (relays t) i \<noteq> None"

definition on_ping :: "tunnel_env \<Rightarrow> seconds \<Rightarrow> address \<Rightarrow> tunnel_message \<Rightarrow> unit tc_op" where
  "on_ping E now source m =
     (case m of
        MPing i identifier \<Rightarrow>
          op_state (\<lambda>t.
            op_when (known_circuit i t)
              (op_then (op_modify (update_exit i (beat_heart now))) (send_message E source (MPong i identifier))))
      | _ \<Rightarrow> op_return ())"

definition on_pong :: "seconds \<Rightarrow> tunnel_message \<Rightarrow> unit tc_op" where
  "on_pong now m =
     (case m of
        MPong i identifier \<Rightarrow>
          op_state (\<lambda>t.
            op_when (dict_get (ping_caches t) identifier \<noteq> None)
              (op_modify (\<lambda>t. update_circuit i (beat_heart now)
                 (t\<lparr>ping_caches := dict_del identifier (ping_caches t)\<rparr>))))
      | _ \<Rightarrow> op_return ())"

fun ping_circuits :: "tunnel_env \<Rightarrow> circuit list \<Rightarrow> tunnel_draw list \<Rightarrow> unit tc_op" where
  "ping_circuits E [] ds = op_return ()"
| "ping_circuits E (c # cs) [] = op_return ()"
| "ping_circuits E (c # cs) (d # ds) =
     op_state (\<lambda>t.
       case unused_number (draw_numbers d) (ping_caches t) of
         None \<Rightarrow> op_raise RuntimeError
       | Some n \<Rightarrow>
           op_then (op_modify (\<lambda>t. t\<lparr>ping_caches := dict_set n () (ping_caches t)\<rparr>))
             (op_then
               (case first_hop c of
                  None \<Rightarrow> op_raise AttributeError
                | Some h \<Rightarrow> send_message E (hop_address h) (MPing (ro_id c) n))
               (ping_circuits E cs ds)))"

definition do_ping :: "tunnel_env \<Rightarrow> int list \<Rightarrow> tunnel_draw list \<Rightarrow> unit tc_op" where
  "do_ping E exclude ds =
     op_state (\<lambda>t.
       ping_circuits E
         (filter (\<lambda>c. state_of_circuit c \<in> {CIRCUIT_STATE_READY, CIRCUIT_STATE_EXTENDING} \<and> ro_id c \<notin> set exclude \<and>
             hops c \<noteq> []) (dict_values (circuits t))) ds)"

definition send_test_request ::
  "tunnel_env \<Rightarrow> seconds \<Rightarrow> tunnel_draw \<Rightarrow> circuit \<Rightarrow> nat \<Rightarrow> int \<Rightarrow> unit tc_op" where
  "send_test_request E now d c request_size response_size =
     op_state (\<lambda>t.
       case unused_number (draw_numbers d) (test_caches t) of
         None \<Rightarrow> op_raise RuntimeError
       | Some n \<Rightarrow>
           op_then (op_modify (\<lambda>t. t\<lparr>test_caches := dict_set n now (test_caches t)\<rparr>))
             (case first_hop c of
                None \<Rightarrow> op_raise AttributeError
              | Some h \<Rightarrow>
                  send_message E (hop_address h) (MTestRequest (ro_id c) n response_size (draw_bytes d request_size))))"

definition on_test_request :: "tunnel_env \<Rightarrow> seconds \<Rightarrow> tunnel_draw \<Rightarrow> address \<Rightarrow> tunnel_message \<Rightarrow> int \<Rightarrow> unit tc_op" where
  "on_test_request E now d source m i =
     (case m of
        MTestRequest _ identifier response_size _ \<Rightarrow>
          op_state (\<lambda>t.
            if PEER_FLAG_SPEED_TEST \<notin> set (peer_flags (tc_settings t)) then op_return ()
            else if dict_get (exit_sockets t) i = None \<and>
              \<not> (case dict_get (circuits t) i of
                   None \<Rightarrow> False | Some c \<Rightarrow> ctype c \<in> {CIRCUIT_TYPE_RP_SEEDER, CIRCUIT_TYPE_RP_DOWNLOADER})
            then op_return ()
            else
              op_then (op_modify (update_exit i (beat_heart now)))
                (send_message E source (MTestResponse i identifier (draw_bytes d (nat response_size)))))
      | _ \<Rightarrow> op_return ())"

definition on_test_response :: "seconds \<Rightarrow> tunnel_message \<Rightarrow> int \<Rightarrow> unit tc_op" where
  "on_test_response now m i =
     (case m of
        MTestResponse _ identifier data \<Rightarrow>
          op_state (\<lambda>t.
            if dict_get (circuits t) i = None then op_return ()
            else
              case dict_get (test_caches t) identifier of
                None \<Rightarrow> op_return ()
              | Some ts \<Rightarrow>
                  op_then (op_modify (\<lambda>t. t\<lparr>test_caches := dict_del identifier (test_caches t)\<rparr>))
                    (emit [TestResult identifier data (now - ts)]))
      | _ \<Rightarrow> op_return ())"

text \<open>
  \<^verbatim>\<open>on_destroy\<close>: a destroy message is signed, its sender the peer of the signature. First a relay, by the peer on the
  side of the circuit; then an exit socket or an own circuit.
\<close>

definition destroy_end :: "tpeer \<Rightarrow> int \<Rightarrow> int \<Rightarrow> unit tc_op" where
  "destroy_end p i reason =
     op_state (\<lambda>t.
       let own = (case dict_get (circuits t) i of
             None \<Rightarrow> op_return ()
           | Some c \<Rightarrow>
               (case first_hop c of
                  None \<Rightarrow> op_raise AttributeError
                | Some h \<Rightarrow> op_when (tpeer_eq p (hop_peer h)) 
                    (remove_circuit i (''got destroy with reason '' @ dec_string (nat reason)) False 0)))
       in case dict_get (exit_sockets t) i of
            None \<Rightarrow> own
          | Some x \<Rightarrow> if tpeer_eq p (hop_peer (exit_hop x)) then remove_exit_socket i False 0 else own)"

definition on_destroy :: "tpeer \<Rightarrow> int \<Rightarrow> int \<Rightarrow> unit tc_op" where
  "on_destroy p i reason =
     op_state (\<lambda>t.
       let next_relay = dict_get (relays t) i;
           prev_relay = (case next_relay of None \<Rightarrow> None | Some r \<Rightarrow> dict_get (relays t) (ro_id r))
       in case (next_relay, prev_relay) of
            (Some r, Some q) \<Rightarrow>
              if tpeer_eq p (hop_peer (relay_hop q))
              then op_then (remove_relay i False reason) (remove_relay (ro_id r) False 0)
              else destroy_end p i reason
          | _ \<Rightarrow> destroy_end p i reason)"

section \<open>Cells that arrive\<close>

text \<open>
  One message: coroutines wait in the event loop, and a packet inside the data of a circuit is given back. Exceptions
  are logged.
\<close>

definition handle_message ::
  "tunnel_env \<Rightarrow> seconds \<Rightarrow> tunnel_draw \<Rightarrow> address \<Rightarrow> int \<Rightarrow> tunnel_message \<Rightarrow> ((address \<times> bytes \<times> int) option) tc_op" where
  "handle_message E now d source i m =
     (case m of
        MData _ _ _ _ \<Rightarrow> on_data E now source m
      | MCreate _ _ _ _ \<Rightarrow> op_then (schedule [HandleCreate source m]) (op_return None)
      | MCreated _ _ _ _ _ \<Rightarrow> op_then (on_created E now d m) (op_return None)
      | MExtend _ _ _ _ _ \<Rightarrow> op_then (schedule [HandleExtend source m]) (op_return None)
      | MExtended _ _ _ _ _ \<Rightarrow> op_then (on_extended E d m) (op_return None)
      | MPing _ _ \<Rightarrow> op_then (on_ping E now source m) (op_return None)
      | MPong _ _ \<Rightarrow> op_then (on_pong now m) (op_return None)
      | MTestRequest _ _ _ _ \<Rightarrow> op_then (on_test_request E now d source m i) (op_return None)
      | MTestResponse _ _ _ \<Rightarrow> op_then (on_test_response now m i) (op_return None))"

text \<open>
  \<^verbatim>\<open>on_packet_from_circuit\<close>. A packet inside a packet is shorter than it, so as much fuel as the packet has bytes is
  enough.
\<close>

fun from_circuit ::
  "nat \<Rightarrow> tunnel_env \<Rightarrow> seconds \<Rightarrow> tunnel_draw \<Rightarrow> address \<Rightarrow> bytes \<Rightarrow> int \<Rightarrow> unit tc_op" where
  "from_circuit 0 E now d source data i = op_return ()"
| "from_circuit (Suc n) E now d source data i =
     op_state (\<lambda>t.
       if ce_prefix t \<noteq> take 22 data then op_return ()
       else if length data \<le> 22 then op_raise IndexError
       else
         case cell_handler (unat (data ! 22)) of
           None \<Rightarrow> op_return ()
         | Some s \<Rightarrow>
             op_logged
               (op_bind (op_of (read_message s data)) (\<lambda>m.
                  op_bind (handle_message E now d source i m) (\<lambda>inner.
                    case inner of
                      None \<Rightarrow> op_return ()
                    | Some (origin, packet, j) \<Rightarrow> from_circuit n E now d origin packet j))))"

definition on_packet_from_circuit ::
  "tunnel_env \<Rightarrow> seconds \<Rightarrow> tunnel_draw \<Rightarrow> address \<Rightarrow> bytes \<Rightarrow> int \<Rightarrow> unit tc_op" where
  "on_packet_from_circuit E now d source data i = from_circuit (length data) E now d source data i"

definition on_cell :: "tunnel_env \<Rightarrow> seconds \<Rightarrow> tunnel_draw \<Rightarrow> address \<Rightarrow> bytes \<Rightarrow> unit tc_op" where
  "on_cell E now d source data =
     op_bind (op_of (cell_from_bin data)) (\<lambda>cl.
       if plaintext cl \<and> message cl = [] then op_raise IndexError
       else if plaintext cl \<and> unat (hd (message cl)) \<notin> set NO_CRYPTO_PACKETS then op_return ()
       else
         op_state (\<lambda>t.
           op_bind (op_of (cell_unwrap (ce_prefix t) cl)) (\<lambda>packet.
             on_packet_from_circuit E now d source packet (circuit_id cl))))"

text \<open>
  The handler of packets of the overlay, which also has messages that are not modelled here. What the endpoint receives
  goes through its cryptography first.
\<close>

definition overlay_on_packet :: "tunnel_env \<Rightarrow> seconds \<Rightarrow> tunnel_draw \<Rightarrow> address \<Rightarrow> bytes \<Rightarrow> unit tc_op" where
  "overlay_on_packet E now d source data =
     op_state (\<lambda>t.
       if ce_prefix t \<noteq> take 22 data then op_return ()
       else if length data \<le> 22 then op_raise IndexError
       else if data ! 22 = CELL_MSG_ID then op_logged (on_cell E now d source data)
       else emit [OtherMessage source data])"

definition tunnel_on_packet :: "tunnel_env \<Rightarrow> seconds \<Rightarrow> tunnel_draw \<Rightarrow> address \<Rightarrow> bytes \<Rightarrow> unit tc_op" where
  "tunnel_on_packet E now d source data t =
     (case endpoint_on_packet (te_aead E) now
        (\<lambda>(a, b) t. let (t, r) = overlay_on_packet E now d a b t in (t, [], r)) (source, data) t of
        (t, packets, r) \<Rightarrow> (t\<lparr>tc_out := tc_out t @ map (\<lambda>(a, b). Sent a b) packets\<rparr>, r))"

section \<open>The event loop\<close>

text \<open>A coroutine that sleeps, or goes on at once when it is asked to and there is no delay.\<close>

definition after_delay :: "seconds \<Rightarrow> bool \<Rightarrow> tunnel_task \<Rightarrow> unit tc_op \<Rightarrow> unit tc_op" where
  "after_delay now remove_now later m =
     op_state (\<lambda>t.
       if \<not> remove_now \<or> 0 < remove_tunnel_delay (tc_settings t)
       then op_modify (\<lambda>t. t\<lparr>tc_sleeping := tc_sleeping t @ [(now + remove_tunnel_delay (tc_settings t), later)]\<rparr>)
       else m)"

definition pop_circuit :: "int \<Rightarrow> unit tc_op" where
  "pop_circuit i = op_modify (\<lambda>t. t\<lparr>circuits := dict_del i (circuits t)\<rparr>)"

definition pop_relay :: "int \<Rightarrow> unit tc_op" where
  "pop_relay i = op_modify (\<lambda>t. t\<lparr>relays := dict_del i (relays t)\<rparr>)"

definition pop_exit :: "int \<Rightarrow> unit tc_op" where
  "pop_exit i = op_modify (\<lambda>t. t\<lparr>exit_sockets := dict_del i (exit_sockets t)\<rparr>)"

definition run_remove_circuit :: "seconds \<Rightarrow> int \<Rightarrow> string \<Rightarrow> bool \<Rightarrow> int \<Rightarrow> unit tc_op" where
  "run_remove_circuit now i info remove_now destroy =
     op_then (pop_retry i)
       (op_state (\<lambda>t.
          case dict_get (circuits t) i of
            None \<Rightarrow> op_return ()
          | Some c \<Rightarrow>
              op_then (op_when (destroy \<noteq> 0) (destroy_circuit c destroy))
                (op_then (op_modify (update_circuit i (close_circuit info)))
                  (after_delay now remove_now (PopCircuit i) (pop_circuit i)))))"

definition run_remove_relay :: "seconds \<Rightarrow> int \<Rightarrow> bool \<Rightarrow> int \<Rightarrow> unit tc_op" where
  "run_remove_relay now i remove_now destroy =
     op_then (op_when (destroy \<noteq> 0) (destroy_relay i destroy)) (after_delay now remove_now (PopRelay i) (pop_relay i))"

definition run_remove_exit :: "seconds \<Rightarrow> int \<Rightarrow> bool \<Rightarrow> int \<Rightarrow> unit tc_op" where
  "run_remove_exit now i remove_now destroy =
     op_then
       (op_state (\<lambda>t.
          case dict_get (exit_sockets t) i of
            None \<Rightarrow> op_return () | Some x \<Rightarrow> op_when (destroy \<noteq> 0) (destroy_exit_socket x destroy)))
       (after_delay now remove_now (PopExit i) (pop_exit i))"

text \<open>A circuit that was removed in the meantime is not retried.\<close>

definition run_retry :: "tunnel_env \<Rightarrow> tunnel_draw \<Rightarrow> int \<Rightarrow> retry_candidates \<Rightarrow> int \<Rightarrow> unit tc_op" where
  "run_retry E d i cands tries =
     op_state (\<lambda>t.
       op_when (dict_get (circuits t) i \<noteq> None)
         (case cands of
            RetryFirst ps \<Rightarrow> send_initial_create E d i ps tries
          | RetryExtend ks \<Rightarrow> send_extend E d i ks tries))"

definition run_task :: "tunnel_env \<Rightarrow> seconds \<Rightarrow> tunnel_draw \<Rightarrow> tunnel_task \<Rightarrow> unit tc_op" where
  "run_task E now d k =
     (case k of
        RemoveCircuit i info remove_now destroy \<Rightarrow> run_remove_circuit now i info remove_now destroy
      | PopCircuit i \<Rightarrow> pop_circuit i
      | RemoveRelay i remove_now destroy \<Rightarrow> run_remove_relay now i remove_now destroy
      | PopRelay i \<Rightarrow> pop_relay i
      | RemoveExit i remove_now destroy \<Rightarrow> run_remove_exit now i remove_now destroy
      | PopExit i \<Rightarrow> pop_exit i
      | HandleCreate source m \<Rightarrow> on_create E now d source m
      | HandleExtend source m \<Rightarrow> on_extend E now d m
      | ExtendTo m p \<Rightarrow> extend_to E d m p
      | RetryLater i cands tries \<Rightarrow> run_retry E d i cands tries
      | OpenTransports i \<Rightarrow> op_modify (update_exit i (\<lambda>x. x\<lparr>exit_ipv4 := True\<rparr>)))"

text \<open>A cache that times out is removed; the one of a retry tries again with the candidates that are left.\<close>

definition retry_left :: "retry_candidates \<Rightarrow> bool" where
  "retry_left cands = (case cands of RetryFirst ps \<Rightarrow> ps \<noteq> [] | RetryExtend ks \<Rightarrow> ks \<noteq> [])"

definition retry_timeout :: "int \<Rightarrow> unit tc_op" where
  "retry_timeout i =
     op_state (\<lambda>t.
       case dict_get (retry_caches t) i of
         None \<Rightarrow> op_return ()
       | Some cache \<Rightarrow>
           op_then (pop_retry i)
             (case dict_get (circuits t) i of
                None \<Rightarrow> op_return ()
              | Some c \<Rightarrow>
                  if state_of_circuit c = CIRCUIT_STATE_CLOSING then op_return ()
                  else if \<not> retry_left (rt_candidates cache) \<or> rt_max_tries cache < 1
                    then remove_circuit i (''timeout, '' @ int_string (rt_max_tries cache) @ '' tries left'') False 0
                  else schedule [RetryLater i (rt_candidates cache) (rt_max_tries cache)]))"

datatype tunnel_event =
    Packet address bytes
  | SignedDestroy tpeer int int
  | Introduced tpeer bytes
  | NextTask
  | Awake
  | LookedUp tunnel_message tpeer
  | RetryTimeout int
  | CreateTimeout int
  | CreatedTimeout int
  | PingTimeout int
  | TestTimeout int
  | DoCircuits "bytes list" "tunnel_draw list"
  | BuildTunnels nat "bytes list" "tunnel_draw list"
  | MakeCircuit nat circuit_type "int list option" "tpeer option" "bytes option"
  | DoPing "int list" "tunnel_draw list"
  | Datagram int bytes address
  | Resolved int bytes address
  | OpenedIPv6 int
  | Unload

definition tunnel_step :: "tunnel_env \<Rightarrow> seconds \<Rightarrow> tunnel_draw \<Rightarrow> tunnel_event \<Rightarrow> unit tc_op" where
  "tunnel_step E now d ev =
     (case ev of
        Packet a data \<Rightarrow> tunnel_on_packet E now d a data
      | SignedDestroy p i reason \<Rightarrow> on_destroy p i reason
      | Introduced p extra \<Rightarrow> introduction_callback p extra
      | NextTask \<Rightarrow>
          op_state (\<lambda>t.
            case tc_tasks t of
              [] \<Rightarrow> op_return ()
            | k # ks \<Rightarrow> op_then (op_modify (\<lambda>t. t\<lparr>tc_tasks := ks\<rparr>)) (op_logged (run_task E now d k)))
      | Awake \<Rightarrow>
          op_modify (\<lambda>t. t\<lparr>tc_tasks := tc_tasks t @ map snd (filter (\<lambda>(due, _). due \<le> now) (tc_sleeping t)),
            tc_sleeping := filter (\<lambda>(due, _). now < due) (tc_sleeping t)\<rparr>)
      | LookedUp m p \<Rightarrow> schedule [ExtendTo m p]
      | RetryTimeout i \<Rightarrow> retry_timeout i
      | CreateTimeout n \<Rightarrow> op_modify (\<lambda>t. t\<lparr>create_caches := dict_del n (create_caches t)\<rparr>)
      | CreatedTimeout i \<Rightarrow> op_modify (\<lambda>t. t\<lparr>created_caches := dict_del i (created_caches t)\<rparr>)
      | PingTimeout n \<Rightarrow> op_modify (\<lambda>t. t\<lparr>ping_caches := dict_del n (ping_caches t)\<rparr>)
      | TestTimeout n \<Rightarrow> op_modify (\<lambda>t. t\<lparr>test_caches := dict_del n (test_caches t)\<rparr>)
      | DoCircuits peers ds \<Rightarrow> do_circuits E now peers ds
      | BuildTunnels n peers ds \<Rightarrow> build_tunnels E now peers ds n
      | MakeCircuit goal ct flags p hash \<Rightarrow>
          op_bind (create_circuit E now d goal ct flags p hash) (\<lambda>_. op_return ())
      | DoPing exclude ds \<Rightarrow> do_ping E exclude ds
      | Datagram i data source \<Rightarrow> datagram_received E i data source
      | Resolved i data dest \<Rightarrow> exit_sendto now i (data, dest)
      | OpenedIPv6 i \<Rightarrow> open_ipv6 now i
      | Unload \<Rightarrow> unload_removals)"

definition new_tunnel_community :: "tunnel_settings \<Rightarrow> bytes \<Rightarrow> tunnel_community" where
  "new_tunnel_community s p =
     \<lparr>ce_prefix = p, ce_max_relay_early = Some 8, ce_keys = [], circuits = [], relays = [], exit_sockets = [],
      ce_community = True, tc_settings = s, circuits_needed = [], candidates = [], create_caches = [], created_caches = [],
      retry_caches = [], ping_caches = [], test_caches = [], tc_tasks = [], tc_sleeping = [], tc_out = []\<rparr>"

inductive tunnel_reachable :: "tunnel_settings \<Rightarrow> bytes \<Rightarrow> tunnel_community \<Rightarrow> bool" for s p where
  start: "tunnel_reachable s p (new_tunnel_community s p)"
| step: "tunnel_reachable s p t \<Longrightarrow> tunnel_reachable s p (fst (tunnel_step E now d ev t))"

end
