(* ===== verification/Tunnel_Properties.thy ===== *)
theory Tunnel_Properties
  imports Tunnel Payload_Properties
begin

text \<open>
  Properties of circuits: every layer of encryption is removed by whoever shares its key, cells arrive at both ends of
  a circuit, and relays drop what they have to drop.
\<close>

section \<open>One layer\<close>

text \<open>What is relied upon of the authenticated encryption: it decrypts what it encrypted, and adds sixteen bytes.\<close>

definition aead_ok :: "aead \<Rightarrow> bool" where
  "aead_ok A \<longleftrightarrow> (\<forall>k n m c. aead_encrypt A k n m = Some c \<longrightarrow> aead_decrypt A k n c = Some m \<and> 16 \<le> length c)"

text \<open>Two parties that agreed on the keys and the salts; their counters may differ.\<close>

definition same_secret :: "session_keys \<Rightarrow> session_keys \<Rightarrow> bool" where
  "same_secret k k' \<longleftrightarrow> (\<forall>d. direction_key d k = direction_key d k' \<and> direction_salt d k = direction_salt d k')"

definition salts_ok :: "session_keys \<Rightarrow> bool" where
  "salts_ok k \<longleftrightarrow> (\<forall>d. length (direction_salt d k) = 4)"

lemma same_secret_refl [simp]: "same_secret k k"
  by (simp add: same_secret_def)

lemma same_secret_sym: "same_secret k k' \<Longrightarrow> same_secret k' k"
  by (simp add: same_secret_def)

lemma same_secret_trans: "same_secret k k' \<Longrightarrow> same_secret k' k'' \<Longrightarrow> same_secret k k''"
  by (simp add: same_secret_def)

lemma next_salt_secret: "same_secret k (snd (next_salt d k))"
  by (auto simp: same_secret_def next_salt_def direction_key_def direction_salt_def split: direction.split)

lemma encrypt_str_secret: "same_secret k (fst (encrypt_str A m d k))"
  using next_salt_secret [of k d] by (simp add: encrypt_str_def split_beta Let_def)

lemma length_pack_long: "pack_struct [SInt 8] [PInt n] = return e \<Longrightarrow> length e = 8"
  by (auto simp: pack_sfield_def bind_result_eq_Inr split: if_splits)

lemma decrypt_encrypt_str:
  assumes "aead_ok A" "encrypt_str A m d k = (k', return c)" "same_secret k l" "salts_ok k"
  shows "decrypt_str A c d l = return m"
proof -
  let ?n = "next_salt d k"
  have s: "same_secret (snd ?n) l" using same_secret_trans [OF same_secret_sym [OF next_salt_secret] assms(3)] .
  obtain e x where e: "pack_struct [SInt 8] [PInt (fst ?n)] = return e" "c = e @ x"
    "aead_encrypt A (direction_key d (snd ?n)) (direction_salt d (snd ?n) @ e) m = Some x"
    using assms(2) by (auto simp: encrypt_str_def split_beta Let_def bind_result_eq_Inr simp del: pack_struct.simps split: option.splits)
  have le: "length e = 8" by (rule length_pack_long [OF e(1)])
  have x: "aead_decrypt A (direction_key d l) (direction_salt d l @ e) x = Some m" "16 \<le> length x"
    using assms(1) e(3) s by (auto simp: aead_ok_def same_secret_def)
  have "length (direction_salt d l) = 4" using assms(3,4) by (simp add: salts_ok_def same_secret_def)
  then show ?thesis using x le by (simp add: decrypt_str_def e(2))
qed

section \<open>Layers\<close>

definition keyed :: "session_keys list \<Rightarrow> hop list \<Rightarrow> bool" where
  "keyed ks hs \<longleftrightarrow> (\<forall>h \<in> set hs. \<exists>i. hop_keys h = Some i \<and> i < length ks)"

definition same_keys :: "session_keys list \<Rightarrow> session_keys list \<Rightarrow> bool" where
  "same_keys ks ks' \<longleftrightarrow> length ks' = length ks \<and> (\<forall>i < length ks. same_secret (ks ! i) (ks' ! i))"

lemma same_keys_refl [simp]: "same_keys ks ks"
  by (simp add: same_keys_def)

lemma same_keys_sym: "same_keys ks ks' \<Longrightarrow> same_keys ks' ks"
  by (auto simp: same_keys_def same_secret_sym)

lemma same_keys_trans: "same_keys ks ks' \<Longrightarrow> same_keys ks' ks'' \<Longrightarrow> same_keys ks ks''"
  unfolding same_keys_def using same_secret_trans by metis

lemma encrypt_layer_keys: "same_keys ks (fst (encrypt_layer A d h ks m))"
proof (cases "hop_keys h")
  case (Some i)
  have "same_secret (ks ! j) (ks[i := fst (encrypt_str A m d (ks ! i))] ! j)" if "j < length ks" for j
    using that encrypt_str_secret [of "ks ! i" A m d] by (cases "j = i") simp_all
  with Some show ?thesis by (simp add: encrypt_layer_def same_keys_def split_beta Let_def)
qed (simp add: encrypt_layer_def)

lemma encrypt_layers_keys: "same_keys ks (fst (encrypt_layers A d hs ks m))"
proof (induction A d hs ks m rule: encrypt_layers.induct)
  case (2 A d h hs ks m)
  obtain ks' r where r: "encrypt_layer A d h ks m = (ks', r)" by (cases "encrypt_layer A d h ks m")
  have k: "same_keys ks ks'" using encrypt_layer_keys [of ks A d h m] r by simp
  show ?case
  proof (cases r)
    case (Inr x)
    have "same_keys ks' (fst (encrypt_layers A d hs ks' x))" using 2 r Inr by simp
    then show ?thesis using same_keys_trans [OF k] r Inr by simp
  qed (simp add: r k)
qed simp

lemma encrypt_layers_append:
  "encrypt_layers A d (hs @ hs') ks m =
     (case encrypt_layers A d hs ks m of (ks, Inl e) \<Rightarrow> (ks, raise e) | (ks, Inr m) \<Rightarrow> encrypt_layers A d hs' ks m)"
  by (induction A d hs ks m rule: encrypt_layers.induct) (auto split: prod.splits sum.splits)

lemma crypto_error_Inr [simp]: "crypto_error r = Inr x \<longleftrightarrow> r = Inr x"
  by (cases r) (auto simp: crypto_error_def split: py_error.splits)

text \<open>One layer, removed by whoever shares the secret of the hop.\<close>

lemma layer_inverse:
  assumes "aead_ok A" "encrypt_layer A d h ks m = (ks', return c)" "hop_keys h = Some i" "i < length ks"
    and "same_secret (ks ! i) l" "salts_ok (ks ! i)"
  shows "decrypt_str A c d l = return m"
  using assms decrypt_encrypt_str [OF assms(1) _ assms(5,6), of m d]
  by (auto simp: encrypt_layer_def split_beta Let_def prod_eq_iff)

lemma layers_inverse:
  assumes "aead_ok A" "encrypt_layers A d (rev hs) ks m = (ks', return c)" "keyed ks hs" "\<forall>k \<in> set ks. salts_ok k"
    and "same_keys ks ls"
  shows "decrypt_layers A d hs ls c = return m"
  using assms(2-5)
proof (induction hs arbitrary: ks m ks' c)
  case (Cons h hs)
  obtain ks1 x where x: "encrypt_layers A d (rev hs) ks m = (ks1, return x)" "encrypt_layer A d h ks1 x = (ks', return c)"
    using Cons.prems(1) by (auto simp: encrypt_layers_append split: prod.splits sum.splits)
  have k1: "same_keys ks ks1" using encrypt_layers_keys [of ks A d "rev hs" m] x(1) by simp
  obtain i where i: "hop_keys h = Some i" "i < length ks" using Cons.prems(2) by (auto simp: keyed_def)
  have s: "same_secret (ks1 ! i) (ls ! i)" "salts_ok (ks1 ! i)"
  proof -
    show "same_secret (ks1 ! i) (ls ! i)"
      using same_keys_trans [OF same_keys_sym [OF k1] Cons.prems(4)] i(2) k1 by (simp add: same_keys_def)
    have "same_secret (ks ! i) (ks1 ! i)" "salts_ok (ks ! i)" using k1 i(2) Cons.prems(3) by (simp_all add: same_keys_def)
    then show "salts_ok (ks1 ! i)" by (simp add: salts_ok_def same_secret_def)
  qed
  have "decrypt_str A c d (ls ! i) = return x"
    using layer_inverse [OF assms(1) x(2) i(1) _ s] k1 i(2) by (simp add: same_keys_def)
  moreover have "decrypt_layers A d hs ls x = return m"
    using Cons.prems(2-4) by (intro Cons.IH [OF x(1)]) (auto simp: keyed_def)
  ultimately show ?case using i(1) by (simp add: crypto_error_def)
qed simp

section \<open>Onions\<close>

text \<open>A content from which these secrets peel a layer each, in their order, and leave the message.\<close>

fun layered :: "aead \<Rightarrow> direction \<Rightarrow> session_keys list \<Rightarrow> bytes \<Rightarrow> bytes \<Rightarrow> bool" where
  "layered A d [] m c \<longleftrightarrow> c = m"
| "layered A d (k # ks) m c \<longleftrightarrow> (\<exists>x. (\<forall>l. same_secret k l \<longrightarrow> decrypt_str A c d l = return x) \<and> layered A d ks m x)"

definition hop_secret :: "session_keys list \<Rightarrow> hop \<Rightarrow> session_keys" where
  "hop_secret ks h = ks ! the (hop_keys h)"

lemma layer_adds:
  assumes "aead_ok A" "encrypt_layer A d h ks m = (ks', return c)" "keyed ks [h]" "salts_ok (hop_secret ks h)"
    and "layered A d ls x m"
  shows "layered A d (hop_secret ks h # ls) x c"
proof -
  obtain i where i: "hop_keys h = Some i" "i < length ks" using assms(3) by (auto simp: keyed_def)
  have "\<forall>l. same_secret (hop_secret ks h) l \<longrightarrow> decrypt_str A c d l = return m"
    using layer_inverse [OF assms(1,2) i] assms(4) i by (simp add: hop_secret_def)
  with assms(5) show ?thesis by auto
qed

lemma layered_same: "list_all2 same_secret ks ls \<Longrightarrow> layered A d ks m c \<Longrightarrow> layered A d ls m c"
proof (induction arbitrary: c rule: list_all2_induct)
  case (Cons k ks l ls)
  then obtain x where x: "\<forall>j. same_secret k j \<longrightarrow> decrypt_str A c d j = return x" "layered A d ks m x" by auto
  have "\<forall>j. same_secret l j \<longrightarrow> decrypt_str A c d j = return x"
    using x(1) same_secret_trans [OF Cons.hyps(1)] by blast
  then show ?case using Cons.IH [OF x(2)] by auto
qed simp

lemma layers_layered:
  assumes "aead_ok A" "encrypt_layers A d (rev hs) ks m = (ks', return c)" "keyed ks hs" "\<forall>k \<in> set ks. salts_ok k"
  shows "layered A d (map (hop_secret ks) hs) m c"
  using assms(2,3)
proof (induction hs arbitrary: c ks')
  case (Cons h hs)
  obtain ks1 x where x: "encrypt_layers A d (rev hs) ks m = (ks1, return x)" "encrypt_layer A d h ks1 x = (ks', return c)"
    using Cons.prems(1) by (auto simp: encrypt_layers_append split: prod.splits sum.splits)
  have k1: "same_keys ks ks1" using encrypt_layers_keys [of ks A d "rev hs" m] x(1) by simp
  obtain i where i: "hop_keys h = Some i" "i < length ks" using Cons.prems(2) by (auto simp: keyed_def)
  then have s: "same_secret (hop_secret ks h) (hop_secret ks1 h)" using k1 by (simp add: hop_secret_def same_keys_def)
  have "salts_ok (hop_secret ks h)" using assms(4) i by (simp add: hop_secret_def)
  then have "salts_ok (hop_secret ks1 h)" using s by (simp add: salts_ok_def same_secret_def)
  moreover have "keyed ks1 [h]" using i k1 by (simp add: keyed_def same_keys_def)
  moreover have "layered A d (map (hop_secret ks) hs) m x" using Cons.prems(2) by (intro Cons.IH [OF x(1)]) (simp add: keyed_def)
  ultimately have "layered A d (hop_secret ks1 h # map (hop_secret ks) hs) m c"
    by (intro layer_adds [OF assms(1) x(2)])
  moreover have "list_all2 same_secret (hop_secret ks1 h # map (hop_secret ks) hs) (hop_secret ks h # map (hop_secret ks) hs)"
    using same_secret_sym [OF s] by (simp add: list_all2_refl)
  ultimately have "layered A d (hop_secret ks h # map (hop_secret ks) hs) m c" by (rule layered_same [rotated])
  then show ?case by (simp del: layered.simps)
qed simp

lemma layered_decrypt:
  assumes "layered A d ks m c" "list_all2 (\<lambda>k h. \<exists>i. hop_keys h = Some i \<and> i < length ls \<and> same_secret k (ls ! i)) ks hs"
  shows "decrypt_layers A d hs ls c = return m"
  using assms(2,1) by (induction arbitrary: c rule: list_all2_induct) (auto simp: crypto_error_def)

section \<open>Relays\<close>

definition relay_ok ::
  "direction \<Rightarrow> bytes \<Rightarrow> 'a crypto_endpoint_scheme \<Rightarrow> int \<Rightarrow> int \<Rightarrow> address \<Rightarrow> session_keys \<Rightarrow> bool" where
  "relay_ok d p e i j to k \<longleftrightarrow>
     ce_prefix e = p \<and> 0 \<le> j \<and> j < 2 ^ 32 \<and>
     (\<exists>r. dict_get (relays e) i = Some r \<and> ro_id r = j \<and> relay_direction r = d \<and> \<not> rendezvous_relay r \<and>
        int (relay_cells r) < max_relay_early e \<and> hop_address (relay_hop r) = to \<and>
        (\<exists>n. hop_keys (relay_hop r) = Some n \<and> n < length (ce_keys e) \<and> same_secret k (ce_keys e ! n) \<and>
           salts_ok (ce_keys e ! n)))"

definition peeled :: "cell \<Rightarrow> int \<Rightarrow> bytes \<Rightarrow> cell" where
  "peeled cl i m = cl\<lparr>circuit_id := i, message := m\<rparr>"

lemma update_relay_simps [simp]:
  "ce_prefix (update_relay i f e) = ce_prefix e" "ce_keys (update_relay i f e) = ce_keys e"
  "circuits (update_relay i f e) = circuits e" "exit_sockets (update_relay i f e) = exit_sockets e"
  "max_relay_early (update_relay i f e) = max_relay_early e" "ce_community (update_relay i f e) = ce_community e"
  by (auto simp: update_relay_def max_relay_early_def split: option.split)

lemma get_update_relay:
  "dict_get (relays (update_relay i f e)) j = (if i = j then map_option f (dict_get (relays e) j) else dict_get (relays e) j)"
  by (auto simp: update_relay_def dict_get_set split: option.split)

text \<open>Counting what arrived changes neither the keys nor the way of a relay.\<close>

lemma relay_ok_counted:
  assumes "relay_ok d p e i j to k"
  shows "relay_ok d p (update_relay n (\<lambda>r. (beat_heart now r)\<lparr>bytes_down := f r\<rparr>) e) i j to k"
  using assms by (auto simp: relay_ok_def get_update_relay beat_heart_def)

lemma relay_cell_forward:
  assumes "relay_ok FORWARD p e (circuit_id cl) j to k" "\<not> plaintext cl" "layered A FORWARD (k # ks) m (message cl)" "length p = 22"
  shows "\<exists>e' packet x. relay_cell A cl e = (e', [(to, packet)], return ()) \<and>
    cell_from_bin packet = return (peeled cl j x) \<and> layered A FORWARD ks m x"
proof -
  obtain r n where r: "dict_get (relays e) (circuit_id cl) = Some r" "ro_id r = j" "relay_direction r = FORWARD"
    "\<not> rendezvous_relay r" "int (relay_cells r) < max_relay_early e" "hop_address (relay_hop r) = to"
    "hop_keys (relay_hop r) = Some n" "same_secret k (ce_keys e ! n)" "ce_prefix e = p" "0 \<le> j" "j < 2 ^ 32"
    using assms(1) by (auto simp: relay_ok_def)
  obtain x where x: "decrypt_str A (message cl) FORWARD (ce_keys e ! n) = return x" "layered A FORWARD ks m x"
    using assms(3) r(8) by auto
  have d: "decrypt_cell A FORWARD [relay_hop r] (ce_keys e) cl = return (cl\<lparr>message := x\<rparr>)"
    using assms(2) r(7) x(1) by (simp add: decrypt_cell_def crypto_error_def)
  let ?c = "peeled cl j x"
  have c: "cl\<lparr>message := x, circuit_id := j\<rparr> = ?c" by (simp add: peeled_def)
  obtain packet where packet: "cell_to_bin p ?c = return packet" "cell_from_bin packet = return ?c"
    using cell_bin_inverse [of p ?c] assms(4) r(10,11) by (auto simp: peeled_def)
  show ?thesis
    using assms(2) r d x(2) packet c
    by (simp add: relay_cell_def relay_crypto_def caught_def Let_def) blast
qed

text \<open>No counter of the endpoint overflows, and the library encrypts.\<close>

definition can_encrypt :: "aead \<Rightarrow> 'a crypto_endpoint_scheme \<Rightarrow> bool" where
  "can_encrypt A e \<longleftrightarrow> (\<forall>n < length (ce_keys e). \<forall>x. snd (encrypt_str A x BACKWARD (ce_keys e ! n)) \<in> range Inr)"

lemma relay_cell_backward:
  assumes "relay_ok BACKWARD p e (circuit_id cl) j to k" "\<not> plaintext cl" "layered A BACKWARD ks m (message cl)" "length p = 22"
    and "aead_ok A" "can_encrypt A e"
  shows "\<exists>e' packet x. relay_cell A cl e = (e', [(to, packet)], return ()) \<and>
    cell_from_bin packet = return (peeled cl j x) \<and> layered A BACKWARD (k # ks) m x"
proof -
  obtain r n where r: "dict_get (relays e) (circuit_id cl) = Some r" "ro_id r = j" "relay_direction r = BACKWARD"
    "\<not> rendezvous_relay r" "int (relay_cells r) < max_relay_early e" "hop_address (relay_hop r) = to"
    "hop_keys (relay_hop r) = Some n" "n < length (ce_keys e)" "same_secret k (ce_keys e ! n)" "ce_prefix e = p" "0 \<le> j" "j < 2 ^ 32"
    "salts_ok (ce_keys e ! n)"
    using assms(1) by (auto simp: relay_ok_def)
  obtain x where x: "snd (encrypt_str A (message cl) BACKWARD (ce_keys e ! n)) = return x" using assms(6) r(8) unfolding can_encrypt_def by blast
  obtain ks' where l: "encrypt_layer A BACKWARD (relay_hop r) (ce_keys e) (message cl) = (ks', return x)"
    using x r(7) by (simp add: encrypt_layer_def split_beta Let_def crypto_error_def)
  have s: "hop_secret (ce_keys e) (relay_hop r) = ce_keys e ! n" using r(7) by (simp add: hop_secret_def)
  have "layered A BACKWARD (hop_secret (ce_keys e) (relay_hop r) # ks) m x"
    using r s by (intro layer_adds [OF assms(5) l _ _ assms(3)]) (simp_all add: keyed_def)
  then have y: "layered A BACKWARD (k # ks) m x"
    using layered_same [of "(ce_keys e ! n) # ks" "k # ks"] same_secret_sym [OF r(9)] s by (simp add: list_all2_refl)
  have d: "encrypt_cell A BACKWARD [relay_hop r] (ce_keys e) cl = (ks', return (cl\<lparr>message := x\<rparr>))"
    using assms(2) l by (simp add: encrypt_cell_def)
  let ?c = "peeled cl j x"
  have c: "cl\<lparr>message := x, circuit_id := j\<rparr> = ?c" by (simp add: peeled_def)
  obtain packet where packet: "cell_to_bin p ?c = return packet" "cell_from_bin packet = return ?c"
    using cell_bin_inverse [of p ?c] assms(4) r(11,12) by (auto simp: peeled_def)
  show ?thesis
    using assms(2) r d y packet c
    by (simp add: relay_cell_def relay_crypto_def caught_def Let_def del: layered.simps) blast
qed

section \<open>Paths\<close>

text \<open>What a way of endpoints, each with its address, makes of a packet: every one receives what its predecessor sent.\<close>

fun carry ::
  "aead \<Rightarrow> seconds \<Rightarrow>
   (packet \<Rightarrow> 'a crypto_endpoint_scheme \<Rightarrow> 'a crypto_endpoint_scheme \<times> packet list \<times> unit result) \<Rightarrow>
   address \<Rightarrow> (address \<times> 'a crypto_endpoint_scheme) list \<Rightarrow> packet \<Rightarrow> packet option" where
  "carry A now deliver source [] packet = Some packet"
| "carry A now deliver source ((a, e) # nodes) packet =
     (if fst packet \<noteq> a then None
      else case process_cell A now deliver (source, snd packet) e of
             (_, [packet], Inr _) \<Rightarrow> carry A now deliver a nodes packet
           | _ \<Rightarrow> None)"

fun on_path ::
  "direction \<Rightarrow> bytes \<Rightarrow> (address \<times> 'a crypto_endpoint_scheme) list \<Rightarrow> session_keys list \<Rightarrow>
   address \<Rightarrow> int \<Rightarrow> address \<Rightarrow> int \<Rightarrow> bool" where
  "on_path d p [] ks a i b j \<longleftrightarrow> ks = [] \<and> a = b \<and> i = j"
| "on_path d p ((x, e) # nodes) ks a i b j \<longleftrightarrow>
     x = a \<and> ks \<noteq> [] \<and>
     (\<exists>to n. relay_ok d p e i n to (hd ks) \<and> on_path d p nodes (tl ks) to n b j)"

lemma relay_of: "relay_ok d p e i j to k \<Longrightarrow> \<exists>r. dict_get (relays e) i = Some r \<and> ro_id r = j"
  by (auto simp: relay_ok_def)

lemma process_forward:
  assumes "relay_ok FORWARD p e (circuit_id cl) j to k" "cell_from_bin data = return cl" "\<not> plaintext cl"
    and "layered A FORWARD (k # ks) m (message cl)" "length p = 22"
  shows "\<exists>e' packet x. process_cell A now deliver (source, data) e = (e', [(to, packet)], return ()) \<and>
    cell_from_bin packet = return (peeled cl j x) \<and> layered A FORWARD ks m x"
proof -
  obtain r where r: "dict_get (relays e) (circuit_id cl) = Some r" "ro_id r = j" using relay_of [OF assms(1)] by blast
  show ?thesis
    using relay_cell_forward [OF relay_ok_counted [OF assms(1)] assms(3-5)] r
    by (simp add: process_cell_def assms(2))
qed

lemma process_backward:
  assumes "relay_ok BACKWARD p e (circuit_id cl) j to k" "cell_from_bin data = return cl" "\<not> plaintext cl"
    and "layered A BACKWARD ks m (message cl)" "length p = 22" "aead_ok A" "can_encrypt A e"
  shows "\<exists>e' packet x. process_cell A now deliver (source, data) e = (e', [(to, packet)], return ()) \<and>
    cell_from_bin packet = return (peeled cl j x) \<and> layered A BACKWARD (k # ks) m x"
proof -
  obtain r where r: "dict_get (relays e) (circuit_id cl) = Some r" "ro_id r = j" using relay_of [OF assms(1)] by blast
  have "can_encrypt A (update_relay j (\<lambda>r. (beat_heart now r)\<lparr>bytes_down := bytes_down r + length data\<rparr>) e)"
    using assms(7) by (simp add: can_encrypt_def)
  from relay_cell_backward [OF relay_ok_counted [OF assms(1)] assms(3-6) this] r show ?thesis
    by (simp add: process_cell_def assms(2))
qed

lemma carry_forward:
  assumes "on_path FORWARD p nodes ks a (circuit_id cl) b j" "cell_from_bin data = return cl" "\<not> plaintext cl"
    and "layered A FORWARD (ks @ [k]) m (message cl)" "length p = 22"
  shows "\<exists>out x. carry A now deliver source nodes (a, data) = Some (b, out) \<and>
    cell_from_bin out = return (peeled cl j x) \<and> layered A FORWARD [k] m x"
  using assms(1-4)
proof (induction nodes arbitrary: ks a cl data source)
  case Nil
  then show ?case by (auto simp: peeled_def intro: exI [of _ "message cl"])
next
  case (Cons node nodes)
  obtain e where node: "node = (a, e)" using Cons.prems(1) by (cases node) auto
  obtain l ls to n where l: "ks = l # ls" "relay_ok FORWARD p e (circuit_id cl) n to l" "on_path FORWARD p nodes ls to n b j"
    using Cons.prems(1) node by (cases ks) auto
  obtain e' packet x where s: "process_cell A now deliver (source, data) e = (e', [(to, packet)], return ())"
    "cell_from_bin packet = return (peeled cl n x)" "layered A FORWARD (ls @ [k]) m x"
    using process_forward [OF l(2) Cons.prems(2,3) _ assms(5), of A "ls @ [k]" m now deliver source] Cons.prems(4) l(1)
    by auto
  have "\<exists>out y. carry A now deliver a nodes (to, packet) = Some (b, out) \<and>
      cell_from_bin out = return (peeled (peeled cl n x) j y) \<and> layered A FORWARD [k] m y"
    using l(3) s(2,3) Cons.prems(3) by (intro Cons.IH [of ls]) (simp_all add: peeled_def)
  then show ?case using s(1) by (simp add: node peeled_def)
qed

lemma carry_backward:
  assumes "on_path BACKWARD p nodes ks a (circuit_id cl) b j" "cell_from_bin data = return cl" "\<not> plaintext cl"
    and "layered A BACKWARD ls m (message cl)" "length p = 22" "aead_ok A" "\<forall>(_, e) \<in> set nodes. can_encrypt A e"
  shows "\<exists>out x. carry A now deliver source nodes (a, data) = Some (b, out) \<and>
    cell_from_bin out = return (peeled cl j x) \<and> layered A BACKWARD (rev ks @ ls) m x"
  using assms(1-4,7)
proof (induction nodes arbitrary: ks a cl data source ls)
  case Nil
  then show ?case by (auto simp: peeled_def intro: exI [of _ "message cl"])
next
  case (Cons node nodes)
  obtain e where node: "node = (a, e)" using Cons.prems(1) by (cases node) auto
  obtain k ks' to n where l: "ks = k # ks'" "relay_ok BACKWARD p e (circuit_id cl) n to k" "on_path BACKWARD p nodes ks' to n b j"
    using Cons.prems(1) node by (cases ks) auto
  obtain e' packet x where s: "process_cell A now deliver (source, data) e = (e', [(to, packet)], return ())"
    "cell_from_bin packet = return (peeled cl n x)" "layered A BACKWARD (k # ls) m x"
    using process_backward [OF l(2) Cons.prems(2,3,4) assms(5,6), of now deliver source] Cons.prems(5) node by auto
  have "\<exists>out y. carry A now deliver a nodes (to, packet) = Some (b, out) \<and>
      cell_from_bin out = return (peeled (peeled cl n x) j y) \<and> layered A BACKWARD (rev ks' @ (k # ls)) m y"
    using l(3) s(2,3) Cons.prems(3,5) by (intro Cons.IH [of ks']) (simp_all add: peeled_def)
  then show ?case using s(1) by (simp add: node peeled_def l(1))
qed

section \<open>The two ends of a circuit\<close>

lemma update_circuit_simps [simp]:
  "ce_prefix (update_circuit i f e) = ce_prefix e" "ce_keys (update_circuit i f e) = ce_keys e"
  "relays (update_circuit i f e) = relays e" "exit_sockets (update_circuit i f e) = exit_sockets e"
  "max_relay_early (update_circuit i f e) = max_relay_early e" "ce_community (update_circuit i f e) = ce_community e"
  by (auto simp: update_circuit_def max_relay_early_def split: option.split)

lemma get_update_circuit:
  "dict_get (circuits (update_circuit i f e)) j =
     (if i = j then map_option f (dict_get (circuits e) j) else dict_get (circuits e) j)"
  by (auto simp: update_circuit_def dict_get_set split: option.split)

lemma mark_relay_early_circuit:
  assumes "mark_relay_early cl e = return (e', cl')" "dict_get (circuits e) (circuit_id cl) = Some c"
  shows "ce_keys e' = ce_keys e" "ce_prefix e' = ce_prefix e" "exit_sockets e' = exit_sockets e" "relays e' = relays e"
    "\<exists>b. cl' = cl\<lparr>relay_early := b\<rparr>"
    "\<exists>c'. dict_get (circuits e') (circuit_id cl) = Some c' \<and> hops c' = hops c \<and> hs_session_keys c' = hs_session_keys c"
  using assms
  by (auto simp: mark_relay_early_def bind_result_eq_Inr Let_def get_update_circuit split: if_splits)

lemma caught_return [simp]: "caught (return c) = return (Some c)"
  by (simp add: caught_def)

lemma caught_Some [simp]: "caught r = return (Some c) \<longleftrightarrow> r = return c"
  by (auto simp: caught_def split: sum.splits py_error.splits)

lemma encrypt_cell_layered:
  assumes "aead_ok A" "encrypt_cell A d hs ks cl = (ks', return cl')" "keyed ks hs" "\<forall>k \<in> set ks. salts_ok k" "\<not> plaintext cl"
  shows "layered A d (map (hop_secret ks) hs) (message cl) (message cl')" "cl' = cl\<lparr>message := message cl'\<rparr>"
proof -
  obtain m where m: "encrypt_layers A d (rev hs) ks (message cl) = (ks', return m)" "cl' = cl\<lparr>message := m\<rparr>"
    using assms(2,5) by (auto simp: encrypt_cell_def split_beta Let_def bind_result_eq_Inr prod_eq_iff)
  then show "layered A d (map (hop_secret ks) hs) (message cl) (message cl')" "cl' = cl\<lparr>message := message cl'\<rparr>"
    using layers_layered [OF assms(1) m(1) assms(3,4)] by simp_all
qed

text \<open>What \<open>send_cell\<close> sends, when the cryptography gives this cell.\<close>

lemma send_cell_packet:
  assumes "send_cell A to cl e = (e', [(t, data)], r)"
  shows "\<exists>e1 cl1 e2 out. mark_relay_early cl e = return (e1, cl1) \<and> outgoing_crypto A cl1 e1 = (e2, return (Some out)) \<and>
    cell_to_bin (ce_prefix e2) out = return data \<and> t = to"
  using assms by (auto simp: send_cell_def split: sum.splits prod.splits option.splits)

lemma send_cell_circuit:
  assumes "send_cell A to cl e = (e', [(t, data)], r)" "dict_get (circuits e) (circuit_id cl) = Some c"
    and "hs_session_keys c = None" "\<not> plaintext cl" "keyed (ce_keys e) (hops c)" "\<forall>k \<in> set (ce_keys e). salts_ok k"
    and "aead_ok A" "length (ce_prefix e) = 22" "0 \<le> circuit_id cl" "circuit_id cl < 2 ^ 32"
  shows "t = to"
    "\<exists>b x. cell_from_bin data = return (cl\<lparr>relay_early := b, message := x\<rparr>) \<and>
       layered A FORWARD (map (hop_secret (ce_keys e)) (hops c)) (message cl) x"
proof -
  obtain e1 cl1 e2 out where s: "mark_relay_early cl e = return (e1, cl1)" "outgoing_crypto A cl1 e1 = (e2, return (Some out))"
    "cell_to_bin (ce_prefix e2) out = return data" "t = to"
    using send_cell_packet [OF assms(1)] by blast
  note m = mark_relay_early_circuit [OF s(1) assms(2)]
  obtain b where b: "cl1 = cl\<lparr>relay_early := b\<rparr>" using m(5) by blast
  obtain c' where c: "dict_get (circuits e1) (circuit_id cl) = Some c'" "hops c' = hops c" "hs_session_keys c' = None"
    using m(6) assms(3) by auto
  obtain ks where out: "encrypt_cell A FORWARD (hops c) (ce_keys e) cl1 = (ks, return out)" "ce_prefix e2 = ce_prefix e"
    using s(2) b c m(1,2)
    by (auto simp: outgoing_crypto_def encrypt_circuit_def split_beta Let_def prod_eq_iff)
  note l = encrypt_cell_layered [OF assms(7) out(1) assms(5,6)]
  have "cell_from_bin data = return out"
  proof -
    have i: "circuit_id out = circuit_id cl"
      using l(2) assms(4) b by (metis cell.select_convs(1,3) cell.surjective cell.update_convs(2,4))
    show ?thesis using cell_bin_inverse [of "ce_prefix e" out] assms(8-10) s(3) out(2) i by auto
  qed
  then show "t = to" "\<exists>b x. cell_from_bin data = return (cl\<lparr>relay_early := b, message := x\<rparr>) \<and>
       layered A FORWARD (map (hop_secret (ce_keys e)) (hops c)) (message cl) x"
    using l assms(4) b s(4) by auto
qed

section \<open>Counters with room\<close>

definition aead_total :: "aead \<Rightarrow> bool" where
  "aead_total A \<longleftrightarrow> (\<forall>k n m. aead_encrypt A k n m \<noteq> None)"

definition counter :: "direction \<Rightarrow> session_keys \<Rightarrow> int" where
  "counter d k = (case d of FORWARD \<Rightarrow> salt_explicit_forward k | BACKWARD \<Rightarrow> salt_explicit_backward k)"

text \<open>Keys that can encrypt so many more times in this direction: the counter is sent as a signed number of eight bytes.\<close>

definition keys_ok :: "direction \<Rightarrow> nat \<Rightarrow> session_keys list \<Rightarrow> bool" where
  "keys_ok d n ks \<longleftrightarrow> (\<forall>k \<in> set ks. salts_ok k \<and> - (2 ^ 63) \<le> counter d k \<and> counter d k + int n < 2 ^ 63)"

lemma next_salt_counter: "next_salt d k = (counter d k + 1, snd (next_salt d k))" "counter d (snd (next_salt d k)) = counter d k + 1"
  by (cases d; simp add: next_salt_def counter_def)+

lemma encrypt_str_total:
  assumes "aead_total A" "- (2 ^ 63) \<le> counter d k" "counter d k + 1 < 2 ^ 63"
  shows "snd (encrypt_str A m d k) \<in> range Inr"
proof -
  have "list_all2 sfield_ok [SInt 8] [PInt (counter d k + 1)]" using assms(2,3) by (simp add: sfield_ok_def)
  from struct_roundtrip [OF this] obtain e where e: "pack_struct [SInt 8] [PInt (counter d k + 1)] = return e" by blast
  obtain s where s: "next_salt d k = (counter d k + 1, s)" using next_salt_counter(1) by metis
  obtain c where "aead_encrypt A (direction_key d s) (direction_salt d s @ e) m = Some c"
    using assms(1) unfolding aead_total_def by (meson not_None_eq)
  then show ?thesis by (simp add: encrypt_str_def s Let_def e del: pack_struct.simps)
qed

lemma can_encrypt:
  assumes "aead_total A" "keys_ok BACKWARD 1 (ce_keys e)"
  shows "can_encrypt A e"
  using assms(2) encrypt_str_total [OF assms(1), of BACKWARD] by (auto simp: can_encrypt_def keys_ok_def)

lemma keys_ok_mono: "keys_ok d n ks \<Longrightarrow> m \<le> n \<Longrightarrow> keys_ok d m ks"
  by (fastforce simp: keys_ok_def)

lemma encrypt_str_counter: "counter d (fst (encrypt_str A m d k)) = counter d k + 1"
  using next_salt_counter by (simp add: encrypt_str_def split_beta Let_def)

lemma encrypt_layer_total:
  assumes "aead_total A" "keyed ks [h]" "keys_ok d (Suc n) ks"
  shows "\<exists>ks' c. encrypt_layer A d h ks m = (ks', return c) \<and> keys_ok d n ks' \<and> length ks' = length ks"
proof -
  obtain i where i: "hop_keys h = Some i" "i < length ks" using assms(2) by (auto simp: keyed_def)
  then have k: "salts_ok (ks ! i)" "- (2 ^ 63) \<le> counter d (ks ! i)" "counter d (ks ! i) + int (Suc n) < 2 ^ 63"
    using assms(3) by (simp_all add: keys_ok_def)
  obtain c where c: "snd (encrypt_str A m d (ks ! i)) = return c" using encrypt_str_total [OF assms(1) k(2)] k(3) by force
  have s: "salts_ok (fst (encrypt_str A m d (ks ! i)))"
    using k(1) encrypt_str_secret [of "ks ! i" A m d] by (simp add: salts_ok_def same_secret_def)
  have "keys_ok d n (ks[i := fst (encrypt_str A m d (ks ! i))])"
    unfolding keys_ok_def
  proof
    fix k assume "k \<in> set (ks[i := fst (encrypt_str A m d (ks ! i))])"
    then have "k = fst (encrypt_str A m d (ks ! i)) \<or> k \<in> set ks" using set_update_subset_insert by fast
    then show "salts_ok k \<and> - (2 ^ 63) \<le> counter d k \<and> counter d k + int n < 2 ^ 63"
      using assms(3) s k(2,3) encrypt_str_counter [of d A m "ks ! i"] by (auto simp: keys_ok_def)
  qed
  with i(1) c show ?thesis by (simp add: encrypt_layer_def split_beta Let_def crypto_error_def)
qed

lemma encrypt_layers_total:
  assumes "aead_total A" "keyed ks hs" "keys_ok d (length hs) ks"
  shows "\<exists>ks' c. encrypt_layers A d hs ks m = (ks', return c)"
  using assms(2,3)
proof (induction hs arbitrary: ks m)
  case (Cons h hs)
  obtain ks' c where c: "encrypt_layer A d h ks m = (ks', return c)" "keys_ok d (length hs) ks'" "length ks' = length ks"
    using encrypt_layer_total [OF assms(1), of ks h d "length hs" m] Cons.prems by (auto simp: keyed_def)
  have "\<exists>ks'' x. encrypt_layers A d hs ks' c = (ks'', return x)"
    using Cons.prems(1) c(2,3) by (intro Cons.IH) (simp_all add: keyed_def)
  then show ?case by (simp add: c(1))
qed simp

lemma encrypt_cell_total:
  assumes "aead_total A" "keyed ks hs" "keys_ok d (length hs) ks"
  shows "\<exists>ks' c. encrypt_cell A d hs ks cl = (ks', return c)"
proof -
  have "keyed ks (rev hs)" "keys_ok d (length (rev hs)) ks" using assms(2,3) by (simp_all add: keyed_def)
  then obtain ks' c where "encrypt_layers A d (rev hs) ks (message cl) = (ks', return c)"
    using encrypt_layers_total [OF assms(1), of ks "rev hs" d "message cl"] by auto
  then show ?thesis by (auto simp: encrypt_cell_def)
qed

section \<open>Cells arrive\<close>

definition exit_ok :: "'a crypto_endpoint_scheme \<Rightarrow> int \<Rightarrow> session_keys \<Rightarrow> bool" where
  "exit_ok e j k \<longleftrightarrow>
     (\<exists>x n. dict_get (exit_sockets e) j = Some x \<and> hop_keys (exit_hop x) = Some n \<and> n < length (ce_keys e) \<and>
        same_secret k (ce_keys e ! n))"

definition origin_ok :: "direction \<Rightarrow> 'a crypto_endpoint_scheme \<Rightarrow> int \<Rightarrow> session_keys list \<Rightarrow> bool" where
  "origin_ok d e i ks \<longleftrightarrow>
     (\<exists>c. dict_get (circuits e) i = Some c \<and> hs_session_keys c = None \<and> keyed (ce_keys e) (hops c) \<and>
        map (hop_secret (ce_keys e)) (hops c) = ks \<and> keys_ok d (length ks) (ce_keys e)) \<and>
     dict_get (exit_sockets e) i = None"

lemma send_cell_total:
  assumes "origin_ok FORWARD e (circuit_id cl) ks" "aead_total A" "\<not> plaintext cl" "message cl \<noteq> []"
    and "length (ce_prefix e) = 22" "0 \<le> circuit_id cl" "circuit_id cl < 2 ^ 32"
  shows "\<exists>e' packet. send_cell A to cl e = (e', [(to, packet)], return ())"
proof -
  obtain c where c: "dict_get (circuits e) (circuit_id cl) = Some c" "hs_session_keys c = None" "keyed (ce_keys e) (hops c)"
    "keys_ok FORWARD (length (hops c)) (ce_keys e)"
    using assms(1) by (auto simp: origin_ok_def)
  obtain e1 cl1 where m: "mark_relay_early cl e = return (e1, cl1)"
    using assms(4) c(1) by (cases "message cl") (auto simp: mark_relay_early_def is_extend_def Let_def)
  note k = mark_relay_early_circuit [OF m c(1)]
  obtain b where b: "cl1 = cl\<lparr>relay_early := b\<rparr>" using k(5) by blast
  obtain c' where c': "dict_get (circuits e1) (circuit_id cl) = Some c'" "hops c' = hops c" "hs_session_keys c' = None"
    using k(6) c(2) by auto
  obtain ks' out where out: "encrypt_cell A FORWARD (hops c) (ce_keys e) cl1 = (ks', return out)"
    using encrypt_cell_total [OF assms(2) c(3,4)] by blast
  have i: "circuit_id out = circuit_id cl"
    using out b assms(3) by (auto simp: encrypt_cell_def split_beta Let_def bind_result_eq_Inr prod_eq_iff)
  obtain packet where "cell_to_bin (ce_prefix e) out = return packet"
    using cell_bin_inverse [of "ce_prefix e" out] assms(5-7) i by auto
  then show ?thesis
    using m b c' out k(1,2) by (simp add: send_cell_def outgoing_crypto_def encrypt_circuit_def)
qed


lemma send_cell_exit:
  assumes "dict_get (circuits e) (circuit_id cl) = None" "exit_ok e (circuit_id cl) k" "keys_ok BACKWARD 1 (ce_keys e)"
    and "aead_ok A" "aead_total A" "\<not> plaintext cl" "length (ce_prefix e) = 22" "0 \<le> circuit_id cl" "circuit_id cl < 2 ^ 32"
  shows "\<exists>e' packet x. send_cell A to cl e = (e', [(to, packet)], return ()) \<and>
    cell_from_bin packet = return (cl\<lparr>message := x\<rparr>) \<and> layered A BACKWARD [k] (message cl) x"
proof -
  obtain s n where n: "dict_get (exit_sockets e) (circuit_id cl) = Some s" "hop_keys (exit_hop s) = Some n" "n < length (ce_keys e)"
    "same_secret k (ce_keys e ! n)" using assms(2) by (auto simp: exit_ok_def)
  have h: "keyed (ce_keys e) [exit_hop s]" using n(2,3) by (simp add: keyed_def)
  obtain ks out where out: "encrypt_cell A BACKWARD [exit_hop s] (ce_keys e) cl = (ks, return out)"
    using encrypt_cell_total [OF assms(5) h, of BACKWARD cl] assms(3) by auto
  have salts: "\<forall>k \<in> set (ce_keys e). salts_ok k" using assms(3) by (simp add: keys_ok_def)
  note l = encrypt_cell_layered [OF assms(4) out h salts assms(6)]
  have k: "list_all2 same_secret (map (hop_secret (ce_keys e)) [exit_hop s]) [k]"
    using same_secret_sym [OF n(4)] n(2) by (simp add: hop_secret_def)
  have x: "layered A BACKWARD [k] (message cl) (message out)" by (rule layered_same [OF k l(1)])
  have i: "circuit_id out = circuit_id cl" by (subst l(2)) simp
  obtain packet where "cell_to_bin (ce_prefix e) out = return packet" "cell_from_bin packet = return out"
    using cell_bin_inverse [of "ce_prefix e" out] assms(7-9) i by auto
  then show ?thesis
    using assms(1) n(1) out x l(2) i
    by (auto simp: send_cell_def mark_relay_early_def outgoing_crypto_def simp del: layered.simps)
qed

text \<open>An answer of the exit gathers a layer at every relay, and the originator removes them all.\<close>

theorem backward_cells_arrive:
  assumes "aead_ok A" "aead_total A" "length p = 22"
    and "ce_prefix e = p" "dict_get (circuits e) (circuit_id cl) = None" "exit_ok e (circuit_id cl) k"
    and "keys_ok BACKWARD 1 (ce_keys e)" "0 \<le> circuit_id cl" "circuit_id cl < 2 ^ 32" "\<not> plaintext cl"
    and "on_path BACKWARD p nodes ks to (circuit_id cl) b j" "\<forall>(_, e) \<in> set nodes. keys_ok BACKWARD 1 (ce_keys e)"
    and "origin_ok BACKWARD origin j (rev ks @ [k])"
  shows "\<exists>e' data out. send_cell A to cl e = (e', [(to, data)], return ()) \<and>
    carry A now deliver source nodes (to, data) = Some (b, out) \<and>
    (\<exists>x. cell_from_bin out = return x \<and> incoming_crypto A x origin = return (Some (cl\<lparr>circuit_id := j\<rparr>)))"
proof -
  have l: "length (ce_prefix e) = 22" using assms(3,4) by simp
  obtain e' data x where s: "send_cell A to cl e = (e', [(to, data)], return ())"
    "cell_from_bin data = return (cl\<lparr>message := x\<rparr>)" "layered A BACKWARD [k] (message cl) x"
    using send_cell_exit [OF assms(5-7,1,2,10) l assms(8,9)] by blast
  have n: "\<forall>(_, e) \<in> set nodes. can_encrypt A e" using assms(12) can_encrypt [OF assms(2)] by auto
  obtain out y where out: "carry A now deliver source nodes (to, data) = Some (b, out)"
    "cell_from_bin out = return (peeled (cl\<lparr>message := x\<rparr>) j y)" "layered A BACKWARD (rev ks @ [k]) (message cl) y"
    using carry_backward [of p nodes ks to "cl\<lparr>message := x\<rparr>" b j data A "[k]" "message cl" now deliver source]
      assms(1,3,10,11) s n by auto
  obtain c where c: "dict_get (circuits origin) j = Some c" "hs_session_keys c = None" "keyed (ce_keys origin) (hops c)"
    "map (hop_secret (ce_keys origin)) (hops c) = rev ks @ [k]" "dict_get (exit_sockets origin) j = None"
    using assms(13) by (auto simp: origin_ok_def)
  have "list_all2 (\<lambda>k h. \<exists>i. hop_keys h = Some i \<and> i < length (ce_keys origin) \<and> same_secret k (ce_keys origin ! i))
      (map (hop_secret (ce_keys origin)) (hops c)) (hops c)"
    using c(3) by (auto simp: list.rel_map keyed_def hop_secret_def intro!: list.rel_refl_strong)
  then have "decrypt_layers A BACKWARD (hops c) (ce_keys origin) y = return (message cl)"
    using layered_decrypt [of A BACKWARD "map (hop_secret (ce_keys origin)) (hops c)" "message cl" y] out(3) c(4)
    by (simp del: layered.simps)
  then have "incoming_crypto A (peeled (cl\<lparr>message := x\<rparr>) j y) origin = return (Some (cl\<lparr>circuit_id := j\<rparr>))"
    using c(1,2,5) assms(10) by (simp add: incoming_crypto_def decrypt_circuit_def peeled_def decrypt_cell_def)
  with s(1) out(1,2) show ?thesis by blast
qed

section \<open>Relays drop what they should\<close>

text \<open>A relay that receives cells, and what it sends for those with the flag.\<close>

fun relay_all ::
  "aead \<Rightarrow> cell list \<Rightarrow> 'a crypto_endpoint_scheme \<Rightarrow> 'a crypto_endpoint_scheme \<times> (cell \<times> packet list) list" where
  "relay_all A [] e = (e, [])"
| "relay_all A (cl # cls) e =
     (case relay_cell A cl e of
        (e, out, _) \<Rightarrow> (case relay_all A cls e of (e, rest) \<Rightarrow> (e, (cl, out) # rest)))"

definition early_sent :: "int \<Rightarrow> (cell \<times> packet list) list \<Rightarrow> nat" where
  "early_sent i trace = sum_list (map (\<lambda>(cl, out). if circuit_id cl = i \<and> relay_early cl then length out else 0) trace)"

lemma relay_cell_log:
  assumes "relay_cell A cl e = (e', out, res)" "dict_get (relays e) i = Some r"
  shows relay_cell_counts: "\<exists>r'. dict_get (relays e') i = Some r' \<and> relay_cells r \<le> relay_cells r' \<and>
      (circuit_id cl = i \<longrightarrow> relay_cells r' = relay_cells r + length out) \<and>
      (circuit_id cl = i \<and> relay_early cl \<and> out \<noteq> [] \<longrightarrow> int (relay_cells r) < max_relay_early e)"
    and relay_cell_max: "max_relay_early e' = max_relay_early e"
proof -
  show "\<exists>r'. dict_get (relays e') i = Some r' \<and> relay_cells r \<le> relay_cells r' \<and>
      (circuit_id cl = i \<longrightarrow> relay_cells r' = relay_cells r + length out) \<and>
      (circuit_id cl = i \<and> relay_early cl \<and> out \<noteq> [] \<longrightarrow> int (relay_cells r) < max_relay_early e)"
    using assms
    by (auto simp: relay_cell_def Let_def get_update_relay split: if_splits option.splits sum.splits prod.splits)
  show "max_relay_early e' = max_relay_early e"
    using assms
    by (auto simp: relay_cell_def Let_def max_relay_early_def update_relay_def split: if_splits option.splits sum.splits prod.splits)
qed

text \<open>
  C27: However many cells arrive, with the flag or without it, for one way of a circuit no more cells with the flag are sent
  on than the limit leaves room for.
\<close>

theorem relay_early_is_bounded:
  assumes "dict_get (relays e) i = Some r" "relay_all A cls e = (e', trace)"
  shows "early_sent i trace \<le> nat (max_relay_early e - int (relay_cells r))"
  using assms
proof (induction A cls e arbitrary: r e' trace rule: relay_all.induct)
  case (2 A cl cls e)
  obtain e1 out res where c: "relay_cell A cl e = (e1, out, res)" by (metis prod_cases3)
  obtain e2 trace' where l: "relay_all A cls e1 = (e2, trace')" by (metis prod.exhaust)
  obtain r' where r: "dict_get (relays e1) i = Some r'" "relay_cells r \<le> relay_cells r'"
    "circuit_id cl = i \<longrightarrow> relay_cells r' = relay_cells r + length out"
    "circuit_id cl = i \<and> relay_early cl \<and> out \<noteq> [] \<longrightarrow> int (relay_cells r) < max_relay_early e"
    using relay_cell_counts [OF c "2.prems"(1)] by blast
  have "early_sent i trace' \<le> nat (max_relay_early e1 - int (relay_cells r'))"
    using "2.IH" [OF c [symmetric] refl r(1)] l by auto
  moreover have "max_relay_early e1 = max_relay_early e" by (rule relay_cell_max [OF c "2.prems"(1)])
  moreover have "length out \<le> 1"
    using c by (auto simp: relay_cell_def Let_def split: if_splits option.splits sum.splits prod.splits)
  moreover have "trace = (cl, out) # trace'" using "2.prems"(2) c l by simp
  ultimately show ?case using r(2-4) by (cases out) (auto simp: early_sent_def)
qed (simp add: early_sent_def)

text \<open>A cell that is not encrypted is never relayed, and changes nothing but the activity of its circuit.\<close>

theorem plaintext_is_not_relayed:
  assumes "cell_from_bin data = return cl" "plaintext cl" "dict_get (relays e) (circuit_id cl) = Some r"
  shows "process_cell A now deliver (source, data) e =
    (update_relay (ro_id r) (\<lambda>r. (beat_heart now r)\<lparr>bytes_down := bytes_down r + length data\<rparr>) e, [], return ())"
  using assms by (simp add: process_cell_def relay_cell_def)

text \<open>
  C28: What reaches the community without encryption is a cell that creates a circuit or answers to it; a cell that extends
  a circuit carries the flag; and a cell of an unknown circuit was not encrypted.
\<close>

theorem delivered_cells_are_allowed:
  assumes "process_cell A now (\<lambda>packet e. (e, [packet], return ())) (source, data) e = (e', [p], res)"
    and "cell_from_bin data = return cl" "dict_get (relays e) (circuit_id cl) = None"
  shows "\<exists>cl'. incoming_crypto A cl e = return (Some cl') \<and> fst p = source \<and> cell_to_bin (ce_prefix e) cl' = return (snd p) \<and>
    message cl' \<noteq> [] \<and> 0 < max_relay_early e \<and> (hd (message cl') = 4 \<longrightarrow> relay_early cl') \<and>
    (plaintext cl' \<longrightarrow> unat (hd (message cl')) \<in> set NO_CRYPTO_PACKETS)"
proof -
  obtain cl' where cl: "incoming_crypto A cl e = return (Some cl')" "cell_allowed cl' e = return True"
    "cell_to_bin (ce_prefix e) cl' = return (snd p)" "fst p = source"
    using assms by (auto simp: process_cell_def split: sum.splits option.splits bool.splits if_splits)
  obtain b m where m: "message cl' = b # m" using cl(2) by (cases "message cl'") (auto simp: cell_allowed_def is_extend_def)
  show ?thesis
    using cl m by (auto simp: cell_allowed_def is_extend_def)
qed

section \<open>A circuit of two hops\<close>

text \<open>An encryption that puts the start of the key in front and leaves the content readable: it satisfies the laws.\<close>

definition plain_aead :: aead where
  "plain_aead =
     \<lparr>aead_encrypt = (\<lambda>k n m. Some (take 16 (k @ replicate 16 0) @ m)),
      aead_decrypt = (\<lambda>k n c. if take 16 c = take 16 (k @ replicate 16 0) then Some (drop 16 c) else None)\<rparr>"

lemma plain_aead_ok: "aead_ok plain_aead" "aead_total plain_aead"
  by (auto simp: aead_ok_def aead_total_def plain_aead_def)

definition sample_keys :: "byte \<Rightarrow> session_keys" where
  "sample_keys b =
     \<lparr>key_forward = replicate 32 b, key_backward = replicate 32 (b + 1), salt_forward = [b, 0, 0, 1],
      salt_backward = [b, 0, 0, 2], salt_explicit_forward = 1, salt_explicit_backward = 1\<rparr>"

definition sample_hop :: "byte \<Rightarrow> address \<Rightarrow> nat \<Rightarrow> hop" where
  "sample_hop b a n = plain_hop \<lparr>tp_key = [b], tp_address = a\<rparr> (Some n)"

abbreviation sample_address :: "nat \<Rightarrow> address" where
  "sample_address n \<equiv> Address UDPv4Address ''10.0.0.1'' (int n)"

definition sample_endpoint :: "session_keys list \<Rightarrow> crypto_endpoint" where
  "sample_endpoint ks =
     \<lparr>ce_prefix = replicate 22 7, ce_max_relay_early = None, ce_keys = ks, circuits = [], relays = [], exit_sockets = [],
      ce_community = True\<rparr>"

definition sample_origin :: crypto_endpoint where
  "sample_origin =
     (sample_endpoint [sample_keys 1, sample_keys 11])\<lparr>circuits :=
       [(5, (new_circuit 0 5 2 CIRCUIT_TYPE_DATA None None)\<lparr>hops :=
         [sample_hop 21 (sample_address 1) 0, sample_hop 22 (sample_address 2) 1]\<rparr>)]\<rparr>"

definition sample_relay :: crypto_endpoint where
  "sample_relay =
     (sample_endpoint [sample_keys 1])\<lparr>relays :=
       [(5, new_relay 0 6 (sample_hop 22 (sample_address 2) 0) FORWARD False),
        (6, new_relay 0 5 (sample_hop 20 (sample_address 0) 0) BACKWARD False)]\<rparr>"

definition sample_exit :: crypto_endpoint where
  "sample_exit =
     (sample_endpoint [sample_keys 11])\<lparr>exit_sockets :=
       [(6, \<lparr>ro_id = 6, creation_time = 0, last_activity = 0, bytes_up = 0, bytes_down = 0,
             exit_hop = sample_hop 21 (sample_address 1) 0, exit_enabled = False, exit_ipv4 = False, exit_ipv6 = False, exit_queue = []\<rparr>)]\<rparr>"

definition sample_cell :: "int \<Rightarrow> cell" where
  "sample_cell i = \<lparr>circuit_id = i, message = [1, 2, 3], plaintext = False, relay_early = False\<rparr>"

lemmas sample_defs = sample_origin_def sample_relay_def sample_exit_def sample_endpoint_def sample_hop_def sample_cell_def
  plain_hop_def new_relay_def new_circuit_def

lemma sample_origin_ok: "origin_ok d sample_origin 5 [sample_keys 1, sample_keys 11]"
  by (cases d)
    (simp_all add: origin_ok_def sample_defs keyed_def hop_secret_def keys_ok_def salts_ok_def sample_keys_def
      direction_salt_def counter_def less_Suc_eq split: direction.split)

lemma sample_exit_ok: "exit_ok sample_exit 6 (sample_keys 11)"
  by (simp add: exit_ok_def sample_defs)

lemma sample_relay_ok:
  "relay_ok FORWARD (replicate 22 7) sample_relay 5 6 (sample_address 2) (sample_keys 1)"
  "relay_ok BACKWARD (replicate 22 7) sample_relay 6 5 (sample_address 0) (sample_keys 1)"
  by (simp_all add: relay_ok_def sample_defs salts_ok_def sample_keys_def direction_salt_def max_relay_early_def
      split: direction.split)


theorem backward_cells_arrive_witness:
  "\<exists>e' data out. send_cell plain_aead (sample_address 1) (sample_cell 6) sample_exit =
      (e', [(sample_address 1, data)], return ()) \<and>
    carry plain_aead 9 (\<lambda>p e. (e, [], return ())) (sample_address 2) [(sample_address 1, sample_relay)]
      (sample_address 1, data) = Some (sample_address 0, out) \<and>
    (\<exists>x. cell_from_bin out = return x \<and>
      incoming_crypto plain_aead x sample_origin = return (Some (sample_cell 6\<lparr>circuit_id := 5\<rparr>)))"
proof -
  have p: "on_path BACKWARD (replicate 22 7) [(sample_address 1, sample_relay)] [sample_keys 1] (sample_address 1) 6
      (sample_address 0) 5"
    using sample_relay_ok(2) by auto
  have k: "keys_ok BACKWARD 1 (ce_keys sample_exit)" "keys_ok BACKWARD 1 (ce_keys sample_relay)"
    by (simp_all add: sample_defs keys_ok_def salts_ok_def sample_keys_def direction_salt_def counter_def split: direction.split)
  have q: "dict_get (circuits sample_exit) (circuit_id (sample_cell 6)) = None"
    "ce_prefix sample_exit = replicate 22 7" by (simp_all add: sample_defs)
  show ?thesis
    using backward_cells_arrive [OF plain_aead_ok, of "replicate 22 7" sample_exit "sample_cell 6" "sample_keys 11"
      "[(sample_address 1, sample_relay)]" "[sample_keys 1]" "sample_address 1" "sample_address 0" 5 sample_origin
      9 "\<lambda>p e. (e, [], return ())" "sample_address 2"] p k q sample_origin_ok sample_exit_ok
    by (simp add: sample_cell_def)
qed

theorem relay_early_is_bounded_witness:
  "early_sent 5 (snd (relay_all plain_aead (replicate 9 (sample_cell 5\<lparr>relay_early := True\<rparr>)) sample_relay)) \<le> 7"
  using relay_early_is_bounded [of sample_relay 5 _ plain_aead "replicate 9 (sample_cell 5\<lparr>relay_early := True\<rparr>)",
    OF _ prod.collapse [symmetric]]
  by (simp add: sample_relay_def sample_endpoint_def new_relay_def max_relay_early_def)

theorem plaintext_is_not_relayed_witness:
  "process_cell plain_aead 4 (\<lambda>p e. (e, [], return ()))
     (sample_address 0, replicate 22 7 @ [0, 0, 0, 0, 5, 1, 0] @ [2, 2]) sample_relay =
   (update_relay 6 (\<lambda>r. (beat_heart 4 r)\<lparr>bytes_down := bytes_down r + 31\<rparr>) sample_relay, [], return ())"
proof -
  have "cell_from_bin (replicate 22 7 @ [0, 0, 0, 0, 5, 1, 0] @ [2, 2]) =
      return \<lparr>circuit_id = 5, message = [2, 2], plaintext = True, relay_early = False\<rparr>"
    by (simp add: cell_from_bin_def numeral_eq_Suc) code_simp
  then show ?thesis
    using plaintext_is_not_relayed [of "replicate 22 7 @ [0, 0, 0, 0, 5, 1, 0] @ [2, 2]"
      "\<lparr>circuit_id = 5, message = [2, 2], plaintext = True, relay_early = False\<rparr>" sample_relay _ plain_aead 4 "\<lambda>p e. (e, [], return ())" "sample_address 0"]
    by (simp add: sample_relay_def sample_endpoint_def new_relay_def del: append.simps)
qed

abbreviation create_packet :: bytes where
  "create_packet \<equiv> replicate 22 7 @ [0, 0, 0, 0, 5, 1, 0] @ [2, 2]"

lemma create_cell:
  "cell_from_bin create_packet = return \<lparr>circuit_id = 5, message = [2, 2], plaintext = True, relay_early = False\<rparr>"
  by (simp add: cell_from_bin_def numeral_eq_Suc) code_simp

lemma create_bin:
  "cell_to_bin (replicate 22 7) \<lparr>circuit_id = 5, message = [2, 2], plaintext = True, relay_early = False\<rparr> = return create_packet"
  by code_simp

theorem delivered_cells_are_allowed_witness:
  "\<exists>cl'. incoming_crypto plain_aead \<lparr>circuit_id = 5, message = [2, 2], plaintext = True, relay_early = False\<rparr>
      (sample_endpoint []) = return (Some cl') \<and> unat (hd (message cl')) \<in> set NO_CRYPTO_PACKETS"
proof -
  let ?cl = "\<lparr>circuit_id = 5, message = [2, 2], plaintext = True, relay_early = False\<rparr>"
  have i: "incoming_crypto plain_aead ?cl (sample_endpoint []) = return (Some ?cl)"
    by (simp add: incoming_crypto_def sample_endpoint_def)
  have "cell_allowed ?cl (sample_endpoint []) = return True"
    by (simp add: cell_allowed_def is_extend_def sample_endpoint_def max_relay_early_def NO_CRYPTO_PACKETS_def
        tunnel_CreatePayload_def tunnel_CreatedPayload_def)
  then have "\<exists>e' res. process_cell plain_aead 4 (\<lambda>packet e. (e, [packet], return ())) (sample_address 0, create_packet) (sample_endpoint []) =
      (e', [(sample_address 0, create_packet)], res)"
    using create_cell create_bin i by (simp add: process_cell_def sample_endpoint_def del: append.simps)
  then show ?thesis
    using delivered_cells_are_allowed [OF _ create_cell, of plain_aead 4 "sample_address 0" "sample_endpoint []"] i
    by (auto simp: sample_endpoint_def simp del: append.simps)
qed

end
