(* ===== verification/TunnelCommunity_Properties.thy ===== *)
theory TunnelCommunity_Properties
  imports TunnelCommunity Tunnel_Properties
begin

text \<open>
  Properties of the tunnel overlay: what its operations keep whatever happens, the limit of joined circuits, what leaves
  its exit sockets, who can take a circuit down, the keys that both sides of a handshake agree on, and messages that
  arrive as they were sent.
\<close>

section \<open>Reasoning about operations\<close>

lemma keeps_message [keeps_intros]:
  assumes "\<And>a b c d. m = MData a b c d \<Longrightarrow> keeps P (f1 a b c d)" "\<And>a b c d. m = MCreate a b c d \<Longrightarrow> keeps P (f2 a b c d)"
    "\<And>a b c d e. m = MCreated a b c d e \<Longrightarrow> keeps P (f3 a b c d e)"
    "\<And>a b c d e. m = MExtend a b c d e \<Longrightarrow> keeps P (f4 a b c d e)"
    "\<And>a b c d e. m = MExtended a b c d e \<Longrightarrow> keeps P (f5 a b c d e)"
    "\<And>a b. m = MPing a b \<Longrightarrow> keeps P (f6 a b)" "\<And>a b. m = MPong a b \<Longrightarrow> keeps P (f7 a b)"
    "\<And>a b c d. m = MTestRequest a b c d \<Longrightarrow> keeps P (f8 a b c d)" "\<And>a b c. m = MTestResponse a b c \<Longrightarrow> keeps P (f9 a b c)"
  shows "keeps P (case_tunnel_message f1 f2 f3 f4 f5 f6 f7 f8 f9 m)"
  using assms by (cases m) simp_all

lemma keeps_retry [keeps_intros]:
  "(\<And>ps. x = RetryFirst ps \<Longrightarrow> keeps P (f ps)) \<Longrightarrow> (\<And>ks. x = RetryExtend ks \<Longrightarrow> keeps P (g ks)) \<Longrightarrow>
   keeps P (case_retry_candidates f g x)"
  by (cases x) simp_all

lemma keeps_circuit_state [keeps_intros]:
  "(x = CIRCUIT_STATE_READY \<Longrightarrow> keeps P a) \<Longrightarrow> (x = CIRCUIT_STATE_EXTENDING \<Longrightarrow> keeps P b) \<Longrightarrow>
   (x = CIRCUIT_STATE_CLOSING \<Longrightarrow> keeps P c) \<Longrightarrow> keeps P (case_circuit_state a b c x)"
  by (cases x) simp_all

section \<open>Lengths and views\<close>

lemma length_update: "dict_get d i \<noteq> None \<Longrightarrow> length (dict_set i x d) = length d"
  by (induction d) auto

lemma length_set_le: "length (dict_set i x d) \<le> Suc (length d)"
  by (induction d) auto

lemma length_del_le: "length (dict_del i d) \<le> length d"
  by (induction d) auto

lemma update_circuit_tc [simp]:
  "tc_settings (update_circuit i f t) = tc_settings t" "exit_sockets (update_circuit i f t) = exit_sockets t"
  "tc_tasks (update_circuit i f t) = tc_tasks t" "retry_caches (update_circuit i f t) = retry_caches t"
  "relays (update_circuit i f t) = relays t"  "tc_out (update_circuit i f t) = tc_out t"
  "created_caches (update_circuit i f t) = created_caches t"
  by (simp_all add: update_circuit_def split: option.split)

lemma update_relay_tc [simp]:
  "tc_settings (update_relay i f t) = tc_settings t" "exit_sockets (update_relay i f t) = exit_sockets t"
  "tc_tasks (update_relay i f t) = tc_tasks t" "retry_caches (update_relay i f t) = retry_caches t"
  "circuits (update_relay i f t) = circuits t" "tc_out (update_relay i f t) = tc_out t"
  "length (relays (update_relay i f t)) = length (relays t)"
  "created_caches (update_relay i f t) = created_caches t"
  by (simp_all add: update_relay_def length_update split: option.split)

lemma length_update_exit [simp]:
  "length (exit_sockets (update_exit i f t)) = length (exit_sockets t)" "tc_settings (update_exit i f t) = tc_settings t"
  by (simp_all add: update_exit_def length_update split: option.split)

section \<open>What sending leaves alone\<close>

lemma mark_relay_early_frame:
  "mark_relay_early cl t = return (t', cl') \<Longrightarrow>
     tc_settings t' = tc_settings t \<and> exit_sockets t' = exit_sockets t \<and> tc_tasks t' = tc_tasks t \<and>
     retry_caches t' = retry_caches t \<and> relays t' = relays t \<and> created_caches t' = created_caches t \<and> tc_out t' = tc_out t"
  by (auto simp: mark_relay_early_def bind_result_eq_Inr Let_def split: option.splits if_splits)

lemma outgoing_crypto_frame:
  "outgoing_crypto A cl t = (t', r) \<Longrightarrow> \<exists>ks. t' = t\<lparr>ce_keys := ks\<rparr>"
  by (auto simp: outgoing_crypto_def split_beta Let_def)

lemma count_sent_frame [simp]:
  "tc_settings (count_sent i n t) = tc_settings t" "exit_sockets (count_sent i n t) = exit_sockets t"
  "tc_tasks (count_sent i n t) = tc_tasks t" "retry_caches (count_sent i n t) = retry_caches t"
  "created_caches (count_sent i n t) = created_caches t" "tc_out (count_sent i n t) = tc_out t"
  by (simp_all add: count_sent_def)

lemma send_cell_frame:
  assumes "send_cell A a cl t = (t', ps, r)"
  shows "tc_settings t' = tc_settings t" "exit_sockets t' = exit_sockets t" "tc_tasks t' = tc_tasks t"
    "retry_caches t' = retry_caches t" "created_caches t' = created_caches t" "tc_out t' = tc_out t"
proof -
  have "tc_settings t' = tc_settings t \<and> exit_sockets t' = exit_sockets t \<and> tc_tasks t' = tc_tasks t \<and>
    retry_caches t' = retry_caches t \<and> created_caches t' = created_caches t \<and> tc_out t' = tc_out t"
    using assms
    by (auto simp: send_cell_def split: sum.splits prod.splits option.splits
        dest!: mark_relay_early_frame outgoing_crypto_frame)
  then show "tc_settings t' = tc_settings t" "exit_sockets t' = exit_sockets t" "tc_tasks t' = tc_tasks t"
    "retry_caches t' = retry_caches t" "created_caches t' = created_caches t" "tc_out t' = tc_out t" by simp_all
qed

lemma send_message_frame:
  "tc_settings (fst (send_message E a m t)) = tc_settings t" "exit_sockets (fst (send_message E a m t)) = exit_sockets t"
  "tc_tasks (fst (send_message E a m t)) = tc_tasks t" "retry_caches (fst (send_message E a m t)) = retry_caches t"
  "created_caches (fst (send_message E a m t)) = created_caches t"
proof -
  have "tc_settings (fst (send_message E a m t)) = tc_settings t \<and>
    exit_sockets (fst (send_message E a m t)) = exit_sockets t \<and> tc_tasks (fst (send_message E a m t)) = tc_tasks t \<and>
    retry_caches (fst (send_message E a m t)) = retry_caches t \<and>
    created_caches (fst (send_message E a m t)) = created_caches t"
    by (auto simp: send_message_def op_bind_def op_of_def send_cell_frame split: sum.splits prod.splits)
  then show "tc_settings (fst (send_message E a m t)) = tc_settings t" "exit_sockets (fst (send_message E a m t)) = exit_sockets t"
    "tc_tasks (fst (send_message E a m t)) = tc_tasks t" "retry_caches (fst (send_message E a m t)) = retry_caches t"
    "created_caches (fst (send_message E a m t)) = created_caches t" by simp_all
qed

lemma send_message_out:
  "\<exists>ps. tc_out (fst (send_message E a m t)) = tc_out t @ map (\<lambda>(a, b). Sent a b) ps" "ce_prefix (fst (send_message E a m t)) = ce_prefix t"
proof -
  have p: "ce_prefix t' = ce_prefix t" if "send_cell A a cl t = (t', ps, r)" for A cl and t' :: tunnel_community and ps r
    using that
    by (auto simp: send_cell_def mark_relay_early_def bind_result_eq_Inr Let_def count_sent_def
        split: sum.splits prod.splits option.splits if_splits dest!: outgoing_crypto_frame)
  show "\<exists>ps. tc_out (fst (send_message E a m t)) = tc_out t @ map (\<lambda>(a, b). Sent a b) ps"
    by (auto simp: send_message_def op_bind_def op_of_def send_cell_frame split: sum.splits prod.splits intro: exI [of _ "[]"])
  show "ce_prefix (fst (send_message E a m t)) = ce_prefix t"
    by (auto simp: send_message_def op_bind_def op_of_def p split: sum.splits prod.splits)
qed

section \<open>Through the endpoint\<close>

lemma relay_cell_keeps:
  assumes "\<And>i f t. P t \<Longrightarrow> P (update_relay i f t)" "\<And>ks t. P t \<Longrightarrow> P (t\<lparr>ce_keys := ks\<rparr>)" "P t"
  shows "P (fst (relay_cell A cl (t :: tunnel_community)))"
  using assms by (auto simp: relay_cell_def Let_def split: option.split sum.split prod.split)

lemma endpoint_keeps:
  assumes "\<And>p t. P t \<Longrightarrow> P (fst (deliver p t))"
    and "\<And>i n t. P t \<Longrightarrow> P (update_circuit i (\<lambda>c. (beat_heart now c)\<lparr>bytes_down := bytes_down c + n\<rparr>) t)"
    and "\<And>i f t. P t \<Longrightarrow> P (update_relay i f t)" "\<And>ks t. P t \<Longrightarrow> P (t\<lparr>ce_keys := ks\<rparr>)" "P t"
  shows "P (fst (endpoint_on_packet A now deliver p (t :: tunnel_community)))"
proof -
  have process: "P (fst (process_cell A now deliver (source, data) t))" for source data
    using assms(5)
    by (auto simp: process_cell_def assms(2) assms(3) relay_cell_keeps [OF assms(3,4)] split: option.split sum.split bool.split prod.split)
      (metis assms(1,2) fst_conv)+
  show ?thesis
    using process assms(1,5) by (cases p) (simp add: endpoint_on_packet_def)
qed

lemma keeps_on_packet:
  assumes "\<And>a b. keeps P (overlay_on_packet E now d a b)"
    and "\<And>i n t. P t \<Longrightarrow> P (update_circuit i (\<lambda>c. (beat_heart now c)\<lparr>bytes_down := bytes_down c + n\<rparr>) t)"
    and "\<And>i f t. P t \<Longrightarrow> P (update_relay i f t)" "\<And>ks t. P t \<Longrightarrow> P (t\<lparr>ce_keys := ks\<rparr>)"
    and "\<And>out t. P t \<Longrightarrow> P (t\<lparr>tc_out := tc_out t @ map (\<lambda>(a, b). Sent a b) out\<rparr>)"
  shows "keeps P (tunnel_on_packet E now d a b)"
proof (rule keepsI)
  fix t assume t: "P t"
  let ?deliver = "\<lambda>(a, b) t. let (t, r) = overlay_on_packet E now d a b t in (t, [] :: packet list, r)"
  have "P (fst (?deliver p t))" if "P t" for p t
    using keepsD [OF assms(1) that] by (cases p) (simp add: split_beta Let_def)
  then have "P (fst (endpoint_on_packet (te_aead E) now ?deliver (a, b) t))"
    by (rule endpoint_keeps) (use assms(2-4) t in simp_all)
  then show "P (fst (tunnel_on_packet E now d a b t))"
    using assms(5) unfolding tunnel_on_packet_def by (auto split: prod.split)
qed

section \<open>Properties of the exit sockets and of what leaves\<close>

text \<open>
  What has to be shown of a property of the settings, the prefix, the exit sockets and the output, for it to hold
  whatever the overlay does.
\<close>

definition may_leave :: "tunnel_effect \<Rightarrow> bool" where
  "may_leave x \<longleftrightarrow> (case x of ExitSent _ _ _ \<Rightarrow> False | _ \<Rightarrow> True)"

named_theorems tunnel_keeps

locale tunnel_invariant =
  fixes P :: "tunnel_community \<Rightarrow> bool"
  assumes frame: "\<lbrakk>P t; tc_settings t' = tc_settings t; ce_prefix t' = ce_prefix t; exit_sockets t' = exit_sockets t;
      tc_out t' = tc_out t\<rbrakk> \<Longrightarrow> P t'"
    and emitted: "\<lbrakk>P t; list_all may_leave xs\<rbrakk> \<Longrightarrow> P (t\<lparr>tc_out := tc_out t @ xs\<rparr>)"
    and updated: "P t \<Longrightarrow> P (update_exit i f t)"
    and popped: "P t \<Longrightarrow> P (t\<lparr>exit_sockets := dict_del i (exit_sockets t)\<rparr>)"
    and joined: "\<lbrakk>P t; length (exit_sockets t) < max_joined_circuits (tc_settings t)\<rbrakk> \<Longrightarrow>
      P (t\<lparr>exit_sockets := dict_set i x (exit_sockets t)\<rparr>)"
    and exited: "\<lbrakk>P t; is_allowed data t\<rbrakk> \<Longrightarrow> P (t\<lparr>tc_out := tc_out t @ [ExitSent i data dest]\<rparr>)"
begin

lemma modified: "P t \<Longrightarrow> P (t\<lparr>tc_tasks := a\<rparr>)" "P t \<Longrightarrow> P (t\<lparr>retry_caches := b\<rparr>)" "P t \<Longrightarrow> P (t\<lparr>circuits := c\<rparr>)"
  "P t \<Longrightarrow> P (t\<lparr>relays := d\<rparr>)" "P t \<Longrightarrow> P (t\<lparr>ce_keys := e\<rparr>)" "P t \<Longrightarrow> P (update_circuit i f t)"
  "P t \<Longrightarrow> P (update_relay i g t)" "P t \<Longrightarrow> P (t\<lparr>candidates := h\<rparr>)" "P t \<Longrightarrow> P (t\<lparr>create_caches := j\<rparr>)"
  "P t \<Longrightarrow> P (t\<lparr>created_caches := k\<rparr>)" "P t \<Longrightarrow> P (t\<lparr>ping_caches := l\<rparr>)" "P t \<Longrightarrow> P (t\<lparr>test_caches := m\<rparr>)"
  "P t \<Longrightarrow> P (t\<lparr>tc_sleeping := n\<rparr>)" "P t \<Longrightarrow> P (t\<lparr>circuits_needed := p\<rparr>)"
  by (erule frame; simp)+

lemma keep_send [tunnel_keeps]: "keeps P (send_message E a m)"
proof (rule keepsI)
  fix t assume t: "P t"
  obtain ps where ps: "tc_out (fst (send_message E a m t)) = tc_out t @ map (\<lambda>(a, b). Sent a b) ps"
    using send_message_out(1) by blast
  have "P (t\<lparr>tc_out := tc_out t @ map (\<lambda>(a, b). Sent a b) ps\<rparr>)"
    by (rule emitted [OF t]) (auto simp: list_all_iff may_leave_def)
  then show "P (fst (send_message E a m t))"
    by (rule frame) (simp_all add: send_message_frame send_message_out(2) ps)
qed

lemma keep_emit [tunnel_keeps]: "list_all may_leave xs \<Longrightarrow> keeps P (emit xs)"
  unfolding emit_def by (intro keeps_modify emitted)

lemma keep_basic [tunnel_keeps]:
  "keeps P (schedule ks)" "keeps P (remove_circuit i info b n)" "keeps P (remove_relay i b n)"
  "keeps P (remove_exit_socket i b n)" "keeps P (pop_retry i)" "keeps P (send_data E a i dest source data)"
  "keeps P (add_keys k)" "keeps P (pop_circuit i)" "keeps P (pop_relay i)" "keeps P (pop_exit i)"
  by (simp_all add: schedule_def remove_circuit_def remove_relay_def remove_exit_socket_def pop_retry_def keep_send
      send_data_def pop_circuit_def pop_relay_def pop_exit_def keeps_modify modified popped)
    (simp add: keeps_def add_keys_def modified)

lemma keep_destroy [tunnel_keeps]:
  "keeps P (send_destroy a i n)" "keeps P (destroy_circuit c n)" "keeps P (destroy_relay i n)" "keeps P (destroy_exit_socket x n)"
proof -
  show *: "keeps P (send_destroy a i n)" for a i
    unfolding send_destroy_def by (rule keep_emit) (simp add: may_leave_def)
  show "keeps P (destroy_circuit c n)" "keeps P (destroy_relay i n)" "keeps P (destroy_exit_socket x n)"
    unfolding destroy_circuit_def destroy_relay_def destroy_exit_socket_def by (intro keeps_intros *)+
qed

lemma keep_create [tunnel_keeps]:
  "keeps P (send_initial_create E d i peers n)" "keeps P (create_circuit E now d goal ct flags req hash)"
proof -
  show *: "keeps P (send_initial_create E d i peers n)" for i peers n
    unfolding send_initial_create_def Let_def by (intro keeps_intros tunnel_keeps modified)
  show "keeps P (create_circuit E now d goal ct flags req hash)"
    unfolding create_circuit_def by (intro keeps_intros modified *)
qed

lemma keep_build [tunnel_keeps]:
  "keeps P (build_circuits E now n k ds)" "keeps P (build_needed E now needs ds)"
proof -
  show *: "keeps P (build_circuits E now n k ds)" for n k ds
    by (induction E now n k ds rule: build_circuits.induct) (simp_all add: keeps_intros tunnel_keeps)
  show "keeps P (build_needed E now needs ds)"
  proof (induction needs arbitrary: ds)
    case (Cons x xs)
    then show ?case by (cases x) (auto intro!: keeps_intros *)
  qed (simp add: keeps_intros)
qed

lemma keep_do [tunnel_keeps]:
  "keeps P (do_remove now peers)" "keeps P (do_circuits E now peers ds)" "keeps P (build_tunnels E now peers ds n)"
  "keeps P unload_removals"
proof -
  show 1: "keeps P (do_remove now peers)"
    unfolding do_remove_def by (intro keeps_intros tunnel_keeps modified)
  show 2: "keeps P (do_circuits E now peers ds)"
    unfolding do_circuits_def by (intro keeps_intros tunnel_keeps 1)
  show "keeps P (build_tunnels E now peers ds n)"
    unfolding build_tunnels_def by (intro keeps_intros 2 modified)
  show "keeps P unload_removals" unfolding unload_removals_def by (intro keeps_intros tunnel_keeps)
qed

end

context tunnel_invariant
begin

text \<open>Joining is the only operation that adds an exit socket, when the limit leaves room.\<close>

definition room :: "tunnel_community \<Rightarrow> bool" where
  "room t \<longleftrightarrow> P t \<and> length (exit_sockets t) < max_joined_circuits (tc_settings t)"

lemma room_keep:
  "keeps room (add_keys k)" "keeps room (op_of r)" "keeps room (op_modify (\<lambda>t. t\<lparr>created_caches := f t\<rparr>))"
  by (simp_all add: keeps_def add_keys_def op_of_def op_modify_def room_def modified)

lemma leads_exit: "leads room P (op_modify (\<lambda>t. t\<lparr>exit_sockets := dict_set i x (exit_sockets t)\<rparr>))"
  by (simp add: leads_def op_modify_def room_def joined)

lemma leads_join: "leads room P (join_circuit E now d source i ident node_key dh)"
proof -
  have "room s \<Longrightarrow> P s" for s by (simp add: room_def)
  then show ?thesis
    unfolding join_circuit_def Let_def op_then_def [of "op_modify (\<lambda>t. t\<lparr>created_caches := _ t\<rparr>)"]
    by (auto split: option.split prod.split
        intro!: leads_bind leads_state leads_then leads_exit keep_send room_keep leads_keeps [OF keeps_raise])
qed

lemma keep_on_create [tunnel_keeps]: "keeps P (on_create E now d source m)"
proof (cases m)
  case (MCreate i ident node_key dh)
  have "P (fst (join_circuit E now d source i ident node_key dh t))" if "P t" "should_join_circuit t" for t
    using leads_join that by (auto simp: leads_def room_def should_join_circuit_def)
  then show ?thesis
    unfolding on_create_def MCreate tunnel_message.case by (intro keeps_here) (simp add: op_return_def op_when_def)
qed (simp_all add: on_create_def keeps_intros)

lemma keep_extend [tunnel_keeps]:
  "keeps P (send_extend E d i cands n)" "keeps P (extend_to E d m p)" "keeps P (on_extend E now d m)"
proof -
  show "keeps P (send_extend E d i cands n)"
    unfolding send_extend_def by (intro keeps_intros tunnel_keeps modified)
  show *: "keeps P (extend_to E d m p)" for m p
    unfolding extend_to_def by (intro keeps_intros tunnel_keeps modified)
  show "keeps P (on_extend E now d m)"
    unfolding on_extend_def by (intro keeps_intros tunnel_keeps *) (simp add: may_leave_def)
qed

lemma keep_ours [tunnel_keeps]: "keeps P (ours_on_created_extended E d i key auth enc)"
proof -
  have 1: "keeps P (add_verified_hop i h n)" for n h
    unfolding add_verified_hop_def by (intro keeps_intros tunnel_keeps modified)
  have 2: "keeps P (continue_circuit E d i k enc)" for k
    unfolding continue_circuit_def by (intro keeps_intros tunnel_keeps)
  show ?thesis unfolding ours_on_created_extended_def by (intro keeps_intros tunnel_keeps 1 2)
qed

lemma keep_created [tunnel_keeps]: "keeps P (on_created E now d m)" "keeps P (on_extended E d m)"
proof -
  show "keeps P (on_created E now d m)"
    unfolding on_created_def relay_between_def by (intro keeps_intros tunnel_keeps modified)
  show "keeps P (on_extended E d m)"
    unfolding on_extended_def by (intro keeps_intros tunnel_keeps)
qed

lemma keep_exit_sendto [tunnel_keeps]: "keeps P (exit_sendto now i p)"
proof (cases p)
  case (Pair data dest)
  show ?thesis
    unfolding Pair exit_sendto_def prod.case
  proof (rule keeps_here)
    fix t assume t: "P t"
    have r: "P (t\<lparr>tc_out := tc_out t @ [Resolving i data dest]\<rparr>)" by (rule emitted [OF t]) (simp add: may_leave_def)
    have e: "P (t\<lparr>tc_out := tc_out t @ [ExitSent i data dest]\<rparr>)" if "is_allowed data t" by (rule exited [OF t that])
    show "P (fst ((case dict_get (exit_sockets t) i of
         None \<Rightarrow> op_return ()
       | Some x \<Rightarrow>
           if \<not> is_allowed data t then op_return ()
           else if addr_class dest = DomainAddress then emit [Resolving i data dest]
           else if \<not> (if addr_class dest = UDPv6Address then exit_ipv6 x else exit_ipv4 x)
             then op_modify (update_exit i (\<lambda>x. x\<lparr>exit_queue := enqueue (data, dest) (exit_queue x)\<rparr>))
           else
             op_then (emit [ExitSent i data dest])
               (op_modify (update_exit i (\<lambda>x. (beat_heart now x)\<lparr>bytes_up := bytes_up x + length data\<rparr>)))) t))"
      using t updated [OF t] updated [OF e] r
      by (auto simp: op_return_def emit_def op_modify_def op_then_def op_bind_def split: option.split)
  qed
qed

lemma keep_exit [tunnel_keeps]:
  "keeps P (enable_exit i)" "keeps P (open_ipv6 now i)" "keeps P (tunnel_data E i a b)" "keeps P (datagram_received E i b a)"
  "keeps P (exit_data now i a a' b)"
proof -
  show 1: "keeps P (enable_exit i)" unfolding enable_exit_def by (intro keeps_intros tunnel_keeps updated)
  show "keeps P (open_ipv6 now i)" unfolding open_ipv6_def by (intro keeps_intros tunnel_keeps updated)
  show 3: "keeps P (tunnel_data E i a b)" unfolding tunnel_data_def by (intro keeps_intros tunnel_keeps)
  show "keeps P (datagram_received E i b a)" unfolding datagram_received_def by (intro keeps_intros updated 3)
  show "keeps P (exit_data now i a a' b)" unfolding exit_data_def by (intro keeps_intros tunnel_keeps 1)
qed

lemma keep_handlers [tunnel_keeps]:
  "keeps P (on_data E now a m)" "keeps P (on_ping E now a m)" "keeps P (on_pong now m)"
  "keeps P (on_test_request E now d a m i)" "keeps P (on_test_response now m i)" "keeps P (on_destroy p i n)"
proof -
  show "keeps P (on_data E now a m)"
    unfolding on_data_def by (intro keeps_intros tunnel_keeps modified) (simp_all add: may_leave_def)
  show "keeps P (on_ping E now a m)" unfolding on_ping_def by (intro keeps_intros tunnel_keeps updated)
  show "keeps P (on_pong now m)" unfolding on_pong_def by (intro keeps_intros modified)
  show "keeps P (on_test_request E now d a m i)" unfolding on_test_request_def by (intro keeps_intros tunnel_keeps updated)
  show "keeps P (on_test_response now m i)"
    unfolding on_test_response_def by (intro keeps_intros tunnel_keeps modified) (simp_all add: may_leave_def)
  have *: "keeps P (destroy_end p i n)" for p i n
    unfolding destroy_end_def Let_def by (intro keeps_intros tunnel_keeps)
  show "keeps P (on_destroy p i n)" unfolding on_destroy_def by (intro keeps_intros tunnel_keeps *)
qed

lemma keep_packet [tunnel_keeps]: "keeps P (tunnel_on_packet E now d a b)"
proof -
  have 1: "keeps P (handle_message E now d a i m)" for a i m
    unfolding handle_message_def by (intro keeps_intros tunnel_keeps)
  have 2: "keeps P (from_circuit n E now d a b i)" for n a b i
  proof (induction n arbitrary: a b i)
    case (Suc n)
    then show ?case unfolding from_circuit.simps by (intro keeps_intros 1)
  qed (simp add: keeps_intros)
  have 4: "keeps P (on_cell E now d a b)" for a b
    unfolding on_cell_def on_packet_from_circuit_def by (intro keeps_intros 2)
  have 5: "keeps P (overlay_on_packet E now d a b)" for a b
    unfolding overlay_on_packet_def by (intro keeps_intros tunnel_keeps 4) (simp add: may_leave_def)
  show ?thesis
    by (rule keeps_on_packet [OF 5])
      (simp_all add: modified, rule emitted, simp_all add: list_all_iff may_leave_def split_beta)
qed

lemma keep_task [tunnel_keeps]: "keeps P (run_task E now d k)"
proof -
  have delay: "keeps P (after_delay now b k m)" if "keeps P m" for b k and m :: "unit tc_op"
    unfolding after_delay_def by (intro keeps_intros that modified)
  show ?thesis
    unfolding run_task_def run_remove_circuit_def run_remove_relay_def run_remove_exit_def run_retry_def
    by (cases k; simp only: tunnel_task.case; intro keeps_intros tunnel_keeps delay modified updated)
qed

lemma keep_step: "keeps P (tunnel_step E now d ev)"
proof -
  have i: "keeps P (introduction_callback q x)" for q x
    unfolding introduction_callback_def set_candidate_def Let_def by (intro keeps_intros modified)
  have r: "keeps P (retry_timeout n)" for n unfolding retry_timeout_def by (intro keeps_intros tunnel_keeps)
  have ping: "keeps P (ping_circuits E cs ds)" for cs ds
    by (induction E cs ds rule: ping_circuits.induct) (simp_all add: keeps_return, intro keeps_intros tunnel_keeps modified)
  have dp: "keeps P (do_ping E x ds)" for x ds unfolding do_ping_def by (intro keeps_intros ping)
  have aw: "P t \<Longrightarrow> P (t\<lparr>tc_tasks := a, tc_sleeping := b\<rparr>)" for t a b by (intro modified)
  show ?thesis
    unfolding tunnel_step_def
    by (cases ev; simp only: tunnel_event.case; intro keeps_intros tunnel_keeps i r dp modified aw)
qed

lemma reachable: "tunnel_reachable s p t \<Longrightarrow> P (new_tunnel_community s p) \<Longrightarrow> P t"
  by (induction rule: tunnel_reachable.induct) (auto intro: keepsD [OF keep_step])

end

section \<open>The limit of joined circuits\<close>

definition exits_ok :: "tunnel_settings \<Rightarrow> tunnel_community \<Rightarrow> bool" where
  "exits_ok s t \<longleftrightarrow> tc_settings t = s \<and> length (exit_sockets t) \<le> max_joined_circuits s"

interpretation exits: tunnel_invariant "exits_ok s" for s
  by unfold_locales
    (auto simp: exits_ok_def intro: le_trans [OF length_del_le] le_trans [OF length_set_le])

text \<open>C29: However events follow each other, there are never more exit sockets than circuits that may be joined.\<close>

theorem joined_circuits_are_limited:
  assumes "tunnel_reachable s p t"
  shows "length (exit_sockets t) \<le> max_joined_circuits s"
  using exits.reachable [OF assms, of s] by (simp add: exits_ok_def new_tunnel_community_def)

section \<open>What leaves the exit sockets\<close>

text \<open>What the flags of the settings allow, or packets of this overlay.\<close>

definition allowed_by :: "tunnel_settings \<Rightarrow> bytes \<Rightarrow> bytes \<Rightarrow> bool" where
  "allowed_by s p data \<longleftrightarrow>
     (could_be_bt data \<and> PEER_FLAG_EXIT_BT \<in> set (peer_flags s)) \<or>
     (could_be_ipv8 data \<and> (PEER_FLAG_EXIT_IPV8 \<in> set (peer_flags s) \<or> p = take 22 data))"

definition output_ok :: "tunnel_settings \<Rightarrow> bytes \<Rightarrow> tunnel_community \<Rightarrow> bool" where
  "output_ok s p t \<longleftrightarrow> tc_settings t = s \<and> ce_prefix t = p \<and>
     (\<forall>i data dest. ExitSent i data dest \<in> set (tc_out t) \<longrightarrow> allowed_by s p data)"

lemma update_exit_out [simp]: "tc_out (update_exit i f t) = tc_out t" "ce_prefix (update_exit i f t) = ce_prefix t"
  by (simp_all add: update_exit_def split: option.split)

interpretation exit_output: tunnel_invariant "output_ok s p" for s p
proof unfold_locales
  fix t xs assume t: "output_ok s p t" and xs: "list_all may_leave xs"
  have "ExitSent i data dest \<notin> set xs" for i data dest using xs by (auto simp: list_all_iff may_leave_def)
  with t show "output_ok s p (t\<lparr>tc_out := tc_out t @ xs\<rparr>)" by (auto simp: output_ok_def)
qed (auto simp: output_ok_def is_allowed_def allowed_by_def)

text \<open>C30: No exit socket sends anything that its settings do not allow, also not what waited while it was opened.\<close>

theorem exit_sends_allowed_data:
  assumes "tunnel_reachable s p t" "ExitSent i data dest \<in> set (tc_out t)"
  shows "allowed_by s p data"
proof -
  have "output_ok s p t"
    using exit_output.reachable [OF assms(1), of s p] by (simp add: output_ok_def new_tunnel_community_def)
  then show ?thesis using assms(2) by (auto simp: output_ok_def)
qed

section \<open>Who can destroy\<close>

text \<open>The peers next to us on this circuit.\<close>

definition adjacent :: "tpeer \<Rightarrow> int \<Rightarrow> tunnel_community \<Rightarrow> bool" where
  "adjacent p i t \<longleftrightarrow>
     (\<exists>r q. dict_get (relays t) i = Some r \<and> dict_get (relays t) (ro_id r) = Some q \<and>
        tpeer_eq p (hop_peer (relay_hop q))) \<or>
     (\<exists>x. dict_get (exit_sockets t) i = Some x \<and> tpeer_eq p (hop_peer (exit_hop x))) \<or>
     (\<exists>c h. dict_get (circuits t) i = Some c \<and> first_hop c = Some h \<and> tpeer_eq p (hop_peer h))"

text \<open>The circuits that a task takes down.\<close>

fun takes_down :: "tunnel_task \<Rightarrow> int set" where
  "takes_down (RemoveCircuit i _ _ _) = {i}"
| "takes_down (RemoveRelay i _ _) = {i}"
| "takes_down (RemoveExit i _ _) = {i}"
| "takes_down _ = {}"

lemma schedule_tasks: "schedule ks t = (t\<lparr>tc_tasks := tc_tasks t @ ks\<rparr>, return ())"
  by (simp add: schedule_def op_modify_def)

lemma destroy_end_tasks:
  "\<exists>ks. fst (destroy_end p i n t) = t\<lparr>tc_tasks := tc_tasks t @ ks\<rparr> \<and> (ks \<noteq> [] \<longrightarrow> adjacent p i t) \<and>
     (\<forall>k \<in> set ks. takes_down k = {i})"
proof -
  have own: "\<exists>ks. fst ((case dict_get (circuits t) i of
             None \<Rightarrow> op_return ()
           | Some c \<Rightarrow>
               (case first_hop c of
                  None \<Rightarrow> op_raise AttributeError
                | Some h \<Rightarrow> op_when (tpeer_eq p (hop_peer h)) (remove_circuit i info False 0))) t) =
      t\<lparr>tc_tasks := tc_tasks t @ ks\<rparr> \<and> (ks \<noteq> [] \<longrightarrow> adjacent p i t) \<and> (\<forall>k \<in> set ks. takes_down k = {i})" for info
    by (auto simp: op_return_def op_raise_def op_when_def remove_circuit_def schedule_tasks adjacent_def split: option.split
        intro: exI [of _ "[]"] exI [of _ "[RemoveCircuit i info False 0]"])
  show ?thesis
    using own
    by (auto simp: destroy_end_def op_state_def Let_def remove_exit_socket_def schedule_tasks adjacent_def split: option.split
        intro: exI [of _ "[RemoveExit i False 0]"])
qed

text \<open>
  C31: A destroy message schedules the removal of this circuit and, at a relay, of its continuation, and only when it is
  signed by a peer next to us; nothing else changes.
\<close>

theorem only_neighbours_destroy:
  "\<exists>ks. fst (on_destroy p i n t) = t\<lparr>tc_tasks := tc_tasks t @ ks\<rparr> \<and> (ks = [] \<or> adjacent p i t) \<and>
     \<Union> (takes_down ` set ks) \<subseteq> {i} \<union> ro_id ` set_option (dict_get (relays t) i)"
proof (cases "\<exists>r q. dict_get (relays t) i = Some r \<and> dict_get (relays t) (ro_id r) = Some q \<and> tpeer_eq p (hop_peer (relay_hop q))")
  case True
  then obtain r q where r: "dict_get (relays t) i = Some r" "dict_get (relays t) (ro_id r) = Some q"
    "tpeer_eq p (hop_peer (relay_hop q))" by blast
  then have "adjacent p i t" by (auto simp: adjacent_def)
  then show ?thesis
    using r
    by (intro exI [of _ "[RemoveRelay i False n, RemoveRelay (ro_id r) False 0]"])
      (simp add: on_destroy_def op_state_def op_then_def op_bind_def remove_relay_def schedule_tasks)
next
  case False
  then have d: "on_destroy p i n t = destroy_end p i n t"
    by (auto simp: on_destroy_def op_state_def Let_def split: option.split)
  obtain ks where "fst (destroy_end p i n t) = t\<lparr>tc_tasks := tc_tasks t @ ks\<rparr>" "ks \<noteq> [] \<longrightarrow> adjacent p i t"
    "\<forall>k \<in> set ks. takes_down k = {i}" using destroy_end_tasks by blast
  then show ?thesis by (intro exI [of _ ks]) (auto simp: d)
qed

section \<open>Agreement on keys\<close>

text \<open>The law of Diffie-Hellman keys: both sides of a pair of keys compute the same secret.\<close>

definition agreeing :: "(bytes \<Rightarrow> bytes) \<Rightarrow> (bytes \<Rightarrow> bytes \<Rightarrow> bytes option) \<Rightarrow> bool" where
  "agreeing pub box \<longleftrightarrow> (\<forall>a b. box (pub a) b = box (pub b) a \<and> box (pub a) b \<noteq> None)"

lemma secrets_agree:
  assumes "agreeing pub (te_box X)" "te_box O' = te_box X" "te_auth O' = te_auth X"
    and "generate_diffie_shared_secret X (b, pub b) (pub a) = return (s, key, auth)"
  shows "verify_and_generate_shared_secret O' a key auth (pub (te_my_secret X)) = return s"
proof -
  obtain x y where x: "te_box X (pub a) b = Some x" "te_box X (pub a) (te_my_secret X) = Some y"
    using assms(1) unfolding agreeing_def by (meson not_None_eq)
  then have s: "s = x @ y" "key = pub b" "auth = te_auth X (pub b) (take 32 s)"
    using assms(4) by (auto simp: generate_diffie_shared_secret_def shared_secrets_def)
  have "te_box O' (pub b) a = Some x" "te_box O' (pub (te_my_secret X)) a = Some y"
    using x assms(1,2) by (simp_all add: agreeing_def)
  then show ?thesis using s assms(3) by (simp add: verify_and_generate_shared_secret_def shared_secrets_def)
qed

text \<open>The hops of a circuit, and a key of the secret \<open>k\<close> at the position \<open>n\<close>.\<close>

definition hops_kept :: "int \<Rightarrow> hop list \<Rightarrow> nat \<Rightarrow> session_keys \<Rightarrow> tunnel_community \<Rightarrow> bool" where
  "hops_kept i hs n k t \<longleftrightarrow>
     (\<exists>c. dict_get (circuits t) i = Some c \<and> hops c = hs) \<and> n < length (ce_keys t) \<and> same_secret k (ce_keys t ! n)"

lemma outgoing_crypto_keys:
  assumes "outgoing_crypto A cl t = (t', r)"
  shows "same_keys (ce_keys t) (ce_keys t')"
proof -
  have cell: "same_keys ks (fst (encrypt_cell A d hs ks x))" for d hs ks x
    using encrypt_layers_keys [of ks A d "rev hs" "message x"] by (simp add: encrypt_cell_def split_beta Let_def)
  have circ: "same_keys ks (fst (encrypt_circuit A c ks x))" for c ks x
    using cell same_keys_trans
    by (auto simp: encrypt_circuit_def split: option.split sum.split prod.split) (metis fst_conv)+
  show "same_keys (ce_keys t) (ce_keys t')"
    using assms cell circ
    by (auto simp: outgoing_crypto_def split_beta Let_def split: option.splits)
qed


lemma hops_kept_circuit [simp]:
  "(\<And>c. hops (f c) = hops c) \<Longrightarrow> hops_kept i hs n k (update_circuit j f t) = hops_kept i hs n k t"
  by (auto simp: hops_kept_def get_update_circuit)

lemma hops_kept_cong:
  "circuits t' = circuits t \<Longrightarrow> same_keys (ce_keys t) (ce_keys t') \<Longrightarrow> hops_kept i hs n k t \<Longrightarrow> hops_kept i hs n k t'"
  unfolding hops_kept_def same_keys_def using same_secret_trans by metis

lemma hops_kept_mark:
  "mark_relay_early cl t = return (t', cl') \<Longrightarrow> hops_kept i hs n k t' = hops_kept i hs n k t"
  by (auto simp: mark_relay_early_def bind_result_eq_Inr Let_def split: option.splits if_splits)

lemma hops_kept_sent: "hops_kept i hs n k (count_sent j m t) = hops_kept i hs n k t"
  by (auto simp: count_sent_def hops_kept_def get_update_circuit)

lemma hops_kept_send_cell:
  assumes "send_cell A a cl t = (t', ps, r)" "hops_kept i hs n k t"
  shows "hops_kept i hs n k t'"
proof -
  have out: "hops_kept i hs n k u'" if "outgoing_crypto A x u = (u', q)" "hops_kept i hs n k u" for x and u u' :: tunnel_community and q
  proof -
    have "circuits u' = circuits u" using outgoing_crypto_frame [OF that(1)] by auto
    then show ?thesis using hops_kept_cong outgoing_crypto_keys [OF that(1)] that(2) by blast
  qed
  show ?thesis
    using assms
    by (auto simp: send_cell_def hops_kept_sent dest: hops_kept_mark out split: sum.splits prod.splits option.splits)
qed

lemma hops_kept_send [keeps_intros]: "keeps (hops_kept i hs n k) (send_message E a m)"
  by (auto simp: keeps_def send_message_def op_bind_def op_of_def hops_kept_def split: sum.splits prod.splits
      dest!: hops_kept_send_cell [of _ _ _ _ _ _ _ i hs n k, unfolded hops_kept_def])

lemma hops_kept_basic:
  "keeps (hops_kept i hs n k) (schedule ks)" "keeps (hops_kept i hs n k) (pop_retry j)"
  "keeps (hops_kept i hs n k) (remove_circuit j info b m)"
  by (simp_all add: keeps_def schedule_def pop_retry_def remove_circuit_def op_modify_def hops_kept_def)

lemma hops_kept_extend: "keeps (hops_kept i hs n k) (send_extend E d j cands m)"
proof -
  have "hops_kept i hs n k (t\<lparr>retry_caches := x\<rparr>) = hops_kept i hs n k t" for x t by (simp add: hops_kept_def)
  then show ?thesis unfolding send_extend_def by (intro keeps_intros hops_kept_basic) simp
qed

lemma hops_kept_continue: "keeps (hops_kept i hs n k) (continue_circuit E d j k' enc)"
  unfolding continue_circuit_def by (intro keeps_intros hops_kept_basic hops_kept_extend)

text \<open>What the originator knows after the answer that the other side has sent: the same secret, at a new hop.\<close>

lemma answer_adds_hop:
  assumes "dict_get (circuits t) i = Some c" "unverified_hop c = Some h" "dh_secret h = Some a"
    and "te_curve_key E (tp_key (hop_peer h)) = Some y"
    and "verify_and_generate_shared_secret E a key auth y = return s"
  shows "\<exists>n. hops_kept i (hops c @ [h\<lparr>hop_keys := Some n\<rparr>]) n (generate_session_keys (te_hkdf E) s)
    (fst (ours_on_created_extended E d i key auth enc t))"
proof -
  let ?k = "generate_session_keys (te_hkdf E) s" and ?n = "length (ce_keys t)"
  let ?t = "t\<lparr>ce_keys := ce_keys t @ [?k]\<rparr>" and ?h = "h\<lparr>hop_keys := Some (length (ce_keys t))\<rparr>"
  obtain c' r where c: "add_hop ?h (c\<lparr>unverified_hop := None\<rparr>) = (c', r)" by fastforce
  then have hs: "hops c' = hops c @ [?h]" by (auto simp: add_hop_def Let_def split: if_splits)
  let ?u = "update_circuit i (\<lambda>_. c') ?t"
  have kept: "hops_kept i (hops c @ [?h]) ?n ?k ?u"
    using assms(1) hs by (auto simp: hops_kept_def get_update_circuit)
  have run: "ours_on_created_extended E d i key auth enc t =
      (case r of Inl e \<Rightarrow> (?u, raise e) | Inr _ \<Rightarrow> continue_circuit E d i ?k enc ?u)"
    using assms c
    by (cases r) (simp_all add: ours_on_created_extended_def op_state_def op_bind_def op_then_def add_keys_def add_verified_hop_def
        op_modify_def op_of_def Let_def)
  have "hops_kept i (hops c @ [?h]) ?n ?k (fst (ours_on_created_extended E d i key auth enc t))"
    using kept keepsD [OF hops_kept_continue kept] by (cases r) (simp_all add: run)
  then show ?thesis by blast
qed

lemma count_sent_keys [simp]: "ce_keys (count_sent i n t) = ce_keys t"
  by (simp add: count_sent_def)

lemma mark_relay_early_keys: "mark_relay_early cl t = return (t', cl') \<Longrightarrow> ce_keys t' = ce_keys t"
  by (auto simp: mark_relay_early_def bind_result_eq_Inr Let_def split: option.splits if_splits)

lemma send_message_keys: "same_keys (ce_keys t) (ce_keys (fst (send_message E a m t)))"
proof -
  have "same_keys (ce_keys t) (ce_keys t')" if "send_cell A a cl t = (t', ps, r)" for A a cl t' ps r
    using that
    by (auto simp: send_cell_def mark_relay_early_keys split: sum.splits prod.splits option.splits
        dest: mark_relay_early_keys outgoing_crypto_keys)
  then show ?thesis by (auto simp: send_message_def op_bind_def op_of_def split: sum.splits prod.splits)
qed

lemma encrypt_str_fresh:
  "encrypt_str A m d (generate_session_keys f s) = (k, r) \<Longrightarrow> same_secret (generate_session_keys f s) k"
  using encrypt_str_secret [of "generate_session_keys f s" A m d] by simp

text \<open>What joining sends, and the key that it keeps for the circuit.\<close>

lemma join_circuit_run:
  assumes "join_circuit E now d source i identifier node_key dh u = (u', return ())"
  shows "\<exists>s key auth enc u1. generate_diffie_shared_secret E (draw_key d) dh = return (s, key, auth) \<and>
    join_circuit E now d source i identifier node_key dh u = send_message E source (MCreated i identifier key auth enc) u1 \<and>
    exit_ok u1 i (generate_session_keys (te_hkdf E) s)"
proof -
  obtain s key auth where g: "generate_diffie_shared_secret E (draw_key d) dh = return (s, key, auth)"
    using assms
    by (auto simp: join_circuit_def op_bind_def op_of_def split: sum.splits prod.splits)
  let ?k = "generate_session_keys (te_hkdf E) s" and ?p = "\<lparr>tp_key = node_key, tp_address = source\<rparr>"
  let ?peers = "announced_peers E u"
  let ?u0 = "u\<lparr>created_caches := dict_set i \<lparr>cd_candidate = ?p, cd_candidates = fold (\<lambda>p. dict_set (tp_key p) p) ?peers []\<rparr> (created_caches u)\<rparr>"
  have ok: "te_key_error E node_key = None" "dict_get (created_caches u) i = None"
    using assms g
    by (auto simp: join_circuit_def op_bind_def op_of_def op_state_def op_raise_def Let_def split: option.splits if_splits)
  obtain plain where plain: "serializer_pack tunnel_serializer ''varlenH-list'' (PList (map (PBytes \<circ> tp_key) ?peers)) = return plain"
    using assms g ok
    by (auto simp: join_circuit_def op_bind_def op_then_def op_modify_def op_of_def op_state_def op_raise_def Let_def split: sum.splits)
  obtain k r where e: "encrypt_str (te_aead E) plain FORWARD ?k = (k, r)" by fastforce
  obtain enc where enc: "r = return enc"
    using assms g ok plain e
    by (cases r) (auto simp: join_circuit_def op_bind_def op_then_def op_modify_def op_of_def op_state_def op_raise_def Let_def)
  let ?n = "length (ce_keys u)"
  let ?u1 = "?u0\<lparr>ce_keys := ce_keys u @ [k],
    exit_sockets := dict_set i (new_exit_socket now i (plain_hop ?p (Some ?n))) (exit_sockets u)\<rparr>"
  have "join_circuit E now d source i identifier node_key dh u = send_message E source (MCreated i identifier key auth enc) ?u1"
    using g ok plain e enc
    by (simp add: join_circuit_def op_bind_def op_then_def op_modify_def op_of_def op_state_def Let_def add_keys_def)
  moreover have "exit_ok ?u1 i ?k"
    using encrypt_str_fresh [OF e] by (simp add: exit_ok_def new_exit_socket_def plain_hop_def dict_get_set)
  ultimately show ?thesis using g by blast
qed

lemma exit_ok_cong:
  "exit_sockets t' = exit_sockets t \<Longrightarrow> same_keys (ce_keys t) (ce_keys t') \<Longrightarrow> exit_ok t i k \<Longrightarrow> exit_ok t' i k"
  unfolding exit_ok_def same_keys_def using same_secret_trans by metis

text \<open>
  C32: Whoever joins a circuit and whoever asked for it agree on the keys: the message that the joining side sends makes the
  originator add a hop whose key has the same secrets as the key of the new exit socket.
\<close>

theorem handshake_agrees:
  assumes "agreeing pub (te_box X)" "te_box O' = te_box X" "te_auth O' = te_auth X" "te_hkdf O' = te_hkdf X"
    and "draw_key d = (b, pub b)" "join_circuit X now d source i identifier node_key (pub a) u = (u', return ())"
    and "dict_get (circuits t) j = Some c" "unverified_hop c = Some h" "dh_secret h = Some a"
    and "te_curve_key O' (tp_key (hop_peer h)) = Some (pub (te_my_secret X))"
  shows "\<exists>key auth enc u1 k n.
    (u', return ()) = send_message X source (MCreated i identifier key auth enc) u1 \<and> exit_ok u' i k \<and>
    hops_kept j (hops c @ [h\<lparr>hop_keys := Some n\<rparr>]) n k (fst (ours_on_created_extended O' d' j key auth enc t))"
proof -
  obtain s key auth enc u1 where j: "generate_diffie_shared_secret X (b, pub b) (pub a) = return (s, key, auth)"
    "(u', return ()) = send_message X source (MCreated i identifier key auth enc) u1"
    "exit_ok u1 i (generate_session_keys (te_hkdf X) s)"
    using join_circuit_run [OF assms(6)] assms(5,6) by auto
  let ?k = "generate_session_keys (te_hkdf X) s"
  have u: "exit_sockets u' = exit_sockets u1" "same_keys (ce_keys u1) (ce_keys u')"
    using send_message_frame(2) send_message_keys j(2) by (metis fst_conv)+
  have v: "verify_and_generate_shared_secret O' a key auth (pub (te_my_secret X)) = return s"
    by (rule secrets_agree [OF assms(1-3) j(1)])
  show ?thesis
    using exit_ok_cong [OF u j(3)] j(2) answer_adds_hop [OF assms(7-10) v] assms(4) by metis
qed

section \<open>A run of the overlay\<close>

definition sample_env :: "bytes \<Rightarrow> bytes \<Rightarrow> tunnel_env" where
  "sample_env key secret =
     \<lparr>te_aead = plain_aead, te_hkdf = (\<lambda>s. replicate 72 7), te_box = (\<lambda>p s. Some (map (\<lambda>(x, y). x + y) (zip p s))),
      te_auth = (\<lambda>m k. replicate 32 1), te_my_key = key, te_my_secret = secret, te_key_error = (\<lambda>k. None),
      te_curve_key = (\<lambda>k. Some k), te_verified = (\<lambda>k. None), te_has_dht = False, te_tunnel_endpoint = False\<rparr>"

definition sample_draw :: "bytes \<Rightarrow> tunnel_draw" where
  "sample_draw k =
     \<lparr>draw_key = (k, k), draw_ids = [5, 6, 7], draw_numbers = [1, 2, 3], draw_identifier = 9, draw_choice = 0,
      draw_shuffle = (\<lambda>ps. ps), draw_bytes = (\<lambda>n. replicate n 0)\<rparr>"

definition sample_settings :: tunnel_settings where
  "sample_settings =
     \<lparr>max_circuits = 8, max_joined_circuits = 2, max_time = 3600, max_time_inactive = 20, max_traffic = 10 * 1024 ^ 3,
      circuit_timeout = 60, next_hop_timeout = 10, remove_tunnel_delay = 5, peer_flags = [1, 2, 8]\<rparr>"

definition sample_tunnels :: tunnel_community where
  "sample_tunnels = new_tunnel_community sample_settings (replicate 22 7)"

text \<open>Somebody asks to join a circuit; then a name has been resolved for its exit socket.\<close>

definition sample_create :: bytes where
  "sample_create = replicate 22 7 @ [0, 0, 0, 0, 5, 1, 0, 2, 0, 9, 0, 1, 8, 0, 1, 1]"

definition sample_step :: "tunnel_event \<Rightarrow> tunnel_community \<Rightarrow> tunnel_community" where
  "sample_step ev t = fst (tunnel_step (sample_env [3] [4]) 0 (sample_draw [2]) ev t)"

definition sample_arrived :: tunnel_community where
  "sample_arrived = fst (tunnel_on_packet (sample_env [3] [4]) 0 (sample_draw [2]) (sample_address 0) sample_create sample_tunnels)"

lemma sample_arrived: "sample_arrived = sample_tunnels\<lparr>tc_tasks := [HandleCreate (sample_address 0) (MCreate 5 9 [8] [1])]\<rparr>"
  by code_simp

text \<open>The exit socket that joining makes.\<close>

definition sample_exit_socket :: exit_socket where
  "sample_exit_socket = new_exit_socket 0 5 (plain_hop \<lparr>tp_key = [8], tp_address = sample_address 0\<rparr> (Some 0))"

definition sample_joined :: tunnel_community where
  "sample_joined = fst (join_circuit (sample_env [3] [4]) 0 (sample_draw [2]) (sample_address 0) 5 9 [8] [1] sample_tunnels)"

lemma sample_joined: "exit_sockets sample_joined = [(5, sample_exit_socket)]" "tc_settings sample_joined = sample_settings"
   "ce_prefix sample_joined = replicate 22 7"
  by code_simp+

definition sample_exited :: tunnel_community where
  "sample_exited = fst (op_then (open_ipv6 0 5) (exit_sendto 0 5 ([100, 101], Address UDPv6Address ''::1'' 80)) sample_joined)"

lemma sample_exited: "ExitSent 5 [100, 101] (Address UDPv6Address ''::1'' 80) \<in> set (tc_out sample_exited)"
  by (simp add: sample_exited_def op_then_def op_bind_def open_ipv6_def op_state_def op_modify_def sample_joined sample_exit_socket_def
    new_exit_socket_def exit_sendto_def is_allowed_def could_be_bt_def could_be_dht_def sample_settings_def update_exit_def op_return_def emit_def)


lemma sample_reached:
  "tunnel_reachable sample_settings (replicate 22 7) sample_joined"
  "tunnel_reachable sample_settings (replicate 22 7) sample_exited"
proof -
  let ?r = "tunnel_reachable sample_settings (replicate 22 7)" and ?E = "sample_env [3] [4]" and ?d = "sample_draw [2]"
  have "?r sample_tunnels" unfolding sample_tunnels_def by (rule tunnel_reachable.start)
  from tunnel_reachable.step [OF this, of ?E 0 ?d "Packet (sample_address 0) sample_create"]
  have a: "?r sample_arrived" by (simp add: sample_arrived_def tunnel_step_def)
  have "fst (tunnel_step ?E 0 ?d NextTask sample_arrived) = sample_joined"
  proof -
    have "sample_tunnels\<lparr>tc_tasks := []\<rparr> = sample_tunnels" "should_join_circuit sample_tunnels"
      "peer_flags (tc_settings sample_tunnels) \<noteq> []" "created_caches sample_tunnels = []"
      by (simp_all add: sample_tunnels_def new_tunnel_community_def should_join_circuit_def sample_settings_def)
    then show ?thesis
      by (simp add: tunnel_step_def op_state_def sample_arrived op_then_def op_bind_def op_modify_def op_logged_def run_task_def
          on_create_def op_when_def sample_joined_def)
  qed
  with tunnel_reachable.step [OF a, of ?E 0 ?d NextTask] show j: "?r sample_joined" by simp
  have o: "?r (fst (open_ipv6 0 5 sample_joined))"
    using tunnel_reachable.step [OF j, of ?E 0 ?d "OpenedIPv6 5"] by (simp add: tunnel_step_def)
  have "snd (open_ipv6 0 5 sample_joined) = return ()"
    by (simp add: open_ipv6_def op_state_def op_then_def op_bind_def op_modify_def sample_joined sample_exit_socket_def
        new_exit_socket_def op_return_def)
  with tunnel_reachable.step [OF o, of ?E 0 ?d "Resolved 5 [100, 101] (Address UDPv6Address ''::1'' 80)"]
  show "?r sample_exited" by (simp add: tunnel_step_def sample_exited_def op_then_def op_bind_def split_beta split: sum.split)
qed

theorem joined_circuits_are_limited_witness:
  "length (exit_sockets sample_joined) = 1 \<and> length (exit_sockets sample_joined) \<le> max_joined_circuits sample_settings"
  using joined_circuits_are_limited [OF sample_reached(1)] by (simp add: sample_joined)

theorem exit_sends_allowed_data_witness: "allowed_by sample_settings (replicate 22 7) [100, 101]"
  by (rule exit_sends_allowed_data [OF sample_reached(2) sample_exited])

text \<open>The answer to the peer that asked for circuit 5.\<close>

definition sample_waiting :: tunnel_community where
  "sample_waiting = sample_tunnels\<lparr>circuits :=
     [(5, (new_circuit 0 5 1 CIRCUIT_TYPE_DATA None None)\<lparr>unverified_hop :=
        Some (unverified \<lparr>tp_key = [4], tp_address = sample_address 1\<rparr> None ([1], [1]))\<rparr>)]\<rparr>"

lemma sample_agreeing: "agreeing id (te_box (sample_env x y))"
proof -
  have "map (\<lambda>(x, y). x + y) (zip a b) = map (\<lambda>(x, y). x + y) (zip b a)" for a b :: bytes
    by (induction a b rule: list_induct2') (simp_all add: add.commute)
  then show ?thesis by (simp add: agreeing_def sample_env_def)
qed

lemma sample_join: "snd (join_circuit (sample_env [3] [4]) 0 (sample_draw [2]) (sample_address 0) 5 9 [8] [1] sample_tunnels) = return ()"
  by code_simp

theorem handshake_agrees_witness:
  "\<exists>key auth enc k h n. exit_ok sample_joined 5 k \<and>
     hops_kept 5 [h] n k (fst (ours_on_created_extended (sample_env [8] [9]) (sample_draw [2]) 5 key auth enc sample_waiting))"
proof -
  let ?h = "unverified \<lparr>tp_key = [4], tp_address = sample_address 1\<rparr> None ([1], [1])"
  let ?c = "(new_circuit 0 5 1 CIRCUIT_TYPE_DATA None None)\<lparr>unverified_hop := Some ?h\<rparr>"
  have j: "join_circuit (sample_env [3] [4]) 0 (sample_draw [2]) (sample_address 0) 5 9 [8] (id [1]) sample_tunnels = (sample_joined, return ())"
    using sample_join by (simp add: sample_joined_def prod_eq_iff)
  have w: "dict_get (circuits sample_waiting) 5 = Some ?c" by (simp add: sample_waiting_def)
  have "\<exists>key auth enc u1 k n. (sample_joined, return ()) = send_message (sample_env [3] [4]) (sample_address 0) (MCreated 5 9 key auth enc) u1 \<and>
      exit_ok sample_joined 5 k \<and> hops_kept 5 (hops ?c @ [?h\<lparr>hop_keys := Some n\<rparr>]) n k
        (fst (ours_on_created_extended (sample_env [8] [9]) (sample_draw [2]) 5 key auth enc sample_waiting))"
    by (rule handshake_agrees [OF sample_agreeing _ _ _ _ j w, of "sample_env [8] [9]" "[2]" ?h])
      (simp_all add: sample_env_def sample_draw_def unverified_def)
  then show ?thesis by (simp add: new_circuit_def) blast
qed

section \<open>Messages arrive as they were sent\<close>

fun message_addresses :: "tunnel_message \<Rightarrow> address list" where
  "message_addresses (MData _ d a _) = [d, a]"
| "message_addresses (MExtend _ _ _ _ a) = [a]"
| "message_addresses _ = []"

text \<open>The fields are in the ranges of their formats; addresses are not plain pairs, and have a host in ASCII.\<close>

definition message_ok :: "tunnel_message \<Rightarrow> bool" where
  "message_ok m \<longleftrightarrow>
     class_ok tunnel_serializer (spec_class (message_spec m)) (PObj (spec_class (message_spec m)) (message_values m)) \<and>
     (\<forall>a \<in> set (message_addresses m). addr_class a \<noteq> PlainTuple \<and> (\<forall>c \<in> set (addr_host a). of_char c < (128 :: nat)))"

lemma wire_address_value:
  assumes "addr_class a \<noteq> PlainTuple" "\<forall>c \<in> set (addr_host a). of_char c < (128 :: nat)"
  shows "wire_address (address_value a) = a"
proof -
  have "map (\<lambda>u. if u < 128 then char_of u else CHR ''?'') (ustr (addr_host a)) = addr_host a"
    using assms(2) by (auto simp: ustr_def map_idI)
  then show ?thesis using assms(1) by (cases a; cases "addr_class a") (simp_all add: wire_address_def address_value_def)
qed

lemma tunnel_lookup_I: "dict_get tunnel_serializer ''I'' = Some (DefaultStruct [SUInt 4])"
  by (simp add: tunnel_serializer_def add_packer_def default_packers_def)

lemma message_format:
  "\<exists>name fs vs. spec_class (message_spec m) = PClass name (Fmt ''I'' # fs) \<and> message_values m = PInt (message_circuit m) # vs"
  by (cases m) (simp_all add: spec_class_def tunnel_DataPayload_def tunnel_CreatePayload_def tunnel_CreatedPayload_def
      tunnel_ExtendPayload_def tunnel_ExtendedPayload_def tunnel_PingPayload_def tunnel_PongPayload_def
      tunnel_TestRequestPayload_def tunnel_TestResponsePayload_def)

lemma message_packed:
  assumes "message_ok m"
  shows "\<exists>cid rest. pack_serializable tunnel_serializer (PObj (spec_class (message_spec m)) (message_values m)) = return (cid @ rest) \<and>
    pack_struct [SUInt 4] [PInt (message_circuit m)] = return cid \<and> length cid = 4"
proof -
  obtain name fs vs where f: "spec_class (message_spec m) = PClass name (Fmt ''I'' # fs)"
    "message_values m = PInt (message_circuit m) # vs" using message_format by blast
  obtain bs where bs: "pack_serializable tunnel_serializer (PObj (spec_class (message_spec m)) (message_values m)) = return bs"
    using all_laws(2) [of tunnel_serializer "spec_class (message_spec m)"] assms by (auto simp: class_law_def message_ok_def)
  have a: "fmt_arity (Fmt ''I'') = 1" by (simp add: fmt_arity_def)
  have "sfield_ok (SUInt 4) (PInt (message_circuit m))"
    using assms f by (simp add: message_ok_def a tunnel_lookup_I)
  then obtain cid where cid: "pack_struct [SUInt 4] [PInt (message_circuit m)] = return cid" "length cid = struct_size [SUInt 4]"
    using struct_roundtrip [of "[SUInt 4]" "[PInt (message_circuit m)]"] by auto
  have "\<exists>rest. bs = cid @ rest"
    using bs f cid(1)
    by (auto simp: pack_serializable_def to_packlist_fmt_def a lookup_packer_def tunnel_lookup_I pack_item.simps as_pack_error_def
        bind_result_eq_Inr simp del: pack_struct.simps)
  then show ?thesis using bs cid by (auto simp: struct_size_def)
qed

lemma address_value_wire: "addr_class a \<noteq> PlainTuple \<Longrightarrow> \<exists>c u p. address_value a = PAddr c u p"
  by (cases a; cases "addr_class a") (simp_all add: address_value_def)

lemmas message_specs = tunnel_DataPayload_def tunnel_CreatePayload_def tunnel_CreatedPayload_def tunnel_ExtendPayload_def
  tunnel_ExtendedPayload_def tunnel_PingPayload_def tunnel_PongPayload_def tunnel_TestRequestPayload_def
  tunnel_TestResponsePayload_def

lemma message_of_values:
  assumes "\<forall>a \<in> set (message_addresses m). addr_class a \<noteq> PlainTuple \<and> (\<forall>c \<in> set (addr_host a). of_char c < (128 :: nat))"
  shows "message_of (the (spec_msg_id (message_spec m))) (message_values m) = Some m"
proof (cases m)
  case (MData i d a x)
  then obtain c u p c' u' p' where "address_value d = PAddr c u p" "address_value a = PAddr c' u' p'"
    using assms address_value_wire by (metis list.set_intros message_addresses.simps(1))
  moreover have "wire_address (address_value d) = d" "wire_address (address_value a) = a"
    using assms MData wire_address_value by auto
  ultimately show ?thesis using MData by (simp add: message_of_def message_specs)
next
  case (MExtend i j k x a)
  then obtain c u p where "address_value a = PAddr c u p"
    using assms address_value_wire by (metis list.set_intros(1) message_addresses.simps(2))
  moreover have "wire_address (address_value a) = a" using assms MExtend wire_address_value by auto
  ultimately show ?thesis using MExtend by (simp add: message_of_def message_specs)
qed (simp_all add: message_of_def message_specs)

lemma message_handler:
  "cell_handler (the (spec_msg_id (message_spec m))) = Some (message_spec m)" "the (spec_msg_id (message_spec m)) < 256"
  by (cases m; simp add: cell_handler_def cell_payloads_def message_specs)+

text \<open>
  C33: A message that is put into a cell is, when the cell is taken apart at the other end, given to the handler of its
  class, with the same fields.
\<close>

theorem message_roundtrip:
  assumes "message_ok m" "length p = 22"
  shows "\<exists>cl packet. message_cell m = return cl \<and> circuit_id cl = message_circuit m \<and> cell_unwrap p cl = return packet \<and>
    take 22 packet = p \<and> cell_handler (unat (packet ! 22)) = Some (message_spec m) \<and>
    read_message (message_spec m) packet = return m"
proof -
  let ?c = "spec_class (message_spec m)" and ?n = "the (spec_msg_id (message_spec m))"
  obtain cid rest where b: "pack_serializable tunnel_serializer (PObj ?c (message_values m)) = return (cid @ rest)"
    "pack_struct [SUInt 4] [PInt (message_circuit m)] = return cid" "length cid = 4"
    using message_packed [OF assms(1)] by blast
  let ?cl = "\<lparr>circuit_id = message_circuit m, message = of_nat ?n # rest, plaintext = ?n \<in> set NO_CRYPTO_PACKETS, relay_early = False\<rparr>"
  let ?packet = "(p @ [of_nat ?n]) @ (cid @ rest)"
  have cl: "message_cell m = return ?cl" using b(1,3) by (simp add: message_cell_def Let_def)
  have packet: "cell_unwrap p ?cl = return ?packet" using b(2) by (simp add: cell_unwrap_def del: pack_struct.simps)
  have handler: "cell_handler (unat (?packet ! 22)) = Some (message_spec m)"
    using assms(2) message_handler by (simp add: nth_append unat_of_nat)
  have "unpack_class tunnel_serializer ?c ((p @ [of_nat ?n]) @ (cid @ rest) @ []) (length (p @ [of_nat ?n])) =
      return (PObj ?c (message_values m), length (p @ [of_nat ?n]) + length (cid @ rest))"
  proof -
    obtain bs where bs: "pack_serializable tunnel_serializer (PObj ?c (message_values m)) = return bs"
      "\<And>pre post. follows (\<forall>f \<in> set (format_list ?c). delimited_fmt tunnel_serializer f) post \<Longrightarrow>
         unpack_class tunnel_serializer ?c (pre @ bs @ post) (length pre) = return (PObj ?c (message_values m), length pre + length bs)"
      using all_laws(2) [of tunnel_serializer ?c] assms(1) unfolding class_law_def message_ok_def by blast
    have "bs = cid @ rest" using b(1) bs(1) by (simp only: sum.inject)
    with bs(2) [OF follows_simps(2)] show ?thesis by blast
  qed
  then have "unpack_serializable tunnel_serializer ?c ?packet 23 = return (PObj ?c (message_values m), length ?packet)"
    using assms(2) by (simp add: unpack_serializable_def)
  then have "read_message (message_spec m) ?packet = return m"
    using message_of_values assms(1) by (simp add: read_message_def message_ok_def)
  then show ?thesis using cl packet handler assms(2) by auto
qed

theorem message_roundtrip_witness:
  "\<exists>cl packet. message_cell (MCreate 5 9 [8, 8] [1]) = return cl \<and> cell_unwrap (replicate 22 7) cl = return packet \<and>
    read_message tunnel_CreatePayload packet = return (MCreate 5 9 [8, 8] [1])"
proof -
  have "message_ok (MCreate 5 9 [8, 8] [1])"
    by (simp add: message_ok_def message_specs spec_class_def tunnel_serializer_def add_packer_def default_packers_def
        fmt_arity_def delimited_fmt_def sfield_ok_def lookup_packer_def)
  from message_roundtrip [OF this, of "replicate 22 7"] show ?thesis by auto
qed

end
