(* ===== verification/DHT.thy ===== *)
theory DHT
  imports Routing Storage Network Payloads Ops
begin

text \<open>
  The DHT overlay (\<^verbatim>\<open>ipv8/dht/community.py\<close>): its messages, node objects and state, tokens, requests, stored
  values, crawls and searches, and its maintenance. Coroutines are steps; what a call of the interface returns is the
  outcome of its search.
\<close>

section \<open>Constants, messages and the state\<close>

definition PING_INTERVAL :: seconds where "PING_INTERVAL = 25"
definition TOKEN_EXPIRATION_TIME :: seconds where "TOKEN_EXPIRATION_TIME = 600"
definition DHT_ENTRY_STR :: byte where "DHT_ENTRY_STR = 0"
definition DHT_ENTRY_STR_SIGNED :: byte where "DHT_ENTRY_STR_SIGNED = 1"
definition MAX_ENTRY_SIZE :: nat where "MAX_ENTRY_SIZE = 170"
definition MAX_ENTRY_AGE :: nat where "MAX_ENTRY_AGE = 3600"
definition MAX_CRAWL_NODES :: nat where "MAX_CRAWL_NODES = 8"
definition MAX_CRAWL_REQUESTS :: nat where "MAX_CRAWL_REQUESTS = 24"
definition MAX_CRAWL_TASKS :: nat where "MAX_CRAWL_TASKS = 4"
definition MAX_VALUES_IN_STORE :: nat where "MAX_VALUES_IN_STORE = 8"
definition MAX_VALUES_IN_FIND :: nat where "MAX_VALUES_IN_FIND = 8"
definition MAX_NODES_IN_FIND :: nat where "MAX_NODES_IN_FIND = 8"
definition TARGET_NODES :: nat where "TARGET_NODES = 8"

text \<open>The messages, with the fields of their payloads; a node is its serialised key and its address.\<close>

datatype dht_message =
    PingRequest int
  | PingResponse int
  | StoreRequest int bytes bytes "bytes list"
  | StoreResponse int
  | FindRequest int address bytes int bool
  | FindResponse int bytes "bytes list" "(bytes \<times> address) list"
  | StorePeerRequest int bytes bytes
  | StorePeerResponse int
  | ConnectPeerRequest int address bytes
  | ConnectPeerResponse int "(bytes \<times> address) list"

text \<open>What the overlay sends: a message, or a request to puncture the second address (\<^verbatim>\<open>create_puncture_request\<close>).\<close>

datatype dht_effect =
    MessageTo address dht_message
  | PunctureRequestTo address address address int

text \<open>
  A \<^verbatim>\<open>Node\<close> object is named by its position in \<open>node_objects\<close>; the nodes inside routing tables are the same objects
  (\<open>node_object\<close>). A future is named by its position in \<open>dht_futures\<close>. The answer to a find request is a dictionary
  with one key.
\<close>

datatype find_answer = AnswerNodes "nat list" | AnswerValues "bytes list"

datatype future_value = NoValue | NodeValue nat | FindValue find_answer | NodesValue "nat list"

datatype dht_future = PendingFuture | ResultFuture future_value | FailedFuture py_error

text \<open>\<^verbatim>\<open>Request\<close>, registered under its message type and number, with the parameters of its kind.\<close>

datatype request_params = NoParams | ForceNodes bool | StoredKey bytes

record dht_request =
  request_node :: nat
  request_params :: request_params
  request_future :: nat
  start_time :: seconds
  consume_errors :: bool
  request_timeout :: seconds

text \<open>
  \<^verbatim>\<open>Crawl\<close>, with the tasks of the \<^verbatim>\<open>_find\<close> that drives it. A task has not started yet, waits for a puncture or for an
  answer (a node and a future), or has ended. A crawl goes on, waits until values are cached, or has a result.
\<close>

datatype contact =
    StartContact nat "nat option"
  | AwaitPuncture nat nat
  | AwaitAnswer nat nat
  | Contacted nat

type_synonym found_value = "bytes \<times> bytes option"

datatype find_result = FoundNodes "nat list" | FoundValues "found_value list"

datatype crawl_stage = Crawling | Caching "nat list" | CrawlEnded "find_result result"

record crawl =
  crawl_table :: address_class
  target :: bytes
  nodes_todo :: "(nat \<times> nat option) list"
  nodes_tried :: "nat list"
  responses :: "(nat \<times> find_answer) list"
  force_nodes :: bool
  offset :: int
  crawl_tasks :: "contact list"
  crawl_stage :: crawl_stage

text \<open>
  A call of \<^verbatim>\<open>find\<close> that waits for its crawls, and what its caller does with the result: return it, store a value,
  refresh more buckets, store ourselves or connect to a peer; a peer to connect to may be pinged first. After that a call waits for the futures of its requests.
\<close>

datatype goal =
    ReturnFound
  | StoreFound bytes bytes
  | RefreshFound "(address_class \<times> string) list" "(address_class \<times> string) list list" seconds
  | StorePeerFound bytes
  | ConnectFound bytes
  | PingedFirst bytes nat

datatype search_stage = Searching | Awaiting "nat list" | SearchEnded "find_result result"

record search =
  search_crawls :: "nat list"
  search_goal :: goal
  search_stage :: search_stage

record dht =
  my_addresses :: "(address_class, address) dict"
  my_estimated_wan :: address
  my_estimated_lan :: address
  dht_network :: network
  node_objects :: "dht_node list"
  routing_tables :: "(address_class, routing_table) dict"
  storages :: "(address_class, storage) dict"
  dht_requests :: "(string \<times> int, dht_request) dict"
  drawn :: nat
  tokens :: "(bytes, seconds \<times> bytes) dict"
  token_secrets :: "bytes list"
  dht_futures :: "dht_future list"
  crawls :: "crawl list"
  searches :: "search list"
  peer_store :: "(bytes, nat list) dict"
  store_for_me :: "(bytes, nat list) dict"
  dht_out :: "dht_effect list"

type_synonym 'a dht_op = "(dht, 'a) op"

text \<open>
  What the overlay uses of its environment: its key and key hash, the parser and the hash of public keys (a key object
  is its serialised bytes), signatures, SHA-1, and the random numbers that requests draw one after the other.
\<close>

record dht_env =
  de_my_key :: bytes
  de_my_mid :: bytes
  de_parse_key :: "bytes \<Rightarrow> bytes result"
  de_key_hash :: "bytes \<Rightarrow> bytes"
  de_signature_length :: "bytes \<Rightarrow> nat"
  de_create_signature :: "bytes \<Rightarrow> bytes"
  de_is_valid_signature :: "bytes \<Rightarrow> bytes \<Rightarrow> bytes \<Rightarrow> bool"
  de_sha1 :: "bytes \<Rightarrow> bytes"
  de_random :: "nat \<Rightarrow> nat"
  de_community_id :: bytes

definition send_to :: "address \<Rightarrow> dht_message \<Rightarrow> unit dht_op" where
  "send_to a m = op_modify (\<lambda>s. s\<lparr>dht_out := dht_out s @ [MessageTo a m]\<rparr>)"

section \<open>Node objects\<close>

definition map_bucket :: "(dht_node \<Rightarrow> dht_node) \<Rightarrow> bucket \<Rightarrow> bucket" where
  "map_bucket f b = b\<lparr>nodes := map (\<lambda>(i, n). (i, f n)) (nodes b)\<rparr>"

definition map_table :: "(dht_node \<Rightarrow> dht_node) \<Rightarrow> routing_table \<Rightarrow> routing_table" where
  "map_table f rt = rt\<lparr>buckets := (buckets rt)\<lparr>trie_root := map_tnode (map_bucket f) (trie_root (buckets rt))\<rparr>\<rparr>"

definition table_nodes :: "routing_table \<Rightarrow> dht_node list" where
  "table_nodes rt = concat (map (\<lambda>b. dict_values (nodes b)) (trie_values (buckets rt)))"

text \<open>The objects as they are in the list, in every routing table.\<close>

definition same_objects :: "dht \<Rightarrow> dht" where
  "same_objects s =
     s\<lparr>routing_tables := map (\<lambda>(c, rt). (c, map_table (\<lambda>n. node_objects s ! node_object n) rt)) (routing_tables s)\<rparr>"

text \<open>An attribute of a node object changes.\<close>

definition update_node :: "nat \<Rightarrow> (dht_node \<Rightarrow> dht_node) \<Rightarrow> unit dht_op" where
  "update_node k f =
     op_modify (\<lambda>s. same_objects (s\<lparr>node_objects := (node_objects s)[k := f (node_objects s ! k)]\<rparr>))"

text \<open>A routing table after one of its methods: the nodes inside are the objects that the method has changed.\<close>

definition write_nodes :: "dht_node list \<Rightarrow> dht_node list \<Rightarrow> dht_node list" where
  "write_nodes ns objects = foldl (\<lambda>objects n. objects[node_object n := n]) objects ns"

definition set_table :: "address_class \<Rightarrow> routing_table \<Rightarrow> dht \<Rightarrow> dht" where
  "set_table c rt s =
     same_objects (s\<lparr>node_objects := write_nodes (table_nodes rt) (node_objects s),
                     routing_tables := dict_set c rt (routing_tables s)\<rparr>)"

definition new_node :: "dht_env \<Rightarrow> seconds \<Rightarrow> bytes key_arg \<Rightarrow> address \<Rightarrow> nat dht_op" where
  "new_node E now key a =
     op_bind (op_of (new_peer (de_parse_key E) (\<lambda>k. k) (de_key_hash E) now key (Some a) True)) (\<lambda>p.
     op_state (\<lambda>s.
       op_then (op_modify (\<lambda>s. s\<lparr>node_objects := node_objects s @ [(new_dht_node p)\<lparr>node_object := length (node_objects s)\<rparr>]\<rparr>))
         (op_return (length (node_objects s)))))"

text \<open>The nodes of a message become objects when it is unpacked.\<close>

fun new_nodes :: "dht_env \<Rightarrow> seconds \<Rightarrow> (bytes \<times> address) list \<Rightarrow> nat list dht_op" where
  "new_nodes E now [] = op_return []"
| "new_nodes E now ((k, a) # ns) =
     op_bind (new_node E now (KeyBin k) a) (\<lambda>j. op_bind (new_nodes E now ns) (\<lambda>js. op_return (j # js)))"

definition send_node :: "nat \<Rightarrow> dht_message \<Rightarrow> unit dht_op" where
  "send_node k m = op_state (\<lambda>s. send_to (peer_address (node_objects s ! k)) m)"

definition node_fields :: "dht \<Rightarrow> nat \<Rightarrow> bytes \<times> address" where
  "node_fields s k = (public_key_bin (node_objects s ! k), peer_address (node_objects s ! k))"

section \<open>Routing tables and storages\<close>

definition get_address_class :: "'a peer_scheme \<Rightarrow> address_class" where
  "get_address_class p = addr_class (peer_address p)"

definition get_my_node_id :: "dht_env \<Rightarrow> address_class \<Rightarrow> dht \<Rightarrow> bytes result" where
  "get_my_node_id E c s =
     calc_node_id (case dict_get (my_addresses s) c of None \<Rightarrow> my_estimated_wan s | Some a \<Rightarrow> a) (de_my_mid E)"

definition get_routing_table :: "dht_env \<Rightarrow> address_class \<Rightarrow> routing_table dht_op" where
  "get_routing_table E c =
     op_state (\<lambda>s.
       case dict_get (routing_tables s) c of
         Some rt \<Rightarrow> op_return rt
       | None \<Rightarrow>
           op_bind (op_of (get_my_node_id E c s)) (\<lambda>i.
             op_then (op_modify (\<lambda>s. s\<lparr>routing_tables := dict_set c (new_routing_table i) (routing_tables s)\<rparr>))
               (op_return (new_routing_table i))))"

definition get_storage :: "address_class \<Rightarrow> storage dht_op" where
  "get_storage c =
     op_state (\<lambda>s.
       case dict_get (storages s) c of
         Some st \<Rightarrow> op_return st
       | None \<Rightarrow> op_then (op_modify (\<lambda>s. s\<lparr>storages := dict_set c [] (storages s)\<rparr>)) (op_return []))"

text \<open>
  \<^verbatim>\<open>routing_table.add(node)\<close>, with the object it returns. The rounds of \<open>rt_add\<close> end on every well-formed table
  (\<open>rt_add_correct\<close>), which all tables here are; \<open>RuntimeError\<close> stands for rounds that do not.
\<close>

definition table_add :: "seconds \<Rightarrow> address_class \<Rightarrow> nat \<Rightarrow> nat option dht_op" where
  "table_add now c k =
     op_state (\<lambda>s.
       case dict_get (routing_tables s) c of
         None \<Rightarrow> op_raise KeyError
       | Some rt \<Rightarrow>
           (case rt_add now (node_objects s ! k) rt of
              None \<Rightarrow> op_raise RuntimeError
            | Some (rt', r) \<Rightarrow>
                op_then (op_modify (set_table c rt')) (op_bind (op_of r) (\<lambda>n. op_return (map_option node_object n)))))"

text \<open>
  \<^verbatim>\<open>get_requesting_node\<close>: the node of a peer that sends a request, or nothing when that node is blocked.
\<close>

definition get_requesting_node :: "dht_env \<Rightarrow> seconds \<Rightarrow> peer \<Rightarrow> nat option dht_op" where
  "get_requesting_node E now p =
     (let c = get_address_class p
      in op_bind (get_routing_table E c) (\<lambda>rt.
         op_bind (new_node E now (KeyObject (public_key_bin p)) (peer_address p)) (\<lambda>k.
         op_state (\<lambda>s.
         op_bind (op_of (node_id (node_objects s ! k))) (\<lambda>i.
         op_bind (op_of (rt_get rt i)) (\<lambda>found.
           if (case found of None \<Rightarrow> False | Some n \<Rightarrow> blocked now n) then op_return None
           else
             op_bind (table_add now c k) (\<lambda>added.
               let j = (case added of None \<Rightarrow> k | Some j \<Rightarrow> j)
               in op_then (update_node j (append_query now)) (op_return (Some j)))))))))"

section \<open>Tokens\<close>

definition b64_char :: "nat \<Rightarrow> char" where
  "b64_char n = ''ABCDEFGHIJKLMNOPQRSTUVWXYZabcdefghijklmnopqrstuvwxyz0123456789+/'' ! (n mod 64)"

fun b64encode :: "bytes \<Rightarrow> string" where
  "b64encode [] = []"
| "b64encode [x] = (let n = unat x * 65536 in [b64_char (n div 262144), b64_char (n div 4096)] @ ''=='')"
| "b64encode [x, y] =
     (let n = unat x * 65536 + unat y * 256
      in [b64_char (n div 262144), b64_char (n div 4096), b64_char (n div 64)] @ ''='')"
| "b64encode (x # y # z # xs) =
     (let n = unat x * 65536 + unat y * 256 + unat z
      in [b64_char (n div 262144), b64_char (n div 4096), b64_char (n div 64), b64_char n] @ b64encode xs)"

definition peer_str :: "'a peer_scheme \<Rightarrow> string" where
  "peer_str p =
     ''Peer<'' @ addr_host (peer_address p) @ '':'' @ int_string (addr_port (peer_address p)) @ '', '' @ b64encode (mid p) @ ''>''"

definition make_token :: "dht_env \<Rightarrow> dht_node \<Rightarrow> bytes \<Rightarrow> bytes" where
  "make_token E n secret = de_sha1 E (ascii_bytes (peer_str n) @ secret)"

definition generate_token :: "dht_env \<Rightarrow> dht_node \<Rightarrow> dht \<Rightarrow> bytes result" where
  "generate_token E n s =
     (if token_secrets s = [] then raise IndexError else return (make_token E n (last (token_secrets s))))"

definition check_token :: "dht_env \<Rightarrow> dht_node \<Rightarrow> bytes \<Rightarrow> dht \<Rightarrow> bool" where
  "check_token E n token s = list_ex (\<lambda>secret. make_token E n secret = token) (token_secrets s)"

text \<open>The secrets are a deque of at most two; the new one is drawn by the caller.\<close>

definition token_maintenance :: "seconds \<Rightarrow> bytes \<Rightarrow> unit dht_op" where
  "token_maintenance now secret =
     op_modify (\<lambda>s.
       let secrets = token_secrets s @ [secret]
       in s\<lparr>token_secrets := drop (length secrets - 2) secrets,
            tokens := filter (\<lambda>(i, ts, _). now \<le> ts + TOKEN_EXPIRATION_TIME) (tokens s)\<rparr>)"

section \<open>Requests and futures\<close>

definition future_state :: "dht \<Rightarrow> nat \<Rightarrow> dht_future" where
  "future_state s f = (if f < length (dht_futures s) then dht_futures s ! f else PendingFuture)"

definition future_done :: "dht \<Rightarrow> nat \<Rightarrow> bool" where
  "future_done s f \<longleftrightarrow> future_state s f \<noteq> PendingFuture"

definition set_future :: "nat \<Rightarrow> dht_future \<Rightarrow> unit dht_op" where
  "set_future f v =
     op_state (\<lambda>s.
       if future_done s f then op_raise InvalidStateError
       else op_modify (\<lambda>s. s\<lparr>dht_futures := (dht_futures s)[f := v]\<rparr>))"

text \<open>\<^verbatim>\<open>find_unclaimed_identifier\<close>: a thousand numbers are tried.\<close>

definition unclaimed :: "dht_env \<Rightarrow> string \<Rightarrow> dht \<Rightarrow> nat option" where
  "unclaimed E msg_type s =
     find (\<lambda>j. dict_get (dht_requests s) (msg_type, int (de_random E j mod 65536)) = None) [drawn s..<drawn s + 1000]"

definition new_request ::
  "dht_env \<Rightarrow> seconds \<Rightarrow> string \<Rightarrow> nat \<Rightarrow> request_params \<Rightarrow> bool \<Rightarrow> seconds \<Rightarrow> (int \<times> nat) dht_op" where
  "new_request E now msg_type k params consume timeout =
     op_state (\<lambda>s.
       case unclaimed E msg_type s of
         None \<Rightarrow> op_then (op_modify (\<lambda>s. s\<lparr>drawn := drawn s + 1000\<rparr>)) (op_raise RuntimeError)
       | Some j \<Rightarrow>
           let number = int (de_random E j mod 65536); f = length (dht_futures s)
           in op_then
                (op_modify (\<lambda>s. s\<lparr>drawn := Suc j, dht_futures := dht_futures s @ [PendingFuture],
                   dht_requests := dict_set (msg_type, number)
                     \<lparr>request_node = k, request_params = params, request_future = f, start_time = now,
                      consume_errors = consume, request_timeout = timeout\<rparr> (dht_requests s)\<rparr>))
                (op_return (number, f)))"

definition pop_request :: "string \<Rightarrow> int \<Rightarrow> dht_request option dht_op" where
  "pop_request msg_type number =
     op_state (\<lambda>s.
       op_then (op_modify (\<lambda>s. s\<lparr>dht_requests := dict_del (msg_type, number) (dht_requests s)\<rparr>))
         (op_return (dict_get (dht_requests s) (msg_type, number))))"

text \<open>\<^verbatim>\<open>Request.on_timeout\<close> and \<^verbatim>\<open>Request.on_complete\<close>.\<close>

definition request_on_timeout :: "dht_request \<Rightarrow> unit dht_op" where
  "request_on_timeout r =
     op_state (\<lambda>s.
       op_when (\<not> future_done s (request_future r))
         (op_then (update_node (request_node r) (\<lambda>n. n\<lparr>failed := failed n + 1\<rparr>))
           (set_future (request_future r) (if consume_errors r then ResultFuture NoValue else FailedFuture DHTError))))"

definition request_on_complete :: "seconds \<Rightarrow> dht_request \<Rightarrow> unit dht_op" where
  "request_on_complete now r =
     update_node (request_node r) (\<lambda>n. n\<lparr>last_response := now, failed := 0, rtt := now - start_time r\<rparr>)"

text \<open>The timer of a request: the cache forgets it and calls its \<^verbatim>\<open>on_timeout\<close>.\<close>

definition request_timer :: "string \<Rightarrow> int \<Rightarrow> unit dht_op" where
  "request_timer msg_type number =
     op_bind (pop_request msg_type number) (\<lambda>r.
       case r of None \<Rightarrow> op_return () | Some r \<Rightarrow> request_on_timeout r)"

definition resolve_if_pending :: "nat \<Rightarrow> future_value \<Rightarrow> unit dht_op" where
  "resolve_if_pending f v = op_state (\<lambda>s. op_when (\<not> future_done s f) (set_future f (ResultFuture v)))"

text \<open>\<^verbatim>\<open>gather_without_errors\<close>: the results of futures that are done, without the exceptions.\<close>

definition gather_without_errors :: "dht \<Rightarrow> nat list \<Rightarrow> future_value list" where
  "gather_without_errors s fs =
     concat (map (\<lambda>f. case future_state s f of ResultFuture v \<Rightarrow> [v] | _ \<Rightarrow> []) fs)"

section \<open>Pings\<close>

definition ping :: "dht_env \<Rightarrow> seconds \<Rightarrow> nat \<Rightarrow> nat dht_op" where
  "ping E now k =
     op_bind (new_request E now ''ping'' k NoParams True 5) (\<lambda>(number, f).
     op_then (send_node k (PingRequest number))
     (op_then (update_node k (\<lambda>n. n\<lparr>last_ping_sent := now\<rparr>)) (op_return f)))"

definition on_ping_request :: "dht_env \<Rightarrow> seconds \<Rightarrow> peer \<Rightarrow> int \<Rightarrow> unit dht_op" where
  "on_ping_request E now p identifier =
     op_bind (get_requesting_node E now p) (\<lambda>node.
       case node of None \<Rightarrow> op_return () | Some _ \<Rightarrow> send_to (peer_address p) (PingResponse identifier))"

definition on_ping_response :: "seconds \<Rightarrow> int \<Rightarrow> unit dht_op" where
  "on_ping_response now identifier =
     op_bind (pop_request ''ping'' identifier) (\<lambda>r.
       case r of
         None \<Rightarrow> op_return ()
       | Some r \<Rightarrow>
           op_then (request_on_complete now r)
             (resolve_if_pending (request_future r) (NodeValue (request_node r))))"

text \<open>\<^verbatim>\<open>on_node_discovered\<close>, which introductions call.\<close>

definition on_node_discovered :: "dht_env \<Rightarrow> seconds \<Rightarrow> bytes \<Rightarrow> address \<Rightarrow> unit dht_op" where
  "on_node_discovered E now key a =
     op_state (\<lambda>s.
       if addr_class a = UDPv6Address \<and> dict_get (my_addresses s) UDPv6Address = None then op_return ()
       else if addr_tuple (my_estimated_wan s) \<in> {(''::1'', 0), (''0.0.0.0'', 0)} then op_return ()
       else if (ustr (addr_host a), addr_port a) \<in> set (blacklist (dht_network s)) then op_return ()
       else
         op_bind (new_node E now (KeyBin key) a) (\<lambda>k.
         op_bind (get_routing_table E (addr_class a)) (\<lambda>rt.
         op_state (\<lambda>s.
         op_bind (op_of (node_id (node_objects s ! k))) (\<lambda>i.
         op_bind (op_of (rt_has rt i)) (\<lambda>existed.
         op_bind (table_add now (addr_class a) k) (\<lambda>added.
           case added of
             None \<Rightarrow> op_return ()
           | Some j \<Rightarrow> op_when (\<not> existed) (op_bind (ping E now j) (\<lambda>_. op_return ())))))))))"

section \<open>Values\<close>

definition de_serializer :: "dht_env \<Rightarrow> serializer" where
  "de_serializer E = dht_serializer (\<lambda>b. case de_parse_key E b of Inl e \<Rightarrow> Some e | Inr _ \<Rightarrow> None)"

definition serialize_value :: "dht_env \<Rightarrow> seconds \<Rightarrow> bytes \<Rightarrow> bool \<Rightarrow> bytes result" where
  "serialize_value E now data sign =
     (if sign then
        bind_result
          (pack_serializable (de_serializer E)
             (PObj (spec_class dht_SignedStrPayload) [PBytes data, PInt \<lfloor>now\<rfloor>, PBytes (de_my_key E)]))
          (\<lambda>b. let packet = DHT_ENTRY_STR_SIGNED # b in return (packet @ de_create_signature E packet))
      else
        bind_result (pack_serializable (de_serializer E) (PObj (spec_class dht_StrPayload) [PBytes data]))
          (\<lambda>b. return (DHT_ENTRY_STR # b)))"

definition unserialize_value :: "dht_env \<Rightarrow> bytes \<Rightarrow> (bytes \<times> bytes option \<times> int) option result" where
  "unserialize_value E value =
     (if value = [] then raise IndexError
      else if hd value = DHT_ENTRY_STR then
        bind_result (unpack_serializable (de_serializer E) (spec_class dht_StrPayload) value 1) (\<lambda>(v, _).
          case v of PObj _ [PBytes data] \<Rightarrow> return (Some (data, None, 0)) | _ \<Rightarrow> raise TypeError)
      else if hd value = DHT_ENTRY_STR_SIGNED then
        bind_result (unpack_serializable (de_serializer E) (spec_class dht_SignedStrPayload) value 1) (\<lambda>(v, _).
          case v of
            PObj _ [PBytes data, PInt ver, PBytes public_key] \<Rightarrow>
              bind_result (de_parse_key E public_key) (\<lambda>k.
                let sig_len = int (de_signature_length E k);
                    sig = py_slice (- sig_len) None value
                in if de_is_valid_signature E k (py_slice 0 (Some (- sig_len)) value) sig
                   then return (Some (data, Some public_key, ver)) else return None)
          | _ \<Rightarrow> raise TypeError)
      else return None)"

text \<open>\<^verbatim>\<open>add_value\<close>, into the storage of an address class.\<close>

definition add_value :: "dht_env \<Rightarrow> seconds \<Rightarrow> bytes \<Rightarrow> bytes \<Rightarrow> address_class \<Rightarrow> seconds \<Rightarrow> unit dht_op" where
  "add_value E now key value c age =
     op_bind (op_of (unserialize_value E value)) (\<lambda>u.
       case u of
         None \<Rightarrow> op_return ()
       | Some (_, public_key, ver) \<Rightarrow>
           let i = (case public_key of None \<Rightarrow> None | Some k \<Rightarrow> if k = [] then None else Some (de_sha1 E k))
           in op_bind (get_storage c) (\<lambda>st.
                op_modify (\<lambda>s. s\<lparr>storages :=
                  dict_set c (storage_put (de_sha1 E) now key value i age ver st) (storages s)\<rparr>)))"

text \<open>\<^verbatim>\<open>post_process_values\<close>: for every signer the data of the first value with the highest version, then unsigned data.\<close>

definition unpack_values :: "dht_env \<Rightarrow> bytes list \<Rightarrow> (bytes \<times> bytes option \<times> int) list result" where
  "unpack_values E vs =
     bind_result (map_result (unserialize_value E) vs) (\<lambda>us. return (concat (map (\<lambda>u. case u of None \<Rightarrow> [] | Some x \<Rightarrow> [x]) us)))"

fun first_newest :: "(bytes \<times> int) \<Rightarrow> (bytes \<times> int) list \<Rightarrow> bytes" where
  \<comment> \<open>\<^verbatim>\<open>max(data_list, key=version)\<close>\<close>
  "first_newest best [] = fst best"
| "first_newest best (x # xs) = first_newest (if snd best < snd x then x else best) xs"

definition data_of_signer :: "(bytes \<times> bytes option \<times> int) list \<Rightarrow> bytes option \<Rightarrow> (bytes \<times> int) list" where
  "data_of_signer us k = map (\<lambda>(d, _, ver). (d, ver)) (filter (\<lambda>(_, j, _). j = k) us)"

fun unique :: "'a list \<Rightarrow> 'a list" where
  "unique [] = []"
| "unique (x # xs) = x # filter (\<lambda>y. y \<noteq> x) (unique xs)"

definition signers :: "(bytes \<times> bytes option \<times> int) list \<Rightarrow> bytes list" where
  "signers us = unique (concat (map (\<lambda>(_, k, _). case k of None \<Rightarrow> [] | Some k \<Rightarrow> [k]) us))"

definition post_process_values :: "dht_env \<Rightarrow> bytes list \<Rightarrow> found_value list result" where
  "post_process_values E values =
     bind_result (unpack_values E values) (\<lambda>us.
       return
         (map (\<lambda>k. (case data_of_signer us (Some k) of [] \<Rightarrow> [] | x # xs \<Rightarrow> first_newest x xs, Some k)) (signers us) @
          map (\<lambda>(d, _). (d, None)) (data_of_signer us None)))"

section \<open>Storing values\<close>

definition map_op :: "('a \<Rightarrow> 'b result) \<Rightarrow> 'a list \<Rightarrow> 'b list dht_op" where
  "map_op f xs = op_of (map_result f xs)"

definition id_of :: "dht \<Rightarrow> nat \<Rightarrow> bytes result" where
  "id_of s k = node_id (node_objects s ! k)"

definition distance_of :: "dht \<Rightarrow> bytes \<Rightarrow> nat \<Rightarrow> nat result" where
  "distance_of s key k = bind_result (id_of s k) (\<lambda>i. distance i key)"

text \<open>A store request to every node that we have a token of that is not too old; the futures of the requests.\<close>

fun send_store_requests :: "dht_env \<Rightarrow> seconds \<Rightarrow> bytes \<Rightarrow> bytes list \<Rightarrow> nat list \<Rightarrow> nat list dht_op" where
  "send_store_requests E now key values [] = op_return []"
| "send_store_requests E now key values (k # ks) =
     op_state (\<lambda>s.
     op_bind (op_of (id_of s k)) (\<lambda>i.
       case dict_get (tokens s) i of
         None \<Rightarrow> send_store_requests E now key values ks
       | Some (ts, token) \<Rightarrow>
           if ts + TOKEN_EXPIRATION_TIME > now then
             op_bind (new_request E now ''store'' k NoParams False 5) (\<lambda>(number, f).
             op_then (send_node k (StoreRequest number token key values))
             (op_bind (send_store_requests E now key values ks) (\<lambda>fs. op_return (f # fs))))
           else send_store_requests E now key values ks))"

definition store_locally :: "dht_env \<Rightarrow> seconds \<Rightarrow> bytes \<Rightarrow> bytes list \<Rightarrow> nat \<Rightarrow> unit dht_op" where
  "store_locally E now key values k =
     op_state (\<lambda>s.
       let c = get_address_class (node_objects s ! k)
       in op_bind (get_storage c) (\<lambda>_. op_for (\<lambda>v. add_value E now key v c (of_nat MAX_ENTRY_AGE)) (rev values)))"

definition should_store :: "dht_env \<Rightarrow> bytes \<Rightarrow> nat list \<Rightarrow> dht \<Rightarrow> bool result" where
  "should_store E key ks s =
     bind_result (map_result (distance_of s key) ks) (\<lambda>ds.
       if length ks < TARGET_NODES then return True
       else
         bind_result (get_my_node_id E (get_address_class (node_objects s ! hd ks)) s) (\<lambda>i.
         bind_result (distance i key) (\<lambda>d. return (d < Max (set ds)))))"

definition store_on_nodes :: "dht_env \<Rightarrow> seconds \<Rightarrow> bytes \<Rightarrow> bytes list \<Rightarrow> nat list \<Rightarrow> nat list dht_op" where
  "store_on_nodes E now key values ks =
     (if ks = [] then op_raise DHTError
      else
        let values = take MAX_VALUES_IN_STORE values
        in op_state (\<lambda>s.
           op_bind (op_of (should_store E key ks s)) (\<lambda>here.
           op_then (op_when here (store_locally E now key values (hd ks)))
           (op_bind (send_store_requests E now key values ks) (\<lambda>fs.
             if fs = [] then op_raise DHTError else op_return fs)))))"

text \<open>
  \<^verbatim>\<open>on_store_request\<close>. The loop that counts the closer nodes reuses the variable of the requesting node, so the values
  go to the storage of the last of the closest nodes.
\<close>

definition is_closer :: "dht_env \<Rightarrow> bytes \<Rightarrow> dht \<Rightarrow> dht_node \<Rightarrow> bool result" where
  "is_closer E key s n =
     bind_result (node_id n) (\<lambda>i. bind_result (distance i key) (\<lambda>d.
     bind_result (get_my_node_id E (get_address_class n) s) (\<lambda>j. bind_result (distance j key) (\<lambda>d'.
       return (d < d')))))"

definition entry_age :: "nat \<Rightarrow> nat" where
  "entry_age num_closer = MAX_ENTRY_AGE div 2 ^ (num_closer + 1 - TARGET_NODES)"

definition on_store_request ::
  "dht_env \<Rightarrow> seconds \<Rightarrow> peer \<Rightarrow> int \<Rightarrow> bytes \<Rightarrow> bytes \<Rightarrow> bytes list \<Rightarrow> unit dht_op" where
  "on_store_request E now p identifier token key values =
     op_bind (get_requesting_node E now p) (\<lambda>node.
       case node of
         None \<Rightarrow> op_return ()
       | Some k \<Rightarrow>
           if \<exists>v \<in> set values. length v > MAX_ENTRY_SIZE then op_return ()
           else if length values > MAX_VALUES_IN_STORE then op_return ()
           else
             op_state (\<lambda>s.
               if \<not> check_token E (node_objects s ! k) token s then op_return ()
               else
                 op_bind (get_routing_table E (get_address_class (node_objects s ! k))) (\<lambda>rt.
                 op_bind (op_of (closest_nodes now rt key 20 None)) (\<lambda>ns.
                 op_state (\<lambda>s.
                 op_bind (map_op (is_closer E key s) ns) (\<lambda>closer.
                 let c = get_address_class (last ((node_objects s ! k) # ns));
                     age = of_nat (entry_age (length (filter id closer)))
                 in op_then (op_for (\<lambda>v. op_bind (get_storage c) (\<lambda>_. add_value E now key v c age)) values)
                      (send_to (peer_address p) (StoreResponse identifier))))))))"

definition on_store_response :: "seconds \<Rightarrow> int \<Rightarrow> unit dht_op" where
  "on_store_response now identifier =
     op_bind (pop_request ''store'' identifier) (\<lambda>r.
       case r of
         None \<Rightarrow> op_return ()
       | Some r \<Rightarrow>
           op_then (request_on_complete now r)
             (resolve_if_pending (request_future r) (NodeValue (request_node r))))"

section \<open>Finding values and nodes\<close>

definition send_find_request ::
  "dht_env \<Rightarrow> seconds \<Rightarrow> nat \<Rightarrow> bytes \<Rightarrow> bool \<Rightarrow> int \<Rightarrow> nat dht_op" where
  "send_find_request E now k key force off =
     op_bind (new_request E now ''find'' k (ForceNodes force) True 2) (\<lambda>(number, f).
     op_state (\<lambda>s. op_then (send_node k (FindRequest number (my_estimated_lan s) key off force)) (op_return f)))"

definition on_find_request ::
  "dht_env \<Rightarrow> seconds \<Rightarrow> peer \<Rightarrow> int \<Rightarrow> address \<Rightarrow> bytes \<Rightarrow> int \<Rightarrow> bool \<Rightarrow> unit dht_op" where
  "on_find_request E now p identifier lan key off force =
     op_bind (get_requesting_node E now p) (\<lambda>node.
       case node of
         None \<Rightarrow> op_return ()
       | Some k \<Rightarrow>
           op_state (\<lambda>s.
           let n = node_objects s ! k; c = get_address_class n
           in op_bind (get_storage c) (\<lambda>st.
              let values = (if force then [] else storage_get st key off (Some (int MAX_VALUES_IN_FIND)))
              in op_bind
                   (if force \<or> values = [] then
                      op_bind (get_routing_table E c) (\<lambda>rt.
                      op_bind (op_of (closest_nodes now rt key MAX_NODES_IN_FIND (Some n))) (\<lambda>ns.
                      op_then
                        (case ns of
                           [] \<Rightarrow> op_return ()
                         | m # _ \<Rightarrow> op_modify (\<lambda>s. s\<lparr>dht_out := dht_out s @
                             [PunctureRequestTo (peer_address m) lan (peer_address p) identifier]\<rparr>))
                        (op_return ns)))
                    else op_return []) (\<lambda>ns.
                 op_bind (op_of (generate_token E n s)) (\<lambda>token.
                 send_to (peer_address p)
                   (FindResponse identifier token values (map (\<lambda>m. (public_key_bin m, peer_address m)) ns)))))))"

definition on_find_response ::
  "dht_env \<Rightarrow> seconds \<Rightarrow> int \<Rightarrow> bytes \<Rightarrow> bytes list \<Rightarrow> (bytes \<times> address) list \<Rightarrow> unit dht_op" where
  "on_find_response E now identifier token values ns =
     op_bind (new_nodes E now ns) (\<lambda>ks.
     op_bind (pop_request ''find'' identifier) (\<lambda>r.
       case r of
         None \<Rightarrow> op_return ()
       | Some r \<Rightarrow>
           op_then (request_on_complete now r)
           (op_state (\<lambda>s.
           op_bind (op_of (id_of s (request_node r))) (\<lambda>i.
           op_then (op_modify (\<lambda>s. s\<lparr>tokens := dict_set i (now, token) (tokens s)\<rparr>))
             (resolve_if_pending (request_future r)
               (FindValue
                  (if request_params r = ForceNodes True then AnswerNodes ks
                   else if values \<noteq> [] then AnswerValues values else AnswerNodes ks))))))))"

section \<open>Crawls\<close>

definition update_crawl :: "nat \<Rightarrow> (crawl \<Rightarrow> crawl) \<Rightarrow> unit dht_op" where
  "update_crawl c f = op_modify (\<lambda>s. s\<lparr>crawls := (crawls s)[c := f (crawls s ! c)]\<rparr>)"

definition new_crawl :: "seconds \<Rightarrow> bytes \<Rightarrow> bool \<Rightarrow> int \<Rightarrow> address_class \<Rightarrow> nat dht_op" where
  "new_crawl now key force off c =
     op_state (\<lambda>s.
       case dict_get (routing_tables s) c of
         None \<Rightarrow> op_raise KeyError
       | Some rt \<Rightarrow>
           op_bind (op_of (closest_nodes now rt key MAX_CRAWL_NODES None)) (\<lambda>ns.
             if ns = [] then op_raise DHTError
             else
               op_then
                 (op_modify (\<lambda>s. s\<lparr>crawls := crawls s @
                   [\<lparr>crawl_table = c, target = key, nodes_todo = map (\<lambda>n. (node_object n, None)) ns,
                     nodes_tried = [], responses = [], force_nodes = force, offset = off, crawl_tasks = [],
                     crawl_stage = Crawling\<rparr>]\<rparr>))
                 (op_return (length (crawls s)))))"

definition crawl_done :: "crawl \<Rightarrow> bool" where
  "crawl_done cr \<longleftrightarrow> length (nodes_tried cr) \<ge> MAX_CRAWL_REQUESTS \<or> nodes_todo cr = []"

text \<open>Membership of nodes is by equality of their keys.\<close>

definition node_in :: "dht \<Rightarrow> nat \<Rightarrow> nat list \<Rightarrow> bool" where
  "node_in s k ks \<longleftrightarrow> list_ex (\<lambda>j. peer_eq (node_objects s ! j) (node_objects s ! k)) ks"

definition too_far :: "dht \<Rightarrow> nat \<Rightarrow> crawl \<Rightarrow> bool result" where
  "too_far s k cr =
     (if length (nodes_todo cr) < 4 then return False
      else
        bind_result (distance_of s (target cr) k) (\<lambda>d.
        bind_result (distance_of s (target cr) (fst (nodes_todo cr ! 3))) (\<lambda>d'. return (d > d'))))"

definition find_position :: "('a \<Rightarrow> bool) \<Rightarrow> 'a list \<Rightarrow> nat option" where
  "find_position P xs = find (\<lambda>i. P (xs ! i)) [0..<length xs]"

definition add_node :: "dht \<Rightarrow> nat option \<Rightarrow> nat \<Rightarrow> crawl \<Rightarrow> crawl \<times> unit result" where
  "add_node s puncture k cr =
     (if node_in s k (nodes_tried cr) then (cr, return ())
      else case too_far s k cr of
             Inl e \<Rightarrow> (cr, raise e)
           | Inr True \<Rightarrow> (cr, return ())
           | Inr False \<Rightarrow>
               (case find_position (\<lambda>(j, _). peer_eq (node_objects s ! j) (node_objects s ! k)) (nodes_todo cr) of
                  Some i \<Rightarrow>
                    (cr\<lparr>nodes_todo := (nodes_todo cr)[i := (fst (nodes_todo cr ! i), puncture)]\<rparr>, return ())
                | None \<Rightarrow>
                    let todo = nodes_todo cr @ [(k, puncture)]
                    in case sort_by_result (\<lambda>(j, _). distance_of s (target cr) j) todo of
                         Inl e \<Rightarrow> (cr\<lparr>nodes_todo := todo\<rparr>, raise e)
                       | Inr sorted_todo \<Rightarrow> (cr\<lparr>nodes_todo := sorted_todo\<rparr>, return ())))"

text \<open>The first node of a response has been punctured already; the sender can puncture the others.\<close>

fun add_nodes :: "dht \<Rightarrow> nat \<Rightarrow> nat option \<Rightarrow> nat list \<Rightarrow> crawl \<Rightarrow> crawl \<times> unit result" where
  "add_nodes s sender puncture [] cr = (cr, return ())"
| "add_nodes s sender puncture (k # ks) cr =
     (case add_node s puncture k cr of
        (cr, Inl e) \<Rightarrow> (cr, raise e)
      | (cr, Inr _) \<Rightarrow> add_nodes s sender (Some sender) ks cr)"

definition add_response :: "dht \<Rightarrow> nat \<Rightarrow> find_answer \<Rightarrow> crawl \<Rightarrow> crawl \<times> unit result" where
  "add_response s sender answer cr =
     add_nodes s sender None (case answer of AnswerNodes ks \<Rightarrow> ks | AnswerValues _ \<Rightarrow> [])
       (cr\<lparr>responses := responses cr @ [(sender, answer)]\<rparr>)"

definition cache_candidate :: "dht \<Rightarrow> crawl \<Rightarrow> nat option result" where
  "cache_candidate s cr =
     bind_result
       (sort_by_result (distance_of s (target cr))
          (concat (map (\<lambda>(k, a). case a of AnswerNodes _ \<Rightarrow> [k] | AnswerValues _ \<Rightarrow> []) (responses cr))))
       (\<lambda>ks. return (case ks of [] \<Rightarrow> None | k # _ \<Rightarrow> Some k))"

text \<open>\<^verbatim>\<open>zip_longest\<close> without its fill values, flattened: the first elements of all lists, then the second ones, \<dots>\<close>

definition round_robin :: "'a list list \<Rightarrow> 'a list" where
  "round_robin xss =
     concat (map (\<lambda>i. concat (map (\<lambda>xs. if i < length xs then [xs ! i] else []) xss)) [0..<Max (set (0 # map length xss))])"

definition crawl_values :: "crawl \<Rightarrow> bytes list" where
  "crawl_values cr =
     unique (round_robin (concat (map (\<lambda>(_, a). case a of AnswerNodes _ \<Rightarrow> [] | AnswerValues vs \<Rightarrow> [vs]) (responses cr))))"

definition crawl_nodes :: "dht \<Rightarrow> crawl \<Rightarrow> nat list result" where
  "crawl_nodes s cr = sort_by_result (distance_of s (target cr)) (nodes_tried cr)"

text \<open>
  One step of the task that contacts a node (\<^verbatim>\<open>_contact_node\<close>): it sends a request, or goes on when the future that
  it waits for is done. A task that raises has ended as well.
\<close>

definition set_contact :: "nat \<Rightarrow> nat \<Rightarrow> contact \<Rightarrow> unit dht_op" where
  "set_contact c j t = update_crawl c (\<lambda>cr. cr\<lparr>crawl_tasks := (crawl_tasks cr)[j := t]\<rparr>)"

definition ask_node :: "dht_env \<Rightarrow> seconds \<Rightarrow> nat \<Rightarrow> nat \<Rightarrow> nat \<Rightarrow> unit dht_op" where
  "ask_node E now c j k =
     op_state (\<lambda>s.
       let cr = crawls s ! c
       in op_bind (send_find_request E now k (target cr) (force_nodes cr) (offset cr)) (\<lambda>f. set_contact c j (AwaitAnswer k f)))"

definition contact_node :: "dht_env \<Rightarrow> seconds \<Rightarrow> nat \<Rightarrow> nat \<Rightarrow> contact \<Rightarrow> unit dht_op" where
  "contact_node E now c j t =
     (case t of
        StartContact k None \<Rightarrow> ask_node E now c j k
      | StartContact k (Some p) \<Rightarrow>
          op_state (\<lambda>s.
            op_bind (op_of (id_of s k)) (\<lambda>i.
            op_bind (send_find_request E now p i (force_nodes (crawls s ! c)) 0) (\<lambda>f. set_contact c j (AwaitPuncture k f))))
      | AwaitPuncture k f \<Rightarrow>
          op_state (\<lambda>s.
            case future_state s f of
              PendingFuture \<Rightarrow> op_return ()
            | FailedFuture e \<Rightarrow> op_raise e
            | ResultFuture _ \<Rightarrow> ask_node E now c j k)
      | AwaitAnswer k f \<Rightarrow>
          op_state (\<lambda>s.
            case future_state s f of
              PendingFuture \<Rightarrow> op_return ()
            | FailedFuture e \<Rightarrow> op_raise e
            | ResultFuture (FindValue answer) \<Rightarrow>
                op_then (op_bind (table_add now (crawl_table (crawls s ! c)) k) (\<lambda>_. op_return ()))
                (op_then
                  (op_state (\<lambda>s.
                     let (cr, r) = add_response s k answer (crawls s ! c)
                     in op_then (update_crawl c (\<lambda>_. cr)) (op_of r)))
                  (set_contact c j (Contacted k)))
            | ResultFuture _ \<Rightarrow> set_contact c j (Contacted k))
      | Contacted k \<Rightarrow> op_return ())"

fun contact_of :: "contact \<Rightarrow> nat" where
  "contact_of (StartContact k _) = k"
| "contact_of (AwaitPuncture k _) = k"
| "contact_of (AwaitAnswer k _) = k"
| "contact_of (Contacted k) = k"

definition is_contacted :: "contact \<Rightarrow> bool" where
  "is_contacted t \<longleftrightarrow> (case t of Contacted _ \<Rightarrow> True | _ \<Rightarrow> False)"

definition contact_step :: "dht_env \<Rightarrow> seconds \<Rightarrow> nat \<Rightarrow> nat \<Rightarrow> unit dht_op" where
  "contact_step E now c j =
     op_state (\<lambda>s.
       if c < length (crawls s) \<and> j < length (crawl_tasks (crawls s ! c)) then
         let t = crawl_tasks (crawls s ! c) ! j
         in op_catch (contact_node E now c j t) (\<lambda>_. set_contact c j (Contacted (contact_of t)))
       else op_return ())"

text \<open>The loop of \<^verbatim>\<open>_find\<close>: start tasks, wait for one of them to end, and finish when there are none.\<close>

fun fill_loop :: "dht \<Rightarrow> (nat \<times> nat option) list \<Rightarrow> crawl \<Rightarrow> crawl" where
  "fill_loop s [] cr = cr\<lparr>nodes_todo := []\<rparr>"
| "fill_loop s ((k, p) # todo) cr =
     (if length (nodes_tried cr) < MAX_CRAWL_REQUESTS \<and> length (crawl_tasks cr) < MAX_CRAWL_TASKS then
        fill_loop s todo
          (cr\<lparr>crawl_tasks := crawl_tasks cr @ [StartContact k p],
              nodes_tried := (if node_in s k (nodes_tried cr) then nodes_tried cr else nodes_tried cr @ [k])\<rparr>)
      else cr\<lparr>nodes_todo := (k, p) # todo\<rparr>)"

definition fill_tasks :: "dht \<Rightarrow> crawl \<Rightarrow> crawl" where
  "fill_tasks s cr = fill_loop s (nodes_todo cr) cr"

definition end_crawl :: "nat \<Rightarrow> find_result result \<Rightarrow> unit dht_op" where
  "end_crawl c r = update_crawl c (\<lambda>cr. cr\<lparr>crawl_stage := CrawlEnded r\<rparr>)"

definition crawl_result :: "dht_env \<Rightarrow> crawl \<Rightarrow> find_result result" where
  "crawl_result E cr = bind_result (post_process_values E (crawl_values cr)) (\<lambda>vs. return (FoundValues vs))"

definition finish_crawl :: "dht_env \<Rightarrow> seconds \<Rightarrow> nat \<Rightarrow> unit dht_op" where
  "finish_crawl E now c =
     op_state (\<lambda>s.
       let cr = crawls s ! c
       in if force_nodes cr then end_crawl c (bind_result (crawl_nodes s cr) (\<lambda>ks. return (FoundNodes ks)))
          else
            op_bind (op_of (cache_candidate s cr)) (\<lambda>candidate.
              case (candidate, crawl_values cr) of
                (Some k, v # vs) \<Rightarrow>
                  op_bind (store_on_nodes E now (target cr) (v # vs) [k])
                    (\<lambda>fs. update_crawl c (\<lambda>cr. cr\<lparr>crawl_stage := Caching fs\<rparr>))
              | _ \<Rightarrow> end_crawl c (crawl_result E cr)))"

definition crawl_continue :: "dht_env \<Rightarrow> seconds \<Rightarrow> nat \<Rightarrow> unit dht_op" where
  "crawl_continue E now c =
     op_state (\<lambda>s.
       let cr = crawls s ! c; cr = fill_tasks s (cr\<lparr>crawl_tasks := filter (\<lambda>t. \<not> is_contacted t) (crawl_tasks cr)\<rparr>)
       in op_then (update_crawl c (\<lambda>_. cr))
            (op_when (crawl_tasks cr = []) (op_catch (finish_crawl E now c) (\<lambda>e. end_crawl c (raise e)))))"

definition crawl_step :: "dht_env \<Rightarrow> seconds \<Rightarrow> nat \<Rightarrow> unit dht_op" where
  "crawl_step E now c =
     op_state (\<lambda>s.
       if length (crawls s) \<le> c then op_return ()
       else
         let cr = crawls s ! c
         in case crawl_stage cr of
              CrawlEnded _ \<Rightarrow> op_return ()
            | Caching fs \<Rightarrow>
                op_when (list_all (future_done s) fs) (end_crawl c (crawl_result E cr))
            | Crawling \<Rightarrow>
                op_when (crawl_tasks cr = [] \<or> list_ex is_contacted (crawl_tasks cr)) (crawl_continue E now c))"

section \<open>Searches\<close>

text \<open>\<^verbatim>\<open>find\<close>: a crawl for every routing table. One that finds its table without nodes makes the call raise.\<close>

fun new_crawls :: "seconds \<Rightarrow> bytes \<Rightarrow> bool \<Rightarrow> int \<Rightarrow> address_class list \<Rightarrow> nat list dht_op" where
  "new_crawls now key force off [] = op_return []"
| "new_crawls now key force off (c # cs) =
     op_bind (new_crawl now key force off c) (\<lambda>i.
     op_bind (new_crawls now key force off cs) (\<lambda>is. op_return (i # is)))"

definition find_with :: "seconds \<Rightarrow> bytes \<Rightarrow> bool \<Rightarrow> int \<Rightarrow> goal \<Rightarrow> unit dht_op" where
  "find_with now key force off g =
     op_state (\<lambda>s.
       op_bind (new_crawls now key force off (dict_keys (routing_tables s))) (\<lambda>cs.
         op_modify (\<lambda>s. s\<lparr>searches := searches s @
           [\<lparr>search_crawls = cs, search_goal = g, search_stage = Searching\<rparr>]\<rparr>)))"

definition find_values :: "seconds \<Rightarrow> bytes \<Rightarrow> int \<Rightarrow> goal \<Rightarrow> unit dht_op" where
  "find_values now key off g = find_with now key False off g"

definition find_nodes :: "seconds \<Rightarrow> bytes \<Rightarrow> goal \<Rightarrow> unit dht_op" where
  "find_nodes now key g = find_with now key True 0 g"

fun merge_results :: "find_result list \<Rightarrow> find_result" where
  "merge_results [] = FoundValues []"
| "merge_results [r] = r"
| "merge_results (FoundNodes ks # rs) = (case merge_results rs of FoundNodes js \<Rightarrow> FoundNodes (ks @ js) | r \<Rightarrow> FoundNodes ks)"
| "merge_results (FoundValues vs # rs) = (case merge_results rs of FoundValues ws \<Rightarrow> FoundValues (vs @ ws) | r \<Rightarrow> FoundValues vs)"

text \<open>With \<^verbatim>\<open>debug\<close>, \<^verbatim>\<open>tuple\<close> is called with one argument for every routing table.\<close>

definition debug_values :: "found_value list list \<Rightarrow> found_value list result" where
  "debug_values results =
     (case results of [] \<Rightarrow> return [] | [vs] \<Rightarrow> return vs | _ \<Rightarrow> raise TypeError)"

text \<open>\<^verbatim>\<open>store_value\<close> and \<^verbatim>\<open>_store\<close>, up to the search for nodes.\<close>

definition store_value :: "dht_env \<Rightarrow> seconds \<Rightarrow> bytes \<Rightarrow> bytes \<Rightarrow> bool \<Rightarrow> unit dht_op" where
  "store_value E now key data sign =
     op_bind (op_of (serialize_value E now data sign)) (\<lambda>value.
       if length value > MAX_ENTRY_SIZE then op_raise DHTError else find_nodes now key (StoreFound key value))"

section \<open>Maintenance\<close>

text \<open>Buckets that have not changed for a quarter of an hour, by their prefix.\<close>

definition stale_buckets :: "seconds \<Rightarrow> dht \<Rightarrow> (address_class \<times> string) list" where
  "stale_buckets now s =
     concat (map (\<lambda>(c, rt).
       map (\<lambda>b. (c, prefix_id b)) (filter (\<lambda>b. now - last_changed b > 15 * 60) (trie_values (buckets rt))))
       (routing_tables s))"

definition refresh_todo :: "seconds \<Rightarrow> dht \<Rightarrow> (address_class \<times> string) list list" where
  "refresh_todo now s =
     (let bs = stale_buckets now s
      in map (\<lambda>p. filter (\<lambda>(_, q). q = p) bs) (unique (map snd bs)))"

definition touch_bucket :: "seconds \<Rightarrow> address_class \<times> string \<Rightarrow> unit dht_op" where
  "touch_bucket t = (\<lambda>(c, p).
     op_state (\<lambda>s.
       case dict_get (routing_tables s) c of
         None \<Rightarrow> op_return ()
       | Some rt \<Rightarrow>
           (case trie_getitem (buckets rt) p of
              Inl _ \<Rightarrow> op_return ()
            | Inr b \<Rightarrow>
                op_modify (\<lambda>s. s\<lparr>routing_tables :=
                  dict_set c (put_bucket p (b\<lparr>last_changed := t\<rparr>) rt) (routing_tables s)\<rparr>))))"

definition refresh_id :: "dht_env \<Rightarrow> (address_class \<times> string) list \<Rightarrow> bytes dht_op" where
  "refresh_id E bs =
     op_state (\<lambda>s.
       let b = new_bucket (snd (hd bs)) MAX_BUCKET_SIZE; r = de_random E (drawn s) mod (2 ^ (160 - length (prefix_id b)) + 1)
       in op_then (op_modify (\<lambda>s. s\<lparr>drawn := Suc (drawn s)\<rparr>)) (op_of (generate_id b r)))"

fun refresh_next :: "dht_env \<Rightarrow> seconds \<Rightarrow> seconds \<Rightarrow> (address_class \<times> string) list list \<Rightarrow> unit dht_op" where
  "refresh_next E now t [] = op_return ()"
| "refresh_next E now t (bs # rest) =
     op_catch
       (op_bind (refresh_id E bs) (\<lambda>key. find_values now key 0 (RefreshFound bs rest t)))
       (\<lambda>e. if e = DHTError then op_then (op_for (touch_bucket t) bs) (refresh_next E now t rest) else op_raise e)"

definition node_maintenance :: "dht_env \<Rightarrow> seconds \<Rightarrow> unit dht_op" where
  "node_maintenance E now = op_state (\<lambda>s. refresh_next E now now (refresh_todo now s))"

definition value_maintenance :: "seconds \<Rightarrow> unit dht_op" where
  "value_maintenance now =
     op_modify (\<lambda>s. s\<lparr>storages := map (\<lambda>(c, st). (c, storage_clean now st)) (storages s)\<rparr>)"

end
