(* ===== verification/DHTDiscovery.thy ===== *)
theory DHTDiscovery
  imports DHT
begin

text \<open>
  The DHT overlay that also stores peers (\<^verbatim>\<open>ipv8/dht/discovery.py\<close>), the strategy that maintains it
  (\<^verbatim>\<open>ipv8/dht/churn.py\<close>), the steps after a search, and the events of the whole overlay.
\<close>

section \<open>Storing and connecting peers\<close>

text \<open>
  \<^verbatim>\<open>store\<close> and \<^verbatim>\<open>store_for_me\<close> are \<^verbatim>\<open>defaultdict(list)\<close>: reading a missing key creates an empty list.
\<close>

definition peers_at :: "bytes \<Rightarrow> (bytes, nat list) dict \<Rightarrow> nat list" where
  "peers_at key d = (case dict_get d key of None \<Rightarrow> [] | Some ks \<Rightarrow> ks)"

definition read_store :: "bytes \<Rightarrow> nat list dht_op" where
  "read_store key =
     op_state (\<lambda>s.
       op_then (op_modify (\<lambda>s. s\<lparr>peer_store := dict_set key (peers_at key (peer_store s)) (peer_store s)\<rparr>))
         (op_return (peers_at key (peer_store s))))"

definition read_store_for_me :: "bytes \<Rightarrow> nat list dht_op" where
  "read_store_for_me key =
     op_state (\<lambda>s.
       op_then (op_modify (\<lambda>s. s\<lparr>store_for_me := dict_set key (peers_at key (store_for_me s)) (store_for_me s)\<rparr>))
         (op_return (peers_at key (store_for_me s))))"

definition find_node_in_dict :: "dht \<Rightarrow> bytes \<Rightarrow> (bytes, nat list) dict \<Rightarrow> nat option" where
  "find_node_in_dict s key d = find (\<lambda>k. public_key_bin (node_objects s ! k) = key) (concat (dict_values d))"

definition discovery_on_ping_request :: "dht_env \<Rightarrow> seconds \<Rightarrow> peer \<Rightarrow> int \<Rightarrow> unit dht_op" where
  "discovery_on_ping_request E now p identifier =
     op_then (on_ping_request E now p identifier)
       (op_state (\<lambda>s.
          case find_node_in_dict s (public_key_bin p) (peer_store s) of
            None \<Rightarrow> op_return () | Some k \<Rightarrow> update_node k (append_query now)))"

definition discovery_on_ping_response :: "seconds \<Rightarrow> peer \<Rightarrow> int \<Rightarrow> unit dht_op" where
  "discovery_on_ping_response now p identifier =
     op_then (on_ping_response now identifier)
       (op_state (\<lambda>s.
          case find_node_in_dict s (public_key_bin p) (store_for_me s) of
            None \<Rightarrow> op_return () | Some k \<Rightarrow> update_node k (\<lambda>n. n\<lparr>last_response := now\<rparr>)))"

text \<open>Nodes again as objects of their own.\<close>

fun copy_nodes :: "dht_env \<Rightarrow> seconds \<Rightarrow> nat list \<Rightarrow> nat list dht_op" where
  "copy_nodes E now [] = op_return []"
| "copy_nodes E now (k # ks) =
     op_state (\<lambda>s.
       let (key, a) = node_fields s k
       in op_bind (new_node E now (KeyObject key) a) (\<lambda>j.
          op_bind (copy_nodes E now ks) (\<lambda>js. op_return (j # js))))"

fun send_store_peer_requests :: "dht_env \<Rightarrow> seconds \<Rightarrow> bytes \<Rightarrow> nat list \<Rightarrow> nat list dht_op" where
  "send_store_peer_requests E now key [] = op_return []"
| "send_store_peer_requests E now key (k # ks) =
     op_state (\<lambda>s.
     op_bind (op_of (id_of s k)) (\<lambda>i.
       case dict_get (tokens s) i of
         None \<Rightarrow> send_store_peer_requests E now key ks
       | Some (_, token) \<Rightarrow>
           op_bind (new_request E now ''store-peer'' k (StoredKey key) False 5) (\<lambda>(number, f).
           op_then (send_node k (StorePeerRequest number token key))
           (op_bind (send_store_peer_requests E now key ks) (\<lambda>fs. op_return (f # fs))))))"

definition send_store_peer_request :: "dht_env \<Rightarrow> seconds \<Rightarrow> bytes \<Rightarrow> nat list \<Rightarrow> nat list dht_op" where
  "send_store_peer_request E now key ks =
     op_bind (if ks = [] then op_return [] else read_store_for_me key) (\<lambda>mine.
     op_state (\<lambda>s.
     op_bind (copy_nodes E now (filter (\<lambda>k. \<not> node_in s k mine) ks)) (\<lambda>ks.
       if ks = [] then op_raise DHTError
       else
         op_bind (send_store_peer_requests E now key ks) (\<lambda>fs.
           if fs = [] then op_raise DHTError else op_return fs))))"

fun send_connect_peer_requests :: "dht_env \<Rightarrow> seconds \<Rightarrow> bytes \<Rightarrow> nat list \<Rightarrow> nat list dht_op" where
  "send_connect_peer_requests E now key [] = op_return []"
| "send_connect_peer_requests E now key (k # ks) =
     op_bind (new_request E now ''connect-peer'' k NoParams False 5) (\<lambda>(number, f).
     op_state (\<lambda>s.
     op_then (send_node k (ConnectPeerRequest number (my_estimated_lan s) key))
     (op_bind (send_connect_peer_requests E now key ks) (\<lambda>fs. op_return (f # fs)))))"

definition send_connect_peer_request :: "dht_env \<Rightarrow> seconds \<Rightarrow> bytes \<Rightarrow> nat list \<Rightarrow> nat list dht_op" where
  "send_connect_peer_request E now key ks =
     op_bind (copy_nodes E now ks) (\<lambda>ks.
       if ks = [] then op_raise DHTError else send_connect_peer_requests E now key ks)"

definition store_peer :: "dht_env \<Rightarrow> seconds \<Rightarrow> unit dht_op" where
  "store_peer E now =
     op_bind (read_store_for_me (de_my_mid E)) (\<lambda>mine.
       if length mine \<ge> TARGET_NODES div 2 then op_return ()
       else op_catch (find_nodes now (de_my_mid E) (StorePeerFound (de_my_mid E)))
              (\<lambda>e. if e = DHTError then op_return () else op_raise e))"

text \<open>
  \<^verbatim>\<open>connect_peer\<close>: known peers are returned at once; a given peer is pinged before anything is looked up.
\<close>

definition end_search :: "nat \<Rightarrow> find_result result \<Rightarrow> unit dht_op" where
  "end_search i r = op_modify (\<lambda>s. s\<lparr>searches := (searches s)[i := (searches s ! i)\<lparr>search_stage := SearchEnded r\<rparr>]\<rparr>)"

definition new_search :: "goal \<Rightarrow> search_stage \<Rightarrow> unit dht_op" where
  "new_search g stage =
     op_modify (\<lambda>s. s\<lparr>searches := searches s @ [\<lparr>search_crawls = [], search_goal = g, search_stage = stage\<rparr>]\<rparr>)"

definition connect_peer :: "dht_env \<Rightarrow> seconds \<Rightarrow> bytes \<Rightarrow> peer option \<Rightarrow> unit dht_op" where
  "connect_peer E now m p =
     op_state (\<lambda>s.
       case dict_get (peer_store s) m of
         Some ks \<Rightarrow> new_search (ConnectFound m) (SearchEnded (return (FoundNodes ks)))
       | None \<Rightarrow>
           (case p of
              None \<Rightarrow> find_nodes now m (ConnectFound m)
            | Some q \<Rightarrow>
                op_bind (new_node E now (KeyObject (public_key_bin q)) (peer_address q)) (\<lambda>k.
                op_bind (ping E now k) (\<lambda>f. new_search (PingedFirst m k) (Awaiting [f])))))"

section \<open>Requests and responses of peers\<close>

definition on_store_peer_request :: "dht_env \<Rightarrow> seconds \<Rightarrow> peer \<Rightarrow> int \<Rightarrow> bytes \<Rightarrow> bytes \<Rightarrow> unit dht_op" where
  "on_store_peer_request E now p identifier token key =
     op_bind (new_node E now (KeyObject (public_key_bin p)) (peer_address p)) (\<lambda>k.
     op_then (update_node k (append_query now))
     (op_state (\<lambda>s.
        if \<not> check_token E (node_objects s ! k) token s then op_return ()
        else if key \<noteq> mid p then op_return ()
        else
          op_bind (read_store key) (\<lambda>ks.
          op_then
            (op_when (\<not> node_in s k ks)
              (op_modify (\<lambda>s. s\<lparr>peer_store := dict_set key (ks @ [k]) (peer_store s)\<rparr>)))
            (send_node k (StorePeerResponse identifier))))))"

definition on_store_peer_response :: "int \<Rightarrow> unit dht_op" where
  "on_store_peer_response identifier =
     op_bind (pop_request ''store-peer'' identifier) (\<lambda>r.
       case r of
         None \<Rightarrow> op_return ()
       | Some r \<Rightarrow>
           (case request_params r of
              StoredKey key \<Rightarrow>
                op_bind (read_store_for_me key) (\<lambda>ks.
                op_state (\<lambda>s.
                op_then
                  (op_when (\<not> node_in s (request_node r) ks)
                    (op_modify (\<lambda>s. s\<lparr>store_for_me := dict_set key (ks @ [request_node r]) (store_for_me s)\<rparr>)))
                  (set_future (request_future r) (ResultFuture (NodeValue (request_node r))))))
            | _ \<Rightarrow> op_raise TypeError))"

definition on_connect_peer_request :: "peer \<Rightarrow> int \<Rightarrow> address \<Rightarrow> bytes \<Rightarrow> unit dht_op" where
  "on_connect_peer_request p identifier lan key =
     op_bind (read_store key) (\<lambda>ks.
     op_state (\<lambda>s.
     let ks = take MAX_NODES_IN_FIND ks
     in op_then
          (op_modify (\<lambda>s. s\<lparr>dht_out := dht_out s @
             map (\<lambda>k. PunctureRequestTo (peer_address (node_objects s ! k)) lan (peer_address p) identifier) ks\<rparr>))
          (send_to (peer_address p) (ConnectPeerResponse identifier (map (node_fields s) ks)))))"

definition on_connect_peer_response :: "dht_env \<Rightarrow> seconds \<Rightarrow> int \<Rightarrow> (bytes \<times> address) list \<Rightarrow> unit dht_op" where
  "on_connect_peer_response E now identifier ns =
     op_bind (new_nodes E now ns) (\<lambda>ks.
     op_bind (pop_request ''connect-peer'' identifier) (\<lambda>r.
       case r of
         None \<Rightarrow> op_return ()
       | Some r \<Rightarrow> set_future (request_future r) (ResultFuture (NodesValue ks))))"

text \<open>\<^verbatim>\<open>ping_all\<close> goes through every list from its end.\<close>

definition ping_stored :: "dht_env \<Rightarrow> seconds \<Rightarrow> nat \<Rightarrow> unit dht_op" where
  "ping_stored E now k =
     op_state (\<lambda>s.
       op_when (last_ping_sent (node_objects s ! k) + PING_INTERVAL \<le> now)
         (op_bind (ping E now k) (\<lambda>_. op_return ())))"

definition ping_all :: "dht_env \<Rightarrow> seconds \<Rightarrow> unit dht_op" where
  "ping_all E now =
     op_then
       (op_state (\<lambda>s.
          let bad = (\<lambda>k. status now (node_objects s ! k) = NODE_STATUS_BAD)
          in op_for (\<lambda>(key, ks).
               op_then (op_for (\<lambda>k. if bad k then op_return () else ping_stored E now k) (rev ks))
                 (op_modify (\<lambda>s. s\<lparr>store_for_me := dict_set key (filter (\<lambda>k. \<not> bad k) ks) (store_for_me s)\<rparr>)))
               (store_for_me s)))
       (op_modify (\<lambda>s. s\<lparr>peer_store :=
          map (\<lambda>(key, ks). (key, filter (\<lambda>k. now \<le> last_query (node_objects s ! k) + 60) ks)) (peer_store s)\<rparr>))"

section \<open>After a search\<close>

definition found_nodes :: "find_result \<Rightarrow> nat list" where
  "found_nodes r = (case r of FoundNodes ks \<Rightarrow> ks | FoundValues _ \<Rightarrow> [])"

definition await_requests :: "nat \<Rightarrow> nat list \<Rightarrow> unit dht_op" where
  "await_requests i fs =
     op_modify (\<lambda>s. s\<lparr>searches := (searches s)[i := (searches s ! i)\<lparr>search_stage := Awaiting fs\<rparr>]\<rparr>)"

text \<open>The crawls of a search have ended; the caller of \<^verbatim>\<open>find\<close> goes on, with the result or with the exception.\<close>

definition search_found :: "dht_env \<Rightarrow> seconds \<Rightarrow> nat \<Rightarrow> goal \<Rightarrow> find_result \<Rightarrow> unit dht_op" where
  "search_found E now i g r =
     (case g of
        ReturnFound \<Rightarrow> end_search i (return r)
      | StoreFound key value \<Rightarrow>
          op_bind (store_on_nodes E now key [value] (take TARGET_NODES (found_nodes r))) (await_requests i)
      | RefreshFound bs rest t \<Rightarrow>
          op_then (end_search i (return r)) (op_then (op_for (touch_bucket t) bs) (refresh_next E now t rest))
      | StorePeerFound key \<Rightarrow>
          op_bind (send_store_peer_request E now key (take TARGET_NODES (found_nodes r))) (await_requests i)
      | ConnectFound key \<Rightarrow>
          op_bind (send_connect_peer_request E now key (take TARGET_NODES (found_nodes r))) (await_requests i)
      | PingedFirst _ _ \<Rightarrow> end_search i (return r))"

definition search_failed :: "dht_env \<Rightarrow> seconds \<Rightarrow> nat \<Rightarrow> goal \<Rightarrow> py_error \<Rightarrow> unit dht_op" where
  "search_failed E now i g e =
     (case (g, e) of
        (RefreshFound bs rest t, DHTError) \<Rightarrow>
          op_then (end_search i (raise e)) (op_then (op_for (touch_bucket t) bs) (refresh_next E now t rest))
      | (StorePeerFound _, DHTError) \<Rightarrow> end_search i (return (FoundNodes []))
      | _ \<Rightarrow> end_search i (raise e))"

definition add_unique :: "dht \<Rightarrow> nat list \<Rightarrow> nat \<Rightarrow> nat list" where
  "add_unique s ks k = (if node_in s k ks then ks else ks @ [k])"

definition value_nodes :: "future_value \<Rightarrow> nat list" where
  "value_nodes v = (case v of NodeValue k \<Rightarrow> [k] | NodesValue ks \<Rightarrow> ks | _ \<Rightarrow> [])"

text \<open>The requests of a search have been answered or timed out.\<close>

definition requests_done :: "seconds \<Rightarrow> nat \<Rightarrow> goal \<Rightarrow> nat list \<Rightarrow> unit dht_op" where
  "requests_done now i g fs =
     op_state (\<lambda>s.
       let ks = concat (map value_nodes (gather_without_errors s fs))
       in case g of
            StoreFound _ _ \<Rightarrow> end_search i (if ks = [] then raise DHTError else return (FoundNodes ks))
          | ConnectFound _ \<Rightarrow>
              end_search i (if ks = [] then raise DHTError else return (FoundNodes (foldl (add_unique s) [] ks)))
          | PingedFirst m k \<Rightarrow>
              (case map (future_state s) fs of
                 [FailedFuture e] \<Rightarrow>
                   if e = DHTError then
                     op_then (end_search i (raise e)) (find_nodes now m (ConnectFound m))
                   else end_search i (raise e)
               | _ \<Rightarrow> end_search i (return (FoundNodes [k])))
          | _ \<Rightarrow> end_search i (return (FoundNodes ks)))"

definition crawl_outcome :: "dht \<Rightarrow> nat \<Rightarrow> find_result result option" where
  "crawl_outcome s c = (case crawl_stage (crawls s ! c) of CrawlEnded r \<Rightarrow> Some r | _ \<Rightarrow> None)"

definition search_step :: "dht_env \<Rightarrow> seconds \<Rightarrow> nat \<Rightarrow> unit dht_op" where
  "search_step E now i =
     op_state (\<lambda>s.
       if length (searches s) \<le> i then op_return ()
       else
         let sr = searches s ! i; g = search_goal sr
         in case search_stage sr of
              SearchEnded _ \<Rightarrow> op_return ()
            | Awaiting fs \<Rightarrow> op_when (list_all (future_done s) fs) (requests_done now i g fs)
            | Searching \<Rightarrow>
                let outcomes = map (crawl_outcome s) (search_crawls sr)
                in case concat (map (\<lambda>x. case x of Some (Inl e) \<Rightarrow> [e] | _ \<Rightarrow> []) outcomes) of
                     e # _ \<Rightarrow> search_failed E now i g e
                   | [] \<Rightarrow>
                       op_when (None \<notin> set outcomes)
                         (op_catch
                           (search_found E now i g
                             (merge_results (concat (map (\<lambda>x. case x of Some (Inr r) \<Rightarrow> [r] | _ \<Rightarrow> []) outcomes))))
                           (search_failed E now i g)))"

section \<open>Churn\<close>

text \<open>
  \<^verbatim>\<open>PingChurn.take_step\<close> (\<^verbatim>\<open>dht/churn.py\<close>). A node is a peer that is not in the store of peers of the network yet.
\<close>

definition update_network :: "(network \<Rightarrow> network) \<Rightarrow> unit dht_op" where
  "update_network f = op_modify (\<lambda>s. s\<lparr>dht_network := f (dht_network s)\<rparr>)"

definition remove_node_peer :: "dht_node \<Rightarrow> unit dht_op" where
  "remove_node_peer n =
     update_network (\<lambda>net. let (p, net) = new_object (peer.truncate n) net in remove_peer p net)"

definition get_peers :: "dht_env \<Rightarrow> pid list dht_op" where
  "get_peers E =
     op_state (\<lambda>s.
       let (ps, net) = get_peers_for_service (de_community_id E) (dht_network s)
       in op_then (op_modify (\<lambda>s. s\<lparr>dht_network := net\<rparr>)) (op_return ps))"

definition churn_remove_bad :: "seconds \<Rightarrow> address_class \<Rightarrow> unit dht_op" where
  "churn_remove_bad now c =
     op_state (\<lambda>s.
       case dict_get (routing_tables s) c of
         None \<Rightarrow> op_return ()
       | Some rt \<Rightarrow>
           (case remove_bad_nodes now rt of
              (rt', bad) \<Rightarrow> op_then (op_modify (set_table c rt')) (op_for remove_node_peer bad)))"

definition churn_add_peer :: "dht_env \<Rightarrow> seconds \<Rightarrow> pid \<Rightarrow> unit dht_op" where
  "churn_add_peer E now p =
     op_state (\<lambda>s.
       let q = peer_objects (dht_network s) ! p; a = peer_address q
       in if (ustr (addr_host a), addr_port a) \<in> set (blacklist (dht_network s)) then op_return ()
          else
            op_bind (new_node E now (KeyObject (public_key_bin q)) a) (\<lambda>k.
            op_bind (get_routing_table E (addr_class a)) (\<lambda>rt.
            op_state (\<lambda>s.
            op_bind (op_of (id_of s k)) (\<lambda>i.
            op_bind (op_of (rt_has rt i)) (\<lambda>known.
              if known then op_return ()
              else
                op_bind (table_add now (addr_class a) k) (\<lambda>added.
                  op_when (added = None) (update_network (remove_peer p)))))))))"

definition churn_verify :: "dht_env \<Rightarrow> seconds \<Rightarrow> dht_node \<Rightarrow> unit dht_op" where
  "churn_verify E now n =
     op_bind (get_peers E) (\<lambda>ps.
     op_state (\<lambda>s.
       if public_key_bin n \<in> set (map (key_of (dht_network s)) ps) then op_return ()
       else
         op_bind (op_of (new_peer (de_parse_key E) (\<lambda>k. k) (de_key_hash E) now (KeyObject (public_key_bin n))
             (Some (peer_address n)) True)) (\<lambda>p.
           update_network (\<lambda>net.
             let (q, net) = new_object p net in discover_services q [de_community_id E] (add_verified_peer q net)))))"

definition churn_ping :: "dht_env \<Rightarrow> seconds \<Rightarrow> seconds \<Rightarrow> nat \<Rightarrow> unit dht_op" where
  "churn_ping E now ping_interval k =
     op_state (\<lambda>s.
       op_when (last_ping_sent (node_objects s ! k) + ping_interval \<le> now)
         (op_bind (ping E now k) (\<lambda>_. op_return ())))"

definition all_table_nodes :: "dht \<Rightarrow> dht_node list" where
  "all_table_nodes s = concat (map (\<lambda>(_, rt). table_nodes rt) (routing_tables s))"

definition take_step :: "dht_env \<Rightarrow> seconds \<Rightarrow> seconds \<Rightarrow> unit dht_op" where
  "take_step E now ping_interval =
     op_state (\<lambda>s.
       if routing_tables s = [] then op_return ()
       else
         op_then (op_for (churn_remove_bad now) (dict_keys (routing_tables s)))
        (op_then (op_bind (get_peers E) (op_for (churn_add_peer E now)))
        (op_then (op_state (\<lambda>s. op_for (churn_verify E now) (all_table_nodes s)))
           (op_state (\<lambda>s. op_for (\<lambda>n. churn_ping E now ping_interval (node_object n)) (all_table_nodes s))))))"

section \<open>Messages and events\<close>

definition on_dht_message :: "dht_env \<Rightarrow> seconds \<Rightarrow> peer \<Rightarrow> dht_message \<Rightarrow> unit dht_op" where
  "on_dht_message E now p m =
     (case m of
        PingRequest i \<Rightarrow> discovery_on_ping_request E now p i
      | PingResponse i \<Rightarrow> discovery_on_ping_response now p i
      | StoreRequest i token key values \<Rightarrow> on_store_request E now p i token key values
      | StoreResponse i \<Rightarrow> on_store_response now i
      | FindRequest i lan key off force \<Rightarrow> on_find_request E now p i lan key off force
      | FindResponse i token values ns \<Rightarrow> on_find_response E now i token values ns
      | StorePeerRequest i token key \<Rightarrow> on_store_peer_request E now p i token key
      | StorePeerResponse i \<Rightarrow> on_store_peer_response i
      | ConnectPeerRequest i lan key \<Rightarrow> on_connect_peer_request p i lan key
      | ConnectPeerResponse i ns \<Rightarrow> on_connect_peer_response E now i ns)"

text \<open>
  What can happen: a message or an introduction of a peer, the timer of a request, a step of a coroutine, a call of the
  interface, a periodic task, and a change of what the overlay base class keeps (the own addresses, the network). Whatever
  raises is caught and logged by the caller.
\<close>

datatype dht_event =
    Received peer dht_message
  | Introduced peer
  | RequestTimer string int
  | ContactStep nat nat
  | CrawlStep nat
  | SearchStep nat
  | FindValues bytes int
  | FindNodes bytes
  | StoreValue bytes bytes bool
  | StorePeer
  | ConnectPeer bytes "peer option"
  | TokenMaintenance bytes
  | NodeMaintenance
  | ValueMaintenance
  | PingAll
  | TakeStep seconds
  | Surroundings "(address_class, address) dict" address address network

definition dht_step :: "dht_env \<Rightarrow> seconds \<Rightarrow> dht_event \<Rightarrow> unit dht_op" where
  "dht_step E now ev =
     (case ev of
        Received p m \<Rightarrow> on_dht_message E now p m
      | Introduced p \<Rightarrow> on_node_discovered E now (public_key_bin p) (peer_address p)
      | RequestTimer msg_type number \<Rightarrow> request_timer msg_type number
      | ContactStep c j \<Rightarrow> contact_step E now c j
      | CrawlStep c \<Rightarrow> crawl_step E now c
      | SearchStep i \<Rightarrow> search_step E now i
      | FindValues key off \<Rightarrow> find_values now key off ReturnFound
      | FindNodes key \<Rightarrow> find_nodes now key ReturnFound
      | StoreValue key data sign \<Rightarrow> store_value E now key data sign
      | StorePeer \<Rightarrow> store_peer E now
      | ConnectPeer m p \<Rightarrow> connect_peer E now m p
      | TokenMaintenance secret \<Rightarrow> token_maintenance now secret
      | NodeMaintenance \<Rightarrow> node_maintenance E now
      | ValueMaintenance \<Rightarrow> value_maintenance now
      | PingAll \<Rightarrow> ping_all E now
      | TakeStep ping_interval \<Rightarrow> take_step E now ping_interval
      | Surroundings addrs wan lan net \<Rightarrow>
          op_modify (\<lambda>s. s\<lparr>my_addresses := addrs, my_estimated_wan := wan, my_estimated_lan := lan, dht_network := net\<rparr>))"

text \<open>A new overlay has drawn its first secret, and its network ignores itself.\<close>

definition new_dht :: "dht_env \<Rightarrow> bytes \<Rightarrow> (address_class, address) dict \<Rightarrow> address \<Rightarrow> address \<Rightarrow> dht" where
  "new_dht E secret addrs wan lan =
     \<lparr>my_addresses = addrs, my_estimated_wan = wan, my_estimated_lan = lan,
      dht_network = new_network\<lparr>blacklist_mids := [de_my_mid E]\<rparr>, node_objects = [], routing_tables = [], storages = [],
      dht_requests = [], drawn = 0, tokens = [], token_secrets = [secret], dht_futures = [], crawls = [], searches = [],
      peer_store = [], store_for_me = [], dht_out = []\<rparr>"

text \<open>A peer object that sends a message has the hash of its key.\<close>

definition event_ok :: "dht_env \<Rightarrow> dht_event \<Rightarrow> bool" where
  "event_ok E ev \<longleftrightarrow> (case ev of Received p _ \<Rightarrow> mid p = de_key_hash E (public_key_bin p) | _ \<Rightarrow> True)"

inductive dht_reachable :: "dht_env \<Rightarrow> dht \<Rightarrow> bool" for E where
  start: "dht_reachable E (new_dht E secret addrs wan lan)"
| step: "dht_reachable E s \<Longrightarrow> event_ok E ev \<Longrightarrow> dht_reachable E (fst (dht_step E now ev s))"

end
