(* ===== verification/DHT_Objects.thy ===== *)
theory DHT_Objects
  imports Routing_Properties DHTDiscovery
begin

text \<open>
  What the operations of the DHT overlay do to node objects and routing tables: the invariant of the objects and the
  tables, the ways an operation grows them, and what crawls keep.
\<close>

section \<open>The nodes in a routing table\<close>

definition in_table :: "routing_table \<Rightarrow> dht_node \<Rightarrow> bool" where
  "in_table rt n \<longleftrightarrow> (\<exists>p b. trie_lookup (buckets rt) p = Some b \<and> n \<in> snd ` set (nodes b))"

lemma trie_values_ran:
  assumes "rt_wf rt"
  shows "set (trie_values (buckets rt)) = ran (trie_lookup (buckets rt))"
proof -
  have wf: "wf_tnode ''01'' (trie_root (buckets rt))" using assms by (auto simp: rt_wf_def wf_trie_def)
  show ?thesis
    using set_node_keys [OF wf] node_values_keys [OF wf]
    by (force simp: trie_values_def trie_lookup_def ran_def)
qed

lemma set_table_nodes: "rt_wf rt \<Longrightarrow> set (table_nodes rt) = {n. in_table rt n}"
  by (auto simp: table_nodes_def trie_values_ran in_table_def ran_def)

text \<open>A node in a table is found by its identifier, so nodes with the same identifier are the same.\<close>

lemma in_table_get:
  assumes "rt_wf rt" "in_table rt n"
  shows "\<exists>i. node_id n = return i \<and> length i = 20 \<and> rt_get rt i = return (Some n)"
proof -
  obtain p b i where b: "trie_lookup (buckets rt) p = Some b" "(i, n) \<in> set (nodes b)"
    using assms(2) by (auto simp: in_table_def)
  have bw: "bucket_wf p b" using assms(1) b(1) by (auto simp: rt_wf_def)
  then have g: "dict_get (nodes b) i = Some n" using b(2) by (simp add: bucket_wf_def in_set_dict_wf)
  from bucket_wfD [OF bw g] rt_get_spec [OF assms(1) _ b(1)] g show ?thesis by auto
qed

lemma in_table_unique:
  "rt_wf rt \<Longrightarrow> in_table rt n \<Longrightarrow> in_table rt m \<Longrightarrow> node_id n = node_id m \<Longrightarrow> n = m"
  using in_table_get [of rt n] in_table_get [of rt m] by auto

section \<open>A table after its nodes have changed\<close>

lemma trie_lookup_map_table:
  "trie_lookup (buckets (map_table f rt)) p = map_option (map_bucket f) (trie_lookup (buckets rt) p)"
  by (simp add: map_table_def trie_lookup_def lookup_map_tnode)

lemma in_table_map: "in_table (map_table f rt) n \<longleftrightarrow> (\<exists>m. in_table rt m \<and> n = f m)"
  unfolding in_table_def trie_lookup_map_table by (force simp: map_bucket_def)

lemma dict_get_map_values: "dict_get (map (\<lambda>(i, n). (i, f n)) d) i = map_option f (dict_get d i)"
  by (induction d) auto

lemma bucket_wf_map:
  assumes "bucket_wf p b" "\<And>i n. dict_get (nodes b) i = Some n \<Longrightarrow> node_id (f n) = node_id n"
  shows "bucket_wf p (map_bucket f b)"
  using assms
  by (auto simp: bucket_wf_def map_bucket_def dict_get_map_values dict_wf_def comp_def split_beta)

lemma rt_wf_map_table:
  assumes "rt_wf rt" "\<And>n. in_table rt n \<Longrightarrow> node_id (f n) = node_id n"
  shows "rt_wf (map_table f rt)"
proof -
  have "dom (trie_lookup (buckets (map_table f rt))) = dom (trie_lookup (buckets rt))"
    by (simp add: dom_def trie_lookup_map_table)
  moreover have "wf_trie (buckets (map_table f rt))"
    using assms(1) by (auto simp: rt_wf_def wf_trie_def map_table_def intro: wf_map_tnode)
  moreover have "alphabet (buckets (map_table f rt)) = ''01''" "my_node_id (map_table f rt) = my_node_id rt"
    using assms(1) by (simp_all add: rt_wf_def map_table_def)
  moreover have "bucket_wf p (map_bucket f b)" if "trie_lookup (buckets rt) p = Some b" for p b
  proof (rule bucket_wf_map)
    show bw: "bucket_wf p b" using assms(1) that by (auto simp: rt_wf_def)
    show "node_id (f n) = node_id n" if "dict_get (nodes b) i = Some n" for i n
      using assms(2) that bw \<open>trie_lookup (buckets rt) p = Some b\<close>
      by (force simp: in_table_def bucket_wf_def in_set_dict_wf [symmetric])
  qed
  ultimately show ?thesis
    using assms(1) by (auto simp: rt_wf_def trie_lookup_map_table)
qed

section \<open>What adding a node keeps of every node\<close>

text \<open>
  A property of nodes that survives a new bucket and the address of a node with the same identifier.
\<close>

definition stable :: "dht_node \<Rightarrow> (dht_node \<Rightarrow> bool) \<Rightarrow> bool" where
  "stable node Q \<longleftrightarrow> Q node \<and> (\<forall>m x. Q m \<longrightarrow> Q (m\<lparr>node_bucket := x\<rparr>)) \<and>
     (\<forall>m. Q m \<longrightarrow> node_id m = node_id node \<longrightarrow> Q (add_address (peer_address node) m))"

lemma set_dict_set_values: "v \<in> snd ` set (dict_set k x d) \<Longrightarrow> v = x \<or> v \<in> snd ` set d"
  by (induction d) (auto split: if_splits)

lemma stored_after_set: "(i, v) \<in> set (dict_set k x d) \<Longrightarrow> v = x \<or> (\<exists>j. (j, v) \<in> set d)"
  using set_dict_set_values [of v k x d] by force

lemma set_dict_del_values: "v \<in> snd ` set (dict_del k d) \<Longrightarrow> v \<in> snd ` set d"
  by (auto simp: dict_del_items)

lemma pop_first_subset: "pop_first P ns = (ns', r) \<Longrightarrow> snd ` set ns' \<subseteq> snd ` set ns"
  by (auto simp: pop_first_def dict_del_items split: option.splits sum.splits if_splits)

lemma make_room_subset: "make_room now node ns = (ns', r) \<Longrightarrow> snd ` set ns' \<subseteq> snd ` set ns"
  unfolding make_room_def by (cases "pop_first (\<lambda>n. status now n = NODE_STATUS_BAD) ns")
    (simp split: sum.splits, use pop_first_subset in blast, use pop_first_subset in blast)

lemma bucket_insert_stable:
  assumes "bucket_insert now i node b = (b', r)" "stable node Q" "\<And>n. n \<in> snd ` set (nodes b) \<Longrightarrow> Q n"
    "n \<in> snd ` set (nodes b')"
  shows "Q n"
proof (cases "length (nodes b) < max_size b")
  case True
  with assms(1) have "nodes b' = dict_set i (node\<lparr>node_bucket := Some (prefix_id b)\<rparr>) (nodes b)"
    by (auto simp: bucket_insert_def)
  with assms(4) have "n = node\<lparr>node_bucket := Some (prefix_id b)\<rparr> \<or> n \<in> snd ` set (nodes b)"
    using set_dict_set_values by metis
  with assms(2,3) show ?thesis by (auto simp: stable_def)
next
  case False
  with assms(1) have "b' = b" by (simp add: bucket_insert_def)
  with assms(3,4) show ?thesis by simp
qed

lemma bucket_add_stable:
  assumes bw: "bucket_wf p b" and add: "bucket_add now node b = (b', r)" and st: "stable node Q"
    and Q: "\<And>n. n \<in> snd ` set (nodes b) \<Longrightarrow> Q n" and n: "n \<in> snd ` set (nodes b')"
  shows "Q n"
proof -
  consider (same) "b' = b"
    | (known) i curr where "node_id node = return i" "dict_get (nodes b) i = Some curr"
        "nodes b' = dict_set i (add_address (peer_address node) curr) (nodes b)"
    | (room) i ns r' where "node_id node = return i" "make_room now node (nodes b) = (ns, r')"
        "b' = b\<lparr>nodes := ns\<rparr> \<or> bucket_insert now i node (b\<lparr>nodes := ns\<rparr>) = (b', r)"
    | (insert) i where "bucket_insert now i node b = (b', r)"
    using add by (fastforce simp: bucket_add_def split: sum.splits bool.splits option.splits if_splits prod.splits)
  then show ?thesis
  proof cases
    case same then show ?thesis using Q n by simp
  next
    case known
    have "Q curr" using known(2) Q map_of_SomeD [OF known(2)] by force
    moreover have "node_id curr = node_id node" using bucket_wfD(1) [OF bw known(2)] known(1) by simp
    ultimately have "Q (add_address (peer_address node) curr)" using st by (simp add: stable_def)
    then show ?thesis using known(3) n set_dict_set_values [of n i "add_address (peer_address node) curr" "nodes b"] Q by metis
  next
    case room
    have Qns: "Q m" if "m \<in> snd ` set ns" for m using that make_room_subset [OF room(2)] Q by auto
    from room(3) show ?thesis
    proof
      assume "b' = b\<lparr>nodes := ns\<rparr>"
      with n Qns show ?thesis by simp
    next
      assume "bucket_insert now i node (b\<lparr>nodes := ns\<rparr>) = (b', r)"
      from bucket_insert_stable [OF this st _ n] Qns show ?thesis by simp
    qed
  next
    case insert then show ?thesis using bucket_insert_stable [OF insert st Q n] by simp
  qed
qed

lemma in_table_put:
  assumes "rt_wf rt" "trie_lookup (buckets rt) p = Some b" "bucket_wf p b'" "in_table (put_bucket p b' rt) n"
  shows "n \<in> snd ` set (nodes b') \<or> in_table rt n"
  using assms(4) put_bucket_spec(2) [OF assms(1-3)] by (auto simp: in_table_def split: if_splits)

lemma half_values: "n \<in> snd ` set (half p ns) \<Longrightarrow> \<exists>m. m \<in> snd ` set ns \<and> n = m\<lparr>node_bucket := Some p\<rparr>"
  by (force simp: half_def rehome_def)

lemma split_lookup:
  "(f(k \<mapsto> x, k0 \<mapsto> y, k1 \<mapsto> z, k := None)) q = Some c \<Longrightarrow> c = x \<or> c = y \<or> c = z \<or> f q = Some c"
  by (auto split: if_splits)

lemma rt_add_round_stable:
  assumes wf: "rt_wf rt" and i: "node_id node = return i" "length i = 20" and st: "stable node Q"
    and Q: "\<And>n. in_table rt n \<Longrightarrow> Q n"
  shows "rt_add_round now node rt = Inl (rt1, r) \<Longrightarrow> in_table rt1 n \<Longrightarrow> Q n"
    and "rt_add_round now node rt = Inr rt2 \<Longrightarrow> in_table rt2 n \<Longrightarrow> Q n"
proof -
  obtain p b where kb: "get_bucket_item rt i = return (p, b)"
    and p: "trie_lookup (buckets rt) p = Some b" "prefix p (bin i)"
    using get_bucket_item_spec [OF wf i(2)] by blast
  have bw: "bucket_wf p b" using wf p(1) by (auto simp: rt_wf_def)
  have Qb: "Q m" if "m \<in> snd ` set (nodes b)" for m using Q p(1) that by (auto simp: in_table_def)
  have "(rt_add_round now node rt = Inl (rt1, r) \<longrightarrow> in_table rt1 n \<longrightarrow> Q n) \<and>
      (rt_add_round now node rt = Inr rt2 \<longrightarrow> in_table rt2 n \<longrightarrow> Q n)"
    using wf i kb
  proof (cases rule: rt_add_round_cases [where now = now])
    case (taken b')
    have "bucket_wf p b'" using bucket_add_spec [OF bw i taken(1)] by simp
    then show ?thesis
      using taken(3) in_table_put [OF wf p(1), of b' n] bucket_add_stable [OF bw taken(1) st Qb] Q by auto
  next
    case refused
    then show ?thesis using in_table_put [OF wf p(1) bw, of n] Q Qb by auto
  next
    case (split b0 b1 rt')
    note put = put_bucket_spec [OF wf p(1) bw]
    have lk: "trie_lookup (buckets (put_bucket p b rt)) p = Some b" using put(2) by simp
    note rp = replace_bucket_spec [OF put(1) lk split(1-3) split(6)]
    have lk': "trie_lookup (buckets rt') =
        (trie_lookup (buckets rt))(p \<mapsto> b, p @ ''0'' \<mapsto> b0, p @ ''1'' \<mapsto> b1, p := None)"
      using rp put(2) by simp
    have halves: "Q m" if "m \<in> snd ` set (nodes b0) \<or> m \<in> snd ` set (nodes b1)" for m
    proof -
      from that obtain k q where k: "k \<in> snd ` set (nodes b)" "m = k\<lparr>node_bucket := Some q\<rparr>"
        unfolding split(4,5) using half_values by blast
      from Qb [OF k(1)] st show ?thesis unfolding k(2) stable_def by blast
    qed
    have "Q n" if "in_table rt' n"
    proof -
      from that obtain q c where q: "trie_lookup (buckets rt') q = Some c" "n \<in> snd ` set (nodes c)"
        by (auto simp: in_table_def)
      consider "c = b" | "c = b0" | "c = b1" | "trie_lookup (buckets rt) q = Some c"
        using split_lookup [OF q(1) [unfolded lk']] by blast
      then show ?thesis
      proof cases
        case 4
        then have "in_table rt n" using q(2) unfolding in_table_def by blast
        then show ?thesis by (rule Q)
      qed (use halves Qb q(2) in blast)+
    qed
    then show ?thesis using split(7) by simp
  qed
  then show "rt_add_round now node rt = Inl (rt1, r) \<Longrightarrow> in_table rt1 n \<Longrightarrow> Q n"
    "rt_add_round now node rt = Inr rt2 \<Longrightarrow> in_table rt2 n \<Longrightarrow> Q n" by simp_all
qed

lemma rt_add_stable:
  assumes "rt_wf rt" "node_id node = return i" "length i = 20" "get_bucket_item rt i = return (p, b)"
    "stable node Q" "\<And>n. in_table rt n \<Longrightarrow> Q n" "rt_add now node rt = Some (rt', r)" "in_table rt' n"
  shows "Q n"
  using assms
proof (induction "160 - length p" arbitrary: rt p b rule: less_induct)
  case less
  note kept = rt_add_round_stable [OF less.prems(1-3,5,6), where now = now]
  from rt_add_round_spec [OF less.prems(1-4), of now]
  consider (finish) rt1 res where "rt_add_round now node rt = Inl (rt1, return res)"
    | (again) rt1 c b' where "rt_add_round now node rt = Inr rt1" "rt_wf rt1" "length p < 160"
        "get_bucket_item rt1 i = return (p @ [c], b')" by blast
  then show ?case
  proof cases
    case finish
    with less.prems(7) have "rt' = rt1" by (subst (asm) rt_add.simps) simp
    with kept(1) [OF _ finish] less.prems(8) show ?thesis by simp
  next
    case again
    have "rt_add now node rt1 = Some (rt', r)"
      using less.prems(7) again(1) by (subst (asm) rt_add.simps) simp
    moreover have "160 - length (p @ [c]) < 160 - length p" using again(3) by simp
    ultimately show ?thesis
      using less.hyps [OF _ again(2) less.prems(2,3) again(4) less.prems(5) kept(2) [OF _ again(1)]] less.prems(8)
      by blast
  qed
qed

section \<open>Node objects and routing tables\<close>

text \<open>
  Key hashes have twenty bytes. Every object knows its position; every routing table is well formed and holds the objects
  as they are.
\<close>

definition sha1_hashes :: "dht_env \<Rightarrow> bool" where
  "sha1_hashes E \<longleftrightarrow> (\<forall>k. length (de_key_hash E k) = 20) \<and> length (de_my_mid E) = 20"

definition objects_ok :: "dht \<Rightarrow> bool" where
  "objects_ok s \<longleftrightarrow>
     (\<forall>k < length (node_objects s). node_object (node_objects s ! k) = k \<and> length (mid (node_objects s ! k)) = 20)"

definition table_ok :: "dht \<Rightarrow> routing_table \<Rightarrow> bool" where
  "table_ok s rt \<longleftrightarrow> rt_wf rt \<and>
     (\<forall>n. in_table rt n \<longrightarrow> node_object n < length (node_objects s) \<and> node_objects s ! node_object n = n)"

definition dht_ok :: "dht \<Rightarrow> bool" where
  "dht_ok s \<longleftrightarrow> objects_ok s \<and> (\<forall>(c, rt) \<in> set (routing_tables s). table_ok s rt)"

text \<open>Objects are added, and none gets another key.\<close>

definition same_node_keys :: "dht_node \<Rightarrow> dht_node \<Rightarrow> bool" where
  "same_node_keys n m \<longleftrightarrow> public_key_bin n = public_key_bin m \<and> mid n = mid m \<and> node_object n = node_object m"

definition overlay_grows :: "dht \<Rightarrow> dht \<Rightarrow> bool" where
  "overlay_grows s s' \<longleftrightarrow> length (node_objects s) \<le> length (node_objects s') \<and>
     (\<forall>k < length (node_objects s). same_node_keys (node_objects s' ! k) (node_objects s ! k))"

lemma overlay_grows_refl [simp]: "overlay_grows s s"
  by (simp add: overlay_grows_def same_node_keys_def)

lemma overlay_grows_trans: "overlay_grows s s' \<Longrightarrow> overlay_grows s' s'' \<Longrightarrow> overlay_grows s s''"
  by (fastforce simp: overlay_grows_def same_node_keys_def)

lemma overlay_grows_cong: "node_objects s' = node_objects s \<Longrightarrow> overlay_grows s s'"
  by (simp add: overlay_grows_def same_node_keys_def)

lemma dht_ok_cong:
  "node_objects s' = node_objects s \<Longrightarrow> routing_tables s' = routing_tables s \<Longrightarrow> dht_ok s' = dht_ok s"
  by (simp add: dht_ok_def objects_ok_def table_ok_def)

lemma dht_ok_table: "dht_ok s \<Longrightarrow> dict_get (routing_tables s) c = Some rt \<Longrightarrow> table_ok s rt"
  by (auto simp: dht_ok_def dest: map_of_SomeD)

subsection \<open>Writing objects\<close>

lemma length_write_nodes [simp]: "length (write_nodes ns h) = length h"
  unfolding write_nodes_def by (induction ns arbitrary: h) auto

lemma write_nodes_other: "k \<notin> node_object ` set ns \<Longrightarrow> write_nodes ns h ! k = h ! k"
  unfolding write_nodes_def by (induction ns arbitrary: h) auto

lemma write_nodes_Cons: "write_nodes (n # ns) h = write_nodes ns (h[node_object n := n])"
  by (simp add: write_nodes_def)

lemma write_nodes_nth:
  assumes "n \<in> set ns" "node_object n < length h"
    "\<And>m. m \<in> set ns \<Longrightarrow> node_object m = node_object n \<Longrightarrow> m = n"
  shows "write_nodes ns h ! node_object n = n"
  using assms
proof (induction ns arbitrary: h)
  case (Cons m ns)
  show ?case
  proof (cases "n \<in> set ns")
    case True
    have "write_nodes ns (h[node_object m := m]) ! node_object n = n"
      by (rule Cons.IH [OF True]) (use Cons.prems in auto)
    then show ?thesis by (simp add: write_nodes_Cons)
  next
    case False
    with Cons.prems(1) have "m = n" by simp
    moreover have "node_object n \<notin> node_object ` set ns" using False Cons.prems(3) by fastforce
    ultimately show ?thesis using Cons.prems(2) write_nodes_other by (simp add: write_nodes_Cons)
  qed
qed simp

text \<open>A copy of an object: with its identifier and its keys.\<close>

definition copy_of_object :: "dht \<Rightarrow> dht_node \<Rightarrow> bool" where
  "copy_of_object s n \<longleftrightarrow> node_object n < length (node_objects s) \<and>
     node_id n = node_id (node_objects s ! node_object n) \<and> same_node_keys n (node_objects s ! node_object n)"

lemma copy_stable:
  assumes "copy_of_object s node" "node_id node = return i"
  shows "stable node (copy_of_object s)"
  unfolding stable_def
proof (intro conjI allI impI)
  fix m assume m: "copy_of_object s m" "node_id m = node_id node"
  then show "copy_of_object s (add_address (peer_address node) m)"
    using node_id_add_address [of m i node] assms
    by (auto simp: copy_of_object_def same_node_keys_def add_address_def update_preferred_address_def)
next
  show "copy_of_object s node" by (rule assms(1))
next
  fix m x assume "copy_of_object s m"
  then show "copy_of_object s (m\<lparr>node_bucket := x\<rparr>)" by (simp add: copy_of_object_def same_node_keys_def)
qed

lemma table_ok_copies: "table_ok s rt \<Longrightarrow> in_table rt n \<Longrightarrow> copy_of_object s n"
  by (simp add: table_ok_def copy_of_object_def same_node_keys_def)

lemma object_copy: "objects_ok s \<Longrightarrow> k < length (node_objects s) \<Longrightarrow> copy_of_object s (node_objects s ! k)"
  by (simp add: objects_ok_def copy_of_object_def same_node_keys_def)

text \<open>The tables after some objects have changed and kept their identifiers.\<close>

lemma table_ok_refreshed:
  assumes rt: "rt_wf rt" and s': "node_objects s' = h"
    and h: "\<And>n. in_table rt n \<Longrightarrow> node_object n < length h \<and> node_object (h ! node_object n) = node_object n \<and>
      node_id (h ! node_object n) = node_id n"
  shows "table_ok s' (map_table (\<lambda>n. h ! node_object n) rt)"
  unfolding table_ok_def
proof (intro conjI allI impI)
  show "rt_wf (map_table (\<lambda>n. h ! node_object n) rt)"
    using h by (intro rt_wf_map_table [OF rt]) simp
next
  fix n assume "in_table (map_table (\<lambda>n. h ! node_object n) rt) n"
  then obtain m where m: "in_table rt m" "n = h ! node_object m" by (auto simp: in_table_map)
  from h [OF m(1)] m(2) s' show "node_object n < length (node_objects s')" "node_objects s' ! node_object n = n"
    by simp_all
qed

lemma dht_ok_same_objects:
  assumes "objects_ok s"
    and "\<And>c rt. (c, rt) \<in> set (routing_tables s) \<Longrightarrow> rt_wf rt"
    and "\<And>c rt n. (c, rt) \<in> set (routing_tables s) \<Longrightarrow> in_table rt n \<Longrightarrow> node_object n < length (node_objects s) \<and>
      node_id (node_objects s ! node_object n) = node_id n"
  shows "dht_ok (same_objects s)"
proof -
  have "table_ok (same_objects s) (map_table (\<lambda>n. node_objects s ! node_object n) rt)"
    if "(c, rt) \<in> set (routing_tables s)" for c rt
  proof (rule table_ok_refreshed)
    show "rt_wf rt" using assms(2) that .
    show "node_objects (same_objects s) = node_objects s" by (simp add: same_objects_def)
    show "in_table rt n \<Longrightarrow> node_object n < length (node_objects s) \<and>
      node_object (node_objects s ! node_object n) = node_object n \<and> node_id (node_objects s ! node_object n) = node_id n" for n
      using assms(3) [OF that] assms(1) by (simp add: objects_ok_def)
  qed
  moreover have "objects_ok (same_objects s)" using assms(1) by (simp add: objects_ok_def same_objects_def)
  ultimately show ?thesis by (auto simp: dht_ok_def same_objects_def)
qed

lemma set_dict_set: "(c', x') \<in> set (dict_set c x d) \<Longrightarrow> (c', x') = (c, x) \<or> (c', x') \<in> set d"
  by (induction d) (auto split: if_splits)

lemma set_table_ok:
  assumes ok: "dht_ok s" and rt: "rt_wf rt" and copies: "\<And>n. in_table rt n \<Longrightarrow> copy_of_object s n"
  shows "dht_ok (set_table c rt s) \<and> overlay_grows s (set_table c rt s)"
proof -
  let ?h = "write_nodes (table_nodes rt) (node_objects s)"
  let ?s = "s\<lparr>node_objects := ?h, routing_tables := dict_set c rt (routing_tables s)\<rparr>"
  have old: "objects_ok s" using ok by (simp add: dht_ok_def)
  have written: "?h ! node_object n = n" if "in_table rt n" for n
  proof (rule write_nodes_nth)
    show "n \<in> set (table_nodes rt)" using that rt by (simp add: set_table_nodes)
    show "node_object n < length (node_objects s)" using copies [OF that] by (simp add: copy_of_object_def)
    fix m assume "m \<in> set (table_nodes rt)" "node_object m = node_object n"
    then show "m = n"
      using in_table_unique [OF rt, of m n] that copies [of m] copies [of n] rt
      by (auto simp: set_table_nodes copy_of_object_def)
  qed
  have h: "node_id (?h ! k) = node_id (node_objects s ! k) \<and> same_node_keys (?h ! k) (node_objects s ! k)"
    if "k < length (node_objects s)" for k
  proof (cases "\<exists>n. in_table rt n \<and> node_object n = k")
    case True
    then show ?thesis using written copies by (auto simp: copy_of_object_def)
  next
    case False
    then have "k \<notin> node_object ` set (table_nodes rt)" using rt by (auto simp: set_table_nodes)
    then show ?thesis by (simp add: write_nodes_other same_node_keys_def)
  qed
  have "dht_ok (same_objects ?s)"
  proof (rule dht_ok_same_objects)
    show "objects_ok ?s" using old h by (simp add: objects_ok_def same_node_keys_def)
    fix c' rt' assume "(c', rt') \<in> set (routing_tables ?s)"
    then consider "rt' = rt" | "(c', rt') \<in> set (routing_tables s)" by (auto dest: set_dict_set)
    then show "rt_wf rt'" using rt ok by cases (auto simp: dht_ok_def table_ok_def)
  next
    fix c' rt' n assume "(c', rt') \<in> set (routing_tables ?s)" and n: "in_table rt' n"
    then consider "rt' = rt" | "(c', rt') \<in> set (routing_tables s)" by (auto dest: set_dict_set)
    then have "copy_of_object s n"
      using copies n ok by cases (auto simp: dht_ok_def intro: table_ok_copies)
    then show "node_object n < length (node_objects ?s) \<and> node_id (node_objects ?s ! node_object n) = node_id n"
      using h [of "node_object n"] by (auto simp: copy_of_object_def)
  qed
  moreover have "overlay_grows s (set_table c rt s)" using h by (simp add: overlay_grows_def set_table_def same_objects_def)
  ultimately show ?thesis by (simp add: set_table_def)
qed

subsection \<open>The operations on objects and tables\<close>

lemma node_id_length: "objects_ok s \<Longrightarrow> k < length (node_objects s) \<Longrightarrow> node_id (node_objects s ! k) = return i \<Longrightarrow> length i = 20"
  using length_calc_node_id by (auto simp: node_id_def objects_ok_def)

lemma rt_add_raises: "node_id node = raise e \<Longrightarrow> rt_add now node rt = Some (rt, raise e)"
  by (subst rt_add.simps) (simp add: rt_add_round_def)

lemma get_bucket_item_wf: "rt_wf rt \<Longrightarrow> length i = 20 \<Longrightarrow> \<exists>p b. get_bucket_item rt i = return (p, b)"
  using get_bucket_item_spec by blast

lemma table_add_some:
  assumes ok: "dht_ok s" and k: "k < length (node_objects s)" and rt: "dict_get (routing_tables s) c = Some rt"
  obtains rt' r where "rt_add now (node_objects s ! k) rt = Some (rt', r)" "rt_wf rt'"
    "\<And>n. in_table rt' n \<Longrightarrow> copy_of_object s n" "\<And>n. r = return (Some n) \<Longrightarrow> in_table rt' n"
proof -
  have objs: "objects_ok s" and tab: "table_ok s rt" using ok rt dht_ok_table by (auto simp: dht_ok_def)
  then have wf: "rt_wf rt" by (simp add: table_ok_def)
  show thesis
  proof (cases "node_id (node_objects s ! k)")
    case (Inl e)
    show thesis
    proof (rule that [OF rt_add_raises [OF Inl] wf])
      show "in_table rt n \<Longrightarrow> copy_of_object s n" for n by (rule table_ok_copies [OF tab])
      show "raise e = return (Some n) \<Longrightarrow> in_table rt n" for n by simp
    qed
  next
    case (Inr i)
    have len: "length i = 20" by (rule node_id_length [OF objs k Inr])
    obtain p b where kb: "get_bucket_item rt i = return (p, b)" using get_bucket_item_wf [OF wf len] by blast
    obtain rt' res where add: "rt_add now (node_objects s ! k) rt = Some (rt', return res)" "rt_wf rt'"
      "rt_get rt' i = return res"
      using rt_add_total [OF wf Inr len kb, of now] by blast
    show thesis
    proof (rule that [OF add(1,2)])
      fix n assume "in_table rt' n"
      from rt_add_stable [OF wf Inr len kb copy_stable [OF object_copy [OF objs k] Inr] table_ok_copies [OF tab] add(1) this]
      show "copy_of_object s n" .
    next
      fix n assume "return res = return (Some n)"
      then have "rt_get rt' i = return (Some n)" using add(3) by simp
      then obtain q d where "trie_lookup (buckets rt') q = Some d" "dict_get (nodes d) i = Some n"
        using get_bucket_item_spec [OF add(2) len] rt_get_spec [OF add(2) len] by force
      then show "in_table rt' n" by (force simp: in_table_def dest: map_of_SomeD)
    qed
  qed
qed

text \<open>A step that changes only objects and tables, keeps them in order and adds objects.\<close>

definition only_objects :: "dht \<Rightarrow> dht \<Rightarrow> bool" where
  "only_objects s s' \<longleftrightarrow> s' = s\<lparr>node_objects := node_objects s', routing_tables := routing_tables s'\<rparr>"

definition object_step :: "dht \<Rightarrow> dht \<Rightarrow> bool" where
  "object_step s s' \<longleftrightarrow> dht_ok s' \<and> overlay_grows s s' \<and> only_objects s s'"

lemma object_step_refl: "dht_ok s \<Longrightarrow> object_step s s"
  by (simp add: object_step_def only_objects_def)

lemma only_set_table [simp]: "only_objects s (set_table c rt s)"
  by (simp add: only_objects_def set_table_def same_objects_def)

definition harmless :: "(dht_node \<Rightarrow> dht_node) \<Rightarrow> bool" where
  "harmless f \<longleftrightarrow> (\<forall>n. node_id (f n) = node_id n \<and> same_node_keys (f n) n)"

lemma harmless_metrics [simp]:
  "harmless (append_query now)"
  "harmless (\<lambda>n. n\<lparr>failed := g n\<rparr>)"
  "harmless (\<lambda>n. n\<lparr>last_ping_sent := t\<rparr>)"
  "harmless (\<lambda>n. n\<lparr>last_response := t\<rparr>)"
  "harmless (\<lambda>n. n\<lparr>last_response := t, failed := c, rtt := r\<rparr>)"
  by (simp_all add: harmless_def node_id_def peer_address_def same_node_keys_def append_query_def Let_def split: option.split)

lemma same_node_keys_refl [simp]: "same_node_keys n n"
  by (simp add: same_node_keys_def)

lemma update_node_step:
  assumes ok: "dht_ok s" and f: "harmless f"
  shows "object_step s (fst (update_node k f s))"
proof -
  let ?s = "s\<lparr>node_objects := (node_objects s)[k := f (node_objects s ! k)]\<rparr>"
  have h: "same_node_keys (node_objects ?s ! j) (node_objects s ! j) \<and> node_id (node_objects ?s ! j) = node_id (node_objects s ! j)"
    if "j < length (node_objects s)" for j
    using that f by (cases "j = k") (simp_all add: harmless_def)
  have "dht_ok (same_objects ?s)"
  proof (rule dht_ok_same_objects)
    show "objects_ok ?s" using ok h by (fastforce simp: dht_ok_def objects_ok_def same_node_keys_def)
  next
    show "(c, rt) \<in> set (routing_tables ?s) \<Longrightarrow> rt_wf rt" for c rt
      using ok by (auto simp: dht_ok_def table_ok_def)
  next
    fix c rt n assume "(c, rt) \<in> set (routing_tables ?s)" "in_table rt n"
    then have "node_object n < length (node_objects s)" "node_objects s ! node_object n = n"
      using ok by (auto simp: dht_ok_def table_ok_def)
    then show "node_object n < length (node_objects ?s) \<and> node_id (node_objects ?s ! node_object n) = node_id n"
      using h [of "node_object n"] by auto
  qed
  then show ?thesis
    using h by (simp add: object_step_def overlay_grows_def only_objects_def update_node_def op_modify_def same_objects_def)
qed

lemma table_ok_more: "table_ok s rt \<Longrightarrow> node_objects s' = node_objects s @ ns \<Longrightarrow> table_ok s' rt"
  by (auto simp: table_ok_def nth_append)

lemma key_hash_length: "sha1_hashes E \<Longrightarrow> length (de_key_hash E k) = 20"
  by (simp add: sha1_hashes_def)

text \<open>The key of a new node, and the object it becomes.\<close>

definition arg_key :: "dht_env \<Rightarrow> bytes key_arg \<Rightarrow> bytes result" where
  "arg_key E key = (case key of KeyObject k \<Rightarrow> return k | KeyBin b \<Rightarrow> if is_private_key_bin b then raise ValueError else de_parse_key E b)"

lemma new_node_cases:
  obtains (raised) e where "arg_key E key = raise e" "new_node E now key a s = (s, raise e)"
  | (made) b n where "arg_key E key = return b" "mid n = de_key_hash E b" "public_key_bin n = b"
      "node_object n = length (node_objects s)" "peer_address n = a"
      "new_node E now key a s = (s\<lparr>node_objects := node_objects s @ [n]\<rparr>, return (length (node_objects s)))"
proof (cases "new_peer (de_parse_key E) (\<lambda>k. k) (de_key_hash E) now key (Some a) True")
  case (Inl e)
  then have "arg_key E key = raise e" by (auto simp: new_peer_def arg_key_def bind_result_eq_Inl)
  then show thesis
    by (rule raised) (simp add: new_node_def op_bind_def op_of_def Inl)
next
  case (Inr p)
  then obtain b where b: "arg_key E key = return b"
    "mid p = de_key_hash E b" "public_key_bin p = b" "cached_address p = Some a"
    "addresses p = dd_setitem (addr_class a) a new_dirty_dict"
    by (auto simp: new_peer_def arg_key_def bind_result_eq_Inr)
  let ?n = "(new_dht_node p)\<lparr>node_object := length (node_objects s)\<rparr>"
  have "peer_address ?n = a"
    by (cases "addr_class a") (simp_all add: peer_address_def new_dht_node_def peer.defs b dd_setitem_def new_dirty_dict_def INTERFACE_ORDER_def)
  then show thesis
    using b by (intro made [of b ?n]) (simp_all add: new_node_def op_bind_def op_of_def op_state_def op_then_def
        op_modify_def op_return_def Inr new_dht_node_def peer.defs)
qed

lemma new_node_step:
  assumes "dht_ok s" "sha1_hashes E"
  shows "object_step s (fst (new_node E now key a s))"
proof (cases rule: new_node_cases [of E key now a s])
  case raised then show ?thesis using assms by (simp add: object_step_refl)
next
  case (made b n)
  have "objects_ok (s\<lparr>node_objects := node_objects s @ [n]\<rparr>)"
    using assms made(2,4) by (auto simp: dht_ok_def objects_ok_def nth_append key_hash_length less_Suc_eq)
  moreover have "table_ok (s\<lparr>node_objects := node_objects s @ [n]\<rparr>) rt" if "(c, rt) \<in> set (routing_tables s)" for c rt
    by (rule table_ok_more) (use assms that in \<open>auto simp: dht_ok_def\<close>)
  ultimately have "dht_ok (s\<lparr>node_objects := node_objects s @ [n]\<rparr>)" by (auto simp: dht_ok_def)
  then show ?thesis
    using made(6) by (simp add: object_step_def overlay_grows_def nth_append only_objects_def)
qed

lemma table_ok_new: "length i = 20 \<Longrightarrow> table_ok s (new_routing_table i)"
proof -
  assume "length i = 20"
  obtain t r where t: "trie_setitem (new_trie ''01'') [] (new_bucket [] MAX_BUCKET_SIZE) = (t, r)"
    by fastforce
  have "alphabet (new_trie ''01'') = ''01''" by (simp add: new_trie_def)
  then have "trie_lookup t = [[] \<mapsto> new_bucket [] MAX_BUCKET_SIZE]"
    using trie_setitem_law [OF wf_trie_new _ t] by simp
  then have lk: "trie_lookup (buckets (new_routing_table i)) = [[] \<mapsto> new_bucket [] MAX_BUCKET_SIZE]"
    by (simp add: new_routing_table_def t)
  have "nodes (new_bucket [] MAX_BUCKET_SIZE) = []" by (simp add: new_bucket_def)
  then have "\<not> in_table (new_routing_table i) n" for n
    by (auto simp: in_table_def lk split: if_splits)
  then show ?thesis using rt_wf_new [OF \<open>length i = 20\<close>] by (simp add: table_ok_def)
qed

lemma my_node_id_length: "sha1_hashes E \<Longrightarrow> get_my_node_id E c s = return i \<Longrightarrow> length i = 20"
  using length_calc_node_id by (auto simp: get_my_node_id_def sha1_hashes_def)

section \<open>The closest nodes are nodes of the table\<close>

lemma sort_by_result_mset:
  assumes "sort_by_result f xs = return ys"
  shows "mset ys = mset xs"
proof -
  obtain ks where ks: "map_result f xs = return ks" and ys: "ys = map snd (sort_key fst (zip ks xs))"
    using assms by (auto simp: sort_by_result_def bind_result_eq_Inr)
  have "length ks = length xs" using length_map_result [OF ks] .
  then have "map snd (zip ks xs) = xs" by simp
  then have "image_mset snd (mset (zip ks xs)) = mset xs" by (metis mset_map)
  then show ?thesis by (simp add: ys)
qed

lemma filter_result_subset: "filter_result f xs = return ys \<Longrightarrow> set ys \<subseteq> set xs"
  by (induction xs arbitrary: ys) (auto simp: bind_result_eq_Inr split: if_splits)

definition from_table :: "bucket trie \<Rightarrow> dht_node list \<Rightarrow> bool" where
  "from_table t ns \<longleftrightarrow> distinct (map public_key_bin ns) \<and>
     (\<forall>n \<in> set ns. \<exists>p b. trie_lookup t p = Some b \<and> n \<in> snd ` set (nodes b))"

lemma from_table_add:
  assumes "from_table t ns" "\<And>n. n \<in> set new \<Longrightarrow> \<exists>p b. trie_lookup t p = Some b \<and> n \<in> snd ` set (nodes b)"
  shows "from_table t (foldl add_to_set ns new)"
  using assms
proof (induction new arbitrary: ns)
  case (Cons n new)
  have "from_table t (add_to_set ns n)"
    using Cons.prems add_to_set_keys [of ns n] by (auto simp: from_table_def add_to_set_def)
  then show ?case using Cons by simp
qed simp

lemma collect_buckets_from:
  "collect_buckets now ex t p ss ns = return ns' \<Longrightarrow> from_table t ns \<Longrightarrow> from_table t ns'"
proof (induction ss arbitrary: ns)
  case (Cons s ss)
  obtain b new where b: "trie_getitem t (p @ s) = return b"
    and new: "filter_result (eligible now ex) (dict_values (nodes b)) = return new"
    and rest: "collect_buckets now ex t p ss (foldl add_to_set ns new) = return ns'"
    using Cons.prems(1) by (auto simp: bind_result_eq_Inr)
  have "trie_lookup t (p @ s) = Some b" using b by (simp add: trie_getitem_lookup split: option.splits)
  moreover have "n \<in> snd ` set (nodes b)" if "n \<in> set new" for n
    using filter_result_subset [OF new] that by auto
  ultimately have "from_table t (foldl add_to_set ns new)"
    using from_table_add [OF Cons.prems(2), of new] by blast
  with Cons.IH [OF rest] show ?case .
qed simp

lemma closest_loop_from:
  "closest_loop now ex t p m i ns = return ns' \<Longrightarrow> from_table t ns \<Longrightarrow> from_table t ns'"
proof (induction i arbitrary: ns)
  case 0
  then show ?case
    by (subst (asm) closest_loop.simps) (auto simp: bind_result_eq_Inr split: if_splits dest: collect_buckets_from)
next
  case (Suc i)
  obtain ns1 where ns1: "collect_buckets now ex t (take (Suc i) p) (trie_suffixes (\<lambda>_. True) t (take (Suc i) p)) ns = return ns1"
    and r: "(if length ns1 > m then return ns1 else closest_loop now ex t p m i ns1) = return ns'"
    using Suc.prems(1) closest_loop.simps [of now ex t p m "Suc i" ns]
    by (auto simp: bind_result_eq_Inr cong: if_cong)
  have "from_table t ns1" by (rule collect_buckets_from [OF ns1 Suc.prems(2)])
  then show ?case using r Suc.IH [of ns1] by (auto split: if_splits)
qed

lemma distinct_map_mset: "mset ys = mset xs \<Longrightarrow> distinct (map f xs) \<Longrightarrow> distinct (map f ys)"
  by (metis mset_eq_imp_distinct_iff mset_map)

lemma closest_nodes_from:
  assumes "closest_nodes now rt key m ex = return ns"
  shows "distinct (map public_key_bin ns)" "length ns \<le> m" "\<And>n. n \<in> set ns \<Longrightarrow> in_table rt n"
proof -
  obtain p xs ys where xs: "closest_loop now ex (buckets rt) p m (length p) [] = return xs"
    and ys: "sort_by_result (distance_key now key) xs = return ys" and ns: "ns = take m ys"
    using assms by (auto simp: closest_nodes_def bind_result_eq_Inr Let_def)
  have from_xs: "from_table (buckets rt) xs" using closest_loop_from [OF xs] by (simp add: from_table_def)
  note m = sort_by_result_mset [OF ys]
  have "distinct (map public_key_bin ys)" by (rule distinct_map_mset [OF m]) (use from_xs in \<open>simp add: from_table_def\<close>)
  then show "distinct (map public_key_bin ns)" unfolding ns by (simp add: take_map [symmetric])
  show "length ns \<le> m" using ns by simp
  show "in_table rt n" if "n \<in> set ns" for n
    using that from_xs mset_eq_setD [OF m] in_set_takeD [of n m ys] ns by (auto simp: from_table_def in_table_def)
qed

section \<open>The operations on tables\<close>

lemma object_stepI:
  "dht_ok s' \<Longrightarrow> overlay_grows s s' \<Longrightarrow> only_objects s s' \<Longrightarrow> object_step s s'"
  by (simp add: object_step_def)

lemma dht_ok_set_routing:
  assumes "dht_ok s" "table_ok s rt"
  shows "dht_ok (s\<lparr>routing_tables := dict_set c rt (routing_tables s)\<rparr>)"
  using assms by (fastforce simp: dht_ok_def objects_ok_def table_ok_def dest: set_dict_set)

lemma get_routing_table_step:
  assumes ok: "dht_ok s" and E: "sha1_hashes E"
  shows "object_step s (fst (get_routing_table E c s))"
proof (cases "dict_get (routing_tables s) c")
  case (Some rt)
  then show ?thesis by (simp add: get_routing_table_def op_state_def op_return_def object_step_refl ok)
next
  case None
  show ?thesis
  proof (cases "get_my_node_id E c s")
    case (Inl e)
    with None show ?thesis
      by (simp add: get_routing_table_def op_state_def op_bind_def op_of_def object_step_refl ok)
  next
    case (Inr i)
    have "table_ok s (new_routing_table i)" by (rule table_ok_new [OF my_node_id_length [OF E Inr]])
    with dht_ok_set_routing [OF ok this] None Inr show ?thesis
      by (simp add: get_routing_table_def op_state_def op_bind_def op_of_def op_then_def op_modify_def op_return_def
          object_step_def overlay_grows_def only_objects_def)
  qed
qed

lemma table_add_step:
  assumes ok: "dht_ok s" and k: "k < length (node_objects s)"
  shows "object_step s (fst (table_add now c k s))"
proof (cases "dict_get (routing_tables s) c")
  case None
  then show ?thesis by (simp add: table_add_def op_state_def op_raise_def object_step_refl ok)
next
  case (Some rt)
  obtain rt' r where add: "rt_add now (node_objects s ! k) rt = Some (rt', r)" "rt_wf rt'"
    "\<And>n. in_table rt' n \<Longrightarrow> copy_of_object s n"
    using table_add_some [OF ok k Some, of now] by metis
  have "fst (table_add now c k s) = set_table c rt' s"
    by (cases r) (simp_all add: table_add_def op_state_def Some add(1) op_then_def op_bind_def op_modify_def op_of_def op_return_def)
  with set_table_ok [OF ok add(2,3)] show ?thesis by (simp add: object_step_def)
qed

text \<open>The object that \<^verbatim>\<open>add\<close> returns is one of the objects.\<close>

lemma table_add_value:
  assumes ok: "dht_ok s" and k: "k < length (node_objects s)" and r: "snd (table_add now c k s) = return (Some j)"
  shows "j < length (node_objects s)"
proof -
  obtain rt where Some: "dict_get (routing_tables s) c = Some rt"
    using r by (auto simp: table_add_def op_state_def op_raise_def split: option.splits)
  obtain rt' r' where add: "rt_add now (node_objects s ! k) rt = Some (rt', r')"
    "\<And>n. in_table rt' n \<Longrightarrow> copy_of_object s n" "\<And>n. r' = return (Some n) \<Longrightarrow> in_table rt' n"
    using table_add_some [OF ok k Some, of now] by metis
  obtain n where "r' = return (Some n)" "j = node_object n"
    using r by (auto simp: table_add_def op_state_def Some add(1) op_then_def op_bind_def op_modify_def op_of_def op_return_def
        split: sum.splits)
  with add show ?thesis by (simp add: copy_of_object_def)
qed

lemma in_table_remove_bad:
  assumes "in_table (fst (remove_bad_nodes now rt)) n"
  shows "in_table rt n"
  using assms by (fastforce simp: in_table_def lookup_remove_bad_nodes remove_bad_def)

lemma remove_bad_step:
  assumes ok: "dht_ok s" and rt: "dict_get (routing_tables s) c = Some rt"
  shows "object_step s (set_table c (fst (remove_bad_nodes now rt)) s)"
proof -
  have tab: "table_ok s rt" by (rule dht_ok_table [OF ok rt])
  then have "rt_wf (fst (remove_bad_nodes now rt))" by (simp add: table_ok_def rt_wf_remove_bad_nodes)
  from set_table_ok [OF ok this, of c] table_ok_copies [OF tab] in_table_remove_bad
  show ?thesis by (simp add: object_step_def)
qed

lemma touch_bucket_step:
  assumes ok: "dht_ok s"
  shows "object_step s (fst (touch_bucket t cp s))"
proof -
  obtain c p where cp: "cp = (c, p)" by fastforce
  show ?thesis
  proof (cases "dict_get (routing_tables s) c")
    case None
    then show ?thesis by (simp add: cp touch_bucket_def op_state_def op_return_def object_step_refl ok)
  next
    case (Some rt)
    show ?thesis
    proof (cases "trie_lookup (buckets rt) p")
      case None
      with Some show ?thesis
        by (simp add: cp touch_bucket_def op_state_def op_return_def object_step_refl ok trie_getitem_lookup)
    next
      case b: (Some b)
      have tab: "table_ok s rt" by (rule dht_ok_table [OF ok Some])
      then have wf: "rt_wf rt" by (simp add: table_ok_def)
      then have "bucket_wf p b" using b by (auto simp: rt_wf_def)
      then have bw: "bucket_wf p (b\<lparr>last_changed := t\<rparr>)" by (simp add: bucket_wf_def)
      have "in_table rt n" if "in_table (put_bucket p (b\<lparr>last_changed := t\<rparr>) rt) n" for n
        using in_table_put [OF wf b bw that] b by (auto simp: in_table_def)
      then have "table_ok s (put_bucket p (b\<lparr>last_changed := t\<rparr>) rt)"
        using put_bucket_spec(1) [OF wf b bw] tab by (simp add: table_ok_def)
      from dht_ok_set_routing [OF ok this, of c] show ?thesis
        by (simp add: cp touch_bucket_def op_state_def op_modify_def Some b trie_getitem_lookup object_step_def overlay_grows_def
            only_objects_def)
    qed
  qed
qed

section \<open>Crawls and futures\<close>

definition node_key :: "dht \<Rightarrow> nat \<Rightarrow> bytes" where
  "node_key s k = public_key_bin (node_objects s ! k)"

definition crawl_ok :: "dht \<Rightarrow> crawl \<Rightarrow> bool" where
  "crawl_ok s cr \<longleftrightarrow> length (nodes_tried cr) \<le> MAX_CRAWL_REQUESTS \<and> length (crawl_tasks cr) \<le> MAX_CRAWL_TASKS \<and>
     distinct (map (node_key s) (nodes_tried cr @ map fst (nodes_todo cr))) \<and>
     set (nodes_tried cr @ map fst (nodes_todo cr) @ map contact_of (crawl_tasks cr)) \<subseteq> {..<length (node_objects s)}"

definition answer_ok :: "nat \<Rightarrow> find_answer \<Rightarrow> bool" where
  "answer_ok n a \<longleftrightarrow> (case a of AnswerNodes ks \<Rightarrow> set ks \<subseteq> {..<n} | AnswerValues _ \<Rightarrow> True)"

definition future_ok :: "nat \<Rightarrow> dht_future \<Rightarrow> bool" where
  "future_ok n f \<longleftrightarrow> (case f of ResultFuture (FindValue a) \<Rightarrow> answer_ok n a | _ \<Rightarrow> True)"

text \<open>
  What every operation keeps of the overlay: its objects and tables, its crawls and futures, and the key hashes of the
  objects known so far, which are listed.
\<close>

definition overlay_ok :: "bytes list \<Rightarrow> dht \<Rightarrow> bool" where
  "overlay_ok hs s \<longleftrightarrow> dht_ok s \<and> list_all (crawl_ok s) (crawls s) \<and>
     list_all (future_ok (length (node_objects s))) (dht_futures s) \<and> prefix hs (map mid (node_objects s))"

lemma crawl_ok_grows:
  assumes "overlay_grows s s'" "crawl_ok s cr"
  shows "crawl_ok s' cr"
proof -
  have *: "set (nodes_tried cr @ map fst (nodes_todo cr)) \<subseteq> {..<length (node_objects s)}"
    using assms(2) by (auto simp: crawl_ok_def)
  have "node_key s' k = node_key s k" if "k \<in> set (nodes_tried cr @ map fst (nodes_todo cr))" for k
  proof -
    have "k < length (node_objects s)" using * that by blast
    then show ?thesis using assms(1) by (simp add: overlay_grows_def node_key_def same_node_keys_def)
  qed
  then have "map (node_key s') (nodes_tried cr @ map fst (nodes_todo cr)) = map (node_key s) (nodes_tried cr @ map fst (nodes_todo cr))"
    by (rule map_cong [OF refl])
  moreover have "length (node_objects s) \<le> length (node_objects s')" using assms(1) by (simp add: overlay_grows_def)
  ultimately show ?thesis
    using assms(2) unfolding crawl_ok_def by (metis lessThan_subset_iff order_trans)
qed

lemma answer_ok_mono: "n \<le> m \<Longrightarrow> answer_ok n a \<Longrightarrow> answer_ok m a"
  by (auto simp: answer_ok_def split: find_answer.splits)

lemma future_ok_mono: "n \<le> m \<Longrightarrow> future_ok n f \<Longrightarrow> future_ok m f"
  by (auto simp: future_ok_def intro: answer_ok_mono split: dht_future.splits future_value.splits)

lemma overlay_grows_mids:
  assumes "overlay_grows s s'"
  shows "prefix (map mid (node_objects s)) (map mid (node_objects s'))"
proof -
  have "map mid (node_objects s) = take (length (node_objects s)) (map mid (node_objects s'))"
    using assms by (auto simp: list_eq_iff_nth_eq overlay_grows_def same_node_keys_def)
  then show ?thesis by (metis take_is_prefix)
qed

lemma overlay_ok_step:
  assumes "overlay_ok hs s" "object_step s s'"
  shows "overlay_ok (map mid (node_objects s')) s'" "prefix hs (map mid (node_objects s'))"
proof -
  have s': "dht_ok s'" "overlay_grows s s'" "crawls s' = crawls s" "dht_futures s' = dht_futures s"
    using assms(2) by (auto simp: object_step_def only_objects_def dest: arg_cong [where f = crawls] arg_cong [where f = dht_futures])
  show "overlay_ok (map mid (node_objects s')) s'"
    using assms(1) s' crawl_ok_grows [OF s'(2)] future_ok_mono [of "length (node_objects s)" "length (node_objects s')"]
    by (auto simp: overlay_ok_def list_all_iff overlay_grows_def)
  show "prefix hs (map mid (node_objects s'))"
    using assms(1) overlay_grows_mids [OF s'(2)] by (auto simp: overlay_ok_def)
qed

lemma overlay_ok_less: "overlay_ok hs' s \<Longrightarrow> prefix hs hs' \<Longrightarrow> overlay_ok hs s"
  by (auto simp: overlay_ok_def)

lemma overlay_ok_length: "overlay_ok hs s \<Longrightarrow> length hs \<le> length (node_objects s)"
  by (auto simp: overlay_ok_def dest: prefix_length_le)

lemma overlay_ok_mid: "overlay_ok hs s \<Longrightarrow> k < length hs \<Longrightarrow> mid (node_objects s ! k) = hs ! k"
  by (auto simp: overlay_ok_def prefix_def list_eq_iff_nth_eq nth_append)

lemma node_key_cong: "node_objects s' = node_objects s \<Longrightarrow> node_key s' = node_key s"
  by (rule ext) (simp add: node_key_def)

lemma crawl_ok_cong: "node_objects s' = node_objects s \<Longrightarrow> crawl_ok s' cr = crawl_ok s cr"
  by (simp add: crawl_ok_def node_key_cong [of s' s])

lemma overlay_ok_cong:
  assumes "node_objects s' = node_objects s" "routing_tables s' = routing_tables s" "crawls s' = crawls s"
    "dht_futures s' = dht_futures s"
  shows "overlay_ok hs s' = overlay_ok hs s"
proof -
  have "crawl_ok s' = crawl_ok s"
    by (rule ext) (rule crawl_ok_cong [OF assms(1)])
  then show ?thesis by (simp add: overlay_ok_def assms dht_ok_cong [OF assms(1,2)])
qed

lemma overlay_ok_crawls:
  assumes "overlay_ok hs s" "list_all (crawl_ok s) cs"
  shows "overlay_ok hs (s\<lparr>crawls := cs\<rparr>)"
  using assms dht_ok_cong [of "s\<lparr>crawls := cs\<rparr>" s]
  by (simp add: overlay_ok_def crawl_ok_cong [of "s\<lparr>crawls := cs\<rparr>" s] list_all_iff)

lemma overlay_ok_futures:
  assumes "overlay_ok hs s" "list_all (future_ok (length (node_objects s))) fs"
  shows "overlay_ok hs (s\<lparr>dht_futures := fs\<rparr>)"
  using assms dht_ok_cong [of "s\<lparr>dht_futures := fs\<rparr>" s]
  by (simp add: overlay_ok_def crawl_ok_cong [of "s\<lparr>dht_futures := fs\<rparr>" s] list_all_iff)

lemma overlay_ok_update_crawl:
  assumes "overlay_ok hs s" "c < length (crawls s) \<Longrightarrow> crawl_ok s (f (crawls s ! c))"
  shows "overlay_ok hs (s\<lparr>crawls := (crawls s)[c := f (crawls s ! c)]\<rparr>)"
proof (rule overlay_ok_crawls [OF assms(1)])
  show "list_all (crawl_ok s) ((crawls s)[c := f (crawls s ! c)])"
    using assms by (cases "c < length (crawls s)")
      (auto simp: list_all_length nth_list_update overlay_ok_def)
qed

section \<open>What the crawl operations keep\<close>

lemma overlay_crawl: "overlay_ok hs s \<Longrightarrow> c < length (crawls s) \<Longrightarrow> crawl_ok s (crawls s ! c)"
  by (simp add: overlay_ok_def list_all_length)

lemma find_position_None: "find_position P xs = None \<longleftrightarrow> (\<forall>x \<in> set xs. \<not> P x)"
  by (fastforce simp: find_position_def find_None_iff in_set_conv_nth dest: nth_mem)

lemma map_fst_update: "map fst (xs[i := (fst (xs ! i), p)]) = map fst xs"
  by (cases "i < length xs") (simp_all add: map_update list_update_same_conv list_update_beyond)

lemma crawl_ok_todo: "map fst todo = map fst (nodes_todo cr) \<Longrightarrow> crawl_ok s (cr\<lparr>nodes_todo := todo\<rparr>) = crawl_ok s cr"
  by (simp add: crawl_ok_def flip: set_map)

lemma crawl_ok_add_node:
  assumes cr: "crawl_ok s cr" and k: "k < length (node_objects s)"
  shows "crawl_ok s (fst (add_node s p k cr))"
proof -
  let ?todo = "nodes_todo cr @ [(k, p)]"
  have grown: "crawl_ok s (cr\<lparr>nodes_todo := todo\<rparr>)"
    if "mset todo = mset ?todo" "\<not> node_in s k (nodes_tried cr)"
      "find_position (\<lambda>(j, _). peer_eq (node_objects s ! j) (node_objects s ! k)) (nodes_todo cr) = None" for todo
  proof -
    have fresh: "node_key s k \<notin> node_key s ` set (nodes_tried cr @ map fst (nodes_todo cr))"
      using that(2,3) by (auto simp: node_in_def list_ex_iff find_position_None peer_eq_def node_key_def)
    have m: "mset (nodes_tried cr @ map fst todo) = mset (nodes_tried cr @ map fst ?todo)"
      by (simp only: mset_append mset_map that(1))
    have "distinct (map (node_key s) (nodes_tried cr @ map fst ?todo))"
      using cr fresh by (auto simp: crawl_ok_def)
    then have "distinct (map (node_key s) (nodes_tried cr @ map fst todo))" by (rule distinct_map_mset [OF m])
    moreover have "set (map fst todo) = insert k (set (map fst (nodes_todo cr)))"
      using mset_eq_setD [OF that(1)] by auto
    ultimately show ?thesis using cr k by (auto simp: crawl_ok_def)
  qed
  let ?found = "find_position (\<lambda>(j, _). peer_eq (node_objects s ! j) (node_objects s ! k)) (nodes_todo cr)"
  show ?thesis
  proof (cases "node_in s k (nodes_tried cr) \<or> too_far s k cr \<noteq> return False")
    case True
    then have "fst (add_node s p k cr) = cr" by (auto simp: add_node_def split: sum.split bool.split)
    then show ?thesis using cr by simp
  next
    case False
    show ?thesis
    proof (cases ?found)
      case None
      then show ?thesis
        using False grown [OF refl] grown [OF sort_by_result_mset]
        by (cases "sort_by_result (\<lambda>(j, _). distance_of s (target cr) j) ?todo") (auto simp: add_node_def Let_def)
    next
      case (Some i)
      then have "fst (add_node s p k cr) = cr\<lparr>nodes_todo := (nodes_todo cr)[i := (fst (nodes_todo cr ! i), p)]\<rparr>"
        using False by (simp add: add_node_def)
      then show ?thesis using crawl_ok_todo [OF map_fst_update] cr by simp
    qed
  qed
qed

lemma crawl_ok_add_nodes:
  "crawl_ok s cr \<Longrightarrow> set ks \<subseteq> {..<length (node_objects s)} \<Longrightarrow> crawl_ok s (fst (add_nodes s sender p ks cr))"
proof (induction ks arbitrary: p cr)
  case (Cons k ks)
  have "crawl_ok s (fst (add_node s p k cr))" by (rule crawl_ok_add_node) (use Cons.prems in auto)
  then show ?case using Cons by (auto split: prod.split sum.split)
qed simp

lemma crawl_ok_add_response:
  assumes "crawl_ok s cr" "answer_ok (length (node_objects s)) a"
  shows "crawl_ok s (fst (add_response s sender a cr))"
proof -
  have "crawl_ok s (cr\<lparr>responses := responses cr @ [(sender, a)]\<rparr>)" using assms(1) by (simp add: crawl_ok_def)
  then show ?thesis
    using assms(2) by (auto simp: add_response_def answer_ok_def split: find_answer.splits intro: crawl_ok_add_nodes)
qed

lemma crawl_ok_fill_loop:
  "crawl_ok s (cr\<lparr>nodes_todo := todo\<rparr>) \<Longrightarrow> crawl_ok s (fill_loop s todo cr)"
proof (induction s todo cr rule: fill_loop.induct)
  case (2 s k p todo cr)
  show ?case
  proof (cases "length (nodes_tried cr) < MAX_CRAWL_REQUESTS \<and> length (crawl_tasks cr) < MAX_CRAWL_TASKS")
    case True
    have "node_key s k \<notin> node_key s ` set (nodes_tried cr)"
      using "2.prems" by (simp add: crawl_ok_def)
    then have "\<not> node_in s k (nodes_tried cr)"
      by (auto simp: node_in_def list_ex_iff peer_eq_def rev_image_eqI simp flip: node_key_def)
    moreover have "crawl_ok s (cr\<lparr>crawl_tasks := crawl_tasks cr @ [StartContact k p], nodes_tried := nodes_tried cr @ [k],
        nodes_todo := todo\<rparr>)"
      using "2.prems" True by (auto simp: crawl_ok_def)
    ultimately show ?thesis using "2.IH" [OF True] True by simp
  next
    case False
    then have "fill_loop s ((k, p) # todo) cr = cr\<lparr>nodes_todo := (k, p) # todo\<rparr>" by auto
    then show ?thesis using "2.prems" by simp
  qed
qed simp

lemma crawl_ok_fill_tasks: "crawl_ok s cr \<Longrightarrow> crawl_ok s (fill_tasks s cr)"
  by (simp add: fill_tasks_def crawl_ok_fill_loop)

end
