(* ===== verification/DHT_Invariant.thy ===== *)
theory DHT_Invariant
  imports DHT_Objects
begin

text \<open>
  One induction over everything that can happen to the DHT overlay, as the locale \<open>dht_invariant\<close>: its parameter is
  a property of the storages and the stored peers, its assumptions say what the few operations on them do to the
  property, and its result is that every reachable state has the property and well-formed tables and crawls.
\<close>

section \<open>Invariants of the overlay\<close>

text \<open>
  An invariant \<open>X\<close> of the stored values and peers that survives what the operations do to them. Objects may be added;
  the peers that a store gains have the key hash they are stored under.
\<close>

locale dht_invariant =
  fixes E :: dht_env and X :: "dht \<Rightarrow> bool"
  assumes X_hashes: "X s \<Longrightarrow> sha1_hashes E"
    and X_start: "sha1_hashes E \<Longrightarrow> X (new_dht E secret addrs wan lan)"
    and X_other: "overlay_grows s s' \<Longrightarrow> storages s' = storages s \<Longrightarrow> peer_store s' = peer_store s \<Longrightarrow> X s \<Longrightarrow> X s'"
    and X_storage_new: "X s \<Longrightarrow> X (s\<lparr>storages := dict_set c [] (storages s)\<rparr>)"
    and X_put: "X s \<Longrightarrow> unserialize_value E value = return (Some (d, pk, ver)) \<Longrightarrow>
      i = (case pk of None \<Rightarrow> None | Some b \<Rightarrow> if b = [] then None else Some (de_sha1 E b)) \<Longrightarrow>
      dict_get (storages s) c = Some st \<Longrightarrow>
      X (s\<lparr>storages := dict_set c (storage_put (de_sha1 E) now key value i age ver st) (storages s)\<rparr>)"
    and X_clean: "X s \<Longrightarrow> X (s\<lparr>storages := map (\<lambda>(c, st). (c, storage_clean now st)) (storages s)\<rparr>)"
    and X_peer_add: "X s \<Longrightarrow> k < length (node_objects s) \<Longrightarrow> mid (node_objects s ! k) = key \<Longrightarrow>
      \<not> node_in s k (peers_at key (peer_store s)) \<Longrightarrow>
      X (s\<lparr>peer_store := dict_set key (peers_at key (peer_store s) @ [k]) (peer_store s)\<rparr>)"
    and X_peer_read: "X s \<Longrightarrow> X (s\<lparr>peer_store := dict_set key (peers_at key (peer_store s)) (peer_store s)\<rparr>)"
    and X_peer_filter: "X s \<Longrightarrow> X (s\<lparr>peer_store := map (\<lambda>(key, ks). (key, filter f ks)) (peer_store s)\<rparr>)"
begin

definition ok :: "bytes list \<Rightarrow> dht \<Rightarrow> bool" where
  "ok hs s \<longleftrightarrow> overlay_ok hs s \<and> X s"

text \<open>An operation that gives a value related to the objects known after it.\<close>

definition gives :: "bytes list \<Rightarrow> (bytes list \<Rightarrow> 'a \<Rightarrow> bool) \<Rightarrow> 'a dht_op \<Rightarrow> bool" where
  "gives hs R m \<longleftrightarrow> (\<forall>s. ok hs s \<longrightarrow>
     (case m s of (s', Inl e) \<Rightarrow> ok hs s' | (s', Inr x) \<Rightarrow> \<exists>hs'. prefix hs hs' \<and> ok hs' s' \<and> R hs' x))"

lemma ok_less: "ok hs' s \<Longrightarrow> prefix hs hs' \<Longrightarrow> ok hs s"
  by (auto simp: ok_def intro: overlay_ok_less)

lemma givesD:
  assumes "gives hs R m" "ok hs s" "m s = (s', r)"
  obtains (raised) e where "r = raise e" "ok hs s'"
  | (returned) x hs' where "r = return x" "prefix hs hs'" "ok hs' s'" "R hs' x"
proof -
  have "case m s of (s', Inl e) \<Rightarrow> ok hs s' | (s', Inr x) \<Rightarrow> \<exists>hs'. prefix hs hs' \<and> ok hs' s' \<and> R hs' x"
    using assms(1,2) by (simp add: gives_def)
  then show thesis using raised returned by (cases r) (auto simp: assms(3))
qed

lemma gives_keeps:
  assumes "gives hs R m"
  shows "keeps (ok hs) m"
proof (rule keepsI)
  fix s assume s: "ok hs s"
  obtain s' r where m: "m s = (s', r)" by fastforce
  from assms s m show "ok hs (fst (m s))"
    by (rule givesD) (use m in \<open>auto intro: ok_less\<close>)
qed

lemma keeps_gives: "keeps (ok hs) m \<Longrightarrow> (\<And>s x s'. ok hs s \<Longrightarrow> m s = (s', return x) \<Longrightarrow> R hs x) \<Longrightarrow> gives hs R m"
  unfolding gives_def
proof (intro allI impI)
  fix s assume P: "keeps (ok hs) m" "\<And>s x s'. ok hs s \<Longrightarrow> m s = (s', return x) \<Longrightarrow> R hs x" "ok hs s"
  obtain s' r where "m s = (s', r)" by fastforce
  moreover from keepsD [OF P(1,3)] this have "ok hs s'" by simp
  ultimately show "case m s of (s', Inl e) \<Rightarrow> ok hs s' | (s', Inr x) \<Rightarrow> \<exists>hs'. prefix hs hs' \<and> ok hs' s' \<and> R hs' x"
    using P(2,3) by (cases r) auto
qed

lemma gives_any: "keeps (ok hs) m \<Longrightarrow> gives hs (\<lambda>_ _. True) m"
  by (rule keeps_gives) simp_all

lemma gives_bind:
  assumes "gives hs R m" "\<And>hs' x. prefix hs hs' \<Longrightarrow> R hs' x \<Longrightarrow> gives hs' S (f x)"
  shows "gives hs S (op_bind m f)"
  unfolding gives_def
proof (intro allI impI)
  fix s assume s: "ok hs s"
  obtain s1 r where m: "m s = (s1, r)" by fastforce
  from assms(1) s m show "case op_bind m f s of (s', Inl e) \<Rightarrow> ok hs s' | (s', Inr x) \<Rightarrow> \<exists>hs'. prefix hs hs' \<and> ok hs' s' \<and> S hs' x"
  proof (cases rule: givesD)
    case (raised e)
    then show ?thesis by (simp add: op_bind_def m)
  next
    case (returned x hs1)
    obtain s2 r2 where f: "f x s1 = (s2, r2)" by fastforce
    from assms(2) [OF returned(2,4)] returned(3) f show ?thesis
    proof (cases rule: givesD)
      case (raised e)
      then show ?thesis using ok_less returned(1,2) by (simp add: op_bind_def m f)
    next
      case (returned y hs2)
      then show ?thesis using \<open>r = return x\<close> \<open>prefix hs hs1\<close>
        by (auto simp: op_bind_def m f intro: prefix_order.trans)
    qed
  qed
qed

lemma keeps_gives_bind:
  assumes "gives hs R m" "\<And>hs' x. prefix hs hs' \<Longrightarrow> R hs' x \<Longrightarrow> keeps (ok hs') (f x)"
  shows "keeps (ok hs) (op_bind m f)"
  using gives_keeps [OF gives_bind [OF assms(1), of "\<lambda>_ _. True" f]] assms(2) gives_any by blast

lemma gives_return: "R hs x \<Longrightarrow> gives hs R (op_return x)"
  by (auto simp: gives_def op_return_def)

lemma gives_raise: "gives hs R (op_raise e)"
  by (simp add: gives_def op_raise_def)

lemma gives_of: "(\<And>x. r = return x \<Longrightarrow> R hs x) \<Longrightarrow> gives hs R (op_of r)"
  by (auto simp: gives_def op_of_def split: sum.splits)

lemma gives_state: "(\<And>s. ok hs s \<Longrightarrow> gives hs R (f s)) \<Longrightarrow> gives hs R (op_state f)"
  by (simp add: gives_def op_state_def)

lemma gives_then: "keeps (ok hs) m \<Longrightarrow> gives hs R n \<Longrightarrow> gives hs R (op_then m n)"
  unfolding op_then_def by (rule gives_bind [OF keeps_gives [where R = "\<lambda>hs' _. hs' = hs"]]) auto

lemma gives_if: "(b \<Longrightarrow> gives hs R m) \<Longrightarrow> (\<not> b \<Longrightarrow> gives hs R n) \<Longrightarrow> gives hs R (if b then m else n)"
  by simp

lemma gives_weaken: "gives hs R m \<Longrightarrow> (\<And>hs' x. R hs' x \<Longrightarrow> S hs' x) \<Longrightarrow> gives hs S m"
  unfolding gives_def by (simp split: prod.splits sum.splits) blast

end

text \<open>A change of the state that leaves alone what the invariants are about.\<close>

definition frame :: "(dht \<Rightarrow> dht) \<Rightarrow> bool" where
  "frame f \<longleftrightarrow> (\<forall>s. node_objects (f s) = node_objects s \<and> routing_tables (f s) = routing_tables s \<and>
     crawls (f s) = crawls s \<and> dht_futures (f s) = dht_futures s \<and> storages (f s) = storages s \<and>
     peer_store (f s) = peer_store s)"

context dht_invariant
begin

lemma ok_known: "ok hs s \<Longrightarrow> ok (map mid (node_objects s)) s \<and> prefix hs (map mid (node_objects s))"
  by (auto simp: ok_def overlay_ok_def)

lemma keeps_known:
  assumes "\<And>s hs'. ok hs' s \<Longrightarrow> prefix hs hs' \<Longrightarrow> hs' = map mid (node_objects s) \<Longrightarrow> keeps (ok hs') (f s)"
  shows "keeps (ok hs) (op_state f)"
proof (rule keepsI)
  fix s assume "ok hs s"
  note k = ok_known [OF this]
  have "ok (map mid (node_objects s)) (fst (f s s))"
    by (rule keepsD [OF assms [OF _ _ refl]]) (use k in auto)
  then show "ok hs (fst (op_state f s))" using k by (auto simp: op_state_def intro: ok_less)
qed

lemma gives_known:
  assumes "\<And>s hs'. ok hs' s \<Longrightarrow> prefix hs hs' \<Longrightarrow> hs' = map mid (node_objects s) \<Longrightarrow> gives hs' R (f s)"
  shows "gives hs R (op_state f)"
  unfolding gives_def
proof (intro allI impI)
  fix s assume "ok hs s"
  note k = ok_known [OF this]
  obtain s' r where m: "f s s = (s', r)" by fastforce
  from assms [OF _ _ refl, of s] k m
  have "gives (map mid (node_objects s)) R (f s)" "ok (map mid (node_objects s)) s" by auto
  from this m show "case op_state f s of (s', Inl e) \<Rightarrow> ok hs s' | (s', Inr x) \<Rightarrow> \<exists>hs'. prefix hs hs' \<and> ok hs' s' \<and> R hs' x"
    by (rule givesD) (use k m in \<open>auto simp: op_state_def intro: ok_less prefix_order.trans\<close>)
qed

lemma keeps_object:
  assumes "\<And>s. dht_ok s \<Longrightarrow> sha1_hashes E \<Longrightarrow> object_step s (fst (m s))"
  shows "keeps (ok hs) m"
proof (rule keepsI)
  fix s assume s: "ok hs s"
  then have step: "object_step s (fst (m s))" by (intro assms) (auto simp: ok_def overlay_ok_def intro: X_hashes)
  have "storages (fst (m s)) = storages s" "peer_store (fst (m s)) = peer_store s"
    using step by (auto simp: object_step_def only_objects_def dest: arg_cong [where f = storages] arg_cong [where f = peer_store])
  with X_other [of s "fst (m s)"] overlay_ok_step [OF _ step, of hs] s step show "ok hs (fst (m s))"
    by (auto simp: ok_def object_step_def intro: overlay_ok_less)
qed

lemma keeps_frame: "frame f \<Longrightarrow> keeps (ok hs) (op_modify f)"
proof (rule keeps_modify)
  fix s assume "frame f" "ok hs s"
  then show "ok hs (f s)"
    using overlay_ok_cong [of "f s" s hs] X_other [of s "f s"] overlay_grows_cong [of "f s" s] by (simp add: frame_def ok_def)
qed

lemma keeps_send_to: "keeps (ok hs) (send_to a m)"
  unfolding send_to_def by (rule keeps_frame) (simp add: frame_def)

lemma keeps_send_node: "keeps (ok hs) (send_node k m)"
  unfolding send_node_def by (intro keeps_state keeps_send_to)

lemma keeps_update_node: "harmless f \<Longrightarrow> keeps (ok hs) (update_node k f)"
  by (intro keeps_object update_node_step)

lemma keeps_routing_table: "keeps (ok hs) (get_routing_table E c)"
  by (intro keeps_object get_routing_table_step)

lemma keeps_touch_bucket: "keeps (ok hs) (touch_bucket t cp)"
  by (intro keeps_object touch_bucket_step)

lemma gives_new_node:
  "gives hs (\<lambda>hs' k. k < length hs' \<and> (\<exists>b. arg_key E key = return b \<and> hs' ! k = de_key_hash E b)) (new_node E now key a)"
  unfolding gives_def
proof (intro allI impI)
  fix s assume s: "ok hs s"
  then have d: "dht_ok s" by (simp add: ok_def overlay_ok_def)
  have k: "ok hs (fst (new_node E now key a s))"
    by (rule keepsD [OF keeps_object s]) (intro new_node_step)
  show "case new_node E now key a s of (s', Inl e) \<Rightarrow> ok hs s'
      | (s', Inr k) \<Rightarrow> \<exists>hs'. prefix hs hs' \<and> ok hs' s' \<and> (k < length hs' \<and> (\<exists>b. arg_key E key = return b \<and> hs' ! k = de_key_hash E b))"
  proof (cases rule: new_node_cases [of E key now a s])
    case raised then show ?thesis using s by simp
  next
    case (made b n)
    let ?s = "s\<lparr>node_objects := node_objects s @ [n]\<rparr>"
    have "ok hs ?s" using k made by simp
    from ok_known [OF this] made show ?thesis
      by (auto simp: nth_append intro!: exI [of _ "map mid (node_objects ?s)"])
  qed
qed

lemma gives_new_nodes: "gives hs (\<lambda>hs' ks. set ks \<subseteq> {..<length hs'}) (new_nodes E now ns)"
proof (induction ns arbitrary: hs)
  case Nil
  then show ?case by (simp add: gives_return)
next
  case (Cons n ns)
  obtain k a where n: "n = (k, a)" by fastforce
  have "gives hs1 (\<lambda>hs' ks. set ks \<subseteq> {..<length hs'}) (op_bind (new_nodes E now ns) (\<lambda>js. op_return (j # js)))"
    if "j < length hs1" for hs1 j
    by (rule gives_bind [OF Cons.IH]) (use that in \<open>auto intro!: gives_return dest!: prefix_length_le\<close>)
  then show ?case unfolding n new_nodes.simps by (intro gives_bind [OF gives_new_node]) auto
qed

lemma table_add_keeps: "k < length hs \<Longrightarrow> keeps (ok hs) (table_add now c k)"
proof (rule keepsI)
  fix s assume s: "ok hs s" and "k < length hs"
  then have "k < length (node_objects s)" using overlay_ok_length [of hs s] by (simp add: ok_def)
  then have step: "object_step s (fst (table_add now c k s))"
    using s table_add_step by (simp add: ok_def overlay_ok_def)
  have "storages (fst (table_add now c k s)) = storages s" "peer_store (fst (table_add now c k s)) = peer_store s"
    using step by (auto simp: object_step_def only_objects_def dest: arg_cong [where f = storages] arg_cong [where f = peer_store])
  with X_other [of s "fst (table_add now c k s)"] overlay_ok_step [OF _ step, of hs] s step
  show "ok hs (fst (table_add now c k s))"
    by (auto simp: ok_def object_step_def intro: overlay_ok_less)
qed

definition known_option :: "bytes list \<Rightarrow> nat option \<Rightarrow> bool" where
  "known_option hs r \<longleftrightarrow> (case r of None \<Rightarrow> True | Some j \<Rightarrow> j < length hs)"

lemma gives_table_add:
  assumes k: "k < length hs"
  shows "gives hs known_option (table_add now c k)"
  unfolding gives_def
proof (intro allI impI)
  fix s assume s: "ok hs s"
  obtain s' r where m: "table_add now c k s = (s', r)" by fastforce
  have ok': "ok hs s'" using keepsD [OF table_add_keeps [OF k] s, of now c] m by simp
  have len: "k < length (node_objects s)" using s k overlay_ok_length [of hs s] by (simp add: ok_def)
  have "j < length (node_objects s')" if "r = return (Some j)" for j
  proof -
    have "j < length (node_objects s)"
      using table_add_value [OF _ len, of now c j] m s that by (simp add: ok_def overlay_ok_def)
    moreover have "length (node_objects s) \<le> length (node_objects s')"
      using table_add_step [OF _ len, of now c] m s by (simp add: ok_def overlay_ok_def object_step_def overlay_grows_def)
    ultimately show ?thesis by simp
  qed
  then show "case table_add now c k s of (s', Inl e) \<Rightarrow> ok hs s'
      | (s', Inr x) \<Rightarrow> \<exists>hs'. prefix hs hs' \<and> ok hs' s' \<and> known_option hs' x"
    using ok_known [OF ok'] ok' m
    by (auto simp: known_option_def split: sum.split option.split intro!: exI [of _ "map mid (node_objects s')"])
qed

lemma gives_requesting_node: "gives hs known_option (get_requesting_node E now p)"
proof -
  have blocked_or_added: "gives hs1 known_option
      (op_bind (table_add now c k) (\<lambda>added.
         let j = case added of None \<Rightarrow> k | Some j \<Rightarrow> j in op_then (update_node j (append_query now)) (op_return (Some j))))"
    if k: "k < length hs1" for hs1 c k
    by (rule gives_bind [OF gives_table_add [OF k]])
      (use k in \<open>auto simp: known_option_def Let_def intro!: gives_then gives_return keeps_update_node split: option.split
        dest!: prefix_length_le\<close>)
  show ?thesis
    unfolding get_requesting_node_def Let_def
    by (intro gives_bind [OF gives_any [OF keeps_routing_table]] gives_bind [OF gives_new_node] gives_state
        gives_bind [OF gives_of [where R = "\<lambda>_ _. True"]] gives_if gives_return blocked_or_added [unfolded Let_def])
      (auto simp: known_option_def dest!: prefix_length_le)
qed

end

context dht_invariant
begin

lemma keeps_storage: "keeps (ok hs) (get_storage c)"
proof (rule keepsI)
  fix s assume s: "ok hs s"
  have "ok hs (s\<lparr>storages := dict_set c [] (storages s)\<rparr>)"
    using s X_storage_new [of s c] overlay_ok_cong [of "s\<lparr>storages := dict_set c [] (storages s)\<rparr>" s hs]
    by (simp add: ok_def)
  then show "ok hs (fst (get_storage c s))"
    using s by (simp add: get_storage_def op_state_def op_then_def op_bind_def op_modify_def op_return_def split: option.split)
qed

lemma get_storage_result:
  obtains st s' where "get_storage c s = (s', return st)" "dict_get (storages s') c = Some st"
  by (cases "dict_get (storages s) c")
    (auto simp: get_storage_def op_state_def op_then_def op_bind_def op_modify_def op_return_def dict_simps)

lemma keeps_add_value: "keeps (ok hs) (add_value E now key value c age)"
proof (rule keepsI)
  fix s assume s: "ok hs s"
  show "ok hs (fst (add_value E now key value c age s))"
  proof (cases "unserialize_value E value")
    case (Inl e)
    then show ?thesis using s by (simp add: add_value_def op_bind_def op_of_def)
  next
    case (Inr u)
    show ?thesis
    proof (cases u)
      case None
      then show ?thesis using s Inr by (simp add: add_value_def op_bind_def op_of_def op_return_def)
    next
      case (Some x)
      obtain d pk ver where x: "x = (d, pk, ver)" by (cases x) auto
      obtain st s' where g: "get_storage c s = (s', return st)" "dict_get (storages s') c = Some st"
        by (rule get_storage_result)
      have s': "ok hs s'" using keepsD [OF keeps_storage s, of c] g by simp
      have "ok hs (s'\<lparr>storages := dict_set c (storage_put (de_sha1 E) now key value i age ver st) (storages s')\<rparr>)"
        if "i = (case pk of None \<Rightarrow> None | Some b \<Rightarrow> if b = [] then None else Some (de_sha1 E b))" for i
        using s' X_put [of s' "value" d pk ver i c st now key age] g(2) Inr Some x that
          overlay_ok_cong [of "s'\<lparr>storages := dict_set c (storage_put (de_sha1 E) now key value i age ver st) (storages s')\<rparr>" s' hs]
        by (simp add: ok_def)
      then show ?thesis
        using Inr Some x g by (simp add: add_value_def op_bind_def op_of_def op_modify_def Let_def)
    qed
  qed
qed

lemma keeps_futures:
  assumes "\<And>s. ok hs s \<Longrightarrow> list_all (future_ok (length (node_objects s))) (g s)"
  shows "keeps (ok hs) (op_modify (\<lambda>s. s\<lparr>dht_futures := g s\<rparr>))"
proof (rule keeps_modify)
  fix s assume s: "ok hs s"
  show "ok hs (s\<lparr>dht_futures := g s\<rparr>)"
    using overlay_ok_futures [OF _ assms [OF s], of hs] X_other [of s "s\<lparr>dht_futures := g s\<rparr>"] s
    by (simp add: ok_def overlay_grows_cong)
qed

lemma futures_ok: "ok hs s \<Longrightarrow> list_all (future_ok (length (node_objects s))) (dht_futures s)"
  by (simp add: ok_def overlay_ok_def)

lemma list_all_update: "list_all P xs \<Longrightarrow> P x \<Longrightarrow> list_all P (xs[i := x])"
  by (cases "i < length xs") (auto simp: list_all_length nth_list_update list_update_beyond)

lemma keeps_set_future:
  assumes "future_ok (length hs) v"
  shows "keeps (ok hs) (set_future f v)"
  unfolding set_future_def
proof (intro keeps_state keeps_if keeps_raise keeps_futures list_all_update futures_ok)
  fix s assume "ok hs s"
  then have "length hs \<le> length (node_objects s)" using overlay_ok_length by (simp add: ok_def)
  then show "future_ok (length (node_objects s)) v" using assms by (rule future_ok_mono)
qed

lemma keeps_new_request: "keeps (ok hs) (new_request E now msg_type k params consume t)"
proof -
  have made: "keeps (ok hs) (op_modify (\<lambda>s. s\<lparr>drawn := d, dht_futures := dht_futures s @ [PendingFuture], dht_requests := g s\<rparr>))" for d g
  proof (rule keeps_modify)
    fix s assume s: "ok hs s"
    let ?s = "s\<lparr>dht_futures := dht_futures s @ [PendingFuture]\<rparr>"
    have "list_all (future_ok (length (node_objects s))) (dht_futures s @ [PendingFuture])"
      using futures_ok [OF s] by (simp add: future_ok_def)
    then have "ok hs ?s" using overlay_ok_futures [of hs s] X_other [of s ?s] s by (simp add: ok_def overlay_grows_cong)
    have fr: "frame (\<lambda>s. s\<lparr>drawn := d, dht_requests := r\<rparr>)" for r by (simp add: frame_def)
    have "ok hs (?s\<lparr>drawn := d, dht_requests := g s\<rparr>)"
      using keepsD [OF keeps_frame [OF fr [of "g s"]] \<open>ok hs ?s\<close>] by (simp add: op_modify_def)
    moreover have "?s\<lparr>drawn := d, dht_requests := g s\<rparr> =
        s\<lparr>drawn := d, dht_futures := dht_futures s @ [PendingFuture], dht_requests := g s\<rparr>"
      by (rule dht.equality) simp_all
    ultimately show "ok hs (s\<lparr>drawn := d, dht_futures := dht_futures s @ [PendingFuture], dht_requests := g s\<rparr>)"
      by simp
  qed
  have tried: "frame (\<lambda>s. s\<lparr>drawn := drawn s + 1000\<rparr>)" by (simp add: frame_def)
  show ?thesis
    unfolding new_request_def Let_def
    by (intro keeps_state keeps_option keeps_then keeps_return keeps_raise keeps_frame [OF tried] made)
qed

lemma keeps_pop_request: "keeps (ok hs) (pop_request msg_type number)"
  unfolding pop_request_def by (intro keeps_state keeps_then keeps_return keeps_frame) (simp add: frame_def)

lemma keeps_resolve: "future_ok (length hs) (ResultFuture v) \<Longrightarrow> keeps (ok hs) (resolve_if_pending f v)"
  unfolding resolve_if_pending_def by (intro keeps_state keeps_when keeps_set_future)

lemma keeps_on_timeout: "keeps (ok hs) (request_on_timeout r)"
  unfolding request_on_timeout_def
  by (intro keeps_state keeps_when keeps_then keeps_update_node keeps_set_future) (simp_all add: future_ok_def)

lemma keeps_on_complete: "keeps (ok hs) (request_on_complete now r)"
  unfolding request_on_complete_def by (intro keeps_update_node) simp

lemma keeps_request_timer: "keeps (ok hs) (request_timer msg_type number)"
  unfolding request_timer_def
  by (intro keeps_bind keeps_pop_request keeps_option keeps_return keeps_on_timeout)

lemma keeps_ping: "keeps (ok hs) (ping E now k)"
  unfolding ping_def
  by (intro keeps_bind keeps_new_request keeps_prod keeps_then keeps_send_node keeps_update_node keeps_return) simp

lemma keeps_on_ping_request: "keeps (ok hs) (on_ping_request E now p i)"
  unfolding on_ping_request_def
  by (intro keeps_gives_bind [OF gives_requesting_node] keeps_option keeps_return keeps_send_to)

lemma future_ok_simps [simp]:
  "future_ok n PendingFuture" "future_ok n (FailedFuture e)" "future_ok n (ResultFuture NoValue)"
  "future_ok n (ResultFuture (NodeValue k))" "future_ok n (ResultFuture (NodesValue ks))"
  "future_ok n (ResultFuture (FindValue a)) = answer_ok n a"
  by (simp_all add: future_ok_def)

lemma keeps_answered: "keeps (ok hs) (on_ping_response now i)" "keeps (ok hs) (on_store_response now i)"
  unfolding on_ping_response_def on_store_response_def
  by (intro keeps_bind keeps_pop_request keeps_option keeps_return keeps_then keeps_on_complete keeps_resolve; simp)+

lemma keeps_on_node_discovered: "keeps (ok hs) (on_node_discovered E now key a)"
  unfolding on_node_discovered_def
  by (intro keeps_state keeps_if keeps_return keeps_gives_bind [OF gives_new_node] keeps_bind [OF keeps_routing_table]
      keeps_bind [OF keeps_of] keeps_bind [OF table_add_keeps] keeps_option keeps_when keeps_bind [OF keeps_ping])
    (auto dest!: prefix_length_le)

section \<open>Storing and finding\<close>

lemma keeps_store_locally: "keeps (ok hs) (store_locally E now key values k)"
  unfolding store_locally_def Let_def
  by (intro keeps_state keeps_bind [OF keeps_storage] keeps_for keeps_add_value)

lemma keeps_send_store_requests: "keeps (ok hs) (send_store_requests E now key values ks)"
  by (induction ks)
    (auto intro!: keeps_return keeps_state keeps_bind keeps_of keeps_option keeps_prod keeps_if keeps_new_request keeps_then
      keeps_send_node)

lemma keeps_store_on_nodes: "keeps (ok hs) (store_on_nodes E now key values ks)"
  unfolding store_on_nodes_def Let_def
  by (intro keeps_if keeps_raise keeps_state keeps_bind [OF keeps_of] keeps_then keeps_when keeps_store_locally
      keeps_bind [OF keeps_send_store_requests] keeps_return)

lemma keeps_on_store_request: "keeps (ok hs) (on_store_request E now p i token key values)"
  unfolding on_store_request_def map_op_def Let_def
  by (intro keeps_gives_bind [OF gives_requesting_node] keeps_option keeps_if keeps_return keeps_state
      keeps_bind [OF keeps_routing_table] keeps_bind [OF keeps_of] keeps_then keeps_for keeps_bind [OF keeps_storage]
      keeps_add_value keeps_send_to)

lemma keeps_send_find_request: "keeps (ok hs) (send_find_request E now k key force off)"
  unfolding send_find_request_def
  by (intro keeps_bind [OF keeps_new_request] keeps_prod keeps_state keeps_then keeps_send_node keeps_return)

lemma keeps_puncture: "keeps (ok hs) (op_modify (\<lambda>s. s\<lparr>dht_out := g s\<rparr>))"
  by (rule keeps_frame) (simp add: frame_def)

lemma keeps_on_find_request: "keeps (ok hs) (on_find_request E now p i lan key off force)"
  unfolding on_find_request_def Let_def
  by (intro keeps_gives_bind [OF gives_requesting_node] keeps_option keeps_return keeps_state keeps_bind [OF keeps_storage]
      keeps_bind keeps_if keeps_routing_table keeps_of keeps_then keeps_list keeps_puncture keeps_send_to)

lemma keeps_tokens: "keeps (ok hs) (op_modify (\<lambda>s. s\<lparr>tokens := g s\<rparr>))"
  by (rule keeps_frame) (simp add: frame_def)

lemma keeps_on_find_response: "keeps (ok hs) (on_find_response E now i token values ns)"
  unfolding on_find_response_def
  by (intro keeps_gives_bind [OF gives_new_nodes] keeps_bind [OF keeps_pop_request] keeps_option keeps_return keeps_then
      keeps_on_complete keeps_state keeps_bind [OF keeps_of] keeps_tokens keeps_resolve)
    (auto simp: answer_ok_def)

end

lemma keeps_dht_future:
  "(x = PendingFuture \<Longrightarrow> keeps P a) \<Longrightarrow> (\<And>v. x = ResultFuture v \<Longrightarrow> keeps P (f v)) \<Longrightarrow>
   (\<And>e. x = FailedFuture e \<Longrightarrow> keeps P (g e)) \<Longrightarrow> keeps P (case_dht_future a f g x)"
  by (cases x) simp_all

lemma keeps_future_value:
  "(x = NoValue \<Longrightarrow> keeps P a) \<Longrightarrow> (\<And>k. x = NodeValue k \<Longrightarrow> keeps P (f k)) \<Longrightarrow>
   (\<And>v. x = FindValue v \<Longrightarrow> keeps P (g v)) \<Longrightarrow> (\<And>ks. x = NodesValue ks \<Longrightarrow> keeps P (h ks)) \<Longrightarrow>
   keeps P (case_future_value a f g h x)"
  by (cases x) simp_all

context dht_invariant
begin

section \<open>Crawls\<close>

lemma keeps_crawls:
  assumes "\<And>s. ok hs s \<Longrightarrow> list_all (crawl_ok s) (g s)"
  shows "keeps (ok hs) (op_modify (\<lambda>s. s\<lparr>crawls := g s\<rparr>))"
proof (rule keeps_modify)
  fix s assume s: "ok hs s"
  show "ok hs (s\<lparr>crawls := g s\<rparr>)"
    using overlay_ok_crawls [OF _ assms [OF s], of hs] X_other [of s "s\<lparr>crawls := g s\<rparr>"] s
    by (simp add: ok_def overlay_grows_cong)
qed

lemma crawls_ok: "ok hs s \<Longrightarrow> list_all (crawl_ok s) (crawls s)"
  by (simp add: ok_def overlay_ok_def)

lemma crawl_at: "ok hs s \<Longrightarrow> c < length (crawls s) \<Longrightarrow> crawl_ok s (crawls s ! c)"
  using crawls_ok by (simp add: list_all_length)

lemma keeps_update_crawl:
  assumes "\<And>s cr. ok hs s \<Longrightarrow> crawl_ok s cr \<Longrightarrow> cr = crawls s ! c \<Longrightarrow> crawl_ok s (f cr)"
  shows "keeps (ok hs) (update_crawl c f)"
  unfolding update_crawl_def
proof (rule keeps_crawls)
  fix s assume s: "ok hs s"
  show "list_all (crawl_ok s) ((crawls s)[c := f (crawls s ! c)])"
    using crawls_ok [OF s] assms [OF s crawl_at [OF s] refl]
    by (cases "c < length (crawls s)") (auto intro: list_all_update simp: list_update_beyond)
qed

lemma keeps_set_contact: "contact_of t < length hs \<Longrightarrow> keeps (ok hs) (set_contact c j t)"
  unfolding set_contact_def
proof (rule keeps_update_crawl)
  fix s cr assume t: "contact_of t < length hs" and s: "ok hs s" and cr: "crawl_ok s cr"
  have "contact_of t < length (node_objects s)" using t s overlay_ok_length [of hs s] by (simp add: ok_def)
  moreover have "set ((crawl_tasks cr)[j := t]) \<subseteq> insert t (set (crawl_tasks cr))" by (rule set_update_subset_insert)
  ultimately have "contact_of ` set ((crawl_tasks cr)[j := t]) \<subseteq> {..<length (node_objects s)}"
    using cr by (fastforce simp: crawl_ok_def)
  then show "crawl_ok s (cr\<lparr>crawl_tasks := (crawl_tasks cr)[j := t]\<rparr>)"
    using cr by (simp add: crawl_ok_def)
qed

text \<open>A new crawl starts with nodes of its table, which have different keys.\<close>

lemma crawl_ok_new:
  assumes rt: "table_ok s rt" and ns: "closest_nodes now rt key MAX_CRAWL_NODES ex = return ns"
  shows "crawl_ok s \<lparr>crawl_table = c, target = key, nodes_todo = map (\<lambda>n. (node_object n, None)) ns,
    nodes_tried = [], responses = [], force_nodes = force, offset = off, crawl_tasks = [], crawl_stage = Crawling\<rparr>"
proof -
  have objects: "node_object n < length (node_objects s) \<and> node_objects s ! node_object n = n" if "n \<in> set ns" for n
    using rt closest_nodes_from(3) [OF ns that] by (simp add: table_ok_def)
  then have keys: "map (\<lambda>n. node_key s (node_object n)) ns = map public_key_bin ns"
    by (simp add: node_key_def)
  have "distinct (map (\<lambda>n. node_key s (node_object n)) ns)" unfolding keys by (rule closest_nodes_from(1) [OF ns])
  with objects show ?thesis by (auto simp: crawl_ok_def comp_def)
qed

lemma keeps_new_crawl: "keeps (ok hs) (new_crawl now key force off c)"
proof (rule keepsI)
  fix s assume s: "ok hs s"
  let ?cr = "\<lambda>ns. \<lparr>crawl_table = c, target = key, nodes_todo = map (\<lambda>n. (node_object n, None)) ns,
    nodes_tried = [], responses = [], force_nodes = force, offset = off, crawl_tasks = [], crawl_stage = Crawling\<rparr>"
  consider (same) "fst (new_crawl now key force off c s) = s"
    | (new) rt ns where "dict_get (routing_tables s) c = Some rt" "closest_nodes now rt key MAX_CRAWL_NODES None = return ns"
        "fst (new_crawl now key force off c s) = s\<lparr>crawls := crawls s @ [?cr ns]\<rparr>"
  proof (cases "dict_get (routing_tables s) c")
    case None
    then show ?thesis by (intro same) (simp add: new_crawl_def op_state_def op_raise_def)
  next
    case (Some rt)
    show ?thesis
    proof (cases "closest_nodes now rt key MAX_CRAWL_NODES None")
      case (Inl e)
      with Some show ?thesis by (intro same) (simp add: new_crawl_def op_state_def op_bind_def op_of_def)
    next
      case (Inr ns)
      show ?thesis
      proof (cases "ns = []")
        case True
        with Some Inr show ?thesis
          by (intro same) (simp add: new_crawl_def op_state_def op_bind_def op_of_def op_raise_def)
      next
        case False
        with Some Inr show ?thesis
          by (intro new [OF Some Inr]) (simp add: new_crawl_def op_state_def op_bind_def op_of_def op_then_def op_modify_def
              op_return_def)
      qed
    qed
  qed
  then show "ok hs (fst (new_crawl now key force off c s))"
  proof cases
    case same then show ?thesis using s by simp
  next
    case new
    have "table_ok s rt" using s new(1) dht_ok_table by (auto simp: ok_def overlay_ok_def)
    from crawl_ok_new [OF this new(2)] crawls_ok [OF s]
    have "list_all (crawl_ok s) (crawls s @ [?cr ns])" by simp
    then show ?thesis
      using overlay_ok_crawls [of hs s] X_other [of s "s\<lparr>crawls := crawls s @ [?cr ns]\<rparr>"] s new(3)
      by (simp add: ok_def overlay_grows_cong)
  qed
qed

lemma keeps_ask_node: "k < length hs \<Longrightarrow> keeps (ok hs) (ask_node E now c j k)"
  unfolding ask_node_def Let_def
  by (intro keeps_state keeps_bind [OF keeps_send_find_request] keeps_set_contact) simp

lemma ok_then: "ok hs (fst (m s)) \<Longrightarrow> keeps (ok hs) n \<Longrightarrow> ok hs (fst (op_then m n s))"
  by (auto simp: op_then_def op_bind_def keeps_def split: prod.split sum.split)

lemma ok_update_crawl:
  assumes "ok hs s" "c < length (crawls s) \<Longrightarrow> crawl_ok s cr"
  shows "ok hs (fst (update_crawl c (\<lambda>_. cr) s))"
proof -
  have "list_all (crawl_ok s) ((crawls s)[c := cr])"
    using crawls_ok [OF assms(1)] assms(2) by (cases "c < length (crawls s)") (auto intro: list_all_update simp: list_update_beyond)
  then show ?thesis
    using overlay_ok_crawls [of hs s] X_other [of s "s\<lparr>crawls := (crawls s)[c := cr]\<rparr>"] assms(1)
    by (simp add: ok_def overlay_grows_cong update_crawl_def op_modify_def)
qed

lemma keeps_add_response:
  assumes a: "answer_ok (length hs) a"
  shows "keeps (ok hs) (op_state (\<lambda>s. let (cr, r) = add_response s k a (crawls s ! c) in op_then (update_crawl c (\<lambda>_. cr)) (op_of r)))"
proof (rule keeps_here)
  fix s assume s: "ok hs s"
  obtain cr r where ar: "add_response s k a (crawls s ! c) = (cr, r)" by fastforce
  have "answer_ok (length (node_objects s)) a"
    using a s overlay_ok_length [of hs s] by (auto simp: ok_def intro: answer_ok_mono)
  then have "crawl_ok s cr" if "c < length (crawls s)"
    using crawl_ok_add_response [OF crawl_at [OF s that], of a k] ar by simp
  then have "ok hs (fst (update_crawl c (\<lambda>_. cr) s))" by (intro ok_update_crawl [OF s])
  then show "ok hs (fst ((let (cr, r) = add_response s k a (crawls s ! c) in op_then (update_crawl c (\<lambda>_. cr)) (op_of r)) s))"
    by (simp add: ar ok_then keeps_of)
qed

lemma future_at:
  "ok hs s \<Longrightarrow> hs = map mid (node_objects s) \<Longrightarrow> future_state s f = ResultFuture (FindValue a) \<Longrightarrow>
     answer_ok (length hs) a"
  using futures_ok [of hs s] by (auto simp: list_all_length future_state_def split: if_splits)

lemma keeps_contact_node:
  assumes t: "contact_of t < length hs"
  shows "keeps (ok hs) (contact_node E now c j t)"
proof (cases t)
  case (StartContact k p)
  then show ?thesis
    using t unfolding contact_node_def
    by (cases p) (auto intro!: keeps_ask_node keeps_state keeps_bind keeps_of keeps_send_find_request keeps_set_contact)
next
  case (AwaitPuncture k f)
  have "keeps (ok hs) (case future_state s f of PendingFuture \<Rightarrow> op_return () | ResultFuture x \<Rightarrow> ask_node E now c j k
      | FailedFuture e \<Rightarrow> op_raise e)" for s
    using t AwaitPuncture by (cases "future_state s f") (auto intro: keeps_ask_node keeps_return keeps_raise)
  then show ?thesis by (simp add: AwaitPuncture contact_node_def keeps_state)
next
  case (AwaitAnswer k f)
  have answered: "keeps (ok hs')
      (op_then (op_bind (table_add now (crawl_table (crawls s ! c)) k) (\<lambda>_. op_return ()))
        (op_then
          (op_state (\<lambda>s. let (cr, r) = add_response s k a (crawls s ! c) in op_then (update_crawl c (\<lambda>_. cr)) (op_of r)))
          (set_contact c j (Contacted k))))"
    if "answer_ok (length hs') a" "k < length hs'" for hs' s a
    using that by (intro keeps_then keeps_bind [OF table_add_keeps] keeps_return keeps_add_response keeps_set_contact) simp_all
  show ?thesis
    unfolding contact_node_def AwaitAnswer contact.case
  proof (rule keeps_known)
    fix s hs' assume s: "ok hs' s" "prefix hs hs'" "hs' = map mid (node_objects s)"
    have k: "k < length hs'" using t AwaitAnswer prefix_length_le [OF s(2)] by simp
    show "keeps (ok hs')
      (case future_state s f of
         PendingFuture \<Rightarrow> op_return ()
       | ResultFuture (FindValue a) \<Rightarrow>
           op_then (op_bind (table_add now (crawl_table (crawls s ! c)) k) (\<lambda>_. op_return ()))
             (op_then
               (op_state (\<lambda>s. let (cr, r) = add_response s k a (crawls s ! c) in op_then (update_crawl c (\<lambda>_. cr)) (op_of r)))
               (set_contact c j (Contacted k)))
       | ResultFuture _ \<Rightarrow> set_contact c j (Contacted k)
       | FailedFuture e \<Rightarrow> op_raise e)"
      by (intro keeps_dht_future keeps_future_value keeps_return keeps_raise answered keeps_set_contact)
        (use k future_at [OF s(1,3)] in simp_all)
  qed
next
  case (Contacted k)
  then show ?thesis by (simp add: contact_node_def keeps_return)
qed

lemma keeps_contact_step: "keeps (ok hs) (contact_step E now c j)"
  unfolding contact_step_def
proof (rule keeps_known)
  fix s hs' assume s: "ok hs' s" "hs' = map mid (node_objects s)"
  have "contact_of (crawl_tasks (crawls s ! c) ! j) < length hs'"
    if "c < length (crawls s)" "j < length (crawl_tasks (crawls s ! c))"
  proof -
    have "contact_of ` set (crawl_tasks (crawls s ! c)) \<subseteq> {..<length (node_objects s)}"
      using crawl_at [OF s(1) that(1)] by (simp add: crawl_ok_def)
    then show ?thesis using nth_mem [OF that(2)] s(2) by auto
  qed
  then show "keeps (ok hs')
      (if c < length (crawls s) \<and> j < length (crawl_tasks (crawls s ! c)) then
         let t = crawl_tasks (crawls s ! c) ! j
         in op_catch (contact_node E now c j t) (\<lambda>_. set_contact c j (Contacted (contact_of t)))
       else op_return ())"
    unfolding Let_def by (intro keeps_if keeps_catch keeps_contact_node keeps_set_contact keeps_return) simp_all
qed

lemma keeps_crawl_stage: "keeps (ok hs) (update_crawl c (\<lambda>cr. cr\<lparr>crawl_stage := x\<rparr>))"
  by (rule keeps_update_crawl) (simp add: crawl_ok_def)

lemma keeps_finish_crawl: "keeps (ok hs) (finish_crawl E now c)"
  unfolding finish_crawl_def Let_def end_crawl_def
  by (auto intro!: keeps_state keeps_if keeps_crawl_stage keeps_bind [OF keeps_of] keeps_bind [OF keeps_store_on_nodes]
      split: option.split list.split)

lemma keeps_crawl_continue: "keeps (ok hs) (crawl_continue E now c)"
  unfolding crawl_continue_def
proof (rule keeps_here)
  fix s assume s: "ok hs s"
  let ?cr = "crawls s ! c"
  let ?filled = "fill_tasks s (?cr\<lparr>crawl_tasks := filter (\<lambda>t. \<not> is_contacted t) (crawl_tasks ?cr)\<rparr>)"
  have "ok hs (fst (update_crawl c (\<lambda>_. ?filled) s))"
  proof (rule ok_update_crawl [OF s])
    assume "c < length (crawls s)"
    from crawl_at [OF s this] show "crawl_ok s ?filled"
      by (intro crawl_ok_fill_tasks) (auto simp: crawl_ok_def intro: order.trans [OF length_filter_le])
  qed
  then show "ok hs (fst ((let cr = ?cr; cr = fill_tasks s (cr\<lparr>crawl_tasks := filter (\<lambda>t. \<not> is_contacted t) (crawl_tasks cr)\<rparr>)
       in op_then (update_crawl c (\<lambda>_. cr))
            (op_when (crawl_tasks cr = []) (op_catch (finish_crawl E now c) (\<lambda>e. end_crawl c (raise e))))) s))"
    unfolding end_crawl_def Let_def by (intro ok_then keeps_when keeps_catch keeps_finish_crawl keeps_crawl_stage)
qed

lemma keeps_crawl_step: "keeps (ok hs) (crawl_step E now c)"
  unfolding crawl_step_def Let_def end_crawl_def
  by (intro keeps_state keeps_if keeps_return)
    (auto intro!: keeps_when keeps_crawl_stage keeps_crawl_continue keeps_return split: crawl_stage.split)

section \<open>Searches and maintenance\<close>

lemma keeps_new_crawls: "keeps (ok hs) (new_crawls now key force off cs)"
  by (induction cs) (auto intro!: keeps_return keeps_bind keeps_new_crawl)

lemma keeps_searches: "keeps (ok hs) (op_modify (\<lambda>s. s\<lparr>searches := g s\<rparr>))"
  by (rule keeps_frame) (simp add: frame_def)

lemma keeps_find_with: "keeps (ok hs) (find_with now key force off g)"
  unfolding find_with_def by (intro keeps_state keeps_bind [OF keeps_new_crawls] keeps_searches)

lemma keeps_find: "keeps (ok hs) (find_values now key off g)" "keeps (ok hs) (find_nodes now key g)"
  by (simp_all add: find_values_def find_nodes_def keeps_find_with)

lemma keeps_store_value: "keeps (ok hs) (store_value E now key data sign)"
  unfolding store_value_def by (intro keeps_bind [OF keeps_of] keeps_if keeps_raise keeps_find)

lemma keeps_refresh_next: "keeps (ok hs) (refresh_next E now t todo)"
proof (induction todo)
  case (Cons bs todo)
  have "frame (\<lambda>s. s\<lparr>drawn := Suc (drawn s)\<rparr>)" by (simp add: frame_def)
  then have "keeps (ok hs) (refresh_id E bs)"
    unfolding refresh_id_def Let_def by (intro keeps_state keeps_then keeps_frame keeps_of)
  then show ?case
    unfolding refresh_next.simps
    by (intro keeps_catch keeps_bind keeps_find keeps_if keeps_then keeps_for keeps_touch_bucket keeps_raise Cons)
qed (simp add: keeps_return)

lemma keeps_value_maintenance: "keeps (ok hs) (value_maintenance now)"
  unfolding value_maintenance_def
proof (rule keeps_modify)
  fix s assume "ok hs s"
  then show "ok hs (s\<lparr>storages := map (\<lambda>(c, st). (c, storage_clean now st)) (storages s)\<rparr>)"
    using X_clean [of s now] overlay_ok_cong [of "s\<lparr>storages := map (\<lambda>(c, st). (c, storage_clean now st)) (storages s)\<rparr>" s hs]
    by (simp add: ok_def)
qed

lemma keeps_token_maintenance: "keeps (ok hs) (token_maintenance now secret)"
  unfolding token_maintenance_def by (rule keeps_frame) (simp add: frame_def Let_def)

end

context dht_invariant
begin

section \<open>Peers\<close>

lemma keeps_read_store: "keeps (ok hs) (read_store key)"
proof (rule keepsI)
  fix s assume s: "ok hs s"
  then show "ok hs (fst (read_store key s))"
    using X_peer_read [of s key]
      overlay_ok_cong [of "s\<lparr>peer_store := dict_set key (peers_at key (peer_store s)) (peer_store s)\<rparr>" s hs]
    by (simp add: ok_def read_store_def op_state_def op_then_def op_bind_def op_modify_def op_return_def)
qed

lemma keeps_read_store_for_me: "keeps (ok hs) (read_store_for_me key)"
  unfolding read_store_for_me_def by (intro keeps_state keeps_then keeps_return keeps_frame) (simp add: frame_def)

lemma keeps_discovery_pings:
  "keeps (ok hs) (discovery_on_ping_request E now p i)" "keeps (ok hs) (discovery_on_ping_response now p i)"
  unfolding discovery_on_ping_request_def discovery_on_ping_response_def
  by (intro keeps_then keeps_on_ping_request keeps_answered keeps_state keeps_option keeps_return keeps_update_node; simp)+

lemma keeps_copy_nodes: "keeps (ok hs) (copy_nodes E now ks)"
  by (induction ks)
    (auto intro!: keeps_return keeps_state keeps_prod keeps_bind [OF gives_keeps [OF gives_new_node]] keeps_bind)

lemma keeps_send_store_peer_requests: "keeps (ok hs) (send_store_peer_requests E now key ks)"
  by (induction ks)
    (auto intro!: keeps_return keeps_state keeps_bind keeps_of keeps_option keeps_prod keeps_new_request keeps_then keeps_send_node)

lemma keeps_send_store_peer_request: "keeps (ok hs) (send_store_peer_request E now key ks)"
  unfolding send_store_peer_request_def
  by (intro keeps_bind keeps_if keeps_return keeps_read_store_for_me keeps_state keeps_copy_nodes keeps_raise
      keeps_send_store_peer_requests)

lemma keeps_send_connect_peer_requests: "keeps (ok hs) (send_connect_peer_requests E now key ks)"
  by (induction ks)
    (auto intro!: keeps_return keeps_state keeps_bind keeps_prod keeps_new_request keeps_then keeps_send_node)

lemma keeps_send_connect_peer_request: "keeps (ok hs) (send_connect_peer_request E now key ks)"
  unfolding send_connect_peer_request_def
  by (intro keeps_bind [OF keeps_copy_nodes] keeps_if keeps_raise keeps_send_connect_peer_requests)

lemma keeps_store_peer: "keeps (ok hs) (store_peer E now)"
  unfolding store_peer_def
  by (intro keeps_bind [OF keeps_read_store_for_me] keeps_if keeps_return keeps_catch keeps_find keeps_raise)

lemma keeps_new_search: "keeps (ok hs) (new_search g stage)" "keeps (ok hs) (end_search i r)" "keeps (ok hs) (await_requests i fs)"
  unfolding new_search_def end_search_def await_requests_def by (rule keeps_searches)+

lemma keeps_connect_peer: "keeps (ok hs) (connect_peer E now m p)"
  unfolding connect_peer_def
  by (intro keeps_state keeps_option keeps_new_search keeps_find keeps_bind [OF gives_keeps [OF gives_new_node]]
      keeps_bind [OF keeps_ping])

text \<open>A peer is stored under the hash of its own key only.\<close>

lemma ok_mid: "ok hs s \<Longrightarrow> k < length hs \<Longrightarrow> k < length (node_objects s) \<and> mid (node_objects s ! k) = hs ! k"
  using overlay_ok_mid overlay_ok_length by (fastforce simp: ok_def)


lemma ok_peer_add:
  assumes s: "ok hs s" and k: "k < length hs" "hs ! k = key" and n: "keeps (ok hs) n"
  shows "ok hs (fst (op_bind (read_store key) (\<lambda>ks. op_then
    (op_when (\<not> node_in s k ks) (op_modify (\<lambda>s. s\<lparr>peer_store := dict_set key (ks @ [k]) (peer_store s)\<rparr>))) n) s))"
proof -
  let ?ks = "peers_at key (peer_store s)"
  let ?s = "s\<lparr>peer_store := dict_set key ?ks (peer_store s)\<rparr>"
  have read: "read_store key s = (?s, return ?ks)"
    by (simp add: read_store_def op_state_def op_then_def op_bind_def op_modify_def op_return_def)
  have s1: "ok hs ?s" using keepsD [OF keeps_read_store s, of key] read by simp
  note m = ok_mid [OF s1 k(1)]
  have "ok hs (fst (op_when (\<not> node_in s k ?ks) (op_modify (\<lambda>s. s\<lparr>peer_store := dict_set key (?ks @ [k]) (peer_store s)\<rparr>)) ?s))"
  proof (cases "node_in s k ?ks")
    case True then show ?thesis using s1 by (simp add: op_when_def op_return_def)
  next
    case False
    then have new: "\<not> node_in ?s k (peers_at key (peer_store ?s))" by (simp add: node_in_def peers_at_def dict_simps)
    have at: "peers_at key (peer_store ?s) = ?ks" by (simp add: peers_at_def dict_simps)
    have "X ?s" using s1 by (simp add: ok_def)
    from X_peer_add [OF this _ _ new] m k(2)
    have "X (?s\<lparr>peer_store := dict_set key (?ks @ [k]) (peer_store ?s)\<rparr>)" unfolding at by blast
    then show ?thesis
      using False s1 overlay_ok_cong [of "?s\<lparr>peer_store := dict_set key (?ks @ [k]) (peer_store ?s)\<rparr>" ?s hs]
      by (simp add: ok_def op_when_def op_modify_def)
  qed
  then have "ok hs (fst (op_then (op_when (\<not> node_in s k ?ks)
      (op_modify (\<lambda>s. s\<lparr>peer_store := dict_set key (?ks @ [k]) (peer_store s)\<rparr>))) n ?s))"
    by (rule ok_then) (rule n)
  then show ?thesis by (simp add: op_bind_def read)
qed

lemma keeps_on_store_peer_request:
  assumes p: "mid p = de_key_hash E (public_key_bin p)"
  shows "keeps (ok hs) (on_store_peer_request E now p i token key)"
  unfolding on_store_peer_request_def
proof (intro keeps_gives_bind [OF gives_new_node] keeps_then keeps_update_node)
  fix hs' k
  assume k: "k < length hs' \<and> (\<exists>b. arg_key E (KeyObject (public_key_bin p)) = return b \<and> hs' ! k = de_key_hash E b)"
  then have "hs' ! k = mid p" by (simp add: arg_key_def p)
  then show "keeps (ok hs') (op_state (\<lambda>s.
      if \<not> check_token E (node_objects s ! k) token s then op_return ()
      else if key \<noteq> mid p then op_return ()
      else op_bind (read_store key) (\<lambda>ks.
        op_then (op_when (\<not> node_in s k ks) (op_modify (\<lambda>s. s\<lparr>peer_store := dict_set key (ks @ [k]) (peer_store s)\<rparr>)))
          (send_node k (StorePeerResponse i)))))"
    using k by (intro keeps_here) (auto simp: op_return_def intro: ok_peer_add keeps_send_node)
qed simp

lemma keeps_on_store_peer_response: "keeps (ok hs) (on_store_peer_response i)"
proof -
  have "keeps (ok hs) (op_modify (\<lambda>s. s\<lparr>store_for_me := g s\<rparr>))" for g
    by (rule keeps_frame) (simp add: frame_def)
  then show ?thesis
    unfolding on_store_peer_response_def
    by (auto intro!: keeps_bind [OF keeps_pop_request] keeps_return keeps_raise keeps_bind [OF keeps_read_store_for_me]
        keeps_state keeps_then keeps_when keeps_set_future split: option.split request_params.split)
qed

lemma keeps_on_connect_peer_request: "keeps (ok hs) (on_connect_peer_request p i lan key)"
  unfolding on_connect_peer_request_def Let_def
  by (intro keeps_bind [OF keeps_read_store] keeps_state keeps_then keeps_puncture keeps_send_to)

lemma keeps_on_connect_peer_response: "keeps (ok hs) (on_connect_peer_response E now i ns)"
  unfolding on_connect_peer_response_def
  by (intro keeps_bind [OF gives_keeps [OF gives_new_nodes]] keeps_bind [OF keeps_pop_request] keeps_option keeps_return
      keeps_set_future) simp

lemma keeps_ping_all: "keeps (ok hs) (ping_all E now)"
proof -
  have me: "keeps (ok hs) (op_modify (\<lambda>s. s\<lparr>store_for_me := g s\<rparr>))" for g
    by (rule keeps_frame) (simp add: frame_def)
  have st: "keeps (ok hs) (op_modify (\<lambda>s. s\<lparr>peer_store := map (\<lambda>(key, ks). (key, filter (f s) ks)) (peer_store s)\<rparr>))" for f
  proof (rule keeps_modify)
    fix s assume "ok hs s"
    then show "ok hs (s\<lparr>peer_store := map (\<lambda>(key, ks). (key, filter (f s) ks)) (peer_store s)\<rparr>)"
      using X_peer_filter [of s "f s"]
        overlay_ok_cong [of "s\<lparr>peer_store := map (\<lambda>(key, ks). (key, filter (f s) ks)) (peer_store s)\<rparr>" s hs]
      by (simp add: ok_def)
  qed
  show ?thesis
    unfolding ping_all_def ping_stored_def Let_def
    by (intro keeps_then keeps_state keeps_for keeps_prod me st keeps_if keeps_return keeps_when keeps_bind [OF keeps_ping])
qed

section \<open>After a search\<close>

lemma keeps_search_found: "keeps (ok hs) (search_found E now i g r)"
  unfolding search_found_def
  by (auto intro!: keeps_new_search keeps_bind [OF keeps_store_on_nodes] keeps_then keeps_for keeps_touch_bucket
      keeps_refresh_next keeps_bind [OF keeps_send_store_peer_request] keeps_bind [OF keeps_send_connect_peer_request]
      split: goal.split)

lemma keeps_search_failed: "keeps (ok hs) (search_failed E now i g e)"
  unfolding search_failed_def
  by (auto intro!: keeps_new_search keeps_then keeps_for keeps_touch_bucket keeps_refresh_next
      split: goal.split py_error.split)

lemma keeps_requests_done: "keeps (ok hs) (requests_done now i g fs)"
  unfolding requests_done_def Let_def
  by (auto intro!: keeps_state keeps_new_search keeps_if keeps_then keeps_find
      split: goal.split list.split dht_future.split)

lemma keeps_search_step: "keeps (ok hs) (search_step E now i)"
  unfolding search_step_def Let_def
  by (auto intro!: keeps_state keeps_if keeps_return keeps_when keeps_requests_done keeps_search_failed keeps_catch
      keeps_search_found split: search_stage.split list.split)

section \<open>Churn and events\<close>

lemma keeps_update_network: "keeps (ok hs) (update_network f)"
  unfolding update_network_def by (rule keeps_frame) (simp add: frame_def)

lemma keeps_get_peers: "keeps (ok hs) (get_peers E)"
proof -
  have "keeps (ok hs) (op_modify (\<lambda>s. s\<lparr>dht_network := net\<rparr>))" for net
    by (rule keeps_frame) (simp add: frame_def)
  then show ?thesis unfolding get_peers_def Let_def by (intro keeps_state keeps_prod keeps_then keeps_return)
qed

lemma keeps_churn_remove_bad: "keeps (ok hs) (churn_remove_bad now c)"
  unfolding churn_remove_bad_def
proof (rule keeps_here)
  fix s assume s: "ok hs s"
  show "ok hs (fst ((case dict_get (routing_tables s) c of
         None \<Rightarrow> op_return ()
       | Some rt \<Rightarrow>
           (case remove_bad_nodes now rt of
              (rt', bad) \<Rightarrow> op_then (op_modify (set_table c rt')) (op_for remove_node_peer bad))) s))"
  proof (cases "dict_get (routing_tables s) c")
    case None then show ?thesis using s by (simp add: op_return_def)
  next
    case (Some rt)
    obtain rt' bad where r: "remove_bad_nodes now rt = (rt', bad)" by fastforce
    have "object_step s (set_table c rt' s)"
      using remove_bad_step [OF _ Some, of now] s r by (simp add: ok_def overlay_ok_def)
    then have "ok hs (set_table c rt' s)"
      using X_other [of s "set_table c rt' s"] overlay_ok_step [of hs s "set_table c rt' s"] s
      by (auto simp: ok_def object_step_def set_table_def same_objects_def intro: overlay_ok_less)
    then show ?thesis
      using Some r unfolding remove_node_peer_def
      by (auto intro!: ok_then keeps_for keeps_update_network simp: op_modify_def)
  qed
qed

lemma keeps_churn_add_peer: "keeps (ok hs) (churn_add_peer E now p)"
  unfolding churn_add_peer_def Let_def
  by (intro keeps_state keeps_if keeps_return keeps_gives_bind [OF gives_new_node] keeps_bind [OF keeps_routing_table]
      keeps_bind [OF keeps_of] keeps_bind [OF table_add_keeps] keeps_when keeps_update_network)
    (auto dest!: prefix_length_le)

lemma keeps_take_step: "keeps (ok hs) (take_step E now t)"
  unfolding take_step_def churn_verify_def churn_ping_def
  by (intro keeps_state keeps_if keeps_return keeps_then keeps_for keeps_churn_remove_bad keeps_bind [OF keeps_get_peers]
      keeps_churn_add_peer keeps_bind [OF keeps_of] keeps_update_network keeps_when keeps_bind [OF keeps_ping])

lemma keeps_dht_step: "event_ok E ev \<Longrightarrow> keeps (ok hs) (dht_step E now ev)"
proof -
  assume ev: "event_ok E ev"
  have "keeps (ok hs) (on_dht_message E now p m)" if "mid p = de_key_hash E (public_key_bin p)" for p m
    unfolding on_dht_message_def
    by (cases m) (simp_all add: keeps_discovery_pings keeps_on_store_request keeps_answered keeps_on_find_request
        keeps_on_find_response keeps_on_store_peer_request [OF that] keeps_on_store_peer_response
        keeps_on_connect_peer_request keeps_on_connect_peer_response)
  moreover have "keeps (ok hs) (op_modify (\<lambda>s. s\<lparr>my_addresses := a, my_estimated_wan := b, my_estimated_lan := c, dht_network := d\<rparr>))"
    for a b c d
    by (rule keeps_frame) (simp add: frame_def)
  ultimately show ?thesis
    unfolding dht_step_def using ev
    by (cases ev) (simp_all add: event_ok_def keeps_on_node_discovered keeps_request_timer keeps_contact_step keeps_crawl_step
        keeps_search_step keeps_find keeps_store_value keeps_store_peer keeps_connect_peer keeps_token_maintenance
        node_maintenance_def keeps_state keeps_refresh_next keeps_value_maintenance keeps_ping_all keeps_take_step)
qed

lemma reachable_ok:
  assumes "dht_reachable E s" "sha1_hashes E"
  shows "ok [] s"
  using assms(1)
proof induction
  case (start secret addrs wan lan)
  then show ?case
    using X_start [OF assms(2)]
    by (simp add: ok_def overlay_ok_def new_dht_def dht_ok_def objects_ok_def)
next
  case (step s ev now)
  then show ?case using keepsD [OF keeps_dht_step] by blast
qed

end

end
