(* ===== verification/DHT_Properties.thy ===== *)
theory DHT_Properties
  imports DHT_Invariant
begin

text \<open>
  The properties of the DHT overlay: interpretations of \<open>dht_invariant\<close> for its tables, its stored values and its
  stored peers, and the end of every crawl.
\<close>

section \<open>The invariants of the overlay\<close>

interpretation tables: dht_invariant E "\<lambda>s. sha1_hashes E" for E
  by unfold_locales simp_all

text \<open>
  C34: in every state the DHT overlay can reach, every routing table is well formed and holds the node objects as they are,
  so that adding any of them ends: messages, timeouts, crawls and churn can come in any order.
\<close>

theorem overlay_tables_stay_well_formed:
  assumes "sha1_hashes E" "dht_reachable E s" "dict_get (routing_tables s) c = Some rt"
  shows "rt_wf rt \<and> {n. in_table rt n} \<subseteq> set (node_objects s) \<and>
    (\<forall>n. rt_add now n rt = None \<longrightarrow> n \<notin> set (node_objects s))"
proof -
  have ok: "dht_ok s" using tables.reachable_ok [OF assms(2,1)] by (simp add: tables.ok_def overlay_ok_def)
  then have tab: "table_ok s rt" using assms(3) by (rule dht_ok_table)
  have "in_table rt n \<Longrightarrow> n \<in> set (node_objects s)" for n
    using tab nth_mem [of "node_object n" "node_objects s"] by (auto simp: table_ok_def)
  moreover have "n \<notin> set (node_objects s)" if none: "rt_add now n rt = None" for n
  proof
    assume "n \<in> set (node_objects s)"
    then obtain k where k: "k < length (node_objects s)" "n = node_objects s ! k" by (auto simp: in_set_conv_nth)
    show False using table_add_some [OF ok k(1) assms(3), of now] k(2) none by (metis option.distinct(1))
  qed
  ultimately show ?thesis using tab unfolding table_ok_def by blast
qed


section \<open>Stored values are authentic\<close>

definition filed_id :: "dht_env \<Rightarrow> bytes \<Rightarrow> bytes option \<Rightarrow> bytes" where
  "filed_id E value signer =
     (case signer of None \<Rightarrow> de_sha1 E value | Some k \<Rightarrow> if k = [] \<or> de_sha1 E k = [] then de_sha1 E value else de_sha1 E k)"

definition authentic :: "dht_env \<Rightarrow> dht_value \<Rightarrow> bool" where
  "authentic E v \<longleftrightarrow> (\<exists>d signer. unserialize_value E (value_data v) = return (Some (d, signer, version v)) \<and>
     value_id v = filed_id E (value_data v) signer)"

definition stored_values :: "storage \<Rightarrow> dht_value set" where
  "stored_values st = \<Union> (set ` snd ` set st)"

lemma stored_values_set: "stored_values (dict_set key vs st) \<subseteq> set vs \<union> stored_values st"
  by (fastforce simp: stored_values_def dest: stored_after_set)

lemma items_at_stored: "set (items_at key st) \<subseteq> stored_values st"
proof (cases "dict_get st key")
  case (Some vs)
  then have "vs \<in> snd ` set st" by (force dest: map_of_SomeD)
  then show ?thesis using Some by (auto simp: items_at_def stored_values_def)
qed (simp add: items_at_def)

lemma set_pop_at: "set (pop_at i xs) \<subseteq> set xs"
  by (auto simp: pop_at_def dest: in_set_takeD in_set_dropD)

lemma stored_values_put:
  assumes "v \<in> stored_values (storage_put sha1 now key d i age ver st)"
  shows "v = new_value now (arg_id sha1 d i) d age ver \<or> v \<in> stored_values st"
proof -
  let ?new = "new_value now (arg_id sha1 d i) d age ver"
  have "\<exists>vs. storage_put sha1 now key d i age ver st = dict_set key vs st \<and> set vs \<subseteq> insert ?new (set (items_at key st))"
  proof (cases "index_of ?new (items_at key st)")
    case (Inl e)
    then show ?thesis
      unfolding storage_put_def Let_def arg_id_def [symmetric]
      by (intro exI [of _ "sort_key (owner_rank key) (?new # items_at key st)"]) (simp del: sort_key_simps)
  next
    case (Inr k)
    show ?thesis
    proof (cases "version ?new \<ge> version (items_at key st ! k)")
      case True
      with Inr show ?thesis
        unfolding storage_put_def Let_def arg_id_def [symmetric]
        using set_pop_at [of k "items_at key st"]
        by (intro exI [of _ "sort_key (owner_rank key) (?new # pop_at k (items_at key st))"]) (auto simp del: sort_key_simps)
    next
      case False
      with Inr show ?thesis
        unfolding storage_put_def Let_def arg_id_def [symmetric]
        by (intro exI [of _ "items_at key st"]) auto
    qed
  qed
  then show ?thesis using assms stored_values_set [of key _ st] items_at_stored [of key st] by fastforce
qed

definition values_ok :: "dht_env \<Rightarrow> dht \<Rightarrow> bool" where
  "values_ok E s \<longleftrightarrow> (\<forall>st \<in> snd ` set (storages s). \<forall>v \<in> stored_values st. authentic E v)"

lemma values_ok_set:
  assumes "values_ok E s" "\<And>v. v \<in> stored_values st \<Longrightarrow> authentic E v"
  shows "values_ok E (s\<lparr>storages := dict_set c st (storages s)\<rparr>)"
  using assms set_dict_set_values [of _ c st "storages s"] by (fastforce simp: values_ok_def)

lemma values_ok_at: "values_ok E s \<Longrightarrow> dict_get (storages s) c = Some st \<Longrightarrow> v \<in> stored_values st \<Longrightarrow> authentic E v"
  by (force simp: values_ok_def dest: map_of_SomeD)

lemma set_clean_rev: "set (clean_rev now vs) \<subseteq> set vs"
  by (induction vs) auto

lemma stored_values_clean: "stored_values (storage_clean now st) \<subseteq> stored_values st"
proof
  fix v assume "v \<in> stored_values (storage_clean now st)"
  then obtain key vs where "(key, vs) \<in> set st" "v \<in> set (clean_rev now (rev vs))"
    by (auto simp: stored_values_def storage_clean_def)
  then show "v \<in> stored_values st" using set_clean_rev [of now "rev vs"] by (force simp: stored_values_def)
qed

interpretation stored: dht_invariant E "\<lambda>s. sha1_hashes E \<and> values_ok E s" for E
proof unfold_locales
  fix s v d pk ver i c st now key age
  assume s: "sha1_hashes E \<and> values_ok E s"
    and u: "unserialize_value E v = return (Some (d, pk, ver))"
    and i: "i = (case pk of None \<Rightarrow> None | Some b \<Rightarrow> if b = [] then None else Some (de_sha1 E b))"
    and st: "dict_get (storages s) c = Some st"
  have "authentic E (new_value now (arg_id (de_sha1 E) v i) v age ver)"
    unfolding authentic_def
    by (rule exI [of _ d], rule exI [of _ pk])
      (simp add: new_value_def u i arg_id_def filed_id_def split: option.split)
  then have "authentic E w" if "w \<in> stored_values (storage_put (de_sha1 E) now key v i age ver st)" for w
    using stored_values_put [OF that] values_ok_at [OF _ st] s by blast
  then show "sha1_hashes E \<and>
      values_ok E (s\<lparr>storages := dict_set c (storage_put (de_sha1 E) now key v i age ver st) (storages s)\<rparr>)"
    using s values_ok_set by blast
next
  fix s c assume "sha1_hashes E \<and> values_ok E s"
  then show "sha1_hashes E \<and> values_ok E (s\<lparr>storages := dict_set c [] (storages s)\<rparr>)"
    using values_ok_set [of E s "[]" c] by (simp add: stored_values_def)
next
  fix s now assume "sha1_hashes E \<and> values_ok E s"
  then show "sha1_hashes E \<and> values_ok E (s\<lparr>storages := map (\<lambda>(c, st). (c, storage_clean now st)) (storages s)\<rparr>)"
    using stored_values_clean [of now] by (fastforce simp: values_ok_def)
qed (auto simp: values_ok_def new_dht_def)


section \<open>Peers are stored under their own key hash\<close>

definition peers_ok :: "dht \<Rightarrow> bool" where
  "peers_ok s \<longleftrightarrow> (\<forall>(key, ks) \<in> set (peer_store s).
     (\<forall>k \<in> set ks. k < length (node_objects s) \<and> mid (node_objects s ! k) = key) \<and> distinct (map (node_key s) ks))"

lemma peers_okD:
  "peers_ok s \<Longrightarrow> (key, ks) \<in> set (peer_store s) \<Longrightarrow>
     (\<forall>k \<in> set ks. k < length (node_objects s) \<and> mid (node_objects s ! k) = key) \<and> distinct (map (node_key s) ks)"
  unfolding peers_ok_def by blast

lemma peers_ok_at:
  assumes "peers_ok s"
  shows "(\<forall>k \<in> set (peers_at key (peer_store s)). k < length (node_objects s) \<and> mid (node_objects s ! k) = key) \<and>
    distinct (map (node_key s) (peers_at key (peer_store s)))"
proof (cases "dict_get (peer_store s) key")
  case (Some ks)
  show ?thesis using peers_okD [OF assms map_of_SomeD [OF Some]] unfolding peers_at_def Some option.case .
qed (simp add: peers_at_def)

lemma peers_ok_set:
  assumes "peers_ok s" "\<And>k. k \<in> set ks \<Longrightarrow> k < length (node_objects s) \<and> mid (node_objects s ! k) = key"
    "distinct (map (node_key s) ks)"
  shows "peers_ok (s\<lparr>peer_store := dict_set key ks (peer_store s)\<rparr>)"
proof -
  have k: "node_key (s\<lparr>peer_store := dict_set key ks (peer_store s)\<rparr>) = node_key s" by (rule node_key_cong) simp
  show ?thesis
    unfolding peers_ok_def k
  proof (intro ballI, clarify)
    fix key' ks' assume "(key', ks') \<in> set (peer_store (s\<lparr>peer_store := dict_set key ks (peer_store s)\<rparr>))"
    then have "(key', ks') = (key, ks) \<or> (key', ks') \<in> set (peer_store s)" using set_dict_set [of key' ks' key ks] by simp
    then show "(\<forall>k \<in> set ks'. k < length (node_objects (s\<lparr>peer_store := dict_set key ks (peer_store s)\<rparr>)) \<and>
        mid (node_objects (s\<lparr>peer_store := dict_set key ks (peer_store s)\<rparr>) ! k) = key') \<and> distinct (map (node_key s) ks')"
      using assms(2,3) peers_okD [OF assms(1)] by auto
  qed
qed

lemma peers_ok_grows:
  assumes "overlay_grows s s'" "peer_store s' = peer_store s" "peers_ok s"
  shows "peers_ok s'"
  unfolding peers_ok_def assms(2)
proof (intro ballI, clarify)
  fix key ks assume "(key, ks) \<in> set (peer_store s)"
  then have ks: "\<forall>k \<in> set ks. k < length (node_objects s) \<and> mid (node_objects s ! k) = key" "distinct (map (node_key s) ks)"
    using assms(3) by (auto simp: peers_ok_def)
  have same: "same_node_keys (node_objects s' ! k) (node_objects s ! k)" if "k \<in> set ks" for k
    using assms(1) ks(1) that by (simp add: overlay_grows_def)
  then have keys: "map (node_key s') ks = map (node_key s) ks" by (simp add: node_key_def same_node_keys_def)
  have "distinct (map (node_key s') ks)" using ks(2) unfolding keys .
  moreover have "length (node_objects s) \<le> length (node_objects s')" using assms(1) by (simp add: overlay_grows_def)
  ultimately show "(\<forall>k \<in> set ks. k < length (node_objects s') \<and> mid (node_objects s' ! k) = key) \<and> distinct (map (node_key s') ks)"
    using ks same by (auto simp: same_node_keys_def)
qed

lemma peers_ok_new: "peers_ok (new_dht E secret addrs wan lan)"
  by (simp add: peers_ok_def new_dht_def)

lemma peers_ok_storages: "peers_ok s \<Longrightarrow> peers_ok (s\<lparr>storages := x\<rparr>)"
  by (rule peers_ok_grows [of s]) (simp_all add: overlay_grows_cong)

interpretation peers: dht_invariant E "\<lambda>s. sha1_hashes E \<and> peers_ok s" for E
proof unfold_locales
  fix s k key
  assume s: "sha1_hashes E \<and> peers_ok s" and k: "k < length (node_objects s)" "mid (node_objects s ! k) = key"
    and new: "\<not> node_in s k (peers_at key (peer_store s))"
  have "node_key s k \<notin> node_key s ` set (peers_at key (peer_store s))"
    using new by (auto simp: node_in_def list_ex_iff peer_eq_def node_key_def)
  then have "distinct (map (node_key s) (peers_at key (peer_store s) @ [k]))"
    using peers_ok_at [of s key] s by simp
  then show "sha1_hashes E \<and> peers_ok (s\<lparr>peer_store := dict_set key (peers_at key (peer_store s) @ [k]) (peer_store s)\<rparr>)"
    using s k peers_ok_at [of s key] by (intro conjI peers_ok_set) auto
next
  fix s key assume s: "sha1_hashes E \<and> peers_ok s"
  then show "sha1_hashes E \<and> peers_ok (s\<lparr>peer_store := dict_set key (peers_at key (peer_store s)) (peer_store s)\<rparr>)"
    using peers_ok_at [of s key] by (intro conjI peers_ok_set) auto
next
  fix s f assume s: "sha1_hashes E \<and> peers_ok s"
  have k: "node_key (s\<lparr>peer_store := map (\<lambda>(key, ks). (key, filter f ks)) (peer_store s)\<rparr>) = node_key s"
    by (rule node_key_cong) simp
  show "sha1_hashes E \<and> peers_ok (s\<lparr>peer_store := map (\<lambda>(key, ks). (key, filter f ks)) (peer_store s)\<rparr>)"
    unfolding peers_ok_def k
  proof (intro conjI ballI, use s in simp, clarify)
    fix key ks
    assume "(key, ks) \<in> set (peer_store (s\<lparr>peer_store := map (\<lambda>(key, ks). (key, filter f ks)) (peer_store s)\<rparr>))"
    then obtain ks' where "(key, ks') \<in> set (peer_store s)" "ks = filter f ks'" by auto
    then show "(\<forall>k \<in> set ks. k < length (node_objects (s\<lparr>peer_store := map (\<lambda>(key, ks). (key, filter f ks)) (peer_store s)\<rparr>)) \<and>
        mid (node_objects (s\<lparr>peer_store := map (\<lambda>(key, ks). (key, filter f ks)) (peer_store s)\<rparr>) ! k) = key) \<and>
      distinct (map (node_key s) ks)"
      using peers_okD [of s key ks'] s by (auto intro: distinct_map_filter)
  qed
qed (auto intro: peers_ok_grows peers_ok_storages peers_ok_new)

text \<open>
  C38: in every reachable state, the peers that are stored under a key hash are different objects of the overlay with that
  key hash: only a peer itself can be stored as reachable under its identity.
\<close>

theorem peers_are_stored_under_their_own_hash:
  assumes "sha1_hashes E" "dht_reachable E s" "dict_get (peer_store s) key = Some ks"
  shows "\<Union> ((\<lambda>k. {mid (node_objects s ! k)}) ` set ks) \<subseteq> {key} \<and> set ks \<subseteq> {..<length (node_objects s)} \<and>
    distinct (map (\<lambda>k. public_key_bin (node_objects s ! k)) ks)"
proof -
  have "peers_ok s" using peers.reachable_ok [OF assms(2,1)] by (simp add: peers.ok_def)
  from peers_okD [OF this map_of_SomeD [OF assms(3)]] show ?thesis
    unfolding node_key_def by blast
qed

section \<open>Every crawl ends\<close>

text \<open>Every task of a crawl has at most four steps, and it takes one of the 24 requests to start one.\<close>

definition task_weight :: "contact \<Rightarrow> nat" where
  "task_weight t = (case t of StartContact _ _ \<Rightarrow> 4 | AwaitPuncture _ _ \<Rightarrow> 3 | AwaitAnswer _ _ \<Rightarrow> 2 | Contacted _ \<Rightarrow> 1)"

definition stage_weight :: "crawl_stage \<Rightarrow> nat" where
  "stage_weight st = (case st of Crawling \<Rightarrow> 2 | Caching _ \<Rightarrow> 1 | CrawlEnded _ \<Rightarrow> 0)"

definition crawl_measure :: "crawl \<Rightarrow> nat" where
  "crawl_measure cr =
     5 * (MAX_CRAWL_REQUESTS - length (nodes_tried cr)) + sum_list (map task_weight (crawl_tasks cr)) + stage_weight (crawl_stage cr)"

text \<open>The futures that a crawl waits for.\<close>

definition awaited :: "crawl \<Rightarrow> nat set" where
  "awaited cr =
     {f. \<exists>k. AwaitPuncture k f \<in> set (crawl_tasks cr) \<or> AwaitAnswer k f \<in> set (crawl_tasks cr)} \<union>
     (case crawl_stage cr of Caching fs \<Rightarrow> set fs | _ \<Rightarrow> {})"

text \<open>An operation that reaches one property when it returns and keeps another one when it raises.\<close>

definition reaches :: "('s \<Rightarrow> bool) \<Rightarrow> ('s \<Rightarrow> bool) \<Rightarrow> ('s, 'a) op \<Rightarrow> bool" where
  "reaches P Q m \<longleftrightarrow> (\<forall>s. P s \<longrightarrow> (case m s of (s', Inl e) \<Rightarrow> P s' | (s', Inr x) \<Rightarrow> Q s'))"

lemma reaches_bind:
  assumes "keeps P m" "\<And>x. reaches P Q (f x)"
  shows "reaches P Q (op_bind m f)"
  unfolding reaches_def
proof (intro allI impI)
  fix s assume "P s"
  then have p: "P (fst (m s))" by (rule keepsD [OF assms(1)])
  then show "case op_bind m f s of (s', Inl e) \<Rightarrow> P s' | (s', Inr x) \<Rightarrow> Q s'"
    using assms(2) by (cases "m s"; cases "snd (m s)") (auto simp: op_bind_def reaches_def split: prod.splits)
qed

lemma reaches_then: "keeps P m \<Longrightarrow> reaches P Q n \<Longrightarrow> reaches P Q (op_then m n)"
  by (simp add: op_then_def reaches_bind)

lemma reaches_state: "(\<And>s. P s \<Longrightarrow> reaches P Q (f s)) \<Longrightarrow> reaches P Q (op_state f)"
  by (simp add: reaches_def op_state_def)

lemma reaches_modify: "(\<And>s. P s \<Longrightarrow> Q (f s)) \<Longrightarrow> reaches P Q (op_modify f)"
  by (simp add: reaches_def op_modify_def)

lemma reaches_raise: "reaches P Q (op_raise e)"
  by (simp add: reaches_def op_raise_def)

lemma reaches_catch:
  assumes "reaches P Q m" "\<And>e. leads P Q (h e)"
  shows "leads P Q (op_catch m h)"
  unfolding leads_def
proof (intro allI impI)
  fix s assume "P s"
  then have "case m s of (s', Inl e) \<Rightarrow> P s' | (s', Inr x) \<Rightarrow> Q s'" using assms(1) by (simp add: reaches_def)
  then show "Q (fst (op_catch m h s))"
    using assms(2) by (cases "m s"; cases "snd (m s)") (auto simp: op_catch_def leads_def)
qed

lemma leads_modify: "(\<And>s. P s \<Longrightarrow> Q (f s)) \<Longrightarrow> leads P Q (op_modify f)"
  by (simp add: leads_def op_modify_def)

subsection \<open>What leaves the crawls alone\<close>

definition calm :: "crawl list \<Rightarrow> dht \<Rightarrow> bool" where
  "calm cs s \<longleftrightarrow> crawls s = cs"

lemma calm_basic:
  "keeps (calm cs) (send_to a m)" "keeps (calm cs) (send_node k m)" "keeps (calm cs) (update_node k f)"
  "keeps (calm cs) (get_storage c)" "keeps (calm cs) (pop_request t i)"
  by (auto simp: calm_def send_to_def send_node_def update_node_def get_storage_def pop_request_def same_objects_def
      intro!: keeps_intros)

lemma calm_new_request: "keeps (calm cs) (new_request E now t k p c d)"
  by (auto simp: calm_def new_request_def Let_def intro!: keeps_intros)

lemma calm_table_add: "keeps (calm cs) (table_add now c k)"
  by (auto simp: calm_def table_add_def set_table_def same_objects_def intro!: keeps_intros)

lemma calm_send_find_request: "keeps (calm cs) (send_find_request E now k key force off)"
  unfolding send_find_request_def by (intro keeps_bind keeps_prod keeps_state keeps_then keeps_return calm_basic calm_new_request)

lemma calm_add_value: "keeps (calm cs) (add_value E now key v c age)"
  unfolding add_value_def Let_def
  by (intro keeps_bind keeps_of keeps_option keeps_prod keeps_return calm_basic keeps_modify) (simp add: calm_def)

lemma calm_send_store_requests: "keeps (calm cs) (send_store_requests E now key values ks)"
  by (induction ks)
    (auto intro!: keeps_return keeps_state keeps_bind keeps_of keeps_option keeps_prod keeps_if keeps_then calm_basic calm_new_request)

lemma calm_store_on_nodes: "keeps (calm cs) (store_on_nodes E now key values ks)"
  unfolding store_on_nodes_def store_locally_def Let_def
  by (intro keeps_if keeps_raise keeps_state keeps_bind keeps_of keeps_then keeps_when keeps_for calm_basic calm_add_value
      calm_send_store_requests keeps_return)

subsection \<open>The step of a task\<close>

text \<open>The crawl \<open>c\<close> has the tries, the stage and the tasks of \<open>cr\<close>, except that the task \<open>j\<close> is one of \<open>T\<close>.\<close>

definition like :: "nat \<Rightarrow> crawl \<Rightarrow> dht \<Rightarrow> bool" where
  "like c cr s \<longleftrightarrow> c < length (crawls s) \<and> nodes_tried (crawls s ! c) = nodes_tried cr \<and>
     crawl_stage (crawls s ! c) = crawl_stage cr \<and> crawl_tasks (crawls s ! c) = crawl_tasks cr"

definition lighter :: "nat \<Rightarrow> crawl \<Rightarrow> dht \<Rightarrow> bool" where
  "lighter c cr s \<longleftrightarrow> c < length (crawls s) \<and> crawl_measure (crawls s ! c) < crawl_measure cr"

lemma like_calm:
  assumes "\<And>cs. keeps (calm cs) m"
  shows "keeps (like c cr) m"
proof (rule keepsI)
  fix s assume "like c cr s"
  moreover have "crawls (fst (m s)) = crawls s" using keepsD [OF assms, of "crawls s" s] by (simp add: calm_def)
  ultimately show "like c cr (fst (m s))" by (simp add: like_def)
qed

lemma sum_list_update_less:
  "j < length xs \<Longrightarrow> f t < (f (xs ! j) :: nat) \<Longrightarrow> sum_list (map f (xs[j := t])) < sum_list (map f xs)"
  by (induction xs arbitrary: j) (auto split: nat.split)

lemma reaches_set_contact:
  assumes "j < length (crawl_tasks cr)" "task_weight t < task_weight (crawl_tasks cr ! j)"
  shows "reaches (like c cr) (lighter c cr) (set_contact c j t)" "leads (like c cr) (lighter c cr) (set_contact c j t)"
proof -
  have "like c cr s \<Longrightarrow> lighter c cr (s\<lparr>crawls := (crawls s)[c := (crawls s ! c)\<lparr>crawl_tasks := (crawl_tasks (crawls s ! c))[j := t]\<rparr>]\<rparr>)" for s
    using sum_list_update_less [where f = task_weight, OF assms] by (simp add: like_def lighter_def crawl_measure_def)
  then show "reaches (like c cr) (lighter c cr) (set_contact c j t)" "leads (like c cr) (lighter c cr) (set_contact c j t)"
    unfolding set_contact_def update_crawl_def by (auto intro: reaches_modify leads_modify)
qed

lemma add_node_same:
  "nodes_tried (fst (add_node s p k cr)) = nodes_tried cr \<and> crawl_stage (fst (add_node s p k cr)) = crawl_stage cr \<and>
   crawl_tasks (fst (add_node s p k cr)) = crawl_tasks cr"
  by (auto simp: add_node_def Let_def split: sum.split bool.split option.split)

lemma add_nodes_same:
  "nodes_tried (fst (add_nodes s sender p ks cr)) = nodes_tried cr \<and> crawl_stage (fst (add_nodes s sender p ks cr)) = crawl_stage cr \<and>
   crawl_tasks (fst (add_nodes s sender p ks cr)) = crawl_tasks cr"
proof (induction ks arbitrary: p cr)
  case (Cons k ks)
  show ?case using add_node_same [of s p k cr] Cons [of "Some sender" "fst (add_node s p k cr)"]
    by (auto split: prod.split sum.split)
qed simp

lemma like_add_response:
  "keeps (like c cr) (op_state (\<lambda>s. let (cr, r) = add_response s k a (crawls s ! c) in op_then (update_crawl c (\<lambda>_. cr)) (op_of r)))"
proof (rule keeps_here)
  fix s assume l: "like c cr s"
  obtain cr' r where ar: "add_response s k a (crawls s ! c) = (cr', r)" by fastforce
  then have "nodes_tried cr' = nodes_tried (crawls s ! c)" "crawl_stage cr' = crawl_stage (crawls s ! c)"
    "crawl_tasks cr' = crawl_tasks (crawls s ! c)"
    using add_nodes_same [of s k None "case a of AnswerNodes ks \<Rightarrow> ks | AnswerValues _ \<Rightarrow> []"
        "(crawls s ! c)\<lparr>responses := responses (crawls s ! c) @ [(k, a)]\<rparr>"]
    by (simp_all add: add_response_def)
  then show "like c cr (fst ((let (cr, r) = add_response s k a (crawls s ! c) in op_then (update_crawl c (\<lambda>_. cr)) (op_of r)) s))"
    using l by (auto simp: ar op_then_def op_bind_def update_crawl_def op_modify_def op_of_def like_def split: sum.split)
qed

lemma reaches_ask_node:
  assumes "j < length (crawl_tasks cr)" "2 < task_weight (crawl_tasks cr ! j)"
  shows "reaches (like c cr) (lighter c cr) (ask_node E now c j k)"
  unfolding ask_node_def Let_def
  by (intro reaches_state reaches_bind [OF like_calm [OF calm_send_find_request]] reaches_set_contact assms)
    (use assms in \<open>simp add: task_weight_def\<close>)

definition pending :: "dht \<Rightarrow> contact \<Rightarrow> bool" where
  "pending s t \<longleftrightarrow> (case t of AwaitPuncture _ f \<Rightarrow> \<not> future_done s f | AwaitAnswer _ f \<Rightarrow> \<not> future_done s f
     | StartContact _ _ \<Rightarrow> False | Contacted _ \<Rightarrow> True)"

lemma reaches_contact_node:
  assumes j: "j < length (crawl_tasks cr)" and t: "t = crawl_tasks cr ! j" and s: "like c cr s" "\<not> pending s t"
  shows "case contact_node E now c j t s of (s', Inl e) \<Rightarrow> like c cr s' | (s', Inr x) \<Rightarrow> lighter c cr s'"
proof -
  have use: "case m s of (s', Inl e) \<Rightarrow> like c cr s' | (s', Inr x) \<Rightarrow> lighter c cr s'"
    if "reaches (like c cr) (lighter c cr) m" for m :: "unit dht_op"
    using that s(1) by (simp add: reaches_def)
  show ?thesis
  proof (cases t)
    case (StartContact k p)
    show ?thesis
    proof (cases p)
      case None
      from StartContact None show ?thesis
        unfolding contact_node_def StartContact contact.case None option.case
        by (intro use reaches_ask_node j) (simp add: t [symmetric] StartContact task_weight_def)
    next
      case (Some q)
      from StartContact Some show ?thesis
        unfolding contact_node_def StartContact contact.case Some option.case
        by (intro use reaches_state reaches_bind [OF keeps_of] reaches_bind [OF like_calm [OF calm_send_find_request]]
            reaches_set_contact j)
          (simp add: t [symmetric] StartContact task_weight_def)
    qed
  next
    case (AwaitPuncture k f)
    have w: "2 < task_weight (crawl_tasks cr ! j)" by (simp add: t [symmetric] AwaitPuncture task_weight_def)
    show ?thesis
    proof (cases "future_state s f")
      case PendingFuture
      then show ?thesis using s(2) by (simp add: AwaitPuncture pending_def future_done_def)
    next
      case (ResultFuture v)
      have "contact_node E now c j t s = ask_node E now c j k s"
        by (simp add: contact_node_def AwaitPuncture op_state_def ResultFuture)
      then show ?thesis using use [OF reaches_ask_node [OF j w, of c E now k]] by simp
    next
      case (FailedFuture e)
      then show ?thesis using s(1) by (simp add: contact_node_def AwaitPuncture op_state_def op_raise_def)
    qed
  next
    case (AwaitAnswer k f)
    have w: "task_weight (Contacted k) < task_weight (crawl_tasks cr ! j)"
      by (simp add: t [symmetric] AwaitAnswer task_weight_def)
    have answered: "reaches (like c cr) (lighter c cr)
      (op_then (op_bind (table_add now (crawl_table (crawls s ! c)) k) (\<lambda>_. op_return ()))
        (op_then
          (op_state (\<lambda>s. let (cr, r) = add_response s k a (crawls s ! c) in op_then (update_crawl c (\<lambda>_. cr)) (op_of r)))
          (set_contact c j (Contacted k))))" for a
      by (intro reaches_then keeps_bind [OF like_calm [OF calm_table_add]] keeps_return like_add_response
          reaches_set_contact j w)
    show ?thesis
    proof (cases "future_state s f")
      case PendingFuture
      then show ?thesis using s(2) by (simp add: AwaitAnswer pending_def future_done_def)
    next
      case (ResultFuture v)
      show ?thesis
      proof (cases "\<exists>a. v = FindValue a")
        case True
        then obtain a where "v = FindValue a" by blast
        then show ?thesis using use [OF answered [of a]] by (simp add: contact_node_def AwaitAnswer op_state_def ResultFuture)
      next
        case False
        then have "contact_node E now c j t s = set_contact c j (Contacted k) s"
          by (cases v) (simp_all add: contact_node_def AwaitAnswer op_state_def ResultFuture)
        then show ?thesis using use [OF reaches_set_contact(1) [OF j w]] by simp
      qed
    next
      case (FailedFuture e)
      then show ?thesis using s(1) by (simp add: contact_node_def AwaitAnswer op_state_def op_raise_def)
    qed
  next
    case (Contacted k)
    then show ?thesis using s(2) by (simp add: pending_def)
  qed
qed

text \<open>A step of a task that does not wait makes its crawl smaller; a task that waits changes nothing.\<close>

lemma contact_step_lighter:
  assumes c: "c < length (crawls s)" and j: "j < length (crawl_tasks (crawls s ! c))"
    and t: "\<not> pending s (crawl_tasks (crawls s ! c) ! j)"
  shows "lighter c (crawls s ! c) (fst (contact_step E now c j s))"
proof -
  let ?cr = "crawls s ! c" and ?t = "crawl_tasks (crawls s ! c) ! j"
  have l: "like c ?cr s" using c by (simp add: like_def)
  have w: "task_weight (Contacted (contact_of ?t)) < task_weight ?t"
    using t by (cases ?t) (auto simp: task_weight_def pending_def)
  note node = reaches_contact_node [OF j refl l t, of E now]
  show ?thesis
  proof (cases "snd (contact_node E now c j ?t s)")
    case (Inl e)
    then have "like c ?cr (fst (contact_node E now c j ?t s))" using node by (auto split: prod.splits)
    then have "lighter c ?cr (fst (set_contact c j (Contacted (contact_of ?t)) (fst (contact_node E now c j ?t s))))"
      using reaches_set_contact(2) [OF j w, of c] by (simp add: leads_def)
    then show ?thesis using c j Inl
      by (cases "contact_node E now c j ?t s") (auto simp: contact_step_def op_state_def op_catch_def Let_def)
  next
    case (Inr x)
    then have "lighter c ?cr (fst (contact_node E now c j ?t s))" using node by (auto split: prod.splits)
    then show ?thesis using c j Inr
      by (cases "contact_node E now c j ?t s") (auto simp: contact_step_def op_state_def op_catch_def Let_def)
  qed
qed

lemma contact_step_waits:
  assumes "pending s (crawl_tasks (crawls s ! c) ! j)"
  shows "crawls (fst (contact_step E now c j s)) = crawls s"
  using assms
  by (cases "crawl_tasks (crawls s ! c) ! j")
    (auto simp: contact_step_def op_state_def op_catch_def contact_node_def op_return_def pending_def future_done_def
      split: dht_future.splits)

subsection \<open>The step of a crawl\<close>

definition loop_weight :: "crawl \<Rightarrow> nat" where
  "loop_weight cr = 5 * (MAX_CRAWL_REQUESTS - length (nodes_tried cr)) + sum_list (map task_weight (crawl_tasks cr))"

lemma crawl_measure_loop: "crawl_measure cr = loop_weight cr + stage_weight (crawl_stage cr)"
  by (simp add: crawl_measure_def loop_weight_def)

text \<open>Starting a task takes more from the requests that are left than it adds.\<close>

lemma fill_loop_weight:
  "crawl_ok s (cr\<lparr>nodes_todo := todo\<rparr>) \<Longrightarrow>
     loop_weight (fill_loop s todo cr) \<le> loop_weight cr \<and> crawl_stage (fill_loop s todo cr) = crawl_stage cr \<and>
     length (crawl_tasks cr) \<le> length (crawl_tasks (fill_loop s todo cr)) \<and>
     (loop_weight (fill_loop s todo cr) < loop_weight cr \<or> crawl_tasks (fill_loop s todo cr) = crawl_tasks cr)"
proof (induction s todo cr rule: fill_loop.induct)
  case (2 s k p todo cr)
  show ?case
  proof (cases "length (nodes_tried cr) < MAX_CRAWL_REQUESTS \<and> length (crawl_tasks cr) < MAX_CRAWL_TASKS")
    case True
    have "node_key s k \<notin> node_key s ` set (nodes_tried cr)" using "2.prems" by (simp add: crawl_ok_def)
    then have new: "\<not> node_in s k (nodes_tried cr)"
      by (auto simp: node_in_def list_ex_iff peer_eq_def rev_image_eqI simp flip: node_key_def)
    let ?cr = "cr\<lparr>crawl_tasks := crawl_tasks cr @ [StartContact k p], nodes_tried := nodes_tried cr @ [k]\<rparr>"
    have "crawl_ok s (?cr\<lparr>nodes_todo := todo\<rparr>)" using "2.prems" True by (auto simp: crawl_ok_def)
    moreover have "loop_weight ?cr < loop_weight cr"
      using True by (auto simp: loop_weight_def task_weight_def)
    ultimately show ?thesis using "2.IH" [OF True] True new by fastforce
  next
    case False
    then have "fill_loop s ((k, p) # todo) cr = cr\<lparr>nodes_todo := (k, p) # todo\<rparr>" by auto
    then show ?thesis by (simp add: loop_weight_def)
  qed
qed (simp add: loop_weight_def)

text \<open>The loop makes a step when a task has ended or there is none.\<close>

lemma contacted_weight:
  "list_ex is_contacted ts \<Longrightarrow> sum_list (map task_weight (filter (\<lambda>t. \<not> is_contacted t) ts)) < sum_list (map task_weight ts)"
proof (induction ts)
  case (Cons t ts)
  have "sum_list (map task_weight (filter (\<lambda>t. \<not> is_contacted t) ts)) \<le> sum_list (map task_weight ts)" by (induction ts) auto
  moreover have "is_contacted t \<Longrightarrow> 0 < task_weight t" by (auto simp: is_contacted_def task_weight_def split: contact.splits)
  ultimately show ?case using Cons by auto
qed simp

lemma task_weights: "sum_list (map task_weight ts) \<le> 4 * length ts"
proof (induction ts)
  case (Cons t ts)
  have "task_weight t \<le> 4" by (simp add: task_weight_def split: contact.split)
  then show ?case using Cons by simp
qed simp

lemma ended_lighter:
  assumes "like c cr s" "stage_weight st < stage_weight (crawl_stage cr)"
  shows "lighter c cr (s\<lparr>crawls := (crawls s)[c := (crawls s ! c)\<lparr>crawl_stage := st\<rparr>]\<rparr>)"
  using assms by (simp add: like_def lighter_def crawl_measure_def)

lemma reaches_finish_crawl:
  assumes "crawl_stage cr = Crawling"
  shows "reaches (like c cr) (lighter c cr) (finish_crawl E now c)" "leads (like c cr) (lighter c cr) (end_crawl c r)"
proof -
  have upd: "reaches (like c cr) (lighter c cr) (update_crawl c (\<lambda>cr. cr\<lparr>crawl_stage := st\<rparr>))"
    "leads (like c cr) (lighter c cr) (update_crawl c (\<lambda>cr. cr\<lparr>crawl_stage := st\<rparr>))" if "stage_weight st < 2" for st
    unfolding update_crawl_def
    using ended_lighter that assms by (auto intro!: reaches_modify leads_modify simp: stage_weight_def)
  then have e: "reaches (like c cr) (lighter c cr) (end_crawl c r)" for r
    by (simp add: end_crawl_def stage_weight_def)
  show "leads (like c cr) (lighter c cr) (end_crawl c r)" using upd by (simp add: end_crawl_def stage_weight_def)
  show "reaches (like c cr) (lighter c cr) (finish_crawl E now c)"
    unfolding finish_crawl_def Let_def
    by (auto intro!: reaches_state reaches_bind [OF keeps_of] reaches_bind [OF like_calm [OF calm_store_on_nodes]] e upd
        simp: stage_weight_def split: option.split list.split)
qed

lemma crawl_continue_lighter:
  assumes c: "c < length (crawls s)" and ok: "crawl_ok s (crawls s ! c)" and stage: "crawl_stage (crawls s ! c) = Crawling"
    and due: "crawl_tasks (crawls s ! c) = [] \<or> list_ex is_contacted (crawl_tasks (crawls s ! c))"
  shows "lighter c (crawls s ! c) (fst (crawl_continue E now c s))"
proof -
  let ?cr = "crawls s ! c"
  let ?left = "?cr\<lparr>crawl_tasks := filter (\<lambda>t. \<not> is_contacted t) (crawl_tasks ?cr)\<rparr>"
  define cr' where "cr' = fill_tasks s ?left"
  let ?s = "s\<lparr>crawls := (crawls s)[c := cr']\<rparr>"
  have "crawl_ok s (?left\<lparr>nodes_todo := nodes_todo ?left\<rparr>)"
    using ok by (auto simp: crawl_ok_def intro: order.trans [OF length_filter_le])
  note fill = fill_loop_weight [OF this]
  have left: "loop_weight ?left \<le> loop_weight ?cr" "list_ex is_contacted (crawl_tasks ?cr) \<Longrightarrow> loop_weight ?left < loop_weight ?cr"
    using contacted_weight [of "crawl_tasks ?cr"] sum_list_filter_le_nat [of task_weight "\<lambda>t. \<not> is_contacted t" "crawl_tasks ?cr"]
    by (simp_all add: loop_weight_def)
  have st: "crawl_stage cr' = Crawling" using fill stage by (simp add: cr'_def fill_tasks_def)
  have run: "fst (crawl_continue E now c s) =
      fst (op_when (crawl_tasks cr' = []) (op_catch (finish_crawl E now c) (\<lambda>e. end_crawl c (raise e))) ?s)"
    by (simp add: crawl_continue_def op_state_def Let_def op_then_def op_bind_def update_crawl_def op_modify_def cr'_def)
  show ?thesis
  proof (cases "crawl_tasks cr' = []")
    case True
    have "like c cr' ?s" using c by (simp add: like_def)
    then have "lighter c cr' (fst (crawl_continue E now c s))"
      using True st reaches_catch [OF reaches_finish_crawl(1) reaches_finish_crawl(2), of cr' c E now]
      unfolding run by (simp add: op_when_def leads_def)
    moreover have "crawl_measure cr' \<le> crawl_measure ?cr"
      using fill left(1) stage st by (simp add: crawl_measure_loop cr'_def fill_tasks_def)
    ultimately show ?thesis by (simp add: lighter_def)
  next
    case False
    have "loop_weight cr' < loop_weight ?cr"
    proof (cases "list_ex is_contacted (crawl_tasks ?cr)")
      case True
      then show ?thesis using left fill by (simp add: cr'_def fill_tasks_def)
    next
      case no: False
      then have "crawl_tasks ?left = []" using due by simp
      then have "crawl_tasks cr' \<noteq> crawl_tasks ?left" using False by simp
      then show ?thesis using left(1) fill unfolding cr'_def fill_tasks_def by linarith
    qed
    then show ?thesis using False c st stage unfolding run
      by (simp add: op_when_def op_return_def lighter_def crawl_measure_loop)
  qed
qed

lemma crawl_step_lighter:
  assumes c: "c < length (crawls s)" and ok: "crawl_ok s (crawls s ! c)"
  shows "crawl_step E now c s = (s, return ()) \<or> lighter c (crawls s ! c) (fst (crawl_step E now c s))"
proof (cases "crawl_stage (crawls s ! c)")
  case Crawling
  then show ?thesis
    using crawl_continue_lighter [OF c ok Crawling, of E now] c
    by (auto simp: crawl_step_def op_state_def Let_def op_when_def op_return_def)
next
  case (Caching fs)
  show ?thesis
  proof (cases "list_all (future_done s) fs")
    case True
    have "lighter c (crawls s ! c) (fst (crawl_step E now c s))"
      using ended_lighter [of c "crawls s ! c" s "CrawlEnded (crawl_result E (crawls s ! c))"] True Caching c
      by (simp add: crawl_step_def op_state_def Let_def op_when_def end_crawl_def update_crawl_def op_modify_def like_def
          stage_weight_def)
    then show ?thesis ..
  next
    case False
    then show ?thesis using Caching c by (simp add: crawl_step_def op_state_def Let_def op_when_def op_return_def)
  qed
qed (use c in \<open>simp add: crawl_step_def op_state_def Let_def op_return_def\<close>)

text \<open>While a crawl has not ended, one of its steps does something, or it waits for a future.\<close>

lemma crawl_progress:
  assumes c: "c < length (crawls s)" and ok: "crawl_ok s (crawls s ! c)" and live: "\<And>r. crawl_stage (crawls s ! c) \<noteq> CrawlEnded r"
  shows "(\<exists>f \<in> awaited (crawls s ! c). \<not> future_done s f) \<or> lighter c (crawls s ! c) (fst (crawl_step E now c s)) \<or>
    (\<exists>j < length (crawl_tasks (crawls s ! c)). lighter c (crawls s ! c) (fst (contact_step E now c j s)))"
proof (cases "crawl_stage (crawls s ! c)")
  case Crawling
  let ?ts = "crawl_tasks (crawls s ! c)"
  show ?thesis
  proof (cases "?ts = [] \<or> list_ex is_contacted ?ts")
    case True
    then have "lighter c (crawls s ! c) (fst (crawl_step E now c s))"
      using crawl_continue_lighter [OF c ok Crawling True] c Crawling
      by (auto simp: crawl_step_def op_state_def Let_def op_when_def)
    then show ?thesis by blast
  next
    case False
    then have j: "0 < length ?ts" and t: "\<not> is_contacted (?ts ! 0)" by (auto simp: list_ex_iff)
    show ?thesis
    proof (cases "pending s (?ts ! 0)")
      case True
      then have "\<exists>f \<in> awaited (crawls s ! c). \<not> future_done s f"
        using t nth_mem [OF j] by (cases "?ts ! 0") (auto simp: pending_def is_contacted_def awaited_def)
      then show ?thesis ..
    next
      case False
      then show ?thesis using contact_step_lighter [OF c j False] j by blast
    qed
  qed
next
  case (Caching fs)
  then show ?thesis
    using ended_lighter [of c "crawls s ! c" s "CrawlEnded (crawl_result E (crawls s ! c))"] c
    by (cases "list_all (future_done s) fs")
      (auto simp: crawl_step_def op_state_def Let_def op_when_def end_crawl_def update_crawl_def op_modify_def like_def
          stage_weight_def awaited_def list_all_iff)
next
  case (CrawlEnded r)
  then show ?thesis using live by blast
qed

text \<open>
  C36: in every reachable state, the own steps of a crawl either leave it as it is or make a measure of it smaller, which is
  138 at most; and while it has not ended, one of its steps makes the measure smaller unless it waits for the future of a
  request. So every search ends once its requests have been answered or have timed out.
\<close>

theorem crawls_end:
  assumes "sha1_hashes E" "dht_reachable E s" "c < length (crawls s)"
  shows "crawl_measure (crawls s ! c) \<le> 138 \<and>
    (crawl_step E now c s = (s, return ()) \<or>
      crawl_measure (crawls (fst (crawl_step E now c s)) ! c) < crawl_measure (crawls s ! c)) \<and>
    (\<forall>j. crawls (fst (contact_step E now c j s)) = crawls s \<or>
      crawl_measure (crawls (fst (contact_step E now c j s)) ! c) < crawl_measure (crawls s ! c)) \<and>
    (case crawl_stage (crawls s ! c) of CrawlEnded r \<Rightarrow> True
     | _ \<Rightarrow> (\<exists>f \<in> awaited (crawls s ! c). \<not> future_done s f) \<or>
         crawl_measure (crawls (fst (crawl_step E now c s)) ! c) < crawl_measure (crawls s ! c) \<or>
         (\<exists>j < length (crawl_tasks (crawls s ! c)).
            crawl_measure (crawls (fst (contact_step E now c j s)) ! c) < crawl_measure (crawls s ! c)))"
proof -
  have ok: "crawl_ok s (crawls s ! c)"
    using tables.reachable_ok [OF assms(2,1)] assms(3) by (simp add: tables.ok_def overlay_ok_def list_all_length)
  have contact: "crawls (fst (contact_step E now c j s)) = crawls s \<or> lighter c (crawls s ! c) (fst (contact_step E now c j s))" for j
  proof (cases "j < length (crawl_tasks (crawls s ! c))")
    case True
    then show ?thesis using contact_step_waits contact_step_lighter [OF assms(3)] by blast
  qed (simp add: contact_step_def op_state_def op_return_def)
  have stage: "stage_weight st \<le> 2" for st by (simp add: stage_weight_def split: crawl_stage.split)
  have "crawl_measure (crawls s ! c) \<le> 5 * 24 + 4 * 4 + 2"
    using ok task_weights [of "crawl_tasks (crawls s ! c)"] stage [of "crawl_stage (crawls s ! c)"]
    unfolding crawl_measure_def crawl_ok_def MAX_CRAWL_REQUESTS_def MAX_CRAWL_TASKS_def by linarith
  then show ?thesis
    using crawl_step_lighter [OF assms(3) ok, of E now] crawl_progress [OF assms(3) ok, of E now] contact
    by (auto simp: lighter_def split: crawl_stage.split)
qed

section \<open>Identifiers by their bytes, for evaluation\<close>

lemma bits_of_nat_bit: "bits_of_nat w n = rev (map (bit n) [0..<w])"
proof (induction w arbitrary: n)
  case (Suc w)
  have "[0..<Suc w] = 0 # map Suc [0..<w]" by (simp add: upt_conv_Cons map_Suc_upt del: upt_Suc)
  then show ?case by (simp add: Suc bit_Suc bit_0 comp_def del: upt_Suc)
qed simp

definition byte_bits :: "byte \<Rightarrow> bool list" where
  "byte_bits b = [bit b 7, bit b 6, bit b 5, bit b 4, bit b 3, bit b 2, bit b 1, bit b 0]"

lemma bits_of_nat_byte: "bits_of_nat (w + 8) (256 * n + unat b) = bits_of_nat w n @ byte_bits (b :: byte)"
proof -
  have small: "unat b < 256" using unsigned_less [of b] by simp
  have b: "(256 * n + unat b) div 2 ^ j mod 2 = unat b div 2 ^ j mod 2" if "j < 8" for j
  proof -
    have "(256 :: nat) = 2 ^ Suc (7 - j) * 2 ^ j" using that by (simp flip: power_add del: power_Suc)
    then have "256 * n + unat b = unat b + 2 * (2 ^ (7 - j) * n) * 2 ^ j" by (simp add: ac_simps)
    then show ?thesis by (simp only: div_mult_self1 power_not_zero mod_mult_self2) simp
  qed
  have "bit (256 * n + unat b) j = bit b j" if "j < 8" for j
  proof -
    have "bit b j \<longleftrightarrow> bit (unat b) j" using that by (simp add: bit_unsigned_iff)
    then show ?thesis using b [OF that] by (simp add: bit_iff_odd odd_iff_mod_2_eq_one)
  qed
  moreover have "bit (256 * n + unat b) (8 + j) = bit n j" for j
    using small by (simp add: bit_iff_odd power_add div_mult2_eq)
  moreover have "[0..<w + 8] = [0..<8] @ map ((+) 8) [0..<w]" by (rule nth_equalityI) (auto simp: nth_append simp del: upt_Suc)
  moreover have "[0..<8] = [0, 1, 2, 3, 4, 5, 6, 7]" by (simp add: upt_rec)
  ultimately show ?thesis by (simp add: bits_of_nat_bit byte_bits_def comp_def)
qed

lemma bits_of_bytes: "bits_of_nat (8 * length i) (nat_of_bytes i) = concat (map byte_bits i)"
proof (induction i rule: rev_induct)
  case (snoc b bs)
  then show ?case using bits_of_nat_byte [of "8 * length bs" "nat_of_bytes bs" b] by (simp add: add.commute)
qed simp

lemma id_to_binary_string_code [code]:
  "id_to_binary_string i =
     (if length i = 20 then return (map bit_char (concat (map byte_bits i)))
      else bind_result (int_of_id i) (\<lambda>n. return (format_binary 160 n)))"
proof (cases "length i = 20")
  case True
  then show ?thesis using bits_of_bytes [of i] by (simp add: id_to_binary_string_20 bin_def id_bits_def)
qed (simp add: id_to_binary_string_def)

section \<open>Tokens\<close>

lemma token_secrets_maintenance:
  "token_secrets (fst (token_maintenance now x s)) = drop (length (token_secrets s) - 1) (token_secrets s) @ [x]"
  by (cases "token_secrets s") (simp_all add: token_maintenance_def op_modify_def Let_def)

lemma last_secret: "xs \<noteq> [] \<Longrightarrow> drop (length xs - 1) xs = [last xs]"
  by (induction xs rule: rev_induct) simp_all

text \<open>
  C39: a token that is handed out is accepted now and after one change of the secret; after two changes it is accepted only
  when it is also the token of one of the two newer secrets.
\<close>

theorem tokens_last_one_rotation:
  assumes "generate_token E n s = return token"
  shows "check_token E n token s \<and> check_token E n token (fst (token_maintenance t x s)) \<and>
    (check_token E n token (fst (token_maintenance u y (fst (token_maintenance t x s)))) \<longleftrightarrow>
       token \<in> {make_token E n x, make_token E n y})"
proof -
  have s: "token_secrets s \<noteq> []" "token = make_token E n (last (token_secrets s))"
    using assms by (auto simp: generate_token_def split: if_splits)
  have "token_secrets (fst (token_maintenance t x s)) = [last (token_secrets s), x]"
    using last_secret [OF s(1)] by (simp add: token_secrets_maintenance)
  moreover from this have "token_secrets (fst (token_maintenance u y (fst (token_maintenance t x s)))) = [x, y]"
    by (simp add: token_secrets_maintenance)
  ultimately show ?thesis
    using s by (auto simp: check_token_def list_ex_iff)
qed

lemma get_requesting_node_storages:
  "storages (fst (get_requesting_node E now p s)) = storages s \<and> dht_out (fst (get_requesting_node E now p s)) = dht_out s"
proof -
  let ?P = "\<lambda>s'. storages s' = storages s \<and> dht_out s' = dht_out s"
  have frame: "keeps ?P (op_modify f)" if "\<And>s. storages (f s) = storages s \<and> dht_out (f s) = dht_out s" for f
    using that by (auto intro: keeps_modify)
  have table: "keeps ?P (get_routing_table E c)" for c
    unfolding get_routing_table_def
    by (intro keeps_state keeps_option keeps_return keeps_bind keeps_of keeps_then frame) simp
  have node: "keeps ?P (new_node E now k a)" for k a
    unfolding new_node_def by (intro keeps_state keeps_return keeps_bind keeps_of keeps_then frame) simp
  have add: "keeps ?P (table_add now c k)" for c k
    unfolding table_add_def
    by (auto intro!: keeps_state keeps_raise keeps_then frame keeps_bind keeps_of keeps_return
        simp: set_table_def same_objects_def split: option.split)
  have update: "keeps ?P (update_node k f)" for k f
    unfolding update_node_def by (rule frame) (simp add: same_objects_def)
  have "keeps ?P (get_requesting_node E now p)"
    unfolding get_requesting_node_def Let_def
    by (intro keeps_bind table node keeps_state keeps_of keeps_if keeps_return add keeps_then update)
  then show ?thesis by (rule keepsD) simp
qed

text \<open>
  C40: a store request changes no storage and is not answered unless all its values have at most 170 bytes, there are at most
  eight of them, and its token is the one that a current secret gives the requesting node.
\<close>

theorem store_requests_need_a_token:
  assumes "storages (fst (on_store_request E now p i token key values s)) \<noteq> storages s \<or>
    dht_out (fst (on_store_request E now p i token key values s)) \<noteq> dht_out s"
  shows "\<exists>s' k secret. get_requesting_node E now p s = (s', return (Some k)) \<and>
    secret \<in> set (token_secrets s') \<and> token = make_token E (node_objects s' ! k) secret \<and>
    length values \<le> 8 \<and> list_all (\<lambda>v. length v \<le> 170) values"
proof -
  obtain s' r where g: "get_requesting_node E now p s = (s', r)" by fastforce
  have same: "storages s' = storages s" "dht_out s' = dht_out s" using get_requesting_node_storages [of E now p s] g by simp_all
  show ?thesis
  proof (cases "\<exists>k. r = return (Some k) \<and> (\<forall>v \<in> set values. length v \<le> MAX_ENTRY_SIZE) \<and> length values \<le> MAX_VALUES_IN_STORE \<and>
      check_token E (node_objects s' ! k) token s'")
    case True
    then show ?thesis
      using g by (fastforce simp: check_token_def list_ex_iff list_all_iff MAX_ENTRY_SIZE_def MAX_VALUES_IN_STORE_def)
  next
    case False
    then have "fst (on_store_request E now p i token key values s) = s'"
    proof (cases r)
      case (Inr node)
      then show ?thesis
        using False g
        by (cases node) (auto simp: on_store_request_def op_bind_def op_state_def op_return_def not_le)
    qed (simp add: on_store_request_def op_bind_def g)
    then show ?thesis using assms same by simp
  qed
qed

section \<open>Values that cannot be read\<close>

text \<open>One value in an answer that raises when it is unpacked makes the whole lookup raise.\<close>

lemma map_result_raises: "x \<in> set xs \<Longrightarrow> f x = raise e \<Longrightarrow> \<exists>e'. map_result f xs = raise e'"
proof (induction xs)
  case (Cons y ys)
  then show ?case by (cases "f y"; cases "map_result f ys") (auto simp: bind_result_def)
qed simp

theorem malformed_value_fails_lookup:
  assumes "v \<in> set (crawl_values cr)" "unserialize_value E v = raise e"
  shows "\<exists>e'. crawl_result E cr = raise e'"
  using map_result_raises [of v "crawl_values cr" "unserialize_value E" e] assms by (auto simp: crawl_result_def post_process_values_def unpack_values_def)

section \<open>A concrete overlay\<close>

text \<open>The identifiers of the nodes at one address, for evaluation.\<close>

lemma calc_node_id_code [code]:
  "calc_node_id a m =
     (if addr_host a = ''127.0.0.1'' \<and> addr_class a \<noteq> UDPv6Address then return ([68, 246, 64] @ take 17 m)
      else
        bind_result
          (if addr_class a = UDPv6Address then
             (case inet_pton6 (addr_host a) of
                None \<Rightarrow> raise OSError
              | Some ip \<Rightarrow> return (map2 (AND) (take 8 ip) [0x01, 0x03, 0x07, 0x0f, 0x1f, 0x3f, 0x7f, 0xff]))
           else
             (case inet_aton (addr_host a) of
                None \<Rightarrow> raise OSError
              | Some ip \<Rightarrow> return (map2 (AND) ip [0x03, 0x0f, 0x3f, 0xff])))
          (\<lambda>ip. return (take 3 (bytes_of_nat 4 (unat (crc32 ip))) @ take 17 m)))"
  by (simp add: calc_node_id_def ex_aton ex_crc ex_crc_bytes Let_def)

declare rt_add.simps [code]

text \<open>An overlay in which the peer with key \<open>[5]\<close> stores a value and itself, before a search starts.\<close>

definition ex_dht_env :: dht_env where
  "ex_dht_env = \<lparr>de_my_key = [7], de_my_mid = replicate 20 7, de_parse_key = return, de_key_hash = (\<lambda>k. replicate 20 (hd (k @ [0]))),
     de_signature_length = (\<lambda>_. 1), de_create_signature = (\<lambda>_. [1]), de_is_valid_signature = (\<lambda>_ _ _. True),
     de_sha1 = (\<lambda>_. replicate 20 3), de_random = (\<lambda>j. j), de_community_id = []\<rparr>"

definition ex_dht_address :: address where
  "ex_dht_address = Address UDPv4Address ''127.0.0.1'' 1"

definition ex_sender :: peer where
  "ex_sender = ex_peer 5"

definition ex_start :: dht where
  "ex_start = new_dht ex_dht_env [9] [] ex_dht_address ex_dht_address"

definition ex_stored :: dht where
  "ex_stored = fst (dht_step ex_dht_env 10
     (Received ex_sender (StoreRequest 1 (replicate 20 3) (replicate 20 0) [[0, 0, 1, 65]])) ex_start)"

definition ex_peered :: dht where
  "ex_peered = fst (dht_step ex_dht_env 11
     (Received ex_sender (StorePeerRequest 2 (replicate 20 3) (replicate 20 5))) ex_stored)"

definition ex_found :: dht where
  "ex_found = fst (dht_step ex_dht_env 12 (FindValues (replicate 20 0) 0) ex_peered)"

lemma ex_hashes: "sha1_hashes ex_dht_env"
  by (simp add: sha1_hashes_def ex_dht_env_def)

lemma ex_reachable: "dht_reachable ex_dht_env ex_found"
proof -
  have "event_ok ex_dht_env (Received ex_sender m)" for m
    by (simp add: event_ok_def ex_dht_env_def ex_sender_def ex_peer_def)
  then have "dht_reachable ex_dht_env ex_peered"
    unfolding ex_peered_def ex_stored_def ex_start_def by (intro dht_reachable.intros)
  then show ?thesis unfolding ex_found_def by (rule dht_reachable.step) (simp add: event_ok_def)
qed

definition ex_value :: dht_value where
  "ex_value = new_value 10 (replicate 20 3) [0, 0, 1, 65] 3600 0"

lemma ex_found_facts:
  "dict_keys (routing_tables ex_found) = [UDPv4Address]"
  "storages ex_found = [(UDPv4Address, [(replicate 20 0, [ex_value])])]"
  "peer_store ex_found = [(replicate 20 5, [1])]"
  "map nodes_todo (crawls ex_found) = [[(0, None)]]"
  by code_simp+

theorem overlay_tables_stay_well_formed_witness:
  "\<exists>rt. dict_get (routing_tables ex_found) UDPv4Address = Some rt \<and> rt_wf rt"
proof -
  obtain rt where "dict_get (routing_tables ex_found) UDPv4Address = Some rt"
    using ex_found_facts(1) by (cases "routing_tables ex_found") auto
  from this overlay_tables_stay_well_formed [OF ex_hashes ex_reachable this] show ?thesis by blast
qed


theorem crawls_end_witness:
  "length (crawls ex_found) = 1 \<and> crawl_measure (crawls ex_found ! 0) \<le> 138 \<and>
   (crawl_step ex_dht_env 13 0 ex_found = (ex_found, return ()) \<or>
      crawl_measure (crawls (fst (crawl_step ex_dht_env 13 0 ex_found)) ! 0) < crawl_measure (crawls ex_found ! 0))"
proof -
  have l: "length (crawls ex_found) = 1" using arg_cong [OF ex_found_facts(4), of length] by simp
  then have "0 < length (crawls ex_found)" by simp
  from crawls_end [OF ex_hashes ex_reachable this, of 13] l show ?thesis by blast
qed


theorem peers_are_stored_under_their_own_hash_witness:
  "dict_get (peer_store ex_found) (replicate 20 5) = Some [1] \<and> mid (node_objects ex_found ! 1) = replicate 20 5"
proof -
  have s: "dict_get (peer_store ex_found) (replicate 20 5) = Some [1]" by (simp add: ex_found_facts(3) dict_simps)
  from peers_are_stored_under_their_own_hash [OF ex_hashes ex_reachable this] s show ?thesis by simp
qed

theorem tokens_last_one_rotation_witness:
  "check_token ex_dht_env (ex_node 5) (replicate 20 3) (fst (token_maintenance 7 [1] ex_start))"
proof -
  have "generate_token ex_dht_env (ex_node 5) ex_start = return (replicate 20 3)"
    by (simp add: generate_token_def ex_start_def new_dht_def make_token_def ex_dht_env_def)
  from tokens_last_one_rotation [OF this] show ?thesis by blast
qed

theorem store_requests_need_a_token_witness:
  "\<exists>s' k secret. get_requesting_node ex_dht_env 10 ex_sender ex_start = (s', return (Some k)) \<and>
     secret \<in> set (token_secrets s') \<and> replicate 20 3 = make_token ex_dht_env (node_objects s' ! k) secret"
proof -
  have "storages (fst (on_store_request ex_dht_env 10 ex_sender 1 (replicate 20 3) (replicate 20 0) [[0, 0, 1, 65]] ex_start)) \<noteq>
      storages ex_start"
    by code_simp
  from store_requests_need_a_token [OF disjI1, OF this] show ?thesis by blast
qed

end
