(* ===== verification/Spec2Isabelle.thy ===== *)
theory Spec2Isabelle
  imports Routing_Properties Trie_Properties Peer_Properties Storage Serialization_Properties Payload_Properties
    TaskManager_Properties RequestCache_Properties Network_Properties BonehExact_Properties Identity_Properties TunnelCommunity_Properties
    DHT_Properties
begin

text \<open>
  Verification development for py-ipv8.
\<close>

end
